(* ===== verification/Prelude.thy ===== *)
theory Prelude
  imports Complex_Main "HOL-Library.AList"
begin

text \<open>
  The JavaScript base of the model: what the language and its standard library do with
  arrays, strings, numbers and plain objects, as far as the modelled code uses them.

  A reference that may be \<open>null\<close> is an \<open>option\<close>; reading an array out of range gives
  \<open>undefined\<close>, which every comparison of the code with \<open>null\<close> treats as \<open>null\<close>, so both
  are \<open>None\<close>.  Array indices are \<open>int\<close>, because the code computes \<open>-1\<close> for "not found" and
  passes it on.  Numbers that are not indices (coordinates, numeric identifiers) are \<open>rat\<close>:
  the exact value of the double, without its rounding, NaN and infinities.
  A plain object used as a dictionary is an association list in insertion order.
\<close>

named_theorems js_array \<open>facts about the array primitives\<close>
named_theorems js_string \<open>facts about the string primitives\<close>

type_synonym jsnum = rat
type_synonym 'v jsobj = "(string \<times> 'v) list"

subsection \<open>Arrays\<close>

text \<open>\<open>xs[i]\<close>.\<close>

definition js_at :: "'a list \<Rightarrow> int \<Rightarrow> 'a option" where
  "js_at xs i = (if 0 \<le> i \<and> i < int (length xs) then Some (xs ! nat i) else None)"

text \<open>The start position of \<open>splice\<close>: a negative one counts from the end, both are clamped.\<close>

definition js_splice_pos :: "'a list \<Rightarrow> int \<Rightarrow> nat" where
  "js_splice_pos xs i =
     (if i < 0 then nat (int (length xs) + i) else min (nat i) (length xs))"

text \<open>\<open>xs.splice(i, 0, x)\<close> and \<open>xs.splice(i, 1)\<close>.\<close>

definition js_insert_at :: "'a list \<Rightarrow> int \<Rightarrow> 'a \<Rightarrow> 'a list" where
  "js_insert_at xs i x = (let p = js_splice_pos xs i in take p xs @ x # drop p xs)"

definition js_delete_at :: "'a list \<Rightarrow> int \<Rightarrow> 'a list" where
  "js_delete_at xs i = (let p = js_splice_pos xs i in take p xs @ drop (Suc p) xs)"

lemma js_at_nat [simp]: "i < length xs \<Longrightarrow> js_at xs (int i) = Some (xs ! i)"
  by (simp add: js_at_def)

lemma js_at_in_set: "js_at xs i = Some x \<Longrightarrow> x \<in> set xs"
  by (auto simp: js_at_def split: if_splits)

lemma js_at_SomeD: "js_at xs i = Some x \<Longrightarrow> 0 \<le> i \<and> nat i < length xs \<and> xs ! nat i = x"
  by (auto simp: js_at_def split: if_splits)

lemma js_splice_pos_le [simp]: "js_splice_pos xs i \<le> length xs"
  by (auto simp: js_splice_pos_def)

lemma js_splice_pos_nat [simp]: "i \<le> length xs \<Longrightarrow> js_splice_pos xs (int i) = i"
  by (simp add: js_splice_pos_def)

lemma js_insert_at_split:
  obtains ys zs where "xs = ys @ zs" and "js_insert_at xs i x = ys @ x # zs"
proof -
  let ?p = "js_splice_pos xs i"
  have "xs = take ?p xs @ drop ?p xs" and "js_insert_at xs i x = take ?p xs @ x # drop ?p xs"
    by (simp_all add: js_insert_at_def Let_def)
  then show ?thesis by (rule that)
qed

lemma set_js_insert_at [simp]: "set (js_insert_at xs i x) = insert x (set xs)"
proof -
  obtain ys zs where "xs = ys @ zs" and "js_insert_at xs i x = ys @ x # zs"
    by (rule js_insert_at_split)
  then show ?thesis by auto
qed

lemma distinct_js_insert_at [simp]:
  "distinct (js_insert_at xs i x) \<longleftrightarrow> distinct xs \<and> x \<notin> set xs"
proof -
  obtain ys zs where "xs = ys @ zs" and "js_insert_at xs i x = ys @ x # zs"
    by (rule js_insert_at_split)
  then show ?thesis by auto
qed

lemma remove1_js_insert_at [simp]: "x \<notin> set xs \<Longrightarrow> remove1 x (js_insert_at xs i x) = xs"
proof -
  assume "x \<notin> set xs"
  moreover obtain ys zs where "xs = ys @ zs" and "js_insert_at xs i x = ys @ x # zs"
    by (rule js_insert_at_split)
  ultimately show ?thesis by (simp add: remove1_append)
qed

lemma length_js_insert_at [simp]: "length (js_insert_at xs i x) = Suc (length xs)"
  by (simp add: js_insert_at_def Let_def)

lemma js_delete_at_nat:
  "i < length xs \<Longrightarrow> js_delete_at xs (int i) = take i xs @ drop (Suc i) xs"
  by (simp add: js_delete_at_def)

lemma set_js_delete_at_subset: "set (js_delete_at xs i) \<subseteq> set xs"
  unfolding js_delete_at_def Let_def
  by (auto dest: in_set_takeD in_set_dropD)

lemma distinct_js_delete_at:
  assumes "distinct xs"
  shows "distinct (js_delete_at xs i)"
proof -
  let ?p = "js_splice_pos xs i"
  have "set (take ?p xs) \<inter> set (drop (Suc ?p) xs) = {}"
    using set_take_disj_set_drop_if_distinct [OF assms, of ?p "Suc ?p"] by simp
  with assms show ?thesis
    unfolding js_delete_at_def Let_def by simp
qed

text \<open>Deleting the position of an element that occurs once removes that element.\<close>

lemma take_drop_Suc_remove1:
  "distinct xs \<Longrightarrow> i < length xs \<Longrightarrow> take i xs @ drop (Suc i) xs = remove1 (xs ! i) xs"
proof (induction xs arbitrary: i)
  case Nil
  then show ?case by simp
next
  case (Cons x xs)
  then show ?case by (cases i) auto
qed

text \<open>Inserting and deleting at the same position are inverse to each other.\<close>

lemma js_delete_insert_at:
  "js_delete_at (js_insert_at xs (int i) x) (int i) = xs" if "i \<le> length xs"
  using that by (simp add: js_insert_at_def js_delete_at_def Let_def js_splice_pos_def min_def)

lemma js_insert_delete_at:
  "js_insert_at (js_delete_at xs (int i)) (int i) (xs ! i) = xs" if "i < length xs"
proof -
  have "length (js_delete_at xs (int i)) = length xs - 1"
    using that by (simp add: js_delete_at_nat)
  then have "js_splice_pos (js_delete_at xs (int i)) (int i) = i"
    using that by (simp add: js_splice_pos_def)
  then show ?thesis
    using that by (simp add: js_insert_at_def js_delete_at_nat id_take_nth_drop [symmetric])
qed

end
