(* ===== verification/Geometry.thy ===== *)
theory Geometry
  imports Prelude
begin

text \<open>
  Points, rectangles and cell geometries (util/mxPoint.js, util/mxRectangle.js,
  model/mxGeometry.js) and the planar predicates of util/mxUtils.js.  Coordinates are exact
  rationals.  The methods that write the fields of \<open>this\<close> return the updated record.
\<close>

named_theorems geometry_defs \<open>the definitions of the point and rectangle operations\<close>

subsection \<open>mxPoint and mxRectangle\<close>

record mxPoint =
  px :: jsnum
  py :: jsnum

record mxRectangle = mxPoint +
  width :: jsnum
  height :: jsnum

definition js_default :: "jsnum option \<Rightarrow> jsnum" where
  "js_default v = (case v of Some x \<Rightarrow> x | None \<Rightarrow> 0)"

definition new_mxPoint :: "jsnum option \<Rightarrow> jsnum option \<Rightarrow> mxPoint" where
  "new_mxPoint x y = \<lparr>px = js_default x, py = js_default y\<rparr>"

definition point_equals :: "mxPoint \<Rightarrow> mxPoint option \<Rightarrow> bool" where
  "point_equals p obj =
     (case obj of None \<Rightarrow> False | Some q \<Rightarrow> px q = px p \<and> py q = py p)"

definition new_mxRectangle ::
  "jsnum option \<Rightarrow> jsnum option \<Rightarrow> jsnum option \<Rightarrow> jsnum option \<Rightarrow> mxRectangle" where
  "new_mxRectangle x y w h =
     \<lparr>px = js_default x, py = js_default y, width = js_default w, height = js_default h\<rparr>"

definition setRect :: "jsnum \<Rightarrow> jsnum \<Rightarrow> jsnum \<Rightarrow> jsnum \<Rightarrow> 'a mxRectangle_scheme \<Rightarrow> 'a mxRectangle_scheme"
  where [geometry_defs]: "setRect x y w h r = r\<lparr>px := x, py := y, width := w, height := h\<rparr>"

definition getCenterX :: "'a mxRectangle_scheme \<Rightarrow> jsnum" where
  [geometry_defs]: "getCenterX r = px r + width r / 2"

definition getCenterY :: "'a mxRectangle_scheme \<Rightarrow> jsnum" where
  [geometry_defs]: "getCenterY r = py r + height r / 2"

text \<open>\<open>mxRectangle.prototype.add\<close>: the union with another rectangle.\<close>

definition rect_add :: "'a mxRectangle_scheme \<Rightarrow> 'b mxRectangle_scheme option \<Rightarrow> 'a mxRectangle_scheme"
  where [geometry_defs]:
  "rect_add r rect =
     (case rect of
        None \<Rightarrow> r
      | Some q \<Rightarrow>
          (let minX = min (px r) (px q);
               minY = min (py r) (py q);
               maxX = max (px r + width r) (px q + width q);
               maxY = max (py r + height r) (py q + height q)
           in r\<lparr>px := minX, py := minY, width := maxX - minX, height := maxY - minY\<rparr>))"

definition rect_intersect ::
  "'a mxRectangle_scheme \<Rightarrow> 'b mxRectangle_scheme option \<Rightarrow> 'a mxRectangle_scheme" where
  [geometry_defs]:
  "rect_intersect r rect =
     (case rect of
        None \<Rightarrow> r
      | Some q \<Rightarrow>
          (let r1 = px r + width r; r2 = px q + width q;
               b1 = py r + height r; b2 = py q + height q;
               x' = max (px r) (px q); y' = max (py r) (py q)
           in r\<lparr>px := x', py := y', width := min r1 r2 - x', height := min b1 b2 - y'\<rparr>))"

definition rect_grow :: "jsnum \<Rightarrow> 'a mxRectangle_scheme \<Rightarrow> 'a mxRectangle_scheme" where
  [geometry_defs]:
  "rect_grow amount r =
     r\<lparr>px := px r - amount, py := py r - amount,
       width := width r + 2 * amount, height := height r + 2 * amount\<rparr>"

definition getPoint :: "'a mxRectangle_scheme \<Rightarrow> mxPoint" where
  "getPoint r = new_mxPoint (Some (px r)) (Some (py r))"

definition rotate90 :: "'a mxRectangle_scheme \<Rightarrow> 'a mxRectangle_scheme" where
  [geometry_defs]:
  "rotate90 r =
     (let t = (width r - height r) / 2
      in r\<lparr>px := px r + t, py := py r - t, width := height r, height := width r\<rparr>)"

definition rect_equals :: "'a mxRectangle_scheme \<Rightarrow> 'b mxRectangle_scheme option \<Rightarrow> bool" where
  "rect_equals r obj =
     (case obj of
        None \<Rightarrow> False
      | Some q \<Rightarrow> px q = px r \<and> py q = py r \<and> width q = width r \<and> height q = height r)"

definition fromRectangle :: "'a mxRectangle_scheme \<Rightarrow> mxRectangle" where
  "fromRectangle r =
     new_mxRectangle (Some (px r)) (Some (py r)) (Some (width r)) (Some (height r))"

text \<open>The closed region a rectangle covers, and inclusion of regions by their corners.\<close>

definition covers :: "'a mxRectangle_scheme \<Rightarrow> jsnum \<Rightarrow> jsnum \<Rightarrow> bool" where
  "covers r x y \<longleftrightarrow> px r \<le> x \<and> x \<le> px r + width r \<and> py r \<le> y \<and> y \<le> py r + height r"

definition rect_within :: "'a mxRectangle_scheme \<Rightarrow> 'b mxRectangle_scheme \<Rightarrow> bool" where
  "rect_within r q \<longleftrightarrow>
     px q \<le> px r \<and> py q \<le> py r \<and> px r + width r \<le> px q + width q \<and>
     py r + height r \<le> py q + height q"

lemma rect_add_upper: "rect_within r (rect_add r (Some q))" "rect_within q (rect_add r (Some q))"
  by (simp_all add: rect_within_def rect_add_def Let_def)

lemma rect_add_least:
  "rect_within r b \<Longrightarrow> rect_within q b \<Longrightarrow> rect_within (rect_add r (Some q)) b"
  by (simp add: rect_within_def rect_add_def Let_def)

lemma rect_intersect_covers:
  "covers (rect_intersect r (Some q)) x y \<longleftrightarrow> covers r x y \<and> covers q x y"
  by (auto simp: covers_def rect_intersect_def Let_def)

lemma rotate90_rotate90 [simp]: "rotate90 (rotate90 r) = (r :: mxRectangle)"
  by (cases r) (simp add: rotate90_def Let_def field_simps)

lemma rotate90_center [simp]:
  "getCenterX (rotate90 r) = getCenterX r" "getCenterY (rotate90 r) = getCenterY r"
  by (simp_all add: geometry_defs Let_def field_simps)

lemma rect_grow_grow [simp]: "rect_grow a (rect_grow b r) = rect_grow (a + b) (r :: mxRectangle)"
  by (cases r) (simp add: rect_grow_def algebra_simps)

lemma rect_grow_0 [simp]: "rect_grow 0 (r :: mxRectangle) = r"
  by (simp add: rect_grow_def)

subsection \<open>mxGeometry\<close>

text \<open>
  \<open>points\<close> may hold \<open>null\<close> entries, which every loop of the code skips.
  \<open>TRANSLATE_CONTROL_POINTS\<close> is a field of the prototype, so each geometry can override it.
\<close>

record mxGeometry = mxRectangle +
  g_translate_control_points :: bool
  g_alternateBounds :: "mxRectangle option"
  g_sourcePoint :: "mxPoint option"
  g_targetPoint :: "mxPoint option"
  g_points :: "mxPoint option list option"
  g_offset :: "mxPoint option"
  g_relative :: bool

definition new_mxGeometry ::
  "jsnum option \<Rightarrow> jsnum option \<Rightarrow> jsnum option \<Rightarrow> jsnum option \<Rightarrow> mxGeometry" where
  "new_mxGeometry x y w h =
     \<lparr>px = js_default x, py = js_default y, width = js_default w, height = js_default h,
      g_translate_control_points = True, g_alternateBounds = None, g_sourcePoint = None,
      g_targetPoint = None, g_points = None, g_offset = None, g_relative = False\<rparr>"

definition geo_swap :: "mxGeometry \<Rightarrow> mxGeometry" where
  "geo_swap g =
     (case g_alternateBounds g of
        None \<Rightarrow> g
      | Some a \<Rightarrow>
          (let old = new_mxRectangle (Some (px g)) (Some (py g)) (Some (width g)) (Some (height g))
           in g\<lparr>px := px a, py := py a, width := width a, height := height a,
                g_alternateBounds := Some old\<rparr>))"

definition geo_getTerminalPoint :: "mxGeometry \<Rightarrow> bool \<Rightarrow> mxPoint option" where
  "geo_getTerminalPoint g isSource = (if isSource then g_sourcePoint g else g_targetPoint g)"

definition geo_setTerminalPoint :: "mxPoint option \<Rightarrow> bool \<Rightarrow> mxGeometry \<Rightarrow> mxGeometry" where
  "geo_setTerminalPoint p isSource g =
     (if isSource then g\<lparr>g_sourcePoint := p\<rparr> else g\<lparr>g_targetPoint := p\<rparr>)"

definition point_move :: "jsnum \<Rightarrow> jsnum \<Rightarrow> mxPoint \<Rightarrow> mxPoint" where
  "point_move dx dy p = p\<lparr>px := px p + dx, py := py p + dy\<rparr>"

definition geo_translate :: "jsnum \<Rightarrow> jsnum \<Rightarrow> mxGeometry \<Rightarrow> mxGeometry" where
  "geo_translate dx dy g =
     (let g1 = (if \<not> g_relative g then g\<lparr>px := px g + dx, py := py g + dy\<rparr> else g);
          g2 = g1\<lparr>g_sourcePoint := map_option (point_move dx dy) (g_sourcePoint g1)\<rparr>;
          g3 = g2\<lparr>g_targetPoint := map_option (point_move dx dy) (g_targetPoint g2)\<rparr>
      in if g_translate_control_points g3
         then g3\<lparr>g_points := map_option (map (map_option (point_move dx dy))) (g_points g3)\<rparr>
         else g3)"

definition point_scale :: "jsnum \<Rightarrow> jsnum \<Rightarrow> mxPoint \<Rightarrow> mxPoint" where
  "point_scale sx sy p = p\<lparr>px := px p * sx, py := py p * sy\<rparr>"

definition geo_scale :: "jsnum \<Rightarrow> jsnum \<Rightarrow> bool \<Rightarrow> mxGeometry \<Rightarrow> mxGeometry" where
  "geo_scale sx sy fixedAspect g =
     (let g1 = g\<lparr>g_sourcePoint := map_option (point_scale sx sy) (g_sourcePoint g)\<rparr>;
          g2 = g1\<lparr>g_targetPoint := map_option (point_scale sx sy) (g_targetPoint g1)\<rparr>;
          g3 = g2\<lparr>g_points := map_option (map (map_option (point_scale sx sy))) (g_points g2)\<rparr>
      in if \<not> g_relative g3
         then (let g4 = g3\<lparr>px := px g3 * sx, py := py g3 * sy\<rparr>;
                   sy' = (if fixedAspect then min sx sy else sy);
                   sx' = (if fixedAspect then min sx sy else sx)
               in g4\<lparr>width := width g4 * sx', height := height g4 * sy'\<rparr>)
         else g3)"

text \<open>
  \<open>equals\<close>; \<open>same\<close> tells whether the two geometries are one object, and with it their points are.
  Points that are one object, or both null, make \<open>equalPoints\<close> answer false.
\<close>

definition equalPoints :: "bool \<Rightarrow> mxPoint option list option \<Rightarrow> mxPoint option list option \<Rightarrow> bool" where
  "equalPoints same a b =
     (case (a, b) of
        (None, None) \<Rightarrow> True
      | (Some xs, Some ys) \<Rightarrow>
          length xs = length ys \<and>
          (\<forall>i < length xs. \<not> (same \<or> xs ! i = None \<and> ys ! i = None) \<and>
             (case xs ! i of None \<Rightarrow> True | Some p \<Rightarrow> point_equals p (ys ! i)))
      | _ \<Rightarrow> False)"

definition geo_equals :: "bool \<Rightarrow> mxGeometry \<Rightarrow> mxGeometry option \<Rightarrow> bool" where
  "geo_equals same geo obj =
     (case obj of
        None \<Rightarrow> False
      | Some q \<Rightarrow>
          rect_equals geo (Some q) \<and> g_relative geo = g_relative q \<and>
          (case g_sourcePoint geo of None \<Rightarrow> g_sourcePoint q = None | Some p \<Rightarrow> point_equals p (g_sourcePoint q)) \<and>
          (case g_targetPoint geo of None \<Rightarrow> g_targetPoint q = None | Some p \<Rightarrow> point_equals p (g_targetPoint q)) \<and>
          (g_points geo = None \<and> g_points q = None \<or>
           g_points geo \<noteq> None \<and> equalPoints same (g_points geo) (g_points q)) \<and>
          (case g_alternateBounds geo of None \<Rightarrow> g_alternateBounds q = None
           | Some r \<Rightarrow> rect_equals r (g_alternateBounds q)) \<and>
          (case g_offset geo of None \<Rightarrow> g_offset q = None | Some p \<Rightarrow> point_equals p (g_offset q)))"


lemma point_move_move [simp]:
  "point_move a b (point_move c d p) = point_move (a + c) (b + d) p"
  by (simp add: point_move_def algebra_simps)

lemma point_move_0 [simp]: "point_move 0 0 p = p"
  by (simp add: point_move_def)

lemma point_move_comp [simp]:
  "point_move a b \<circ> point_move c d = point_move (a + c) (b + d)"
  by (simp add: fun_eq_iff)

lemma point_move_id: "point_move 0 0 = (\<lambda>p. p)"
  by (simp add: fun_eq_iff)

lemma geo_translate_translate [simp]:
  "geo_translate a b (geo_translate c d g) = geo_translate (a + c) (b + d) g"
  by (cases g) (simp add: geo_translate_def Let_def option.map_comp o_def algebra_simps)

lemma geo_translate_0 [simp]: "geo_translate 0 0 g = g"
  by (cases g) (simp add: geo_translate_def Let_def point_move_id option.map_ident
      map_idI option.map_id0 [unfolded id_def])

lemma geo_swap_swap:
  "g_alternateBounds g \<noteq> None \<Longrightarrow> geo_swap (geo_swap g) = g"
  by (cases g) (auto simp: geo_swap_def new_mxRectangle_def js_default_def Let_def)

subsection \<open>Properties\<close>

text \<open>\<open>mxRectangle.add\<close> computes the least rectangle around both: it lies within a rectangle
  exactly when both operands do.\<close>

theorem rect_add_bounding_box:
  "rect_within (rect_add r (Some q)) b \<longleftrightarrow> rect_within r b \<and> rect_within q b"
  by (auto simp: rect_within_def rect_add_def Let_def)

text \<open>Moving a geometry by one vector and then another moves every part of it (origin,
  terminal points and control points) by their sum, unless the control points are pinned.\<close>

theorem geo_translate_sum:
  "geo_translate a b (geo_translate c d g) = geo_translate (a + c) (b + d) g"
  by (rule geo_translate_translate)

end
