(* ===== verification/Planar.thy ===== *)
theory Planar
  imports Geometry "HOL-Library.Word"
begin

unbundle bit_operations_syntax

text \<open>
  The planar predicates of util/mxUtils.js: containment and intersection of rectangles,
  intersection of segments, distance of a point to a segment, orientation, rotation, the
  nearest segment of a polyline, and the direction masks of port constraints.
\<close>

subsection \<open>Rectangles\<close>

definition rect_contains :: "'a mxRectangle_scheme \<Rightarrow> jsnum \<Rightarrow> jsnum \<Rightarrow> bool" where
  "rect_contains bounds x y \<longleftrightarrow>
     px bounds \<le> x \<and> px bounds + width bounds \<ge> x \<and>
     py bounds \<le> y \<and> py bounds + height bounds \<ge> y"

definition rect_intersects :: "'a mxRectangle_scheme \<Rightarrow> 'b mxRectangle_scheme \<Rightarrow> bool" where
  "rect_intersects a b =
     (let tw = width a; th = height a; rw = width b; rh = height b in
      if rw \<le> 0 \<or> rh \<le> 0 \<or> tw \<le> 0 \<or> th \<le> 0 then False
      else
        (let tx = px a; ty = py a; rx = px b; ry = py b;
             rw = rw + rx; rh = rh + ry; tw = tw + tx; th = th + ty
         in (rw < rx \<or> rw > tx) \<and> (rh < ry \<or> rh > ty) \<and>
            (tw < tx \<or> tw > rx) \<and> (th < ty \<or> th > ry)))"

text \<open>The open interior of a rectangle.\<close>

definition interior :: "'a mxRectangle_scheme \<Rightarrow> jsnum \<Rightarrow> jsnum \<Rightarrow> bool" where
  "interior r x y \<longleftrightarrow> px r < x \<and> x < px r + width r \<and> py r < y \<and> y < py r + height r"

lemma open_intervals_meet:
  fixes a b c d :: rat
  assumes "a < b" "c < d"
  shows "(\<exists>x. a < x \<and> x < b \<and> c < x \<and> x < d) \<longleftrightarrow> a < d \<and> c < b"
proof
  assume "\<exists>x. a < x \<and> x < b \<and> c < x \<and> x < d"
  then show "a < d \<and> c < b" by auto
next
  assume "a < d \<and> c < b"
  then have "max a c < min b d" using assms by auto
  then obtain x where "max a c < x" "x < min b d" using dense by blast
  then show "\<exists>x. a < x \<and> x < b \<and> c < x \<and> x < d" by auto
qed

lemma rect_intersects_interior:
  "rect_intersects a b \<longleftrightarrow> (\<exists>x y. interior a x y \<and> interior b x y)"
proof (cases "width b \<le> 0 \<or> height b \<le> 0 \<or> width a \<le> 0 \<or> height a \<le> 0")
  case True
  then show ?thesis
    by (auto simp: rect_intersects_def interior_def Let_def)
next
  case False
  then have X: "(\<exists>x. px a < x \<and> x < px a + width a \<and> px b < x \<and> x < px b + width b) \<longleftrightarrow>
      px a < px b + width b \<and> px b < px a + width a"
    and Y: "(\<exists>y. py a < y \<and> y < py a + height a \<and> py b < y \<and> y < py b + height b) \<longleftrightarrow>
      py a < py b + height b \<and> py b < py a + height a"
    by (simp_all add: open_intervals_meet)
  have "(\<exists>x y. interior a x y \<and> interior b x y) \<longleftrightarrow>
      (\<exists>x. px a < x \<and> x < px a + width a \<and> px b < x \<and> x < px b + width b) \<and>
      (\<exists>y. py a < y \<and> y < py a + height a \<and> py b < y \<and> y < py b + height b)"
    unfolding interior_def by blast
  with X Y False show ?thesis
    by (auto simp: rect_intersects_def Let_def algebra_simps)
qed

subsection \<open>Rotation\<close>

definition getRotatedPoint ::
  "'a mxPoint_scheme \<Rightarrow> jsnum \<Rightarrow> jsnum \<Rightarrow> 'b mxPoint_scheme option \<Rightarrow> mxPoint" where
  "getRotatedPoint pt co si c =
     (let cx = (case c of None \<Rightarrow> 0 | Some q \<Rightarrow> px q);
          cy = (case c of None \<Rightarrow> 0 | Some q \<Rightarrow> py q);
          x = px pt - cx; y = py pt - cy;
          x1 = x * co - y * si; y1 = y * co + x * si
      in new_mxPoint (Some (x1 + cx)) (Some (y1 + cy)))"

definition dist_sq :: "'a mxPoint_scheme \<Rightarrow> 'b mxPoint_scheme \<Rightarrow> jsnum" where
  "dist_sq p q = (px p - px q) * (px p - px q) + (py p - py q) * (py p - py q)"

lemma getRotatedPoint_dist:
  assumes "co * co + si * si = 1"
  shows "dist_sq (getRotatedPoint p co si (Some c)) (c :: mxPoint) = dist_sq (p :: mxPoint) c"
proof -
  let ?x = "px p - px c" and ?y = "py p - py c"
  have "(?x * co - ?y * si) * (?x * co - ?y * si) + (?y * co + ?x * si) * (?y * co + ?x * si)
      = (?x * ?x + ?y * ?y) * (co * co + si * si)"
    by (simp add: algebra_simps)
  then show ?thesis
    using assms by (simp add: getRotatedPoint_def dist_sq_def new_mxPoint_def js_default_def Let_def)
qed

lemma getRotatedPoint_inverse:
  assumes "co * co + si * si = 1"
  shows "getRotatedPoint (getRotatedPoint p co si (Some c)) co (- si) (Some (c :: mxPoint))
      = (p :: mxPoint)"
proof -
  let ?x = "px p - px c" and ?y = "py p - py c"
  have "(?x * co - ?y * si) * co - (?y * co + ?x * si) * (- si) = ?x * (co * co + si * si)"
    and "(?y * co + ?x * si) * co + (?x * co - ?y * si) * (- si) = ?y * (co * co + si * si)"
    by (simp_all add: algebra_simps)
  then show ?thesis
    using assms
    by (cases p) (simp add: getRotatedPoint_def new_mxPoint_def js_default_def Let_def)
qed

subsection \<open>Segments\<close>

text \<open>
  A zero denominator gives NaN or an infinity, for which the range test fails.
\<close>

definition seg_intersection ::
  "jsnum \<Rightarrow> jsnum \<Rightarrow> jsnum \<Rightarrow> jsnum \<Rightarrow> jsnum \<Rightarrow> jsnum \<Rightarrow> jsnum \<Rightarrow> jsnum \<Rightarrow> mxPoint option" where
  "seg_intersection x0 y0 x1 y1 x2 y2 x3 y3 =
     (let denom = ((y3 - y2) * (x1 - x0)) - ((x3 - x2) * (y1 - y0));
          nume_a = ((x3 - x2) * (y0 - y2)) - ((y3 - y2) * (x0 - x2));
          nume_b = ((x1 - x0) * (y0 - y2)) - ((y1 - y0) * (x0 - x2))
      in if denom = 0 then None
         else
           (let ua = nume_a / denom; ub = nume_b / denom in
            if ua \<ge> 0 \<and> ua \<le> 1 \<and> ub \<ge> 0 \<and> ub \<le> 1
            then Some (new_mxPoint (Some (x0 + ua * (x1 - x0))) (Some (y0 + ua * (y1 - y0))))
            else None))"

text \<open>The point at parameter \<open>t\<close> of a segment.\<close>

definition on_seg :: "jsnum \<Rightarrow> jsnum \<Rightarrow> jsnum \<Rightarrow> jsnum \<Rightarrow> jsnum \<Rightarrow> jsnum \<times> jsnum" where
  "on_seg x0 y0 x1 y1 t = (x0 + t * (x1 - x0), y0 + t * (y1 - y0))"

definition seg_has :: "jsnum \<Rightarrow> jsnum \<Rightarrow> jsnum \<Rightarrow> jsnum \<Rightarrow> mxPoint \<Rightarrow> bool" where
  "seg_has x0 y0 x1 y1 p \<longleftrightarrow> (\<exists>t. 0 \<le> t \<and> t \<le> 1 \<and> (px p, py p) = on_seg x0 y0 x1 y1 t)"

lemma cramer_2:
  fixes a b c d e f :: rat
  assumes "a * d - b * c \<noteq> 0" and "s * a - u * b = e" and "s * c - u * d = f"
  shows "s = (e * d - f * b) / (a * d - b * c)" and "u = (e * c - f * a) / (a * d - b * c)"
proof -
  have "e * d - f * b = s * (a * d - b * c)" and "e * c - f * a = u * (a * d - b * c)"
    unfolding assms(2,3) [symmetric] by (simp_all add: algebra_simps)
  with assms(1) show "s = (e * d - f * b) / (a * d - b * c)"
    and "u = (e * c - f * a) / (a * d - b * c)" by simp_all
qed

lemma seg_intersection_sound:
  assumes "seg_intersection x0 y0 x1 y1 x2 y2 x3 y3 = Some p"
  shows "seg_has x0 y0 x1 y1 p \<and> seg_has x2 y2 x3 y3 p"
proof -
  define D where "D = ((y3 - y2) * (x1 - x0)) - ((x3 - x2) * (y1 - y0))"
  define A where "A = (((x3 - x2) * (y0 - y2)) - ((y3 - y2) * (x0 - x2))) / D"
  define B where "B = (((x1 - x0) * (y0 - y2)) - ((y1 - y0) * (x0 - x2))) / D"
  have D: "D \<noteq> 0" and A: "0 \<le> A" "A \<le> 1" and B: "0 \<le> B" "B \<le> 1"
    and p: "(px p, py p) = on_seg x0 y0 x1 y1 A"
    using assms
    by (auto simp: seg_intersection_def Let_def D_def A_def B_def new_mxPoint_def
        js_default_def on_seg_def split: if_splits)
  have AD: "A * D = ((x3 - x2) * (y0 - y2)) - ((y3 - y2) * (x0 - x2))"
    and BD: "B * D = ((x1 - x0) * (y0 - y2)) - ((y1 - y0) * (x0 - x2))"
    using D by (simp_all add: A_def B_def)
  have "D * (x0 + A * (x1 - x0)) = D * (x2 + B * (x3 - x2))"
  proof -
    have "D * x0 + (A * D) * (x1 - x0) = D * x2 + (B * D) * (x3 - x2)"
      unfolding AD BD unfolding D_def by (simp add: algebra_simps)
    then show ?thesis by (simp add: algebra_simps)
  qed
  moreover have "D * (y0 + A * (y1 - y0)) = D * (y2 + B * (y3 - y2))"
  proof -
    have "D * y0 + (A * D) * (y1 - y0) = D * y2 + (B * D) * (y3 - y2)"
      unfolding AD BD unfolding D_def by (simp add: algebra_simps)
    then show ?thesis by (simp add: algebra_simps)
  qed
  ultimately have "(px p, py p) = on_seg x2 y2 x3 y3 B"
    using D p by (simp add: on_seg_def)
  with p A B show ?thesis unfolding seg_has_def by blast
qed

lemma seg_intersection_complete:
  assumes "seg_has x0 y0 x1 y1 p" and "seg_has x2 y2 x3 y3 p"
    and nonpar: "(y3 - y2) * (x1 - x0) - (x3 - x2) * (y1 - y0) \<noteq> 0"
  shows "seg_intersection x0 y0 x1 y1 x2 y2 x3 y3 = Some p"
proof -
  obtain s u where s: "0 \<le> s" "s \<le> 1" and u: "0 \<le> u" "u \<le> 1"
    and ps: "px p = x0 + s * (x1 - x0)" "py p = y0 + s * (y1 - y0)"
    and pu: "px p = x2 + u * (x3 - x2)" "py p = y2 + u * (y3 - y2)"
    using assms(1,2) by (auto simp: seg_has_def on_seg_def)
  have eqx: "s * (x1 - x0) - u * (x3 - x2) = x2 - x0"
    and eqy: "s * (y1 - y0) - u * (y3 - y2) = y2 - y0"
    using ps pu by simp_all
  have "(x1 - x0) * (y3 - y2) - (x3 - x2) * (y1 - y0) \<noteq> 0"
    using nonpar by (simp add: mult.commute)
  note cr = cramer_2 [OF this eqx eqy]
  define D where "D = (y3 - y2) * (x1 - x0) - (x3 - x2) * (y1 - y0)"
  have D': "D = (x1 - x0) * (y3 - y2) - (x3 - x2) * (y1 - y0)"
    by (simp add: D_def mult.commute)
  have "(((x3 - x2) * (y0 - y2)) - ((y3 - y2) * (x0 - x2))) / D = s"
    and "(((x1 - x0) * (y0 - y2)) - ((y1 - y0) * (x0 - x2))) / D = u"
    unfolding cr D' [symmetric] by (simp_all add: algebra_simps)
  moreover have "D \<noteq> 0" using nonpar by (simp add: D_def)
  ultimately show ?thesis
    using s u ps
    by (simp add: seg_intersection_def Let_def D_def [symmetric] new_mxPoint_def js_default_def)
qed

subsection \<open>Distance to a segment\<close>

definition ptSegDistSq ::
  "jsnum \<Rightarrow> jsnum \<Rightarrow> jsnum \<Rightarrow> jsnum \<Rightarrow> jsnum \<Rightarrow> jsnum \<Rightarrow> jsnum" where
  "ptSegDistSq x1 y1 x2 y2 qx qy =
     (let x2 = x2 - x1; y2 = y2 - y1; qx = qx - x1; qy = qy - y1;
          dotprod = qx * x2 + qy * y2;
          (qx, qy, projlenSq) =
            (if dotprod \<le> 0 then (qx, qy, 0)
             else
               (let qx = x2 - qx; qy = y2 - qy; dotprod = qx * x2 + qy * y2
                in if dotprod \<le> 0 then (qx, qy, 0)
                   else (qx, qy, dotprod * dotprod / (x2 * x2 + y2 * y2))));
          lenSq = qx * qx + qy * qy - projlenSq
      in if lenSq < 0 then 0 else lenSq)"

text \<open>The squared distance to the point at parameter \<open>t\<close> of the segment.\<close>

definition seg_dist_sq ::
  "jsnum \<Rightarrow> jsnum \<Rightarrow> jsnum \<Rightarrow> jsnum \<Rightarrow> jsnum \<Rightarrow> jsnum \<Rightarrow> jsnum \<Rightarrow> jsnum" where
  "seg_dist_sq x1 y1 x2 y2 qx qy t =
     (let (x, y) = on_seg x1 y1 x2 y2 t in (qx - x) * (qx - x) + (qy - y) * (qy - y))"

lemma seg_dist_sq_poly:
  "seg_dist_sq x1 y1 x2 y2 qx qy t =
     ((qx - x1) * (qx - x1) + (qy - y1) * (qy - y1))
     - 2 * t * ((qx - x1) * (x2 - x1) + (qy - y1) * (y2 - y1))
     + t * t * ((x2 - x1) * (x2 - x1) + (y2 - y1) * (y2 - y1))"
  by (simp add: seg_dist_sq_def on_seg_def Let_def algebra_simps)

lemma quad_min_left:
  fixes P d L t :: rat
  assumes "d \<le> 0" "0 \<le> L" "0 \<le> t"
  shows "P \<le> P - 2 * t * d + t * t * L"
proof -
  have "0 \<le> t * (- d)" and "0 \<le> t * t * L" using assms by (simp_all add: mult_nonneg_nonpos)
  then show ?thesis by simp
qed

lemma quad_min_right:
  fixes P d L t :: rat
  assumes "L \<le> d" "0 \<le> L" "0 \<le> t" "t \<le> 1"
  shows "P - 2 * d + L \<le> P - 2 * t * d + t * t * L"
proof -
  have "0 \<le> (1 - t) * (2 * d - (1 + t) * L)"
  proof (rule mult_nonneg_nonneg)
    have "(1 + t) * L \<le> 2 * L" using assms by (simp add: mult_right_mono)
    then show "0 \<le> 2 * d - (1 + t) * L" using assms by simp
  qed (use assms in simp)
  then show ?thesis by (simp add: algebra_simps)
qed

lemma quad_min_inner:
  fixes P d L t :: rat
  assumes "0 < L"
  shows "P - d * d / L \<le> P - 2 * t * d + t * t * L"
proof -
  have "0 \<le> (t * L - d) * (t * L - d) / L" using assms by simp
  also have "(t * L - d) * (t * L - d) / L = t * t * L - 2 * t * d + d * d / L"
    using assms by (simp add: field_simps)
  finally show ?thesis by simp
qed

lemma seg_dist_sq_nonneg: "0 \<le> seg_dist_sq x1 y1 x2 y2 qx qy t"
  by (simp add: seg_dist_sq_def on_seg_def)

text \<open>The three branches of the code, in terms of the quadratic in \<open>t\<close>.\<close>

lemma ptSegDistSq_cases:
  fixes x1 y1 x2 y2 qx qy :: rat
  defines "P \<equiv> (qx - x1) * (qx - x1) + (qy - y1) * (qy - y1)"
    and "d \<equiv> (qx - x1) * (x2 - x1) + (qy - y1) * (y2 - y1)"
    and "L \<equiv> (x2 - x1) * (x2 - x1) + (y2 - y1) * (y2 - y1)"
  shows "d \<le> 0 \<Longrightarrow> ptSegDistSq x1 y1 x2 y2 qx qy = P"
    and "0 < d \<Longrightarrow> L \<le> d \<Longrightarrow> ptSegDistSq x1 y1 x2 y2 qx qy = P - 2 * d + L"
    and "0 < d \<Longrightarrow> d < L \<Longrightarrow> ptSegDistSq x1 y1 x2 y2 qx qy = max 0 (P - d * d / L)"
proof -
  let ?rx = "(x2 - x1) - (qx - x1)" and ?ry = "(y2 - y1) - (qy - y1)"
  have dot2: "?rx * (x2 - x1) + ?ry * (y2 - y1) = L - d"
    by (simp add: L_def d_def algebra_simps)
  have len2: "?rx * ?rx + ?ry * ?ry = P - 2 * d + L"
    by (simp add: P_def d_def L_def algebra_simps)
  have P0: "0 \<le> P" by (simp add: P_def)
  have Q0: "0 \<le> P - 2 * d + L" unfolding len2 [symmetric] by simp
  show "ptSegDistSq x1 y1 x2 y2 qx qy = P" if "d \<le> 0"
    using that by (simp add: ptSegDistSq_def Let_def d_def P_def not_sum_squares_lt_zero)
  show "ptSegDistSq x1 y1 x2 y2 qx qy = P - 2 * d + L" if "0 < d" "L \<le> d"
  proof -
    have "\<not> d \<le> 0" "L - d \<le> 0" using that by simp_all
    then show ?thesis
      unfolding ptSegDistSq_def Let_def d_def [symmetric] dot2 using Q0 len2 by simp
  qed
  show "ptSegDistSq x1 y1 x2 y2 qx qy = max 0 (P - d * d / L)" if "0 < d" "d < L"
  proof -
    have n: "\<not> d \<le> 0" "\<not> L - d \<le> 0" "L \<noteq> 0" using that by simp_all
    have "P - 2 * d + L - (L - d) * (L - d) / L = P - d * d / L"
      using n by (simp add: field_simps)
    then show ?thesis
      unfolding ptSegDistSq_def Let_def d_def [symmetric] dot2 L_def [symmetric]
      using n len2 by (simp add: max_def)
  qed
qed

lemma ptSegDistSq_minimum:
  "(\<exists>t. 0 \<le> t \<and> t \<le> 1 \<and> ptSegDistSq x1 y1 x2 y2 qx qy = seg_dist_sq x1 y1 x2 y2 qx qy t)
   \<and> (0 \<le> s \<and> s \<le> 1 \<longrightarrow> ptSegDistSq x1 y1 x2 y2 qx qy \<le> seg_dist_sq x1 y1 x2 y2 qx qy s)"
proof -
  define P where "P = (qx - x1) * (qx - x1) + (qy - y1) * (qy - y1)"
  define d where "d = (qx - x1) * (x2 - x1) + (qy - y1) * (y2 - y1)"
  define L where "L = (x2 - x1) * (x2 - x1) + (y2 - y1) * (y2 - y1)"
  have poly: "seg_dist_sq x1 y1 x2 y2 qx qy t = P - 2 * t * d + t * t * L" for t
    by (simp add: seg_dist_sq_poly P_def d_def L_def)
  have L0: "0 \<le> L" by (simp add: L_def)
  note br = ptSegDistSq_cases [where ?x1.0 = x1 and ?y1.0 = y1 and ?x2.0 = x2 and ?y2.0 = y2
      and qx = qx and qy = qy, folded P_def d_def L_def]
  consider "d \<le> 0" | "0 < d" "L \<le> d" | "0 < d" "d < L" by linarith
  then show ?thesis
  proof cases
    case 1
    then have eq: "ptSegDistSq x1 y1 x2 y2 qx qy = P" by (rule br(1))
    show ?thesis
    proof (intro conjI impI exI [of _ 0])
      show "ptSegDistSq x1 y1 x2 y2 qx qy \<le> seg_dist_sq x1 y1 x2 y2 qx qy s"
        if "0 \<le> s \<and> s \<le> 1"
        unfolding eq poly using quad_min_left [of d L s P] 1 L0 that by simp
    qed (simp_all add: eq poly)
  next
    case 2
    then have eq: "ptSegDistSq x1 y1 x2 y2 qx qy = P - 2 * d + L" by (rule br(2))
    show ?thesis
    proof (intro conjI impI exI [of _ 1])
      show "ptSegDistSq x1 y1 x2 y2 qx qy \<le> seg_dist_sq x1 y1 x2 y2 qx qy s"
        if "0 \<le> s \<and> s \<le> 1"
        unfolding eq poly using quad_min_right [of L d s P] 2 L0 that by simp
    qed (simp_all add: eq poly)
  next
    case 3
    have at: "seg_dist_sq x1 y1 x2 y2 qx qy (d / L) = P - d * d / L"
      using 3 by (simp add: poly field_simps)
    then have eq: "ptSegDistSq x1 y1 x2 y2 qx qy = P - d * d / L"
      using br(3) 3 seg_dist_sq_nonneg [of x1 y1 x2 y2 qx qy "d / L"] by simp
    show ?thesis
    proof (intro conjI impI exI [of _ "d / L"])
      show "ptSegDistSq x1 y1 x2 y2 qx qy \<le> seg_dist_sq x1 y1 x2 y2 qx qy s"
        unfolding eq poly using quad_min_inner [of L P d s] 3 by simp
      show "ptSegDistSq x1 y1 x2 y2 qx qy = seg_dist_sq x1 y1 x2 y2 qx qy (d / L)"
        by (simp only: eq at)
    qed (use 3 in simp_all)
  qed
qed

subsection \<open>Orientation, and the nearest segment of a polyline\<close>

definition relativeCcw ::
  "jsnum \<Rightarrow> jsnum \<Rightarrow> jsnum \<Rightarrow> jsnum \<Rightarrow> jsnum \<Rightarrow> jsnum \<Rightarrow> int" where
  "relativeCcw x1 y1 x2 y2 qx qy =
     (let x2 = x2 - x1; y2 = y2 - y1; qx = qx - x1; qy = qy - y1;
          ccw = qx * y2 - qy * x2;
          ccw =
            (if ccw = 0 then
               (let ccw = qx * x2 + qy * y2 in
                if ccw > 0 then
                  (let qx = qx - x2; qy = qy - y2; ccw = qx * x2 + qy * y2
                   in if ccw < 0 then 0 else ccw)
                else ccw)
             else ccw)
      in if ccw < 0 then -1 else if ccw > 0 then 1 else 0)"

text \<open>
  The loop of \<open>findNearestSegment\<close> over \<open>state.absolutePoints\<close>: \<open>last\<close> is the previous
  point, \<open>i\<close> the index of the current one.
\<close>

fun nearest_loop ::
  "jsnum \<Rightarrow> jsnum \<Rightarrow> mxPoint \<Rightarrow> int \<Rightarrow> jsnum option \<Rightarrow> int \<Rightarrow> mxPoint list \<Rightarrow> int" where
  "nearest_loop x y prev i mn index [] = index"
| "nearest_loop x y prev i mn index (current # rest) =
     (let dist = ptSegDistSq (px prev) (py prev) (px current) (py current) x y in
      if mn = None \<or> dist < the mn
      then nearest_loop x y current (i + 1) (Some dist) (i - 1) rest
      else nearest_loop x y current (i + 1) mn index rest)"

definition findNearestSegment :: "mxPoint list \<Rightarrow> jsnum \<Rightarrow> jsnum \<Rightarrow> int" where
  "findNearestSegment pts x y =
     (case pts of [] \<Rightarrow> -1 | p # ps \<Rightarrow> nearest_loop x y p 1 None (-1) ps)"

definition seg_dist_at :: "mxPoint list \<Rightarrow> jsnum \<Rightarrow> jsnum \<Rightarrow> nat \<Rightarrow> jsnum" where
  "seg_dist_at pts x y k =
     ptSegDistSq (px (pts ! k)) (py (pts ! k)) (px (pts ! Suc k)) (py (pts ! Suc k)) x y"

text \<open>
  The loop invariant: after \<open>i\<close> points the index is the first segment of least distance.
\<close>

lemma nearest_loop_invariant:
  assumes "pts = pre @ prev # rest" and "i = int (length pre) + 1"
    and "mn = None \<longleftrightarrow> pre = []" and "pre = [] \<Longrightarrow> index = -1"
    and "pre \<noteq> [] \<Longrightarrow> 0 \<le> index \<and> nat index < length pre \<and>
          mn = Some (seg_dist_at pts x y (nat index)) \<and>
          (\<forall>k < length pre. seg_dist_at pts x y (nat index) \<le> seg_dist_at pts x y k)"
    and "length pts \<ge> 2"
  shows "let j = nearest_loop x y prev i mn index rest in
     0 \<le> j \<and> nat j < length pts - 1 \<and>
     (\<forall>k < length pts - 1. seg_dist_at pts x y (nat j) \<le> seg_dist_at pts x y k)"
  using assms
proof (induction rest arbitrary: pre prev i mn index)
  case Nil
  then show ?case by (auto simp: Let_def)
next
  case (Cons c rest)
  let ?d = "seg_dist_at pts x y (length pre)"
  have dist: "ptSegDistSq (px prev) (py prev) (px c) (py c) x y = ?d"
    using Cons.prems(1) by (simp add: seg_dist_at_def nth_append)
  have split: "pts = (pre @ [prev]) @ c # rest" using Cons.prems(1) by simp
  show ?case
  proof (cases "mn = None \<or> ?d < the mn")
    case True
    have "\<forall>k < length (pre @ [prev]). ?d \<le> seg_dist_at pts x y k"
      using True Cons.prems(3,5) by (cases "pre = []") (auto simp: less_Suc_eq)
    then show ?thesis
      using Cons.IH [OF split, of "i + 1" "Some ?d" "i - 1"] True Cons.prems dist
      by (simp add: Let_def)
  next
    case False
    then have ne: "pre \<noteq> []" and mn: "mn = Some (seg_dist_at pts x y (nat index))"
      using Cons.prems(3,5) by auto
    then have "\<forall>k < length (pre @ [prev]). seg_dist_at pts x y (nat index) \<le> seg_dist_at pts x y k"
      using False Cons.prems(5) by (auto simp: less_Suc_eq)
    then show ?thesis
      using Cons.IH [OF split, of "i + 1" mn index] False Cons.prems dist ne mn
      by (simp add: Let_def)
  qed
qed

lemma findNearestSegment_nearest:
  assumes "length pts \<ge> 2"
  shows "0 \<le> findNearestSegment pts x y"
    and "nat (findNearestSegment pts x y) < length pts - 1"
    and "k < length pts - 1 \<Longrightarrow>
         seg_dist_at pts x y (nat (findNearestSegment pts x y)) \<le> seg_dist_at pts x y k"
proof -
  obtain p ps where pts: "pts = p # ps" using assms by (cases pts) auto
  have "let j = nearest_loop x y p 1 None (-1) ps in
     0 \<le> j \<and> nat j < length pts - 1 \<and>
     (\<forall>k < length pts - 1. seg_dist_at pts x y (nat j) \<le> seg_dist_at pts x y k)"
    using nearest_loop_invariant [of pts "[]" p ps 1 None "-1" x y] pts assms by simp
  then show "0 \<le> findNearestSegment pts x y"
    and "nat (findNearestSegment pts x y) < length pts - 1"
    and "k < length pts - 1 \<Longrightarrow>
         seg_dist_at pts x y (nat (findNearestSegment pts x y)) \<le> seg_dist_at pts x y k"
    by (simp_all add: findNearestSegment_def pts Let_def)
qed

subsection \<open>Direction masks\<close>

text \<open>
  The masks of util/mxConstants.js; JavaScript's bit operators work on 32-bit integers.
\<close>

type_synonym int32 = "32 word"

definition DIRECTION_MASK_WEST :: int32 where "DIRECTION_MASK_WEST = 1"
definition DIRECTION_MASK_NORTH :: int32 where "DIRECTION_MASK_NORTH = 2"
definition DIRECTION_MASK_SOUTH :: int32 where "DIRECTION_MASK_SOUTH = 4"
definition DIRECTION_MASK_EAST :: int32 where "DIRECTION_MASK_EAST = 8"
definition DIRECTION_MASK_ALL :: int32 where "DIRECTION_MASK_ALL = 15"

lemmas direction_mask_defs = DIRECTION_MASK_WEST_def DIRECTION_MASK_NORTH_def
  DIRECTION_MASK_SOUTH_def DIRECTION_MASK_EAST_def DIRECTION_MASK_ALL_def

definition reversePortConstraints :: "int32 \<Rightarrow> int32" where
  "reversePortConstraints constraint =
     push_bit 3 (constraint AND DIRECTION_MASK_WEST)
     OR push_bit 1 (constraint AND DIRECTION_MASK_NORTH)
     OR signed_drop_bit 1 (constraint AND DIRECTION_MASK_SOUTH)
     OR signed_drop_bit 3 (constraint AND DIRECTION_MASK_EAST)"

lemma and_push_bit_1: "c AND push_bit k 1 = (if bit c k then push_bit k 1 else 0)" for c :: int32
  by (rule bit_word_eqI) (auto simp: bit_simps)

lemma and_mask_bits:
  fixes c :: int32
  shows "c AND 1 = (if bit c 0 then 1 else 0)" and "c AND 2 = (if bit c 1 then 2 else 0)"
    and "c AND 4 = (if bit c 2 then 4 else 0)" and "c AND 8 = (if bit c 3 then 8 else 0)"
  using and_push_bit_1 [of c 0] and_push_bit_1 [of c 1] and_push_bit_1 [of c 2]
    and_push_bit_1 [of c 3]
  by (simp_all add: push_bit_eq_mult)

lemma and_mask_all:
  fixes c :: int32
  shows "c AND 15 = (c AND 1) OR (c AND 2) OR (c AND 4) OR (c AND 8)"
proof -
  have "(15 :: int32) = 1 OR 2 OR 4 OR 8" by simp
  then show ?thesis by (simp only: bit.conj_disj_distrib)
qed

lemma reversePortConstraints_twice:
  "reversePortConstraints (reversePortConstraints c) = c AND DIRECTION_MASK_ALL"
proof -
  have "reversePortConstraints (reversePortConstraints c)
      = (c AND 1) OR (c AND 2) OR (c AND 4) OR (c AND 8)"
    unfolding reversePortConstraints_def direction_mask_defs and_mask_bits [of c]
    by (cases "bit c 0"; cases "bit c 1"; cases "bit c 2"; cases "bit c 3") simp_all
  then show ?thesis by (simp add: and_mask_all direction_mask_defs)
qed

subsection \<open>Properties\<close>

text \<open>\<open>mxUtils.intersects\<close> answers true exactly when the two rectangles have a common
  interior point, whatever their sizes (empty and negative ones included).\<close>

theorem rect_intersects_iff_common_point:
  "rect_intersects a b \<longleftrightarrow> (\<exists>x y. interior a x y \<and> interior b x y)"
  by (rule rect_intersects_interior)

text \<open>\<open>mxUtils.intersection\<close> of two segments that are not parallel returns a point exactly
  when the point lies on both.\<close>

theorem seg_intersection_iff:
  assumes "(y3 - y2) * (x1 - x0) - (x3 - x2) * (y1 - y0) \<noteq> 0"
  shows "seg_intersection x0 y0 x1 y1 x2 y2 x3 y3 = Some p \<longleftrightarrow>
           seg_has x0 y0 x1 y1 p \<and> seg_has x2 y2 x3 y3 p"
  using seg_intersection_sound seg_intersection_complete [OF _ _ assms] by blast

theorem seg_intersection_iff_witness:
  "seg_intersection 0 0 2 2 0 2 2 0 = Some \<lparr>px = 1, py = 1\<rparr> \<and>
   seg_has 0 0 2 2 \<lparr>px = 1, py = 1\<rparr> \<and> seg_has 0 2 2 0 \<lparr>px = 1, py = 1\<rparr>"
proof -
  have "seg_intersection 0 0 2 2 0 2 2 0 = Some \<lparr>px = 1, py = 1\<rparr>" by code_simp
  with seg_intersection_iff [of 0 2 2 0 2 0 2 0 "\<lparr>px = 1, py = 1\<rparr>"] show ?thesis by simp
qed

text \<open>\<open>mxUtils.findNearestSegment\<close> returns the index of a segment of the polyline, and no
  other segment is nearer to the point.\<close>

theorem findNearestSegment_minimal:
  assumes "length pts \<ge> 2" and "k < length pts - 1"
  shows "0 \<le> findNearestSegment pts x y \<and> nat (findNearestSegment pts x y) < length pts - 1 \<and>
     seg_dist_at pts x y (nat (findNearestSegment pts x y)) \<le> seg_dist_at pts x y k"
  using findNearestSegment_nearest [OF assms(1)] assms(2) by blast

theorem findNearestSegment_minimal_witness:
  "let pts = [\<lparr>px = 0, py = 0\<rparr>, \<lparr>px = 4, py = 0\<rparr>, \<lparr>px = 4, py = 4\<rparr>] in
   findNearestSegment pts 5 3 = 1 \<and> seg_dist_at pts 5 3 1 \<le> seg_dist_at pts 5 3 0"
proof -
  let ?pts = "[\<lparr>px = 0, py = 0\<rparr>, \<lparr>px = 4, py = 0\<rparr>, \<lparr>px = 4, py = 4\<rparr>] :: mxPoint list"
  have "findNearestSegment ?pts 5 3 = 1" by code_simp
  with findNearestSegment_minimal [of ?pts 0 5 3] show ?thesis by simp
qed

text \<open>Reversing port constraints twice gives back the four direction bits, for every 32-bit
  mask.\<close>

theorem reversePortConstraints_involution:
  "reversePortConstraints (reversePortConstraints c) = c AND DIRECTION_MASK_ALL"
  by (rule reversePortConstraints_twice)

end
