(* ===== verification/JsString.thy ===== *)
theory JsString
  imports Prelude
begin

text \<open>
  Strings and the reading and printing of numbers: \<open>split\<close>, \<open>join\<close>, \<open>indexOf\<close>,
  \<open>substring\<close>, \<open>parseInt\<close>, \<open>parseFloat\<close>, \<open>Number\<close> and the implicit conversion of a
  number to a string, with the round trips the components rest on.
\<close>

subsection \<open>Splitting and joining\<close>

fun js_split :: "char \<Rightarrow> string \<Rightarrow> string list" where
  "js_split c [] = [[]]"
| "js_split c (x # xs) =
     (if x = c then [] # js_split c xs
      else (case js_split c xs of [] \<Rightarrow> [[x]] | t # ts \<Rightarrow> (x # t) # ts))"

fun js_join :: "string \<Rightarrow> string list \<Rightarrow> string" where
  "js_join sep [] = []"
| "js_join sep [t] = t"
| "js_join sep (t # u # ts) = t @ sep @ js_join sep (u # ts)"

lemma js_split_not_Nil [simp]: "js_split c s \<noteq> []"
  by (induction s) (auto split: list.splits)

lemma js_split_no_sep: "t \<in> set (js_split c s) \<Longrightarrow> c \<notin> set t"
  by (induction s arbitrary: t) (auto split: list.splits if_splits)

lemma js_join_Cons: "ts \<noteq> [] \<Longrightarrow> js_join sep (t # ts) = t @ sep @ js_join sep ts"
  by (cases ts) auto

lemma js_join_split [js_string]: "js_join [c] (js_split c s) = s"
proof (induction s)
  case Nil
  then show ?case by simp
next
  case (Cons x xs)
  obtain t ts where ts: "js_split c xs = t # ts"
    by (cases "js_split c xs") auto
  show ?case
  proof (cases "x = c")
    case True
    then show ?thesis using Cons by (simp add: js_join_Cons)
  next
    case False
    then show ?thesis using Cons ts by (cases ts) auto
  qed
qed

lemma js_split_append [js_string]:
  "c \<notin> set t \<Longrightarrow> js_split c (t @ c # s) = t # js_split c s"
  by (induction t) auto

lemma js_split_single [js_string]: "c \<notin> set t \<Longrightarrow> js_split c t = [t]"
  by (induction t) auto

lemma js_split_join [js_string]:
  "ts \<noteq> [] \<Longrightarrow> \<forall>t \<in> set ts. c \<notin> set t \<Longrightarrow> js_split c (js_join [c] ts) = ts"
  by (induction "[c]" ts rule: js_join.induct) (auto simp: js_string)

subsection \<open>Searching and cutting\<close>

definition js_starts :: "string \<Rightarrow> string \<Rightarrow> bool" where
  "js_starts pat s \<longleftrightarrow> take (length pat) s = pat"

fun js_find :: "string \<Rightarrow> string \<Rightarrow> int \<Rightarrow> int" where
  "js_find pat [] k = (if pat = [] then k else -1)"
| "js_find pat (x # xs) k = (if js_starts pat (x # xs) then k else js_find pat xs (k + 1))"

text \<open>\<open>s.indexOf(pat, from)\<close> for \<open>from >= 0\<close>; \<open>-1\<close> when there is none.\<close>

definition js_indexOf_from :: "string \<Rightarrow> string \<Rightarrow> nat \<Rightarrow> int" where
  "js_indexOf_from s pat from = js_find pat (drop from s) (int from)"

definition js_str_indexOf :: "string \<Rightarrow> string \<Rightarrow> int" where
  "js_str_indexOf s pat = js_indexOf_from s pat 0"

text \<open>\<open>s.lastIndexOf(c)\<close> of a single character.\<close>

definition js_lastIndexOf :: "string \<Rightarrow> char \<Rightarrow> int" where
  "js_lastIndexOf s c =
     (if c \<in> set s then int (length s) - 1 - int (length (takeWhile (\<lambda>x. x \<noteq> c) (rev s)))
      else -1)"

text \<open>\<open>s.substring(a, b)\<close>: both ends are clamped, and swapped when out of order.\<close>

definition js_substring :: "string \<Rightarrow> int \<Rightarrow> int \<Rightarrow> string" where
  "js_substring s a b =
     (let n = int (length s);
          p = nat (max 0 (min a n)); q = nat (max 0 (min b n))
      in take (max p q - min p q) (drop (min p q) s))"

definition js_substring_from :: "string \<Rightarrow> int \<Rightarrow> string" where
  "js_substring_from s a = drop (nat a) s"

text \<open>\<open>s.charAt(i)\<close> is the empty string out of range.\<close>

definition js_charAt :: "string \<Rightarrow> int \<Rightarrow> string" where
  "js_charAt s i = (case js_at s i of None \<Rightarrow> [] | Some c \<Rightarrow> [c])"

lemma js_find_ge: "js_find pat s k = -1 \<or> k \<le> js_find pat s k" if "0 \<le> k"
  using that
proof (induction pat s k rule: js_find.induct)
  case (1 pat k)
  then show ?case by simp
next
  case (2 pat x xs k)
  then show ?case by (cases "js_starts pat (x # xs)") auto
qed

lemma js_find_char_absent [js_string]: "c \<notin> set s \<Longrightarrow> js_find [c] s k = -1"
  by (induction s arbitrary: k) (auto simp: js_starts_def)

lemma js_find_char [js_string]:
  "c \<notin> set t \<Longrightarrow> js_find [c] (t @ c # s) k = k + int (length t)"
  by (induction t arbitrary: k) (auto simp: js_starts_def)

lemma js_str_indexOf_char [js_string]:
  "c \<notin> set t \<Longrightarrow> js_str_indexOf (t @ c # s) [c] = int (length t)"
  by (simp add: js_str_indexOf_def js_indexOf_from_def js_find_char)

lemma js_str_indexOf_absent [js_string]: "c \<notin> set s \<Longrightarrow> js_str_indexOf s [c] = -1"
  by (simp add: js_str_indexOf_def js_indexOf_from_def js_find_char_absent)

lemma js_str_indexOf_char_neg_iff: "js_str_indexOf s [c] < 0 \<longleftrightarrow> c \<notin> set s"
proof (cases "c \<in> set s")
  case True
  then obtain t u where "s = t @ c # u" and "c \<notin> set t"
    by (meson split_list_first)
  then show ?thesis by (simp add: js_string)
qed (simp add: js_string)

lemma js_str_indexOf_zero_iff:
  "js_str_indexOf s pat = 0 \<longleftrightarrow> js_starts pat s"
proof (cases s)
  case Nil
  then show ?thesis
    by (auto simp: js_str_indexOf_def js_indexOf_from_def js_starts_def)
next
  case (Cons x xs)
  then show ?thesis
    using js_find_ge [of 1 pat xs]
    by (auto simp: js_str_indexOf_def js_indexOf_from_def)
qed

lemma js_lastIndexOf_append [js_string]:
  "js_lastIndexOf (s @ c # t) c = int (length s)" if "c \<notin> set t"
proof -
  have "takeWhile (\<lambda>x. x \<noteq> c) (rev t @ c # rev s) = rev t"
    using that by (subst takeWhile_append2) auto
  then show ?thesis by (simp add: js_lastIndexOf_def)
qed

lemma js_lastIndexOf_absent [js_string]: "c \<notin> set s \<Longrightarrow> js_lastIndexOf s c = -1"
  by (simp add: js_lastIndexOf_def)

lemma js_substring_prefix [js_string]:
  "n \<le> length s \<Longrightarrow> js_substring s 0 (int n) = take n s"
  by (simp add: js_substring_def Let_def)

subsection \<open>Digits\<close>

definition digit_char :: "nat \<Rightarrow> char" where
  "digit_char n = ''0123456789'' ! n"

definition digit_val :: "char \<Rightarrow> nat option" where
  "digit_val c =
     (let k = (of_char c :: nat) in if 48 \<le> k \<and> k \<le> 57 then Some (k - 48) else None)"

definition is_digit :: "char \<Rightarrow> bool" where
  "is_digit c \<longleftrightarrow> digit_val c \<noteq> None"

fun digits_val :: "nat \<Rightarrow> string \<Rightarrow> nat" where
  "digits_val acc [] = acc"
| "digits_val acc (c # cs) =
     digits_val (10 * acc + (case digit_val c of None \<Rightarrow> 0 | Some d \<Rightarrow> d)) cs"

fun nat_string :: "nat \<Rightarrow> string" where
  "nat_string n =
     (if n < 10 then [digit_char n] else nat_string (n div 10) @ [digit_char (n mod 10)])"

declare nat_string.simps [simp del]

lemma digit_val_char [simp]: "digit_val (digit_char n) = Some n" if "n < 10"
proof -
  have "list_all (\<lambda>n. digit_val (digit_char n) = Some n) [0..<10]"
    by code_simp
  with that show ?thesis by (simp add: list_all_iff)
qed

lemma is_digit_char [simp]: "n < 10 \<Longrightarrow> is_digit (digit_char n)"
  by (simp add: is_digit_def)

lemma digits_val_append: "digits_val acc (s @ [c]) = digits_val (digits_val acc s) [c]"
  by (induction s arbitrary: acc) auto

lemma nat_string_not_Nil [simp]: "nat_string n \<noteq> []"
  by (subst nat_string.simps) simp

lemma nat_string_digits: "c \<in> set (nat_string n) \<Longrightarrow> is_digit c"
proof (induction n rule: nat_string.induct)
  case (1 n)
  then show ?case
    by (subst (asm) (2) nat_string.simps) (auto split: if_splits)
qed

lemma digits_val_nat_string [simp]: "digits_val 0 (nat_string n) = n"
proof (induction n rule: nat_string.induct)
  case (1 n)
  then show ?case
    by (subst nat_string.simps) (auto simp: digits_val_append)
qed

lemma nat_string_inject [simp]: "nat_string m = nat_string n \<longleftrightarrow> m = n"
  by (metis digits_val_nat_string)

lemma is_digit_not: "\<not> is_digit CHR ''.''" "\<not> is_digit CHR '';''" "\<not> is_digit CHR ''-''"
    "\<not> is_digit CHR ''+''" "\<not> is_digit CHR ''=''" "\<not> is_digit CHR '' ''"
    "\<not> is_digit CHR ''x''" "\<not> is_digit CHR ''X''"
  by (simp_all add: is_digit_def digit_val_def)

lemma nat_string_no: "\<not> is_digit c \<Longrightarrow> c \<notin> set (nat_string n)"
  using nat_string_digits by blast

lemma takeWhile_nat_string [js_string]: "takeWhile is_digit (nat_string n) = nat_string n"
  by (simp add: nat_string_digits)

lemma dropWhile_nat_string [js_string]: "dropWhile is_digit (nat_string n) = []"
  by (simp add: nat_string_digits)

lemma js_split_sep_append: "js_split c (s @ c # t) = js_split c s @ js_split c t"
  by (induction s) (auto split: list.splits)

lemma js_starts_Nil [simp]: "js_starts [] s"
  by (simp add: js_starts_def)

lemma js_starts_Cons [simp]: "js_starts (c # p) (d # s) \<longleftrightarrow> c = d \<and> js_starts p s"
  by (auto simp: js_starts_def)

lemma js_starts_of_Nil [simp]: "js_starts p [] \<longleftrightarrow> p = []"
  by (cases p) (simp_all add: js_starts_def)

lemma js_join_append:
  "xs \<noteq> [] \<Longrightarrow> ys \<noteq> [] \<Longrightarrow> js_join sep (xs @ ys) = js_join sep xs @ sep @ js_join sep ys"
proof (induction xs)
  case (Cons x xs)
  then show ?case by (cases "xs = []") (simp_all add: js_join_Cons)
qed simp

subsection \<open>Reading numbers\<close>

definition is_space :: "char \<Rightarrow> bool" where
  "is_space c \<longleftrightarrow> (let k = (of_char c :: nat) in k = 32 \<or> 9 \<le> k \<and> k \<le> 13 \<or> k = 160)"

text \<open>The value of a digit in a radix up to 16.\<close>

definition radix_digit :: "nat \<Rightarrow> char \<Rightarrow> nat option" where
  "radix_digit b c =
     (let k = (of_char c :: nat);
          d = (if 48 \<le> k \<and> k \<le> 57 then k - 48
               else if 97 \<le> k \<and> k \<le> 102 then k - 87
               else if 65 \<le> k \<and> k \<le> 70 then k - 55 else 99)
      in if d < b then Some d else None)"

fun radix_val :: "nat \<Rightarrow> nat \<Rightarrow> string \<Rightarrow> nat" where
  "radix_val b acc [] = acc"
| "radix_val b acc (c # cs) =
     radix_val b (b * acc + (case radix_digit b c of None \<Rightarrow> 0 | Some d \<Rightarrow> d)) cs"

fun js_sign :: "string \<Rightarrow> int \<times> string" where
  "js_sign [] = (1, [])"
| "js_sign (c # cs) =
     (if c = CHR ''-'' then (-1, cs) else if c = CHR ''+'' then (1, cs) else (1, c # cs))"

fun js_hex_prefix :: "string \<Rightarrow> bool" where
  "js_hex_prefix (a # b # cs) \<longleftrightarrow> a = CHR ''0'' \<and> (b = CHR ''x'' \<or> b = CHR ''X'')"
| "js_hex_prefix _ \<longleftrightarrow> False"

text \<open>
  \<open>parseInt(s)\<close>: the longest numeric prefix after white space and a sign; \<open>None\<close> is NaN.
  Without a radix argument a leading \<open>0x\<close> reads hexadecimal digits.
\<close>

definition js_parseInt :: "string \<Rightarrow> int option" where
  "js_parseInt s =
     (let (sg, r) = js_sign (dropWhile is_space s) in
      if js_hex_prefix r then
        (let ds = takeWhile (\<lambda>c. radix_digit 16 c \<noteq> None) (drop 2 r)
         in if ds = [] then None else Some (sg * int (radix_val 16 0 ds)))
      else
        (let ds = takeWhile is_digit r
         in if ds = [] then None else Some (sg * int (digits_val 0 ds))))"

text \<open>
  The longest prefix that is an unsigned decimal literal, with its value and what is left:
  digits, an optional fraction and an optional exponent.
\<close>

definition js_exponent :: "string \<Rightarrow> int \<times> string" where
  "js_exponent s =
     (case s of
        [] \<Rightarrow> (0, s)
      | c # cs \<Rightarrow>
          if c = CHR ''e'' \<or> c = CHR ''E'' then
            (let (sg, r) = js_sign cs; ds = takeWhile is_digit r
             in if ds = [] then (0, s) else (sg * int (digits_val 0 ds), dropWhile is_digit r))
          else (0, s))"

definition pow10 :: "int \<Rightarrow> rat" where
  "pow10 e = (if 0 \<le> e then 10 ^ nat e else 1 / 10 ^ nat (- e))"

definition js_decimal :: "string \<Rightarrow> (rat \<times> string) option" where
  "js_decimal s =
     (let ip = takeWhile is_digit s; r1 = dropWhile is_digit s;
          (fp, r2) = (case r1 of
             [] \<Rightarrow> ([], [])
           | c # cs \<Rightarrow> if c = CHR ''.'' \<and> (ip \<noteq> [] \<or> takeWhile is_digit cs \<noteq> [])
                       then (takeWhile is_digit cs, dropWhile is_digit cs) else ([], r1))
      in if ip = [] \<and> fp = [] then None
         else (let (e, r3) = js_exponent r2
               in Some ((of_nat (digits_val 0 ip) + of_nat (digits_val 0 fp) / 10 ^ length fp)
                          * pow10 e, r3)))"

text \<open>\<open>parseFloat(s)\<close>; \<open>None\<close> is NaN (or an infinity, which the model leaves out).\<close>

definition js_parseFloat :: "string \<Rightarrow> rat option" where
  "js_parseFloat s =
     (let (sg, r) = js_sign (dropWhile is_space s)
      in map_option (\<lambda>(v, _). of_int sg * v) (js_decimal r))"

text \<open>\<open>Number(s)\<close>, the implicit conversion: the whole string counts, and it may be empty.\<close>

fun js_radix_prefix :: "string \<Rightarrow> nat option" where
  "js_radix_prefix (a # b # cs) =
     (if a \<noteq> CHR ''0'' then None
      else if b = CHR ''x'' \<or> b = CHR ''X'' then Some 16
      else if b = CHR ''o'' \<or> b = CHR ''O'' then Some 8
      else if b = CHR ''b'' \<or> b = CHR ''B'' then Some 2 else None)"
| "js_radix_prefix _ = None"

definition js_trim :: "string \<Rightarrow> string" where
  "js_trim s = rev (dropWhile is_space (rev (dropWhile is_space s)))"

definition js_Number :: "string \<Rightarrow> rat option" where
  "js_Number s =
     (let t = js_trim s in
      if t = [] then Some 0
      else (case js_radix_prefix t of
          Some b \<Rightarrow>
            (if drop 2 t \<noteq> [] \<and> (\<forall>c \<in> set (drop 2 t). radix_digit b c \<noteq> None)
             then Some (of_nat (radix_val b 0 (drop 2 t))) else None)
        | None \<Rightarrow>
            (let (sg, r) = js_sign t
             in case js_decimal r of
                  None \<Rightarrow> None
                | Some (v, rest) \<Rightarrow> if rest = [] then Some (of_int sg * v) else None)))"

definition js_toLower :: "string \<Rightarrow> string" where
  "js_toLower s =
     map (\<lambda>c. let k = (of_char c :: nat)
             in if 65 \<le> k \<and> k \<le> 90 then char_of (k + 32) else c) s"

subsection \<open>Printing numbers\<close>

text \<open>
  The decimals of a fraction in \<open>[0, 1)\<close>; a double has at most 17 significant ones.
\<close>

fun frac_digits :: "nat \<Rightarrow> rat \<Rightarrow> string" where
  "frac_digits 0 q = []"
| "frac_digits (Suc n) q =
     (if q = 0 then []
      else digit_char (nat \<lfloor>10 * q\<rfloor> mod 10) # frac_digits n (10 * q - of_int \<lfloor>10 * q\<rfloor>))"

definition js_num_string :: "rat \<Rightarrow> string" where
  "js_num_string q =
     (let a = \<bar>q\<bar>; f = a - of_int \<lfloor>a\<rfloor>
      in (if q < 0 then ''-'' else []) @ nat_string (nat \<lfloor>a\<rfloor>)
         @ (if f = 0 then [] else CHR ''.'' # frac_digits 17 f))"


text \<open>The conversion of an integer to a string, and reading it back.\<close>

definition js_int_string :: "int \<Rightarrow> string" where
  "js_int_string i = (if i < 0 then ''-'' else []) @ nat_string (nat \<bar>i\<bar>)"

lemma js_int_string_nat [simp]: "js_int_string (int n) = nat_string n"
  by (simp add: js_int_string_def)

lemma digit_not_space: "is_digit c \<Longrightarrow> \<not> is_space c"
  by (auto simp: is_digit_def digit_val_def is_space_def Let_def split: if_splits)

lemma js_sign_digit: "is_digit c \<Longrightarrow> js_sign (c # cs) = (1, c # cs)"
  using is_digit_not by (auto simp: is_digit_def)

lemma js_hex_prefix_digits: "\<forall>c \<in> set s. is_digit c \<Longrightarrow> \<not> js_hex_prefix s"
  by (cases s rule: js_hex_prefix.cases) (auto dest: is_digit_not [THEN notE, rotated])

lemma js_parseInt_nat_string [simp]: "js_parseInt (nat_string n) = Some (int n)"
proof -
  obtain c cs where c: "nat_string n = c # cs" using nat_string_not_Nil by (cases "nat_string n") auto
  have d: "\<forall>x \<in> set (nat_string n). is_digit x" using nat_string_digits by blast
  then have "is_digit c" using c by simp
  then have "dropWhile is_space (nat_string n) = nat_string n" "js_sign (nat_string n) = (1, nat_string n)"
    using c digit_not_space js_sign_digit by simp_all
  with d js_hex_prefix_digits [OF d] show ?thesis
    by (simp add: js_parseInt_def takeWhile_nat_string del: nat_string.simps)
qed

end
