(* ===== verification/Style.thy ===== *)
theory Style
  imports JsString "HOL-Library.Word"
begin

unbundle bit_operations_syntax

text \<open>
  Cell styles.  A cell's style is a string of tokens separated by \<open>;\<close>, each the name of a
  registered style or a pair \<open>key=value\<close>.  util/mxUtils.js edits such strings,
  view/mxStylesheet.js resolves them to an object of key and value pairs, and
  view/mxStyleRegistry.js names the functions that occur as values.
\<close>

datatype style_value = SNum rat | SStr string | SFun string | SBool bool

type_synonym style_obj = "style_value jsobj"

subsection \<open>Style names and tokens\<close>

definition getStylename :: "string option \<Rightarrow> string" where
  "getStylename style =
     (case style of
        None \<Rightarrow> []
      | Some s \<Rightarrow>
          (let pairs = js_split CHR '';'' s; stylename = hd pairs
           in if js_str_indexOf stylename ''='' < 0 then stylename else []))"

definition getStylenames :: "string option \<Rightarrow> string list" where
  "getStylenames style =
     (case style of
        None \<Rightarrow> []
      | Some s \<Rightarrow> filter (\<lambda>t. js_str_indexOf t ''='' < 0) (js_split CHR '';'' s))"

fun stylename_loop :: "string \<Rightarrow> int \<Rightarrow> string list \<Rightarrow> int" where
  "stylename_loop name pos [] = -1"
| "stylename_loop name pos (t # ts) =
     (if t = name then pos else stylename_loop name (pos + int (length t) + 1) ts)"

definition indexOfStylename :: "string option \<Rightarrow> string option \<Rightarrow> int" where
  "indexOfStylename style name =
     (case (style, name) of
        (Some s, Some n) \<Rightarrow> stylename_loop n 0 (js_split CHR '';'' s)
      | _ \<Rightarrow> -1)"

definition addStylename :: "string option \<Rightarrow> string \<Rightarrow> string" where
  "addStylename style name =
     (if indexOfStylename style (Some name) < 0 then
        (case style of
           None \<Rightarrow> []
         | Some s \<Rightarrow>
             (if length s > 0 \<and> js_charAt s (int (length s) - 1) \<noteq> '';'' then s @ '';'' else s))
        @ name
      else the style)"

definition removeStylename :: "string option \<Rightarrow> string \<Rightarrow> string" where
  "removeStylename style name =
     (case style of
        None \<Rightarrow> []
      | Some s \<Rightarrow> js_join '';'' (filter (\<lambda>t. t \<noteq> name) (js_split CHR '';'' s)))"

definition removeAllStylenames :: "string option \<Rightarrow> string" where
  "removeAllStylenames style =
     (case style of
        None \<Rightarrow> []
      | Some s \<Rightarrow>
          js_join '';'' (filter (\<lambda>t. js_str_indexOf t ''='' \<ge> 0) (js_split CHR '';'' s)))"

lemma stylename_loop_neg_iff: "0 \<le> pos \<Longrightarrow> stylename_loop n pos ts < 0 \<longleftrightarrow> n \<notin> set ts"
  by (induction ts arbitrary: pos) auto

lemma indexOfStylename_neg_iff:
  "indexOfStylename (Some s) (Some n) < 0 \<longleftrightarrow> n \<notin> set (js_split CHR '';'' s)"
  by (simp add: indexOfStylename_def stylename_loop_neg_iff)

lemma js_charAt_last: "js_charAt s (int (length s) - 1) = [last s]" if "s \<noteq> []"
  using that by (simp add: js_charAt_def js_at_def last_conv_nth nat_diff_distrib Suc_leI)

lemma js_split_snoc_sep [js_string]: "js_split c (s @ [c]) = js_split c s @ [[]]"
  by (induction s) (auto split: list.splits)

text \<open>The tokens after \<open>addStylename\<close>: a trailing separator is reused.\<close>

lemma js_split_ends_sep:
  "s \<noteq> [] \<Longrightarrow> last s = c \<Longrightarrow> \<exists>u. s = u @ [c]"
  by (metis append_butlast_last_id)

lemma addStylename_tokens:
  assumes n: "CHR '';'' \<notin> set n"
  shows "n \<in> set (js_split CHR '';'' (addStylename style n))"
proof (cases "indexOfStylename style (Some n) < 0")
  case False
  then obtain s where s: "style = Some s"
    by (cases style) (auto simp: indexOfStylename_def)
  with False show ?thesis
    by (simp add: addStylename_def indexOfStylename_neg_iff)
next
  case idx: True
  have last: "n \<in> set (js_split CHR '';'' (u @ CHR '';'' # n))" for u
    using n by (simp add: js_split_sep_append js_split_single)
  consider "style = None \<or> style = Some []"
    | s where "style = Some s" "s \<noteq> []" "last s = CHR '';''"
    | s where "style = Some s" "s \<noteq> []" "last s \<noteq> CHR '';''"
    by (cases style) auto
  then show ?thesis
  proof cases
    case 1
    then have "addStylename style n = n" using idx by (auto simp: addStylename_def)
    then show ?thesis using n by (simp add: js_split_single)
  next
    case 2
    then obtain u where u: "s = u @ '';''" using js_split_ends_sep [OF 2(2,3)] by auto
    have "addStylename style n = s @ n"
      unfolding addStylename_def 2(1) option.case using idx 2 js_charAt_last [OF 2(2)] by simp
    then show ?thesis using last [of u] u by simp
  next
    case 3
    then have "addStylename style n = s @ CHR '';'' # n"
      using idx by (simp add: addStylename_def js_charAt_last)
    then show ?thesis using last [of s] by simp
  qed
qed

lemma removeStylename_tokens:
  assumes "n \<noteq> []"
  shows "n \<notin> set (js_split CHR '';'' (removeStylename (Some s) n))"
proof -
  let ?ts = "filter (\<lambda>t. t \<noteq> n) (js_split CHR '';'' s)"
  show ?thesis
  proof (cases "?ts = []")
    case True
    then show ?thesis using assms by (simp add: removeStylename_def)
  next
    case False
    moreover have "\<forall>t \<in> set ?ts. CHR '';'' \<notin> set t"
      using js_split_no_sep by fastforce
    ultimately show ?thesis
      by (simp add: removeStylename_def js_split_join)
  qed
qed

subsection \<open>Setting a key of a style string\<close>

text \<open>The conversion of a value to a string in a concatenation.\<close>

fun style_value_string :: "style_value \<Rightarrow> string" where
  "style_value_string (SNum q) = js_num_string q"
| "style_value_string (SStr s) = s"
| "style_value_string (SFun f) = f"
| "style_value_string (SBool b) = (if b then ''true'' else ''false'')"

fun style_is_value :: "style_value option \<Rightarrow> bool" where
  "style_is_value None = False"
| "style_is_value (Some (SStr s)) = (length s > 0)"
| "style_is_value (Some _) = True"

definition setStyle :: "string option \<Rightarrow> string \<Rightarrow> style_value option \<Rightarrow> string option" where
  "setStyle style key val =
     (let isValue = style_is_value val;
          v = (case val of None \<Rightarrow> [] | Some x \<Rightarrow> style_value_string x)
      in case style of
           None \<Rightarrow> (if isValue then Some (key @ ''='' @ v @ '';'') else None)
         | Some s \<Rightarrow>
             (if length s = 0 then (if isValue then Some (key @ ''='' @ v @ '';'') else Some s)
              else if js_substring s 0 (int (length key) + 1) = key @ ''='' then
                (let nxt = js_str_indexOf s '';'' in
                 if isValue
                 then Some (key @ ''='' @ v @ (if nxt < 0 then '';'' else js_substring_from s nxt))
                 else Some (if nxt < 0 \<or> nxt = int (length s) - 1 then []
                            else js_substring_from s (nxt + 1)))
              else
                (let index = js_str_indexOf s ('';'' @ key @ ''='') in
                 if index < 0 then
                   (if isValue then
                      (let sep = (if js_charAt s (int (length s) - 1) = '';'' then [] else '';'')
                       in Some (s @ sep @ key @ ''='' @ v @ '';''))
                    else Some s)
                 else
                   (let nxt = js_indexOf_from s '';'' (nat (index + 1)) in
                    if isValue
                    then Some (js_substring s 0 (index + 1) @ key @ ''='' @ v
                               @ (if nxt < 0 then '';'' else js_substring_from s nxt))
                    else Some (js_substring s 0 index
                               @ (if nxt < 0 then '';'' else js_substring_from s nxt))))))"

text \<open>
  The string operations of \<open>setStyle\<close> in terms of the list of tokens: where the pattern
  \<open>;key=\<close> is found, and what the string looks like around it.
\<close>

fun token_pos :: "string \<Rightarrow> int \<Rightarrow> string list \<Rightarrow> int" where
  "token_pos p k [] = -1"
| "token_pos p k [t] = -1"
| "token_pos p k (t # u # ts) =
     (if js_starts p u then k + int (length t) else token_pos p (k + int (length t) + 1) (u # ts))"

lemma js_starts_hd_split:
  "c \<notin> set p \<Longrightarrow> js_starts p (hd (js_split c s)) \<longleftrightarrow> js_starts p s"
proof (induction p arbitrary: s)
  case Nil
  then show ?case by simp
next
  case (Cons a p)
  show ?case
  proof (cases s)
    case Nil
    then show ?thesis by simp
  next
    case (Cons x xs)
    obtain t ts where "js_split c xs = t # ts" by (cases "js_split c xs") auto
    with Cons Cons.IH [of xs] \<open>c \<notin> set (a # p)\<close> show ?thesis by auto
  qed
qed

lemma js_find_token_pos:
  "c \<notin> set p \<Longrightarrow> js_find (c # p) s k = token_pos p k (js_split c s)"
proof (induction s arbitrary: k)
  case Nil
  then show ?case by simp
next
  case (Cons x xs)
  obtain t ts where ts: "js_split c xs = t # ts" by (cases "js_split c xs") auto
  have st: "js_starts p t \<longleftrightarrow> js_starts p xs"
    using js_starts_hd_split [of c p xs] Cons.prems ts by simp
  show ?case
  proof (cases "x = c")
    case True
    then show ?thesis using Cons ts st by simp
  next
    case False
    then show ?thesis using Cons ts by (cases ts) (auto simp: algebra_simps)
  qed
qed

lemma token_pos_cases:
  assumes "ts \<noteq> []"
  obtains (absent) "token_pos p k ts = -1" "\<forall>u \<in> set (tl ts). \<not> js_starts p u"
  | (found) pre u post where "ts = pre @ u # post" "pre \<noteq> []" "js_starts p u"
      "\<forall>a \<in> set (tl pre). \<not> js_starts p a"
      "token_pos p k ts = k + int (length (js_join '';'' pre))"
  using assms
proof (induction p k ts arbitrary: thesis rule: token_pos.induct)
  case (1 p k)
  then show ?case by simp
next
  case (2 p k t)
  then show ?case by simp
next
  case (3 p k t u ts)
  show ?case
  proof (cases "js_starts p u")
    case True
    then show ?thesis using "3.prems"(2) [of "[t]" u ts] by simp
  next
    case False
    show ?thesis
    proof (rule "3.IH" [OF False])
      assume "token_pos p (k + int (length t) + 1) (u # ts) = -1"
        "\<forall>v \<in> set (tl (u # ts)). \<not> js_starts p v"
      then show ?thesis using False "3.prems"(1) by auto
    next
      fix pre v post
      assume a: "u # ts = pre @ v # post" "pre \<noteq> []" "js_starts p v"
        "\<forall>a \<in> set (tl pre). \<not> js_starts p a"
        "token_pos p (k + int (length t) + 1) (u # ts)
           = k + int (length t) + 1 + int (length (js_join '';'' pre))"
      then have "\<forall>a \<in> set (tl (t # pre)). \<not> js_starts p a"
        using False by (cases pre) auto
      moreover have "token_pos p k (t # u # ts) = k + int (length (js_join '';'' (t # pre)))"
        using a(2,5) False by (simp add: js_join_Cons)
      ultimately show ?thesis
        using "3.prems"(2) [of "t # pre" v post] a(1,3) by simp
    qed simp
  qed
qed

text \<open>The value the first token of a key carries; this is what \<open>setStyle\<close> edits.\<close>

definition token_lookup :: "string \<Rightarrow> string list \<Rightarrow> string option" where
  "token_lookup k ts =
     map_option (drop (length k + 1)) (List.find (js_starts (k @ ''='')) ts)"

definition style_lookup :: "string \<Rightarrow> string option \<Rightarrow> string option" where
  "style_lookup k style =
     (case style of None \<Rightarrow> None | Some s \<Rightarrow> token_lookup k (js_split CHR '';'' s))"

lemma token_lookup_Nil [simp]: "token_lookup k [] = None"
  by (simp add: token_lookup_def)

lemma token_lookup_Cons:
  "token_lookup k (t # ts) =
     (if js_starts (k @ ''='') t then Some (drop (length k + 1) t) else token_lookup k ts)"
  by (simp add: token_lookup_def)

lemma token_lookup_append_absent:
  "\<forall>t \<in> set xs. \<not> js_starts (k @ ''='') t \<Longrightarrow> token_lookup k (xs @ ys) = token_lookup k ys"
  by (induction xs) (auto simp: token_lookup_Cons)

lemma token_lookup_append_cong:
  "token_lookup k ys = token_lookup k zs \<Longrightarrow> token_lookup k (xs @ ys) = token_lookup k (xs @ zs)"
  by (induction xs) (auto simp: token_lookup_Cons)

lemma token_lookup_empty_token [simp]: "token_lookup k ([] # ts) = token_lookup k ts"
  by (cases k) (simp_all add: token_lookup_Cons)

lemma token_lookup_own [simp]: "token_lookup k ((k @ CHR ''='' # v) # ts) = Some v"
  by (simp add: token_lookup_Cons js_starts_def)

lemma js_starts_key_iff:
  "CHR ''='' \<notin> set k \<Longrightarrow> CHR ''='' \<notin> set k2 \<Longrightarrow>
   js_starts (k2 @ ''='') (k @ CHR ''='' # v) \<longleftrightarrow> k2 = k"
proof (induction k arbitrary: k2)
  case Nil
  then show ?case by (cases k2) auto
next
  case (Cons a k)
  then show ?case by (cases k2) auto
qed

lemma js_starts_other_key:
  "CHR ''='' \<notin> set k \<Longrightarrow> CHR ''='' \<notin> set k2 \<Longrightarrow> js_starts (k @ ''='') t \<Longrightarrow> k2 \<noteq> k \<Longrightarrow>
   \<not> js_starts (k2 @ ''='') t"
proof -
  assume a: "CHR ''='' \<notin> set k" "CHR ''='' \<notin> set k2" "js_starts (k @ ''='') t" "k2 \<noteq> k"
  from a(3) obtain v where "t = (k @ ''='') @ v"
    by (metis append_take_drop_id js_starts_def)
  with a js_starts_key_iff [of k k2 v] show ?thesis by simp
qed

text \<open>
  The tokens of the result.  A found token is replaced in place; a new one goes to the end,
  after dropping the empty token a trailing separator leaves.
\<close>

definition drop_trailing :: "string list \<Rightarrow> string list" where
  "drop_trailing ts = (if ts \<noteq> [] \<and> last ts = [] then butlast ts else ts)"

definition ends_token :: "string list \<Rightarrow> string list" where
  "ends_token ts = (if ts = [] then [[]] else ts)"

lemma js_join_snoc_empty: "ts \<noteq> [] \<Longrightarrow> js_join [c] (ts @ [[]]) = js_join [c] ts @ [c]"
  by (simp add: js_join_append)

lemma js_split_join_tokens:
  "ts \<noteq> [] \<Longrightarrow> \<forall>t \<in> set ts. CHR '';'' \<notin> set t \<Longrightarrow>
   js_split CHR '';'' (js_join '';'' ts) = ts"
  by (rule js_split_join)

text \<open>Where a token list cuts its string: the text before a token and the rest after it.\<close>

lemma join_cut:
  assumes "pre \<noteq> []"
  shows "js_join '';'' (pre @ u # post) =
           js_join '';'' pre @ CHR '';'' # u @ (if post = [] then [] else CHR '';'' # js_join '';'' post)"
  using assms by (cases post) (simp_all add: js_join_append js_join_Cons)

lemma js_find_next_token:
  assumes "CHR '';'' \<notin> set u"
  shows "js_find '';'' (u @ (if post = [] then [] else CHR '';'' # r)) k =
           (if post = [] then -1 else k + int (length u))"
  using assms by (simp add: js_find_char js_find_char_absent)

lemma setStyle_tokens_empty:
  assumes "style = None \<or> style = Some []" and "style_is_value (Some val)"
  shows "setStyle style key (Some val)
           = Some (js_join '';'' [key @ CHR ''='' # style_value_string val, []])"
  using assms by (auto simp: setStyle_def Let_def)

lemma setStyle_tokens_first:
  assumes "js_split CHR '';'' s = t # ts" and "js_starts (key @ ''='') t" and "s \<noteq> []"
    and "CHR '';'' \<notin> set key"
  shows "setStyle (Some s) key val =
     Some (if style_is_value val
       then js_join '';'' ((key @ CHR ''='' # style_value_string (the val)) # ends_token ts)
       else js_join '';'' ts)"
proof -
  have s: "s = t @ (if ts = [] then [] else CHR '';'' # js_join '';'' ts)"
    using js_join_split [of "CHR '';''" s] assms(1) by (cases ts) (simp_all add: js_join_Cons)
  have t: "CHR '';'' \<notin> set t" using js_split_no_sep [of t "CHR '';''" s] assms(1) by simp
  have "CHR '';'' \<notin> set (key @ ''='')" using assms(4) by simp
  from js_starts_hd_split [OF this, of s] have "js_starts (key @ ''='') s"
    using assms(1,2) by simp
  then have tk: "take (length key + 1) s = key @ ''=''" by (simp add: js_starts_def)
  then have "length key + 1 \<le> length s" by (cases "length key + 1 \<le> length s") auto
  then have pre: "js_substring s 0 (int (length key) + 1) = key @ ''=''"
    using js_substring_prefix [of "length key + 1" s] tk by (simp add: add.commute)
  have "js_find '';'' s 0 = (if ts = [] then -1 else 0 + int (length t))"
    by (subst s, rule js_find_next_token [OF t])
  then have nxt: "js_str_indexOf s '';'' = (if ts = [] then -1 else int (length t))"
    by (simp add: js_str_indexOf_def js_indexOf_from_def)
  have rest: "ts \<noteq> [] \<Longrightarrow> js_substring_from s (int (length t)) = CHR '';'' # js_join '';'' ts"
    "ts \<noteq> [] \<Longrightarrow> js_substring_from s (int (length t) + 1) = js_join '';'' ts"
    by (subst s, simp add: js_substring_from_def nat_add_distrib)+
  have len: "ts \<noteq> [] \<Longrightarrow> int (length t) = int (length s) - 1 \<Longrightarrow> js_join '';'' ts = []"
    using s by (auto dest!: arg_cong [where f = length])
  show ?thesis
  proof (cases val)
    case None
    then show ?thesis
      using assms(3) pre nxt rest len by (auto simp: setStyle_def Let_def ends_token_def)
  next
    case (Some v)
    then show ?thesis
      using assms(3) pre nxt rest len
      by (auto simp: setStyle_def Let_def ends_token_def js_join_Cons)
  qed
qed

text \<open>When the first token is another one, the pattern is searched from the second on.\<close>

lemma js_starts_first_token:
  assumes "CHR '';'' \<notin> set key"
  shows "js_substring s 0 (int (length key) + 1) = key @ ''='' \<longleftrightarrow>
         js_starts (key @ ''='') (hd (js_split CHR '';'' s))"
proof -
  have "js_substring s 0 (int (length key) + 1) = take (length key + 1) s"
  proof (cases "length key + 1 \<le> length s")
    case True
    then show ?thesis using js_substring_prefix [of "length key + 1" s] by (simp add: add.commute)
  next
    case False
    then show ?thesis by (simp add: js_substring_def Let_def)
  qed
  then have "js_substring s 0 (int (length key) + 1) = key @ ''='' \<longleftrightarrow> js_starts (key @ ''='') s"
    by (simp add: js_starts_def)
  moreover have "CHR '';'' \<notin> set (key @ ''='')" using assms by simp
  ultimately show ?thesis using js_starts_hd_split by blast
qed

lemma setStyle_tokens_found:
  assumes "js_split CHR '';'' s = pre @ u # post" and "pre \<noteq> []" and "js_starts (key @ ''='') u"
    and no: "\<forall>a \<in> set pre. \<not> js_starts (key @ ''='') a" and "CHR '';'' \<notin> set key"
    and pos: "token_pos (key @ ''='') 0 (js_split CHR '';'' s)
        = int (length (js_join '';'' pre))"
  shows "setStyle (Some s) key val =
     Some (js_join '';'' (pre @ (if style_is_value val
       then [key @ CHR ''='' # style_value_string (the val)] else []) @ ends_token post))"
proof -
  let ?r = "if post = [] then [] else CHR '';'' # js_join '';'' post"
  have s: "s = js_join '';'' pre @ CHR '';'' # u @ ?r"
    using js_join_split [of "CHR '';''" s] assms(1) join_cut [OF assms(2), of u post] by simp
  have u: "CHR '';'' \<notin> set u" using js_split_no_sep [of u "CHR '';''" s] assms(1) by simp
  have ne: "length s \<noteq> 0" by (subst s) simp
  have first: "js_substring s 0 (int (length key) + 1) \<noteq> key @ ''=''"
    using js_starts_first_token [OF assms(5), of s] assms(1,2) no by (cases pre) simp_all
  have "CHR '';'' \<notin> set (key @ ''='')" using assms(5) by simp
  then have index: "js_str_indexOf s ('';'' @ key @ ''='') = int (length (js_join '';'' pre))"
    using js_find_token_pos [of "CHR '';''" "key @ ''=''" s 0] pos
    by (simp add: js_str_indexOf_def js_indexOf_from_def)
  let ?n = "length (js_join '';'' pre)"
  have "drop (Suc ?n) s = u @ ?r" by (subst s) simp
  then have nxt: "js_indexOf_from s '';'' (Suc ?n)
      = (if post = [] then -1 else int (Suc ?n) + int (length u))"
    using js_find_next_token [OF u, of post "js_join '';'' post" "int (Suc ?n)"]
    by (simp only: js_indexOf_from_def)
  have "take ?n s = js_join '';'' pre" and "?n \<le> length s"
    by (subst s, simp)+
  then have cut0: "js_substring s 0 (int ?n) = js_join '';'' pre"
    using js_substring_prefix [of ?n s] by simp
  have "take (Suc ?n) s = js_join '';'' pre @ '';''" and "Suc ?n \<le> length s"
    by (subst s, simp)+
  then have cut1: "js_substring s 0 (int ?n + 1) = js_join '';'' pre @ '';''"
    using js_substring_prefix [of "Suc ?n" s] by (simp add: add.commute)
  have rest: "post \<noteq> [] \<Longrightarrow> js_substring_from s (int (Suc ?n) + int (length u))
      = CHR '';'' # js_join '';'' post"
    by (subst s) (simp add: js_substring_from_def nat_add_distrib)
  show ?thesis
    unfolding setStyle_def Let_def option.case index
    using ne first nxt cut0 cut1 rest assms(2)
    by (cases val) (auto simp: nat_add_distrib js_join_append js_join_Cons ends_token_def)
qed

lemma setStyle_tokens_absent:
  assumes none: "\<forall>t \<in> set (js_split CHR '';'' s). \<not> js_starts (key @ ''='') t"
    and "s \<noteq> []" and "CHR '';'' \<notin> set key"
    and pos: "token_pos (key @ ''='') 0 (js_split CHR '';'' s) = -1"
  shows "setStyle (Some s) key val =
     Some (if style_is_value val
       then js_join '';'' (drop_trailing (js_split CHR '';'' s)
              @ [key @ CHR ''='' # style_value_string (the val), []])
       else s)"
proof -
  let ?ts = "js_split CHR '';'' s"
  have first: "js_substring s 0 (int (length key) + 1) \<noteq> key @ ''=''"
    using js_starts_first_token [OF assms(3), of s] none by simp
  have "CHR '';'' \<notin> set (key @ ''='')" using assms(3) by simp
  then have index: "js_str_indexOf s ('';'' @ key @ ''='') = -1"
    using js_find_token_pos [of "CHR '';''" "key @ ''=''" s 0] pos
    by (simp add: js_str_indexOf_def js_indexOf_from_def)
  have sep: "s @ (if last s = CHR '';'' then [] else '';'') = js_join '';'' (drop_trailing ?ts) @ '';''"
  proof (cases "last s = CHR '';''")
    case True
    then obtain u where u: "s = u @ '';''" using js_split_ends_sep [OF assms(2)] by auto
    then have "drop_trailing ?ts = js_split CHR '';'' u"
      by (simp add: js_split_snoc_sep drop_trailing_def)
    with u True show ?thesis by (simp add: js_join_split)
  next
    case False
    have "last ?ts \<noteq> []"
    proof
      assume "last ?ts = []"
      then obtain ts where ts: "?ts = ts @ [[]]" by (metis append_butlast_last_id js_split_not_Nil)
      with js_join_split [of "CHR '';''" s] assms(2) have "ts \<noteq> []" by (cases ts) auto
      with ts js_join_split [of "CHR '';''" s] have "s = js_join '';'' ts @ '';''"
        by (simp add: js_join_snoc_empty)
      with False show False by (metis last_snoc)
    qed
    with False show ?thesis by (simp add: drop_trailing_def js_join_split)
  qed
  have "drop_trailing ?ts \<noteq> []"
  proof
    assume "drop_trailing ?ts = []"
    then have "?ts = [[]]"
      by (metis append_butlast_last_id append_self_conv2 drop_trailing_def js_split_not_Nil)
    with js_join_split [of "CHR '';''" s] assms(2) show False by simp
  qed
  moreover have "length s \<noteq> 0" using assms(2) by simp
  ultimately show ?thesis
    unfolding setStyle_def Let_def option.case index
    using first sep assms(2) js_charAt_last [OF assms(2)]
    by (cases val) (auto simp: js_join_append)
qed


text \<open>
  The tokens that \<open>setStyle\<close> leaves, in one equation per case: the first token of the key
  is replaced or removed; without one, a new token goes to the end.
\<close>

lemma token_lookup_ends_token [simp]: "token_lookup k (ends_token ts) = token_lookup k ts"
  by (simp add: ends_token_def)

lemma token_lookup_snoc_empty [simp]: "token_lookup k (ts @ [[]]) = token_lookup k ts"
  by (induction ts) (simp_all add: token_lookup_Cons [of k _ "_ @ _"] token_lookup_Cons [of k _ ts for ts])

lemma token_lookup_drop_trailing [simp]: "token_lookup k (drop_trailing ts) = token_lookup k ts"
proof (cases "ts \<noteq> [] \<and> last ts = []")
  case True
  then have "ts = butlast ts @ [[]]" by (metis append_butlast_last_id)
  then have "token_lookup k ts = token_lookup k (butlast ts)"
    using token_lookup_snoc_empty [of k "butlast ts"] by simp
  with True show ?thesis by (simp add: drop_trailing_def)
qed (auto simp: drop_trailing_def)

lemma drop_trailing_subset: "set (drop_trailing ts) \<subseteq> set ts"
  by (auto simp: drop_trailing_def dest: in_set_butlastD)

lemma token_lookup_append:
  "token_lookup k (xs @ ys) =
     (case token_lookup k xs of None \<Rightarrow> token_lookup k ys | Some v \<Rightarrow> Some v)"
  by (induction xs) (auto simp: token_lookup_Cons)

lemma token_lookup_None_iff:
  "token_lookup k ts = None \<longleftrightarrow> (\<forall>t \<in> set ts. \<not> js_starts (k @ ''='') t)"
  by (induction ts) (auto simp: token_lookup_Cons)

lemma style_lookup_join:
  assumes "\<forall>t \<in> set ts. CHR '';'' \<notin> set t"
  shows "style_lookup k (Some (js_join '';'' ts)) = token_lookup k ts"
  using js_split_join_tokens [OF _ assms] by (cases "ts = []") (simp_all add: style_lookup_def)

lemma setStyle_cases:
  assumes "CHR '';'' \<notin> set key"
  obtains (empty) "style = None \<or> style = Some []"
  | (absent) s where "style = Some s" "s \<noteq> []"
      "token_lookup key (js_split CHR '';'' s) = None"
      "setStyle style key val = Some (if style_is_value val
         then js_join '';'' (drop_trailing (js_split CHR '';'' s)
                @ [key @ CHR ''='' # style_value_string (the val), []])
         else s)"
  | (found) s pre u post where "style = Some s" "js_split CHR '';'' s = pre @ u # post"
      "js_starts (key @ ''='') u" "token_lookup key pre = None"
      "setStyle style key val = Some (js_join '';'' (pre @ (if style_is_value val
         then [key @ CHR ''='' # style_value_string (the val)] @ ends_token post
         else if pre = [] then post else ends_token post)))"
proof (cases "style = None \<or> style = Some []")
  case True
  then show thesis by (rule that(1))
next
  case False
  then obtain s where s: "style = Some s" "s \<noteq> []" by auto
  let ?ts = "js_split CHR '';'' s"
  obtain t ts where ts: "?ts = t # ts" by (cases ?ts) auto
  show thesis
  proof (cases "js_starts (key @ ''='') t")
    case True
    from setStyle_tokens_first [OF ts True s(2) assms, of val]
    show thesis using that(3) [of s "[]" t ts] s ts True by simp
  next
    case no: False
    have "?ts \<noteq> []" by simp
    then show thesis
    proof (rule token_pos_cases [of ?ts "key @ ''=''" 0])
      assume a: "token_pos (key @ ''='') 0 ?ts = -1" "\<forall>u \<in> set (tl ?ts). \<not> js_starts (key @ ''='') u"
      then have "\<forall>u \<in> set ?ts. \<not> js_starts (key @ ''='') u" using ts no by simp
      with setStyle_tokens_absent [OF this s(2) assms a(1), of val] that(2) [of s] s
      show thesis by (simp add: token_lookup_None_iff)
    next
      fix pre u post
      assume a: "?ts = pre @ u # post" "pre \<noteq> []" "js_starts (key @ ''='') u"
        "\<forall>a \<in> set (tl pre). \<not> js_starts (key @ ''='') a"
        "token_pos (key @ ''='') 0 ?ts = 0 + int (length (js_join '';'' pre))"
      then have "\<forall>a \<in> set pre. \<not> js_starts (key @ ''='') a" using ts no by (cases pre) auto
      with setStyle_tokens_found [OF a(1-3) this assms, of val] that(3) [of s pre u post] s a
      show thesis by (simp add: token_lookup_None_iff)
    qed
  qed
qed

lemma setStyle_lookup_value:
  assumes "CHR '';'' \<notin> set key" "CHR '';'' \<notin> set (style_value_string v)" "style_is_value (Some v)"
  shows "style_lookup key (setStyle style key (Some v)) = Some (style_value_string v)"
  using assms(1)
proof (cases rule: setStyle_cases [where style = style and val = "Some v"])
  case empty
  then show ?thesis using assms
    by (simp add: setStyle_tokens_empty style_lookup_join del: js_join.simps)
next
  case (absent s)
  have "\<forall>t \<in> set (drop_trailing (js_split CHR '';'' s)). CHR '';'' \<notin> set t"
    using drop_trailing_subset js_split_no_sep by blast
  with absent assms show ?thesis
    by (simp add: style_lookup_join token_lookup_append)
next
  case (found s pre u post)
  have "\<forall>t \<in> set (pre @ ends_token post). CHR '';'' \<notin> set t"
    using js_split_no_sep [of _ "CHR '';''" s] found(2) by (auto simp: ends_token_def)
  with found assms show ?thesis
    by (simp add: style_lookup_join token_lookup_append ball_Un)
qed

lemma setStyle_lookup_other:
  assumes "CHR '';'' \<notin> set key" "CHR '';'' \<notin> set (style_value_string v)" "k2 \<noteq> key"
    and "CHR ''='' \<notin> set key" "CHR ''='' \<notin> set k2" "val = Some v \<or> val = None"
  shows "style_lookup k2 (setStyle style key val) = style_lookup k2 style"
  using assms(1)
proof (cases rule: setStyle_cases [where style = style and val = val])
  case empty
  have "\<not> js_starts (k2 @ ''='') (key @ CHR ''='' # w)" for w
    using assms by (simp add: js_starts_key_iff)
  then have tok: "style_lookup k2 (Some (js_join '';'' [key @ CHR ''='' # style_value_string v, []])) = None"
    using assms by (subst style_lookup_join) (simp_all add: token_lookup_Cons [of _ "_ @ _"])
  have none: "style_lookup k2 style = None"
    using empty by (cases k2) (auto simp: style_lookup_def token_lookup_Cons)
  show ?thesis
  proof (cases "style_is_value val")
    case True
    with assms(6) have "val = Some v" by auto
    with True none tok show ?thesis by (simp only: setStyle_tokens_empty [OF empty])
  next
    case False
    with empty have "setStyle style key val = style" by (auto simp: setStyle_def Let_def)
    then show ?thesis by simp
  qed
next
  case (absent s)
  have "\<forall>t \<in> set (drop_trailing (js_split CHR '';'' s)). CHR '';'' \<notin> set t"
    using drop_trailing_subset js_split_no_sep by blast
  moreover have "style_lookup k2 (Some s) = token_lookup k2 (js_split CHR '';'' s)"
    by (simp add: style_lookup_def)
  ultimately show ?thesis using absent assms
    by (auto simp: style_lookup_join token_lookup_append token_lookup_Cons js_starts_key_iff
        split: option.splits)
next
  case (found s pre u post)
  have "\<forall>t \<in> set (pre @ ends_token post). CHR '';'' \<notin> set t" "\<forall>t \<in> set (pre @ post). CHR '';'' \<notin> set t"
    using js_split_no_sep [of _ "CHR '';''" s] found(2) by (auto simp: ends_token_def)
  moreover have "\<not> js_starts (k2 @ ''='') u"
    using js_starts_other_key [OF assms(4,5) found(3)] assms by simp
  moreover have "style_lookup k2 (Some s) = token_lookup k2 (js_split CHR '';'' s)"
    by (simp add: style_lookup_def)
  ultimately show ?thesis using found assms
    by (auto simp: style_lookup_join token_lookup_append token_lookup_Cons js_starts_key_iff
        split: option.splits)
qed

subsection \<open>Properties\<close>

text \<open>after \<open>mxUtils.setStyle\<close> with a value the first token of the key carries the value, and
  every other key keeps the value its first token had.\<close>

theorem setStyle_lookup:
  assumes "CHR '';'' \<notin> set key" and "CHR ''='' \<notin> set key" and "CHR ''='' \<notin> set k2"
    and "CHR '';'' \<notin> set (style_value_string v)" and "style_is_value (Some v)"
  shows "style_lookup k2 (setStyle style key (Some v)) =
           (if k2 = key then Some (style_value_string v) else style_lookup k2 style)"
  using assms setStyle_lookup_value setStyle_lookup_other by auto

theorem setStyle_lookup_witness:
  "style_lookup ''shape'' (setStyle (Some ''shape=box;w=2'') ''w'' (Some (SStr ''3''))) = Some ''box''"
  using setStyle_lookup [of "''w''" "''shape''" "SStr ''3''" "Some ''shape=box;w=2''"]
  by (simp add: style_lookup_def token_lookup_def js_starts_def)

text \<open>a style name is a token after \<open>mxUtils.addStylename\<close>, and no token after
  \<open>mxUtils.removeStylename\<close>.\<close>

theorem stylename_add_remove:
  assumes "n \<noteq> []" and "CHR '';'' \<notin> set n"
  shows "n \<in> set (js_split CHR '';'' (addStylename style n)) \<and>
         n \<notin> set (js_split CHR '';'' (removeStylename (Some (addStylename style n)) n))"
  using assms addStylename_tokens removeStylename_tokens by blast

theorem stylename_add_remove_witness:
  "''bold'' \<in> set (js_split CHR '';'' (addStylename (Some ''a=1;'') ''bold''))"
  using stylename_add_remove [of "''bold''" "Some ''a=1;''"] by simp

end
