(* ===== verification/Stylesheet.thy ===== *)
theory Stylesheet
  imports Style
begin

text \<open>
  Resolution of cell styles: view/mxStylesheet.js (named styles, defaults, and the merge that
  turns a style string into an object), view/mxStyleRegistry.js (names for function values),
  and the helpers of util/mxUtils.js that read such objects.  A plain object is an
  association list in insertion order: assigning a property is \<open>AList.update\<close>, deleting one
  is \<open>AList.delete\<close>.
\<close>

subsection \<open>Numbers in style values\<close>

definition isNumeric :: "string \<Rightarrow> bool" where
  "isNumeric n \<longleftrightarrow>
     js_parseFloat n \<noteq> None \<and> js_Number n \<noteq> None \<and> js_str_indexOf (js_toLower n) ''0x'' < 0"

definition isInteger :: "string \<Rightarrow> bool" where
  "isInteger n \<longleftrightarrow>
     (case js_parseInt n of None \<Rightarrow> ''NaN'' | Some i \<Rightarrow> js_num_string (of_int i)) = n"

definition parseCssNumber :: "string \<Rightarrow> jsnum" where
  "parseCssNumber v =
     (let v = (if v = ''thin'' then ''2'' else if v = ''medium'' then ''4''
               else if v = ''thick'' then ''6'' else v)
      in case js_parseFloat v of None \<Rightarrow> 0 | Some q \<Rightarrow> q)"

text \<open>JavaScript's remainder takes the sign of the dividend; \<open>js_rem\<close> writes that out.\<close>

definition js_rem :: "int \<Rightarrow> int \<Rightarrow> int" where
  "js_rem n m = (if n < 0 then - (\<bar>n\<bar> mod \<bar>m\<bar>) else \<bar>n\<bar> mod \<bar>m\<bar>)"

definition mxMod :: "int \<Rightarrow> int \<Rightarrow> int" where
  "mxMod n m = js_rem (js_rem n m + m) m"

lemma mxMod_eq_mod:
  assumes "0 < m"
  shows "mxMod n m = n mod m"
proof -
  have "0 \<le> js_rem n m + m"
  proof -
    have "\<bar>m\<bar> = m" using assms by simp
    moreover have "\<bar>n\<bar> mod m < m" "0 \<le> \<bar>n\<bar> mod m" using assms by simp_all
    ultimately show ?thesis unfolding js_rem_def by (auto simp del: abs_of_neg)
  qed
  then have "mxMod n m = (js_rem n m + m) mod m"
    using assms by (simp add: mxMod_def js_rem_def)
  also have "\<dots> = js_rem n m mod m" by simp
  also have "\<dots> = n mod m"
    using assms by (simp add: js_rem_def mod_minus_eq)
  finally show ?thesis .
qed

subsection \<open>Reading a style object\<close>

definition getValue :: "style_obj option \<Rightarrow> string \<Rightarrow> style_value option \<Rightarrow> style_value option" where
  "getValue array key defaultValue =
     (case (case array of None \<Rightarrow> None | Some a \<Rightarrow> map_of a key) of
        None \<Rightarrow> defaultValue
      | Some v \<Rightarrow> Some v)"

text \<open>\<open>Number(value)\<close>; a function and an unreadable string are NaN, here \<open>None\<close>.\<close>

fun style_value_number :: "style_value \<Rightarrow> jsnum option" where
  "style_value_number (SNum q) = Some q"
| "style_value_number (SStr s) = js_Number s"
| "style_value_number (SBool b) = Some (if b then 1 else 0)"
| "style_value_number (SFun f) = None"

definition getNumber :: "style_obj option \<Rightarrow> string \<Rightarrow> jsnum option \<Rightarrow> jsnum option" where
  "getNumber array key defaultValue =
     (case (case array of None \<Rightarrow> None | Some a \<Rightarrow> map_of a key) of
        None \<Rightarrow> (case defaultValue of None \<Rightarrow> Some 0 | Some d \<Rightarrow> Some d)
      | Some v \<Rightarrow> style_value_number v)"

definition getColor :: "style_obj option \<Rightarrow> string \<Rightarrow> style_value option \<Rightarrow> style_value option" where
  "getColor array key defaultValue =
     (case (case array of None \<Rightarrow> None | Some a \<Rightarrow> map_of a key) of
        None \<Rightarrow> defaultValue
      | Some v \<Rightarrow> if v = SStr ''none'' then None else Some v)"

subsection \<open>mxStylesheet\<close>

record mxStylesheet =
  styles :: "style_obj jsobj"

definition putCellStyle :: "mxStylesheet \<Rightarrow> string \<Rightarrow> style_obj \<Rightarrow> mxStylesheet" where
  "putCellStyle sh name style = sh\<lparr>styles := AList.update name style (styles sh)\<rparr>"

definition createDefaultVertexStyle :: style_obj where
  "createDefaultVertexStyle =
     [(''shape'', SStr ''rectangle''),
      (''perimeter'', SFun ''RectanglePerimeter''),
      (''verticalAlign'', SStr ''middle''),
      (''align'', SStr ''center''),
      (''fillColor'', SStr ''#C3D9FF''),
      (''strokeColor'', SStr ''#6482B9''),
      (''fontColor'', SStr ''#774400'')]"

definition createDefaultEdgeStyle :: style_obj where
  "createDefaultEdgeStyle =
     [(''shape'', SStr ''connector''),
      (''endArrow'', SStr ''classic''),
      (''verticalAlign'', SStr ''middle''),
      (''align'', SStr ''center''),
      (''strokeColor'', SStr ''#6482B9''),
      (''fontColor'', SStr ''#446299'')]"

definition putDefaultVertexStyle :: "mxStylesheet \<Rightarrow> style_obj \<Rightarrow> mxStylesheet" where
  "putDefaultVertexStyle sh style = putCellStyle sh ''defaultVertex'' style"

definition putDefaultEdgeStyle :: "mxStylesheet \<Rightarrow> style_obj \<Rightarrow> mxStylesheet" where
  "putDefaultEdgeStyle sh style = putCellStyle sh ''defaultEdge'' style"

definition getDefaultVertexStyle :: "mxStylesheet \<Rightarrow> style_obj option" where
  "getDefaultVertexStyle sh = map_of (styles sh) ''defaultVertex''"

definition getDefaultEdgeStyle :: "mxStylesheet \<Rightarrow> style_obj option" where
  "getDefaultEdgeStyle sh = map_of (styles sh) ''defaultEdge''"

definition new_mxStylesheet :: mxStylesheet where
  "new_mxStylesheet =
     putDefaultEdgeStyle
       (putDefaultVertexStyle \<lparr>styles = []\<rparr> createDefaultVertexStyle) createDefaultEdgeStyle"

text \<open>One token of the style string, and the whole loop of \<open>getCellStyle\<close>.\<close>

definition style_token :: "mxStylesheet \<Rightarrow> string \<Rightarrow> style_obj \<Rightarrow> style_obj" where
  "style_token sh tmp style =
     (let pos = js_str_indexOf tmp ''='' in
      if pos \<ge> 0 then
        (let key = js_substring tmp 0 pos; v = js_substring_from tmp (pos + 1) in
         if v = ''none'' then AList.delete key style
         else if isNumeric v then AList.update key (SNum (the (js_parseFloat v))) style
         else AList.update key (SStr v) style)
      else (case map_of (styles sh) tmp of
              None \<Rightarrow> style
            | Some tmpStyle \<Rightarrow> fold (\<lambda>(key, v). AList.update key v) tmpStyle style))"

definition getCellStyle ::
  "mxStylesheet \<Rightarrow> string option \<Rightarrow> style_obj option \<Rightarrow> style_obj option" where
  "getCellStyle sh name defaultStyle =
     (case name of
        None \<Rightarrow> defaultStyle
      | Some n \<Rightarrow>
          (if length n > 0 then
             (let pairs = js_split CHR '';'' n;
                  style = (case defaultStyle of
                             None \<Rightarrow> []
                           | Some d \<Rightarrow> if js_charAt n 0 \<noteq> '';'' then d else [])
              in Some (fold (style_token sh) pairs style))
           else defaultStyle))"

text \<open>
  What one token says about one key: nothing, that the key is removed, or its value.  A style
  resolves to the answer of the last token that says something.
\<close>

definition token_effect :: "mxStylesheet \<Rightarrow> string \<Rightarrow> string \<Rightarrow> style_value option option" where
  "token_effect sh key tmp =
     (let pos = js_str_indexOf tmp ''='' in
      if pos \<ge> 0 then
        (if js_substring tmp 0 pos \<noteq> key then None
         else (let v = js_substring_from tmp (pos + 1)
               in Some (if v = ''none'' then None
                        else if isNumeric v then map_option SNum (js_parseFloat v)
                        else Some (SStr v))))
      else (case map_of (styles sh) tmp of
              None \<Rightarrow> None
            | Some st \<Rightarrow> map_option Some (map_of st key)))"

fun last_effect :: "mxStylesheet \<Rightarrow> string \<Rightarrow> string list \<Rightarrow> style_value option \<Rightarrow> style_value option" where
  "last_effect sh key [] r = r"
| "last_effect sh key (t # ts) r =
     last_effect sh key ts (case token_effect sh key t of None \<Rightarrow> r | Some e \<Rightarrow> e)"

text \<open>The named styles of a sheet are objects: no property occurs twice.\<close>

definition sheet_wf :: "mxStylesheet \<Rightarrow> bool" where
  "sheet_wf sh \<longleftrightarrow> (\<forall>(n, st) \<in> set (styles sh). distinct (map fst st))"

lemma map_of_fold_update:
  "distinct (map fst ps) \<Longrightarrow>
   map_of (fold (\<lambda>(k, v). AList.update k v) ps al) key =
     (case map_of ps key of None \<Rightarrow> map_of al key | Some v \<Rightarrow> Some v)"
proof (induction ps arbitrary: al)
  case (Cons p ps)
  obtain k v where p: "p = (k, v)" by (cases p)
  have "k \<notin> dom (map_of ps)" using Cons.prems p by (simp add: dom_map_of_conv_image_fst)
  then have "map_of ps k = None" by (simp add: domIff)
  with Cons p show ?case by (simp add: update_conv' split: option.splits)
qed simp

lemma style_token_effect:
  assumes "sheet_wf sh"
  shows "map_of (style_token sh t st) key =
           (case token_effect sh key t of None \<Rightarrow> map_of st key | Some e \<Rightarrow> e)"
proof (cases "js_str_indexOf t ''='' \<ge> 0")
  case True
  then show ?thesis
    by (auto simp: style_token_def token_effect_def Let_def update_conv' delete_conv' isNumeric_def)
next
  case False
  show ?thesis
  proof (cases "map_of (styles sh) t")
    case None
    with False show ?thesis by (simp add: style_token_def token_effect_def)
  next
    case (Some ts)
    then have "distinct (map fst ts)"
      using assms map_of_SomeD by (fastforce simp: sheet_wf_def)
    with False Some show ?thesis
      by (simp add: style_token_def token_effect_def map_of_fold_update split: option.splits)
  qed
qed

lemma fold_style_token_effect:
  assumes "sheet_wf sh"
  shows "map_of (fold (style_token sh) ts st) key = last_effect sh key ts (map_of st key)"
  by (induction ts arbitrary: st) (simp_all add: style_token_effect [OF assms])

lemma last_effect_own_token:
  assumes "CHR ''='' \<notin> set key"
  shows "last_effect sh key (ts @ [key @ CHR ''='' # v]) r =
           (if v = ''none'' then None
            else if isNumeric v then map_option SNum (js_parseFloat v) else Some (SStr v))"
proof -
  have "token_effect sh key (key @ CHR ''='' # v) =
      Some (if v = ''none'' then None
            else if isNumeric v then map_option SNum (js_parseFloat v) else Some (SStr v))"
    using assms
    by (simp add: token_effect_def js_str_indexOf_char js_substring_def js_substring_from_def
        Let_def nat_add_distrib)
  then show ?thesis by (induction ts arbitrary: r) simp_all
qed

lemma new_mxStylesheet_wf: "sheet_wf new_mxStylesheet"
  by code_simp

lemma in_set_updateD: "(k, v) \<in> set (AList.update k2 v2 al) \<Longrightarrow> v = v2 \<or> (k, v) \<in> set al"
  by (induction al) (auto split: if_splits)

lemma putCellStyle_wf:
  "sheet_wf sh \<Longrightarrow> distinct (map fst style) \<Longrightarrow> sheet_wf (putCellStyle sh name style)"
  by (auto simp: sheet_wf_def putCellStyle_def dest!: in_set_updateD)

subsection \<open>mxStyleRegistry\<close>

type_synonym registry = "string jsobj"

definition reg_putValue :: "registry \<Rightarrow> string \<Rightarrow> string \<Rightarrow> registry" where
  "reg_putValue reg name obj = AList.update name obj reg"

definition reg_getValue :: "registry \<Rightarrow> string \<Rightarrow> string option" where
  "reg_getValue reg name = map_of reg name"

fun reg_getName :: "registry \<Rightarrow> string \<Rightarrow> string option" where
  "reg_getName [] v = None"
| "reg_getName ((key, w) # reg) v = (if w = v then Some key else reg_getName reg v)"

definition installed_registry :: registry where
  "installed_registry =
     fold (\<lambda>(name, obj) reg. reg_putValue reg name obj)
       [(''elbowEdgeStyle'', ''ElbowConnector''),
        (''entityRelationEdgeStyle'', ''EntityRelation''),
        (''loopEdgeStyle'', ''Loop''),
        (''sideToSideEdgeStyle'', ''SideToSide''),
        (''topToBottomEdgeStyle'', ''TopToBottom''),
        (''orthogonalEdgeStyle'', ''OrthConnector''),
        (''segmentEdgeStyle'', ''SegmentConnector''),
        (''ellipsePerimeter'', ''EllipsePerimeter''),
        (''rectanglePerimeter'', ''RectanglePerimeter''),
        (''rhombusPerimeter'', ''RhombusPerimeter''),
        (''trianglePerimeter'', ''TrianglePerimeter''),
        (''hexagonPerimeter'', ''HexagonPerimeter'')] []"

lemma reg_getName_getValue:
  "distinct (map fst reg) \<Longrightarrow> reg_getName reg v = Some n \<Longrightarrow> reg_getValue reg n = Some v"
proof (induction reg v rule: reg_getName.induct)
  case (2 key w reg v)
  show ?case
  proof (cases "w = v")
    case False
    with 2 have "map_of reg n = Some v" by (simp add: reg_getValue_def)
    then have "n \<in> fst ` set reg" by (force dest: map_of_SomeD)
    with 2 \<open>map_of reg n = Some v\<close> show ?thesis by (auto simp: reg_getValue_def)
  qed (use 2 in \<open>auto simp: reg_getValue_def\<close>)
qed simp

lemma reg_getName_None: "reg_getName reg v = None \<longleftrightarrow> v \<notin> snd ` set reg"
  by (induction reg v rule: reg_getName.induct) auto

subsection \<open>Properties\<close>

text \<open>C22: \<open>mxStylesheet.getCellStyle\<close> gives each key the answer of the last token of the style
  string that mentions it (directly or through a named style), where \<open>none\<close> removes the key;
  a key no token mentions keeps its default, and a leading \<open>;\<close> drops the defaults.\<close>

theorem getCellStyle_last_effect:
  assumes "sheet_wf sh" and "name \<noteq> []"
  shows "\<exists>st. getCellStyle sh (Some name) (Some d) = Some st \<and>
     map_of st key = last_effect sh key (js_split CHR '';'' name)
       (if hd name = CHR '';'' then None else map_of d key)"
  using assms
  by (cases name) (auto simp: getCellStyle_def Let_def fold_style_token_effect js_charAt_def js_at_def)

theorem getCellStyle_last_effect_witness:
  "\<exists>st. getCellStyle new_mxStylesheet (Some ''w=2;w=none'') (Some [(''w'', SNum 1)]) = Some st
      \<and> map_of st ''w'' = None"
proof -
  have "last_effect new_mxStylesheet ''w'' (js_split CHR '';'' ''w=2;w=none'')
     (if hd ''w=2;w=none'' = CHR '';'' then None else map_of [(''w'', SNum 1)] ''w'') = None"
    by code_simp
  with getCellStyle_last_effect [OF new_mxStylesheet_wf, of "''w=2;w=none''" "[(''w'', SNum 1)]" "''w''"]
  show ?thesis by auto
qed

end
