(* ===== verification/Events.thy ===== *)
theory Events
  imports Prelude
begin

text \<open>
  Event objects and event sources: util/mxEventObject.js and util/mxEventSource.js.

  A source holds its listeners as pairs of a name (\<open>None\<close> listens to every event) and a
  function, in the order of registration; the code keeps the same pairs flattened in one
  array.  A listener is a value of type \<open>'f\<close>; what calling it does is a parameter \<open>call\<close> that
  may change the source as well as the rest of the state \<open>'s\<close>, because a listener may add and
  remove listeners while the event is dispatched.
\<close>

subsection \<open>mxEventObject\<close>

record 'v mxEventObject =
  ev_name :: "string option"
  ev_properties :: "'v jsobj"
  ev_consumed :: bool

definition new_mxEventObject :: "string option \<Rightarrow> (string \<times> 'v option) list \<Rightarrow> 'v mxEventObject" where
  "new_mxEventObject name args =
     \<lparr>ev_name = name,
      ev_properties = fold (\<lambda>(k, v) ps. case v of None \<Rightarrow> ps | Some x \<Rightarrow> AList.update k x ps) args [],
      ev_consumed = False\<rparr>"

definition ev_getName :: "'v mxEventObject \<Rightarrow> string option" where
  "ev_getName evt = ev_name evt"

definition ev_getProperties :: "'v mxEventObject \<Rightarrow> 'v jsobj" where
  "ev_getProperties evt = ev_properties evt"

definition ev_getProperty :: "'v mxEventObject \<Rightarrow> string \<Rightarrow> 'v option" where
  "ev_getProperty evt key = map_of (ev_properties evt) key"

definition ev_isConsumed :: "'v mxEventObject \<Rightarrow> bool" where
  "ev_isConsumed evt = ev_consumed evt"

definition ev_consume :: "'v mxEventObject \<Rightarrow> 'v mxEventObject" where
  "ev_consume evt = evt\<lparr>ev_consumed := True\<rparr>"

lemma ev_getProperty_last:
  "ev_getProperty (new_mxEventObject name (args @ [(k, Some v)])) k = Some v"
  by (simp add: ev_getProperty_def new_mxEventObject_def update_conv')

subsection \<open>mxEventSource\<close>

record 'f mxEventSource =
  eventListeners :: "(string option \<times> 'f) list option"
  eventsEnabled :: bool
  eventSource :: "nat option"

definition new_mxEventSource :: "nat option \<Rightarrow> 'f mxEventSource" where
  "new_mxEventSource es = \<lparr>eventListeners = None, eventsEnabled = True, eventSource = es\<rparr>"

definition isEventsEnabled :: "('f, 'a) mxEventSource_scheme \<Rightarrow> bool" where
  "isEventsEnabled src = eventsEnabled src"

definition setEventsEnabled :: "bool \<Rightarrow> ('f, 'a) mxEventSource_scheme \<Rightarrow> ('f, 'a) mxEventSource_scheme"
  where "setEventsEnabled v src = src\<lparr>eventsEnabled := v\<rparr>"

definition getEventSource :: "('f, 'a) mxEventSource_scheme \<Rightarrow> nat option" where
  "getEventSource src = eventSource src"

definition setEventSource ::
  "nat option \<Rightarrow> ('f, 'a) mxEventSource_scheme \<Rightarrow> ('f, 'a) mxEventSource_scheme" where
  "setEventSource v src = src\<lparr>eventSource := v\<rparr>"

definition live_listeners :: "('f, 'a) mxEventSource_scheme \<Rightarrow> (string option \<times> 'f) list" where
  "live_listeners src = (case eventListeners src of None \<Rightarrow> [] | Some ls \<Rightarrow> ls)"

definition addListener ::
  "string option \<Rightarrow> 'f \<Rightarrow> ('f, 'a) mxEventSource_scheme \<Rightarrow> ('f, 'a) mxEventSource_scheme" where
  "addListener name funct src = src\<lparr>eventListeners := Some (live_listeners src @ [(name, funct)])\<rparr>"

fun remove_listener_loop :: "'f \<Rightarrow> (string option \<times> 'f) list \<Rightarrow> (string option \<times> 'f) list" where
  "remove_listener_loop funct [] = []"
| "remove_listener_loop funct ((n, f) # ls) =
     (if f = funct then remove_listener_loop funct ls
      else (n, f) # remove_listener_loop funct ls)"

definition removeListener :: "'f \<Rightarrow> ('f, 'a) mxEventSource_scheme \<Rightarrow> ('f, 'a) mxEventSource_scheme"
  where
  "removeListener funct src =
     src\<lparr>eventListeners := map_option (remove_listener_loop funct) (eventListeners src)\<rparr>"

text \<open>
  The dispatch loop of \<open>fireEvent\<close> reads the array live, by index, after every call: a
  listener that keeps adding listeners for the same event keeps it running for ever (\<open>None\<close>).
  The \<open>sender\<close> argument is \<open>Some\<close> of an object or \<open>None\<close> for the source itself.
\<close>

partial_function (option) fire_loop ::
  "('f \<Rightarrow> nat option \<Rightarrow> 'v mxEventObject \<Rightarrow> 'f mxEventSource \<times> 's \<Rightarrow> 'f mxEventSource \<times> 's) \<Rightarrow>
   nat option \<Rightarrow> 'v mxEventObject \<Rightarrow> nat \<Rightarrow> 'f mxEventSource \<times> 's \<Rightarrow> ('f mxEventSource \<times> 's) option"
where
  "fire_loop call sender evt i st =
     (if i < length (live_listeners (fst st)) then
        (let (listen, f) = live_listeners (fst st) ! i
         in if listen = None \<or> listen = ev_getName evt
            then fire_loop call sender evt (Suc i) (call f sender evt st)
            else fire_loop call sender evt (Suc i) st)
      else Some st)"

declare fire_loop.simps [code]

definition fireEvent ::
  "('f \<Rightarrow> nat option \<Rightarrow> 'v mxEventObject \<Rightarrow> 'f mxEventSource \<times> 's \<Rightarrow> 'f mxEventSource \<times> 's) \<Rightarrow>
   'v mxEventObject option \<Rightarrow> nat option \<Rightarrow> 'f mxEventSource \<times> 's \<Rightarrow> ('f mxEventSource \<times> 's) option"
where
  "fireEvent call evt sender st =
     (if eventListeners (fst st) \<noteq> None \<and> isEventsEnabled (fst st) then
        (let evt = (case evt of None \<Rightarrow> new_mxEventObject None [] | Some e \<Rightarrow> e);
             sender = (case sender of None \<Rightarrow> getEventSource (fst st) | Some x \<Rightarrow> Some x)
         in fire_loop call sender evt 0 st)
      else Some st)"

text \<open>The listeners an event reaches, in order.\<close>

definition matching :: "string option \<Rightarrow> (string option \<times> 'f) list \<Rightarrow> 'f list" where
  "matching name ls = map snd (filter (\<lambda>(n, f). n = None \<or> n = name) ls)"

lemma live_addListener [simp]:
  "live_listeners (addListener n f src) = live_listeners src @ [(n, f)]"
  by (simp add: addListener_def live_listeners_def)

lemma remove_listener_loop_eq: "remove_listener_loop f ls = filter (\<lambda>p. snd p \<noteq> f) ls"
  by (induction f ls rule: remove_listener_loop.induct) auto

lemma live_removeListener [simp]:
  "live_listeners (removeListener f src) = filter (\<lambda>p. snd p \<noteq> f) (live_listeners src)"
  by (auto simp: removeListener_def live_listeners_def remove_listener_loop_eq split: option.splits)

text \<open>
  Listeners that leave the source alone are called once each, in the order of registration.
\<close>

lemma fire_loop_matching:
  assumes "\<And>f st. fst (call f sender evt st) = fst st" and "i \<le> length (live_listeners (fst st))"
  shows "fire_loop call sender evt i st =
     Some (fold (\<lambda>f. call f sender evt)
             (matching (ev_getName evt) (drop i (live_listeners (fst st)))) st)"
  using assms(2)
proof (induction "length (live_listeners (fst st)) - i" arbitrary: i st)
  case 0
  then show ?case by (subst fire_loop.simps) (simp add: matching_def)
next
  case (Suc n)
  let ?ls = "live_listeners (fst st)"
  have i: "i < length ?ls" using Suc.hyps(2) by simp
  obtain l f where lf: "?ls ! i = (l, f)" by (cases "?ls ! i")
  have d: "drop i ?ls = (l, f) # drop (Suc i) ?ls" using i lf by (metis Cons_nth_drop_Suc)
  have "n = length (live_listeners (fst (call f sender evt st))) - Suc i"
    using Suc.hyps(2) assms(1) by simp
  from Suc.hyps(1) [OF this] i assms(1)
  have "fire_loop call sender evt (Suc i) (call f sender evt st) =
     Some (fold (\<lambda>f. call f sender evt) (matching (ev_getName evt) (drop (Suc i) ?ls))
       (call f sender evt st))"
    by simp
  moreover have "n = length ?ls - Suc i" using Suc.hyps(2) by simp
  from Suc.hyps(1) [OF this] i
  have "fire_loop call sender evt (Suc i) st =
     Some (fold (\<lambda>f. call f sender evt) (matching (ev_getName evt) (drop (Suc i) ?ls)) st)"
    by simp
  ultimately show ?case using i lf d by (subst fire_loop.simps) (auto simp: matching_def)
qed

lemma fireEvent_matching:
  assumes "\<And>f sd st. fst (call f sd evt st) = fst st" and "isEventsEnabled (fst st)"
  shows "fireEvent call (Some evt) sender st =
     Some (fold (\<lambda>f. call f (case sender of None \<Rightarrow> getEventSource (fst st) | Some x \<Rightarrow> Some x) evt)
             (matching (ev_getName evt) (live_listeners (fst st))) st)"
proof (cases "eventListeners (fst st)")
  case None
  then show ?thesis by (simp add: fireEvent_def live_listeners_def matching_def)
next
  case (Some ls)
  then show ?thesis using fire_loop_matching [of call _ evt 0 st] assms
    by (simp add: fireEvent_def Let_def)
qed

subsection \<open>Properties\<close>

text \<open>C37: for listeners that leave the event source alone (that neither add nor remove listeners nor
  switch events off while they are called), an event reaches a listener registered under its name, or under no
  name, once for each registration and in the order of registration; after \<open>removeListener\<close> it no longer does;
  with events disabled nothing is called.\<close>

theorem fireEvent_dispatch:
  assumes "\<And>g sd st. fst (call g sd evt st) = fst st"
  shows "fireEvent call (Some evt) (Some x) (removeListener f src, s) =
     Some (if isEventsEnabled src
           then fold (\<lambda>g. call g (Some x) evt)
                  (filter (\<lambda>g. g \<noteq> f) (matching (ev_getName evt) (live_listeners src)))
                  (removeListener f src, s)
           else (removeListener f src, s))"
proof (cases "isEventsEnabled src")
  case True
  then have "isEventsEnabled (fst (removeListener f src, s))"
    by (simp add: isEventsEnabled_def removeListener_def)
  moreover have "matching n (filter (\<lambda>p. snd p \<noteq> f) ls) = filter (\<lambda>g. g \<noteq> f) (matching n ls)" for n ls
    by (induction ls) (auto simp: matching_def)
  ultimately show ?thesis
    using fireEvent_matching [of call evt "(removeListener f src, s)" "Some x"] assms True by simp
next
  case False
  then show ?thesis by (simp add: fireEvent_def isEventsEnabled_def removeListener_def)
qed

theorem fireEvent_dispatch_witness:
  "fireEvent (\<lambda>f sd e (src, log). (src, log @ [f])) (Some (new_mxEventObject (Some ''undo'') []))
     (Some 0)
     (removeListener 2 (addListener None (3 :: nat) (addListener (Some ''undo'') 2
        (addListener (Some ''undo'') 1 (new_mxEventSource None)))), [])
   = Some (removeListener 2 (addListener None 3 (addListener (Some ''undo'') 2
        (addListener (Some ''undo'') 1 (new_mxEventSource None)))), [1 :: nat, 3])"
  by (subst fireEvent_dispatch)
    (auto simp: matching_def isEventsEnabled_def addListener_def new_mxEventSource_def
      live_listeners_def new_mxEventObject_def ev_getName_def)

end
