(* ===== verification/Cell.thy ===== *)
theory Cell
  imports Geometry
begin

text \<open>
  The cells of a graph, model/mxCell.js.  Cells, geometries and user objects that are DOM
  elements live in an explicit store, because the code compares them by identity and mutates
  them through shared references.  A reference is a natural number; the counters tell which
  references have been allocated.  The store is an extensible record, so that the graph model
  can extend it and use the operations of this theory on its own state.
\<close>

type_synonym cref = nat

datatype user_value = VStr string | VNum jsnum | VNode nat

record mxCell =
  c_id :: "string option"
  c_value :: "user_value option"
  c_geometry :: "nat option"
  c_style :: "string option"
  c_vertex :: bool
  c_edge :: bool
  c_connectable :: bool
  c_visible :: bool
  c_collapsed :: bool
  c_parent :: "cref option"
  c_source :: "cref option"
  c_target :: "cref option"
  c_children :: "cref list option"
  c_edges :: "cref list option"

text \<open>A DOM element as far as cells use one: its name, its attributes and its content.\<close>

record dom_element =
  node_name :: string
  node_attributes :: "string jsobj"
  node_content :: string

record heap =
  cell_at :: "cref \<Rightarrow> mxCell"
  ncells :: nat
  geo_at :: "nat \<Rightarrow> mxGeometry"
  ngeos :: nat
  node_at :: "nat \<Rightarrow> dom_element"
  nnodes :: nat

definition blank_cell :: mxCell where
  "blank_cell =
     \<lparr>c_id = None, c_value = None, c_geometry = None, c_style = None, c_vertex = False,
      c_edge = False, c_connectable = True, c_visible = True, c_collapsed = False,
      c_parent = None, c_source = None, c_target = None, c_children = None, c_edges = None\<rparr>"

definition upd :: "cref \<Rightarrow> (mxCell \<Rightarrow> mxCell) \<Rightarrow> 'a heap_scheme \<Rightarrow> 'a heap_scheme" where
  "upd c f h = h\<lparr>cell_at := (cell_at h)(c := f (cell_at h c))\<rparr>"

definition alloc_cell :: "mxCell \<Rightarrow> 'a heap_scheme \<Rightarrow> cref \<times> 'a heap_scheme" where
  "alloc_cell x h = (ncells h, h\<lparr>cell_at := (cell_at h)(ncells h := x), ncells := Suc (ncells h)\<rparr>)"

definition alloc_geo :: "mxGeometry \<Rightarrow> 'a heap_scheme \<Rightarrow> nat \<times> 'a heap_scheme" where
  "alloc_geo g h = (ngeos h, h\<lparr>geo_at := (geo_at h)(ngeos h := g), ngeos := Suc (ngeos h)\<rparr>)"

definition alloc_node :: "dom_element \<Rightarrow> 'a heap_scheme \<Rightarrow> nat \<times> 'a heap_scheme" where
  "alloc_node n h = (nnodes h, h\<lparr>node_at := (node_at h)(nnodes h := n), nnodes := Suc (nnodes h)\<rparr>)"

text \<open>The constructor.  No cell of the repository defines \<open>onInit\<close>.\<close>

definition new_mxCell ::
  "user_value option \<Rightarrow> nat option \<Rightarrow> string option \<Rightarrow> 'a heap_scheme \<Rightarrow> cref \<times> 'a heap_scheme" where
  "new_mxCell val geometry style =
     alloc_cell (blank_cell\<lparr>c_value := val, c_geometry := geometry, c_style := style\<rparr>)"

subsection \<open>Plain accessors\<close>

definition cell_getId :: "cref \<Rightarrow> 'a heap_scheme \<Rightarrow> string option" where
  "cell_getId this h = c_id (cell_at h this)"

definition cell_setId :: "cref \<Rightarrow> string option \<Rightarrow> 'a heap_scheme \<Rightarrow> 'a heap_scheme" where
  "cell_setId this v = upd this (c_id_update (\<lambda>_. v))"

definition cell_getValue :: "cref \<Rightarrow> 'a heap_scheme \<Rightarrow> user_value option" where
  "cell_getValue this h = c_value (cell_at h this)"

definition cell_setValue :: "cref \<Rightarrow> user_value option \<Rightarrow> 'a heap_scheme \<Rightarrow> 'a heap_scheme" where
  "cell_setValue this v = upd this (c_value_update (\<lambda>_. v))"

definition cell_valueChanged ::
  "cref \<Rightarrow> user_value option \<Rightarrow> 'a heap_scheme \<Rightarrow> user_value option \<times> 'a heap_scheme" where
  "cell_valueChanged this v h =
     (let previous = cell_getValue this h in (previous, cell_setValue this v h))"

definition cell_getGeometry :: "cref \<Rightarrow> 'a heap_scheme \<Rightarrow> nat option" where
  "cell_getGeometry this h = c_geometry (cell_at h this)"

definition cell_setGeometry :: "cref \<Rightarrow> nat option \<Rightarrow> 'a heap_scheme \<Rightarrow> 'a heap_scheme" where
  "cell_setGeometry this v = upd this (c_geometry_update (\<lambda>_. v))"

definition cell_getStyle :: "cref \<Rightarrow> 'a heap_scheme \<Rightarrow> string option" where
  "cell_getStyle this h = c_style (cell_at h this)"

definition cell_setStyle :: "cref \<Rightarrow> string option \<Rightarrow> 'a heap_scheme \<Rightarrow> 'a heap_scheme" where
  "cell_setStyle this v = upd this (c_style_update (\<lambda>_. v))"

definition cell_isVertex :: "cref \<Rightarrow> 'a heap_scheme \<Rightarrow> bool" where
  "cell_isVertex this h = c_vertex (cell_at h this)"

definition cell_setVertex :: "cref \<Rightarrow> bool \<Rightarrow> 'a heap_scheme \<Rightarrow> 'a heap_scheme" where
  "cell_setVertex this v = upd this (c_vertex_update (\<lambda>_. v))"

definition cell_isEdge :: "cref \<Rightarrow> 'a heap_scheme \<Rightarrow> bool" where
  "cell_isEdge this h = c_edge (cell_at h this)"

definition cell_setEdge :: "cref \<Rightarrow> bool \<Rightarrow> 'a heap_scheme \<Rightarrow> 'a heap_scheme" where
  "cell_setEdge this v = upd this (c_edge_update (\<lambda>_. v))"

definition cell_isConnectable :: "cref \<Rightarrow> 'a heap_scheme \<Rightarrow> bool" where
  "cell_isConnectable this h = c_connectable (cell_at h this)"

definition cell_setConnectable :: "cref \<Rightarrow> bool \<Rightarrow> 'a heap_scheme \<Rightarrow> 'a heap_scheme" where
  "cell_setConnectable this v = upd this (c_connectable_update (\<lambda>_. v))"

definition cell_isVisible :: "cref \<Rightarrow> 'a heap_scheme \<Rightarrow> bool" where
  "cell_isVisible this h = c_visible (cell_at h this)"

definition cell_setVisible :: "cref \<Rightarrow> bool \<Rightarrow> 'a heap_scheme \<Rightarrow> 'a heap_scheme" where
  "cell_setVisible this v = upd this (c_visible_update (\<lambda>_. v))"

definition cell_isCollapsed :: "cref \<Rightarrow> 'a heap_scheme \<Rightarrow> bool" where
  "cell_isCollapsed this h = c_collapsed (cell_at h this)"

definition cell_setCollapsed :: "cref \<Rightarrow> bool \<Rightarrow> 'a heap_scheme \<Rightarrow> 'a heap_scheme" where
  "cell_setCollapsed this v = upd this (c_collapsed_update (\<lambda>_. v))"

definition cell_getParent :: "cref \<Rightarrow> 'a heap_scheme \<Rightarrow> cref option" where
  "cell_getParent this h = c_parent (cell_at h this)"

definition cell_setParent :: "cref \<Rightarrow> cref option \<Rightarrow> 'a heap_scheme \<Rightarrow> 'a heap_scheme" where
  "cell_setParent this v = upd this (c_parent_update (\<lambda>_. v))"

definition cell_getTerminal :: "cref \<Rightarrow> bool \<Rightarrow> 'a heap_scheme \<Rightarrow> cref option" where
  "cell_getTerminal this source h =
     (if source then c_source (cell_at h this) else c_target (cell_at h this))"

definition cell_setTerminal :: "cref \<Rightarrow> cref option \<Rightarrow> bool \<Rightarrow> 'a heap_scheme \<Rightarrow> 'a heap_scheme" where
  "cell_setTerminal this terminal isSource =
     upd this (if isSource then c_source_update (\<lambda>_. terminal) else c_target_update (\<lambda>_. terminal))"

subsection \<open>Children\<close>

text \<open>\<open>mxUtils.indexOf\<close>, and the entries of an array that may be missing.\<close>

fun index_loop :: "'a \<Rightarrow> int \<Rightarrow> 'a list \<Rightarrow> int" where
  "index_loop x i [] = -1"
| "index_loop x i (y # ys) = (if y = x then i else index_loop x (i + 1) ys)"

definition mx_indexOf :: "'a list option \<Rightarrow> 'a option \<Rightarrow> int" where
  "mx_indexOf array obj =
     (case (array, obj) of (Some xs, Some x) \<Rightarrow> index_loop x 0 xs | _ \<Rightarrow> -1)"

definition entries :: "'a list option \<Rightarrow> 'a list" where
  "entries array = (case array of None \<Rightarrow> [] | Some xs \<Rightarrow> xs)"

definition cell_getChildCount :: "cref \<Rightarrow> 'a heap_scheme \<Rightarrow> int" where
  "cell_getChildCount this h =
     (case c_children (cell_at h this) of None \<Rightarrow> 0 | Some cs \<Rightarrow> int (length cs))"

definition cell_getIndex :: "cref \<Rightarrow> cref \<Rightarrow> 'a heap_scheme \<Rightarrow> int" where
  "cell_getIndex this child h = mx_indexOf (c_children (cell_at h this)) (Some child)"

definition cell_getChildAt :: "cref \<Rightarrow> int \<Rightarrow> 'a heap_scheme \<Rightarrow> cref option" where
  "cell_getChildAt this index h =
     (case c_children (cell_at h this) of None \<Rightarrow> None | Some cs \<Rightarrow> js_at cs index)"

definition cell_remove :: "cref \<Rightarrow> int \<Rightarrow> 'a heap_scheme \<Rightarrow> cref option \<times> 'a heap_scheme" where
  "cell_remove this index h =
     (case c_children (cell_at h this) of
        None \<Rightarrow> (None, h)
      | Some cs \<Rightarrow>
          (if index \<ge> 0 then
             (case cell_getChildAt this index h of
                None \<Rightarrow> (None, h)
              | Some child \<Rightarrow>
                  (Some child,
                   cell_setParent child None
                     (upd this (c_children_update (\<lambda>_. Some (js_delete_at cs index))) h)))
           else (None, h)))"

definition cell_removeFromParent :: "cref \<Rightarrow> 'a heap_scheme \<Rightarrow> 'a heap_scheme" where
  "cell_removeFromParent this h =
     (case cell_getParent this h of
        None \<Rightarrow> h
      | Some p \<Rightarrow> (let index = cell_getIndex p this h in snd (cell_remove p index h)))"

definition cell_insert :: "cref \<Rightarrow> cref option \<Rightarrow> int option \<Rightarrow> 'a heap_scheme \<Rightarrow> 'a heap_scheme" where
  "cell_insert this child index h =
     (case child of
        None \<Rightarrow> h
      | Some ch \<Rightarrow>
          (let index = (case index of
                 None \<Rightarrow> cell_getChildCount this h
                          - (if cell_getParent ch h = Some this then 1 else 0)
               | Some i \<Rightarrow> i);
               h = cell_removeFromParent ch h;
               h = cell_setParent ch (Some this) h
           in upd this (c_children_update (\<lambda>children.
                case children of None \<Rightarrow> Some [ch] | Some cs \<Rightarrow> Some (js_insert_at cs index ch))) h))"

subsection \<open>Edges\<close>

definition cell_getEdgeCount :: "cref \<Rightarrow> 'a heap_scheme \<Rightarrow> int" where
  "cell_getEdgeCount this h =
     (case c_edges (cell_at h this) of None \<Rightarrow> 0 | Some es \<Rightarrow> int (length es))"

definition cell_getEdgeIndex :: "cref \<Rightarrow> cref \<Rightarrow> 'a heap_scheme \<Rightarrow> int" where
  "cell_getEdgeIndex this edge h = mx_indexOf (c_edges (cell_at h this)) (Some edge)"

definition cell_getEdgeAt :: "cref \<Rightarrow> int \<Rightarrow> 'a heap_scheme \<Rightarrow> cref option" where
  "cell_getEdgeAt this index h =
     (case c_edges (cell_at h this) of None \<Rightarrow> None | Some es \<Rightarrow> js_at es index)"

definition cell_removeEdge :: "cref \<Rightarrow> cref option \<Rightarrow> bool \<Rightarrow> 'a heap_scheme \<Rightarrow> 'a heap_scheme" where
  "cell_removeEdge this edge isOutgoing h =
     (case edge of
        None \<Rightarrow> h
      | Some e \<Rightarrow>
          (let h = (case c_edges (cell_at h this) of
                 None \<Rightarrow> h
               | Some es \<Rightarrow>
                   (if cell_getTerminal e (\<not> isOutgoing) h \<noteq> Some this then
                      (let index = cell_getEdgeIndex this e h in
                       if index \<ge> 0
                       then upd this (c_edges_update (\<lambda>_. Some (js_delete_at es index))) h
                       else h)
                    else h))
           in cell_setTerminal e None isOutgoing h))"

definition cell_removeFromTerminal :: "cref \<Rightarrow> bool \<Rightarrow> 'a heap_scheme \<Rightarrow> 'a heap_scheme" where
  "cell_removeFromTerminal this isSource h =
     (case cell_getTerminal this isSource h of
        None \<Rightarrow> h
      | Some terminal \<Rightarrow> cell_removeEdge terminal (Some this) isSource h)"

definition cell_insertEdge :: "cref \<Rightarrow> cref option \<Rightarrow> bool \<Rightarrow> 'a heap_scheme \<Rightarrow> 'a heap_scheme" where
  "cell_insertEdge this edge isOutgoing h =
     (case edge of
        None \<Rightarrow> h
      | Some e \<Rightarrow>
          (let h = cell_removeFromTerminal e isOutgoing h;
               h = cell_setTerminal e (Some this) isOutgoing h
           in if c_edges (cell_at h this) = None
                 \<or> cell_getTerminal e (\<not> isOutgoing) h \<noteq> Some this
                 \<or> mx_indexOf (c_edges (cell_at h this)) (Some e) < 0
              then upd this (c_edges_update (\<lambda>es. Some (entries es @ [e]))) h
              else h))"

subsection \<open>Attributes of the user object\<close>

datatype cell_error = TypeError

definition cell_hasAttribute :: "cref \<Rightarrow> string \<Rightarrow> 'a heap_scheme \<Rightarrow> cell_error + bool" where
  "cell_hasAttribute this name h =
     (case cell_getValue this h of
        Some (VNode n) \<Rightarrow> Inr (map_of (node_attributes (node_at h n)) name \<noteq> None)
      | _ \<Rightarrow> Inl TypeError)"

text \<open>An empty attribute is falsy, so it reads as the default.\<close>

definition cell_getAttribute :: "cref \<Rightarrow> string \<Rightarrow> string option \<Rightarrow> 'a heap_scheme \<Rightarrow> string option" where
  "cell_getAttribute this name defaultValue h =
     (let val = (case cell_getValue this h of
            Some (VNode n) \<Rightarrow> map_of (node_attributes (node_at h n)) name
          | _ \<Rightarrow> None)
      in if val = None \<or> val = Some [] then defaultValue else val)"

definition node_setAttribute :: "nat \<Rightarrow> string \<Rightarrow> string \<Rightarrow> 'a heap_scheme \<Rightarrow> 'a heap_scheme" where
  "node_setAttribute n name v h =
     h\<lparr>node_at := (node_at h)(n := (node_at h n)\<lparr>node_attributes :=
         AList.update name v (node_attributes (node_at h n))\<rparr>)\<rparr>"

definition node_removeAttribute :: "nat \<Rightarrow> string \<Rightarrow> 'a heap_scheme \<Rightarrow> 'a heap_scheme" where
  "node_removeAttribute n name h =
     h\<lparr>node_at := (node_at h)(n := (node_at h n)\<lparr>node_attributes :=
         AList.delete name (node_attributes (node_at h n))\<rparr>)\<rparr>"

definition cell_setAttribute :: "cref \<Rightarrow> string \<Rightarrow> string \<Rightarrow> 'a heap_scheme \<Rightarrow> 'a heap_scheme" where
  "cell_setAttribute this name v h =
     (case cell_getValue this h of
        Some (VNode n) \<Rightarrow> node_setAttribute n name v h
      | _ \<Rightarrow> h)"

subsection \<open>Cloning\<close>

text \<open>
  \<open>clone\<close> copies the fields that are not transient; the geometry is an object and is copied
  with them.  The value is cloned by \<open>cloneValue\<close>: an element node, and nothing else.
\<close>

definition cell_cloneValue :: "cref \<Rightarrow> 'a heap_scheme \<Rightarrow> user_value option \<times> 'a heap_scheme" where
  "cell_cloneValue this h =
     (case cell_getValue this h of
        Some (VNode n) \<Rightarrow> (let (m, h) = alloc_node (node_at h n) h in (Some (VNode m), h))
      | v \<Rightarrow> (v, h))"

definition clone_geometry :: "nat option \<Rightarrow> 'a heap_scheme \<Rightarrow> nat option \<times> 'a heap_scheme" where
  "clone_geometry g h =
     (case g of None \<Rightarrow> (None, h) | Some g \<Rightarrow> (let (k, h) = alloc_geo (geo_at h g) h in (Some k, h)))"

definition cell_clone :: "cref \<Rightarrow> 'a heap_scheme \<Rightarrow> cref \<times> 'a heap_scheme" where
  "cell_clone this h =
     (let x = cell_at h this;
          (g, h) = clone_geometry (c_geometry x) h;
          (clone, h) = alloc_cell (blank_cell\<lparr>c_geometry := g, c_style := c_style x,
              c_vertex := c_vertex x, c_edge := c_edge x, c_connectable := c_connectable x,
              c_visible := c_visible x, c_collapsed := c_collapsed x\<rparr>) h;
          (v, h) = cell_cloneValue this h
      in (clone, cell_setValue clone v h))"


subsection \<open>The store\<close>

named_theorems cell_field_defs \<open>the operations that write one field\<close>

lemma cell_at_upd [simp]: "cell_at (upd c f h) = (cell_at h)(c := f (cell_at h c))"
  by (simp add: upd_def)

lemma upd_other_parts [simp]:
  "geo_at (upd c f h) = geo_at h" "node_at (upd c f h) = node_at h"
  "ncells (upd c f h) = ncells h" "ngeos (upd c f h) = ngeos h" "nnodes (upd c f h) = nnodes h"
  "heap.more (upd c f h) = heap.more h"
  by (simp_all add: upd_def)

declare cell_setId_def [cell_field_defs] cell_setValue_def [cell_field_defs]
  cell_setGeometry_def [cell_field_defs] cell_setStyle_def [cell_field_defs]
  cell_setVertex_def [cell_field_defs] cell_setEdge_def [cell_field_defs]
  cell_setConnectable_def [cell_field_defs] cell_setVisible_def [cell_field_defs]
  cell_setCollapsed_def [cell_field_defs] cell_setParent_def [cell_field_defs]
  cell_setTerminal_def [cell_field_defs]

definition children_of :: "'a heap_scheme \<Rightarrow> cref \<Rightarrow> cref list" where
  "children_of h p = entries (c_children (cell_at h p))"

definition edges_of :: "'a heap_scheme \<Rightarrow> cref \<Rightarrow> cref list" where
  "edges_of h t = entries (c_edges (cell_at h t))"

lemma entries_simps [simp]: "entries None = []" "entries (Some xs) = xs"
  by (simp_all add: entries_def)

lemma children_of_upd [simp]:
  "children_of (upd c f h) p =
     (if p = c then entries (c_children (f (cell_at h c))) else children_of h p)"
  by (simp add: children_of_def)

lemma edges_of_upd [simp]:
  "edges_of (upd c f h) p =
     (if p = c then entries (c_edges (f (cell_at h c))) else edges_of h p)"
  by (simp add: edges_of_def)

lemma index_loop_absent: "x \<notin> set ys \<Longrightarrow> index_loop x i ys = -1"
  by (induction ys arbitrary: i) auto

lemma index_loop_present:
  "x \<in> set ys \<Longrightarrow> \<exists>k < length ys. index_loop x i ys = i + int k \<and> ys ! k = x"
proof (induction ys arbitrary: i)
  case (Cons y ys)
  show ?case
  proof (cases "y = x")
    case False
    with Cons.prems obtain k where "k < length ys" "index_loop x (i + 1) ys = i + 1 + int k" "ys ! k = x"
      using Cons.IH [of "i + 1"] by auto
    with False show ?thesis by (intro exI [of _ "Suc k"]) simp
  qed auto
qed simp

lemma mx_indexOf_neg_iff: "mx_indexOf array (Some x) < 0 \<longleftrightarrow> x \<notin> set (entries array)"
proof (cases array)
  case (Some ys)
  then show ?thesis using index_loop_absent [of x ys 0] index_loop_present [of x ys 0]
    by (cases "x \<in> set ys") (auto simp: mx_indexOf_def)
qed (simp add: mx_indexOf_def)

lemma mx_indexOf_obtain:
  assumes "x \<in> set ys"
  obtains k where "k < length ys" "mx_indexOf (Some ys) (Some x) = int k" "ys ! k = x"
  using index_loop_present [OF assms, of 0] that by (auto simp: mx_indexOf_def)

lemma delete_at_index:
  assumes "x \<in> set ys" "distinct ys"
  shows "js_delete_at ys (mx_indexOf (Some ys) (Some x)) = remove1 x ys"
    and "js_at ys (mx_indexOf (Some ys) (Some x)) = Some x"
    and "mx_indexOf (Some ys) (Some x) \<ge> 0"
proof -
  obtain k where k: "k < length ys" "mx_indexOf (Some ys) (Some x) = int k" "ys ! k = x"
    using assms(1) by (rule mx_indexOf_obtain)
  then show "js_delete_at ys (mx_indexOf (Some ys) (Some x)) = remove1 x ys"
    using take_drop_Suc_remove1 [OF assms(2) k(1)] by (simp add: js_delete_at_nat)
  show "js_at ys (mx_indexOf (Some ys) (Some x)) = Some x"
    and "mx_indexOf (Some ys) (Some x) \<ge> 0" using k by simp_all
qed

subsection \<open>The tree of children\<close>

text \<open>
  Children arrays and parent references agree, and no child occurs twice.
\<close>

definition tree_inv :: "'a heap_scheme \<Rightarrow> bool" where
  "tree_inv h \<longleftrightarrow>
     (\<forall>p. distinct (children_of h p)) \<and>
     (\<forall>p c. c \<in> set (children_of h p) \<longleftrightarrow> c_parent (cell_at h c) = Some p)"

lemma tree_invD:
  assumes "tree_inv h"
  shows "distinct (children_of h p)"
    and "c \<in> set (children_of h p) \<longleftrightarrow> c_parent (cell_at h c) = Some p"
  using assms by (auto simp: tree_inv_def)

definition detach :: "cref \<Rightarrow> 'a heap_scheme \<Rightarrow> 'a heap_scheme" where
  "detach ch h =
     (case c_parent (cell_at h ch) of
        None \<Rightarrow> h
      | Some p \<Rightarrow> cell_setParent ch None
                   (upd p (c_children_update (\<lambda>_. Some (remove1 ch (children_of h p)))) h))"

lemma cell_remove_effect:
  assumes "tree_inv h" and "c_parent (cell_at h ch) = Some p"
  shows "cell_remove p (cell_getIndex p ch h) h = (Some ch, detach ch h)"
proof -
  have ch: "ch \<in> set (children_of h p)" and d: "distinct (children_of h p)"
    using assms tree_invD by blast+
  then obtain cs where cs: "c_children (cell_at h p) = Some cs" "children_of h p = cs"
    by (cases "c_children (cell_at h p)") (auto simp: children_of_def)
  with ch d show ?thesis using delete_at_index [of ch cs] assms(2)
    by (simp add: cell_remove_def cell_getIndex_def cell_getChildAt_def detach_def)
qed

lemma removeFromParent_effect: "tree_inv h \<Longrightarrow> cell_removeFromParent ch h = detach ch h"
  by (cases "c_parent (cell_at h ch)")
    (simp_all add: cell_removeFromParent_def cell_getParent_def cell_remove_effect detach_def)

lemma cell_remove_cases:
  assumes "tree_inv h"
  obtains "cell_remove p i h = (None, h)"
  | ch where "ch \<in> set (children_of h p)" "cell_remove p i h = (Some ch, detach ch h)"
proof (cases "c_children (cell_at h p)")
  case None
  then show thesis using that(1) by (simp add: cell_remove_def)
next
  case (Some cs)
  show thesis
  proof (cases "i \<ge> 0 \<and> js_at cs i \<noteq> None")
    case False
    then show thesis using that(1) Some by (auto simp: cell_remove_def cell_getChildAt_def)
  next
    case True
    then obtain ch where ch: "js_at cs i = Some ch" and i: "i \<ge> 0" by auto
    from js_at_SomeD [OF ch] have k: "nat i < length cs" "cs ! nat i = ch" by auto
    have d: "distinct cs" "children_of h p = cs"
      using tree_invD(1) [OF assms, of p] Some by (simp_all add: children_of_def)
    have mem: "ch \<in> set (children_of h p)" using k d by auto
    moreover have "js_delete_at cs i = remove1 ch cs"
      using take_drop_Suc_remove1 [OF d(1) k(1)] k(2) js_delete_at_nat [OF k(1)] i by simp
    moreover have "c_parent (cell_at h ch) = Some p" using mem tree_invD(2) [OF assms] by blast
    ultimately have "cell_remove p i h = (Some ch, detach ch h)"
      using Some ch i d by (simp add: cell_remove_def cell_getChildAt_def detach_def)
    with mem show thesis by (rule that(2))
  qed
qed

lemma detach_parent [simp]:
  "c_parent (cell_at (detach ch h) c) = (if c = ch then None else c_parent (cell_at h c))"
  by (auto simp: detach_def cell_field_defs split: option.splits)

lemma detach_children:
  assumes "tree_inv h"
  shows "children_of (detach ch h) p = remove1 ch (children_of h p)"
proof (cases "c_parent (cell_at h ch) = Some p")
  case True
  then show ?thesis by (simp add: detach_def cell_field_defs children_of_def)
next
  case False
  then have "ch \<notin> set (children_of h p)" using tree_invD(2) [OF assms] by blast
  with False show ?thesis
    by (auto simp: detach_def cell_field_defs remove1_idem children_of_def split: option.splits)
qed

lemma tree_inv_detach: "tree_inv h \<Longrightarrow> tree_inv (detach ch h)"
  using detach_children [of h ch]
  by (simp add: tree_inv_def)

lemma tree_inv_remove: "tree_inv h \<Longrightarrow> tree_inv (snd (cell_remove p i h))"
  by (rule cell_remove_cases [of h p i]) (auto simp: tree_inv_detach)

lemma tree_inv_removeFromParent: "tree_inv h \<Longrightarrow> tree_inv (cell_removeFromParent c h)"
  by (simp add: removeFromParent_effect tree_inv_detach)

text \<open>The position \<open>insert\<close> uses, and its effect on parents and on children.\<close>

definition insert_pos :: "cref \<Rightarrow> cref \<Rightarrow> int option \<Rightarrow> 'a heap_scheme \<Rightarrow> int" where
  "insert_pos p ch index h =
     (case index of
        Some i \<Rightarrow> i
      | None \<Rightarrow> int (length (children_of h p)) - (if c_parent (cell_at h ch) = Some p then 1 else 0))"

lemma cell_insert_parent:
  "tree_inv h \<Longrightarrow> c_parent (cell_at (cell_insert p (Some ch) index h) c) =
     (if c = ch then Some p else c_parent (cell_at h c))"
  by (auto simp: cell_insert_def removeFromParent_effect cell_field_defs Let_def)

lemma js_insert_at_Nil [simp]: "js_insert_at [] i x = [x]"
  by (simp add: js_insert_at_def)

lemma cell_insert_children:
  assumes "tree_inv h"
  shows "children_of (cell_insert p (Some ch) index h) q =
     (if q = p then js_insert_at (remove1 ch (children_of h p)) (insert_pos p ch index h) ch
      else remove1 ch (children_of h q))"
proof -
  have pos: "(case index of
        None \<Rightarrow> cell_getChildCount p h - (if cell_getParent ch h = Some p then 1 else 0)
      | Some i \<Rightarrow> i) = insert_pos p ch index h"
    by (simp add: insert_pos_def cell_getChildCount_def cell_getParent_def children_of_def
        split: option.splits)
  let ?d = "cell_setParent ch (Some p) (detach ch h)"
  have d: "children_of ?d r = remove1 ch (children_of h r)" for r
    using detach_children [OF assms, of ch r]
    by (cases "r = ch") (simp_all add: cell_field_defs children_of_def)
  have "entries (case c_children (cell_at ?d p) of None \<Rightarrow> Some [ch]
           | Some cs \<Rightarrow> Some (js_insert_at cs (insert_pos p ch index h) ch))
      = js_insert_at (children_of ?d p) (insert_pos p ch index h) ch"
    by (simp add: children_of_def split: option.splits)
  then show ?thesis
    unfolding cell_insert_def option.case Let_def removeFromParent_effect [OF assms] pos
      children_of_upd
    using d by simp
qed

lemma tree_inv_insert: "tree_inv h \<Longrightarrow> tree_inv (cell_insert p ch index h)"
proof (cases ch)
  case (Some c)
  assume t: "tree_inv h"
  show ?thesis
    unfolding tree_inv_def Some cell_insert_children [OF t] cell_insert_parent [OF t]
    using tree_invD [OF t] by (auto simp: distinct_remove1 set_remove1_eq)
qed (simp add: cell_insert_def)


subsection \<open>Edges and terminals\<close>

text \<open>
  A cell lists an edge only if it is one of the edge's terminals, and lists it once.  The
  other direction is a property of a single edge: an edge that has been removed from the model
  keeps its terminals and is listed by none of them.
\<close>

definition edge_inv :: "'a heap_scheme \<Rightarrow> bool" where
  "edge_inv h \<longleftrightarrow>
     (\<forall>t. distinct (edges_of h t)) \<and>
     (\<forall>t. \<forall>e \<in> set (edges_of h t). \<exists>b. cell_getTerminal e b h = Some t)"

definition edge_linked :: "cref \<Rightarrow> 'a heap_scheme \<Rightarrow> bool" where
  "edge_linked e h \<longleftrightarrow> (\<forall>t. (\<exists>b. cell_getTerminal e b h = Some t) \<longrightarrow> e \<in> set (edges_of h t))"

lemma edge_inv_terminal:
  "edge_inv h \<Longrightarrow> e \<in> set (edges_of h t) \<Longrightarrow> \<exists>b. cell_getTerminal e b h = Some t"
  unfolding edge_inv_def by blast

lemma edge_invD:
  assumes "edge_inv h"
  shows "distinct (edges_of h t)"
    and "e \<in> set (edges_of h t) \<Longrightarrow>
      cell_getTerminal e b h = Some t \<or> cell_getTerminal e (\<not> b) h = Some t"
proof -
  show "distinct (edges_of h t)" using assms by (simp add: edge_inv_def)
  assume "e \<in> set (edges_of h t)"
  then obtain b' where "cell_getTerminal e b' h = Some t" using edge_inv_terminal [OF assms] by blast
  then show "cell_getTerminal e b h = Some t \<or> cell_getTerminal e (\<not> b) h = Some t"
    by (cases "b' = b") auto
qed

lemma getTerminal_upd:
  "cell_getTerminal e b (upd c f h) =
     (if e = c then (if b then c_source (f (cell_at h c)) else c_target (f (cell_at h c)))
      else cell_getTerminal e b h)"
  by (simp add: cell_getTerminal_def)

lemma getTerminal_update_edges [simp]:
  "cell_getTerminal e b (upd c (c_edges_update f) h) = cell_getTerminal e b h"
  by (simp add: cell_getTerminal_def)

lemma getTerminal_setTerminal [simp]:
  "cell_getTerminal e b (cell_setTerminal e2 t b2 h) =
     (if e = e2 \<and> b = b2 then t else cell_getTerminal e b h)"
  by (cases b) (auto simp: cell_setTerminal_def cell_getTerminal_def)

lemma edges_of_setTerminal [simp]: "edges_of (cell_setTerminal e t b h) q = edges_of h q"
  by (simp add: cell_setTerminal_def edges_of_def)

lemma edges_of_update_edges [simp]:
  "edges_of (upd t (c_edges_update f) h) q =
     (if q = t then entries (f (c_edges (cell_at h t))) else edges_of h q)"
  by simp

lemma removeEdge_getTerminal:
  "cell_getTerminal e2 b (cell_removeEdge t (Some e) out h) =
     (if e2 = e \<and> b = out then None else cell_getTerminal e2 b h)"
  by (auto simp: cell_removeEdge_def Let_def cell_getTerminal_def cell_setTerminal_def
      split: option.splits)

lemma removeEdge_edges:
  assumes "edge_inv h"
  shows "edges_of (cell_removeEdge t (Some e) out h) q =
     (if q = t \<and> cell_getTerminal e (\<not> out) h \<noteq> Some t then remove1 e (edges_of h t)
      else edges_of h q)"
proof (cases "c_edges (cell_at h t)")
  case None
  then show ?thesis by (auto simp: cell_removeEdge_def edges_of_def cell_setTerminal_def)
next
  case (Some es)
  then have es: "edges_of h t = es" by (simp add: edges_of_def)
  show ?thesis
  proof (cases "e \<in> set es")
    case True
    then show ?thesis
      using delete_at_index [of e es] edge_invD(1) [OF assms, of t] Some es
      by (simp add: cell_removeEdge_def Let_def cell_getEdgeIndex_def)
  next
    case False
    then have "mx_indexOf (Some es) (Some e) < 0" by (simp add: mx_indexOf_neg_iff)
    then show ?thesis using False Some es
      by (simp add: cell_removeEdge_def Let_def cell_getEdgeIndex_def remove1_idem)
  qed
qed

lemma removeFromTerminal_getTerminal:
  "cell_getTerminal e2 b (cell_removeFromTerminal e out h) =
     (if e2 = e \<and> b = out then None else cell_getTerminal e2 b h)"
  by (auto simp: cell_removeFromTerminal_def removeEdge_getTerminal split: option.splits)

lemma removeFromTerminal_edges:
  assumes "edge_inv h"
  shows "edges_of (cell_removeFromTerminal e out h) q =
     (if cell_getTerminal e out h = Some q \<and> cell_getTerminal e (\<not> out) h \<noteq> Some q
      then remove1 e (edges_of h q) else edges_of h q)"
  by (auto simp: cell_removeFromTerminal_def removeEdge_edges [OF assms] split: option.splits)

lemma insertEdge_getTerminal:
  "cell_getTerminal e2 b (cell_insertEdge t (Some e) out h) =
     (if e2 = e \<and> b = out then Some t else cell_getTerminal e2 b h)"
  by (auto simp: cell_insertEdge_def Let_def removeFromTerminal_getTerminal)

lemma insertEdge_edges:
  assumes "edge_inv h"
  shows "edges_of (cell_insertEdge t (Some e) out h) q =
     (let es = edges_of (cell_removeFromTerminal e out h) q
      in if q = t \<and> e \<notin> set es then es @ [e] else es)"
proof -
  let ?h = "cell_removeFromTerminal e out h"
  let ?h1 = "cell_setTerminal e (Some t) out ?h"
  have other: "cell_getTerminal e (\<not> out) ?h1 = cell_getTerminal e (\<not> out) h"
    by (simp add: removeFromTerminal_getTerminal)
  have mem: "e \<in> set (edges_of ?h t) \<Longrightarrow> cell_getTerminal e (\<not> out) h = Some t"
    using edge_invD [OF assms, of t] edge_invD(2) [OF assms, of e t out] removeFromTerminal_edges [OF assms, of e out t]
    by (auto split: if_splits simp: set_remove1_eq)
  have cond: "(c_edges (cell_at ?h1 t) = None
      \<or> cell_getTerminal e (\<not> out) ?h1 \<noteq> Some t
      \<or> mx_indexOf (c_edges (cell_at ?h1 t)) (Some e) < 0) \<longleftrightarrow> e \<notin> set (edges_of ?h t)"
  proof -
    have e: "entries (c_edges (cell_at ?h1 t)) = edges_of ?h t"
      using edges_of_setTerminal [of e "Some t" out ?h t] by (simp add: edges_of_def)
    then have "c_edges (cell_at ?h1 t) = None \<Longrightarrow> e \<notin> set (edges_of ?h t)"
      by (metis empty_iff entries_simps(1) list.set(1))
    with e mem show ?thesis unfolding mx_indexOf_neg_iff other by auto
  qed
  have e: "entries (c_edges (cell_at ?h1 q)) = edges_of ?h q" for q
    using edges_of_setTerminal [of e "Some t" out ?h q] by (simp add: edges_of_def)
  show ?thesis
    unfolding cell_insertEdge_def option.case Let_def cond
    using e by simp
qed

lemma edge_inv_removeEdge:
  assumes "edge_inv h" and "cell_getTerminal e out h = Some t"
  shows "edge_inv (cell_removeEdge t (Some e) out h)"
proof -
  let ?h = "cell_removeEdge t (Some e) out h"
  have "\<exists>b. cell_getTerminal x b ?h = Some q" if x: "x \<in> set (edges_of ?h q)" for x q
  proof (cases "x = e")
    case False
    with x have "x \<in> set (edges_of h q)"
      by (auto simp: removeEdge_edges [OF assms(1)] split: if_splits)
    from edge_inv_terminal [OF assms(1) this] obtain b where "cell_getTerminal x b h = Some q" ..
    with False show ?thesis by (auto simp: removeEdge_getTerminal)
  next
    case True
    have d: "distinct (edges_of h t)" using edge_invD(1) [OF assms(1)] .
    have "e \<in> set (edges_of h q)" and nt: "q = t \<Longrightarrow> cell_getTerminal e (\<not> out) h = Some t"
      using x True d by (auto simp: removeEdge_edges [OF assms(1)] split: if_splits)
    from edge_invD(2) [OF assms(1) this(1), of out] assms(2) nt
    have "cell_getTerminal e (\<not> out) h = Some q" by auto
    then show ?thesis using True by (intro exI [of _ "\<not> out"]) (simp add: removeEdge_getTerminal)
  qed
  then show ?thesis
    using edge_invD(1) [OF assms(1)] by (auto simp: edge_inv_def removeEdge_edges [OF assms(1)])
qed

lemma edge_inv_removeFromTerminal: "edge_inv h \<Longrightarrow> edge_inv (cell_removeFromTerminal e out h)"
  by (auto simp: cell_removeFromTerminal_def edge_inv_removeEdge split: option.splits)

lemma edge_inv_insertEdge:
  assumes "edge_inv h"
  shows "edge_inv (cell_insertEdge t e out h)"
proof (cases e)
  case None
  with assms show ?thesis by (simp add: cell_insertEdge_def)
next
  case (Some d)
  let ?h = "cell_removeFromTerminal d out h"
  have inv: "edge_inv ?h" using assms by (rule edge_inv_removeFromTerminal)
  have "\<exists>b. cell_getTerminal x b (cell_insertEdge t e out h) = Some q"
    if "x \<in> set (edges_of ?h q)" for x q
  proof -
    from edge_inv_terminal [OF inv that] obtain b where b: "cell_getTerminal x b ?h = Some q" ..
    then have "\<not> (x = d \<and> b = out)" by (auto simp: removeFromTerminal_getTerminal split: if_splits)
    with b Some show ?thesis
      by (intro exI [of _ b]) (auto simp: insertEdge_getTerminal removeFromTerminal_getTerminal)
  qed
  moreover have "\<exists>b. cell_getTerminal d b (cell_insertEdge t e out h) = Some t"
    using Some by (intro exI [of _ out]) (simp add: insertEdge_getTerminal)
  moreover have "distinct (edges_of (cell_insertEdge t e out h) q)" for q
    using edge_invD(1) [OF inv, of q] Some by (auto simp: insertEdge_edges [OF assms] Let_def)
  ultimately show ?thesis
    using Some by (auto simp: edge_inv_def insertEdge_edges [OF assms] Let_def split: if_splits)
qed

lemma edge_linked_insertEdge:
  assumes "edge_inv h" and "x \<noteq> e \<Longrightarrow> edge_linked x h"
    and "\<And>u. x = e \<Longrightarrow> cell_getTerminal e (\<not> out) h = Some u \<Longrightarrow> e \<in> set (edges_of h u)"
  shows "edge_linked x (cell_insertEdge t (Some e) out h)"
proof -
  have d: "distinct (edges_of h q)" for q using edge_invD(1) [OF assms(1)] .
  have "x \<in> set (edges_of (cell_insertEdge t (Some e) out h) q)"
    if b: "cell_getTerminal x b (cell_insertEdge t (Some e) out h) = Some q" for b q
  proof (cases "x = e")
    case False
    with b assms(2) have "x \<in> set (edges_of h q)"
      by (auto simp: insertEdge_getTerminal edge_linked_def)
    with False show ?thesis
      by (auto simp: insertEdge_edges [OF assms(1)] Let_def removeFromTerminal_edges [OF assms(1)])
  next
    case True
    show ?thesis
    proof (cases "b = out")
      case True
      with b \<open>x = e\<close> show ?thesis
        by (auto simp: insertEdge_getTerminal insertEdge_edges [OF assms(1)] Let_def)
    next
      case False
      then have "b = (\<not> out)" by auto
      with b \<open>x = e\<close> have "cell_getTerminal e (\<not> out) h = Some q"
        by (simp add: insertEdge_getTerminal)
      with assms(3) \<open>x = e\<close> show ?thesis
        by (auto simp: insertEdge_edges [OF assms(1)] Let_def removeFromTerminal_edges [OF assms(1)])
    qed
  qed
  then show ?thesis by (auto simp: edge_linked_def)
qed

end
