(* ===== verification/Paths.thy ===== *)
theory Paths
  imports Cell JsString
begin

text \<open>
  Walking up the parents of a cell, and cell paths (model/mxCellPath.js).

  A loop that follows parent references ends only if the references have no cycle.  The model
  gives such a loop one unit of fuel per allocated cell and one more; \<open>None\<close> means that the
  fuel was not enough.  In a well-formed store (\<open>heap_wf\<close>: the parent relation is well-founded
  and stays within the allocated cells) it always is.
\<close>

definition walk_fuel :: "'a heap_scheme \<Rightarrow> nat" where
  "walk_fuel h = Suc (ncells h)"

text \<open>\<open>while (cell != null && !stop(cell)) cell = getParent(cell)\<close>.\<close>

fun walk_up :: "nat \<Rightarrow> 'a heap_scheme \<Rightarrow> (cref \<Rightarrow> bool) \<Rightarrow> cref option \<Rightarrow> cref option option" where
  "walk_up n h stop None = Some None"
| "walk_up 0 h stop (Some c) = None"
| "walk_up (Suc n) h stop (Some c) =
     (if stop c then Some (Some c) else walk_up n h stop (cell_getParent c h))"

text \<open>The cell and its ancestors, from the cell upwards.\<close>

fun up_list :: "nat \<Rightarrow> 'a heap_scheme \<Rightarrow> cref option \<Rightarrow> cref list option" where
  "up_list n h None = Some []"
| "up_list 0 h (Some c) = None"
| "up_list (Suc n) h (Some c) = map_option (\<lambda>l. c # l) (up_list n h (cell_getParent c h))"

definition ancestors :: "'a heap_scheme \<Rightarrow> cref \<Rightarrow> cref list" where
  "ancestors h c = the (up_list (walk_fuel h) h (Some c))"

definition parent_rel :: "'a heap_scheme \<Rightarrow> (cref \<times> cref) set" where
  "parent_rel h = {(p, c). cell_getParent c h = Some p}"

definition heap_wf :: "'a heap_scheme \<Rightarrow> bool" where
  "heap_wf h \<longleftrightarrow>
     wf (parent_rel h) \<and>
     (\<forall>c p. cell_getParent c h = Some p \<longrightarrow> c < ncells h \<and> p < ncells h)"

lemma heap_wf_parent:
  "heap_wf h \<Longrightarrow> cell_getParent c h = Some p \<Longrightarrow> c < ncells h \<and> p < ncells h"
  by (simp add: heap_wf_def)

lemma up_list_SomeE:
  assumes "up_list n h (Some c) = Some l"
  obtains m l' where "n = Suc m" "l = c # l'" "up_list m h (cell_getParent c h) = Some l'"
  using assms by (cases n) auto

lemma walk_up_find: "up_list n h c = Some l \<Longrightarrow> walk_up n h stop c = Some (List.find stop l)"
proof (induction n arbitrary: c l)
  case 0
  then show ?case by (cases c) simp_all
next
  case (Suc n)
  show ?case
  proof (cases c)
    case (Some x)
    from Suc.prems [unfolded this] obtain l' where "l = x # l'"
      "up_list n h (cell_getParent x h) = Some l'" by (auto elim: up_list_SomeE)
    with Some Suc.IH show ?thesis by simp
  qed (use Suc.prems in simp)
qed

lemma up_list_mono: "up_list n h c = Some l \<Longrightarrow> n \<le> m \<Longrightarrow> up_list m h c = Some l"
proof (induction n arbitrary: c m l)
  case 0
  then show ?case by (cases c) simp_all
next
  case (Suc n)
  show ?case
  proof (cases c)
    case (Some x)
    from Suc.prems(1) [unfolded this] obtain l' where l: "l = x # l'"
      "up_list n h (cell_getParent x h) = Some l'" by (auto elim: up_list_SomeE)
    from Suc.prems(2) obtain k where "m = Suc k" "n \<le> k" by (cases m) auto
    with Some Suc.IH [OF l(2), of k] l(1) show ?thesis by simp
  qed (use Suc.prems in simp)
qed

lemma up_list_length: "up_list n h c = Some l \<Longrightarrow> up_list (length l) h c = Some l"
proof (induction n arbitrary: c l)
  case 0
  then show ?case by (cases c) auto
next
  case (Suc n)
  show ?case
  proof (cases c)
    case (Some x)
    from Suc.prems [unfolded this] obtain l' where "l = x # l'"
      "up_list n h (cell_getParent x h) = Some l'" by (auto elim: up_list_SomeE)
    with Some Suc.IH show ?thesis by simp
  qed (use Suc.prems in simp)
qed

lemma up_list_exists:
  assumes "heap_wf h"
  shows "\<exists>n l. up_list n h (Some c) = Some l"
proof -
  have "wf (parent_rel h)" using assms by (simp add: heap_wf_def)
  then show ?thesis
  proof (induction c rule: wf_induct_rule)
    case (less c)
    show ?case
    proof (cases "cell_getParent c h")
      case None
      then have "up_list (Suc 0) h (Some c) = Some [c]" by simp
      then show ?thesis by blast
    next
      case (Some p)
      then have "(p, c) \<in> parent_rel h" by (simp add: parent_rel_def)
      from less [OF this] obtain n l where "up_list n h (Some p) = Some l" by blast
      with Some have "up_list (Suc n) h (Some c) = Some (c # l)" by simp
      then show ?thesis by blast
    qed
  qed
qed

lemma up_list_above:
  "up_list n h (Some c) = Some l \<Longrightarrow> x \<in> set l \<Longrightarrow> (x, c) \<in> (parent_rel h)\<^sup>*"
proof (induction n arbitrary: c l)
  case (Suc n)
  then obtain l' where l: "l = c # l'" "up_list n h (cell_getParent c h) = Some l'" by auto
  show ?case
  proof (cases "x = c")
    case False
    with Suc.prems(2) l have x: "x \<in> set l'" by simp
    then obtain p where p: "cell_getParent c h = Some p"
      using l(2) by (cases "cell_getParent c h") auto
    with Suc.IH [of p l'] l(2) x have "(x, p) \<in> (parent_rel h)\<^sup>*" by simp
    moreover have "(p, c) \<in> parent_rel h" using p by (simp add: parent_rel_def)
    ultimately show ?thesis by (rule rtrancl_into_rtrancl)
  qed simp
qed simp

lemma up_list_distinct:
  assumes "wf (parent_rel h)"
  shows "up_list n h c = Some l \<Longrightarrow> distinct l"
proof (induction n arbitrary: c l)
  case 0
  then show ?case by (cases c) auto
next
  case (Suc n)
  show ?case
  proof (cases c)
    case None
    with Suc.prems show ?thesis by simp
  next
    case (Some x)
    with Suc.prems obtain l' where l: "l = x # l'" "up_list n h (cell_getParent x h) = Some l'"
      by auto
    have "x \<notin> set l'"
    proof
      assume x: "x \<in> set l'"
      then obtain p where p: "cell_getParent x h = Some p"
        using l(2) by (cases "cell_getParent x h") auto
      with l(2) x have "(x, p) \<in> (parent_rel h)\<^sup>*" by (auto intro: up_list_above)
      moreover have "(p, x) \<in> parent_rel h" using p by (simp add: parent_rel_def)
      ultimately have "(x, x) \<in> (parent_rel h)\<^sup>+" by (rule rtrancl_into_trancl1)
      moreover have "acyclic (parent_rel h)" using assms by (rule wf_acyclic)
      ultimately show False by (simp add: acyclic_def)
    qed
    with l Suc.IH [OF l(2)] show ?thesis by simp
  qed
qed

lemma up_list_alloc:
  assumes "heap_wf h"
  shows "up_list n h c = Some l \<Longrightarrow> x \<in> set (tl l) \<Longrightarrow> x < ncells h"
proof (induction n arbitrary: c l)
  case 0
  then show ?case by (cases c) auto
next
  case (Suc n)
  show ?case
  proof (cases c)
    case None
    with Suc.prems show ?thesis by simp
  next
    case (Some y)
    with Suc.prems obtain l' where l: "l = y # l'" "up_list n h (cell_getParent y h) = Some l'"
      by auto
    with Suc.prems(2) have x: "x \<in> set l'" by simp
    then obtain p where p: "cell_getParent y h = Some p"
      using l(2) by (cases "cell_getParent y h") auto
    then have "x = p \<or> x \<in> set (tl l')" using l(2) x by (cases n) auto
    with heap_wf_parent [OF assms p] Suc.IH [OF l(2)] show ?thesis by auto
  qed
qed

text \<open>One unit per allocated cell is enough.\<close>

lemma up_list_fuel:
  assumes "heap_wf h"
  shows "\<exists>l. up_list (walk_fuel h) h (Some c) = Some l"
proof -
  from up_list_exists [OF assms] obtain n l where l: "up_list n h (Some c) = Some l" by blast
  have "wf (parent_rel h)" using assms by (simp add: heap_wf_def)
  from up_list_distinct [OF this l] have "distinct (tl l)" by (simp add: distinct_tl)
  then have "length (tl l) = card (set (tl l))" by (simp add: distinct_card)
  also have "\<dots> \<le> card {..<ncells h}"
    using up_list_alloc [OF assms l] by (intro card_mono) auto
  finally have "length l \<le> walk_fuel h" by (simp add: walk_fuel_def)
  with up_list_mono [OF up_list_length [OF l]] show ?thesis by blast
qed

lemma ancestors_up_list:
  "heap_wf h \<Longrightarrow> up_list (walk_fuel h) h (Some c) = Some (ancestors h c)"
  using up_list_fuel [of h c] by (auto simp: ancestors_def)

lemma ancestors_parent:
  assumes "heap_wf h"
  shows "ancestors h c =
     c # (case cell_getParent c h of None \<Rightarrow> [] | Some p \<Rightarrow> ancestors h p)"
proof -
  have c: "up_list (Suc (ncells h)) h (Some c) = Some (ancestors h c)"
    using ancestors_up_list [OF assms] by (simp add: walk_fuel_def)
  show ?thesis
  proof (cases "cell_getParent c h")
    case None
    with c show ?thesis by simp
  next
    case (Some p)
    from up_list_SomeE [OF c] obtain m l where m: "Suc (ncells h) = Suc m"
      and anc: "ancestors h c = c # l" and up: "up_list m h (cell_getParent c h) = Some l" .
    have l: "ancestors h c = c # l" "up_list (ncells h) h (Some p) = Some l"
      using anc up m Some by simp_all
    from up_list_mono [OF l(2), of "walk_fuel h"] have "ancestors h p = l"
      unfolding ancestors_def by (simp add: walk_fuel_def del: up_list.simps)
    with l Some show ?thesis by simp
  qed
qed

lemma ancestors_distinct: "heap_wf h \<Longrightarrow> distinct (ancestors h c)"
  using up_list_distinct [OF _ ancestors_up_list] by (auto simp: heap_wf_def)

lemma ancestors_self [simp]: "heap_wf h \<Longrightarrow> c \<in> set (ancestors h c)"
  by (subst ancestors_parent) simp_all

lemma heap_wf_induct [consumes 1, case_names up]:
  assumes "heap_wf h" and "\<And>c. (\<And>p. cell_getParent c h = Some p \<Longrightarrow> P p) \<Longrightarrow> P c"
  shows "P c"
proof -
  have "wf (parent_rel h)" using assms(1) by (simp add: heap_wf_def)
  then show ?thesis
    by (induction c rule: wf_induct_rule) (rule assms(2), simp add: parent_rel_def)
qed

lemma ancestors_rel:
  assumes "heap_wf h"
  shows "x \<in> set (ancestors h c) \<longleftrightarrow> (x, c) \<in> (parent_rel h)\<^sup>*"
  using assms
proof (induction c rule: heap_wf_induct)
  case (up c)
  show ?case
  proof
    assume "x \<in> set (ancestors h c)"
    then show "(x, c) \<in> (parent_rel h)\<^sup>*"
      by (rule up_list_above [OF ancestors_up_list [OF assms]])
  next
    assume "(x, c) \<in> (parent_rel h)\<^sup>*"
    then consider "x = c" | p where "(x, p) \<in> (parent_rel h)\<^sup>*" "(p, c) \<in> parent_rel h"
      by (auto elim: rtranclE)
    then show "x \<in> set (ancestors h c)"
    proof cases
      case 1
      then show ?thesis using assms by simp
    next
      case 2
      then have "cell_getParent c h = Some p" by (simp add: parent_rel_def)
      with up [of p] 2(1) show ?thesis by (subst ancestors_parent [OF assms]) simp
    qed
  qed
qed

lemma walk_up_wf:
  "heap_wf h \<Longrightarrow> walk_up (walk_fuel h) h stop (Some c) = Some (List.find stop (ancestors h c))"
  by (rule walk_up_find [OF ancestors_up_list])


subsection \<open>The parent relation under changes of the tree\<close>

lemma cell_ops_counters [simp]:
  "ncells (cell_setParent c p h) = ncells h" "ncells (cell_setTerminal e t b h) = ncells h"
  "ncells (detach c h) = ncells h"
  by (simp_all add: cell_field_defs detach_def split: option.splits)

lemma ncells_removeFromParent [simp]: "ncells (cell_removeFromParent c h) = ncells h"
  by (auto simp: cell_removeFromParent_def cell_remove_def Let_def split: option.splits)

lemma ncells_insert [simp]: "ncells (cell_insert p c i h) = ncells h"
  by (auto simp: cell_insert_def Let_def split: option.splits)

lemma ncells_remove [simp]: "ncells (snd (cell_remove p i h)) = ncells h"
  by (auto simp: cell_remove_def split: option.splits)

lemma heap_wf_detach: "heap_wf h \<Longrightarrow> heap_wf (detach c h)"
proof -
  assume "heap_wf h"
  moreover have "parent_rel (detach c h) \<subseteq> parent_rel h"
    by (auto simp: parent_rel_def cell_getParent_def split: if_splits)
  ultimately show ?thesis
    unfolding heap_wf_def cell_getParent_def by (auto intro: wf_subset)
qed

lemma heap_wf_remove: "tree_inv h \<Longrightarrow> heap_wf h \<Longrightarrow> heap_wf (snd (cell_remove p i h))"
  by (rule cell_remove_cases [of h p i]) (auto simp: heap_wf_detach)

text \<open>Inserting keeps the relation well-founded when the parent is not below the child.\<close>

lemma heap_wf_insert:
  assumes "tree_inv h" and "heap_wf h" and "c < ncells h" and "p < ncells h"
    and "c \<notin> set (ancestors h p)"
  shows "heap_wf (cell_insert p (Some c) i h)"
proof -
  let ?d = "parent_rel (detach c h)"
  have sub: "?d \<subseteq> parent_rel h"
    by (auto simp: parent_rel_def cell_getParent_def split: if_splits)
  have "parent_rel (cell_insert p (Some c) i h) = insert (p, c) ?d"
    by (auto simp: parent_rel_def cell_getParent_def cell_insert_parent [OF assms(1)] split: if_splits)
  moreover have "wf ?d" using heap_wf_detach [OF assms(2)] by (simp add: heap_wf_def)
  moreover have "(c, p) \<notin> ?d\<^sup>*"
    using assms(2,5) rtrancl_mono [OF sub] by (auto simp: ancestors_rel)
  ultimately have "wf (parent_rel (cell_insert p (Some c) i h))" by simp
  then show ?thesis
    using assms(2-4)
    by (auto simp: heap_wf_def cell_getParent_def cell_insert_parent [OF assms(1)])
qed

subsection \<open>mxCellPath\<close>

fun path_loop :: "nat \<Rightarrow> 'a heap_scheme \<Rightarrow> cref \<Rightarrow> string \<Rightarrow> string option" where
  "path_loop n h cell result =
     (case cell_getParent cell h of
        None \<Rightarrow> Some result
      | Some parent \<Rightarrow>
          (case n of
             0 \<Rightarrow> None
           | Suc m \<Rightarrow>
               (let index = cell_getIndex parent cell h
                in path_loop m h parent (js_int_string index @ ''.'' @ result))))"

declare path_loop.simps [simp del]

definition path_create :: "cref option \<Rightarrow> 'a heap_scheme \<Rightarrow> string option" where
  "path_create cell h =
     map_option
       (\<lambda>result. let n = length result
                 in if n > 1 then js_substring result 0 (int n - 1) else result)
       (case cell of None \<Rightarrow> Some [] | Some c \<Rightarrow> path_loop (walk_fuel h) h c [])"

definition getParentPath :: "string option \<Rightarrow> string option" where
  "getParentPath path =
     (case path of
        None \<Rightarrow> None
      | Some s \<Rightarrow>
          (let index = js_lastIndexOf s CHR ''.'' in
           if index \<ge> 0 then Some (js_substring s 0 index)
           else if length s > 0 then Some [] else None))"

fun resolve_loop :: "'a heap_scheme \<Rightarrow> cref option \<Rightarrow> string list \<Rightarrow> cell_error + cref option" where
  "resolve_loop h parent [] = Inr parent"
| "resolve_loop h None (t # ts) = Inl TypeError"
| "resolve_loop h (Some p) (t # ts) =
     resolve_loop h (case js_parseInt t of None \<Rightarrow> None | Some i \<Rightarrow> cell_getChildAt p i h) ts"

definition path_resolve ::
  "cref option \<Rightarrow> string option \<Rightarrow> 'a heap_scheme \<Rightarrow> cell_error + cref option" where
  "path_resolve rt path h =
     (case path of
        None \<Rightarrow> Inr rt
      | Some s \<Rightarrow> resolve_loop h rt (js_split CHR ''.'' s))"

text \<open>The comparison \<open>a > b\<close> of strings, and the comparison of paths as token arrays.\<close>

fun str_gt :: "string \<Rightarrow> string \<Rightarrow> bool" where
  "str_gt [] t = False"
| "str_gt (c # cs) [] = True"
| "str_gt (c # cs) (d # ds) =
     ((of_char c :: nat) > of_char d \<or> c = d \<and> str_gt cs ds)"

definition token_compare :: "string \<Rightarrow> string \<Rightarrow> int" where
  "token_compare a b =
     (if length a = 0 \<or> length b = 0 then (if a = b then 0 else if str_gt a b then 1 else -1)
      else (case (js_parseInt a, js_parseInt b) of
              (Some t1, Some t2) \<Rightarrow> (if t1 = t2 then 0 else if t1 > t2 then 1 else -1)
            | _ \<Rightarrow> -1))"

fun first_difference :: "string list \<Rightarrow> string list \<Rightarrow> int" where
  "first_difference (a # as) (b # bs) =
     (if a \<noteq> b then token_compare a b else first_difference as bs)"
| "first_difference _ _ = 0"

definition path_compare :: "string list \<Rightarrow> string list \<Rightarrow> int" where
  "path_compare p1 p2 =
     (let comp = first_difference p1 p2 in
      if comp = 0 then
        (let t1 = length p1; t2 = length p2
         in if t1 \<noteq> t2 then (if t1 > t2 then 1 else -1) else 0)
      else comp)"

text \<open>The abstract path: the positions in the children arrays, from the root down.\<close>

fun idx_list :: "'a heap_scheme \<Rightarrow> cref list \<Rightarrow> nat list" where
  "idx_list h (c # p # l) = idx_list h (p # l) @ [nat (cell_getIndex p c h)]"
| "idx_list h _ = []"

definition index_path :: "'a heap_scheme \<Rightarrow> cref \<Rightarrow> nat list" where
  "index_path h c = idx_list h (ancestors h c)"

definition dotted :: "nat list \<Rightarrow> string" where
  "dotted ks = js_join ''.'' (map nat_string ks)"

lemma index_path_parent:
  assumes "heap_wf h"
  shows "index_path h c =
     (case cell_getParent c h of
        None \<Rightarrow> []
      | Some p \<Rightarrow> index_path h p @ [nat (cell_getIndex p c h)])"
proof (cases "cell_getParent c h")
  case None
  then show ?thesis by (simp add: index_path_def ancestors_parent [OF assms, of c])
next
  case (Some p)
  obtain l where "ancestors h p = p # l" using ancestors_parent [OF assms, of p] by blast
  with Some show ?thesis by (simp add: index_path_def ancestors_parent [OF assms, of c])
qed

lemma cell_getIndex_child:
  assumes "tree_inv h" and "cell_getParent c h = Some p"
  obtains k where "cell_getIndex p c h = int k" "cell_getChildAt p (int k) h = Some c"
    "k < length (children_of h p)" "children_of h p ! k = c"
proof -
  have c: "c \<in> set (children_of h p)"
    using assms(2) tree_invD(2) [OF assms(1)] by (simp add: cell_getParent_def)
  then obtain cs where cs: "c_children (cell_at h p) = Some cs" "children_of h p = cs"
    by (cases "c_children (cell_at h p)") (auto simp: children_of_def)
  with c obtain k where "k < length cs" "mx_indexOf (Some cs) (Some c) = int k" "cs ! k = c"
    using mx_indexOf_obtain by metis
  with cs show thesis by (intro that [of k]) (simp_all add: cell_getIndex_def cell_getChildAt_def)
qed

lemma path_loop_eq:
  assumes "heap_wf h" and "tree_inv h"
  shows "up_list (Suc n) h (Some c) = Some l \<Longrightarrow>
     path_loop n h c r = Some (concat (map (\<lambda>i. nat_string i @ ''.'') (index_path h c)) @ r)"
proof (induction n arbitrary: c l r)
  case 0
  then have "cell_getParent c h = None" by (cases "cell_getParent c h") auto
  then show ?case
    by (simp add: path_loop.simps index_path_parent [OF assms(1)])
next
  case (Suc n)
  show ?case
  proof (cases "cell_getParent c h")
    case None
    then show ?thesis by (simp add: path_loop.simps index_path_parent [OF assms(1), of c])
  next
    case (Some p)
    obtain k where k: "cell_getIndex p c h = int k"
      using cell_getIndex_child [OF assms(2) Some] .
    from up_list_SomeE [OF Suc.prems] Some obtain l'
      where "up_list (Suc n) h (Some p) = Some l'" by (metis Suc_inject)
    from Suc.IH [OF this] k Some show ?thesis
      by (simp add: path_loop.simps index_path_parent [OF assms(1), of c] del: nat_string.simps)
  qed
qed

lemma join_concat_sep:
  "xs \<noteq> [] \<Longrightarrow> concat (map (\<lambda>s. s @ sep) xs) = js_join sep xs @ sep"
proof (induction xs)
  case (Cons x xs)
  then show ?case by (cases "xs = []") (simp_all add: js_join_Cons)
qed simp

lemma path_create_eq:
  assumes "heap_wf h" and "tree_inv h"
  shows "path_create (Some c) h = Some (dotted (index_path h c))"
proof -
  have l: "path_loop (walk_fuel h) h c []
      = Some (concat (map (\<lambda>i. nat_string i @ ''.'') (index_path h c)))"
    using path_loop_eq [OF assms up_list_mono [OF ancestors_up_list [OF assms(1)]],
        of "walk_fuel h" c "[]"] by simp
  show ?thesis
  proof (cases "index_path h c = []")
    case True
    with l show ?thesis by (simp add: path_create_def dotted_def)
  next
    case False
    let ?j = "js_join ''.'' (map nat_string (index_path h c))"
    have c: "concat (map (\<lambda>i. nat_string i @ ''.'') (index_path h c)) = ?j @ ''.''"
      using join_concat_sep [of "map nat_string (index_path h c)" "''.''"] False
      by (simp add: comp_def)
    obtain i js where "index_path h c = i # js" using False by (cases "index_path h c") auto
    then have "?j \<noteq> []"
      by (cases js) (simp_all del: nat_string.simps)
    then have "length (?j @ ''.'') > 1" by simp
    moreover have "js_substring (?j @ ''.'') 0 (int (length ?j)) = ?j"
      by (simp add: js_substring_prefix)
    ultimately show ?thesis using l c by (simp add: path_create_def dotted_def del: nat_string.simps)
  qed
qed


lemma dotted_tokens:
  "ks \<noteq> [] \<Longrightarrow> js_split CHR ''.'' (dotted ks) = map nat_string ks"
  unfolding dotted_def
  by (rule js_split_join) (auto simp: nat_string_no [OF is_digit_not(1)] simp del: nat_string.simps)

lemma dotted_snoc: "ks \<noteq> [] \<Longrightarrow> dotted (ks @ [k]) = dotted ks @ CHR ''.'' # nat_string k"
proof (induction ks)
  case (Cons j ks)
  show ?case
  proof (cases "ks = []")
    case False
    with Cons.IH show ?thesis by (simp add: dotted_def js_join_Cons del: nat_string.simps)
  qed (simp add: dotted_def del: nat_string.simps)
qed simp

lemma dotted_single [simp]: "dotted [k] = nat_string k"
  by (simp add: dotted_def)

lemma dotted_Nil [simp]: "dotted [] = []"
  by (simp add: dotted_def)

lemma dotted_inject [simp]: "dotted js = dotted ks \<longleftrightarrow> js = ks"
proof
  assume eq: "dotted js = dotted ks"
  have ne: "dotted xs \<noteq> []" if "xs \<noteq> []" for xs
    using that dotted_tokens [OF that]
    by (cases xs; cases "tl xs") (auto simp: dotted_def simp del: nat_string.simps)
  show "js = ks"
  proof (cases "js = [] \<or> ks = []")
    case True
    with eq ne show ?thesis by (metis dotted_Nil)
  next
    case False
    with eq dotted_tokens have "map nat_string js = map nat_string ks" by metis
    then show ?thesis by (simp add: inj_def inj_map_eq_map del: nat_string.simps)
  qed
qed simp

text \<open>\<open>getParentPath\<close> of a path drops its last index.\<close>

lemma getParentPath_dotted:
  "getParentPath (Some (dotted ks)) = (if ks = [] then None else Some (dotted (butlast ks)))"
proof (cases ks rule: rev_cases)
  case Nil
  then show ?thesis by (simp add: getParentPath_def js_lastIndexOf_def)
next
  case (snoc js k)
  have no: "CHR ''.'' \<notin> set (nat_string k)" by (rule nat_string_no [OF is_digit_not(1)])
  show ?thesis
  proof (cases "js = []")
    case True
    with snoc no show ?thesis
      by (simp add: getParentPath_def js_lastIndexOf_absent del: nat_string.simps)
  next
    case False
    with snoc no show ?thesis
      by (simp add: getParentPath_def dotted_snoc js_lastIndexOf_append js_substring_prefix
          del: nat_string.simps)
  qed
qed

lemma resolve_loop_append:
  "resolve_loop h p (ts @ us) =
     (case resolve_loop h p ts of Inl e \<Rightarrow> Inl e | Inr q \<Rightarrow> resolve_loop h q us)"
  by (induction h p ts rule: resolve_loop.induct) (auto split: option.splits)

lemma resolve_loop_index_path:
  assumes "heap_wf h" and "tree_inv h"
  shows "resolve_loop h (Some (last (ancestors h c))) (map nat_string (index_path h c)) = Inr (Some c)"
  using assms(1)
proof (induction c rule: heap_wf_induct)
  case (up c)
  show ?case
  proof (cases "cell_getParent c h")
    case None
    then show ?thesis
      by (simp add: index_path_parent [OF assms(1), of c] ancestors_parent [OF assms(1), of c])
  next
    case (Some p)
    obtain k where k: "cell_getIndex p c h = int k" "cell_getChildAt p (int k) h = Some c"
      using cell_getIndex_child [OF assms(2) Some] .
    have "ancestors h p \<noteq> []" using ancestors_parent [OF assms(1), of p] by simp
    then have "last (ancestors h c) = last (ancestors h p)"
      using Some by (simp add: ancestors_parent [OF assms(1), of c])
    with up [OF Some] k Some show ?thesis
      by (simp add: index_path_parent [OF assms(1), of c] resolve_loop_append del: nat_string.simps)
  qed
qed

lemma index_path_inject:
  assumes "heap_wf h" and "tree_inv h" and "last (ancestors h c) = last (ancestors h d)"
    and "index_path h c = index_path h d"
  shows "c = d"
proof -
  have "Inr (Some c) = (Inr (Some d) :: cell_error + cref option)"
    unfolding resolve_loop_index_path [OF assms(1,2), symmetric] assms(3,4) ..
  then show ?thesis by simp
qed

text \<open>The numeric comparison orders paths lexicographically, a prefix first.\<close>

lemma token_compare_nat:
  "token_compare (nat_string m) (nat_string n) = (if m = n then 0 else if m > n then 1 else -1)"
  by (simp add: token_compare_def del: nat_string.simps)

fun lex_less :: "nat list \<Rightarrow> nat list \<Rightarrow> bool" where
  "lex_less [] ys = (ys \<noteq> [])"
| "lex_less (x # xs) [] = False"
| "lex_less (x # xs) (y # ys) = (x < y \<or> x = y \<and> lex_less xs ys)"

lemma path_compare_nat:
  "path_compare (map nat_string xs) (map nat_string ys) =
     (if xs = ys then 0 else if lex_less xs ys then -1 else 1)"
proof (induction xs ys rule: lex_less.induct)
  case (3 x xs y ys)
  have "path_compare (map nat_string (x # xs)) (map nat_string (y # ys)) =
    (if x \<noteq> y then (if x > y then 1 else -1)
     else path_compare (map nat_string xs) (map nat_string ys))"
    by (simp add: path_compare_def token_compare_nat Let_def del: nat_string.simps)
  with 3 show ?case by auto
qed (auto simp: path_compare_def)

end
