(* ===== verification/Undo.thy ===== *)
theory Undo
  imports Prelude
begin

text \<open>
  Undoable edits and the command history: util/mxUndoableEdit.js and util/mxUndoManager.js.

  A change is a value \<open>'c\<close>.  Executing one swaps what it stores with what the state holds, so
  an operation of a change takes the change and the state \<open>'s\<close> and returns both.  Which of
  the methods \<open>execute\<close>, \<open>undo\<close> and \<open>redo\<close> a change object has, what the source does with an
  event and what the edit's \<open>notify\<close> does are the fields of a record the client supplies.
\<close>

subsection \<open>mxUndoableEdit\<close>

datatype 'c edit_event = START_EDIT | EXECUTED 'c | END_EDIT

record 'c mxUndoableEdit =
  changes :: "'c list"
  significant :: bool
  undone :: bool
  redone :: bool

record ('c, 's) edit_ops =
  op_execute :: "'c \<Rightarrow> ('s \<Rightarrow> 'c \<times> 's) option"
  op_undo :: "'c \<Rightarrow> ('s \<Rightarrow> 'c \<times> 's) option"
  op_redo :: "'c \<Rightarrow> ('s \<Rightarrow> 'c \<times> 's) option"
  op_fire :: "'c edit_event \<Rightarrow> 's \<Rightarrow> 's"
  op_notify :: "'c mxUndoableEdit \<Rightarrow> 's \<Rightarrow> 's"

definition new_mxUndoableEdit :: "bool option \<Rightarrow> 'c mxUndoableEdit" where
  "new_mxUndoableEdit sig =
     \<lparr>changes = [], significant = (case sig of None \<Rightarrow> True | Some b \<Rightarrow> b),
      undone = False, redone = False\<rparr>"

definition edit_isEmpty :: "'c mxUndoableEdit \<Rightarrow> bool" where
  "edit_isEmpty e \<longleftrightarrow> length (changes e) = 0"

definition isSignificant :: "'c mxUndoableEdit \<Rightarrow> bool" where
  "isSignificant e = significant e"

definition edit_add :: "'c \<Rightarrow> 'c mxUndoableEdit \<Rightarrow> 'c mxUndoableEdit" where
  "edit_add c e = e\<lparr>changes := changes e @ [c]\<rparr>"

definition edit_die :: "'c mxUndoableEdit \<Rightarrow> 's \<Rightarrow> 's" where
  "edit_die e s = s"

definition undo_change :: "('c, 's) edit_ops \<Rightarrow> 'c \<Rightarrow> 's \<Rightarrow> 'c \<times> 's" where
  "undo_change ops c s =
     (case op_execute ops c of
        Some f \<Rightarrow> f s
      | None \<Rightarrow> (case op_undo ops c of Some f \<Rightarrow> f s | None \<Rightarrow> (c, s)))"

definition redo_change :: "('c, 's) edit_ops \<Rightarrow> 'c \<Rightarrow> 's \<Rightarrow> 'c \<times> 's" where
  "redo_change ops c s =
     (case op_execute ops c of
        Some f \<Rightarrow> f s
      | None \<Rightarrow> (case op_redo ops c of Some f \<Rightarrow> f s | None \<Rightarrow> (c, s)))"

text \<open>The loops over the changes, from the last to the first and from the first to the last.\<close>

fun undo_changes :: "('c, 's) edit_ops \<Rightarrow> 'c list \<Rightarrow> 's \<Rightarrow> 'c list \<times> 's" where
  "undo_changes ops [] s = ([], s)"
| "undo_changes ops (c # cs) s =
     (let (cs', s1) = undo_changes ops cs s; (c', s2) = undo_change ops c s1
      in (c' # cs', op_fire ops (EXECUTED c') s2))"

fun redo_changes :: "('c, 's) edit_ops \<Rightarrow> 'c list \<Rightarrow> 's \<Rightarrow> 'c list \<times> 's" where
  "redo_changes ops [] s = ([], s)"
| "redo_changes ops (c # cs) s =
     (let (c', s1) = redo_change ops c s;
          (cs', s2) = redo_changes ops cs (op_fire ops (EXECUTED c') s1)
      in (c' # cs', s2))"

definition edit_undo :: "('c, 's) edit_ops \<Rightarrow> 'c mxUndoableEdit \<Rightarrow> 's \<Rightarrow> 'c mxUndoableEdit \<times> 's" where
  "edit_undo ops e s =
     (let (e, s) =
        (if \<not> undone e then
           (let s = op_fire ops START_EDIT s;
                (cs, s) = undo_changes ops (changes e) s;
                e = e\<lparr>changes := cs, undone := True, redone := False\<rparr>
            in (e, op_fire ops END_EDIT s))
         else (e, s))
      in (e, op_notify ops e s))"

definition edit_redo :: "('c, 's) edit_ops \<Rightarrow> 'c mxUndoableEdit \<Rightarrow> 's \<Rightarrow> 'c mxUndoableEdit \<times> 's" where
  "edit_redo ops e s =
     (let (e, s) =
        (if \<not> redone e then
           (let s = op_fire ops START_EDIT s;
                (cs, s) = redo_changes ops (changes e) s;
                e = e\<lparr>changes := cs, undone := False, redone := True\<rparr>
            in (e, op_fire ops END_EDIT s))
         else (e, s))
      in (e, op_notify ops e s))"

subsection \<open>mxUndoManager\<close>

datatype 'c manager_event =
  MgrClear | MgrUndo "'c mxUndoableEdit" | MgrRedo "'c mxUndoableEdit" | MgrAdd "'c mxUndoableEdit"

text \<open>The events the manager fires are kept as a log, in the order they are fired.\<close>

record 'c mxUndoManager =
  um_size :: int
  history :: "'c mxUndoableEdit list"
  indexOfNextAdd :: nat
  um_fired :: "'c manager_event list"

definition um_fire :: "'c manager_event \<Rightarrow> 'c mxUndoManager \<Rightarrow> 'c mxUndoManager" where
  "um_fire ev m = m\<lparr>um_fired := um_fired m @ [ev]\<rparr>"

definition um_clear :: "'c mxUndoManager \<Rightarrow> 'c mxUndoManager" where
  "um_clear m = um_fire MgrClear (m\<lparr>history := [], indexOfNextAdd := 0\<rparr>)"

definition new_mxUndoManager :: "int option \<Rightarrow> 'c mxUndoManager" where
  "new_mxUndoManager sz =
     um_clear \<lparr>um_size = (case sz of None \<Rightarrow> 100 | Some n \<Rightarrow> n), history = [],
               indexOfNextAdd = 0, um_fired = []\<rparr>"

definition um_isEmpty :: "'c mxUndoManager \<Rightarrow> bool" where
  "um_isEmpty m \<longleftrightarrow> length (history m) = 0"

definition canUndo :: "'c mxUndoManager \<Rightarrow> bool" where
  "canUndo m \<longleftrightarrow> indexOfNextAdd m > 0"

definition canRedo :: "'c mxUndoManager \<Rightarrow> bool" where
  "canRedo m \<longleftrightarrow> indexOfNextAdd m < length (history m)"

fun um_undo_loop ::
  "('c, 's) edit_ops \<Rightarrow> nat \<Rightarrow> 'c mxUndoManager \<Rightarrow> 's \<Rightarrow> 'c mxUndoManager \<times> 's" where
  "um_undo_loop ops 0 m s = (m, s)"
| "um_undo_loop ops (Suc k) m s =
     (let (e, s) = edit_undo ops (history m ! k) s;
          m = m\<lparr>indexOfNextAdd := k, history := (history m)[k := e]\<rparr>
      in if isSignificant e then (um_fire (MgrUndo e) m, s) else um_undo_loop ops k m s)"

definition um_undo :: "('c, 's) edit_ops \<Rightarrow> 'c mxUndoManager \<Rightarrow> 's \<Rightarrow> 'c mxUndoManager \<times> 's" where
  "um_undo ops m s = um_undo_loop ops (indexOfNextAdd m) m s"

fun um_redo_loop ::
  "('c, 's) edit_ops \<Rightarrow> nat \<Rightarrow> 'c mxUndoManager \<Rightarrow> 's \<Rightarrow> 'c mxUndoManager \<times> 's" where
  "um_redo_loop ops 0 m s = (m, s)"
| "um_redo_loop ops (Suc r) m s =
     (let k = indexOfNextAdd m;
          (e, s) = edit_redo ops (history m ! k) s;
          m = m\<lparr>indexOfNextAdd := Suc k, history := (history m)[k := e]\<rparr>
      in if isSignificant e then (um_fire (MgrRedo e) m, s) else um_redo_loop ops r m s)"

text \<open>The loop runs while the index is below the length: its number of rounds is at most the
  difference, the first argument.\<close>

definition um_redo :: "('c, 's) edit_ops \<Rightarrow> 'c mxUndoManager \<Rightarrow> 's \<Rightarrow> 'c mxUndoManager \<times> 's" where
  "um_redo ops m s = um_redo_loop ops (length (history m) - indexOfNextAdd m) m s"

definition um_trim :: "'c mxUndoManager \<Rightarrow> 's \<Rightarrow> 'c mxUndoManager \<times> 's" where
  "um_trim m s =
     (if length (history m) > indexOfNextAdd m then
        (let edits = drop (indexOfNextAdd m) (history m)
         in (m\<lparr>history := take (indexOfNextAdd m) (history m)\<rparr>, fold edit_die edits s))
      else (m, s))"

definition undoableEditHappened ::
  "'c mxUndoableEdit \<Rightarrow> 'c mxUndoManager \<Rightarrow> 's \<Rightarrow> 'c mxUndoManager \<times> 's" where
  "undoableEditHappened e m s =
     (let (m, s) = um_trim m s;
          m = (if um_size m > 0 \<and> um_size m = int (length (history m))
               then m\<lparr>history := tl (history m)\<rparr> else m);
          m = m\<lparr>history := history m @ [e]\<rparr>;
          m = m\<lparr>indexOfNextAdd := length (history m)\<rparr>
      in (um_fire (MgrAdd e) m, s))"

lemma fold_edit_die [simp]: "fold edit_die es s = s"
  by (induction es) (simp_all add: edit_die_def)


subsection \<open>The contract of a change\<close>

text \<open>
  \<open>redo_ok\<close> and \<open>undo_ok\<close>: every change of an edit is applicable (\<open>ok\<close>) in the state in
  which the loop reaches it.
\<close>

fun redo_ok :: "('c \<Rightarrow> 's \<Rightarrow> bool) \<Rightarrow> ('c, 's) edit_ops \<Rightarrow> 'c list \<Rightarrow> 's \<Rightarrow> bool" where
  "redo_ok ok ops [] s \<longleftrightarrow> True"
| "redo_ok ok ops (c # cs) s \<longleftrightarrow>
     ok c s \<and> (let (c', s1) = redo_change ops c s in redo_ok ok ops cs (op_fire ops (EXECUTED c') s1))"

fun undo_ok :: "('c \<Rightarrow> 's \<Rightarrow> bool) \<Rightarrow> ('c, 's) edit_ops \<Rightarrow> 'c list \<Rightarrow> 's \<Rightarrow> bool" where
  "undo_ok ok ops [] s \<longleftrightarrow> True"
| "undo_ok ok ops (c # cs) s \<longleftrightarrow> undo_ok ok ops cs s \<and> ok c (snd (undo_changes ops cs s))"

text \<open>
  What a client promises of its changes: executing one twice gives back the change and, up to
  an equivalence \<open>same\<close> of states, the state; equivalent states are not told apart; events
  and notifications do not matter for \<open>same\<close>.
\<close>

locale reversible_changes =
  fixes ops :: "('c, 's) edit_ops"
    and exec :: "'c \<Rightarrow> 's \<Rightarrow> 'c \<times> 's"
    and ok :: "'c \<Rightarrow> 's \<Rightarrow> bool"
    and same :: "'s \<Rightarrow> 's \<Rightarrow> bool"
  assumes has_execute: "op_execute ops c = Some (exec c)"
    and same_refl: "same s s"
    and same_sym: "same s t \<Longrightarrow> same t s"
    and same_trans: "same s t \<Longrightarrow> same t u \<Longrightarrow> same s u"
    and exec_reverse: "ok c s \<Longrightarrow> ok (fst (exec c s)) (snd (exec c s)) \<and>
          fst (exec (fst (exec c s)) (snd (exec c s))) = c \<and>
          same (snd (exec (fst (exec c s)) (snd (exec c s)))) s"
    and exec_cong: "ok c s \<Longrightarrow> same s t \<Longrightarrow>
          ok c t \<and> fst (exec c t) = fst (exec c s) \<and> same (snd (exec c t)) (snd (exec c s))"
    and fire_same: "same (op_fire ops ev s) s"
    and notify_same: "same (op_notify ops e s) s"
begin

lemma undo_change_exec: "undo_change ops c s = exec c s"
  by (simp add: undo_change_def has_execute)

lemma redo_change_exec: "redo_change ops c s = exec c s"
  by (simp add: redo_change_def has_execute)

lemma same_fire: "same (op_fire ops ev s) t \<longleftrightarrow> same s t" "same s (op_fire ops ev t) \<longleftrightarrow> same s t"
  using fire_same same_trans same_sym by blast+

lemma same_notify: "same (op_notify ops e s) t \<longleftrightarrow> same s t" "same s (op_notify ops e t) \<longleftrightarrow> same s t"
  using notify_same same_trans same_sym by blast+

lemma redo_changes_cong:
  "redo_ok ok ops cs s \<Longrightarrow> same s t \<Longrightarrow>
   redo_ok ok ops cs t \<and> fst (redo_changes ops cs t) = fst (redo_changes ops cs s) \<and>
   same (snd (redo_changes ops cs t)) (snd (redo_changes ops cs s))"
proof (induction cs arbitrary: s t)
  case Nil
  then show ?case using same_sym by simp
next
  case (Cons c cs)
  from Cons.prems have c: "ok c s" by simp
  from exec_cong [OF c Cons.prems(2)]
  have c': "ok c t" "fst (exec c t) = fst (exec c s)" "same (snd (exec c t)) (snd (exec c s))" by auto
  let ?s = "op_fire ops (EXECUTED (fst (exec c s))) (snd (exec c s))"
  let ?t = "op_fire ops (EXECUTED (fst (exec c s))) (snd (exec c t))"
  have "redo_ok ok ops cs ?s"
    using Cons.prems(1) by (simp add: redo_change_exec split_beta)
  moreover have "same ?s ?t" using c'(3) same_sym by (simp add: same_fire)
  ultimately show ?case using Cons.IH [of ?s ?t] c'
    by (simp add: redo_change_exec split_beta Let_def)
qed

lemma undo_changes_cong:
  "undo_ok ok ops cs s \<Longrightarrow> same s t \<Longrightarrow>
   undo_ok ok ops cs t \<and> fst (undo_changes ops cs t) = fst (undo_changes ops cs s) \<and>
   same (snd (undo_changes ops cs t)) (snd (undo_changes ops cs s))"
proof (induction cs)
  case Nil
  then show ?case using same_sym by simp
next
  case (Cons c cs)
  then have IH: "undo_ok ok ops cs t" "fst (undo_changes ops cs t) = fst (undo_changes ops cs s)"
    "same (snd (undo_changes ops cs s)) (snd (undo_changes ops cs t))"
    and c: "ok c (snd (undo_changes ops cs s))" using same_sym by auto
  from exec_cong [OF c IH(3)] IH show ?case
    by (simp add: undo_change_exec split_beta Let_def same_fire)
qed

lemma undo_redone_changes:
  "redo_ok ok ops cs s \<Longrightarrow>
   undo_ok ok ops (fst (redo_changes ops cs s)) (snd (redo_changes ops cs s)) \<and>
   fst (undo_changes ops (fst (redo_changes ops cs s)) (snd (redo_changes ops cs s))) = cs \<and>
   same (snd (undo_changes ops (fst (redo_changes ops cs s)) (snd (redo_changes ops cs s)))) s"
proof (induction cs arbitrary: s)
  case Nil
  then show ?case by (simp add: same_refl)
next
  case (Cons c cs)
  let ?c = "fst (exec c s)"
  let ?s1 = "op_fire ops (EXECUTED ?c) (snd (exec c s))"
  let ?cs = "fst (redo_changes ops cs ?s1)" and ?s2 = "snd (redo_changes ops cs ?s1)"
  let ?u = "snd (undo_changes ops ?cs ?s2)"
  have c: "ok c s" and cs: "redo_ok ok ops cs ?s1"
    using Cons.prems by (simp_all add: redo_change_exec split_beta)
  from Cons.IH [OF cs] have IH: "undo_ok ok ops ?cs ?s2" "fst (undo_changes ops ?cs ?s2) = cs"
    and u: "same (snd (exec c s)) ?u" using same_sym by (simp_all add: same_fire)
  from exec_reverse [OF c] have r: "ok ?c (snd (exec c s))" "fst (exec ?c (snd (exec c s))) = c"
    "same (snd (exec ?c (snd (exec c s)))) s" by auto
  from exec_cong [OF r(1) u] r have "ok ?c ?u" "fst (exec ?c ?u) = c" "same (snd (exec ?c ?u)) s"
    using same_trans by auto
  note e = this
  have R: "redo_changes ops (c # cs) s = (?c # ?cs, ?s2)"
    by (simp add: redo_change_exec split_beta Let_def)
  have U: "undo_changes ops (?c # ?cs) ?s2 =
      (c # cs, op_fire ops (EXECUTED c) (snd (exec ?c ?u)))"
    using IH(2) e(2) by (simp add: undo_change_exec split_beta Let_def)
  have "undo_ok ok ops (?c # ?cs) ?s2" using IH(1) e(1) by simp
  then show ?case using e(3) unfolding R fst_conv snd_conv U by (simp only: same_fire simp_thms)
qed

lemma redo_undone_changes:
  "undo_ok ok ops cs s \<Longrightarrow>
   redo_ok ok ops (fst (undo_changes ops cs s)) (snd (undo_changes ops cs s)) \<and>
   fst (redo_changes ops (fst (undo_changes ops cs s)) (snd (undo_changes ops cs s))) = cs \<and>
   same (snd (redo_changes ops (fst (undo_changes ops cs s)) (snd (undo_changes ops cs s)))) s"
proof (induction cs)
  case Nil
  then show ?case by (simp add: same_refl)
next
  case (Cons c cs)
  let ?cs = "fst (undo_changes ops cs s)" and ?s1 = "snd (undo_changes ops cs s)"
  let ?c = "fst (exec c ?s1)"
  let ?s2 = "op_fire ops (EXECUTED ?c) (snd (exec c ?s1))"
  let ?s3 = "op_fire ops (EXECUTED c) (snd (exec ?c ?s2))"
  have c: "ok c ?s1" and cs: "undo_ok ok ops cs s" using Cons.prems by simp_all
  from Cons.IH [OF cs] have IH: "redo_ok ok ops ?cs ?s1" "fst (redo_changes ops ?cs ?s1) = cs"
    "same (snd (redo_changes ops ?cs ?s1)) s" by auto
  from exec_reverse [OF c] have r: "ok ?c (snd (exec c ?s1))"
    "fst (exec ?c (snd (exec c ?s1))) = c" "same (snd (exec ?c (snd (exec c ?s1)))) ?s1" by auto
  have "same (snd (exec c ?s1)) ?s2" by (simp add: same_fire same_refl)
  note cong = exec_cong [OF r(1) this]
  have at_s1: "same (snd (exec ?c ?s2)) ?s1" using same_trans [OF _ r(3)] cong by blast
  have e: "ok ?c ?s2" "fst (exec ?c ?s2) = c" using cong r(2) by simp_all
  have s3: "same ?s1 ?s3" unfolding same_fire by (rule same_sym [OF at_s1])
  note cong3 = redo_changes_cong [OF IH(1) s3]
  have "redo_ok ok ops ?cs ?s3" "fst (redo_changes ops ?cs ?s3) = cs"
    "same (snd (redo_changes ops ?cs ?s3)) s"
    using cong3 IH(2) same_trans [OF _ IH(3)] by (blast, simp, blast)
  note rest = this
  have U: "undo_changes ops (c # cs) s = (?c # ?cs, ?s2)"
    by (simp add: undo_change_exec split_beta Let_def)
  have R: "redo_changes ops (?c # ?cs) ?s2 =
      (c # cs, snd (redo_changes ops ?cs ?s3))"
    using e(2) rest(2) by (simp add: redo_change_exec split_beta Let_def)
  have "redo_ok ok ops (?c # ?cs) ?s2"
    using e rest by (simp add: redo_change_exec split_beta Let_def)
  then show ?case using rest(3) unfolding U fst_conv snd_conv R by (simp only: simp_thms)
qed

lemma edit_undo_redo:
  assumes "\<not> undone e" and "undo_ok ok ops (changes e) s"
  shows "changes (fst (edit_redo ops (fst (edit_undo ops e s)) (snd (edit_undo ops e s)))) = changes e"
    and "same (snd (edit_redo ops (fst (edit_undo ops e s)) (snd (edit_undo ops e s)))) s"
proof -
  let ?s = "op_fire ops START_EDIT s"
  let ?cs = "fst (undo_changes ops (changes e) ?s)" and ?s1 = "snd (undo_changes ops (changes e) ?s)"
  let ?s2 = "op_fire ops START_EDIT (snd (edit_undo ops e s))"
  have e: "changes (fst (edit_undo ops e s)) = ?cs" "\<not> redone (fst (edit_undo ops e s))"
    and s2: "same ?s1 ?s2"
    using assms(1)
    by (simp_all add: edit_undo_def split_beta Let_def same_fire same_notify same_refl)
  have "same s ?s" by (simp add: same_fire same_refl)
  with undo_changes_cong [OF assms(2)] have "undo_ok ok ops (changes e) ?s" by blast
  from redo_undone_changes [OF this]
  have r: "redo_ok ok ops ?cs ?s1" "fst (redo_changes ops ?cs ?s1) = changes e"
    "same (snd (redo_changes ops ?cs ?s1)) s" by (auto simp: same_fire)
  from redo_changes_cong [OF r(1) s2] r
  have "fst (redo_changes ops ?cs ?s2) = changes e" "same (snd (redo_changes ops ?cs ?s2)) s"
    using same_trans by auto
  with e show "changes (fst (edit_redo ops (fst (edit_undo ops e s)) (snd (edit_undo ops e s)))) = changes e"
    and "same (snd (edit_redo ops (fst (edit_undo ops e s)) (snd (edit_undo ops e s)))) s"
    by (simp_all add: edit_redo_def split_beta Let_def same_fire same_notify)
qed

text \<open>Undo and redo of the last command cancel out when the command is significant.\<close>

lemma manager_undo_redo:
  assumes "indexOfNextAdd m = Suc k" and "k < length (history m)"
    and "significant (history m ! k)" and "\<not> undone (history m ! k)"
    and "undo_ok ok ops (changes (history m ! k)) s"
  shows "same (snd (um_redo ops (fst (um_undo ops m s)) (snd (um_undo ops m s)))) s \<and>
         indexOfNextAdd (fst (um_redo ops (fst (um_undo ops m s)) (snd (um_undo ops m s)))) = Suc k \<and>
         map changes (history (fst (um_redo ops (fst (um_undo ops m s)) (snd (um_undo ops m s)))))
           = map changes (history m)"
proof -
  let ?e = "history m ! k"
  let ?e1 = "fst (edit_undo ops ?e s)" and ?s1 = "snd (edit_undo ops ?e s)"
  have sig: "significant ?e1" "significant (fst (edit_redo ops ?e1 ?s1))"
    using assms(3) by (simp_all add: edit_undo_def edit_redo_def split_beta Let_def)
  have u: "um_undo ops m s =
     (um_fire (MgrUndo ?e1) (m\<lparr>indexOfNextAdd := k, history := (history m)[k := ?e1]\<rparr>), ?s1)"
    using assms(1) sig by (simp add: um_undo_def split_beta Let_def isSignificant_def)
  obtain r where "length (history m) - k = Suc r" using assms(2) by (cases "length (history m) - k") auto
  with u assms(2) sig edit_undo_redo [OF assms(4,5)] show ?thesis
    by (simp add: um_redo_def um_fire_def split_beta Let_def isSignificant_def map_update
        list_update_same_conv)
qed

end

subsection \<open>Invariant of the manager\<close>

text \<open>
  The index stays within the history, the history within its bound, and the edits before the
  index are exactly those that are not undone.
\<close>

definition um_inv :: "'c mxUndoManager \<Rightarrow> bool" where
  "um_inv m \<longleftrightarrow>
     indexOfNextAdd m \<le> length (history m) \<and>
     (um_size m > 0 \<longrightarrow> int (length (history m)) \<le> um_size m) \<and>
     (\<forall>i < length (history m). undone (history m ! i) = (indexOfNextAdd m \<le> i)) \<and>
     (\<forall>i < length (history m). indexOfNextAdd m \<le> i \<longrightarrow> \<not> redone (history m ! i))"

lemma edit_undo_flags:
  "undone (fst (edit_undo ops e s))" "significant (fst (edit_undo ops e s)) = significant e"
  "\<not> undone e \<Longrightarrow> \<not> redone (fst (edit_undo ops e s))"
  by (simp_all add: edit_undo_def split_beta Let_def)

lemma edit_redo_flags:
  "significant (fst (edit_redo ops e s)) = significant e"
  "\<not> redone e \<Longrightarrow> \<not> undone (fst (edit_redo ops e s))"
  by (simp_all add: edit_redo_def split_beta Let_def)

lemma um_inv_fire [simp]: "um_inv (um_fire ev m) = um_inv m"
  by (simp add: um_inv_def um_fire_def)

lemma um_inv_undo_step:
  assumes "um_inv m" and "indexOfNextAdd m = Suc k"
  shows "um_inv (m\<lparr>indexOfNextAdd := k,
                   history := (history m)[k := fst (edit_undo ops (history m ! k) s)]\<rparr>)"
  using assms edit_undo_flags [where e = "history m ! k" and ops = ops and s = s]
  by (auto simp: um_inv_def nth_list_update)

lemma um_inv_redo_step:
  assumes "um_inv m" and "indexOfNextAdd m < length (history m)"
  shows "um_inv (m\<lparr>indexOfNextAdd := Suc (indexOfNextAdd m),
     history := (history m)[indexOfNextAdd m :=
       fst (edit_redo ops (history m ! indexOfNextAdd m) s)]\<rparr>)"
  using assms edit_redo_flags(2) [where e = "history m ! indexOfNextAdd m" and ops = ops and s = s]
  by (auto simp: um_inv_def nth_list_update)

lemma um_inv_undo_loop:
  "um_inv m \<Longrightarrow> indexOfNextAdd m = k \<Longrightarrow> um_inv (fst (um_undo_loop ops k m s))"
proof (induction k arbitrary: m s)
  case (Suc k)
  from Suc.IH [OF um_inv_undo_step [OF Suc.prems]] um_inv_undo_step [OF Suc.prems]
  show ?case by (auto simp: split_beta Let_def)
qed simp

lemma um_inv_redo_loop:
  "um_inv m \<Longrightarrow> indexOfNextAdd m + r = length (history m) \<Longrightarrow> um_inv (fst (um_redo_loop ops r m s))"
proof (induction r arbitrary: m s)
  case (Suc r)
  then have "indexOfNextAdd m < length (history m)" by simp
  from Suc.IH [OF um_inv_redo_step [OF Suc.prems(1) this]] um_inv_redo_step [OF Suc.prems(1) this]
    Suc.prems(2)
  show ?case by (auto simp: split_beta Let_def)
qed simp

lemma um_inv_undo: "um_inv m \<Longrightarrow> um_inv (fst (um_undo ops m s))"
  by (simp add: um_undo_def um_inv_undo_loop)

lemma um_inv_redo: "um_inv m \<Longrightarrow> um_inv (fst (um_redo ops m s))"
  unfolding um_redo_def by (rule um_inv_redo_loop) (auto simp: um_inv_def)

lemma um_inv_new [simp]: "um_inv (new_mxUndoManager sz)"
  by (simp add: new_mxUndoManager_def um_clear_def um_fire_def um_inv_def)

lemma um_inv_clear [simp]: "um_inv (um_clear m)"
  by (simp add: um_clear_def um_fire_def um_inv_def)

lemma um_trim_history:
  "history (fst (um_trim m s)) = take (indexOfNextAdd m) (history m)"
  "um_size (fst (um_trim m s)) = um_size m"
  by (auto simp: um_trim_def Let_def)

lemma edit_happened_history:
  "history (fst (undoableEditHappened e m s)) =
     (let h = take (indexOfNextAdd m) (history m)
      in (if um_size m > 0 \<and> um_size m = int (length h) then tl h else h) @ [e])"
  "indexOfNextAdd (fst (undoableEditHappened e m s)) =
     length (history (fst (undoableEditHappened e m s)))"
  "um_size (fst (undoableEditHappened e m s)) = um_size m"
  using um_trim_history [of m s]
  by (simp_all add: undoableEditHappened_def split_beta Let_def um_fire_def)

lemma in_set_tl: "x \<in> set (tl xs) \<Longrightarrow> x \<in> set xs"
  by (cases xs) auto

lemma um_inv_happened:
  assumes "um_inv m" and "\<not> undone e"
  shows "um_inv (fst (undoableEditHappened e m s))"
proof -
  let ?h = "take (indexOfNextAdd m) (history m)"
  have live: "\<forall>x \<in> set ?h. \<not> undone x"
    using assms(1) by (auto simp: um_inv_def in_set_conv_nth)
  then have live': "\<forall>x \<in> set (history (fst (undoableEditHappened e m s))). \<not> undone x"
    using assms(2) in_set_tl [of _ ?h] by (auto simp: edit_happened_history Let_def)
  have len: "um_size m > 0 \<Longrightarrow> int (length ?h) \<le> um_size m"
    using assms(1) by (auto simp: um_inv_def)
  then have "um_size m > 0 \<Longrightarrow>
      int (length (history (fst (undoableEditHappened e m s)))) \<le> um_size m"
    by (cases "?h") (auto simp: edit_happened_history Let_def)
  with live' show ?thesis by (simp add: um_inv_def edit_happened_history)
qed

lemmas um_inv_intros = um_inv_new um_inv_clear um_inv_undo um_inv_redo um_inv_happened

text \<open>Undo goes back over insignificant edits to the nearest significant one.  The edits on the way are undone from the last
  to the first.\<close>

fun undo_edits :: "('c, 's) edit_ops \<Rightarrow> 'c mxUndoableEdit list \<Rightarrow> 's \<Rightarrow> 'c mxUndoableEdit list \<times> 's" where
  "undo_edits ops [] s = ([], s)"
| "undo_edits ops (e # es) s =
     (let (es', s1) = undo_edits ops es s; (e', s2) = edit_undo ops e s1 in (e' # es', s2))"

lemma undo_edits_snoc:
  "undo_edits ops (es @ [e]) s =
     (fst (undo_edits ops es (snd (edit_undo ops e s))) @ [fst (edit_undo ops e s)],
      snd (undo_edits ops es (snd (edit_undo ops e s))))"
  by (induction es) (simp_all add: split_beta Let_def)

lemma undo_edits_undone:
  "length (fst (undo_edits ops es s)) = length es" "e \<in> set (fst (undo_edits ops es s)) \<Longrightarrow> undone e"
  by (induction es arbitrary: e) (auto simp: split_beta Let_def edit_undo_flags)

lemma um_undo_loop_edits:
  "k \<le> length (history m) \<Longrightarrow> indexOfNextAdd m = k \<Longrightarrow>
   \<exists>j \<le> k. (k > 0 \<longrightarrow> j < k) \<and> (\<forall>i. j < i \<and> i < k \<longrightarrow> \<not> significant (history m ! i)) \<and>
     (j > 0 \<longrightarrow> significant (history m ! j)) \<and>
     (let es = undo_edits ops (drop j (take k (history m))) s in
      um_undo_loop ops k m s =
        (m\<lparr>indexOfNextAdd := j, history := take j (history m) @ fst es @ drop k (history m),
           um_fired := um_fired m @ (if j < k \<and> significant (history m ! j) then [MgrUndo (hd (fst es))] else [])\<rparr>,
         snd es))"
proof (induction k arbitrary: m s)
  case (Suc k)
  let ?h = "history m"
  let ?e = "edit_undo ops (?h ! k) s"
  let ?m = "m\<lparr>indexOfNextAdd := k, history := ?h[k := fst ?e]\<rparr>"
  have sig: "isSignificant (fst ?e) = significant (?h ! k)" by (simp add: isSignificant_def edit_undo_flags)
  have k: "k < length ?h" using Suc.prems by simp
  then have upd: "?h[k := x] = take k ?h @ x # drop (Suc k) ?h" for x by (simp add: upd_conv_take_nth_drop)
  show ?case
  proof (cases "significant (?h ! k)")
    case True
    then show ?thesis using sig k
      by (intro exI [of _ k]) (auto simp: split_beta Let_def um_fire_def upd take_Suc_conv_app_nth)
  next
    case False
    have "k \<le> length (history ?m)" "indexOfNextAdd ?m = k" using Suc.prems by simp_all
    from Suc.IH [OF this, of "snd ?e"] obtain j where j: "j \<le> k" "k > 0 \<longrightarrow> j < k"
      "\<forall>i. j < i \<and> i < k \<longrightarrow> \<not> significant (history ?m ! i)" "j > 0 \<longrightarrow> significant (history ?m ! j)"
      and run: "let es = undo_edits ops (drop j (take k (history ?m))) (snd ?e) in
        um_undo_loop ops k ?m (snd ?e) =
          (?m\<lparr>indexOfNextAdd := j, history := take j (history ?m) @ fst es @ drop k (history ?m),
             um_fired := um_fired ?m @ (if j < k \<and> significant (history ?m ! j) then [MgrUndo (hd (fst es))] else [])\<rparr>,
           snd es)" by blast
    have old: "\<forall>i. j < i \<and> i < Suc k \<longrightarrow> \<not> significant (?h ! i)" "j > 0 \<longrightarrow> significant (?h ! j)"
      using j False by (auto simp: nth_list_update less_Suc_eq split: if_splits)
    have "undo_edits ops (drop j (take (Suc k) ?h)) s =
        (fst (undo_edits ops (drop j (take k ?h)) (snd ?e)) @ [fst ?e], snd (undo_edits ops (drop j (take k ?h)) (snd ?e)))"
      using k j(1) by (simp add: take_Suc_conv_app_nth undo_edits_snoc)
    moreover have "history ?m ! i = ?h ! i" if "i < k" for i using that by simp
    moreover have "take k (history ?m) = take k ?h" "take j (history ?m) = take j ?h"
      "drop k (history ?m) = fst ?e # drop (Suc k) ?h"
      using j(1) k by (simp_all add: upd min_def)
    moreover have "hd (fst (undo_edits ops (drop j (take k ?h)) (snd ?e)) @ [fst ?e]) =
        hd (fst (undo_edits ops (drop j (take k ?h)) (snd ?e)))" if "j < k"
      using that k undo_edits_undone(1) [of ops "drop j (take k ?h)" "snd ?e"] by (intro hd_append2) auto
    moreover have "\<not> significant (?h ! j)" if "j = k" using that False by simp
    moreover have "um_undo_loop ops (Suc k) m s = um_undo_loop ops k ?m (snd ?e)"
      using sig False by (simp add: split_beta Let_def)
    ultimately show ?thesis
      using run old j(1) unfolding Let_def by (intro exI [of _ j]) (cases "j < k"; simp del: um_undo_loop.simps)
  qed
qed auto

subsection \<open>Properties\<close>

text \<open>C15: The invariant of the undo manager (the index within the history, the history within its
  bound, the edits from the index on exactly the undone ones) holds of a new manager and is kept by
  clear, undo, redo and every edit that happens, after which there is something to undo and
  nothing to redo.\<close>

theorem undo_manager_invariant:
  assumes "um_inv m" and "\<not> undone e"
  shows "um_inv (new_mxUndoManager n) \<and> um_inv (um_clear m) \<and>
    um_inv (fst (um_undo ops m s)) \<and> um_inv (fst (um_redo ops m s)) \<and>
    um_inv (fst (undoableEditHappened e m s)) \<and>
    canUndo (fst (undoableEditHappened e m s)) \<and> \<not> canRedo (fst (undoableEditHappened e m s))"
  using assms
  by (simp add: um_inv_undo um_inv_redo um_inv_happened canUndo_def canRedo_def
      edit_happened_history Let_def)

theorem undo_manager_invariant_witness:
  "canUndo (fst (undoableEditHappened (new_mxUndoableEdit None :: nat mxUndoableEdit)
     (new_mxUndoManager (Some 1)) ()))"
  using undo_manager_invariant [of "new_mxUndoManager (Some 1)"
      "new_mxUndoableEdit None :: nat mxUndoableEdit" None undefined "()"]
  by (simp add: new_mxUndoableEdit_def)

text \<open>With a bound on its size the manager drops the oldest edit and no other: the history after
  an edit is the part before the index, without its first edit when it is full, and the edit.\<close>

theorem undo_history_bounded:
  assumes "um_inv m" and "um_size m > 0"
  shows "history (fst (undoableEditHappened e m s)) =
      (if um_size m = int (indexOfNextAdd m) then tl (take (indexOfNextAdd m) (history m))
       else take (indexOfNextAdd m) (history m)) @ [e] \<and>
    int (length (history (fst (undoableEditHappened e m s)))) \<le> um_size m"
  using assms by (auto simp: edit_happened_history Let_def um_inv_def min_def)

theorem undo_history_bounded_witness:
  "history (fst (undoableEditHappened (edit_add 2 (new_mxUndoableEdit None))
     (fst (undoableEditHappened (edit_add (1::nat) (new_mxUndoableEdit None)) (new_mxUndoManager (Some 1)) ())) ()))
   = [edit_add 2 (new_mxUndoableEdit None)]"
proof -
  let ?e = "edit_add (1::nat) (new_mxUndoableEdit None)"
  have "um_inv (fst (undoableEditHappened ?e (new_mxUndoManager (Some 1)) ()))"
    by (rule um_inv_happened) (simp_all add: edit_add_def new_mxUndoableEdit_def)
  from undo_history_bounded [OF this, of "edit_add 2 (new_mxUndoableEdit None)" "()"] show ?thesis
    by (simp add: edit_happened_history Let_def new_mxUndoManager_def um_clear_def um_fire_def)
qed

definition idle_ops :: "(nat, nat) edit_ops" where
  "idle_ops = \<lparr>op_execute = (\<lambda>c. Some (\<lambda>s. (c, s))), op_undo = (\<lambda>c. None), op_redo = (\<lambda>c. None),
     op_fire = (\<lambda>ev s. s), op_notify = (\<lambda>e s. s)\<rparr>"

text \<open>C16: Undo goes back to the nearest significant edit before the index, or to the start when there is none: it undoes
  that edit and the insignificant ones after it, each once and from the last to the first, which gives the new state; these are
  then the undone edits of the history, in their places, and nothing else of it changes.  The event is fired when a
  significant edit was undone.\<close>

theorem undo_stops_at_significant:
  assumes "um_inv m"
  shows "\<exists>j \<le> indexOfNextAdd m.
    (canUndo m \<longrightarrow> j < indexOfNextAdd m) \<and>
    (\<forall>i. j < i \<and> i < indexOfNextAdd m \<longrightarrow> \<not> significant (history m ! i)) \<and>
    (j > 0 \<longrightarrow> significant (history m ! j)) \<and>
    (let (es, s') = undo_edits ops (drop j (take (indexOfNextAdd m) (history m))) s in
     (\<forall>e \<in> set es. undone e) \<and>
     um_undo ops m s =
       (m\<lparr>indexOfNextAdd := j, history := take j (history m) @ es @ drop (indexOfNextAdd m) (history m),
          um_fired := um_fired m @
            (if j < indexOfNextAdd m \<and> significant (history m ! j) then [MgrUndo (hd es)] else [])\<rparr>, s'))"
proof -
  have "indexOfNextAdd m \<le> length (history m)" using assms by (simp add: um_inv_def)
  from um_undo_loop_edits [OF this refl, of ops s] show ?thesis
    by (auto simp: um_undo_def canUndo_def Let_def split_beta undo_edits_undone(2))
qed

definition tally_ops :: "(nat, nat list) edit_ops" where
  "tally_ops = \<lparr>op_execute = (\<lambda>c. Some (\<lambda>s. (c, s @ [c]))), op_undo = (\<lambda>c. None), op_redo = (\<lambda>c. None),
     op_fire = (\<lambda>ev s. s), op_notify = (\<lambda>e s. s)\<rparr>"

theorem undo_stops_at_significant_witness:
  "let e1 = edit_add 5 (new_mxUndoableEdit (Some True)); e2 = edit_add 7 (new_mxUndoableEdit (Some False));
       m = fst (undoableEditHappened e2 (fst (undoableEditHappened e1 (new_mxUndoManager None) ())) ())
   in snd (um_undo tally_ops m []) = [7, 5]"
proof -
  let ?e1 = "edit_add (5::nat) (new_mxUndoableEdit (Some True))" and ?e2 = "edit_add (7::nat) (new_mxUndoableEdit (Some False))"
  let ?m = "fst (undoableEditHappened ?e2 (fst (undoableEditHappened ?e1 (new_mxUndoManager None) ())) ())"
  have edits: "\<not> undone ?e1" "\<not> undone ?e2" "\<not> significant ?e2" by (simp_all add: edit_add_def new_mxUndoableEdit_def)
  then have inv: "um_inv ?m" by (intro um_inv_happened um_inv_new)
  have h: "history ?m = [?e1, ?e2]" "indexOfNextAdd ?m = 2"
    by (simp_all add: edit_happened_history Let_def new_mxUndoManager_def um_clear_def um_fire_def)
  obtain j where j: "j < 2" "j > 0 \<longrightarrow> significant ([?e1, ?e2] ! j)"
    and run: "snd (um_undo tally_ops ?m []) = snd (undo_edits tally_ops (drop j [?e1, ?e2]) [])"
    using undo_stops_at_significant [OF inv, of tally_ops "[]"] unfolding h canUndo_def by (auto simp: split_beta Let_def)
  have "j = 0" using j edits(3) by (cases j) auto
  with run show ?thesis
    by (simp add: Let_def split_beta edit_undo_def undo_change_def tally_ops_def edit_add_def new_mxUndoableEdit_def)
qed

end
