(* ===== verification/Model.thy ===== *)
theory Model
  imports Paths Undo
begin

text \<open>
  The graph model, model/mxGraphModel.js: its state, and the operations that read it.

  The state extends the store of cells with the fields of \<open>mxGraphModel\<close>.  The events the
  model fires are kept as a log (while events are enabled).  The \<open>changes\<close> of an edit are the
  change objects of the model; an edit holds them with the values they currently store.
\<close>

datatype change =
  RootChange (rc_root: "cref option") (rc_previous: "cref option")
| ChildChange (cc_parent: "cref option") (cc_previous: "cref option") (cc_child: "cref option")
    (cc_index: "int option") (cc_previousIndex: "int option")
| TerminalChange (tc_cell: "cref option") (tc_terminal: "cref option")
    (tc_previous: "cref option") (tc_source: bool)
| ValueChange (vc_cell: "cref option") (vc_value: "user_value option")
    (vc_previous: "user_value option")
| StyleChange (sc_cell: "cref option") (sc_style: "string option") (sc_previous: "string option")
| GeometryChange (gc_cell: "cref option") (gc_geometry: "nat option") (gc_previous: "nat option")
| CollapseChange (lc_cell: "cref option") (lc_collapsed: bool) (lc_previous: bool)
| VisibleChange (bc_cell: "cref option") (bc_visible: bool) (bc_previous: bool)
| CellAttributeChange (ac_cell: "cref option") (ac_attribute: string)
    (ac_value: "string option") (ac_previous: "string option")

type_synonym model_edit = "change mxUndoableEdit"

datatype model_event =
  EvBeginUpdate | EvStartEdit | EvEndEdit | EvEndUpdate model_edit
| EvExecute change | EvExecuted change | EvBeforeUndo model_edit | EvUndo model_edit
| EvChange model_edit | EvNotify model_edit

record mxGraphModel = heap +
  m_root :: "cref option"
  m_cells :: "(string \<times> cref) list option"
  maintainEdgeParent :: bool
  ignoreRelativeEdgeParent :: bool
  createIds :: bool
  m_prefix :: string
  m_postfix :: string
  nextId :: jsnum
  currentEdit :: model_edit
  updateLevel :: int
  endingUpdate :: bool
  m_eventsEnabled :: bool
  m_fired :: "model_event list"

definition m_fire :: "model_event \<Rightarrow> mxGraphModel \<Rightarrow> mxGraphModel" where
  "m_fire ev m = (if m_eventsEnabled m then m\<lparr>m_fired := m_fired m @ [ev]\<rparr> else m)"

definition isCreateIds :: "mxGraphModel \<Rightarrow> bool" where
  "isCreateIds m = createIds m"

definition setCreateIds :: "bool \<Rightarrow> mxGraphModel \<Rightarrow> mxGraphModel" where
  "setCreateIds v m = m\<lparr>createIds := v\<rparr>"

subsection \<open>Access to cells that may be null\<close>

definition getParent :: "cref option \<Rightarrow> 'a heap_scheme \<Rightarrow> cref option" where
  "getParent cell m = (case cell of None \<Rightarrow> None | Some c \<Rightarrow> cell_getParent c m)"

definition getChildCount :: "cref option \<Rightarrow> 'a heap_scheme \<Rightarrow> int" where
  "getChildCount cell m = (case cell of None \<Rightarrow> 0 | Some c \<Rightarrow> cell_getChildCount c m)"

definition getChildAt :: "cref option \<Rightarrow> int \<Rightarrow> 'a heap_scheme \<Rightarrow> cref option" where
  "getChildAt cell index m = (case cell of None \<Rightarrow> None | Some c \<Rightarrow> cell_getChildAt c index m)"

definition getChildren :: "cref option \<Rightarrow> 'a heap_scheme \<Rightarrow> cref list option" where
  "getChildren cell m = (case cell of None \<Rightarrow> None | Some c \<Rightarrow> c_children (cell_at m c))"

definition getTerminal :: "cref option \<Rightarrow> bool \<Rightarrow> 'a heap_scheme \<Rightarrow> cref option" where
  "getTerminal edge isSource m =
     (case edge of None \<Rightarrow> None | Some e \<Rightarrow> cell_getTerminal e isSource m)"

definition getEdgeCount :: "cref option \<Rightarrow> 'a heap_scheme \<Rightarrow> int" where
  "getEdgeCount cell m = (case cell of None \<Rightarrow> 0 | Some c \<Rightarrow> cell_getEdgeCount c m)"

definition getEdgeAt :: "cref option \<Rightarrow> int \<Rightarrow> 'a heap_scheme \<Rightarrow> cref option" where
  "getEdgeAt cell index m = (case cell of None \<Rightarrow> None | Some c \<Rightarrow> cell_getEdgeAt c index m)"

definition isVertex :: "cref option \<Rightarrow> 'a heap_scheme \<Rightarrow> bool" where
  "isVertex cell m = (case cell of None \<Rightarrow> False | Some c \<Rightarrow> cell_isVertex c m)"

definition isEdge :: "cref option \<Rightarrow> 'a heap_scheme \<Rightarrow> bool" where
  "isEdge cell m = (case cell of None \<Rightarrow> False | Some c \<Rightarrow> cell_isEdge c m)"

definition isConnectable :: "cref option \<Rightarrow> 'a heap_scheme \<Rightarrow> bool" where
  "isConnectable cell m = (case cell of None \<Rightarrow> False | Some c \<Rightarrow> cell_isConnectable c m)"

definition m_getValue :: "cref option \<Rightarrow> 'a heap_scheme \<Rightarrow> user_value option" where
  "m_getValue cell m = (case cell of None \<Rightarrow> None | Some c \<Rightarrow> cell_getValue c m)"

definition m_getGeometry :: "cref option \<Rightarrow> 'a heap_scheme \<Rightarrow> nat option" where
  "m_getGeometry cell m = (case cell of None \<Rightarrow> None | Some c \<Rightarrow> cell_getGeometry c m)"

definition m_getStyle :: "cref option \<Rightarrow> 'a heap_scheme \<Rightarrow> string option" where
  "m_getStyle cell m = (case cell of None \<Rightarrow> None | Some c \<Rightarrow> cell_getStyle c m)"

definition isCollapsed :: "cref option \<Rightarrow> 'a heap_scheme \<Rightarrow> bool" where
  "isCollapsed cell m = (case cell of None \<Rightarrow> False | Some c \<Rightarrow> cell_isCollapsed c m)"

definition isVisible :: "cref option \<Rightarrow> 'a heap_scheme \<Rightarrow> bool" where
  "isVisible cell m = (case cell of None \<Rightarrow> False | Some c \<Rightarrow> cell_isVisible c m)"

definition getCell :: "string option \<Rightarrow> mxGraphModel \<Rightarrow> cref option" where
  "getCell i m = (case (m_cells m, i) of (Some cs, Some s) \<Rightarrow> map_of cs s | _ \<Rightarrow> None)"

definition filterCells :: "cref option list option \<Rightarrow> (cref option \<Rightarrow> bool) \<Rightarrow> cref option list option"
  where "filterCells cs f = map_option (filter f) cs"

subsection \<open>The hierarchy\<close>

fun getRoot_loop :: "nat \<Rightarrow> 'a heap_scheme \<Rightarrow> cref \<Rightarrow> cref option" where
  "getRoot_loop n m cell =
     (case cell_getParent cell m of
        None \<Rightarrow> Some cell
      | Some p \<Rightarrow> (case n of 0 \<Rightarrow> None | Suc k \<Rightarrow> getRoot_loop k m p))"

declare getRoot_loop.simps [simp del]

text \<open>\<open>getRoot(cell)\<close>: outer \<open>None\<close> is divergence, the inner one \<open>null\<close>.\<close>

definition getRoot :: "cref option \<Rightarrow> mxGraphModel \<Rightarrow> cref option option" where
  "getRoot cell m =
     (case cell of
        None \<Rightarrow> Some (m_root m)
      | Some c \<Rightarrow> map_option Some (getRoot_loop (walk_fuel m) m c))"

definition isRoot :: "cref option \<Rightarrow> mxGraphModel \<Rightarrow> bool" where
  "isRoot cell m \<longleftrightarrow> cell \<noteq> None \<and> m_root m = cell"

definition isLayer :: "cref option \<Rightarrow> mxGraphModel \<Rightarrow> bool" where
  "isLayer cell m = isRoot (getParent cell m) m"

definition isAncestor :: "cref option \<Rightarrow> cref option \<Rightarrow> 'a heap_scheme \<Rightarrow> bool option" where
  "isAncestor parent child m =
     map_option (\<lambda>c. c = parent) (walk_up (walk_fuel m) m (\<lambda>c. Some c = parent) child)"

definition m_contains :: "cref option \<Rightarrow> mxGraphModel \<Rightarrow> bool option" where
  "m_contains cell m = isAncestor (m_root m) cell m"

text \<open>\<open>filterDescendants\<close>: preorder; the fuel bounds the depth.\<close>

fun collect :: "('a \<Rightarrow> 'b list option) \<Rightarrow> 'a list \<Rightarrow> 'b list option" where
  "collect f [] = Some []"
| "collect f (x # xs) =
     (case f x of None \<Rightarrow> None | Some ys \<Rightarrow> map_option (\<lambda>zs. ys @ zs) (collect f xs))"

fun descend :: "nat \<Rightarrow> (cref \<Rightarrow> bool) \<Rightarrow> 'a heap_scheme \<Rightarrow> cref \<Rightarrow> cref list option" where
  "descend 0 f m c = None"
| "descend (Suc n) f m c =
     map_option (\<lambda>ds. (if f c then [c] else []) @ ds) (collect (descend n f m) (children_of m c))"

definition filterDescendants ::
  "(cref option \<Rightarrow> bool) option \<Rightarrow> cref option \<Rightarrow> mxGraphModel \<Rightarrow> cref option list option" where
  "filterDescendants f parent m =
     (case (case parent of None \<Rightarrow> m_root m | Some p \<Rightarrow> Some p) of
        None \<Rightarrow> Some (if (case f of None \<Rightarrow> True | Some g \<Rightarrow> g None) then [None] else [])
      | Some p \<Rightarrow>
          map_option (map Some)
            (descend (walk_fuel m) (\<lambda>c. case f of None \<Rightarrow> True | Some g \<Rightarrow> g (Some c)) m p))"

definition getDescendants :: "cref option \<Rightarrow> mxGraphModel \<Rightarrow> cref option list option" where
  "getDescendants parent m = filterDescendants None parent m"

definition getChildCells :: "cref option \<Rightarrow> bool \<Rightarrow> bool \<Rightarrow> 'a heap_scheme \<Rightarrow> cref list" where
  "getChildCells parent vertices edges m =
     filter (\<lambda>child. (\<not> edges \<and> \<not> vertices) \<or> (edges \<and> isEdge (Some child) m)
                    \<or> (vertices \<and> isVertex (Some child) m))
       (case parent of None \<Rightarrow> [] | Some p \<Rightarrow> children_of m p)"

definition getChildVertices :: "cref option \<Rightarrow> 'a heap_scheme \<Rightarrow> cref list" where
  "getChildVertices parent m = getChildCells parent True False m"

definition getChildEdges :: "cref option \<Rightarrow> 'a heap_scheme \<Rightarrow> cref list" where
  "getChildEdges parent m = getChildCells parent False True m"

text \<open>A dictionary of cells answers by identity, as the list of the references put into it.\<close>

fun topmost_loop :: "'a heap_scheme \<Rightarrow> cref list \<Rightarrow> cref list \<Rightarrow> cref list option" where
  "topmost_loop m dict [] = Some []"
| "topmost_loop m dict (cell # cs) =
     (case walk_up (walk_fuel m) m (\<lambda>p. p \<in> set dict) (cell_getParent cell m) of
        None \<Rightarrow> None
      | Some hit \<Rightarrow>
          map_option (\<lambda>tmp. if hit = None then cell # tmp else tmp) (topmost_loop m dict cs))"

definition getTopmostCells :: "cref list \<Rightarrow> 'a heap_scheme \<Rightarrow> cref list option" where
  "getTopmostCells cs m = topmost_loop m cs cs"

fun parents_loop :: "'a heap_scheme \<Rightarrow> cref list \<Rightarrow> cref list \<Rightarrow> cref list" where
  "parents_loop m parents [] = parents"
| "parents_loop m parents (c # cs) =
     (case cell_getParent c m of
        None \<Rightarrow> parents_loop m parents cs
      | Some p \<Rightarrow> parents_loop m (if p \<in> set parents then parents else parents @ [p]) cs)"

definition getParents :: "cref list option \<Rightarrow> 'a heap_scheme \<Rightarrow> cref list" where
  "getParents cs m = (case cs of None \<Rightarrow> [] | Some xs \<Rightarrow> parents_loop m [] xs)"

subsection \<open>Origins and common ancestors\<close>

fun getOrigin_loop :: "nat \<Rightarrow> cref option \<Rightarrow> 'a heap_scheme \<Rightarrow> mxPoint option" where
  "getOrigin_loop n None m = Some (new_mxPoint None None)"
| "getOrigin_loop 0 (Some c) m = None"
| "getOrigin_loop (Suc n) (Some c) m =
     map_option
       (\<lambda>result.
          if \<not> cell_isEdge c m then
            (case cell_getGeometry c m of
               None \<Rightarrow> result
             | Some g \<Rightarrow> result\<lparr>px := px result + px (geo_at m g), py := py result + py (geo_at m g)\<rparr>)
          else result)
       (getOrigin_loop n (cell_getParent c m) m)"

definition getOrigin :: "cref option \<Rightarrow> 'a heap_scheme \<Rightarrow> mxPoint option" where
  "getOrigin cell m = getOrigin_loop (walk_fuel m) cell m"

text \<open>
  \<open>null + '.'\<close> in the last round, after the path of the root, is the string \<open>null.\<close>.
\<close>

fun nca_loop :: "nat \<Rightarrow> 'a heap_scheme \<Rightarrow> string \<Rightarrow> string option \<Rightarrow> cref option \<Rightarrow> cref option option"
where
  "nca_loop n m path current None = Some None"
| "nca_loop 0 m path current (Some cell) = None"
| "nca_loop (Suc n) m path current (Some cell) =
     (let parent = cell_getParent cell m;
          cur = (case current of None \<Rightarrow> ''null'' | Some s \<Rightarrow> s)
      in if js_str_indexOf path (cur @ ''.'') = 0 \<and> parent \<noteq> None then Some (Some cell)
         else nca_loop n m path (getParentPath current) parent)"

definition getNearestCommonAncestor ::
  "cref option \<Rightarrow> cref option \<Rightarrow> 'a heap_scheme \<Rightarrow> cref option option" where
  "getNearestCommonAncestor cell1 cell2 m =
     (if cell1 \<noteq> None \<and> cell2 \<noteq> None then
        (case path_create cell2 m of
           None \<Rightarrow> None
         | Some path \<Rightarrow>
             (if length path > 0 then
                (case path_create cell1 m of
                   None \<Rightarrow> None
                 | Some current \<Rightarrow>
                     (let (cell, current, path) =
                        (if length path < length current then (cell2, path, current)
                         else (cell1, current, path))
                      in nca_loop (walk_fuel m) m path (Some current) cell))
              else Some None))
      else Some None)"

subsection \<open>Edges\<close>

text \<open>The list of edges of a cell that may be null.\<close>

definition edge_list :: "cref option \<Rightarrow> 'a heap_scheme \<Rightarrow> cref list" where
  "edge_list cell m = (case cell of None \<Rightarrow> [] | Some c \<Rightarrow> edges_of m c)"

definition getDirectedEdgeCount ::
  "cref option \<Rightarrow> bool \<Rightarrow> cref option \<Rightarrow> 'a heap_scheme \<Rightarrow> int" where
  "getDirectedEdgeCount cell outgoing ignoredEdge m =
     int (length (filter (\<lambda>e. Some e \<noteq> ignoredEdge \<and> cell_getTerminal e outgoing m = cell)
       (edge_list cell m)))"

definition getEdges ::
  "cref option \<Rightarrow> bool option \<Rightarrow> bool option \<Rightarrow> bool option \<Rightarrow> 'a heap_scheme \<Rightarrow> cref list" where
  "getEdges cell incoming outgoing includeLoops m =
     (let incoming = (case incoming of None \<Rightarrow> True | Some b \<Rightarrow> b);
          outgoing = (case outgoing of None \<Rightarrow> True | Some b \<Rightarrow> b);
          includeLoops = (case includeLoops of None \<Rightarrow> True | Some b \<Rightarrow> b)
      in filter (\<lambda>e. let source = cell_getTerminal e True m; target = cell_getTerminal e False m
                     in (includeLoops \<and> source = target) \<or>
                        (source \<noteq> target \<and> ((incoming \<and> target = cell) \<or> (outgoing \<and> source = cell))))
           (edge_list cell m))"

definition getConnections :: "cref option \<Rightarrow> 'a heap_scheme \<Rightarrow> cref list" where
  "getConnections cell m = getEdges cell (Some True) (Some True) (Some False) m"

definition getIncomingEdges :: "cref option \<Rightarrow> 'a heap_scheme \<Rightarrow> cref list" where
  "getIncomingEdges cell m = getEdges cell (Some True) (Some False) (Some False) m"

definition getOutgoingEdges :: "cref option \<Rightarrow> 'a heap_scheme \<Rightarrow> cref list" where
  "getOutgoingEdges cell m = getEdges cell (Some False) (Some True) (Some False) m"

definition getEdgesBetween :: "cref option \<Rightarrow> cref option \<Rightarrow> bool option \<Rightarrow> 'a heap_scheme \<Rightarrow> cref list"
  where
  "getEdgesBetween source target directed m =
     (let directed = (case directed of None \<Rightarrow> False | Some b \<Rightarrow> b);
          tmp1 = getEdgeCount source m; tmp2 = getEdgeCount target m;
          terminal = (if tmp2 < tmp1 then target else source)
      in filter (\<lambda>e. let src = cell_getTerminal e True m; trg = cell_getTerminal e False m;
                         directedMatch = (src = source \<and> trg = target);
                         oppositeMatch = (trg = source \<and> src = target)
                     in directedMatch \<or> (\<not> directed \<and> oppositeMatch))
           (edge_list terminal m))"

fun opposites_loop :: "cref option \<Rightarrow> bool \<Rightarrow> bool \<Rightarrow> 'a heap_scheme \<Rightarrow> cref list \<Rightarrow> cref list" where
  "opposites_loop terminal sources targets m [] = []"
| "opposites_loop terminal sources targets m (e # es) =
     (let source = cell_getTerminal e True m; target = cell_getTerminal e False m
      in (if source = terminal \<and> target \<noteq> None \<and> target \<noteq> terminal \<and> targets then [the target]
          else if target = terminal \<and> source \<noteq> None \<and> source \<noteq> terminal \<and> sources then [the source]
          else [])
         @ opposites_loop terminal sources targets m es)"

definition getOpposites ::
  "cref list option \<Rightarrow> cref option \<Rightarrow> bool option \<Rightarrow> bool option \<Rightarrow> 'a heap_scheme \<Rightarrow> cref list" where
  "getOpposites edges terminal sources targets m =
     (let sources = (case sources of None \<Rightarrow> True | Some b \<Rightarrow> b);
          targets = (case targets of None \<Rightarrow> True | Some b \<Rightarrow> b)
      in case edges of None \<Rightarrow> [] | Some es \<Rightarrow> opposites_loop terminal sources targets m es)"

end
