(* ===== verification/ModelQueries.thy ===== *)
theory ModelQueries
  imports Model
begin

text \<open>
  What the reading operations of the graph model compute on a well-formed store: ancestors,
  descendants, topmost cells, origins, nearest common ancestors and edges.
\<close>

lemma walk_up_None [simp]: "walk_up n m stop None = Some None"
  by (cases n) simp_all

lemma ancestors_tl:
  assumes "heap_wf m"
  shows "tl (ancestors m c) = (case cell_getParent c m of None \<Rightarrow> [] | Some p \<Rightarrow> ancestors m p)"
  by (subst ancestors_parent [OF assms]) simp

lemma ancestors_hd [simp]: "heap_wf m \<Longrightarrow> hd (ancestors m c) = c"
  by (subst ancestors_parent) simp_all

lemma ancestors_not_Nil [simp]: "heap_wf m \<Longrightarrow> ancestors m c \<noteq> []"
  by (subst ancestors_parent) simp_all

lemma ancestors_length: "heap_wf m \<Longrightarrow> length (ancestors m c) \<le> walk_fuel m"
proof -
  assume wf: "heap_wf m"
  have "distinct (tl (ancestors m c))" using ancestors_distinct [OF wf] by (simp add: distinct_tl)
  then have "length (tl (ancestors m c)) = card (set (tl (ancestors m c)))" by (simp add: distinct_card)
  also have "\<dots> \<le> card {..<ncells m}"
    using up_list_alloc [OF wf ancestors_up_list [OF wf]] by (intro card_mono) auto
  finally show ?thesis by (simp add: walk_fuel_def)
qed

lemma ancestors_trans:
  "heap_wf m \<Longrightarrow> x \<in> set (ancestors m y) \<Longrightarrow> y \<in> set (ancestors m z) \<Longrightarrow> x \<in> set (ancestors m z)"
  by (auto simp: ancestors_rel)

lemma ancestors_antisym:
  assumes "heap_wf m" "x \<in> set (ancestors m y)" "y \<in> set (ancestors m x)"
  shows "x = y"
proof (rule ccontr)
  assume "x \<noteq> y"
  with assms have "(x, y) \<in> (parent_rel m)\<^sup>+" "(y, x) \<in> (parent_rel m)\<^sup>+"
    by (auto simp: ancestors_rel rtrancl_eq_or_trancl)
  then have "(x, x) \<in> (parent_rel m)\<^sup>+" by (rule trancl_trans)
  with assms(1) wf_acyclic show False by (auto simp: heap_wf_def acyclic_def)
qed

lemma ancestors_linear:
  assumes "heap_wf m"
  shows "x \<in> set (ancestors m z) \<Longrightarrow> y \<in> set (ancestors m z) \<Longrightarrow>
    x \<in> set (ancestors m y) \<or> y \<in> set (ancestors m x)"
  using assms
proof (induction z rule: heap_wf_induct)
  case (up z)
  show ?case
  proof (cases "x = z \<or> y = z")
    case True
    with up.prems show ?thesis by auto
  next
    case False
    with up.prems obtain p where "cell_getParent z m = Some p"
      "x \<in> set (ancestors m p)" "y \<in> set (ancestors m p)"
      using ancestors_parent [OF assms, of z] by (auto split: option.splits)
    with up.IH show ?thesis by blast
  qed
qed

text \<open>\<open>isAncestor\<close> and \<open>getRoot\<close>.\<close>

lemma find_eq [simp]: "List.find (\<lambda>c. c = p) l = (if p \<in> set l then Some p else None)"
  by (induction l) auto

lemma find_False [simp]: "List.find (\<lambda>c. False) l = None"
  by (induction l) auto

lemma isAncestor_wf:
  assumes "heap_wf m"
  shows "isAncestor (Some p) (Some c) m = Some (p \<in> set (ancestors m c))"
    and "isAncestor None (Some c) m = Some True"
    and "isAncestor q None m = Some (q = None)"
  by (auto simp: isAncestor_def walk_up_wf [OF assms])

lemma getRoot_loop_eq:
  "up_list (Suc n) m (Some c) = Some l \<Longrightarrow> getRoot_loop n m c = Some (last l)"
proof (induction n arbitrary: c l)
  case 0
  then show ?case by (cases "cell_getParent c m") (auto simp: getRoot_loop.simps)
next
  case (Suc n)
  from up_list_SomeE [OF Suc.prems] obtain l' where l: "l = c # l'"
    "up_list (Suc n) m (cell_getParent c m) = Some l'" by (metis Suc_inject)
  show ?case
  proof (cases "cell_getParent c m")
    case None
    with l show ?thesis by (simp add: getRoot_loop.simps)
  next
    case (Some p)
    with l(2) have up: "up_list (Suc n) m (Some p) = Some l'" by simp
    then have "l' \<noteq> []" by auto
    with Suc.IH [OF up] Some l(1) show ?thesis by (simp add: getRoot_loop.simps)
  qed
qed

lemma getRoot_wf:
  assumes "heap_wf m"
  shows "getRoot (Some c) m = Some (Some (last (ancestors m c)))"
  using getRoot_loop_eq [OF up_list_mono [OF ancestors_up_list [OF assms]], of "walk_fuel m" c]
  by (simp add: getRoot_def)

text \<open>Descendants.\<close>

lemma distinct_concat_map:
  "distinct xs \<Longrightarrow> (\<And>x. x \<in> set xs \<Longrightarrow> distinct (f x)) \<Longrightarrow>
   (\<And>x y. x \<in> set xs \<Longrightarrow> y \<in> set xs \<Longrightarrow> x \<noteq> y \<Longrightarrow> set (f x) \<inter> set (f y) = {}) \<Longrightarrow>
   distinct (concat (map f xs))"
proof (induction xs)
  case (Cons x xs)
  have "set (f x) \<inter> set (concat (map f xs)) = {}"
    using Cons.prems(1,3) by fastforce
  with Cons show ?case by simp
qed simp

lemma collect_Some_iff:
  "collect f xs = Some ys \<longleftrightarrow> (\<forall>x \<in> set xs. f x \<noteq> None) \<and> ys = concat (map (\<lambda>x. the (f x)) xs)"
  by (induction xs arbitrary: ys) (auto split: option.splits)

lemma children_getParent:
  "tree_inv m \<Longrightarrow> d \<in> set (children_of m c) \<longleftrightarrow> cell_getParent d m = Some c"
  using tree_invD(2) by (simp add: cell_getParent_def)

lemma descend_total:
  assumes "heap_wf m" and "tree_inv m"
  shows "n + length (ancestors m c) \<ge> ncells m + 2 \<Longrightarrow> descend n f m c \<noteq> None"
proof (induction n arbitrary: c)
  case 0
  with ancestors_length [OF assms(1), of c] show ?case by (simp add: walk_fuel_def)
next
  case (Suc n)
  have "descend n f m d \<noteq> None" if "d \<in> set (children_of m c)" for d
  proof -
    from that have "cell_getParent d m = Some c" by (simp add: children_getParent [OF assms(2)])
    then have "length (ancestors m d) = Suc (length (ancestors m c))"
      by (simp add: ancestors_parent [OF assms(1), of d])
    with Suc.prems Suc.IH [of d] show ?thesis by simp
  qed
  then have "\<exists>ds. collect (descend n f m) (children_of m c) = Some ds"
    by (simp add: collect_Some_iff)
  then show ?case by auto
qed

lemma below_iff:
  assumes "heap_wf m" and "tree_inv m"
  shows "c \<in> set (ancestors m d) \<longleftrightarrow>
     d = c \<or> (\<exists>e \<in> set (children_of m c). e \<in> set (ancestors m d))"
proof
  show "c \<in> set (ancestors m d) \<Longrightarrow> d = c \<or> (\<exists>e \<in> set (children_of m c). e \<in> set (ancestors m d))"
    using assms(1)
  proof (induction d rule: heap_wf_induct)
    case (up d)
    show ?case
    proof (cases "d = c")
      case False
      with up.prems obtain p where p: "cell_getParent d m = Some p" "c \<in> set (ancestors m p)"
        using ancestors_parent [OF assms(1), of d] by (auto split: option.splits)
      with up.IH [OF p] children_getParent [OF assms(2)] have
        "d \<in> set (children_of m c) \<or> (\<exists>e \<in> set (children_of m c). e \<in> set (ancestors m p))" by auto
      moreover have "e \<in> set (ancestors m p) \<Longrightarrow> e \<in> set (ancestors m d)" for e
        using p by (simp add: ancestors_parent [OF assms(1), of d])
      ultimately show ?thesis using assms(1) ancestors_self by blast
    qed simp
  qed
next
  assume "d = c \<or> (\<exists>e \<in> set (children_of m c). e \<in> set (ancestors m d))"
  moreover have "c \<in> set (ancestors m e)" if "e \<in> set (children_of m c)" for e
    using that assms(1) by (simp add: children_getParent [OF assms(2)] ancestors_parent [OF assms(1), of e])
  ultimately show "c \<in> set (ancestors m d)"
    using assms(1) ancestors_trans ancestors_self by blast
qed

lemma siblings_disjoint:
  assumes "heap_wf m" and "tree_inv m" and "c1 \<in> set (children_of m c)" "c2 \<in> set (children_of m c)"
    and "c1 \<in> set (ancestors m d)" "c2 \<in> set (ancestors m d)"
  shows "c1 = c2"
proof (rule ccontr)
  assume "c1 \<noteq> c2"
  have up: "cell_getParent c1 m = Some c" "cell_getParent c2 m = Some c"
    using assms by (simp_all add: children_getParent)
  have no: False if "x \<in> set (ancestors m y)" "x \<noteq> y" "cell_getParent x m = Some c"
    "cell_getParent y m = Some c" for x y
  proof -
    have "x \<in> set (ancestors m c)" using that ancestors_parent [OF assms(1), of y] by simp
    moreover have "c \<in> set (ancestors m x)"
      using that assms(1) by (simp add: ancestors_parent [OF assms(1), of x])
    ultimately have "x = c" using ancestors_antisym [OF assms(1)] by blast
    with that(3) have "c # ancestors m c = ancestors m c"
      using ancestors_parent [OF assms(1), of x] by simp
    then show False by (metis not_Cons_self2)
  qed
  from ancestors_linear [OF assms(1,5,6)] no up \<open>c1 \<noteq> c2\<close> show False by metis
qed

lemma descend_spec:
  assumes "heap_wf m" and "tree_inv m"
  shows "descend n f m c = Some ds \<Longrightarrow>
     distinct ds \<and> set ds = {d. c \<in> set (ancestors m d) \<and> f d}"
proof (induction n arbitrary: c ds)
  case (Suc n)
  let ?sub = "\<lambda>x. the (descend n f m x)"
  from Suc.prems obtain es where es: "collect (descend n f m) (children_of m c) = Some es"
    and ds: "ds = (if f c then [c] else []) @ es" by auto
  from es have cs: "\<forall>x \<in> set (children_of m c). descend n f m x \<noteq> None"
    and es: "es = concat (map ?sub (children_of m c))" by (simp_all add: collect_Some_iff)
  have sub: "distinct (?sub x)" "set (?sub x) = {d. x \<in> set (ancestors m d) \<and> f d}"
    if "x \<in> set (children_of m c)" for x
  proof -
    from cs that obtain l where "descend n f m x = Some l" by auto
    with Suc.IH [OF this] show "distinct (?sub x)" "set (?sub x) = {d. x \<in> set (ancestors m d) \<and> f d}"
      by simp_all
  qed
  have "set es = {d. (\<exists>e \<in> set (children_of m c). e \<in> set (ancestors m d)) \<and> f d}"
    using sub(2) by (auto simp: es)
  moreover have noc: "\<not> (\<exists>e \<in> set (children_of m c). e \<in> set (ancestors m c))"
  proof
    assume "\<exists>e \<in> set (children_of m c). e \<in> set (ancestors m c)"
    then obtain e where e: "cell_getParent e m = Some c" "e \<in> set (ancestors m c)"
      using children_getParent [OF assms(2)] by blast
    have up: "ancestors m e = e # ancestors m c"
      using e(1) by (simp add: ancestors_parent [OF assms(1), of e])
    then have "c \<in> set (ancestors m e)" using assms(1) by simp
    with e(2) ancestors_antisym [OF assms(1)] have "e = c" by blast
    with up show False by (metis not_Cons_self2)
  qed
  ultimately have "set ds = {d. (d = c \<or> (\<exists>e \<in> set (children_of m c). e \<in> set (ancestors m d))) \<and> f d}"
    by (auto simp: ds)
  also have "\<dots> = {d. c \<in> set (ancestors m d) \<and> f d}"
    by (rule Collect_cong) (rule conj_cong [OF below_iff [OF assms, symmetric] refl])
  finally have set: "set ds = {d. c \<in> set (ancestors m d) \<and> f d}" .
  have "distinct es"
  proof -
    have disj: "set (?sub x) \<inter> set (?sub y) = {}"
      if "x \<in> set (children_of m c)" "y \<in> set (children_of m c)" "x \<noteq> y" for x y
      using sub(2) [OF that(1)] sub(2) [OF that(2)] siblings_disjoint [OF assms that(1,2)] that(3) by blast
    show ?thesis unfolding es
      by (rule distinct_concat_map [OF tree_invD(1) [OF assms(2)]]) (erule sub(1), erule (2) disj)
  qed
  moreover have "c \<notin> set es"
    using sub(2) noc by (auto simp: es)
  ultimately show ?case using set by (simp add: ds)
qed simp


text \<open>The first ancestor, from a cell upwards, that satisfies a condition.\<close>

lemma find_ancestor_iff:
  assumes "heap_wf m"
  shows "List.find Q (ancestors m c) = Some a \<longleftrightarrow>
     a \<in> set (ancestors m c) \<and> Q a \<and> (\<forall>x \<in> set (ancestors m c). Q x \<longrightarrow> x \<in> set (ancestors m a))"
  using assms
proof (induction c rule: heap_wf_induct)
  case (up c)
  show ?case
  proof (cases "Q c")
    case True
    have "c \<in> set (ancestors m a) \<Longrightarrow> a \<in> set (ancestors m c) \<Longrightarrow> a = c"
      using ancestors_antisym [OF assms] by blast
    moreover have "List.find Q (ancestors m c) = Some c"
      using True by (simp add: ancestors_parent [OF assms, of c])
    ultimately show ?thesis using True ancestors_self [OF assms, of c] by auto
  next
    case False
    show ?thesis
    proof (cases "cell_getParent c m")
      case None
      with False show ?thesis by (auto simp: ancestors_parent [OF assms, of c])
    next
      case (Some p)
      with False up.IH [OF Some] show ?thesis
        by (auto simp: ancestors_parent [OF assms, of c])
    qed
  qed
qed

lemma find_None_iff_ball: "List.find Q l = None \<longleftrightarrow> (\<forall>x \<in> set l. \<not> Q x)"
  by (induction l) auto

lemma common_ancestor_sym:
  assumes "heap_wf m"
  shows "List.find (\<lambda>a. a \<in> set (ancestors m d) \<and> P a) (ancestors m c) =
         List.find (\<lambda>a. a \<in> set (ancestors m c) \<and> P a) (ancestors m d)"
proof (cases "List.find (\<lambda>a. a \<in> set (ancestors m d) \<and> P a) (ancestors m c)")
  case None
  then have "List.find (\<lambda>a. a \<in> set (ancestors m c) \<and> P a) (ancestors m d) = None"
    by (auto simp: find_None_iff_ball)
  with None show ?thesis by simp
next
  case (Some a)
  then have "List.find (\<lambda>a. a \<in> set (ancestors m c) \<and> P a) (ancestors m d) = Some a"
    unfolding find_ancestor_iff [OF assms] by blast
  with Some show ?thesis by simp
qed

lemma last_ancestors_parent:
  "heap_wf m \<Longrightarrow> cell_getParent c m = Some p \<Longrightarrow> last (ancestors m c) = last (ancestors m p)"
  by (simp add: ancestors_parent [of m c])

text \<open>Below one root, an index path extends another exactly below the other cell.\<close>

lemma index_path_prefix:
  assumes "heap_wf m" and "tree_inv m" and "last (ancestors m a) = last (ancestors m d)"
  shows "(\<exists>r. index_path m d = index_path m a @ r) \<longleftrightarrow> a \<in> set (ancestors m d)"
  using assms(1) assms(3)
proof (induction d rule: heap_wf_induct)
  case (up d)
  show ?case
  proof (cases "cell_getParent d m")
    case None
    then have "index_path m d = []" "ancestors m d = [d]"
      by (simp_all add: index_path_parent [OF assms(1), of d] ancestors_parent [OF assms(1), of d])
    moreover have "index_path m a = [] \<Longrightarrow> a = d"
      using index_path_inject [OF assms(1,2) up.prems] \<open>index_path m d = []\<close> by simp
    ultimately show ?thesis by auto
  next
    case (Some p)
    let ?k = "nat (cell_getIndex p d m)"
    have d: "index_path m d = index_path m p @ [?k]" "ancestors m d = d # ancestors m p"
      using Some by (simp_all add: index_path_parent [OF assms(1), of d] ancestors_parent [OF assms(1), of d])
    from up.IH [OF Some] up.prems last_ancestors_parent [OF assms(1) Some]
    have IH: "(\<exists>r. index_path m p = index_path m a @ r) \<longleftrightarrow> a \<in> set (ancestors m p)" by simp
    have "(\<exists>r. index_path m d = index_path m a @ r) \<longleftrightarrow>
        index_path m a = index_path m d \<or> (\<exists>r. index_path m p = index_path m a @ r)"
    proof
      assume "\<exists>r. index_path m d = index_path m a @ r"
      then obtain r where "index_path m p @ [?k] = index_path m a @ r" using d by auto
      then show "index_path m a = index_path m d \<or> (\<exists>r. index_path m p = index_path m a @ r)"
        using d(1) by (cases r rule: rev_cases) auto
    qed (auto simp: d(1))
    also have "\<dots> \<longleftrightarrow> a = d \<or> a \<in> set (ancestors m p)"
      using IH index_path_inject [OF assms(1,2) up.prems] by auto
    finally show ?thesis using d(2) by auto
  qed
qed

lemma dotted_prefix:
  assumes "js \<noteq> []"
  shows "js_starts (dotted js @ ''.'') (dotted ks) \<longleftrightarrow> (\<exists>r. r \<noteq> [] \<and> ks = js @ r)"
proof
  assume "js_starts (dotted js @ ''.'') (dotted ks)"
  then obtain r where r: "dotted ks = dotted js @ CHR ''.'' # r"
    by (metis append.assoc append_Cons append_Nil append_take_drop_id js_starts_def)
  then have "ks \<noteq> []" by auto
  then have "map nat_string ks = js_split CHR ''.'' (dotted js) @ js_split CHR ''.'' r"
    using r js_split_sep_append dotted_tokens by metis
  also have "\<dots> = map nat_string js @ js_split CHR ''.'' r" by (simp only: dotted_tokens [OF assms])
  finally obtain r' where r': "ks = js @ r'" "map nat_string r' = js_split CHR ''.'' r"
    by (auto simp: map_eq_append_conv inj_def inj_map_eq_map simp del: nat_string.simps)
  with js_split_not_Nil have "r' \<noteq> []" by (metis list.map_disc_iff)
  with r' show "\<exists>r. r \<noteq> [] \<and> ks = js @ r" by blast
next
  assume "\<exists>r. r \<noteq> [] \<and> ks = js @ r"
  then obtain r where "r \<noteq> []" "ks = js @ r" by blast
  then have "dotted ks = dotted js @ ''.'' @ dotted r"
    using assms by (simp add: dotted_def js_join_append del: nat_string.simps)
  then show "js_starts (dotted js @ ''.'') (dotted ks)" by (simp add: js_starts_def)
qed


text \<open>The loop of \<open>getNearestCommonAncestor\<close>.\<close>

lemma nca_loop_find:
  assumes "heap_wf m" and "tree_inv m"
  shows "up_list n m cell = Some l \<Longrightarrow>
     (\<And>c. cell = Some c \<Longrightarrow> current = Some (dotted (index_path m c))) \<Longrightarrow>
     nca_loop n m (dotted ks) current cell =
       Some (List.find (\<lambda>a. cell_getParent a m \<noteq> None \<and>
                            (\<exists>r. r \<noteq> [] \<and> ks = index_path m a @ r)) l)"
proof (induction n arbitrary: cell l current)
  case 0
  then show ?case by (cases cell) auto
next
  case (Suc n)
  show ?case
  proof (cases cell)
    case None
    with Suc.prems show ?thesis by simp
  next
    case (Some c)
    with Suc.prems obtain l' where l: "l = c # l'" "up_list n m (cell_getParent c m) = Some l'"
      by auto
    have cur: "current = Some (dotted (index_path m c))" using Suc.prems(2) Some by simp
    have next_path: "getParentPath current = Some (dotted (index_path m p))"
      if "cell_getParent c m = Some p" for p
      using that cur by (simp add: getParentPath_dotted index_path_parent [OF assms(1), of c])
    have test: "js_str_indexOf (dotted ks) (dotted (index_path m c) @ ''.'') = 0 \<and>
        cell_getParent c m \<noteq> None \<longleftrightarrow>
        cell_getParent c m \<noteq> None \<and> (\<exists>r. r \<noteq> [] \<and> ks = index_path m c @ r)"
    proof (cases "cell_getParent c m")
      case (Some p)
      then have "index_path m c \<noteq> []" by (simp add: index_path_parent [OF assms(1), of c])
      then show ?thesis by (auto simp: js_str_indexOf_zero_iff dotted_prefix)
    qed simp
    show ?thesis
      unfolding Some l(1) nca_loop.simps Let_def cur option.case test
      using Suc.IH [OF l(2), of "getParentPath current"] next_path cur by auto
  qed
qed

lemma dotted_length: "js \<noteq> [] \<Longrightarrow> r \<noteq> [] \<Longrightarrow> length (dotted js) < length (dotted (js @ r))"
  by (simp add: dotted_def js_join_append del: nat_string.simps)

lemma nca_one_side:
  assumes "heap_wf m" and "tree_inv m" and "last (ancestors m c) = last (ancestors m d)"
    and "c \<noteq> d" and "length (dotted (index_path m c)) \<le> length (dotted (index_path m d))"
  shows "nca_loop (walk_fuel m) m (dotted (index_path m d)) (Some (dotted (index_path m c))) (Some c) =
     Some (List.find (\<lambda>a. a \<in> set (ancestors m d) \<and> cell_getParent a m \<noteq> None) (ancestors m c))"
proof -
  have root: "last (ancestors m a) = last (ancestors m c)" if "a \<in> set (ancestors m c)" for a
    using assms(1) that
  proof (induction c rule: heap_wf_induct)
    case (up c)
    then show ?case
      by (cases "cell_getParent c m")
        (auto simp: ancestors_parent [OF assms(1), of c] last_ancestors_parent [OF assms(1), of c])
  qed
  have "cell_getParent a m \<noteq> None \<and> (\<exists>r. r \<noteq> [] \<and> index_path m d = index_path m a @ r) \<longleftrightarrow>
      a \<in> set (ancestors m d) \<and> cell_getParent a m \<noteq> None" if a: "a \<in> set (ancestors m c)" for a
  proof -
    have rt: "last (ancestors m a) = last (ancestors m d)" using root [OF a] assms(3) by simp
    have "index_path m d \<noteq> index_path m a" if p: "cell_getParent a m \<noteq> None"
    proof
      assume "index_path m d = index_path m a"
      then have ad: "a = d" using index_path_inject [OF assms(1,2) rt] by simp
      then obtain r where r: "index_path m c = index_path m d @ r"
        using index_path_prefix [OF assms(1,2), of d c] assms(3) a by auto
      have "r \<noteq> []" using r index_path_inject [OF assms(1-3)] assms(4) by auto
      moreover have "index_path m d \<noteq> []"
        using p ad by (auto simp: index_path_parent [OF assms(1), of d])
      ultimately show False using dotted_length [of "index_path m d" r] assms(5) r by simp
    qed
    then show ?thesis
      using index_path_prefix [OF assms(1,2) rt] by (metis append.right_neutral)
  qed
  then have "List.find (\<lambda>a. cell_getParent a m \<noteq> None \<and>
        (\<exists>r. r \<noteq> [] \<and> index_path m d = index_path m a @ r)) (ancestors m c) =
      List.find (\<lambda>a. a \<in> set (ancestors m d) \<and> cell_getParent a m \<noteq> None) (ancestors m c)"
    by (intro find_cong refl)
  then show ?thesis
    using nca_loop_find [OF assms(1,2) ancestors_up_list [OF assms(1)]] by simp
qed

lemma getNearestCommonAncestor_wf:
  assumes "heap_wf m" and "tree_inv m" and "last (ancestors m c) = last (ancestors m d)"
    and "c \<noteq> d"
  shows "getNearestCommonAncestor (Some c) (Some d) m =
     Some (List.find (\<lambda>a. a \<in> set (ancestors m d) \<and> cell_getParent a m \<noteq> None) (ancestors m c))"
proof -
  note pc = path_create_eq [OF assms(1,2)]
  have sym: "List.find (\<lambda>a. a \<in> set (ancestors m c) \<and> cell_getParent a m \<noteq> None) (ancestors m d) =
      List.find (\<lambda>a. a \<in> set (ancestors m d) \<and> cell_getParent a m \<noteq> None) (ancestors m c)"
    by (rule common_ancestor_sym [OF assms(1)])
  show ?thesis
  proof (cases "dotted (index_path m d) = []")
    case True
    then have "dotted (index_path m d) = dotted []" by simp
    then have "index_path m d = []" by (simp only: dotted_inject)
    then have no: "cell_getParent d m = None"
      by (simp add: index_path_parent [OF assms(1), of d] split: option.splits)
    then have "ancestors m d = [d]" by (simp add: ancestors_parent [OF assms(1), of d])
    with no have "List.find (\<lambda>a. a \<in> set (ancestors m c) \<and> cell_getParent a m \<noteq> None) (ancestors m d) = None"
      by simp
    with True sym show ?thesis by (simp add: getNearestCommonAncestor_def pc)
  next
    case False
    show ?thesis
    proof (cases "length (dotted (index_path m d)) < length (dotted (index_path m c))")
      case True
      with nca_one_side [OF assms(1,2) assms(3) [symmetric] assms(4) [symmetric]] sym False
      show ?thesis by (simp add: getNearestCommonAncestor_def pc)
    next
      case not_less: False
      with nca_one_side [OF assms] False show ?thesis
        by (simp add: getNearestCommonAncestor_def pc)
    qed
  qed
qed

text \<open>Origins: the offsets of the cell and its ancestors, edges aside, added up.\<close>

definition offset_x :: "'a heap_scheme \<Rightarrow> cref \<Rightarrow> jsnum" where
  "offset_x m c = (if cell_isEdge c m then 0
     else (case cell_getGeometry c m of None \<Rightarrow> 0 | Some g \<Rightarrow> px (geo_at m g)))"

definition offset_y :: "'a heap_scheme \<Rightarrow> cref \<Rightarrow> jsnum" where
  "offset_y m c = (if cell_isEdge c m then 0
     else (case cell_getGeometry c m of None \<Rightarrow> 0 | Some g \<Rightarrow> py (geo_at m g)))"

lemma getOrigin_loop_sum:
  "up_list n m c = Some l \<Longrightarrow>
   getOrigin_loop n c m = Some \<lparr>px = sum_list (map (offset_x m) l), py = sum_list (map (offset_y m) l)\<rparr>"
proof (induction n arbitrary: c l)
  case 0
  then show ?case by (cases c) (auto simp: new_mxPoint_def js_default_def)
next
  case (Suc n)
  show ?case
  proof (cases c)
    case None
    with Suc.prems show ?thesis by (simp add: new_mxPoint_def js_default_def)
  next
    case (Some x)
    with Suc.prems obtain l' where l: "l = x # l'" "up_list n m (cell_getParent x m) = Some l'"
      by auto
    from Suc.IH [OF l(2)] Some l(1) show ?thesis
      by (auto simp: offset_x_def offset_y_def split: option.splits)
  qed
qed

lemma getOrigin_wf:
  "heap_wf m \<Longrightarrow> getOrigin (Some c) m =
     Some \<lparr>px = sum_list (map (offset_x m) (ancestors m c)),
           py = sum_list (map (offset_y m) (ancestors m c))\<rparr>"
  unfolding getOrigin_def by (rule getOrigin_loop_sum [OF ancestors_up_list])

text \<open>Topmost cells: those without a proper ancestor in the list.\<close>

lemma walk_up_parent_wf:
  assumes "heap_wf m"
  shows "walk_up (walk_fuel m) m stop (cell_getParent c m) = Some (List.find stop (tl (ancestors m c)))"
  by (cases "cell_getParent c m") (simp_all add: walk_up_wf [OF assms] ancestors_tl [OF assms])

lemma topmost_loop_wf:
  assumes "heap_wf m"
  shows "topmost_loop m dict cs =
     Some (filter (\<lambda>c. \<forall>p \<in> set (tl (ancestors m c)). p \<notin> set dict) cs)"
  by (induction cs)
    (auto simp: walk_up_parent_wf [OF assms] find_None_iff_ball [symmetric] split: option.splits)

text \<open>Edges between two cells: the side with fewer edges answers for both.\<close>

lemma getEdgeCount_length: "getEdgeCount (Some c) m = int (length (edges_of m c))"
  by (simp add: getEdgeCount_def cell_getEdgeCount_def edges_of_def split: option.splits)

lemma getEdgesBetween_either:
  assumes "\<And>e. e \<in> set (edges_of m s) \<union> set (edges_of m t) \<Longrightarrow> edge_linked e m"
  shows "set (getEdgesBetween (Some s) (Some t) directed m) =
     {e \<in> set (edges_of m s).
        cell_getTerminal e True m = Some s \<and> cell_getTerminal e False m = Some t
        \<or> directed \<noteq> Some True \<and> cell_getTerminal e True m = Some t
           \<and> cell_getTerminal e False m = Some s}" (is "?L = {e \<in> set (edges_of m s). ?P e}")
proof -
  have "e \<in> set (edges_of m s) \<longleftrightarrow> e \<in> set (edges_of m t)" if "?P e" for e
    using that assms [of e] unfolding edge_linked_def by blast
  moreover have "?L = {e \<in> set (edges_of m (if getEdgeCount (Some t) m < getEdgeCount (Some s) m
       then t else s)). ?P e}"
    by (cases directed) (auto simp: getEdgesBetween_def Let_def edge_list_def)
  ultimately show ?thesis by auto
qed

end
