(* ===== verification/ModelChange.thy ===== *)
theory ModelChange
  imports Model Stylesheet
begin

text \<open>
  The changing operations of the graph model, model/mxGraphModel.js: identifiers and the table
  of cells, the callbacks of the change objects, the change objects themselves, transactions,
  and the public setters.  An operation that may not complete returns an option; \<open>None\<close> means
  that it walks a cycle of parents or children and does not return, or that it removes an
  attribute of a value that is not an element, which is a TypeError.
\<close>

subsection \<open>Loops\<close>

fun for_each :: "('a \<Rightarrow> 's \<Rightarrow> 's option) \<Rightarrow> 'a list \<Rightarrow> 's \<Rightarrow> 's option" where
  "for_each f [] s = Some s"
| "for_each f (x # xs) s = (case f x s of None \<Rightarrow> None | Some s' \<Rightarrow> for_each f xs s')"

text \<open>\<open>for (var i = 0; i < n; i++)\<close>.\<close>

definition upto_count :: "int \<Rightarrow> int list" where
  "upto_count n = map int [0..<nat n]"

subsection \<open>Identifiers and the table of cells\<close>

definition createId :: "mxGraphModel \<Rightarrow> string \<times> mxGraphModel" where
  "createId m =
     (let i = nextId m; m = m\<lparr>nextId := nextId m + 1\<rparr>
      in (m_prefix m @ js_num_string i @ m_postfix m, m))"

text \<open>The loop that draws identifiers until one is free; the fuel is the size of the table.\<close>

fun id_loop :: "nat \<Rightarrow> cref \<Rightarrow> mxGraphModel \<Rightarrow> mxGraphModel option" where
  "id_loop n c m =
     (case getCell (cell_getId c m) m of
        None \<Rightarrow> Some m
      | Some collision \<Rightarrow>
          (case n of
             0 \<Rightarrow> None
           | Suc k \<Rightarrow> (let (i, m) = createId m in id_loop k c (cell_setId c (Some i) m))))"

declare id_loop.simps [simp del]

definition cells_size :: "mxGraphModel \<Rightarrow> nat" where
  "cells_size m = (case m_cells m of None \<Rightarrow> 0 | Some cs \<Rightarrow> length cs)"

definition put_cell :: "cref \<Rightarrow> mxGraphModel \<Rightarrow> mxGraphModel" where
  "put_cell c m =
     (case cell_getId c m of
        None \<Rightarrow> m
      | Some i \<Rightarrow> m\<lparr>m_cells := Some (AList.update i c (entries (m_cells m)))\<rparr>)"

text \<open>
  \<open>cellAdded\<close> for the cell itself: it gives it an identifier, resolves a collision and enters
  the cell, and raises the counter to a numeric identifier.
\<close>

definition give_id :: "cref \<Rightarrow> mxGraphModel \<Rightarrow> mxGraphModel" where
  "give_id c m =
     (if cell_getId c m = None \<and> createIds m
      then (let (i, m) = createId m in cell_setId c (Some i) m) else m)"

definition enter_cell :: "cref \<Rightarrow> mxGraphModel \<Rightarrow> mxGraphModel option" where
  "enter_cell c m =
     (if cell_getId c m \<noteq> None \<and> getCell (cell_getId c m) m \<noteq> Some c
      then map_option (put_cell c) (id_loop (Suc (cells_size m)) c m) else Some m)"

definition raise_nextId :: "cref \<Rightarrow> mxGraphModel \<Rightarrow> mxGraphModel" where
  "raise_nextId c m =
     (case cell_getId c m of
        None \<Rightarrow> m
      | Some i \<Rightarrow> (if isNumeric i then m\<lparr>nextId := max (nextId m) (the (js_Number i))\<rparr> else m))"

definition register_cell :: "cref \<Rightarrow> mxGraphModel \<Rightarrow> mxGraphModel option" where
  "register_cell c m = map_option (raise_nextId c) (enter_cell c (give_id c m))"

text \<open>And then for its children.\<close>

fun cellAdded_n :: "nat \<Rightarrow> cref option \<Rightarrow> mxGraphModel \<Rightarrow> mxGraphModel option" where
  "cellAdded_n n None m = Some m"
| "cellAdded_n 0 (Some c) m = None"
| "cellAdded_n (Suc n) (Some c) m =
     (case register_cell c m of
        None \<Rightarrow> None
      | Some m \<Rightarrow>
          for_each (\<lambda>i m. cellAdded_n n (cell_getChildAt c i m) m)
            (upto_count (cell_getChildCount c m)) m)"

definition cellAdded :: "cref option \<Rightarrow> mxGraphModel \<Rightarrow> mxGraphModel option" where
  "cellAdded c m = cellAdded_n (walk_fuel m) c m"

definition drop_cell :: "cref \<Rightarrow> mxGraphModel \<Rightarrow> mxGraphModel" where
  "drop_cell c m =
     (case (m_cells m, cell_getId c m) of
        (Some cs, Some i) \<Rightarrow> m\<lparr>m_cells := Some (AList.delete i cs)\<rparr>
      | _ \<Rightarrow> m)"

fun cellRemoved_n :: "nat \<Rightarrow> cref option \<Rightarrow> mxGraphModel \<Rightarrow> mxGraphModel option" where
  "cellRemoved_n n None m = Some m"
| "cellRemoved_n 0 (Some c) m = (if m_cells m = None then Some m else None)"
| "cellRemoved_n (Suc n) (Some c) m =
     (if m_cells m = None then Some m
      else map_option (drop_cell c)
        (for_each (\<lambda>i m. cellRemoved_n n (cell_getChildAt c i m) m)
          (rev (upto_count (cell_getChildCount c m))) m))"

definition cellRemoved :: "cref option \<Rightarrow> mxGraphModel \<Rightarrow> mxGraphModel option" where
  "cellRemoved c m = cellRemoved_n (walk_fuel m) c m"

subsection \<open>The callbacks of the changes\<close>

definition rootChanged :: "cref option \<Rightarrow> mxGraphModel \<Rightarrow> (cref option \<times> mxGraphModel) option" where
  "rootChanged rt m =
     (let oldRoot = m_root m; m = m\<lparr>m_root := rt, nextId := 0, m_cells := None\<rparr>
      in map_option (\<lambda>m. (oldRoot, m)) (cellAdded rt m))"

definition parentForCellChanged ::
  "cref option \<Rightarrow> cref option \<Rightarrow> int option \<Rightarrow> mxGraphModel \<Rightarrow> (cref option \<times> mxGraphModel) option" where
  "parentForCellChanged cell parent index m =
     (let previous = getParent cell m;
          m = (case parent of
             Some p \<Rightarrow>
               (if parent \<noteq> previous \<or> Some (cell_getIndex (the previous) (the cell) m) \<noteq> index
                then cell_insert p cell index m else m)
           | None \<Rightarrow>
               (case previous of
                  None \<Rightarrow> m
                | Some q \<Rightarrow>
                    (let oldIndex = cell_getIndex q (the cell) m in snd (cell_remove q oldIndex m))))
      in case m_contains previous m of
           None \<Rightarrow> None
         | Some inside \<Rightarrow>
             map_option (\<lambda>m. (previous, m))
               (if \<not> inside \<and> parent \<noteq> None then cellAdded cell m
                else if parent = None then cellRemoved cell m else Some m))"

definition terminalForCellChanged ::
  "cref option \<Rightarrow> cref option \<Rightarrow> bool \<Rightarrow> 'a heap_scheme \<Rightarrow> cref option \<times> 'a heap_scheme" where
  "terminalForCellChanged edge terminal isSource m =
     (let previous = getTerminal edge isSource m
      in (previous,
          case terminal of
            Some t \<Rightarrow> cell_insertEdge t edge isSource m
          | None \<Rightarrow> (case previous of None \<Rightarrow> m | Some p \<Rightarrow> cell_removeEdge p edge isSource m)))"

definition valueForCellChanged ::
  "cref \<Rightarrow> user_value option \<Rightarrow> 'a heap_scheme \<Rightarrow> user_value option \<times> 'a heap_scheme" where
  "valueForCellChanged cell v m = cell_valueChanged cell v m"

definition geometryForCellChanged ::
  "cref \<Rightarrow> nat option \<Rightarrow> 'a heap_scheme \<Rightarrow> nat option \<times> 'a heap_scheme" where
  "geometryForCellChanged cell geometry m =
     (let previous = cell_getGeometry cell m in (previous, cell_setGeometry cell geometry m))"

definition styleForCellChanged ::
  "cref \<Rightarrow> string option \<Rightarrow> 'a heap_scheme \<Rightarrow> string option \<times> 'a heap_scheme" where
  "styleForCellChanged cell style m =
     (let previous = cell_getStyle cell m in (previous, cell_setStyle cell style m))"

definition collapsedStateForCellChanged :: "cref \<Rightarrow> bool \<Rightarrow> 'a heap_scheme \<Rightarrow> bool \<times> 'a heap_scheme" where
  "collapsedStateForCellChanged cell collapsed m =
     (let previous = cell_isCollapsed cell m in (previous, cell_setCollapsed cell collapsed m))"

definition visibleStateForCellChanged :: "cref \<Rightarrow> bool \<Rightarrow> 'a heap_scheme \<Rightarrow> bool \<times> 'a heap_scheme" where
  "visibleStateForCellChanged cell visible m =
     (let previous = cell_isVisible cell m in (previous, cell_setVisible cell visible m))"

subsection \<open>The change objects\<close>

definition new_mxRootChange :: "cref option \<Rightarrow> change" where
  "new_mxRootChange rt = RootChange rt rt"

definition new_mxChildChange :: "cref option \<Rightarrow> cref option \<Rightarrow> int option \<Rightarrow> change" where
  "new_mxChildChange parent child index = ChildChange parent parent child index index"

definition new_mxTerminalChange :: "cref option \<Rightarrow> cref option \<Rightarrow> bool \<Rightarrow> change" where
  "new_mxTerminalChange cell terminal source = TerminalChange cell terminal terminal source"

definition new_mxValueChange :: "cref option \<Rightarrow> user_value option \<Rightarrow> change" where
  "new_mxValueChange cell v = ValueChange cell v v"

definition new_mxStyleChange :: "cref option \<Rightarrow> string option \<Rightarrow> change" where
  "new_mxStyleChange cell style = StyleChange cell style style"

definition new_mxGeometryChange :: "cref option \<Rightarrow> nat option \<Rightarrow> change" where
  "new_mxGeometryChange cell geometry = GeometryChange cell geometry geometry"

definition new_mxCollapseChange :: "cref option \<Rightarrow> bool \<Rightarrow> change" where
  "new_mxCollapseChange cell collapsed = CollapseChange cell collapsed collapsed"

definition new_mxVisibleChange :: "cref option \<Rightarrow> bool \<Rightarrow> change" where
  "new_mxVisibleChange cell visible = VisibleChange cell visible visible"

definition new_mxCellAttributeChange :: "cref option \<Rightarrow> string \<Rightarrow> string option \<Rightarrow> change" where
  "new_mxCellAttributeChange cell attribute v = CellAttributeChange cell attribute v v"

text \<open>\<open>mxChildChange.connect\<close>.\<close>

definition connect_terminal :: "cref \<Rightarrow> bool \<Rightarrow> cref option \<Rightarrow> bool \<Rightarrow> 'a heap_scheme \<Rightarrow> 'a heap_scheme"
  where
  "connect_terminal cell isConnect terminal isSource m =
     (if terminal = None then m
      else snd (terminalForCellChanged (Some cell) (if isConnect then terminal else None) isSource m))"

definition connect_cell :: "cref \<Rightarrow> bool \<Rightarrow> 'a heap_scheme \<Rightarrow> 'a heap_scheme" where
  "connect_cell cell isConnect m =
     (let source = cell_getTerminal cell True m;
          target = cell_getTerminal cell False m;
          m = connect_terminal cell isConnect source True m;
          m = connect_terminal cell isConnect target False m;
          m = cell_setTerminal cell source True m
      in cell_setTerminal cell target False m)"

fun connect_n :: "nat \<Rightarrow> cref option \<Rightarrow> bool \<Rightarrow> 'a heap_scheme \<Rightarrow> 'a heap_scheme option" where
  "connect_n n None isConnect m = Some m"
| "connect_n 0 (Some cell) isConnect m = None"
| "connect_n (Suc n) (Some cell) isConnect m =
     (let m = connect_cell cell isConnect m
      in for_each (\<lambda>i m. connect_n n (cell_getChildAt cell i m) isConnect m)
           (upto_count (cell_getChildCount cell m)) m)"

definition connect :: "cref option \<Rightarrow> bool \<Rightarrow> 'a heap_scheme \<Rightarrow> 'a heap_scheme option" where
  "connect cell isConnect m = connect_n (walk_fuel m) cell isConnect m"

definition execute_child_change ::
  "cref option \<Rightarrow> cref option \<Rightarrow> int option \<Rightarrow> int option \<Rightarrow> cref option \<Rightarrow> mxGraphModel \<Rightarrow>
   (change \<times> mxGraphModel) option"
where
  "execute_child_change parent previous index previousIndex child m =
     (case child of
        None \<Rightarrow> Some (ChildChange parent previous child index previousIndex, m)
      | Some c \<Rightarrow>
          (let tmp = cell_getParent c m;
               tmp2 = (case tmp of None \<Rightarrow> 0 | Some p \<Rightarrow> cell_getIndex p c m)
           in Option.bind (if previous = None then connect child False m else Some m) (\<lambda>m.
              Option.bind (parentForCellChanged child previous previousIndex m) (\<lambda>(tmp, m).
              Option.bind (if previous \<noteq> None then connect child True m else Some m) (\<lambda>m.
                Some (ChildChange previous tmp child previousIndex (Some tmp2), m))))))"

definition execute_attribute_change ::
  "cref option \<Rightarrow> string \<Rightarrow> string option \<Rightarrow> string option \<Rightarrow> mxGraphModel \<Rightarrow>
   (change \<times> mxGraphModel) option"
where
  "execute_attribute_change cell attribute v previous m =
     (case cell of
        None \<Rightarrow> Some (CellAttributeChange cell attribute v previous, m)
      | Some c \<Rightarrow>
          (let tmp = cell_getAttribute c attribute None m
           in map_option (\<lambda>m. (CellAttributeChange cell attribute v tmp, m))
                (case previous of
                   None \<Rightarrow> (case cell_getValue c m of
                             Some (VNode n) \<Rightarrow> Some (node_removeAttribute n attribute m)
                           | _ \<Rightarrow> None)
                 | Some p \<Rightarrow> Some (cell_setAttribute c attribute p m))))"

text \<open>\<open>execute\<close> of each change: it returns the object with its fields swapped, and the model.\<close>

fun exec_change :: "change \<Rightarrow> mxGraphModel \<Rightarrow> (change \<times> mxGraphModel) option" where
  "exec_change (RootChange rt previous) m =
     map_option (\<lambda>(old, m). (RootChange previous old, m)) (rootChanged previous m)"
| "exec_change (ChildChange parent previous child index previousIndex) m =
     execute_child_change parent previous index previousIndex child m"
| "exec_change (TerminalChange cell terminal previous source) m =
     Some (case cell of
        None \<Rightarrow> (TerminalChange cell terminal previous source, m)
      | Some c \<Rightarrow> (let (old, m) = terminalForCellChanged cell previous source m
                  in (TerminalChange cell previous old source, m)))"
| "exec_change (ValueChange cell v previous) m =
     Some (case cell of
        None \<Rightarrow> (ValueChange cell v previous, m)
      | Some c \<Rightarrow> (let (old, m) = valueForCellChanged c previous m in (ValueChange cell previous old, m)))"
| "exec_change (StyleChange cell style previous) m =
     Some (case cell of
        None \<Rightarrow> (StyleChange cell style previous, m)
      | Some c \<Rightarrow> (let (old, m) = styleForCellChanged c previous m in (StyleChange cell previous old, m)))"
| "exec_change (GeometryChange cell geometry previous) m =
     Some (case cell of
        None \<Rightarrow> (GeometryChange cell geometry previous, m)
      | Some c \<Rightarrow> (let (old, m) = geometryForCellChanged c previous m
                  in (GeometryChange cell previous old, m)))"
| "exec_change (CollapseChange cell collapsed previous) m =
     Some (case cell of
        None \<Rightarrow> (CollapseChange cell collapsed previous, m)
      | Some c \<Rightarrow> (let (old, m) = collapsedStateForCellChanged c previous m
                  in (CollapseChange cell previous old, m)))"
| "exec_change (VisibleChange cell visible previous) m =
     Some (case cell of
        None \<Rightarrow> (VisibleChange cell visible previous, m)
      | Some c \<Rightarrow> (let (old, m) = visibleStateForCellChanged c previous m
                  in (VisibleChange cell previous old, m)))"
| "exec_change (CellAttributeChange cell attribute v previous) m =
     execute_attribute_change cell attribute v previous m"

subsection \<open>Transactions\<close>

definition createUndoableEdit :: "bool option \<Rightarrow> model_edit" where
  "createUndoableEdit sig = new_mxUndoableEdit (Some (case sig of None \<Rightarrow> True | Some b \<Rightarrow> b))"

text \<open>The \<open>notify\<close> of a model edit.\<close>

definition notify_edit :: "model_edit \<Rightarrow> mxGraphModel \<Rightarrow> mxGraphModel" where
  "notify_edit e m = m_fire (EvNotify e) (m_fire (EvChange e) m)"

definition beginUpdate :: "mxGraphModel \<Rightarrow> mxGraphModel" where
  "beginUpdate m =
     (let m = m\<lparr>updateLevel := updateLevel m + 1\<rparr>;
          m = m_fire EvBeginUpdate m
      in if updateLevel m = 1 then m_fire EvStartEdit m else m)"

definition endUpdate :: "mxGraphModel \<Rightarrow> mxGraphModel" where
  "endUpdate m =
     (let m = m\<lparr>updateLevel := updateLevel m - 1\<rparr>;
          m = (if updateLevel m = 0 then m_fire EvEndEdit m else m)
      in if \<not> endingUpdate m then
           (let m = m\<lparr>endingUpdate := (updateLevel m = 0)\<rparr>;
                m = m_fire (EvEndUpdate (currentEdit m)) m;
                m = (if endingUpdate m \<and> \<not> edit_isEmpty (currentEdit m) then
                       (let m = m_fire (EvBeforeUndo (currentEdit m)) m;
                            tmp = currentEdit m;
                            m = m\<lparr>currentEdit := createUndoableEdit None\<rparr>;
                            m = notify_edit tmp m
                        in m_fire (EvUndo tmp) m)
                     else m)
            in m\<lparr>endingUpdate := False\<rparr>)
         else m)"

definition m_execute :: "change \<Rightarrow> mxGraphModel \<Rightarrow> mxGraphModel option" where
  "m_execute c m =
     map_option
       (\<lambda>(c, m).
          let m = beginUpdate m;
              m = m\<lparr>currentEdit := edit_add c (currentEdit m)\<rparr>;
              m = m_fire (EvExecute c) m;
              m = m_fire (EvExecuted c) m
          in endUpdate m)
       (exec_change c m)"


subsection \<open>Setters\<close>

definition m_setValue :: "cref option \<Rightarrow> user_value option \<Rightarrow> mxGraphModel \<Rightarrow> mxGraphModel option" where
  "m_setValue cell v m = m_execute (new_mxValueChange cell v) m"

definition m_setGeometry :: "cref option \<Rightarrow> nat option \<Rightarrow> mxGraphModel \<Rightarrow> mxGraphModel option" where
  "m_setGeometry cell geometry m =
     (if geometry \<noteq> m_getGeometry cell m
      then m_execute (new_mxGeometryChange cell geometry) m else Some m)"

definition m_setStyle :: "cref option \<Rightarrow> string option \<Rightarrow> mxGraphModel \<Rightarrow> mxGraphModel option" where
  "m_setStyle cell style m =
     (if style \<noteq> m_getStyle cell m then m_execute (new_mxStyleChange cell style) m else Some m)"

definition setCollapsed :: "cref option \<Rightarrow> bool \<Rightarrow> mxGraphModel \<Rightarrow> mxGraphModel option" where
  "setCollapsed cell collapsed m =
     (if collapsed \<noteq> isCollapsed cell m
      then m_execute (new_mxCollapseChange cell collapsed) m else Some m)"

definition setVisible :: "cref option \<Rightarrow> bool \<Rightarrow> mxGraphModel \<Rightarrow> mxGraphModel option" where
  "setVisible cell visible m =
     (if visible \<noteq> isVisible cell m
      then m_execute (new_mxVisibleChange cell visible) m else Some m)"

definition setRoot :: "cref option \<Rightarrow> mxGraphModel \<Rightarrow> mxGraphModel option" where
  "setRoot rt m = m_execute (new_mxRootChange rt) m"

definition createRoot :: "'a heap_scheme \<Rightarrow> cref \<times> 'a heap_scheme" where
  "createRoot m =
     (let (cell, m) = new_mxCell None None None m;
          (layer, m) = new_mxCell None None None m
      in (cell, cell_insert cell (Some layer) None m))"

definition m_clear :: "mxGraphModel \<Rightarrow> mxGraphModel option" where
  "m_clear m = (let (rt, m) = createRoot m in setRoot (Some rt) m)"

definition empty_model :: mxGraphModel where
  "empty_model =
     \<lparr>cell_at = (\<lambda>_. blank_cell), ncells = 0,
      geo_at = (\<lambda>_. new_mxGeometry None None None None), ngeos = 0,
      node_at = (\<lambda>_. \<lparr>node_name = [], node_attributes = [], node_content = []\<rparr>), nnodes = 0,
      m_root = None, m_cells = None, maintainEdgeParent = True,
      ignoreRelativeEdgeParent = True, createIds = True, m_prefix = [], m_postfix = [],
      nextId = 0, currentEdit = createUndoableEdit None, updateLevel = 0, endingUpdate = False,
      m_eventsEnabled = True, m_fired = []\<rparr>"

text \<open>The constructor, without and with a root that is already in the store.\<close>

definition new_mxGraphModel :: "cref option \<Rightarrow> mxGraphModel \<Rightarrow> mxGraphModel option" where
  "new_mxGraphModel rt m =
     (let m = m\<lparr>currentEdit := createUndoableEdit None\<rparr>
      in case rt of Some r \<Rightarrow> setRoot (Some r) m | None \<Rightarrow> m_clear m)"

subsection \<open>Adding and removing cells, and the parents of edges\<close>

text \<open>
  \<open>add\<close> calls \<open>updateEdgeParents\<close>, which may move edges with \<open>add\<close> in turn.  The functions
  below take the inner \<open>add\<close> as an argument; \<open>add_n\<close> closes the recursion, with fuel for the
  nesting of these calls.  An edge that no other edge is attached to and that has no children
  is moved without a further call.
\<close>

text \<open>The walk over relative terminals: it stops at the first cell that is not relative.\<close>

definition not_relative :: "'a heap_scheme \<Rightarrow> cref \<Rightarrow> bool" where
  "not_relative m c \<longleftrightarrow>
     cell_isEdge c m \<or>
     (case cell_getGeometry c m of None \<Rightarrow> True | Some g \<Rightarrow> \<not> g_relative (geo_at m g))"

type_synonym adder = "cref option \<Rightarrow> cref option \<Rightarrow> int option \<Rightarrow> mxGraphModel \<Rightarrow> mxGraphModel option"

definition move_edge :: "adder \<Rightarrow> cref \<Rightarrow> cref \<Rightarrow> mxGraphModel \<Rightarrow> mxGraphModel option" where
  "move_edge addf edge cell m =
     Option.bind
       (case cell_getGeometry edge m of
          None \<Rightarrow> Some m
        | Some g \<Rightarrow>
            (case (getOrigin (cell_getParent edge m) m, getOrigin (Some cell) m) of
               (Some origin1, Some origin2) \<Rightarrow>
                 (let dx = px origin2 - px origin1;
                      dy = py origin2 - py origin1;
                      (geo, m) = alloc_geo (geo_translate (- dx) (- dy) (geo_at m g)) m
                  in m_setGeometry (Some edge) (Some geo) m)
             | _ \<Rightarrow> None))
       (\<lambda>m. addf (Some cell) (Some edge) (Some (cell_getChildCount cell m)) m)"

definition updateEdgeParent :: "adder \<Rightarrow> cref \<Rightarrow> cref option \<Rightarrow> mxGraphModel \<Rightarrow> mxGraphModel option" where
  "updateEdgeParent addf edge rt m =
     Option.bind (walk_up (walk_fuel m) m (not_relative m) (cell_getTerminal edge True m)) (\<lambda>source.
     Option.bind
       (if ignoreRelativeEdgeParent m
        then walk_up (walk_fuel m) m (not_relative m) (cell_getTerminal edge False m)
        else Some (cell_getTerminal edge False m)) (\<lambda>target.
     Option.bind (isAncestor rt source m) (\<lambda>in1.
     if \<not> in1 then Some m
     else Option.bind (isAncestor rt target m) (\<lambda>in2.
     if \<not> in2 then Some m
     else Option.bind
       (if source = target then Some (getParent source m)
        else getNearestCommonAncestor source target m) (\<lambda>cell.
     case cell of
       None \<Rightarrow> Some m
     | Some c \<Rightarrow>
         Option.bind
           (if cell_getParent c m \<noteq> m_root m then Some True else isAncestor (Some c) (Some edge) m)
           (\<lambda>ok.
         if ok \<and> cell_getParent edge m \<noteq> Some c then move_edge addf edge c m else Some m))))))"

fun updateEdgeParents_n ::
  "nat \<Rightarrow> adder \<Rightarrow> cref option \<Rightarrow> cref option \<Rightarrow> mxGraphModel \<Rightarrow> mxGraphModel option" where
  "updateEdgeParents_n n addf None rt m = Some m"
| "updateEdgeParents_n 0 addf (Some cell) rt m = None"
| "updateEdgeParents_n (Suc n) addf (Some cell) rt m =
     Option.bind (case rt of Some r \<Rightarrow> Some (Some r) | None \<Rightarrow> getRoot (Some cell) m) (\<lambda>rt.
     Option.bind
       (for_each (\<lambda>i m. updateEdgeParents_n n addf (cell_getChildAt cell i m) rt m)
          (upto_count (cell_getChildCount cell m)) m) (\<lambda>m.
     for_each
       (\<lambda>edge m. Option.bind (isAncestor rt (Some edge) m) (\<lambda>inside.
          if inside then updateEdgeParent addf edge rt m else Some m))
       (edges_of m cell) m))"

definition updateEdgeParents ::
  "adder \<Rightarrow> cref option \<Rightarrow> cref option \<Rightarrow> mxGraphModel \<Rightarrow> mxGraphModel option" where
  "updateEdgeParents addf cell rt m = updateEdgeParents_n (walk_fuel m) addf cell rt m"

fun add_n :: "nat \<Rightarrow> adder" where
  "add_n n parent child index m =
     (if child \<noteq> parent \<and> parent \<noteq> None \<and> child \<noteq> None then
        (let index = (case index of None \<Rightarrow> getChildCount parent m | Some i \<Rightarrow> i);
             parentChanged = (parent \<noteq> getParent child m)
         in Option.bind (m_execute (new_mxChildChange parent child (Some index)) m) (\<lambda>m.
            if maintainEdgeParent m \<and> parentChanged then
              (case n of 0 \<Rightarrow> None | Suc k \<Rightarrow> updateEdgeParents (add_n k) child None m)
            else Some m))
      else Some m)"

declare add_n.simps [simp del]

definition m_add :: adder where
  "m_add parent child index m = add_n (walk_fuel m) parent child index m"

definition m_remove :: "cref option \<Rightarrow> mxGraphModel \<Rightarrow> mxGraphModel option" where
  "m_remove cell m =
     (if cell = m_root m then setRoot None m
      else if getParent cell m \<noteq> None then m_execute (new_mxChildChange None cell None) m
      else Some m)"

definition setTerminal ::
  "cref option \<Rightarrow> cref option \<Rightarrow> bool \<Rightarrow> mxGraphModel \<Rightarrow> mxGraphModel option" where
  "setTerminal edge terminal isSource m =
     (let terminalChanged = (terminal \<noteq> getTerminal edge isSource m)
      in Option.bind (m_execute (new_mxTerminalChange edge terminal isSource) m) (\<lambda>m.
         if maintainEdgeParent m \<and> terminalChanged then
           (case edge of
              None \<Rightarrow> Some m
            | Some e \<Rightarrow> updateEdgeParent m_add e (m_root m) m)
         else Some m))"

definition setTerminals ::
  "cref option \<Rightarrow> cref option \<Rightarrow> cref option \<Rightarrow> mxGraphModel \<Rightarrow> mxGraphModel option" where
  "setTerminals edge source target m =
     map_option endUpdate
       (Option.bind (setTerminal edge source True (beginUpdate m)) (setTerminal edge target False))"

end
