(* ===== verification/ModelInv.thy ===== *)
theory ModelInv
  imports ModelChange ModelQueries
begin

text \<open>
  The structural invariant of the graph model: children arrays agree with parent references,
  and a cell lists an edge only if it is one of its terminals.  Every operation of the model
  keeps it, without any condition on its arguments.
\<close>

definition struct_inv :: "'a heap_scheme \<Rightarrow> bool" where
  "struct_inv h \<longleftrightarrow> tree_inv h \<and> edge_inv h"

text \<open>The fields the invariant depends on.\<close>

definition links :: "'a heap_scheme \<Rightarrow> cref \<Rightarrow>
    cref option \<times> cref list option \<times> cref option \<times> cref option \<times> cref list option" where
  "links h c = (c_parent (cell_at h c), c_children (cell_at h c), c_source (cell_at h c),
     c_target (cell_at h c), c_edges (cell_at h c))"

lemma links_eqD:
  assumes "links h = links h'"
  shows "c_parent (cell_at h c) = c_parent (cell_at h' c)" "children_of h c = children_of h' c"
    "cell_getTerminal c b h = cell_getTerminal c b h'" "edges_of h c = edges_of h' c"
  using fun_cong [OF assms, of c]
  by (simp_all add: links_def children_of_def edges_of_def cell_getTerminal_def)

lemma tree_inv_links:
  assumes "links h = links h'"
  shows "tree_inv h = tree_inv h'"
  unfolding tree_inv_def links_eqD [OF assms] ..

lemma edge_inv_links:
  assumes "links h = links h'"
  shows "edge_inv h = edge_inv h'"
  unfolding edge_inv_def links_eqD [OF assms] ..

lemma struct_inv_links:
  assumes "links h = links h'"
  shows "struct_inv h = struct_inv h'"
  unfolding struct_inv_def tree_inv_links [OF assms] edge_inv_links [OF assms] ..

lemma links_cell_at: "cell_at h = cell_at h' \<Longrightarrow> links h = links h'"
  by (simp add: links_def fun_eq_iff)

lemma links_setters [simp]:
  "links (cell_setId c i h) = links h" "links (cell_setValue c v h) = links h"
  "links (cell_setGeometry c g h) = links h" "links (cell_setStyle c s h) = links h"
  "links (cell_setCollapsed c b h) = links h" "links (cell_setVisible c b h) = links h"
  "links (cell_setVertex c b h) = links h" "links (cell_setEdge c b h) = links h"
  "links (cell_setConnectable c b h) = links h"
  by (auto simp: links_def cell_field_defs fun_eq_iff)

lemma links_model_fields [simp]:
  "links (m\<lparr>m_cells := x1\<rparr>) = links m" "links (m\<lparr>nextId := x2\<rparr>) = links m"
  "links (m\<lparr>m_root := x3\<rparr>) = links m" "links (m\<lparr>currentEdit := x4\<rparr>) = links m"
  "links (m\<lparr>updateLevel := x5\<rparr>) = links m" "links (m\<lparr>endingUpdate := x6\<rparr>) = links m"
  "links (m\<lparr>m_fired := x7\<rparr>) = links m" "links (m\<lparr>createIds := x8\<rparr>) = links m"
  by (simp_all add: links_def fun_eq_iff)

lemma links_fire [simp]: "links (m_fire ev m) = links m"
  by (simp add: m_fire_def)

lemma links_notify [simp]: "links (notify_edit e m) = links m"
  by (simp add: notify_edit_def)

lemma links_update [simp]: "links (beginUpdate m) = links m" "links (endUpdate m) = links m"
  by (simp_all add: beginUpdate_def endUpdate_def Let_def)

lemma links_heap_parts [simp]:
  "links (h\<lparr>geo_at := g\<rparr>) = links h" "links (h\<lparr>ngeos := n\<rparr>) = links h"
  "links (h\<lparr>node_at := d\<rparr>) = links h" "links (h\<lparr>nnodes := k\<rparr>) = links h"
  by (simp_all add: links_def fun_eq_iff)

lemma links_alloc_geo [simp]: "links (snd (alloc_geo g h)) = links h"
  by (simp add: alloc_geo_def)

lemma links_attributes [simp]:
  "links (node_setAttribute n a v h) = links h" "links (node_removeAttribute n a h) = links h"
  "links (cell_setAttribute c a v h) = links h"
  by (auto simp: node_setAttribute_def node_removeAttribute_def cell_setAttribute_def
      split: option.splits user_value.splits)

subsection \<open>Operations on the links\<close>

lemma tree_inv_fields:
  assumes "\<And>c. c_parent (cell_at h' c) = c_parent (cell_at h c)"
    and "\<And>c. c_children (cell_at h' c) = c_children (cell_at h c)"
  shows "tree_inv h' = tree_inv h"
  by (simp add: tree_inv_def children_of_def assms)

lemma setTerminal_tree [simp]:
  "c_parent (cell_at (cell_setTerminal e t b h) c) = c_parent (cell_at h c)"
  "c_children (cell_at (cell_setTerminal e t b h) c) = c_children (cell_at h c)"
  by (auto simp: cell_setTerminal_def)

lemma removeEdge_tree [simp]:
  "c_parent (cell_at (cell_removeEdge t e b h) c) = c_parent (cell_at h c)"
  "c_children (cell_at (cell_removeEdge t e b h) c) = c_children (cell_at h c)"
  by (auto simp: cell_removeEdge_def Let_def split: option.splits)

lemma removeFromTerminal_tree [simp]:
  "c_parent (cell_at (cell_removeFromTerminal e b h) c) = c_parent (cell_at h c)"
  "c_children (cell_at (cell_removeFromTerminal e b h) c) = c_children (cell_at h c)"
  by (auto simp: cell_removeFromTerminal_def split: option.splits)

lemma insertEdge_tree [simp]:
  "c_parent (cell_at (cell_insertEdge t e b h) c) = c_parent (cell_at h c)"
  "c_children (cell_at (cell_insertEdge t e b h) c) = c_children (cell_at h c)"
  by (auto simp: cell_insertEdge_def Let_def split: option.splits)

lemma tree_inv_edge_ops [simp]:
  "tree_inv (cell_setTerminal d t b h) = tree_inv h"
  "tree_inv (cell_removeEdge u e b h) = tree_inv h"
  "tree_inv (cell_insertEdge u e b h) = tree_inv h"
  by (rule tree_inv_fields; simp)+

text \<open>The tree operations leave terminals and edge arrays alone.\<close>

lemma edge_inv_fields:
  assumes "\<And>c b. cell_getTerminal c b h' = cell_getTerminal c b h" and "\<And>c. edges_of h' c = edges_of h c"
  shows "edge_inv h' = edge_inv h"
  by (simp add: edge_inv_def assms)

lemma remove_edges [simp]:
  "cell_getTerminal c b (snd (cell_remove p i h)) = cell_getTerminal c b h"
  "edges_of (snd (cell_remove p i h)) c = edges_of h c"
  by (auto simp: cell_remove_def cell_field_defs cell_getTerminal_def edges_of_def split: option.splits)

lemma removeFromParent_edges [simp]:
  "cell_getTerminal c b (cell_removeFromParent d h) = cell_getTerminal c b h"
  "edges_of (cell_removeFromParent d h) c = edges_of h c"
  by (auto simp: cell_removeFromParent_def Let_def split: option.splits)

lemma update_children_edges:
  "cell_getTerminal c b (upd p (c_children_update f) h) = cell_getTerminal c b h"
  "edges_of (upd p (c_children_update f) h) c = edges_of h c"
  "cell_getTerminal c b (cell_setParent p q h) = cell_getTerminal c b h"
  "edges_of (cell_setParent p q h) c = edges_of h c"
  by (simp_all add: cell_getTerminal_def edges_of_def cell_setParent_def)

lemma insert_edges [simp]:
  "cell_getTerminal c b (cell_insert p d i h) = cell_getTerminal c b h"
  "edges_of (cell_insert p d i h) c = edges_of h c"
  unfolding cell_insert_def Let_def
  by (cases d; simp only: option.case update_children_edges removeFromParent_edges)+

lemma struct_inv_insert: "struct_inv h \<Longrightarrow> struct_inv (cell_insert p c i h)"
  by (simp add: struct_inv_def tree_inv_insert edge_inv_fields [of "cell_insert p c i h" h])

lemma struct_inv_remove: "struct_inv h \<Longrightarrow> struct_inv (snd (cell_remove p i h))"
  by (simp add: struct_inv_def tree_inv_remove edge_inv_fields [of "snd (cell_remove p i h)" h])

lemma struct_inv_insertEdge: "struct_inv h \<Longrightarrow> struct_inv (cell_insertEdge t e b h)"
  by (simp add: struct_inv_def edge_inv_insertEdge)

lemma struct_inv_terminalForCellChanged:
  assumes "struct_inv h"
  shows "struct_inv (snd (terminalForCellChanged e t b h))"
proof (cases e)
  case None
  with assms show ?thesis
    by (simp add: terminalForCellChanged_def getTerminal_def cell_insertEdge_def Let_def
        split: option.splits)
next
  case (Some x)
  have "edge_inv (cell_removeEdge p (Some x) b h)" if "cell_getTerminal x b h = Some p" for p
    using assms that by (simp add: struct_inv_def edge_inv_removeEdge)
  with Some assms show ?thesis
    by (auto simp: terminalForCellChanged_def getTerminal_def Let_def struct_inv_def
        edge_inv_insertEdge split: option.splits)
qed

subsection \<open>Composed operations\<close>

lemma for_each_inv:
  "for_each f xs s = Some s' \<Longrightarrow> P s \<Longrightarrow> (\<And>x s s'. P s \<Longrightarrow> f x s = Some s' \<Longrightarrow> P s') \<Longrightarrow> P s'"
  by (induction xs arbitrary: s) (auto split: option.splits)

lemma createId_links [simp]: "links (snd (createId m)) = links m"
  by (simp add: createId_def Let_def)

lemma id_loop_links: "id_loop n c m = Some m' \<Longrightarrow> links m' = links m"
proof (induction n arbitrary: m)
  case 0
  then show ?case by (auto simp: id_loop.simps split: option.splits)
next
  case (Suc n)
  obtain i m1 where c: "createId m = (i, m1)" by (cases "createId m")
  with Suc createId_links [of m] show ?case
    by (auto simp: id_loop.simps [of "Suc n"] split: option.splits)
qed

lemma put_cell_links [simp]: "links (put_cell c m) = links m"
  by (simp add: put_cell_def split: option.splits)

lemma createId_linksD: "createId m = (i, m') \<Longrightarrow> links m' = links m"
  using createId_links [of m] by simp

lemma drop_cell_links [simp]: "links (drop_cell c m) = links m"
  by (simp add: drop_cell_def split: option.splits)

lemma give_id_links [simp]: "links (give_id c m) = links m"
  by (simp add: give_id_def createId_linksD split: prod.splits)

lemma raise_nextId_links [simp]: "links (raise_nextId c m) = links m"
  by (simp add: raise_nextId_def split: option.splits)

lemma enter_cell_links: "enter_cell c m = Some m' \<Longrightarrow> links m' = links m"
  by (auto simp: enter_cell_def id_loop_links split: if_splits)

lemma register_cell_links: "register_cell c m = Some m' \<Longrightarrow> links m' = links m"
  by (auto simp: register_cell_def dest!: enter_cell_links)

lemma cellAdded_n_links: "cellAdded_n n c m = Some m' \<Longrightarrow> links m' = links m"
proof (induction n arbitrary: c m m')
  case 0
  then show ?case by (cases c) auto
next
  case (Suc n)
  show ?case
  proof (cases c)
    case (Some x)
    with Suc.prems obtain m1 where "register_cell x m = Some m1"
      and l: "for_each (\<lambda>i m. cellAdded_n n (cell_getChildAt x i m) m)
        (upto_count (cell_getChildCount x m1)) m1 = Some m'" by (auto split: option.splits)
    moreover have "links m' = links m1"
      by (rule for_each_inv [OF l]) (simp_all add: Suc.IH)
    ultimately show ?thesis using register_cell_links by metis
  qed (use Suc.prems in auto)
qed

lemma cellRemoved_n_links: "cellRemoved_n n c m = Some m' \<Longrightarrow> links m' = links m"
proof (induction n arbitrary: c m m')
  case 0
  then show ?case by (cases c) (auto split: if_splits)
next
  case (Suc n)
  show ?case
  proof (cases c)
    case (Some x)
    show ?thesis
    proof (cases "m_cells m = None")
      case True
      with Suc.prems Some show ?thesis by auto
    next
      case False
      with Suc.prems Some obtain m1 where
        l: "for_each (\<lambda>i m. cellRemoved_n n (cell_getChildAt x i m) m)
          (rev (upto_count (cell_getChildCount x m))) m = Some m1" and m': "links m' = links m1"
        by (auto split: option.splits)
      have "links m1 = links m"
        by (rule for_each_inv [OF l]) (simp_all add: Suc.IH)
      with m' show ?thesis by simp
    qed
  qed (use Suc.prems in auto)
qed

lemmas added_removed_links = cellAdded_n_links cellRemoved_n_links

lemma struct_inv_parentForCellChanged:
  assumes "struct_inv m" and "parentForCellChanged c p i m = Some (q, m')"
  shows "struct_inv m'"
proof -
  define m1 where "m1 = (case p of
             Some x \<Rightarrow>
               (if p \<noteq> getParent c m \<or> Some (cell_getIndex (the (getParent c m)) (the c) m) \<noteq> i
                then cell_insert x c i m else m)
           | None \<Rightarrow>
               (case getParent c m of
                  None \<Rightarrow> m
                | Some q \<Rightarrow> snd (cell_remove q (cell_getIndex q (the c) m) m)))"
  have "struct_inv m1"
    using assms(1) by (auto simp: m1_def struct_inv_insert struct_inv_remove split: option.splits)
  moreover have "links m' = links m1"
    using assms(2) unfolding parentForCellChanged_def Let_def m1_def [symmetric]
    by (auto simp: cellAdded_def cellRemoved_def added_removed_links split: option.splits if_splits)
  ultimately show ?thesis using struct_inv_links by blast
qed

lemma struct_inv_rootChanged:
  "struct_inv m \<Longrightarrow> rootChanged rt m = Some (q, m') \<Longrightarrow> struct_inv m'"
proof -
  assume a: "struct_inv m" "rootChanged rt m = Some (q, m')"
  then have "links m' = links m"
    by (auto simp: rootChanged_def cellAdded_def Let_def dest!: cellAdded_n_links)
  with a(1) show ?thesis using struct_inv_links by blast
qed


text \<open>Connecting and disconnecting the edges of a subtree.\<close>

lemma edge_inv_setTerminal:
  assumes "edge_inv h" and "cell_getTerminal e b h = None \<or> cell_getTerminal e b h = t"
  shows "edge_inv (cell_setTerminal e t b h)"
proof -
  have "\<exists>b'. cell_getTerminal x b' (cell_setTerminal e t b h) = Some q"
    if x: "x \<in> set (edges_of h q)" for x q
  proof -
    from edge_inv_terminal [OF assms(1) x] obtain b' where b': "cell_getTerminal x b' h = Some q" ..
    with assms(2) have "cell_getTerminal x b' (cell_setTerminal e t b h) = Some q" by auto
    then show ?thesis ..
  qed
  then show ?thesis using edge_invD(1) [OF assms(1)] by (simp add: edge_inv_def)
qed

lemma terminalForCellChanged_getTerminal:
  "cell_getTerminal c b' (snd (terminalForCellChanged (Some e) t b h)) =
     (if c = e \<and> b' = b then t else cell_getTerminal c b' h)"
  by (auto simp: terminalForCellChanged_def getTerminal_def Let_def insertEdge_getTerminal
      removeEdge_getTerminal split: option.splits)

lemma connect_terminal_getTerminal:
  assumes "t = cell_getTerminal e b h"
  shows "cell_getTerminal c b' (connect_terminal e isC t b h) =
     (if c = e \<and> b' = b then (if isC then t else None) else cell_getTerminal c b' h)"
  using assms by (auto simp: connect_terminal_def terminalForCellChanged_getTerminal)

lemma struct_inv_connect_terminal: "struct_inv h \<Longrightarrow> struct_inv (connect_terminal e isC t b h)"
  by (simp add: connect_terminal_def struct_inv_terminalForCellChanged)

lemma struct_inv_connect_cell:
  assumes "struct_inv h"
  shows "struct_inv (connect_cell c isC h)"
proof -
  let ?s = "cell_getTerminal c True h" and ?t = "cell_getTerminal c False h"
  define h1 where "h1 = connect_terminal c isC ?s True h"
  define h2 where "h2 = connect_terminal c isC ?t False h1"
  have t1: "cell_getTerminal c False h1 = ?t"
    by (simp add: h1_def connect_terminal_getTerminal)
  have inv: "struct_inv h2"
    using assms by (simp add: h1_def h2_def struct_inv_connect_terminal)
  have s2: "cell_getTerminal c True h2 = None \<or> cell_getTerminal c True h2 = ?s"
    and t2: "cell_getTerminal c False h2 = None \<or> cell_getTerminal c False h2 = ?t"
    using t1 by (simp_all add: h2_def connect_terminal_getTerminal [of ?t c False h1])
      (simp add: h1_def connect_terminal_getTerminal)
  from inv have "edge_inv h2" "tree_inv h2" by (simp_all add: struct_inv_def)
  from edge_inv_setTerminal [OF this(1) s2]
  have "edge_inv (cell_setTerminal c ?s True h2)" .
  from edge_inv_setTerminal [OF this, of c False ?t] t2
  have "edge_inv (cell_setTerminal c ?t False (cell_setTerminal c ?s True h2))" by simp
  with \<open>tree_inv h2\<close> show ?thesis
    by (simp add: struct_inv_def connect_cell_def Let_def h1_def h2_def)
qed

lemma struct_inv_connect_n:
  "connect_n n c isC h = Some h' \<Longrightarrow> struct_inv h \<Longrightarrow> struct_inv h'"
proof (induction n arbitrary: c h h')
  case 0
  then show ?case by (cases c) auto
next
  case (Suc n)
  show ?case
  proof (cases c)
    case (Some x)
    from Suc.prems(1) have l: "for_each (\<lambda>i m. connect_n n (cell_getChildAt x i m) isC m)
        (upto_count (cell_getChildCount x (connect_cell x isC h))) (connect_cell x isC h) = Some h'"
      by (simp add: Some Let_def)
    show ?thesis
      by (rule for_each_inv [OF l, where P = struct_inv])
        (rule struct_inv_connect_cell [OF Suc.prems(2)], rule Suc.IH)
  qed (use Suc.prems in auto)
qed

lemma struct_inv_connect: "connect c isC h = Some h' \<Longrightarrow> struct_inv h \<Longrightarrow> struct_inv h'"
  unfolding connect_def by (rule struct_inv_connect_n)

subsection \<open>Changes, transactions and setters\<close>

lemma struct_inv_child_change:
  assumes "execute_child_change p q i j c m = Some (d, m')" and "struct_inv m"
  shows "struct_inv m'"
proof (cases c)
  case None
  with assms show ?thesis by (simp add: execute_child_change_def)
next
  case (Some x)
  with assms(1) obtain m1 r m2 where
    1: "(if q = None then connect c False m else Some m) = Some m1" and
    2: "parentForCellChanged c q j m1 = Some (r, m2)" and
    3: "(if q \<noteq> None then connect c True m2 else Some m2) = Some m'"
    by (auto simp: execute_child_change_def Let_def bind_eq_Some_conv)
  from 1 assms(2) have "struct_inv m1" using struct_inv_connect by (auto split: if_splits)
  from struct_inv_parentForCellChanged [OF this 2] have "struct_inv m2" .
  with 3 show ?thesis using struct_inv_connect by (auto split: if_splits)
qed

lemma struct_inv_exec_change:
  assumes "exec_change c m = Some (d, m')" and "struct_inv m"
  shows "struct_inv m'"
proof (cases c)
  case (RootChange x1 x2)
  with assms show ?thesis by (auto dest: struct_inv_rootChanged)
next
  case (ChildChange x1 x2 x3 x4 x5)
  with assms show ?thesis by (auto intro: struct_inv_child_change)
next
  case (TerminalChange x1 x2 x3 x4)
  with assms struct_inv_terminalForCellChanged [OF assms(2), of x1 x3 x4] show ?thesis
    by (auto simp: split_beta split: option.splits)
next
  case (CellAttributeChange x1 x2 x3 x4)
  with assms have "links m' = links m"
    by (auto simp: execute_attribute_change_def Let_def split: option.splits user_value.splits)
  with assms(2) show ?thesis using struct_inv_links by blast
qed (use assms in \<open>auto simp: valueForCellChanged_def cell_valueChanged_def
    styleForCellChanged_def geometryForCellChanged_def collapsedStateForCellChanged_def
    visibleStateForCellChanged_def Let_def struct_inv_links [OF links_setters(2)]
    struct_inv_links [OF links_setters(3)] struct_inv_links [OF links_setters(4)]
    struct_inv_links [OF links_setters(5)] struct_inv_links [OF links_setters(6)]
    split: option.splits\<close>)

lemma struct_inv_execute:
  assumes "m_execute c m = Some m'" and "struct_inv m"
  shows "struct_inv m'"
proof -
  from assms(1) obtain d m1 where "exec_change c m = Some (d, m1)" and "links m' = links m1"
    by (auto simp: m_execute_def Let_def)
  with struct_inv_exec_change [OF this(1) assms(2)] struct_inv_links show ?thesis by blast
qed

lemma struct_inv_update: "struct_inv (beginUpdate m) = struct_inv m" "struct_inv (endUpdate m) = struct_inv m"
  using struct_inv_links [OF links_update(1)] struct_inv_links [OF links_update(2)] by blast+

subsection \<open>The operations a client calls\<close>

text \<open>
  Every operation that modifies the model goes through \<open>execute\<close>, \<open>beginUpdate\<close> and
  \<open>endUpdate\<close>, and allocates geometries.  What these keep, all of them keep.
\<close>

lemmas setter_defs = m_setValue_def m_setGeometry_def m_setStyle_def setCollapsed_def
  setVisible_def setRoot_def m_remove_def

lemma updateEdgeParent_cases:
  assumes "updateEdgeParent addf e rt m = Some m'"
  obtains "m' = m" | c where "move_edge addf e c m = Some m'"
  using assms unfolding updateEdgeParent_def
  by (auto simp: bind_eq_Some_conv split: if_splits option.splits)

locale kept_by_changes =
  fixes P :: "mxGraphModel \<Rightarrow> bool"
  assumes kept_execute: "m_execute c m = Some m' \<Longrightarrow> P m \<Longrightarrow> P m'"
    and kept_alloc: "P m \<Longrightarrow> P (snd (alloc_geo g m))"
begin

lemma kept_setters:
  assumes "P m"
  shows "m_setValue c v m = Some m' \<Longrightarrow> P m'"
    and "m_setGeometry c g m = Some m' \<Longrightarrow> P m'"
    and "m_setStyle c s m = Some m' \<Longrightarrow> P m'"
    and "setCollapsed c b m = Some m' \<Longrightarrow> P m'"
    and "setVisible c b m = Some m' \<Longrightarrow> P m'"
    and "setRoot c m = Some m' \<Longrightarrow> P m'"
    and "m_remove c m = Some m' \<Longrightarrow> P m'"
  using assms by (auto simp: setter_defs dest: kept_execute split: if_splits)

lemma kept_move_edge:
  assumes addf: "\<And>p c i m m'. addf p c i m = Some m' \<Longrightarrow> P m \<Longrightarrow> P m'"
    and "move_edge addf e c m = Some m'" and "P m"
  shows "P m'"
proof -
  from assms(2) obtain m1 where
    1: "(case cell_getGeometry e m of
          None \<Rightarrow> Some m
        | Some g \<Rightarrow>
            (case (getOrigin (cell_getParent e m) m, getOrigin (Some c) m) of
               (Some origin1, Some origin2) \<Rightarrow>
                 (let dx = px origin2 - px origin1; dy = py origin2 - py origin1;
                      (geo, m) = alloc_geo (geo_translate (- dx) (- dy) (geo_at m g)) m
                  in m_setGeometry (Some e) (Some geo) m)
             | _ \<Rightarrow> None)) = Some m1"
    and 2: "addf (Some c) (Some e) (Some (cell_getChildCount c m1)) m1 = Some m'"
    unfolding move_edge_def bind_eq_Some_conv by blast
  have "P m1"
    using 1 assms(3) kept_alloc
    by (auto simp: split_beta Let_def intro: kept_setters(2) split: option.splits)
  with 2 addf show ?thesis by blast
qed

lemma kept_updateEdgeParent:
  assumes addf: "\<And>p c i m m'. addf p c i m = Some m' \<Longrightarrow> P m \<Longrightarrow> P m'"
    and "updateEdgeParent addf e rt m = Some m'" and "P m"
  shows "P m'"
  using assms(2)
proof (cases rule: updateEdgeParent_cases)
  case 1
  with assms(3) show ?thesis by simp
next
  case (2 c)
  show ?thesis by (rule kept_move_edge [of addf, OF addf 2 assms(3)])
qed

lemma kept_updateEdgeParents_n:
  assumes addf: "\<And>p c i m m'. addf p c i m = Some m' \<Longrightarrow> P m \<Longrightarrow> P m'"
  shows "updateEdgeParents_n n addf c rt m = Some m' \<Longrightarrow> P m \<Longrightarrow> P m'"
proof (induction n arbitrary: c rt m m')
  case 0
  then show ?case by (cases c) auto
next
  case (Suc n)
  show ?case
  proof (cases c)
    case (Some x)
    with Suc.prems(1) obtain r m1 where
      1: "for_each (\<lambda>i m. updateEdgeParents_n n addf (cell_getChildAt x i m) r m)
          (upto_count (cell_getChildCount x m)) m = Some m1" and
      2: "for_each (\<lambda>edge m. Option.bind (isAncestor r (Some edge) m) (\<lambda>inside.
          if inside then updateEdgeParent addf edge r m else Some m)) (edges_of m1 x) m1 = Some m'"
      by (auto simp: bind_eq_Some_conv)
    have "P m1"
      by (rule for_each_inv [OF 1, where P = P]) (rule Suc.prems(2), rule Suc.IH)
    then show ?thesis
      by (rule for_each_inv [OF 2, where P = P])
        (auto simp: bind_eq_Some_conv split: if_splits intro: kept_updateEdgeParent [of addf, OF addf])
  qed (use Suc.prems in auto)
qed

lemma kept_add_n: "add_n n p c i m = Some m' \<Longrightarrow> P m \<Longrightarrow> P m'"
proof (induction n arbitrary: p c i m m')
  case 0
  then show ?case
    by (auto simp: add_n.simps [of 0] Let_def bind_eq_Some_conv split: if_splits
        intro: kept_execute)
next
  case (Suc n)
  show ?case
  proof (cases "c \<noteq> p \<and> p \<noteq> None \<and> c \<noteq> None")
    case False
    with Suc.prems show ?thesis by (auto simp: add_n.simps [of "Suc n"])
  next
    case True
    from Suc.prems(1) obtain k m1 where e: "m_execute (new_mxChildChange p c k) m = Some m1"
      and u: "(if maintainEdgeParent m1 \<and> p \<noteq> getParent c m
            then updateEdgeParents (add_n n) c None m1 else Some m1) = Some m'"
      unfolding add_n.simps [of "Suc n"] Let_def if_P [OF True] bind_eq_Some_conv nat.case
      by blast
    from kept_execute [OF e Suc.prems(2)] have "P m1" .
    with u show ?thesis
      by (auto simp: updateEdgeParents_def split: if_splits
          intro: kept_updateEdgeParents_n [of "add_n n", OF Suc.IH])
  qed
qed

lemma kept_add: "m_add p c i m = Some m' \<Longrightarrow> P m \<Longrightarrow> P m'"
  unfolding m_add_def by (rule kept_add_n)

lemma kept_setTerminal:
  assumes "setTerminal e t b m = Some m'" and "P m"
  shows "P m'"
proof -
  from assms(1) obtain m1 where e: "m_execute (new_mxTerminalChange e t b) m = Some m1"
    and u: "(if maintainEdgeParent m1 \<and> t \<noteq> getTerminal e b m
        then (case e of None \<Rightarrow> Some m1 | Some x \<Rightarrow> updateEdgeParent m_add x (m_root m1) m1)
        else Some m1) = Some m'"
    by (auto simp: setTerminal_def Let_def bind_eq_Some_conv)
  from kept_execute [OF e assms(2)] have "P m1" .
  with u show ?thesis
    by (auto split: if_splits option.splits intro: kept_updateEdgeParent [of m_add, OF kept_add])
qed

end

locale kept_by_updates = kept_by_changes P for P :: "mxGraphModel \<Rightarrow> bool" +
  assumes kept_begin: "P m \<Longrightarrow> P (beginUpdate m)"
    and kept_end: "P m \<Longrightarrow> P (endUpdate m)"
begin

lemma kept_setTerminals: "setTerminals e s t m = Some m' \<Longrightarrow> P m \<Longrightarrow> P m'"
  unfolding setTerminals_def map_option_eq_Some bind_eq_Some_conv
  by (metis kept_begin kept_end kept_setTerminal)

end

interpretation sinv: kept_by_updates struct_inv
proof
  show "struct_inv m \<Longrightarrow> struct_inv (snd (alloc_geo g m))" for g and m :: mxGraphModel
    using struct_inv_links [OF links_alloc_geo] by blast
qed (simp_all add: struct_inv_execute struct_inv_update)

text \<open>New cells: the store never uses the links of a cell that is not allocated yet.\<close>

definition fresh_links :: "'a heap_scheme \<Rightarrow> bool" where
  "fresh_links h \<longleftrightarrow> (\<forall>c \<ge> ncells h. links h c = (None, None, None, None, None))"

lemma alloc_blank:
  assumes "fresh_links h" and "c_parent x = None" "c_children x = None" "c_source x = None"
    "c_target x = None" "c_edges x = None"
  shows "links (snd (alloc_cell x h)) = links h" and "fresh_links (snd (alloc_cell x h))"
proof -
  have "links h (ncells h) = (None, None, None, None, None)"
    using assms(1) by (simp add: fresh_links_def)
  then show l: "links (snd (alloc_cell x h)) = links h"
    using assms(2-) by (auto simp: links_def alloc_cell_def fun_eq_iff)
  show "fresh_links (snd (alloc_cell x h))"
    using assms(1) unfolding fresh_links_def l by (simp add: alloc_cell_def)
qed

lemma struct_inv_createRoot:
  assumes "struct_inv m" and "fresh_links m"
  shows "struct_inv (snd (createRoot m))"
proof -
  let ?x = "blank_cell\<lparr>c_value := None, c_geometry := None, c_style := None\<rparr>"
  have b: "c_parent ?x = None" "c_children ?x = None" "c_source ?x = None" "c_target ?x = None"
    "c_edges ?x = None" by (simp_all add: blank_cell_def)
  let ?m1 = "snd (alloc_cell ?x m)" let ?m2 = "snd (alloc_cell ?x ?m1)"
  have "links ?m2 = links m"
    using alloc_blank [OF assms(2) b] alloc_blank [OF alloc_blank(2) [OF assms(2) b] b] by simp
  then have "struct_inv ?m2" using assms(1) struct_inv_links by blast
  then show ?thesis
    by (simp add: createRoot_def new_mxCell_def split_beta struct_inv_insert)
qed

lemma links_empty: "links empty_model c = (None, None, None, None, None)"
  by (simp add: links_def empty_model_def blank_cell_def)

lemma struct_inv_empty: "struct_inv empty_model" "fresh_links empty_model"
  using links_empty
  by (auto simp: struct_inv_def tree_inv_def edge_inv_def children_of_def edges_of_def fresh_links_def
      empty_model_def blank_cell_def)

lemma struct_inv_clear:
  "m_clear m = Some m' \<Longrightarrow> struct_inv m \<Longrightarrow> fresh_links m \<Longrightarrow> struct_inv m'"
  using struct_inv_createRoot [of m]
  by (auto simp: m_clear_def split_beta intro: sinv.kept_setters(6))

lemma struct_inv_new:
  assumes "new_mxGraphModel rt m = Some m'" "struct_inv m" "fresh_links m"
  shows "struct_inv m'"
proof -
  let ?m = "m\<lparr>currentEdit := createUndoableEdit None\<rparr>"
  have "struct_inv ?m" using assms(2) struct_inv_links [OF links_model_fields(4)] by blast
  moreover have "fresh_links ?m" using assms(3) by (simp add: fresh_links_def)
  ultimately show ?thesis
    using assms(1) struct_inv_clear
    by (auto simp: new_mxGraphModel_def Let_def intro: sinv.kept_setters(6) split: option.splits)
qed

end
