(* ===== verification/ModelIds.thy ===== *)
theory ModelIds
  imports ModelInv
begin

text \<open>
  Identifiers of cells: the loop of \<open>cellAdded\<close> that draws identifiers ends, the identifier it
  finds is new, and the table of cells stays a function from identifiers to the cells that
  carry them.
\<close>

definition drawn_id :: "mxGraphModel \<Rightarrow> jsnum \<Rightarrow> string" where
  "drawn_id m q = m_prefix m @ js_num_string q @ m_postfix m"

definition table_ids :: "mxGraphModel \<Rightarrow> string set" where
  "table_ids m = fst ` set (entries (m_cells m))"

text \<open>Two numbers that are a whole number apart print differently.\<close>

lemma js_num_string_digits:
  assumes "0 \<le> q"
  shows "takeWhile is_digit (js_num_string q) = nat_string (nat \<lfloor>q\<rfloor>)"
proof -
  have d: "\<forall>c \<in> set (nat_string (nat \<lfloor>q\<rfloor>)). is_digit c" using nat_string_digits by blast
  then have "takeWhile is_digit (nat_string (nat \<lfloor>q\<rfloor>) @ r) = nat_string (nat \<lfloor>q\<rfloor>)"
    if "r = [] \<or> (\<exists>f. r = CHR ''.'' # f)" for r
    using that is_digit_not(1) by (auto simp: takeWhile_append simp del: nat_string.simps)
  moreover have "\<bar>q\<bar> = q" "\<not> q < 0" using assms by simp_all
  ultimately show ?thesis by (simp add: js_num_string_def Let_def del: nat_string.simps)
qed

lemma js_num_string_apart:
  assumes "0 \<le> q" and "js_num_string (q + of_nat i) = js_num_string (q + of_nat j)"
  shows "i = j"
proof -
  have "0 \<le> q + of_nat k" for k using assms(1) by simp
  then have "nat_string (nat \<lfloor>q + of_nat i\<rfloor>) = nat_string (nat \<lfloor>q + of_nat j\<rfloor>)"
    using js_num_string_digits assms(2) by metis
  then have "nat \<lfloor>q + of_nat i\<rfloor> = nat \<lfloor>q + of_nat j\<rfloor>" by (simp del: nat_string.simps)
  moreover have "\<lfloor>q + of_nat k\<rfloor> = \<lfloor>q\<rfloor> + int k" for k
    by (metis floor_add_int of_int_of_nat_eq)
  moreover have "0 \<le> \<lfloor>q\<rfloor>" using assms(1) by simp
  ultimately show ?thesis by (simp add: nat_add_distrib del: zero_le_floor)
qed

lemma drawn_id_apart:
  "0 \<le> q \<Longrightarrow> drawn_id m (q + of_nat i) = drawn_id m (q + of_nat j) \<Longrightarrow> i = j"
  unfolding drawn_id_def using js_num_string_apart by simp

text \<open>The state a draw leaves.\<close>

lemma createId_drawn: "createId m = (drawn_id m (nextId m), m\<lparr>nextId := nextId m + 1\<rparr>)"
  by (simp add: createId_def drawn_id_def Let_def)

lemma model_fields_upd [simp]:
  "m_cells (upd c f m) = m_cells m" "nextId (upd c f m) = nextId m"
  "m_prefix (upd c f m) = m_prefix m" "m_postfix (upd c f m) = m_postfix m"
  "createIds (upd c f m) = createIds m" "m_root (upd c f m) = m_root m"
  by (simp_all add: upd_def)

lemma getCell_None_iff: "getCell (Some i) m = None \<longleftrightarrow> i \<notin> table_ids m"
  by (cases "m_cells m") (simp_all add: getCell_def table_ids_def map_of_eq_None_iff)

lemma getCell_cells: "m_cells m = m_cells m' \<Longrightarrow> getCell i m = getCell i m'"
  by (simp add: getCell_def)

definition draw :: "cref \<Rightarrow> mxGraphModel \<Rightarrow> mxGraphModel" where
  "draw c m = (let (i, m) = createId m in cell_setId c (Some i) m)"

lemma draw_fields [simp]:
  "m_cells (draw c m) = m_cells m" "nextId (draw c m) = nextId m + 1"
  "cell_getId c (draw c m) = Some (drawn_id m (nextId m))"
  "d \<noteq> c \<Longrightarrow> cell_getId d (draw c m) = cell_getId d m"
  "m_prefix (draw c m) = m_prefix m" "m_postfix (draw c m) = m_postfix m"
  "createIds (draw c m) = createIds m"
  by (simp_all add: draw_def createId_drawn cell_field_defs cell_getId_def)

lemma drawn_id_draw [simp]: "drawn_id (draw c m) q = drawn_id m q"
  by (simp add: drawn_id_def)

lemma id_loop_Suc:
  "id_loop (Suc n) c m =
     (case getCell (cell_getId c m) m of None \<Rightarrow> Some m | Some _ \<Rightarrow> id_loop n c (draw c m))"
  by (simp add: id_loop.simps [of "Suc n"] draw_def split: option.splits prod.splits)

lemma id_loop_None:
  "id_loop n c m = None \<Longrightarrow> k < n \<Longrightarrow> drawn_id m (nextId m + of_nat k) \<in> table_ids m"
proof (induction n arbitrary: m k)
  case (Suc n)
  let ?m = "draw c m"
  have loop: "id_loop n c ?m = None"
    using Suc.prems(1) by (simp add: id_loop_Suc split: option.splits)
  show ?case
  proof (cases k)
    case 0
    have "getCell (cell_getId c ?m) ?m \<noteq> None"
      using loop by (cases n) (auto simp: id_loop.simps [of 0] id_loop_Suc split: option.splits)
    then have "getCell (Some (drawn_id m (nextId m))) m \<noteq> None"
      using getCell_cells [of ?m m] by simp
    with 0 getCell_None_iff show ?thesis by auto
  next
    case (Suc j)
    with Suc.prems(2) Suc.IH [OF loop, of j] show ?thesis
      by (simp add: table_ids_def algebra_simps)
  qed
qed simp

text \<open>The pigeonhole argument: the table is smaller than the number of draws.\<close>

lemma id_loop_ends:
  assumes "0 \<le> nextId m"
  shows "id_loop (Suc (cells_size m)) c m \<noteq> None"
proof
  assume none: "id_loop (Suc (cells_size m)) c m = None"
  let ?f = "\<lambda>k. drawn_id m (nextId m + of_nat k)"
  have "inj_on ?f {..<Suc (cells_size m)}"
    using drawn_id_apart [OF assms] by (auto intro: inj_onI)
  then have "card (?f ` {..<Suc (cells_size m)}) = Suc (cells_size m)"
    by (simp add: card_image)
  moreover have "?f ` {..<Suc (cells_size m)} \<subseteq> table_ids m"
    using id_loop_None [OF none] by auto
  moreover have "card (table_ids m) \<le> cells_size m"
    unfolding table_ids_def cells_size_def
    by (cases "m_cells m") (auto intro: order_trans [OF card_image_le] simp: card_length)
  ultimately show False
    by (metis card_mono finite_imageI finite_set not_less_eq_eq order_trans table_ids_def)
qed

lemma id_loop_free:
  "id_loop n c m = Some m' \<Longrightarrow>
   getCell (cell_getId c m') m' = None \<and> m_cells m' = m_cells m \<and>
   (\<forall>d. d \<noteq> c \<longrightarrow> cell_getId d m' = cell_getId d m) \<and> nextId m \<le> nextId m' \<and>
   (cell_getId c m \<noteq> None \<longrightarrow> cell_getId c m' \<noteq> None)"
proof (induction n arbitrary: m)
  case 0
  then show ?case by (auto simp: id_loop.simps [of 0] split: option.splits)
next
  case (Suc n)
  show ?case
  proof (cases "getCell (cell_getId c m) m")
    case None
    with Suc.prems show ?thesis by (auto simp: id_loop_Suc)
  next
    case (Some d)
    with Suc.prems have "id_loop n c (draw c m) = Some m'" by (simp add: id_loop_Suc)
    from Suc.IH [OF this] show ?thesis by auto
  qed
qed

subsection \<open>The table of cells\<close>

text \<open>
  Every entry of the table carries its key as its identifier, keys do not repeat, and the
  counter is not negative.
\<close>

definition table_inv :: "mxGraphModel \<Rightarrow> bool" where
  "table_inv m \<longleftrightarrow>
     distinct (map fst (entries (m_cells m))) \<and>
     (\<forall>(i, c) \<in> set (entries (m_cells m)). cell_getId c m = Some i) \<and> 0 \<le> nextId m"

lemma table_inv_getCell: "table_inv m \<Longrightarrow> getCell i m = Some c \<Longrightarrow> cell_getId c m = i"
  by (cases "m_cells m"; cases i) (auto simp: table_inv_def getCell_def dest!: map_of_SomeD)

lemma table_inv_entry:
  assumes "table_inv m" and "cell_getId c m = i" and "(j, c) \<in> set (entries (m_cells m))"
  shows "i = Some j \<and> getCell i m = Some c"
proof -
  have "cell_getId c m = Some j" "distinct (map fst (entries (m_cells m)))"
    using assms(1,3) by (auto simp: table_inv_def)
  with assms(2,3) show ?thesis by (cases "m_cells m") (auto simp: getCell_def)
qed

text \<open>Changing the identifier of a cell that is not in the table does not disturb it.\<close>

lemma table_inv_ids:
  assumes "table_inv m" and "m_cells m' = m_cells m" and "0 \<le> nextId m'"
    and "\<And>d. d \<noteq> c \<Longrightarrow> cell_getId d m' = cell_getId d m"
    and "\<And>j. (j, c) \<in> set (entries (m_cells m)) \<Longrightarrow> cell_getId c m' = cell_getId c m"
  shows "table_inv m'"
proof -
  have "cell_getId d m' = Some i" if d: "(i, d) \<in> set (entries (m_cells m))" for i d
  proof -
    have "cell_getId d m = Some i" using assms(1) d by (auto simp: table_inv_def)
    with assms(4,5) d show ?thesis by (cases "d = c") auto
  qed
  with assms(1-3) show ?thesis by (auto simp: table_inv_def)
qed

lemma update_set: "i \<notin> fst ` set al \<Longrightarrow> set (AList.update i v al) = insert (i, v) (set al)"
  by (induction al) auto

lemma table_inv_put:
  assumes "table_inv m" and "getCell (cell_getId c m) m = None"
  shows "table_inv (put_cell c m)"
proof (cases "cell_getId c m")
  case None
  with assms(1) show ?thesis by (simp add: put_cell_def)
next
  case (Some i)
  then have "i \<notin> fst ` set (entries (m_cells m))"
    using assms(2) getCell_None_iff by (simp add: table_ids_def)
  with assms(1) Some show ?thesis
    by (auto simp: put_cell_def table_inv_def update_set distinct_update cell_getId_def)
qed

lemma getCell_put:
  "cell_getId c m = Some i \<Longrightarrow> getCell j (put_cell c m) = (if j = Some i then Some c else getCell j m)"
  by (cases "m_cells m"; cases j) (auto simp: put_cell_def getCell_def update_conv')

lemma give_id_draw:
  "give_id c m = (if cell_getId c m = None \<and> createIds m then draw c m else m)"
  by (simp add: give_id_def draw_def)

lemma table_inv_give:
  assumes "table_inv m"
  shows "table_inv (give_id c m)"
proof (cases "cell_getId c m = None \<and> createIds m")
  case True
  have "(j, c) \<notin> set (entries (m_cells m))" for j
    using table_inv_entry [OF assms, of c None j] True by auto
  then have "table_inv (draw c m)"
    by (intro table_inv_ids [OF assms, of _ c]) (use assms in \<open>auto simp: table_inv_def\<close>)
  with True show ?thesis by (simp add: give_id_draw)
next
  case False
  then have "give_id c m = m" unfolding give_id_draw by (rule if_not_P)
  with assms show ?thesis by simp
qed

lemma enter_cell_spec:
  assumes "table_inv m"
  shows "\<exists>m'. enter_cell c m = Some m' \<and> table_inv m' \<and>
     (cell_getId c m \<noteq> None \<longrightarrow> cell_getId c m' \<noteq> None \<and> getCell (cell_getId c m') m' = Some c) \<and>
     (\<forall>i d. getCell i m = Some d \<longrightarrow> getCell i m' = Some d)"
proof (cases "cell_getId c m \<noteq> None \<and> getCell (cell_getId c m) m \<noteq> Some c")
  case False
  then have "enter_cell c m = Some m" unfolding enter_cell_def by (rule if_not_P)
  with assms False show ?thesis by auto
next
  case True
  have "0 \<le> nextId m" using assms by (simp add: table_inv_def)
  from id_loop_ends [OF this, of c] obtain m1 where m1: "id_loop (Suc (cells_size m)) c m = Some m1"
    by blast
  from id_loop_free [OF m1] True have free: "getCell (cell_getId c m1) m1 = None"
    "m_cells m1 = m_cells m" "\<And>d. d \<noteq> c \<Longrightarrow> cell_getId d m1 = cell_getId d m"
    "nextId m \<le> nextId m1" and "cell_getId c m1 \<noteq> None" by auto
  then obtain i where i: "cell_getId c m1 = Some i" by blast
  have "(j, c) \<notin> set (entries (m_cells m))" for j
    using table_inv_entry [OF assms refl, of j c] True by auto
  then have "table_inv m1"
    using free \<open>0 \<le> nextId m\<close> by (intro table_inv_ids [OF assms, of m1 c]) auto
  from table_inv_put [OF this free(1)] have "table_inv (put_cell c m1)" .
  moreover have "getCell j (put_cell c m1) = Some d" if "getCell j m = Some d" for j d
    using that free(1) i getCell_put [OF i, of j] getCell_cells [OF free(2), of j] by auto
  moreover have "cell_getId c (put_cell c m1) = Some i"
    using i by (simp add: put_cell_def cell_getId_def)
  moreover have "enter_cell c m = Some (put_cell c m1)" using True m1 by (simp add: enter_cell_def)
  ultimately show ?thesis using getCell_put [OF i, of "Some i"] by auto
qed

lemma raise_nextId_spec:
  "table_inv m \<Longrightarrow> table_inv (raise_nextId c m)"
  "getCell i (raise_nextId c m) = getCell i m" "cell_getId d (raise_nextId c m) = cell_getId d m"
  by (auto simp: raise_nextId_def table_inv_def getCell_def cell_getId_def max_def split: option.splits)

lemma register_cell_spec:
  assumes "table_inv m"
  shows "\<exists>m'. register_cell c m = Some m' \<and> table_inv m' \<and>
     (cell_getId c m \<noteq> None \<or> createIds m \<longrightarrow> getCell (cell_getId c m') m' = Some c) \<and>
     (\<forall>i d. getCell i m = Some d \<longrightarrow> getCell i m' = Some d)"
proof -
  from enter_cell_spec [OF table_inv_give [OF assms, of c], of c]
  obtain m1 where m1: "enter_cell c (give_id c m) = Some m1" "table_inv m1"
    "cell_getId c (give_id c m) \<noteq> None \<longrightarrow> cell_getId c m1 \<noteq> None \<and> getCell (cell_getId c m1) m1 = Some c"
    "\<forall>i d. getCell i (give_id c m) = Some d \<longrightarrow> getCell i m1 = Some d" by blast
  have "getCell i (give_id c m) = getCell i m" for i
    by (auto simp: give_id_draw getCell_def)
  moreover have "cell_getId c m \<noteq> None \<or> createIds m \<Longrightarrow> cell_getId c (give_id c m) \<noteq> None"
    by (auto simp: give_id_draw)
  ultimately show ?thesis using m1 raise_nextId_spec(1) [of m1 c]
    by (auto simp: register_cell_def raise_nextId_spec(2,3))
qed


subsection \<open>Adding a subtree\<close>

definition registered :: "cref \<Rightarrow> mxGraphModel \<Rightarrow> bool" where
  "registered c m \<longleftrightarrow> cell_getId c m \<noteq> None \<and> getCell (cell_getId c m) m = Some c"

lemma registered_mono:
  assumes "registered d m" and "table_inv m'" and "\<And>i d. getCell i m = Some d \<Longrightarrow> getCell i m' = Some d"
  shows "registered d m'"
proof -
  from assms(1,3) have g: "getCell (cell_getId d m) m' = Some d" "cell_getId d m \<noteq> None"
    by (auto simp: registered_def)
  from table_inv_getCell [OF assms(2) g(1)] g show ?thesis by (simp add: registered_def)
qed

lemma createIds_ops [simp]:
  "createIds (give_id c m) = createIds m" "createIds (raise_nextId c m) = createIds m"
  "createIds (put_cell c m) = createIds m"
  by (simp_all add: give_id_draw raise_nextId_def put_cell_def split: option.splits)

lemma createIds_id_loop: "id_loop n c m = Some m' \<Longrightarrow> createIds m' = createIds m"
proof (induction n arbitrary: m)
  case 0
  then show ?case by (auto simp: id_loop.simps [of 0] split: option.splits)
next
  case (Suc n)
  then show ?case by (auto simp: id_loop_Suc split: option.splits)
qed

lemma createIds_register: "register_cell c m = Some m' \<Longrightarrow> createIds m' = createIds m"
  by (auto simp: register_cell_def enter_cell_def createIds_id_loop split: if_splits)

lemma register_cell_registered:
  assumes "table_inv m" and "createIds m"
  obtains m' where "register_cell c m = Some m'" "table_inv m'" "createIds m'" "links m' = links m"
    "registered c m'" "\<And>d. registered d m \<Longrightarrow> registered d m'"
proof -
  from register_cell_spec [OF assms(1), of c] assms(2) obtain m' where
    m': "register_cell c m = Some m'" "table_inv m'" "getCell (cell_getId c m') m' = Some c"
      "\<forall>i d. getCell i m = Some d \<longrightarrow> getCell i m' = Some d" by auto
  from m'(3) have "registered c m'"
    by (cases "cell_getId c m'") (auto simp: registered_def getCell_def split: option.splits)
  with m' assms that show thesis
    using createIds_register [OF m'(1)] register_cell_links [OF m'(1)] registered_mono by metis
qed

lemma for_each_collect:
  assumes "\<And>x s. x \<in> set xs \<Longrightarrow> P s \<Longrightarrow>
      \<exists>s'. f x s = Some s' \<and> P s' \<and> (\<forall>d \<in> D x. R d s') \<and> (\<forall>d. R d s \<longrightarrow> R d s')"
    and "P s"
  shows "\<exists>s'. for_each f xs s = Some s' \<and> P s' \<and> (\<forall>x \<in> set xs. \<forall>d \<in> D x. R d s') \<and>
      (\<forall>d. R d s \<longrightarrow> R d s')"
  using assms
proof (induction xs arbitrary: s)
  case (Cons x xs)
  from Cons.prems(1) [of x s] Cons.prems(2) obtain s1 where
    s1: "f x s = Some s1" "P s1" "\<forall>d \<in> D x. R d s1" "\<forall>d. R d s \<longrightarrow> R d s1" by auto
  from Cons.IH [OF Cons.prems(1) s1(2)] obtain s2 where
    "for_each f xs s1 = Some s2" "P s2" "\<forall>x \<in> set xs. \<forall>d \<in> D x. R d s2" "\<forall>d. R d s1 \<longrightarrow> R d s2"
    by auto
  with s1 show ?case by auto
qed simp

lemma cell_getChildAt_upto:
  "i \<in> set (upto_count (cell_getChildCount c h)) \<Longrightarrow>
   \<exists>d \<in> set (children_of h c). cell_getChildAt c i h = Some d"
  by (auto simp: upto_count_def cell_getChildCount_def cell_getChildAt_def children_of_def
      split: option.splits)

lemma upto_count_children:
  assumes "d \<in> set (children_of h c)"
  obtains i where "i \<in> set (upto_count (cell_getChildCount c h))" "cell_getChildAt c i h = Some d"
proof -
  obtain cs where cs: "c_children (cell_at h c) = Some cs" "children_of h c = cs"
    using assms by (cases "c_children (cell_at h c)") (auto simp: children_of_def)
  with assms obtain k where "k < length cs" "cs ! k = d" by (auto simp: in_set_conv_nth)
  with cs that [of "int k"] show thesis
    by (auto simp: upto_count_def cell_getChildCount_def cell_getChildAt_def)
qed

lemma getChildAt_links:
  "links h = links h' \<Longrightarrow> cell_getChildAt c i h = cell_getChildAt c i h'"
  "links h = links h' \<Longrightarrow> cell_getChildCount c h = cell_getChildCount c h'"
  by (auto simp: links_def fun_eq_iff cell_getChildAt_def cell_getChildCount_def)

lemma cellAdded_n_registers:
  assumes wf: "heap_wf m0" "tree_inv m0"
  shows "n + length (ancestors m0 c) \<ge> ncells m0 + 2 \<Longrightarrow>
    table_inv m \<Longrightarrow> createIds m \<Longrightarrow> links m = links m0 \<Longrightarrow>
    \<exists>m'. cellAdded_n n (Some c) m = Some m' \<and> (table_inv m' \<and> createIds m' \<and> links m' = links m0) \<and>
      (\<forall>d \<in> {d. c \<in> set (ancestors m0 d)}. registered d m') \<and>
      (\<forall>d. registered d m \<longrightarrow> registered d m')"
proof (induction n arbitrary: c m)
  case 0
  with ancestors_length [OF wf(1), of c] show ?case by (simp add: walk_fuel_def)
next
  case (Suc n)
  obtain m1 where
    m1: "register_cell c m = Some m1" "table_inv m1" "createIds m1" "links m1 = links m"
      "registered c m1" "\<And>d. registered d m \<Longrightarrow> registered d m1"
    by (rule register_cell_registered [OF Suc.prems(2,3), of c]) blast
  let ?P = "\<lambda>s. table_inv s \<and> createIds s \<and> links s = links m0"
  let ?D = "\<lambda>i. {d. the (cell_getChildAt c i m0) \<in> set (ancestors m0 d)}"
  have "\<exists>s'. for_each (\<lambda>i s. cellAdded_n n (cell_getChildAt c i s) s)
        (upto_count (cell_getChildCount c m0)) m1 = Some s' \<and> ?P s' \<and>
      (\<forall>i \<in> set (upto_count (cell_getChildCount c m0)). \<forall>d \<in> ?D i. registered d s') \<and>
      (\<forall>d. registered d m1 \<longrightarrow> registered d s')"
  proof (rule for_each_collect)
    fix i s
    assume i: "i \<in> set (upto_count (cell_getChildCount c m0))" and s: "?P s"
    from cell_getChildAt_upto [OF i] obtain e where
      e: "e \<in> set (children_of m0 c)" "cell_getChildAt c i m0 = Some e" by blast
    then have "cell_getParent e m0 = Some c" using children_getParent [OF wf(2)] by blast
    then have "length (ancestors m0 e) = Suc (length (ancestors m0 c))"
      by (simp add: ancestors_parent [OF wf(1), of e])
    with Suc.prems(1) have "n + length (ancestors m0 e) \<ge> ncells m0 + 2" by simp
    from Suc.IH [OF this] s e(2) getChildAt_links(1) [of s m0 c i]
    show "\<exists>s'. cellAdded_n n (cell_getChildAt c i s) s = Some s' \<and> ?P s' \<and>
        (\<forall>d \<in> ?D i. registered d s') \<and> (\<forall>d. registered d s \<longrightarrow> registered d s')"
      by simp
  qed (use m1 Suc.prems in simp)
  then obtain m2 where m2: "for_each (\<lambda>i s. cellAdded_n n (cell_getChildAt c i s) s)
        (upto_count (cell_getChildCount c m0)) m1 = Some m2" "?P m2"
    "\<And>i d. i \<in> set (upto_count (cell_getChildCount c m0)) \<Longrightarrow> d \<in> ?D i \<Longrightarrow> registered d m2"
    "\<And>d. registered d m1 \<Longrightarrow> registered d m2" by blast
  have "registered d m2" if "c \<in> set (ancestors m0 d)" for d
  proof -
    from that consider "d = c" | e where "e \<in> set (children_of m0 c)" "e \<in> set (ancestors m0 d)"
      using below_iff [OF wf, of c d] by blast
    then show ?thesis
    proof cases
      case 1
      with m1(5) m2(4) show ?thesis by simp
    next
      case 2
      from upto_count_children [OF 2(1)] obtain i where
        "i \<in> set (upto_count (cell_getChildCount c m0))" "cell_getChildAt c i m0 = Some e" .
      with 2(2) m2(3) [of i d] show ?thesis by simp
    qed
  qed
  moreover have "cellAdded_n (Suc n) (Some c) m = Some m2"
    using m1(1,4) m2(1) Suc.prems(4) getChildAt_links(2) [of m1 m0 c] by simp
  ultimately show ?case using m2 m1(6) by blast
qed

text \<open>Adding a subtree ends, and afterwards each of its cells is found under its identifier.\<close>

lemma cellAdded_registers:
  assumes "heap_wf m" and "tree_inv m" and "table_inv m" and "createIds m"
  shows "\<exists>m'. cellAdded (Some c) m = Some m' \<and> table_inv m' \<and> links m' = links m \<and>
     (\<forall>d. c \<in> set (ancestors m d) \<longrightarrow> registered d m') \<and>
     (\<forall>d. registered d m \<longrightarrow> registered d m')"
proof -
  have "length (ancestors m c) \<noteq> 0" using assms(1) by simp
  then have "walk_fuel m + length (ancestors m c) \<ge> ncells m + 2"
    by (simp add: walk_fuel_def Suc_le_eq)
  from cellAdded_n_registers [OF assms(1,2) this assms(3,4) refl] show ?thesis
    by (auto simp: cellAdded_def)
qed

lemma m_root_ops [simp]:
  "m_root (draw c m) = m_root m" "m_root (give_id c m) = m_root m"
  "m_root (raise_nextId c m) = m_root m" "m_root (put_cell c m) = m_root m"
  "m_root (drop_cell c m) = m_root m"
  by (simp_all add: draw_def createId_drawn cell_field_defs give_id_draw raise_nextId_def
      put_cell_def drop_cell_def split: option.splits)

lemma m_root_id_loop: "id_loop n c m = Some m' \<Longrightarrow> m_root m' = m_root m"
proof (induction n arbitrary: m)
  case 0
  then show ?case by (auto simp: id_loop.simps [of 0] split: option.splits)
next
  case (Suc n)
  then show ?case by (auto simp: id_loop_Suc split: option.splits)
qed

lemma m_root_register: "register_cell c m = Some m' \<Longrightarrow> m_root m' = m_root m"
  by (auto simp: register_cell_def enter_cell_def m_root_id_loop split: if_splits)

lemma m_root_cellAdded_n: "cellAdded_n n c m = Some m' \<Longrightarrow> m_root m' = m_root m"
proof (induction n arbitrary: c m m')
  case 0
  then show ?case by (cases c) auto
next
  case (Suc n)
  show ?case
  proof (cases c)
    case (Some x)
    with Suc.prems obtain m1 where "register_cell x m = Some m1"
      and l: "for_each (\<lambda>i m. cellAdded_n n (cell_getChildAt x i m) m)
        (upto_count (cell_getChildCount x m1)) m1 = Some m'" by (auto split: option.splits)
    moreover have "m_root m' = m_root m1"
      by (rule for_each_inv [OF l]) (simp_all add: Suc.IH)
    ultimately show ?thesis using m_root_register by metis
  qed (use Suc.prems in auto)
qed

lemma heap_wf_cells:
  "cell_at h' = cell_at h \<Longrightarrow> ncells h' = ncells h \<Longrightarrow> heap_wf h' = heap_wf h"
  by (simp add: heap_wf_def parent_rel_def cell_getParent_def)

lemma ancestors_cells:
  assumes "cell_at h' = cell_at h" "ncells h' = ncells h" "heap_wf h"
  shows "ancestors h' c = ancestors h c"
proof -
  have wf': "heap_wf h'" using assms heap_wf_cells by blast
  show ?thesis using assms(3)
  proof (induction c rule: heap_wf_induct)
    case (up c)
    have "cell_getParent c h' = cell_getParent c h" using assms(1) by (simp add: cell_getParent_def)
    with up show ?case
      by (simp add: ancestors_parent [OF wf', of c] ancestors_parent [OF assms(3), of c]
          split: option.splits)
  qed
qed

lemma rootChanged_registers_all:
  assumes "heap_wf m" and "tree_inv m" and "createIds m"
  shows "\<exists>m'. rootChanged (Some r) m = Some (m_root m, m') \<and> m_root m' = Some r \<and> table_inv m' \<and>
     (\<forall>d. r \<in> set (ancestors m d) \<longrightarrow> registered d m')"
proof -
  let ?m = "m\<lparr>m_root := Some r, nextId := 0, m_cells := None\<rparr>"
  have "heap_wf ?m" using assms(1) heap_wf_cells [of ?m m] by simp
  moreover have "tree_inv ?m" using assms(2) by (simp add: tree_inv_def children_of_def)
  moreover have "table_inv ?m" "createIds ?m" using assms(3) by (simp_all add: table_inv_def)
  ultimately obtain m' where m': "cellAdded (Some r) ?m = Some m'" "table_inv m'"
    "\<forall>d. r \<in> set (ancestors ?m d) \<longrightarrow> registered d m'"
    using cellAdded_registers [of ?m r] by blast
  moreover have "ancestors ?m d = ancestors m d" for d
    by (rule ancestors_cells [OF _ _ assms(1)]) simp_all
  moreover have "m_root m' = Some r"
    using m'(1) by (auto simp: cellAdded_def dest: m_root_cellAdded_n)
  ultimately show ?thesis by (auto simp: rootChanged_def)
qed

end
