(* ===== verification/ModelUndo.thy ===== *)
theory ModelUndo
  imports ModelIds "HOL-Library.Multiset"
begin

text \<open>
  The changes of the model as the operations of an edit, and what the operations on terminals and
  parents do to the fields of the cells.  The state of an edit is the model, or \<open>None\<close> once an
  operation has not completed.
\<close>

fun edit_event_to_model :: "change edit_event \<Rightarrow> model_event" where
  "edit_event_to_model START_EDIT = EvStartEdit"
| "edit_event_to_model (EXECUTED c) = EvExecuted c"
| "edit_event_to_model END_EDIT = EvEndEdit"

definition exec_opt :: "change \<Rightarrow> mxGraphModel option \<Rightarrow> change \<times> mxGraphModel option" where
  "exec_opt c s =
     (case s of
        None \<Rightarrow> (c, None)
      | Some m \<Rightarrow> (case exec_change c m of None \<Rightarrow> (c, None) | Some (d, m') \<Rightarrow> (d, Some m')))"

definition model_ops :: "(change, mxGraphModel option) edit_ops" where
  "model_ops =
     \<lparr>op_execute = (\<lambda>c. Some (exec_opt c)), op_undo = (\<lambda>c. None), op_redo = (\<lambda>c. None),
      op_fire = (\<lambda>ev. map_option (m_fire (edit_event_to_model ev))),
      op_notify = (\<lambda>e. map_option (notify_edit e))\<rparr>"

subsection \<open>Operations that touch cells only\<close>

definition only_cells :: "'a heap_scheme \<Rightarrow> 'a heap_scheme \<Rightarrow> bool" where
  "only_cells h h' \<longleftrightarrow> h' = h\<lparr>cell_at := cell_at h'\<rparr>"

lemma only_cells_refl [simp]: "only_cells h h"
  by (simp add: only_cells_def)

lemma only_cells_upd: "only_cells h h' \<Longrightarrow> only_cells h (upd c f h')"
  unfolding only_cells_def by (cases h; cases h') (simp add: upd_def)

lemma only_cells_setTerminal: "only_cells h h' \<Longrightarrow> only_cells h (cell_setTerminal e t b h')"
  by (simp add: cell_setTerminal_def only_cells_upd)

lemma only_cells_removeEdge: "only_cells h h' \<Longrightarrow> only_cells h (cell_removeEdge t e b h')"
  by (auto simp: cell_removeEdge_def Let_def intro!: only_cells_upd only_cells_setTerminal
      split: option.splits)

lemma only_cells_insertEdge: "only_cells h h' \<Longrightarrow> only_cells h (cell_insertEdge t e b h')"
  by (auto simp: cell_insertEdge_def cell_removeFromTerminal_def Let_def
      intro!: only_cells_upd only_cells_setTerminal only_cells_removeEdge split: option.splits)

lemma only_cells_terminal: "only_cells h (snd (terminalForCellChanged e t b h))"
  by (auto simp: terminalForCellChanged_def Let_def only_cells_insertEdge only_cells_removeEdge
      split: option.splits)

subsection \<open>Models that are the same\<close>

text \<open>
  Two models are the same when they differ in nothing but the order in which cells list their edges,
  an array that is missing or empty, the events fired so far and the edit under construction.
\<close>

definition cell_core :: "mxCell \<Rightarrow> mxCell" where
  "cell_core x = x\<lparr>c_edges := None, c_children := None\<rparr>"

definition graph_fields ::
  "mxGraphModel \<Rightarrow> nat \<times> (nat \<Rightarrow> mxGeometry) \<times> nat \<times> (nat \<Rightarrow> dom_element) \<times> nat \<times> cref option \<times>
     (string \<times> cref) list option \<times> bool \<times> bool \<times> bool \<times> string \<times> string \<times> jsnum" where
  "graph_fields m = (ncells m, geo_at m, ngeos m, node_at m, nnodes m, m_root m, m_cells m,
     maintainEdgeParent m, ignoreRelativeEdgeParent m, createIds m, m_prefix m, m_postfix m, nextId m)"

definition same_model :: "mxGraphModel \<Rightarrow> mxGraphModel \<Rightarrow> bool" where
  "same_model m m' \<longleftrightarrow>
     (\<forall>c. cell_core (cell_at m c) = cell_core (cell_at m' c)) \<and>
     (\<forall>c. children_of m c = children_of m' c) \<and>
     (\<forall>c. mset (edges_of m c) = mset (edges_of m' c)) \<and>
     graph_fields m = graph_fields m'"

lemma graph_fields_cell_at [simp]: "graph_fields (m\<lparr>cell_at := k\<rparr>) = graph_fields m"
  by (simp add: graph_fields_def)

lemma graph_fields_only_cells: "only_cells m m' \<Longrightarrow> graph_fields m' = graph_fields m"
  unfolding only_cells_def by (metis graph_fields_cell_at)

lemma graph_fields_terminal [simp]:
  "graph_fields (snd (terminalForCellChanged e t b m)) = graph_fields m"
  by (rule graph_fields_only_cells [OF only_cells_terminal])

lemma graph_fields_upd [simp]: "graph_fields (upd c f m) = graph_fields m"
  by (simp add: upd_def)

lemma graph_fields_fire [simp]: "graph_fields (m_fire ev m) = graph_fields m"
  by (simp add: m_fire_def graph_fields_def)

lemma edges_of_cells: "cell_at m = cell_at m' \<Longrightarrow> edges_of m c = edges_of m' c"
  by (simp add: edges_of_def)

lemma cell_at_fire [simp]: "cell_at (m_fire ev m) = cell_at m"
  by (simp add: m_fire_def)

lemma same_model_fire: "same_model (m_fire ev m) m"
  by (simp add: same_model_def edges_of_cells [of "m_fire ev m" m] children_of_def)

lemma same_model_trans: "same_model m m' \<Longrightarrow> same_model m' m'' \<Longrightarrow> same_model m m''"
  by (simp add: same_model_def)

subsection \<open>Changes of one field\<close>

lemma upd_upd [simp]: "upd c f (upd c g m) = upd c (\<lambda>x. f (g x)) m"
  by (simp add: upd_def)

lemma upd_id: "f (cell_at m c) = cell_at m c \<Longrightarrow> upd c f m = m"
  by (simp add: upd_def)

lemmas field_callbacks = valueForCellChanged_def cell_valueChanged_def styleForCellChanged_def
  geometryForCellChanged_def collapsedStateForCellChanged_def visibleStateForCellChanged_def
  cell_getValue_def cell_getStyle_def cell_getGeometry_def cell_isCollapsed_def cell_isVisible_def

subsection \<open>Changes of a terminal\<close>

lemma cell_core_edges [simp]: "cell_core (c_edges_update f x) = cell_core x"
  by (simp add: cell_core_def)

definition set_terminal :: "cref option \<Rightarrow> bool \<Rightarrow> mxCell \<Rightarrow> mxCell" where
  "set_terminal t b = (if b then c_source_update (\<lambda>_. t) else c_target_update (\<lambda>_. t))"

lemma cell_core_set_terminal: "cell_core (set_terminal t b x) = set_terminal t b (cell_core x)"
  by (simp add: set_terminal_def cell_core_def)

lemma set_terminal_twice [simp]: "set_terminal t b (set_terminal u b x) = set_terminal t b x"
  by (simp add: set_terminal_def)

lemma set_terminal_own: "set_terminal (cell_getTerminal e b m) b (cell_at m e) = cell_at m e"
  by (simp add: set_terminal_def cell_getTerminal_def)

lemma setTerminal_core:
  "cell_core (cell_at (cell_setTerminal e t b m) c) =
     (if c = e then set_terminal t b (cell_core (cell_at m c)) else cell_core (cell_at m c))"
  by (auto simp: cell_setTerminal_def cell_core_def set_terminal_def)

lemma removeEdge_core:
  "cell_core (cell_at (cell_removeEdge u (Some e) b m) c) =
     (if c = e then set_terminal None b (cell_core (cell_at m c)) else cell_core (cell_at m c))"
  by (auto simp: cell_removeEdge_def Let_def setTerminal_core split: option.splits)

lemma insertEdge_core:
  "cell_core (cell_at (cell_insertEdge u (Some e) b m) c) =
     (if c = e then set_terminal (Some u) b (cell_core (cell_at m c)) else cell_core (cell_at m c))"
  by (auto simp: cell_insertEdge_def cell_removeFromTerminal_def Let_def setTerminal_core
      removeEdge_core split: option.splits)

lemma terminal_core:
  "cell_core (cell_at (snd (terminalForCellChanged (Some e) t b m)) c) =
     (if c = e then set_terminal t b (cell_core (cell_at m c)) else cell_core (cell_at m c))"
proof (cases "t = None \<and> cell_getTerminal e b m = None")
  case True
  then have "set_terminal t b (cell_core (cell_at m e)) = cell_core (cell_at m e)"
    using set_terminal_own [of e b m] cell_core_set_terminal [of t b "cell_at m e"] by simp
  with True show ?thesis by (simp add: terminalForCellChanged_def getTerminal_def)
next
  case False
  then show ?thesis
    by (auto simp: terminalForCellChanged_def getTerminal_def Let_def insertEdge_core removeEdge_core
        split: option.splits)
qed

text \<open>The edges a cell lists afterwards: the others as before, and the edge at its terminals.\<close>

lemma edge_linked_iff:
  "edge_inv m \<Longrightarrow> edge_linked e m \<Longrightarrow> e \<in> set (edges_of m q) \<longleftrightarrow> (\<exists>b. cell_getTerminal e b m = Some q)"
  using edge_inv_terminal unfolding edge_linked_def by blast

lemma ex_bool_iff: "(\<exists>b'. P b') \<longleftrightarrow> P b \<or> P (\<not> b)" for P :: "bool \<Rightarrow> bool"
  unfolding ex_bool_eq by (cases b) auto

lemma terminal_edges_other:
  assumes "edge_inv m" and "x \<noteq> e"
  shows "x \<in> set (edges_of (snd (terminalForCellChanged (Some e) t b m)) q) \<longleftrightarrow> x \<in> set (edges_of m q)"
  using assms(2)
  by (auto simp: terminalForCellChanged_def getTerminal_def Let_def insertEdge_edges [OF assms(1)]
      removeFromTerminal_edges [OF assms(1)] removeEdge_edges [OF assms(1)]
      split: option.splits if_splits dest: set_remove1_subset [THEN subsetD])

lemma terminal_edges_own:
  assumes "edge_inv m" and "edge_linked e m"
  shows "e \<in> set (edges_of (snd (terminalForCellChanged (Some e) t b m)) q) \<longleftrightarrow>
     t = Some q \<or> cell_getTerminal e (\<not> b) m = Some q"
proof -
  have d: "distinct (edges_of m q)" for q using edge_invD(1) [OF assms(1)] .
  have e: "e \<in> set (edges_of m q) \<longleftrightarrow> cell_getTerminal e b m = Some q \<or> cell_getTerminal e (\<not> b) m = Some q" for q
    using edge_linked_iff [OF assms, of q] ex_bool_iff [of "\<lambda>b. cell_getTerminal e b m = Some q" b] by simp
  have rem: "e \<in> set (edges_of (cell_removeFromTerminal e b m) q) \<longleftrightarrow> cell_getTerminal e (\<not> b) m = Some q" for q
    using d [of q] e [of q] by (auto simp: removeFromTerminal_edges [OF assms(1)] split: if_splits)
  show ?thesis
  proof (cases t)
    case (Some u)
    then show ?thesis using rem
      by (auto simp: terminalForCellChanged_def Let_def insertEdge_edges [OF assms(1)])
  next
    case None
    then have "snd (terminalForCellChanged (Some e) t b m) = cell_removeFromTerminal e b m"
      by (simp add: terminalForCellChanged_def getTerminal_def cell_removeFromTerminal_def Let_def
          split: option.splits)
    with None rem show ?thesis by simp
  qed
qed

lemma children_of_terminal [simp]:
  "children_of (snd (terminalForCellChanged e t b m)) c = children_of m c"
  by (auto simp: terminalForCellChanged_def children_of_def Let_def split: option.splits)

definition terminal_ok :: "cref \<Rightarrow> mxGraphModel \<Rightarrow> bool" where
  "terminal_ok e m \<longleftrightarrow> edge_inv m \<and> edge_linked e m"

lemma edge_inv_terminalForCellChanged:
  "edge_inv m \<Longrightarrow> edge_inv (snd (terminalForCellChanged (Some e) t b m))"
  using edge_inv_removeEdge
  by (auto simp: terminalForCellChanged_def getTerminal_def Let_def edge_inv_insertEdge split: option.splits)

lemma terminal_ok_preserved:
  assumes "terminal_ok e m"
  shows "terminal_ok e (snd (terminalForCellChanged (Some e) t b m))"
proof -
  let ?m = "snd (terminalForCellChanged (Some e) t b m)"
  have a: "edge_inv m" "edge_linked e m" using assms by (simp_all add: terminal_ok_def)
  have "e \<in> set (edges_of ?m q)" if "cell_getTerminal e b' ?m = Some q" for b' q
    using that unfolding terminal_edges_own [OF a] terminalForCellChanged_getTerminal
    by (cases "b' = b") auto
  then have "edge_linked e ?m" by (auto simp: edge_linked_def)
  with edge_inv_terminalForCellChanged [OF a(1)] show ?thesis by (simp add: terminal_ok_def)
qed

subsection \<open>Cells that change their parent\<close>

lemma same_model_refl [simp]: "same_model m m"
  by (simp add: same_model_def)

lemma same_model_sym: "same_model m m' \<Longrightarrow> same_model m' m"
  by (simp add: same_model_def)

lemma getChildAt_entries:
  "cell_getChildAt c i h = js_at (children_of h c) i"
  "cell_getChildCount c h = int (length (children_of h c))"
  by (simp_all add: children_of_def cell_getChildAt_def cell_getChildCount_def js_at_def
      split: option.splits)

lemma children_getChildAt:
  assumes "children_of h = children_of h'"
  shows "cell_getChildAt c i h = cell_getChildAt c i h'" "cell_getChildCount c h = cell_getChildCount c h'"
  unfolding getChildAt_entries assms by simp_all

text \<open>The parents of all cells but one agree: the cells below it are the same, and so are the
  ancestors of the cells that are not.\<close>

lemma below_agree:
  assumes "heap_wf m" "heap_wf n" "\<And>d. d \<noteq> c \<Longrightarrow> cell_getParent d n = cell_getParent d m"
  shows "c \<in> set (ancestors n d) \<longleftrightarrow> c \<in> set (ancestors m d)"
  using assms(1)
proof (induction d rule: heap_wf_induct)
  case (up d)
  show ?case
  proof (cases "d = c")
    case False
    with assms(3) [of d] up show ?thesis
      by (cases "cell_getParent d m")
        (simp_all add: ancestors_parent [OF assms(1), of d] ancestors_parent [OF assms(2), of d])
  qed (use assms in simp)
qed

lemma ancestors_agree:
  assumes "heap_wf m" "heap_wf n" "\<And>d. d \<noteq> c \<Longrightarrow> cell_getParent d n = cell_getParent d m"
  shows "c \<notin> set (ancestors m d) \<Longrightarrow> ancestors n d = ancestors m d"
  using assms(1)
proof (induction d rule: heap_wf_induct)
  case (up d)
  then have "d \<noteq> c" using assms(1) by auto
  with assms(3) [of d] up show ?case
    by (cases "cell_getParent d m")
      (simp_all add: ancestors_parent [OF assms(1), of d] ancestors_parent [OF assms(2), of d])
qed

lemma only_cells_insert: "only_cells h (cell_insert p c i h)"
  by (auto simp: cell_insert_def cell_removeFromParent_def cell_remove_def cell_setParent_def Let_def
      intro!: only_cells_upd split: option.splits)

lemma setParent_core:
  "cell_core (cell_at (cell_setParent c p h) d) =
     (if d = c then (cell_core (cell_at h c))\<lparr>c_parent := p\<rparr> else cell_core (cell_at h d))"
  by (simp add: cell_setParent_def cell_core_def)

lemma update_children_core [simp]:
  "cell_core (cell_at (upd q (c_children_update f) h) d) = cell_core (cell_at h d)"
  by (simp add: cell_core_def)

lemma update_children_core' [simp]: "cell_core (c_children_update f x) = cell_core x"
  by (simp add: cell_core_def)

lemma detach_core:
  "cell_core (cell_at (detach c h) d) =
     (if d = c then (cell_core (cell_at h c))\<lparr>c_parent := None\<rparr> else cell_core (cell_at h d))"
proof (cases "c_parent (cell_at h c)")
  case None
  then have "(cell_core (cell_at h c))\<lparr>c_parent := None\<rparr> = cell_core (cell_at h c)"
    by (cases "cell_at h c") (simp add: cell_core_def)
  with None show ?thesis by (simp add: detach_def)
qed (simp add: detach_def setParent_core)

lemma insert_core:
  "tree_inv h \<Longrightarrow> cell_core (cell_at (cell_insert p (Some c) i h) d) =
     (if d = c then (cell_core (cell_at h c))\<lparr>c_parent := Some p\<rparr> else cell_core (cell_at h d))"
  unfolding cell_insert_def option.case Let_def
  by (simp only: update_children_core setParent_core removeFromParent_effect detach_core)
    (simp add: detach_core)

lemma insert_index:
  assumes "distinct cs" and "c \<in> set cs" and "mx_indexOf (Some cs) (Some c) = int k"
  shows "js_insert_at (remove1 c cs) (int k) c = cs"
proof -
  obtain l where l: "l < length cs" "mx_indexOf (Some cs) (Some c) = int l" "cs ! l = c"
    using assms(2) by (rule mx_indexOf_obtain)
  then have "l = k" using assms(3) by simp
  with js_insert_delete_at [OF l(1)] delete_at_index(1) [OF assms(2,1)] l show ?thesis by simp
qed

lemma getIndex_children:
  "c \<in> set (children_of h p) \<Longrightarrow> cell_getIndex p c h = mx_indexOf (Some (children_of h p)) (Some c)"
  by (cases "c_children (cell_at h p)") (simp_all add: cell_getIndex_def children_of_def)

lemma core_fields:
  assumes "cell_core x = cell_core y"
  shows "c_source x = c_source y" "c_target x = c_target y" "c_parent x = c_parent y"
  using assms by (cases x; cases y; simp add: cell_core_def)+

lemma not_above_parent:
  assumes "heap_wf m" and "cell_getParent c m = Some q"
  shows "c \<notin> set (ancestors m q)"
  using ancestors_distinct [OF assms(1), of c] ancestors_parent [OF assms(1), of c] assms(2) by simp

lemma exec_terminal:
  "exec_change (TerminalChange (Some e) t p b) m =
     Some (TerminalChange (Some e) p (cell_getTerminal e b m) b,
           snd (terminalForCellChanged (Some e) p b m))"
  by (simp add: terminalForCellChanged_def getTerminal_def Let_def)

lemma exec_opt_Some: "exec_change c m = Some (d, m') \<Longrightarrow> exec_opt c (Some m) = (d, Some m')"
  by (simp add: exec_opt_def)

end
