(* ===== verification/Diagram.thy ===== *)
theory Diagram
  imports ModelUndo
begin

text \<open>
  What a change of the model does to the diagram.  The diagram is the model without what it keeps
  about it: the identifiers and the table of cells, the counter, the lists of edges (which follow
  from the terminals), the order of the attributes of an element, the events and the edit under
  construction.  \<open>after\<close> says what each change of model/mxGraphModel.js does to the diagram and
  \<open>swapped\<close> what the change object holds afterwards.
\<close>

subsection \<open>The diagram of a model\<close>

record diagram =
  d_cell :: "cref \<Rightarrow> mxCell"
  d_children :: "cref \<Rightarrow> cref list"
  d_root :: "cref option"
  d_node :: "nat \<Rightarrow> string \<times> (string \<rightharpoonup> string) \<times> string"
  d_store :: "nat \<times> (nat \<Rightarrow> mxGeometry) \<times> nat \<times> nat"
  d_settings :: "bool \<times> bool \<times> bool \<times> string \<times> string"

definition cell_view :: "mxCell \<Rightarrow> mxCell" where
  "cell_view x = x\<lparr>c_id := None, c_children := None, c_edges := None\<rparr>"

definition node_view :: "dom_element \<Rightarrow> string \<times> (string \<rightharpoonup> string) \<times> string" where
  "node_view n = (node_name n, map_of (node_attributes n), node_content n)"

definition diagram :: "mxGraphModel \<Rightarrow> diagram" where
  "diagram m =
     \<lparr>d_cell = (\<lambda>c. cell_view (cell_at m c)), d_children = children_of m, d_root = m_root m,
      d_node = (\<lambda>n. node_view (node_at m n)), d_store = (ncells m, geo_at m, ngeos m, nnodes m),
      d_settings = (maintainEdgeParent m, ignoreRelativeEdgeParent m, createIds m, m_prefix m, m_postfix m)\<rparr>"

definition d_terminal :: "diagram \<Rightarrow> cref \<Rightarrow> bool \<Rightarrow> cref option" where
  "d_terminal D e b = (if b then c_source (d_cell D e) else c_target (d_cell D e))"

definition d_attribute :: "diagram \<Rightarrow> cref \<Rightarrow> string \<Rightarrow> string option" where
  "d_attribute D x a =
     (case c_value (d_cell D x) of Some (VNode n) \<Rightarrow> fst (snd (d_node D n)) a | _ \<Rightarrow> None)"

definition d_index :: "diagram \<Rightarrow> cref \<Rightarrow> int" where
  "d_index D x =
     (case c_parent (d_cell D x) of
        None \<Rightarrow> 0 | Some q \<Rightarrow> mx_indexOf (Some (d_children D q)) (Some x))"

subsection \<open>What a change does\<close>

definition set_cell :: "cref \<Rightarrow> (mxCell \<Rightarrow> mxCell) \<Rightarrow> diagram \<Rightarrow> diagram" where
  "set_cell x f D = D\<lparr>d_cell := (d_cell D)(x := f (d_cell D x))\<rparr>"

definition set_parent :: "cref \<Rightarrow> cref option \<Rightarrow> int option \<Rightarrow> diagram \<Rightarrow> diagram" where
  "set_parent x q j D =
     (set_cell x (c_parent_update (\<lambda>_. q)) D)\<lparr>d_children := (\<lambda>y.
        let others = remove1 x (d_children D y)
        in if q = Some y
           then js_insert_at others (case j of Some k \<Rightarrow> k | None \<Rightarrow> int (length others)) x
           else others)\<rparr>"

definition set_attribute :: "cref \<Rightarrow> string \<Rightarrow> string option \<Rightarrow> diagram \<Rightarrow> diagram" where
  "set_attribute x a v D =
     (case c_value (d_cell D x) of
        Some (VNode n) \<Rightarrow>
          D\<lparr>d_node := (d_node D)(n := (case d_node D n of (k, f, t) \<Rightarrow> (k, f(a := v), t)))\<rparr>
      | _ \<Rightarrow> D)"

fun after :: "change \<Rightarrow> diagram \<Rightarrow> diagram" where
  "after (RootChange rt previous) D = D\<lparr>d_root := previous\<rparr>"
| "after (ChildChange parent previous (Some x) index previousIndex) D =
     set_parent x previous previousIndex D"
| "after (TerminalChange (Some e) terminal previous source) D =
     set_cell e (set_terminal previous source) D"
| "after (ValueChange (Some x) v previous) D = set_cell x (c_value_update (\<lambda>_. previous)) D"
| "after (StyleChange (Some x) style previous) D = set_cell x (c_style_update (\<lambda>_. previous)) D"
| "after (GeometryChange (Some x) geometry previous) D =
     set_cell x (c_geometry_update (\<lambda>_. previous)) D"
| "after (CollapseChange (Some x) collapsed previous) D =
     set_cell x (c_collapsed_update (\<lambda>_. previous)) D"
| "after (VisibleChange (Some x) visible previous) D =
     set_cell x (c_visible_update (\<lambda>_. previous)) D"
| "after (CellAttributeChange (Some x) attribute v previous) D =
     set_attribute x attribute previous D"
| "after _ D = D"

fun swapped :: "change \<Rightarrow> diagram \<Rightarrow> change" where
  "swapped (RootChange rt previous) D = RootChange previous (d_root D)"
| "swapped (ChildChange parent previous (Some x) index previousIndex) D =
     ChildChange previous (c_parent (d_cell D x)) (Some x) previousIndex (Some (d_index D x))"
| "swapped (TerminalChange (Some e) terminal previous source) D =
     TerminalChange (Some e) previous (d_terminal D e source) source"
| "swapped (ValueChange (Some x) v previous) D = ValueChange (Some x) previous (c_value (d_cell D x))"
| "swapped (StyleChange (Some x) style previous) D = StyleChange (Some x) previous (c_style (d_cell D x))"
| "swapped (GeometryChange (Some x) geometry previous) D =
     GeometryChange (Some x) previous (c_geometry (d_cell D x))"
| "swapped (CollapseChange (Some x) collapsed previous) D =
     CollapseChange (Some x) previous (c_collapsed (d_cell D x))"
| "swapped (VisibleChange (Some x) visible previous) D =
     VisibleChange (Some x) previous (c_visible (d_cell D x))"
| "swapped (CellAttributeChange (Some x) attribute v previous) D =
     CellAttributeChange (Some x) attribute v (d_attribute D x attribute)"
| "swapped c D = c"

subsection \<open>Sound models\<close>

text \<open>
  A model is sound when its structure is, when its table holds exactly the cells of the model, each
  under its identifier, and when the edges below the roots in use are listed at their terminals.
\<close>

definition inside :: "mxGraphModel \<Rightarrow> cref \<Rightarrow> bool" where
  "inside m c \<longleftrightarrow> (\<exists>r. m_root m = Some r \<and> r \<in> set (ancestors m c))"

definition under :: "cref set \<Rightarrow> mxGraphModel \<Rightarrow> cref \<Rightarrow> bool" where
  "under R m c \<longleftrightarrow> (\<exists>r \<in> R. r \<in> set (ancestors m c))"

definition sound :: "cref set \<Rightarrow> mxGraphModel \<Rightarrow> bool" where
  "sound R m \<longleftrightarrow>
     struct_inv m \<and> heap_wf m \<and> table_inv m \<and> createIds m \<and> set_option (m_root m) \<subseteq> R \<and>
     (\<forall>c. registered c m \<longleftrightarrow> inside m c) \<and> (\<forall>e. under R m e \<longrightarrow> edge_linked e m)"

lemma soundD:
  assumes "sound R m"
  shows "struct_inv m" "tree_inv m" "edge_inv m" "heap_wf m" "table_inv m" "createIds m"
    "m_root m = Some r \<Longrightarrow> r \<in> R" "registered c m \<longleftrightarrow> inside m c" "under R m e \<Longrightarrow> edge_linked e m"
  using assms by (auto simp: sound_def struct_inv_def)

lemma inside_under: "sound R m \<Longrightarrow> inside m c \<Longrightarrow> under R m c"
  by (auto simp: inside_def under_def sound_def)

text \<open>The diagram decides the hierarchy, the terminals and, in a sound model, the lists of edges.\<close>

lemma diagramD:
  assumes "diagram m = diagram n"
  shows "c_parent (cell_at m c) = c_parent (cell_at n c)" "cell_getParent c m = cell_getParent c n"
    "children_of m = children_of n" "cell_getTerminal c b m = cell_getTerminal c b n"
    "m_root m = m_root n" "ncells m = ncells n" "createIds m = createIds n"
    "c_value (cell_at m c) = c_value (cell_at n c)"
proof -
  have "d_cell (diagram m) c = d_cell (diagram n) c" using assms by simp
  then have v: "cell_view (cell_at m c) = cell_view (cell_at n c)" by (simp add: diagram_def)
  have sel: "c_parent (cell_view x) = c_parent x" "c_source (cell_view x) = c_source x"
    "c_target (cell_view x) = c_target x" "c_value (cell_view x) = c_value x" for x
    by (simp_all add: cell_view_def)
  show "c_parent (cell_at m c) = c_parent (cell_at n c)" "cell_getParent c m = cell_getParent c n"
    "cell_getTerminal c b m = cell_getTerminal c b n" "c_value (cell_at m c) = c_value (cell_at n c)"
    using v sel by (metis cell_getParent_def cell_getTerminal_def)+
  show "children_of m = children_of n" "m_root m = m_root n" "ncells m = ncells n" "createIds m = createIds n"
    using assms by (simp_all add: diagram_def)
qed

lemma up_list_parents:
  assumes "\<And>c. cell_getParent c m = cell_getParent c n"
  shows "up_list k m c = up_list k n c"
proof (induction k arbitrary: c)
  case 0
  show ?case by (cases c) simp_all
next
  case (Suc k)
  then show ?case by (cases c) (simp_all add: assms)
qed

lemma ancestors_parents:
  "(\<And>c. cell_getParent c m = cell_getParent c n) \<Longrightarrow> ncells m = ncells n \<Longrightarrow> ancestors m = ancestors n"
  using up_list_parents [of m n] by (simp add: ancestors_def walk_fuel_def fun_eq_iff)

lemma diagram_hierarchy:
  assumes "diagram m = diagram n"
  shows "ancestors m = ancestors n" "inside m = inside n" "under R m = under R n" "heap_wf m = heap_wf n"
proof -
  show a: "ancestors m = ancestors n"
    using diagramD(2,6) [OF assms] by (rule ancestors_parents)
  then show "inside m = inside n" "under R m = under R n"
    using diagramD(5) [OF assms] by (simp_all add: inside_def under_def fun_eq_iff)
  show "heap_wf m = heap_wf n"
    using diagramD(2,6) [OF assms] by (simp add: heap_wf_def parent_rel_def)
qed

lemma sound_edges:
  assumes "sound R m" "sound R n" "diagram m = diagram n" "under R m e"
  shows "e \<in> set (edges_of m q) \<longleftrightarrow> e \<in> set (edges_of n q)"
proof -
  have "under R n e" using assms(3,4) diagram_hierarchy(3) by metis
  then show ?thesis
    using edge_linked_iff [OF soundD(3) [OF assms(1)] soundD(9) [OF assms(1,4)]]
      edge_linked_iff [OF soundD(3) [OF assms(2)] soundD(9) [OF assms(2)]] diagramD(4) [OF assms(3)]
    by simp
qed


subsection \<open>A change and the change back\<close>

definition d_tree :: "diagram \<Rightarrow> bool" where
  "d_tree D \<longleftrightarrow>
     (\<forall>y. distinct (d_children D y)) \<and>
     (\<forall>x y. x \<in> set (d_children D y) \<longleftrightarrow> c_parent (d_cell D x) = Some y)"

lemma d_tree_diagram: "tree_inv m \<Longrightarrow> d_tree (diagram m)"
  by (simp add: tree_inv_def d_tree_def diagram_def cell_view_def)

lemma d_cell_set_parent:
  "d_cell (set_parent x q j D) = (d_cell D)(x := (d_cell D x)\<lparr>c_parent := q\<rparr>)"
  by (simp add: set_parent_def set_cell_def)

lemma d_children_set_parent:
  "d_children (set_parent x q j D) y =
     (let others = remove1 x (d_children D y)
      in if q = Some y then js_insert_at others (case j of Some k \<Rightarrow> k | None \<Rightarrow> int (length others)) x
         else others)"
  by (simp add: set_parent_def)

lemma d_tree_set_parent:
  assumes "d_tree D"
  shows "d_tree (set_parent x q j D)"
  using assms by (auto simp: d_tree_def d_children_set_parent d_cell_set_parent Let_def)

lemma set_parent_twice:
  assumes "d_tree D"
  shows "set_parent x r k (set_parent x q j D) = set_parent x r k D"
proof -
  have "remove1 x (d_children (set_parent x q j D) y) = remove1 x (d_children D y)" for y
  proof -
    have "x \<notin> set (remove1 x (d_children D y))" using assms by (simp add: d_tree_def)
    then show ?thesis by (simp add: d_children_set_parent Let_def remove1_idem)
  qed
  then show ?thesis by (simp add: set_parent_def set_cell_def)
qed

lemma set_parent_own:
  assumes "d_tree D"
  shows "set_parent x (c_parent (d_cell D x)) (Some (d_index D x)) D = D"
proof -
  have cell: "(d_cell D)(x := (d_cell D x)\<lparr>c_parent := c_parent (d_cell D x)\<rparr>) = d_cell D" by simp
  have "d_children (set_parent x (c_parent (d_cell D x)) (Some (d_index D x)) D) y = d_children D y" for y
  proof (cases "c_parent (d_cell D x) = Some y")
    case True
    then have x: "x \<in> set (d_children D y)" "distinct (d_children D y)" using assms by (simp_all add: d_tree_def)
    then obtain k where "mx_indexOf (Some (d_children D y)) (Some x) = int k" by (metis mx_indexOf_obtain)
    with insert_index [OF x(2,1)] True show ?thesis by (simp add: d_children_set_parent d_index_def)
  next
    case False
    then have "x \<notin> set (d_children D y)" using assms by (simp add: d_tree_def)
    with False show ?thesis by (simp add: d_children_set_parent remove1_idem)
  qed
  then have "d_children (set_parent x (c_parent (d_cell D x)) (Some (d_index D x)) D) = d_children D" by auto
  then show ?thesis using cell
    by (cases D) (simp add: set_parent_def set_cell_def)
qed

definition canonical :: "cref \<Rightarrow> cref option \<Rightarrow> int option \<Rightarrow> diagram \<Rightarrow> int" where
  "canonical x q j D = d_index (set_parent x q j D) x"

lemma set_parent_canonical:
  assumes "d_tree D"
  shows "set_parent x q (Some (canonical x q j D)) D = set_parent x q j D"
  using set_parent_own [OF d_tree_set_parent [OF assms, of x q j], of x]
    set_parent_twice [OF assms, of x q "Some (canonical x q j D)" q j]
  by (simp add: d_cell_set_parent canonical_def)

text \<open>The attribute of a change of an attribute is that of an element, and it is not empty: the
  code takes an empty attribute for a missing one.\<close>

definition attribute_ok :: "cref \<Rightarrow> string \<Rightarrow> string option \<Rightarrow> diagram \<Rightarrow> bool" where
  "attribute_ok x a previous D \<longleftrightarrow>
     (\<exists>n. c_value (d_cell D x) = Some (VNode n)) \<and> d_attribute D x a \<noteq> Some [] \<and> previous \<noteq> Some []"

lemma set_attribute_facts:
  "d_cell (set_attribute x a v D) = d_cell D"
  "\<exists>n. c_value (d_cell D x) = Some (VNode n) \<Longrightarrow> d_attribute (set_attribute x a v D) x a = v"
  "set_attribute x a u (set_attribute x a v D) = set_attribute x a u D"
  "set_attribute x a (d_attribute D x a) D = D"
  by (cases D; auto simp: set_attribute_def d_attribute_def split: option.splits user_value.splits prod.splits)+

text \<open>Executed again, the change object undoes what it did; it holds what it held before when it
  named the current state and the position the cell goes to.\<close>

definition current :: "change \<Rightarrow> diagram \<Rightarrow> bool" where
  "current c D \<longleftrightarrow> swapped (swapped c D) (after c D) = c"

lemma after_back:
  assumes "d_tree D"
  shows "after (swapped c D) (after c D) = D"
proof (cases c)
  case (ChildChange pp q x i j)
  with assms show ?thesis by (cases x) (simp_all add: set_parent_twice set_parent_own)
next
  case (CellAttributeChange x a v p)
  then show ?thesis by (cases x) (simp_all add: set_attribute_facts)
next
  case (TerminalChange e t p b)
  then show ?thesis
    by (cases e; cases D) (auto simp: set_cell_def set_terminal_def d_terminal_def)
next
  case (RootChange r p)
  then show ?thesis by simp
next
  case (ValueChange x v p)
  then show ?thesis by (cases x; cases D) (auto simp: set_cell_def)
next
  case (StyleChange x v p)
  then show ?thesis by (cases x; cases D) (auto simp: set_cell_def)
next
  case (GeometryChange x v p)
  then show ?thesis by (cases x; cases D) (auto simp: set_cell_def)
next
  case (CollapseChange x v p)
  then show ?thesis by (cases x; cases D) (auto simp: set_cell_def)
next
  case (VisibleChange x v p)
  then show ?thesis by (cases x; cases D) (auto simp: set_cell_def)
qed

lemma current_back:
  assumes "d_tree D" and "current c D"
  shows "current (swapped c D) (after c D)"
  using assms(2) by (simp add: current_def after_back [OF assms(1)])

end
