(* ===== verification/Subtrees.thy ===== *)
theory Subtrees
  imports Diagram
begin

text \<open>
  What the operations on a whole subtree do: connecting and disconnecting its edges
  (\<open>mxChildChange.connect\<close>), entering it into the table of cells (\<open>cellAdded\<close>) and taking it out
  (\<open>cellRemoved\<close>).  None of them changes the diagram.
\<close>

subsection \<open>Connecting and disconnecting a subtree\<close>

lemma connect_cell_core: "cell_core (cell_at (connect_cell c isC m) d) = cell_core (cell_at m d)"
proof -
  let ?s = "cell_getTerminal c True m" and ?t = "cell_getTerminal c False m"
  have step: "\<exists>u. cell_core (cell_at (connect_terminal c isC t b h) d) =
      (if d = c then set_terminal u b (cell_core (cell_at h d)) else cell_core (cell_at h d))"
    if "t = cell_getTerminal c b h" for t b and h :: "'a heap_scheme"
  proof (cases t)
    case None
    have "set_terminal None b (cell_core (cell_at h c)) = cell_core (cell_at h c)"
      using that None set_terminal_own [of c b h] cell_core_set_terminal [of None b "cell_at h c"] by simp
    with None show ?thesis by (intro exI [of _ None]) (simp add: connect_terminal_def)
  next
    case (Some x)
    then show ?thesis by (intro exI [of _ "if isC then t else None"]) (simp add: connect_terminal_def terminal_core)
  qed
  define m1 where "m1 = connect_terminal c isC ?s True m"
  have t1: "?t = cell_getTerminal c False m1" by (simp add: m1_def connect_terminal_getTerminal)
  obtain u where u: "cell_core (cell_at m1 d) =
      (if d = c then set_terminal u True (cell_core (cell_at m d)) else cell_core (cell_at m d))"
    using step [OF refl] unfolding m1_def by blast
  obtain v where v: "cell_core (cell_at (connect_terminal c isC ?t False m1) d) =
      (if d = c then set_terminal v False (cell_core (cell_at m1 d)) else cell_core (cell_at m1 d))"
    using step [OF t1] by blast
  have own: "set_terminal ?t False (set_terminal ?s True (set_terminal v False (set_terminal u True x))) =
      set_terminal ?t False (set_terminal ?s True x)" for x
    by (simp add: set_terminal_def)
  have "set_terminal ?t False (set_terminal ?s True (cell_core (cell_at m c))) = cell_core (cell_at m c)"
    using set_terminal_own [of c] cell_core_set_terminal by metis
  with u v own show ?thesis
    by (cases "d = c") (simp_all add: connect_cell_def Let_def setTerminal_core m1_def)
qed

lemma core_view: "cell_view x = (cell_core x)\<lparr>c_id := None\<rparr>"
  by (simp add: cell_view_def cell_core_def)

lemma only_cells_trans:
  assumes "only_cells a b" and "only_cells b c"
  shows "only_cells a c"
proof -
  have "c = (a\<lparr>cell_at := cell_at b\<rparr>)\<lparr>cell_at := cell_at c\<rparr>"
    using assms unfolding only_cells_def by metis
  then show ?thesis by (simp add: only_cells_def)
qed

lemma connect_cell_only: "only_cells m (connect_cell c isC m)"
proof -
  have "only_cells m (connect_terminal c isC t b h)" if "only_cells m h" for t b and h :: "'a heap_scheme"
    using only_cells_trans [OF that only_cells_terminal] that by (simp add: connect_terminal_def)
  then show ?thesis by (simp add: connect_cell_def Let_def only_cells_setTerminal)
qed

lemma children_of_setTerminal [simp]: "children_of (cell_setTerminal e t b m) = children_of m"
  by (simp add: children_of_def fun_eq_iff)

lemma children_of_connect [simp]: "children_of (connect_cell c isC m) = children_of m"
  by (simp add: connect_cell_def connect_terminal_def Let_def fun_eq_iff)

lemma connect_cell_terminal: "cell_getTerminal e b (connect_cell c isC m) = cell_getTerminal e b m"
  using core_fields [OF connect_cell_core [of c isC m e]] by (simp add: cell_getTerminal_def)

lemma edge_inv_connect_terminal: "edge_inv h \<Longrightarrow> edge_inv (connect_terminal e isC t b h)"
  by (simp add: connect_terminal_def edge_inv_terminalForCellChanged)

lemma connect_cell_other:
  assumes "edge_inv m" and "e \<noteq> c"
  shows "e \<in> set (edges_of (connect_cell c isC m) q) \<longleftrightarrow> e \<in> set (edges_of m q)"
proof -
  have "e \<in> set (edges_of (connect_terminal c isC t b h) q) \<longleftrightarrow> e \<in> set (edges_of h q)"
    if "edge_inv h" for t b and h :: "'a heap_scheme"
    using terminal_edges_other [OF that assms(2)] by (simp add: connect_terminal_def)
  with assms(1) show ?thesis
    by (simp add: connect_cell_def Let_def edge_inv_connect_terminal)
qed

lemma insertEdge_lists: "edge_inv h \<Longrightarrow> e \<in> set (edges_of (cell_insertEdge t (Some e) b h) t)"
  by (simp add: insertEdge_edges Let_def)

lemma connect_cell_linked:
  assumes "edge_inv m"
  shows "edge_linked c (connect_cell c True m)"
proof -
  let ?s = "cell_getTerminal c True m" and ?t = "cell_getTerminal c False m"
  define m1 where "m1 = connect_terminal c True ?s True m"
  define m2 where "m2 = connect_terminal c True ?t False m1"
  have i1: "edge_inv m1" using assms by (simp add: m1_def edge_inv_connect_terminal)
  have t1: "cell_getTerminal c b m1 = cell_getTerminal c b m" for b
    by (cases b) (simp_all add: m1_def connect_terminal_getTerminal)
  have t2: "cell_getTerminal c b m2 = cell_getTerminal c b m" for b
    using t1 by (cases b) (simp_all add: m2_def connect_terminal_getTerminal [OF t1 [symmetric]])
  have s1: "c \<in> set (edges_of m1 u)" if "?s = Some u" for u
    using that insertEdge_lists [OF assms] by (simp add: m1_def connect_terminal_def terminalForCellChanged_def Let_def)
  have s2: "c \<in> set (edges_of m2 u)" if "?s = Some u" for u
  proof (cases ?t)
    case (Some t)
    have "distinct (edges_of m1 u)" using i1 by (rule edge_invD)
    with Some s1 [OF that] that t1 show ?thesis
      by (auto simp: m2_def connect_terminal_def terminalForCellChanged_def Let_def
          insertEdge_edges [OF i1] removeFromTerminal_edges [OF i1])
  qed (use s1 [OF that] in \<open>simp add: m2_def connect_terminal_def\<close>)
  have "c \<in> set (edges_of m2 u)" if "?t = Some u" for u
    using that insertEdge_lists [OF i1] by (simp add: m2_def connect_terminal_def terminalForCellChanged_def Let_def)
  with s2 have "c \<in> set (edges_of m2 u)" if "cell_getTerminal c b m = Some u" for b u
    using that by (cases b) auto
  then have "edge_linked c m2" by (auto simp: edge_linked_def t2)
  moreover have "edges_of (connect_cell c True m) q = edges_of m2 q" for q
    by (simp add: connect_cell_def Let_def m1_def m2_def)
  ultimately show ?thesis by (simp add: edge_linked_def connect_cell_terminal t2)
qed

text \<open>What connecting and disconnecting the cells of a subtree leaves alone.\<close>

definition rewired :: "(cref \<Rightarrow> bool) \<Rightarrow> mxGraphModel \<Rightarrow> mxGraphModel \<Rightarrow> bool" where
  "rewired X m n \<longleftrightarrow>
     (\<forall>d. cell_core (cell_at n d) = cell_core (cell_at m d)) \<and> children_of n = children_of m \<and>
     only_cells m n \<and> struct_inv n \<and>
     (\<forall>e q. \<not> X e \<longrightarrow> e \<in> set (edges_of n q) \<longleftrightarrow> e \<in> set (edges_of m q))"

lemma rewired_cell:
  assumes "rewired X m n" and "X c"
  shows "rewired X m (connect_cell c isC n)"
proof -
  have o: "only_cells m (connect_cell c isC n)"
    using assms(1) by (intro only_cells_trans [OF _ connect_cell_only]) (simp add: rewired_def)
  have "struct_inv n" using assms(1) by (simp add: rewired_def)
  from struct_inv_connect_cell [OF this] this
  have "struct_inv (connect_cell c isC n)" "edge_inv n" by (auto simp: struct_inv_def)
  moreover have "e \<in> set (edges_of (connect_cell c isC n) q) \<longleftrightarrow> e \<in> set (edges_of n q)" if "\<not> X e" for e q
    using that assms(2) by (intro connect_cell_other [OF \<open>edge_inv n\<close>]) auto
  ultimately show ?thesis using assms(1) o unfolding rewired_def by (simp add: connect_cell_core)
qed

lemma linked_connect_cell:
  assumes "edge_inv m" and "edge_linked d m"
  shows "edge_linked d (connect_cell c True m)"
proof (cases "d = c")
  case False
  with assms show ?thesis by (simp add: edge_linked_def connect_cell_terminal connect_cell_other)
qed (use connect_cell_linked [OF assms(1)] in simp)

lemma connect_n_rewires:
  assumes wf: "heap_wf m0" "tree_inv m0" and X: "\<And>d. X d \<longleftrightarrow> r \<in> set (ancestors m0 d)"
  shows "n + length (ancestors m0 c) \<ge> ncells m0 + 2 \<Longrightarrow> X c \<Longrightarrow> rewired X m0 m \<Longrightarrow>
    \<exists>m'. connect_n n (Some c) isC m = Some m' \<and> rewired X m0 m' \<and>
      (\<forall>d \<in> {d. c \<in> set (ancestors m0 d)}. isC \<longrightarrow> edge_linked d m') \<and>
      (\<forall>d. (isC \<longrightarrow> edge_linked d m) \<longrightarrow> isC \<longrightarrow> edge_linked d m')"
proof (induction n arbitrary: c m)
  case 0
  with ancestors_length [OF wf(1), of c] show ?case by (simp add: walk_fuel_def)
next
  case (Suc n)
  let ?m = "connect_cell c isC m"
  let ?R = "\<lambda>d s. isC \<longrightarrow> edge_linked d s"
  let ?D = "\<lambda>i. {d. the (cell_getChildAt c i m0) \<in> set (ancestors m0 d)}"
  have i: "edge_inv m" using Suc.prems(3) by (simp add: rewired_def struct_inv_def)
  have ch: "children_of s = children_of m0" if "rewired X m0 s" for s
    using that by (simp add: rewired_def)
  have "\<exists>s'. for_each (\<lambda>i s. connect_n n (cell_getChildAt c i s) isC s)
        (upto_count (cell_getChildCount c m0)) ?m = Some s' \<and> rewired X m0 s' \<and>
      (\<forall>i \<in> set (upto_count (cell_getChildCount c m0)). \<forall>d \<in> ?D i. ?R d s') \<and>
      (\<forall>d. ?R d ?m \<longrightarrow> ?R d s')"
  proof (rule for_each_collect)
    fix i s
    assume i: "i \<in> set (upto_count (cell_getChildCount c m0))" and s: "rewired X m0 s"
    from cell_getChildAt_upto [OF i] obtain e where
      e: "e \<in> set (children_of m0 c)" "cell_getChildAt c i m0 = Some e" by blast
    have es: "cell_getChildAt c i s = Some e"
      using e(2) children_getChildAt(1) [OF ch [OF s], of c i] by simp
    have p: "cell_getParent e m0 = Some c" using e(1) children_getParent [OF wf(2)] by simp
    then have anc: "ancestors m0 e = e # ancestors m0 c" by (simp add: ancestors_parent [OF wf(1), of e])
    have "n + length (ancestors m0 e) \<ge> ncells m0 + 2" using anc Suc.prems(1) by simp
    moreover have "X e" using anc Suc.prems(2) X by simp
    ultimately show "\<exists>s'. connect_n n (cell_getChildAt c i s) isC s = Some s' \<and> rewired X m0 s' \<and>
        (\<forall>d \<in> ?D i. ?R d s') \<and> (\<forall>d. ?R d s \<longrightarrow> ?R d s')"
      using Suc.IH [of e s] s es e(2) by simp
  qed (rule rewired_cell [OF Suc.prems(3,2)])
  then obtain s' where s': "for_each (\<lambda>i s. connect_n n (cell_getChildAt c i s) isC s)
        (upto_count (cell_getChildCount c m0)) ?m = Some s'" "rewired X m0 s'"
    "\<And>i d. i \<in> set (upto_count (cell_getChildCount c m0)) \<Longrightarrow> d \<in> ?D i \<Longrightarrow> ?R d s'"
    "\<And>d. ?R d ?m \<Longrightarrow> ?R d s'" by blast
  have "?R d s'" if "c \<in> set (ancestors m0 d)" for d
  proof -
    from that consider "d = c" | e where "e \<in> set (children_of m0 c)" "e \<in> set (ancestors m0 d)"
      using below_iff [OF wf, of c d] by blast
    then show ?thesis
    proof cases
      case 1
      with s'(4) connect_cell_linked [OF i, of c] show ?thesis by (cases isC) auto
    next
      case 2
      from upto_count_children [OF 2(1)] obtain i where
        "i \<in> set (upto_count (cell_getChildCount c m0))" "cell_getChildAt c i m0 = Some e" .
      with 2(2) s'(3) [of i d] show ?thesis by simp
    qed
  qed
  moreover have "?R d s'" if "?R d m" for d
    using that s'(4) [of d] linked_connect_cell [OF i, of d c] by (cases isC) auto
  moreover have "connect_n (Suc n) (Some c) isC m = Some s'"
    using s'(1) children_getChildAt(2) [of ?m m0 c] ch [OF rewired_cell [OF Suc.prems(3,2)]]
    by (simp add: Let_def)
  ultimately show ?case using s'(2) by blast
qed

lemma connect_rewires:
  assumes "heap_wf m" "struct_inv m"
  shows "\<exists>m'. connect (Some c) isC m = Some m' \<and> rewired (\<lambda>d. c \<in> set (ancestors m d)) m m' \<and>
    (isC \<longrightarrow> (\<forall>d. c \<in> set (ancestors m d) \<or> edge_linked d m \<longrightarrow> edge_linked d m'))"
proof -
  have t: "tree_inv m" using assms(2) by (simp add: struct_inv_def)
  have "length (ancestors m c) \<noteq> 0" using assms(1) by simp
  then have f: "walk_fuel m + length (ancestors m c) \<ge> ncells m + 2" by (simp add: walk_fuel_def Suc_le_eq)
  have "rewired (\<lambda>d. c \<in> set (ancestors m d)) m m" using assms(2) by (simp add: rewired_def)
  from connect_n_rewires [OF assms(1) t, of "\<lambda>d. c \<in> set (ancestors m d)" c, OF refl f _ this, of isC] assms(1)
  show ?thesis unfolding connect_def by auto
qed


subsection \<open>The table of cells\<close>

lemma diagram_fields [simp]:
  "diagram (m\<lparr>m_cells := x1\<rparr>) = diagram m" "diagram (m\<lparr>nextId := x2\<rparr>) = diagram m"
  "diagram (m\<lparr>currentEdit := x3\<rparr>) = diagram m" "diagram (m\<lparr>updateLevel := x4\<rparr>) = diagram m"
  "diagram (m\<lparr>endingUpdate := x5\<rparr>) = diagram m" "diagram (m\<lparr>m_fired := x6\<rparr>) = diagram m"
  "diagram (m\<lparr>m_root := r\<rparr>) = (diagram m)\<lparr>d_root := r\<rparr>"
  by (simp_all add: diagram_def children_of_def fun_eq_iff)

lemma diagram_fire [simp]: "diagram (m_fire ev m) = diagram m"
  by (simp add: m_fire_def)

lemma diagram_setId [simp]: "diagram (cell_setId c i m) = diagram m"
  by (auto simp: diagram_def cell_setId_def cell_view_def children_of_def upd_def fun_eq_iff)

lemma diagram_ids [simp]:
  "diagram (draw c m) = diagram m" "diagram (put_cell c m) = diagram m"
  "diagram (give_id c m) = diagram m" "diagram (raise_nextId c m) = diagram m"
  "diagram (drop_cell c m) = diagram m"
  by (simp_all add: draw_def createId_drawn put_cell_def give_id_draw raise_nextId_def drop_cell_def
      split: option.splits)

lemma diagram_id_loop: "id_loop n c m = Some m' \<Longrightarrow> diagram m' = diagram m"
proof (induction n arbitrary: m)
  case 0
  then show ?case by (simp add: id_loop.simps [of 0] split: option.splits)
next
  case (Suc n)
  then show ?case by (auto simp: id_loop_Suc split: option.splits)
qed

lemma diagram_register: "register_cell c m = Some m' \<Longrightarrow> diagram m' = diagram m"
  using diagram_id_loop by (fastforce simp: register_cell_def enter_cell_def split: if_splits)

lemma diagram_cellAdded_n: "cellAdded_n n c m = Some m' \<Longrightarrow> diagram m' = diagram m"
proof (induction n arbitrary: c m m')
  case 0
  then show ?case by (cases c) auto
next
  case (Suc n)
  show ?case
  proof (cases c)
    case (Some x)
    with Suc.prems obtain m1 where r: "register_cell x m = Some m1"
      and l: "for_each (\<lambda>i m. cellAdded_n n (cell_getChildAt x i m) m)
        (upto_count (cell_getChildCount x m1)) m1 = Some m'" by (auto split: option.splits)
    have "diagram m' = diagram m1"
      by (rule for_each_inv [OF l]) (simp_all add: Suc.IH)
    with diagram_register [OF r] show ?thesis by simp
  qed (use Suc.prems in auto)
qed

text \<open>The cells of the table afterwards: the old ones and those of the subtree.\<close>

definition listed_cells :: "mxGraphModel \<Rightarrow> cref set" where
  "listed_cells m = snd ` set (entries (m_cells m))"

lemma update_cells: "snd ` set (AList.update i c al) \<subseteq> insert c (snd ` set al)"
  by (induction al) auto

lemma put_cell_cells: "listed_cells (put_cell c m) \<subseteq> insert c (listed_cells m)"
proof (cases "cell_getId c m")
  case (Some i)
  with update_cells [of i c "entries (m_cells m)"] show ?thesis
    by (simp add: put_cell_def listed_cells_def)
qed (auto simp: put_cell_def)

lemma register_cells:
  assumes "register_cell c m = Some m'"
  shows "listed_cells m' \<subseteq> insert c (listed_cells m)"
proof -
  have g: "listed_cells (give_id c m) = listed_cells m" "listed_cells (raise_nextId c k) = listed_cells k" for k
    by (simp_all add: give_id_draw raise_nextId_def listed_cells_def split: option.splits)
  have "listed_cells k' = listed_cells k" if "id_loop n c k = Some k'" for n k k'
    using id_loop_free [OF that] by (simp add: listed_cells_def)
  with assms g put_cell_cells show ?thesis
    by (fastforce simp: register_cell_def enter_cell_def split: if_splits)
qed

lemma for_each_inv_mem:
  "for_each f xs s = Some s' \<Longrightarrow> P s \<Longrightarrow> (\<And>x s s'. x \<in> set xs \<Longrightarrow> P s \<Longrightarrow> f x s = Some s' \<Longrightarrow> P s') \<Longrightarrow> P s'"
proof (induction xs arbitrary: s)
  case (Cons x xs)
  from Cons.prems(1) obtain t where t: "f x s = Some t" "for_each f xs t = Some s'"
    by (auto split: option.splits)
  have "P t" using Cons.prems(3) [OF _ Cons.prems(2) t(1)] by simp
  with t(2) Cons.IH Cons.prems(3) show ?case by (metis list.set_intros(2))
qed simp

lemma cellAdded_n_cells:
  assumes wf: "heap_wf m0" "tree_inv m0"
  shows "cellAdded_n n (Some c) m = Some m' \<Longrightarrow> links m = links m0 \<Longrightarrow>
    listed_cells m' \<subseteq> listed_cells m \<union> {d. c \<in> set (ancestors m0 d)}"
proof (induction n arbitrary: c m m')
  case (Suc n)
  from Suc.prems obtain m1 where r: "register_cell c m = Some m1"
    and l: "for_each (\<lambda>i m. cellAdded_n n (cell_getChildAt c i m) m)
      (upto_count (cell_getChildCount c m1)) m1 = Some m'" by (auto split: option.splits)
  let ?P = "\<lambda>s. links s = links m0 \<and> listed_cells s \<subseteq> listed_cells m \<union> {d. c \<in> set (ancestors m0 d)}"
  have m1: "?P m1"
    using register_cells [OF r] register_cell_links [OF r] Suc.prems(2) wf(1) by auto
  have "?P m'"
  proof (rule for_each_inv_mem [OF l, where P = ?P])
    fix i s s'
    assume i: "i \<in> set (upto_count (cell_getChildCount c m1))" and s: "?P s"
      and s': "cellAdded_n n (cell_getChildAt c i s) s = Some s'"
    have "i \<in> set (upto_count (cell_getChildCount c m0))"
      using i getChildAt_links(2) [of m1 m0 c] m1 by simp
    from cell_getChildAt_upto [OF this] obtain e where
      e: "e \<in> set (children_of m0 c)" "cell_getChildAt c i m0 = Some e" by blast
    have "cell_getChildAt c i s = Some e" using s e(2) getChildAt_links(1) [of s m0 c i] by simp
    with Suc.IH [of e s s'] s s' have c: "listed_cells s' \<subseteq> listed_cells s \<union> {d. e \<in> set (ancestors m0 d)}"
      by simp
    have "c \<in> set (ancestors m0 d)" if "e \<in> set (ancestors m0 d)" for d
      using that e(1) below_iff [OF wf] by blast
    with c s cellAdded_n_links [OF s'] show "?P s'" by auto
  qed (rule m1)
  then show ?case by simp
qed simp

lemma registered_listed: "registered d m \<Longrightarrow> d \<in> listed_cells m"
  by (cases "m_cells m"; cases "cell_getId d m")
    (force simp: registered_def getCell_def listed_cells_def dest: map_of_SomeD)+

lemma listed_registered: "table_inv m \<Longrightarrow> d \<in> listed_cells m \<Longrightarrow> registered d m"
  using table_inv_entry [of m d "cell_getId d m"] by (fastforce simp: listed_cells_def registered_def)

text \<open>What adding a subtree does to a model whose structure is sound.\<close>

lemma cellAdded_effect:
  assumes "heap_wf m" "tree_inv m" "table_inv m" "createIds m"
  obtains m' where "cellAdded (Some c) m = Some m'" "diagram m' = diagram m" "links m' = links m"
    "table_inv m'" "\<And>d. registered d m' \<longleftrightarrow> registered d m \<or> c \<in> set (ancestors m d)"
proof -
  from cellAdded_registers [OF assms, of c] obtain m' where
    m': "cellAdded (Some c) m = Some m'" "table_inv m'" "links m' = links m"
    "\<And>d. c \<in> set (ancestors m d) \<Longrightarrow> registered d m'" "\<And>d. registered d m \<Longrightarrow> registered d m'" by blast
  have a: "cellAdded_n (walk_fuel m) (Some c) m = Some m'" using m'(1) by (simp add: cellAdded_def)
  have "registered d m \<or> c \<in> set (ancestors m d)" if "registered d m'" for d
    using registered_listed [OF that] cellAdded_n_cells [OF assms(1,2) a refl] listed_registered [OF assms(3)]
    by blast
  with m' show ?thesis using that diagram_cellAdded_n [OF a] by blast
qed

subsection \<open>Removing a subtree from the table\<close>

definition drop_ids :: "string set \<Rightarrow> mxGraphModel \<Rightarrow> mxGraphModel" where
  "drop_ids I m = m\<lparr>m_cells := map_option (filter (\<lambda>(i, d). i \<notin> I)) (m_cells m)\<rparr>"

lemma drop_ids_twice [simp]: "drop_ids I (drop_ids J m) = drop_ids (J \<union> I) m"
proof -
  have "map_option (filter (\<lambda>(i, d). i \<notin> I)) (map_option (filter (\<lambda>(i, d). i \<notin> J)) x) =
      map_option (filter (\<lambda>(i, d). i \<notin> J \<union> I)) x" for x :: "(string \<times> cref) list option"
    by (cases x) (auto intro: filter_cong)
  then show ?thesis by (simp add: drop_ids_def)
qed

lemma drop_ids_none [simp]: "drop_ids {} m = m"
  by (cases "m_cells m") (simp_all add: drop_ids_def)

lemma drop_cell_ids: "drop_cell c m = drop_ids (set_option (cell_getId c m)) m"
proof (cases "m_cells m")
  case None
  then show ?thesis by (simp add: drop_cell_def drop_ids_def)
next
  case (Some cs)
  then show ?thesis
    by (cases "cell_getId c m")
      (simp_all add: drop_cell_def drop_ids_def AList.delete_eq case_prod_unfold neq_commute)
qed

lemma drop_ids_parts [simp]:
  "cell_getId c (drop_ids I m) = cell_getId c m" "cell_getChildAt c i (drop_ids I m) = cell_getChildAt c i m"
  "cell_getChildCount c (drop_ids I m) = cell_getChildCount c m" "links (drop_ids I m) = links m"
  "diagram (drop_ids I m) = diagram m" "(m_cells (drop_ids I m) = None) = (m_cells m = None)"
  by (simp_all add: drop_ids_def cell_getId_def cell_getChildAt_def cell_getChildCount_def)

definition ids_below :: "mxGraphModel \<Rightarrow> cref \<Rightarrow> string set" where
  "ids_below m c = {i. \<exists>d. c \<in> set (ancestors m d) \<and> cell_getId d m = Some i}"

lemma for_each_drop:
  assumes "\<And>i I. i \<in> set is \<Longrightarrow> f i (drop_ids I m) = Some (drop_ids (I \<union> J i) m)"
  shows "for_each f is (drop_ids I m) = Some (drop_ids (I \<union> (\<Union>i \<in> set is. J i)) m)"
  using assms
proof (induction "is" arbitrary: I)
  case (Cons i js)
  have "f i (drop_ids I m) = Some (drop_ids (I \<union> J i) m)" using Cons.prems by simp
  with Cons.IH [of "I \<union> J i"] Cons.prems show ?case by (simp add: Un_assoc)
qed simp

lemma cellRemoved_n_drops:
  assumes wf: "heap_wf m" "tree_inv m"
  shows "n + length (ancestors m c) \<ge> ncells m + 2 \<Longrightarrow>
    cellRemoved_n n (Some c) (drop_ids I m) = Some (drop_ids (I \<union> ids_below m c) m)"
proof (induction n arbitrary: c I)
  case 0
  with ancestors_length [OF wf(1), of c] show ?case by (simp add: walk_fuel_def)
next
  case (Suc n)
  show ?case
  proof (cases "m_cells m = None")
    case True
    then have "drop_ids J m = m" for J by (simp add: drop_ids_def)
    with True show ?thesis by simp
  next
    case False
    let ?is = "rev (upto_count (cell_getChildCount c m))"
    let ?J = "\<lambda>i. ids_below m (the (cell_getChildAt c i m))"
    have "for_each (\<lambda>i s. cellRemoved_n n (cell_getChildAt c i s) s) ?is (drop_ids I m) =
        Some (drop_ids (I \<union> (\<Union>i \<in> set ?is. ?J i)) m)"
    proof (rule for_each_drop)
      fix i K
      assume "i \<in> set ?is"
      then have "i \<in> set (upto_count (cell_getChildCount c m))" by simp
      from cell_getChildAt_upto [OF this] obtain e where
        e: "e \<in> set (children_of m c)" "cell_getChildAt c i m = Some e" by blast
      have "cell_getParent e m = Some c" using e(1) children_getParent [OF wf(2)] by simp
      then have "n + length (ancestors m e) \<ge> ncells m + 2"
        using Suc.prems by (simp add: ancestors_parent [OF wf(1), of e])
      from Suc.IH [OF this] e(2)
      show "cellRemoved_n n (cell_getChildAt c i (drop_ids K m)) (drop_ids K m) = Some (drop_ids (K \<union> ?J i) m)"
        by simp
    qed
    moreover have "(\<Union>i \<in> set ?is. ?J i) \<union> set_option (cell_getId c m) = ids_below m c"
    proof -
      have "(\<exists>i \<in> set ?is. s \<in> ?J i) \<longleftrightarrow> (\<exists>e \<in> set (children_of m c). s \<in> ids_below m e)" for s
      proof
        assume "\<exists>i \<in> set ?is. s \<in> ?J i"
        then obtain i where i: "i \<in> set (upto_count (cell_getChildCount c m))" "s \<in> ?J i" by auto
        with cell_getChildAt_upto [OF i(1)] show "\<exists>e \<in> set (children_of m c). s \<in> ids_below m e" by auto
      next
        assume "\<exists>e \<in> set (children_of m c). s \<in> ids_below m e"
        then obtain e where e: "e \<in> set (children_of m c)" "s \<in> ids_below m e" by blast
        obtain i where "i \<in> set (upto_count (cell_getChildCount c m))" "cell_getChildAt c i m = Some e"
          using e(1) by (rule upto_count_children)
        with e(2) show "\<exists>i \<in> set ?is. s \<in> ?J i" by (intro bexI [of _ i]) simp_all
      qed
      moreover have "s \<in> ids_below m c \<longleftrightarrow>
          cell_getId c m = Some s \<or> (\<exists>e \<in> set (children_of m c). s \<in> ids_below m e)" for s
        unfolding ids_below_def mem_Collect_eq below_iff [OF wf, of c] by blast
      ultimately show ?thesis by (simp add: set_eq_iff) blast
    qed
    ultimately show ?thesis using False by (simp add: drop_cell_ids Un_assoc del: not_None_eq)
  qed
qed

lemma cellRemoved_drops:
  assumes "heap_wf m" "tree_inv m"
  shows "cellRemoved (Some c) m = Some (drop_ids (ids_below m c) m)"
proof -
  have "length (ancestors m c) \<noteq> 0" using assms(1) by simp
  then have "walk_fuel m + length (ancestors m c) \<ge> ncells m + 2" by (simp add: walk_fuel_def Suc_le_eq)
  from cellRemoved_n_drops [OF assms this, of "{}"] show ?thesis by (simp add: cellRemoved_def)
qed

lemma map_of_filter_keys: "map_of (filter (\<lambda>(i, d). i \<notin> I) al) j = (if j \<in> I then None else map_of al j)"
  by (induction al) auto

lemma drop_ids_table:
  assumes "table_inv m"
  shows "table_inv (drop_ids I m)"
    and "registered d (drop_ids I m) \<longleftrightarrow> registered d m \<and> (\<forall>i. cell_getId d m = Some i \<longrightarrow> i \<notin> I)"
proof -
  have e: "entries (m_cells (drop_ids I m)) = filter (\<lambda>(i, d). i \<notin> I) (entries (m_cells m))"
    by (cases "m_cells m") (simp_all add: drop_ids_def)
  have "distinct (map fst (filter P al))" if "distinct (map fst al)" for P and al :: "(string \<times> cref) list"
    using that by (induction al) auto
  with assms show "table_inv (drop_ids I m)"
    by (auto simp: table_inv_def e) (simp add: drop_ids_def)
  have "getCell i (drop_ids I m) = (case i of None \<Rightarrow> None | Some s \<Rightarrow> if s \<in> I then None else getCell i m)" for i
    by (cases "m_cells m"; cases i) (simp_all add: getCell_def drop_ids_def map_of_filter_keys)
  then show "registered d (drop_ids I m) \<longleftrightarrow> registered d m \<and> (\<forall>i. cell_getId d m = Some i \<longrightarrow> i \<notin> I)"
    by (auto simp: registered_def split: option.splits)
qed

end
