(* ===== verification/ChangeEffect.thy ===== *)
theory ChangeEffect
  imports Subtrees
begin

text \<open>
  The change objects of model/mxGraphModel.js implement \<open>after\<close> and \<open>swapped\<close>: where a change
  applies to a sound model, \<open>execute\<close> completes, turns the diagram into the one that \<open>after\<close> gives,
  leaves the model sound, and the object it has become applies in turn (\<open>change_executes\<close>).
\<close>

subsection \<open>Where a change applies\<close>

text \<open>
  A cell is removed when its parent is inside the model, and no root in use is below it.  A cell
  is placed inside the model and not below itself: it comes from inside the model, or has no parent
  and no root in use below it, as a new cell or one that was removed.
\<close>

definition rootless :: "cref set \<Rightarrow> cref \<Rightarrow> mxGraphModel \<Rightarrow> bool" where
  "rootless R x m \<longleftrightarrow> (\<forall>r \<in> R. x \<notin> set (ancestors m r))"

definition leave_ok :: "cref set \<Rightarrow> cref \<Rightarrow> mxGraphModel \<Rightarrow> bool" where
  "leave_ok R x m \<longleftrightarrow> rootless R x m \<and> (\<exists>q. cell_getParent x m = Some q \<and> inside m q)"

definition place_ok :: "cref set \<Rightarrow> cref \<Rightarrow> cref \<Rightarrow> mxGraphModel \<Rightarrow> bool" where
  "place_ok R x p m \<longleftrightarrow>
     p < ncells m \<and> inside m p \<and> x \<notin> set (ancestors m p) \<and>
     (case cell_getParent x m of Some q \<Rightarrow> inside m q | None \<Rightarrow> x < ncells m \<and> rootless R x m)"

definition applicable :: "cref set \<Rightarrow> change \<Rightarrow> mxGraphModel \<Rightarrow> bool" where
  "applicable R c m \<longleftrightarrow>
     (case c of
        RootChange _ previous \<Rightarrow> set_option previous \<subseteq> R
      | ChildChange _ previous (Some x) _ _ \<Rightarrow>
          (case previous of None \<Rightarrow> leave_ok R x m | Some p \<Rightarrow> place_ok R x p m)
      | CellAttributeChange (Some x) a _ previous \<Rightarrow> attribute_ok x a previous (diagram m)
      | _ \<Rightarrow> True)"

lemma applicable_diagram:
  assumes "diagram m = diagram n"
  shows "applicable R c m = applicable R c n"
proof -
  have "leave_ok R x m = leave_ok R x n" "place_ok R x p m = place_ok R x p n" for x p
    unfolding leave_ok_def place_ok_def rootless_def
      diagramD(2,6) [OF assms] diagram_hierarchy [OF assms] by simp_all
  then show ?thesis unfolding applicable_def assms by (simp split: change.splits option.splits)
qed

text \<open>What the model keeps about the diagram: identifiers, the table, the counter and the attributes as
  they are listed.  A change that neither adds a cell nor removes one, replaces the root or sets an
  attribute leaves all of it alone.\<close>

definition names ::
  "mxGraphModel \<Rightarrow> (cref \<Rightarrow> string option) \<times> (string \<times> cref) list option \<times> jsnum \<times> (nat \<Rightarrow> dom_element)" where
  "names m = ((\<lambda>c. c_id (cell_at m c)), m_cells m, nextId m, node_at m)"

definition keeps_names :: "change \<Rightarrow> mxGraphModel \<Rightarrow> bool" where
  "keeps_names c m \<longleftrightarrow>
     (case c of
        RootChange _ _ \<Rightarrow> False
      | ChildChange _ previous (Some x) _ _ \<Rightarrow> previous \<noteq> None \<and> cell_getParent x m \<noteq> None
      | CellAttributeChange (Some x) _ _ _ \<Rightarrow> False
      | _ \<Rightarrow> True)"

definition executes :: "cref set \<Rightarrow> change \<Rightarrow> mxGraphModel \<Rightarrow> bool" where
  "executes R c m \<longleftrightarrow>
     (\<exists>m'. exec_change c m = Some (swapped c (diagram m), m') \<and> diagram m' = after c (diagram m) \<and>
        sound R m' \<and> applicable R (swapped c (diagram m)) m' \<and>
        (keeps_names c m \<longrightarrow> names m' = names m))"

lemma executesI:
  "exec_change c m = Some (swapped c (diagram m), m') \<Longrightarrow> diagram m' = after c (diagram m) \<Longrightarrow>
   sound R m' \<Longrightarrow> applicable R (swapped c (diagram m)) m' \<Longrightarrow>
   (keeps_names c m \<Longrightarrow> names m' = names m) \<Longrightarrow> executes R c m"
  by (auto simp: executes_def)

subsection \<open>Changes that leave the hierarchy alone\<close>

lemma registered_same:
  "m_cells n = m_cells m \<Longrightarrow> (\<And>d. cell_getId d n = cell_getId d m) \<Longrightarrow> registered c n = registered c m"
  by (simp add: registered_def getCell_def)

lemma table_inv_same:
  "m_cells n = m_cells m \<Longrightarrow> (\<And>d. cell_getId d n = cell_getId d m) \<Longrightarrow> nextId n = nextId m \<Longrightarrow>
   table_inv m \<Longrightarrow> table_inv n"
  by (simp add: table_inv_def)

text \<open>What a change of a field, a terminal or an attribute keeps.\<close>

definition keeps_tree :: "mxGraphModel \<Rightarrow> mxGraphModel \<Rightarrow> bool" where
  "keeps_tree m n \<longleftrightarrow>
     (\<forall>d. cell_getParent d n = cell_getParent d m) \<and> ncells n = ncells m \<and> m_root n = m_root m \<and>
     (\<forall>d. cell_getId d n = cell_getId d m) \<and> m_cells n = m_cells m \<and> nextId n = nextId m \<and>
     createIds n = createIds m"

lemma keeps_tree_facts:
  assumes "keeps_tree m n"
  shows "ancestors n = ancestors m" "inside n = inside m" "under R n = under R m"
    "heap_wf n = heap_wf m" "registered c n = registered c m" "table_inv m \<Longrightarrow> table_inv n"
proof -
  show a: "ancestors n = ancestors m" using assms by (intro ancestors_parents) (simp_all add: keeps_tree_def)
  then show "inside n = inside m" "under R n = under R m"
    using assms by (simp_all add: inside_def under_def keeps_tree_def fun_eq_iff)
  show "heap_wf n = heap_wf m" using assms by (simp add: heap_wf_def parent_rel_def keeps_tree_def)
  show "registered c n = registered c m" using assms by (intro registered_same) (simp_all add: keeps_tree_def)
  show "table_inv m \<Longrightarrow> table_inv n" using assms by (intro table_inv_same [of n m]) (simp_all add: keeps_tree_def)
qed

lemma sound_keeps_tree:
  assumes "sound R m" and "keeps_tree m n" and "struct_inv n"
    and "\<And>e. under R m e \<Longrightarrow> edge_linked e n"
  shows "sound R n"
  using assms keeps_tree_facts [OF assms(2)] soundD [OF assms(1)]
  by (auto simp: sound_def keeps_tree_def)

lemma field_executes:
  assumes s: "sound R m" and u: "n = upd x f m"
    and f: "links (upd x f m) = links m" "\<And>y. c_id (f y) = c_id y" "\<And>y. cell_view (f y) = f (cell_view y)"
  shows "diagram n = set_cell x f (diagram m)" "sound R n" "names n = names m"
proof -
  note l = links_eqD [OF f(1)]
  have ch: "children_of n = children_of m" unfolding u by (rule ext) (rule l(2))
  have parts: "m_root n = m_root m" "m_cells n = m_cells m" "nextId n = nextId m" "createIds n = createIds m"
    "maintainEdgeParent n = maintainEdgeParent m" "ignoreRelativeEdgeParent n = ignoreRelativeEdgeParent m"
    "m_prefix n = m_prefix m" "m_postfix n = m_postfix m" "geo_at n = geo_at m" "node_at n = node_at m"
    "ncells n = ncells m" "ngeos n = ngeos m" "nnodes n = nnodes m" "cell_at n = (cell_at m)(x := f (cell_at m x))"
    by (simp_all add: u upd_def)
  have cells: "(\<lambda>c. cell_view (cell_at n c)) = (\<lambda>c. cell_view (cell_at m c))(x := f (cell_view (cell_at m x)))"
    unfolding parts(14) by (rule ext) (use f(3) in simp)
  show "diagram n = set_cell x f (diagram m)"
    unfolding diagram_def cells set_cell_def parts(1-13) ch by simp
  have "cell_getParent d n = cell_getParent d m" for d
    using l(1) [of d] unfolding u cell_getParent_def .
  moreover have ids: "cell_getId d n = cell_getId d m" for d by (simp add: cell_getId_def parts f(2))
  ultimately have "keeps_tree m n" by (simp add: keeps_tree_def parts)
  moreover have "struct_inv n" unfolding u struct_inv_links [OF f(1)] by (rule soundD(1) [OF s])
  moreover have "edge_linked e n" if "under R m e" for e
    using soundD(9) [OF s that] unfolding u edge_linked_def l(3,4) .
  ultimately show "sound R n" by (rule sound_keeps_tree [OF s])
  show "names n = names m" using ids by (simp add: names_def parts cell_getId_def)
qed


lemma diagram_cell [simp]: "d_cell (diagram m) x = cell_view (cell_at m x)"
  "d_root (diagram m) = m_root m" "d_children (diagram m) = children_of m"
  by (simp_all add: diagram_def)

lemma cell_view_fields [simp]:
  "c_value (cell_view x) = c_value x" "c_style (cell_view x) = c_style x"
  "c_geometry (cell_view x) = c_geometry x" "c_collapsed (cell_view x) = c_collapsed x"
  "c_visible (cell_view x) = c_visible x" "c_parent (cell_view x) = c_parent x"
  "c_source (cell_view x) = c_source x" "c_target (cell_view x) = c_target x"
  by (simp_all add: cell_view_def)

lemma value_executes:
  assumes s: "sound R m"
  shows "executes R (ValueChange x v p) m" "executes R (StyleChange x t q) m" "executes R (GeometryChange x g h) m"
    "executes R (CollapseChange x a b) m" "executes R (VisibleChange x a b) m"
proof -
  have none: "executes R c m" if "exec_change c m = Some (c, m)" "swapped c (diagram m) = c"
    "after c (diagram m) = diagram m" "applicable R c m" for c
    using that s by (simp add: executes_def)
  have field: "executes R c m"
    if "exec_change c m = Some (swapped c (diagram m), upd y f m)" "after c (diagram m) = set_cell y f (diagram m)"
      "links (upd y f m) = links m" "\<And>z. c_id (f z) = c_id z" "\<And>z. cell_view (f z) = f (cell_view z)"
      "applicable R (swapped c (diagram m)) (upd y f m)" for c y f
    using that(1,2,6) field_executes [OF s refl that(3-5)] by (intro executesI [OF that(1)]) simp_all
  note defs = field_callbacks cell_field_defs Let_def applicable_def cell_view_def
  have l: "links (upd y (c_value_update (\<lambda>_. v)) m) = links m" "links (upd y (c_style_update (\<lambda>_. t)) m) = links m"
    "links (upd y (c_geometry_update (\<lambda>_. g)) m) = links m" "links (upd y (c_collapsed_update (\<lambda>_. b)) m) = links m"
    "links (upd y (c_visible_update (\<lambda>_. b)) m) = links m" for y v t g b
    using links_setters(2) [of y v m] links_setters(3) [of y g m] links_setters(4) [of y t m]
      links_setters(5) [of y b m] links_setters(6) [of y b m] by (simp_all add: cell_field_defs)
  show "executes R (ValueChange x v p) m"
  proof (cases x)
    case (Some y)
    then show ?thesis by (intro field [of _ y "c_value_update (\<lambda>_. p)"]) (simp_all add: defs l)
  qed (simp add: none applicable_def)
  show "executes R (StyleChange x t q) m"
  proof (cases x)
    case (Some y)
    then show ?thesis by (intro field [of _ y "c_style_update (\<lambda>_. q)"]) (simp_all add: defs l)
  qed (simp add: none applicable_def)
  show "executes R (GeometryChange x g h) m"
  proof (cases x)
    case (Some y)
    then show ?thesis by (intro field [of _ y "c_geometry_update (\<lambda>_. h)"]) (simp_all add: defs l)
  qed (simp add: none applicable_def)
  show "executes R (CollapseChange x a b) m"
  proof (cases x)
    case (Some y)
    then show ?thesis by (intro field [of _ y "c_collapsed_update (\<lambda>_. b)"]) (simp_all add: defs l)
  qed (simp add: none applicable_def)
  show "executes R (VisibleChange x a b) m"
  proof (cases x)
    case (Some y)
    then show ?thesis by (intro field [of _ y "c_visible_update (\<lambda>_. b)"]) (simp_all add: defs l)
  qed (simp add: none applicable_def)
qed

lemma cell_core_id: "cell_core x = cell_core y \<Longrightarrow> c_id x = c_id y"
  by (cases x; cases y) (simp add: cell_core_def)

lemma set_terminal_view: "cell_view (set_terminal t b x) = set_terminal t b (cell_view x)"
  by (simp add: set_terminal_def cell_view_def)

lemma only_cells_fields:
  assumes "only_cells m n"
  shows "m_root n = m_root m" "m_cells n = m_cells m" "nextId n = nextId m" "createIds n = createIds m"
    "maintainEdgeParent n = maintainEdgeParent m" "ignoreRelativeEdgeParent n = ignoreRelativeEdgeParent m"
    "m_prefix n = m_prefix m" "m_postfix n = m_postfix m" "geo_at n = geo_at m" "node_at n = node_at m"
    "ncells n = ncells m" "ngeos n = ngeos m" "nnodes n = nnodes m"
  by (subst assms [unfolded only_cells_def], simp)+

lemma diagram_only_cells:
  assumes "only_cells m n"
  shows "diagram n = (diagram m)\<lparr>d_cell := (\<lambda>c. cell_view (cell_at n c)), d_children := children_of n\<rparr>"
  by (simp add: diagram_def only_cells_fields [OF assms])

lemma terminal_executes:
  assumes s: "sound R m"
  shows "executes R (TerminalChange e t p b) m"
proof (cases e)
  case None
  with s show ?thesis by (simp add: executes_def applicable_def)
next
  case (Some x)
  let ?n = "snd (terminalForCellChanged (Some x) p b m)"
  have o: "only_cells m ?n" by (rule only_cells_terminal)
  note parts = only_cells_fields [OF o]
  have core: "cell_core (cell_at ?n d) =
      (if d = x then cell_core (set_terminal p b (cell_at m d)) else cell_core (cell_at m d))" for d
    by (simp add: terminal_core cell_core_set_terminal)
  have view: "(\<lambda>d. cell_view (cell_at ?n d)) = (\<lambda>d. cell_view (cell_at m d))(x := set_terminal p b (cell_view (cell_at m x)))"
  proof
    fix d
    have "cell_view (cell_at ?n d) = (if d = x then cell_view (set_terminal p b (cell_at m d)) else cell_view (cell_at m d))"
      by (simp add: core_view core)
    then show "cell_view (cell_at ?n d) =
        ((\<lambda>d. cell_view (cell_at m d))(x := set_terminal p b (cell_view (cell_at m x)))) d"
      by (simp add: set_terminal_view)
  qed
  have ch: "children_of ?n = children_of m" by (rule ext) simp
  have after: "diagram ?n = after (TerminalChange e t p b) (diagram m)"
    unfolding diagram_only_cells [OF o] view ch Some after.simps set_cell_def by (simp add: diagram_def)
  have "c_parent (set_terminal p b z) = c_parent z" "c_id (set_terminal p b z) = c_id z" for z
    by (simp_all add: set_terminal_def)
  then have "cell_getParent d ?n = cell_getParent d m" "cell_getId d ?n = cell_getId d m" for d
    using core_fields(3) [OF core [of d, folded if_distrib [of cell_core]]]
      cell_core_id [OF core [of d, folded if_distrib [of cell_core]]]
    by (simp_all add: cell_getParent_def cell_getId_def)
  then have k: "keeps_tree m ?n" by (simp add: keeps_tree_def parts)
  have si: "struct_inv ?n" using soundD(1) [OF s] by (rule struct_inv_terminalForCellChanged)
  have "edge_linked d ?n" if u: "under R m d" for d
  proof (cases "d = x")
    case True
    then show ?thesis using terminal_ok_preserved [of x m p b] soundD(3) [OF s] soundD(9) [OF s u]
      by (simp add: terminal_ok_def)
  next
    case False
    then show ?thesis using soundD(9) [OF s u] terminal_edges_other [OF soundD(3) [OF s] False, of p b]
      by (simp add: edge_linked_def terminalForCellChanged_getTerminal)
  qed
  then have "sound R ?n" by (rule sound_keeps_tree [OF s k si])
  moreover have "exec_change (TerminalChange e t p b) m = Some (swapped (TerminalChange e t p b) (diagram m), ?n)"
    unfolding Some exec_terminal by (simp add: d_terminal_def cell_getTerminal_def)
  moreover have "names ?n = names m" using k by (simp add: names_def keeps_tree_def parts cell_getId_def)
  ultimately show ?thesis using after
    by (intro executesI [where m' = ?n]) (assumption | simp add: Some applicable_def)+
qed

lemma root_executes:
  assumes s: "sound R m" and r: "set_option p \<subseteq> R"
  shows "executes R (RootChange t p) m"
proof -
  let ?m = "m\<lparr>m_root := p, nextId := 0, m_cells := None\<rparr>"
  have l: "links ?m = links m" by simp
  have wf: "heap_wf ?m" using soundD(4) [OF s] heap_wf_cells [of ?m m] by simp
  have si: "struct_inv ?m" using soundD(1) [OF s] struct_inv_links [OF l] by simp
  have "table_inv ?m" "createIds ?m" using soundD(6) [OF s] by (simp_all add: table_inv_def)
  moreover have "tree_inv ?m" using si by (simp add: struct_inv_def)
  ultimately obtain n where n: "cellAdded p ?m = Some n" "diagram n = diagram ?m" "links n = links ?m" "table_inv n"
    "\<And>d. registered d n \<longleftrightarrow> registered d ?m \<or> (\<exists>r. p = Some r \<and> r \<in> set (ancestors ?m d))"
  proof (cases p)
    case None
    with \<open>table_inv ?m\<close> that [of ?m] show ?thesis by (simp add: cellAdded_def)
  next
    case (Some r)
    obtain k where "cellAdded (Some r) ?m = Some k" "diagram k = diagram ?m" "links k = links ?m" "table_inv k"
      "\<And>d. registered d k \<longleftrightarrow> registered d ?m \<or> r \<in> set (ancestors ?m d)"
      using cellAdded_effect [OF wf \<open>tree_inv ?m\<close> \<open>table_inv ?m\<close> \<open>createIds ?m\<close>] by blast
    with Some show ?thesis by (intro that [of k]) simp_all
  qed
  have reg: "\<not> registered d ?m" for d by (simp add: registered_def getCell_def)
  have anc: "ancestors n = ancestors m" "ancestors ?m = ancestors m" and wfn: "heap_wf n"
  proof -
    show "ancestors ?m = ancestors m" by (rule ancestors_parents) (simp_all add: cell_getParent_def)
    then show "ancestors n = ancestors m" using diagram_hierarchy(1) [OF n(2)] by simp
    show "heap_wf n" using diagram_hierarchy(4) [OF n(2)] wf by simp
  qed
  have root: "m_root n = p" "createIds n" using diagramD(5,7) [OF n(2)] soundD(6) [OF s] by simp_all
  have "registered d n \<longleftrightarrow> inside n d" for d
    using n(5) reg by (auto simp: inside_def root anc)
  moreover have "edge_linked e n" if "under R n e" for e
    using soundD(9) [OF s, of e] that links_eqD(3,4) [OF n(3)] links_eqD(3,4) [OF l]
    unfolding under_def anc edge_linked_def by metis
  moreover have "struct_inv n" using si struct_inv_links [OF n(3)] by simp
  ultimately have sn: "sound R n" using r n(4) wfn root by (simp add: sound_def)
  have "exec_change (RootChange t p) m = Some (swapped (RootChange t p) (diagram m), n)"
    using n(1) by (simp add: rootChanged_def Let_def)
  moreover have "diagram n = after (RootChange t p) (diagram m)" using n(2) by simp
  moreover have "set_option (m_root m) \<subseteq> R" using s by (simp add: sound_def)
  ultimately show ?thesis using sn by (intro executesI) (simp_all add: applicable_def keeps_names_def)
qed

lemma attribute_executes:
  assumes s: "sound R m" and a: "applicable R (CellAttributeChange x a v p) m"
  shows "executes R (CellAttributeChange x a v p) m"
proof (cases x)
  case None
  with s show ?thesis by (simp add: executes_def applicable_def execute_attribute_change_def)
next
  case (Some y)
  then have ok: "attribute_ok y a p (diagram m)" using a by (simp add: applicable_def)
  then obtain k where k: "c_value (cell_at m y) = Some (VNode k)" by (auto simp: attribute_ok_def)
  let ?n = "case p of None \<Rightarrow> node_removeAttribute k a m | Some w \<Rightarrow> node_setAttribute k a w m"
  have val: "cell_getAttribute y a None m = d_attribute (diagram m) y a"
    using ok k by (auto simp: attribute_ok_def cell_getAttribute_def d_attribute_def cell_getValue_def
        diagram_def node_view_def Let_def)
  have e: "exec_change (CellAttributeChange x a v p) m = Some (swapped (CellAttributeChange x a v p) (diagram m), ?n)"
    using k by (cases p) (simp_all add: Some execute_attribute_change_def val cell_getValue_def cell_setAttribute_def)
  have nodes: "node_view (node_at ?n j) = (if j = k then (case node_view (node_at m k) of (u, f, t) \<Rightarrow> (u, f(a := p), t))
      else node_view (node_at m j))" for j
    by (cases p) (auto simp: node_removeAttribute_def node_setAttribute_def node_view_def update_conv' delete_conv')
  have rest: "cell_at ?n = cell_at m" "ncells ?n = ncells m" "geo_at ?n = geo_at m" "ngeos ?n = ngeos m"
    "nnodes ?n = nnodes m" "m_root ?n = m_root m" "m_cells ?n = m_cells m" "nextId ?n = nextId m"
    "createIds ?n = createIds m" "maintainEdgeParent ?n = maintainEdgeParent m"
    "ignoreRelativeEdgeParent ?n = ignoreRelativeEdgeParent m" "m_prefix ?n = m_prefix m" "m_postfix ?n = m_postfix m"
    by (cases p; simp add: node_removeAttribute_def node_setAttribute_def)+
  have ch: "children_of ?n = children_of m" by (simp add: children_of_def rest fun_eq_iff)
  have after: "diagram ?n = after (CellAttributeChange x a v p) (diagram m)"
    by (simp add: Some diagram_def rest ch set_attribute_def k nodes fun_eq_iff)
  have keep: "keeps_tree m ?n" by (simp add: keeps_tree_def rest cell_getParent_def cell_getId_def)
  have l: "links ?n = links m" using rest(1) by (rule links_cell_at)
  have "struct_inv ?n" unfolding struct_inv_links [OF l] by (rule soundD(1) [OF s])
  moreover have "edge_linked d ?n" if "under R m d" for d
    using soundD(9) [OF s that] unfolding edge_linked_def links_eqD(3,4) [OF l] .
  ultimately have sn: "sound R ?n" by (rule sound_keeps_tree [OF s keep])
  have "attribute_ok y a (d_attribute (diagram m) y a) (diagram ?n)"
    using ok k unfolding after Some by (auto simp: attribute_ok_def set_attribute_facts)
  then have "applicable R (swapped (CellAttributeChange x a v p) (diagram m)) ?n"
    by (simp add: Some applicable_def)
  with e after sn show ?thesis by (intro executesI) (simp_all add: Some keeps_names_def)
qed


subsection \<open>Placing and removing a cell\<close>

lemma rewired_keeps:
  assumes "rewired X m n"
  shows "diagram n = diagram m" "keeps_tree m n" "struct_inv n"
proof -
  have o: "only_cells m n" and c: "\<And>d. cell_core (cell_at n d) = cell_core (cell_at m d)"
    and ch: "children_of n = children_of m"
    using assms by (simp_all add: rewired_def)
  have v: "(\<lambda>d. cell_view (cell_at n d)) = (\<lambda>d. cell_view (cell_at m d))" by (simp add: core_view c)
  show "diagram n = diagram m" unfolding diagram_only_cells [OF o] v ch by (simp add: diagram_def)
  show "keeps_tree m n"
    using core_fields(3) [OF c] cell_core_id [OF c] only_cells_fields [OF o]
    by (simp add: keeps_tree_def cell_getParent_def cell_getId_def)
  show "struct_inv n" using assms by (simp add: rewired_def)
qed

text \<open>The hierarchy when one cell has changed its parent.\<close>

lemma reparented:
  assumes d: "diagram n = set_parent x q j (diagram m)" and wf: "heap_wf m" "heap_wf n"
  shows "cell_getParent y n = (if y = x then q else cell_getParent y m)" "m_root n = m_root m"
    "ncells n = ncells m" "createIds n = createIds m"
    "x \<in> set (ancestors n y) \<longleftrightarrow> x \<in> set (ancestors m y)"
    "x \<notin> set (ancestors m y) \<Longrightarrow> ancestors n y = ancestors m y"
proof -
  have p: "cell_getParent y n = (if y = x then q else cell_getParent y m)" for y
  proof -
    have "c_parent (d_cell (diagram n) y) = (if y = x then q else c_parent (d_cell (diagram m) y))"
      unfolding d by (simp add: d_cell_set_parent)
    then show ?thesis by (simp add: cell_getParent_def)
  qed
  then show "cell_getParent y n = (if y = x then q else cell_getParent y m)" .
  have "d_root (diagram n) = d_root (diagram m)" "d_store (diagram n) = d_store (diagram m)"
    "d_settings (diagram n) = d_settings (diagram m)"
    unfolding d by (simp_all add: set_parent_def set_cell_def)
  then show "m_root n = m_root m" "ncells n = ncells m" "createIds n = createIds m"
    by (simp_all add: diagram_def)
  have "y \<noteq> x \<Longrightarrow> cell_getParent y n = cell_getParent y m" for y by (simp add: p)
  then show "x \<in> set (ancestors n y) \<longleftrightarrow> x \<in> set (ancestors m y)"
    "x \<notin> set (ancestors m y) \<Longrightarrow> ancestors n y = ancestors m y"
    using below_agree [OF wf] ancestors_agree [OF wf] by metis+
qed

lemma rootless_reparented:
  assumes "diagram n = set_parent x q j (diagram m)" "heap_wf m" "heap_wf n"
  shows "rootless R x n = rootless R x m"
  using reparented(5) [OF assms] by (simp add: rootless_def)

lemma placed_hierarchy:
  assumes s: "sound R m" and ok: "place_ok R x p m" and d: "diagram n = set_parent x (Some p) j (diagram m)"
    and wfn: "heap_wf n"
  shows "inside n y \<longleftrightarrow> inside m y \<or> x \<in> set (ancestors m y)"
    and "under R n y \<Longrightarrow> under R m y \<or> x \<in> set (ancestors m y)"
    and "cell_getParent x m = Some q \<Longrightarrow> x \<in> set (ancestors m y) \<Longrightarrow> inside m y"
    and "ancestors n p = ancestors m p"
proof -
  note wf = soundD(4) [OF s]
  note r = reparented [OF d wf wfn]
  obtain t where t: "m_root m = Some t" "t \<in> set (ancestors m p)" and xp: "x \<notin> set (ancestors m p)"
    using ok by (auto simp: place_ok_def inside_def)
  show p: "ancestors n p = ancestors m p" using xp by (rule r(6))
  have "ancestors n x = x # ancestors m p"
    using r(1) [of x] p by (simp add: ancestors_parent [OF wfn, of x])
  then have tx: "t \<in> set (ancestors n x)" using t by simp
  show "inside n y \<longleftrightarrow> inside m y \<or> x \<in> set (ancestors m y)"
  proof (cases "x \<in> set (ancestors m y)")
    case True
    then have "t \<in> set (ancestors n y)" using ancestors_trans [OF wfn tx] r(5) by blast
    with True t show ?thesis by (simp add: inside_def r(2))
  next
    case False
    then show ?thesis by (simp add: inside_def r(2) r(6))
  qed
  show "under R m y \<or> x \<in> set (ancestors m y)" if "under R n y"
    using that r(6) [of y] by (auto simp: under_def)
  show "inside m y" if "cell_getParent x m = Some q" "x \<in> set (ancestors m y)"
  proof -
    have "t \<in> set (ancestors m q)" using ok that(1) t by (simp add: place_ok_def inside_def)
    then have "t \<in> set (ancestors m x)" using that(1) by (simp add: ancestors_parent [OF wf, of x])
    then show ?thesis using ancestors_trans [OF wf _ that(2)] t by (auto simp: inside_def)
  qed
qed

lemma left_hierarchy:
  assumes s: "sound R m" and ok: "leave_ok R x m" and d: "diagram n = set_parent x None j (diagram m)"
    and wfn: "heap_wf n"
  shows "inside n y \<longleftrightarrow> inside m y \<and> x \<notin> set (ancestors m y)"
    and "under R n y \<longleftrightarrow> under R m y \<and> x \<notin> set (ancestors m y)"
proof -
  note r = reparented [OF d soundD(4) [OF s] wfn]
  have out: "\<not> under R n y" if x: "x \<in> set (ancestors m y)"
  proof
    assume "under R n y"
    then obtain t where t: "t \<in> R" "t \<in> set (ancestors n y)" by (auto simp: under_def)
    have nx: "x \<notin> set (ancestors n t)" using ok t(1) r(5) by (auto simp: leave_ok_def rootless_def)
    moreover have "x \<in> set (ancestors n y)" using x r(5) by simp
    ultimately have "t \<in> set (ancestors n x)" using ancestors_linear [OF wfn t(2)] by blast
    moreover have "ancestors n x = [x]" using r(1) [of x] by (simp add: ancestors_parent [OF wfn, of x])
    ultimately have "t = x" by simp
    with nx wfn show False by simp
  qed
  have same: "under R n y = under R m y" "inside n y = inside m y" if "x \<notin> set (ancestors m y)"
    using r(6) [OF that] by (simp_all add: under_def inside_def r(2))
  show "under R n y \<longleftrightarrow> under R m y \<and> x \<notin> set (ancestors m y)" using out same(1) by blast
  have "inside n y \<Longrightarrow> under R n y" using soundD(7) [OF s] by (auto simp: inside_def under_def r(2))
  then show "inside n y \<longleftrightarrow> inside m y \<and> x \<notin> set (ancestors m y)" using out same(2) by blast
qed

text \<open>The cell level: insertion and removal.\<close>

lemma insert_diagram:
  assumes "tree_inv m"
  shows "diagram (cell_insert p (Some x) j m) = set_parent x (Some p) j (diagram m)"
proof -
  let ?n = "cell_insert p (Some x) j m"
  have o: "only_cells m ?n" by (rule only_cells_insert)
  have len: "insert_pos p x j m = (case j of Some k \<Rightarrow> k | None \<Rightarrow> int (length (remove1 x (children_of m p))))"
  proof (cases j)
    case None
    have "x \<in> set (children_of m p) \<Longrightarrow> length (children_of m p) \<ge> 1"
      by (cases "children_of m p") simp_all
    with None tree_invD(2) [OF assms, of x p] show ?thesis
      by (simp add: insert_pos_def length_remove1 of_nat_diff)
  qed (simp add: insert_pos_def)
  have cell: "(\<lambda>d. cell_view (cell_at ?n d)) = (\<lambda>d. cell_view (cell_at m d))(x := (cell_view (cell_at m x))\<lparr>c_parent := Some p\<rparr>)"
    by (rule ext) (simp add: core_view insert_core [OF assms])
  have ch: "children_of ?n = (\<lambda>y. let others = remove1 x (children_of m y)
        in if Some p = Some y then js_insert_at others (case j of Some k \<Rightarrow> k | None \<Rightarrow> int (length others)) x
           else others)"
    by (rule ext) (auto simp: cell_insert_children [OF assms] len Let_def)
  show ?thesis unfolding diagram_only_cells [OF o] cell ch set_parent_def set_cell_def by (simp add: diagram_def)
qed

lemma only_cells_detach: "only_cells h (detach c h)"
  by (simp add: detach_def cell_setParent_def only_cells_upd split: option.splits)

lemma detach_diagram:
  assumes "tree_inv m"
  shows "diagram (detach x m) = set_parent x None j (diagram m)"
proof -
  have cell: "(\<lambda>d. cell_view (cell_at (detach x m) d)) = (\<lambda>d. cell_view (cell_at m d))(x := (cell_view (cell_at m x))\<lparr>c_parent := None\<rparr>)"
    by (rule ext) (simp add: core_view detach_core)
  have ch: "children_of (detach x m) = (\<lambda>y. remove1 x (children_of m y))"
    by (rule ext) (rule detach_children [OF assms])
  show ?thesis unfolding diagram_only_cells [OF only_cells_detach] cell ch set_parent_def set_cell_def
    by (simp add: diagram_def Let_def)
qed

lemma cell_core_c_id [simp]: "c_id (cell_core x) = c_id x"
  by (simp add: cell_core_def)

lemma insert_ids:
  assumes "tree_inv m"
  shows "cell_getId d (cell_insert p (Some x) j m) = cell_getId d m"
proof -
  have "c_id (cell_core (cell_at (cell_insert p (Some x) j m) d)) = c_id (cell_core (cell_at m d))"
    unfolding insert_core [OF assms] by simp
  then show ?thesis by (simp add: cell_getId_def)
qed

lemma detach_ids: "cell_getId d (detach x m) = cell_getId d m"
proof -
  have "c_id (cell_core (cell_at (detach x m) d)) = c_id (cell_core (cell_at m d))"
    unfolding detach_core by simp
  then show ?thesis by (simp add: cell_getId_def)
qed

lemma detach_edges: "cell_getTerminal e b (detach x m) = cell_getTerminal e b m" "edges_of (detach x m) q = edges_of m q"
  unfolding detach_def by (cases "c_parent (cell_at m x)"; simp only: option.case update_children_edges)+

lemma d_index_diagram:
  assumes "tree_inv m"
  shows "d_index (diagram m) x = (case cell_getParent x m of None \<Rightarrow> 0 | Some q \<Rightarrow> cell_getIndex q x m)"
proof (cases "cell_getParent x m")
  case (Some q)
  then have "x \<in> set (children_of m q)" using children_getParent [OF assms] by blast
  from getIndex_children [OF this] Some show ?thesis by (simp add: d_index_def cell_getParent_def)
qed (simp add: d_index_def cell_getParent_def)


text \<open>The callback of a placement.\<close>

lemma contains_none: "heap_wf m \<Longrightarrow> m_root m = Some r \<Longrightarrow> m_contains None m = Some False"
  by (simp add: m_contains_def isAncestor_wf)

lemma place_callback:
  assumes s: "sound R m" and ok: "place_ok R x p m"
  obtains n where "parentForCellChanged (Some x) (Some p) j m = Some (cell_getParent x m, n)"
    "diagram n = set_parent x (Some p) j (diagram m)" "struct_inv n" "heap_wf n" "table_inv n"
    "\<And>d. registered d n \<longleftrightarrow> registered d m \<or> x \<in> set (ancestors m d)"
    "\<And>d. edge_linked d n \<longleftrightarrow> edge_linked d m" "cell_getParent x m \<noteq> None \<Longrightarrow> names n = names m"
proof -
  note wf = soundD(4) [OF s] and t = soundD(2) [OF s]
  define i where "i \<longleftrightarrow> Some p \<noteq> cell_getParent x m \<or> Some (cell_getIndex (the (cell_getParent x m)) x m) \<noteq> j"
  define m1 where "m1 = (if i then cell_insert p (Some x) j m else m)"
  have d1: "diagram m1 = set_parent x (Some p) j (diagram m)"
  proof (cases i)
    case True
    then show ?thesis by (simp add: m1_def insert_diagram [OF t])
  next
    case False
    then have "cell_getParent x m = Some p" "j = Some (d_index (diagram m) x)"
      by (auto simp: i_def d_index_diagram [OF t] split: option.splits)
    then show ?thesis using False set_parent_own [OF d_tree_diagram [OF t], of x]
      by (simp add: m1_def cell_getParent_def)
  qed
  have x: "x < ncells m" using ok heap_wf_parent [OF wf, of x] by (auto simp: place_ok_def split: option.splits)
  have wf1: "heap_wf m1"
    using heap_wf_insert [OF t wf x, of p j] ok wf by (auto simp: m1_def place_ok_def)
  have si: "struct_inv m1" using soundD(1) [OF s] by (simp add: m1_def struct_inv_insert)
  have o: "only_cells m m1" by (simp add: m1_def only_cells_insert)
  have ids: "cell_getId d m1 = cell_getId d m" for d by (simp add: m1_def insert_ids [OF t])
  have reg: "registered d m1 = registered d m" for d
    using only_cells_fields(2) [OF o] ids by (rule registered_same)
  have tab: "table_inv m1"
    using only_cells_fields(2,3) [OF o] ids soundD(5) [OF s] by (intro table_inv_same [of m1 m])
  have link: "edge_linked d m1 \<longleftrightarrow> edge_linked d m" for d
    by (simp add: m1_def edge_linked_def)
  have cr: "createIds m1" using only_cells_fields(4) [OF o] soundD(6) [OF s] by simp
  obtain r where r: "m_root m = Some r" using ok by (auto simp: place_ok_def inside_def)
  have root: "m_root m1 = Some r" using only_cells_fields(1) [OF o] r by simp
  have call: "parentForCellChanged (Some x) (Some p) j m =
      (case m_contains (cell_getParent x m) m1 of
         None \<Rightarrow> None
       | Some b \<Rightarrow>
           map_option (Pair (cell_getParent x m)) (if \<not> b then cellAdded (Some x) m1 else Some m1))"
    by (simp add: parentForCellChanged_def getParent_def Let_def m1_def i_def split: option.splits)
  show ?thesis
  proof (cases "cell_getParent x m")
    case None
    obtain n where n: "cellAdded (Some x) m1 = Some n" "diagram n = diagram m1" "links n = links m1" "table_inv n"
      "\<And>d. registered d n \<longleftrightarrow> registered d m1 \<or> x \<in> set (ancestors m1 d)"
      using cellAdded_effect [OF wf1 _ tab cr] si by (auto simp: struct_inv_def)
    have "m_contains None m1 = Some False" using wf1 root by (rule contains_none)
    then have c: "parentForCellChanged (Some x) (Some p) j m = Some (cell_getParent x m, n)"
      using call None n(1) by simp
    show ?thesis
    proof (rule that [OF c])
      show "struct_inv n" using si struct_inv_links [OF n(3)] by simp
      show "heap_wf n" using wf1 diagram_hierarchy(4) [OF n(2)] by simp
      show "registered d n \<longleftrightarrow> registered d m \<or> x \<in> set (ancestors m d)" for d
        using n(5) reg reparented(5) [OF d1 wf wf1] by simp
      show "edge_linked d n \<longleftrightarrow> edge_linked d m" for d
        using link [of d] links_eqD(3,4) [OF n(3)] by (simp add: edge_linked_def)
    qed (use d1 n None in simp_all)
  next
    case (Some q)
    have "r \<in> set (ancestors m q)" "x \<notin> set (ancestors m q)"
      using ok Some r not_above_parent [OF wf Some] by (simp_all add: place_ok_def inside_def)
    then have "m_contains (Some q) m1 = Some True"
      using reparented(6) [OF d1 wf wf1, of q] isAncestor_wf(1) [OF wf1, of r q] root by (simp add: m_contains_def)
    then have c: "parentForCellChanged (Some x) (Some p) j m = Some (cell_getParent x m, m1)"
      using call Some by simp
    show ?thesis
    proof (rule that [OF c])
      show "registered d m1 \<longleftrightarrow> registered d m \<or> x \<in> set (ancestors m d)" for d
        using reg placed_hierarchy(3) [OF s ok d1 wf1 Some] soundD(8) [OF s] by blast
      show "names m1 = names m" using only_cells_fields [OF o] ids by (simp add: names_def cell_getId_def)
    qed (use d1 si wf1 tab link in simp_all)
  qed
qed

lemma place_executes:
  assumes s: "sound R m" and ok: "place_ok R x p m"
  shows "executes R (ChildChange pp (Some p) (Some x) i j) m"
proof -
  note wf = soundD(4) [OF s] and t = soundD(2) [OF s]
  let ?c = "ChildChange pp (Some p) (Some x) i j"
  obtain k where k: "parentForCellChanged (Some x) (Some p) j m = Some (cell_getParent x m, k)"
    "diagram k = set_parent x (Some p) j (diagram m)" "struct_inv k" "heap_wf k" "table_inv k"
    "\<And>d. registered d k \<longleftrightarrow> registered d m \<or> x \<in> set (ancestors m d)"
    "\<And>d. edge_linked d k \<longleftrightarrow> edge_linked d m" "cell_getParent x m \<noteq> None \<Longrightarrow> names k = names m"
    using s ok by (rule place_callback) blast
  obtain n where n: "connect (Some x) True k = Some n" "rewired (\<lambda>d. x \<in> set (ancestors k d)) k n"
    "\<And>d. x \<in> set (ancestors k d) \<Longrightarrow> edge_linked d n" "\<And>d. edge_linked d k \<Longrightarrow> edge_linked d n"
    using connect_rewires [OF k(4,3), of x True] by auto
  note kept = rewired_keeps [OF n(2)]
  have dn: "diagram n = set_parent x (Some p) j (diagram m)" using kept(1) k(2) by simp
  have wfn: "heap_wf n" using keeps_tree_facts(4) [OF kept(2)] k(4) by simp
  note r = reparented [OF dn wf wfn] and h = placed_hierarchy [OF s ok dn wfn]
  have "sound R n"
    unfolding sound_def
  proof (intro conjI allI impI)
    show "registered c n \<longleftrightarrow> inside n c" for c
      using keeps_tree_facts(5) [OF kept(2)] k(6) h(1) soundD(8) [OF s] by simp
    show "edge_linked e n" if "under R n e" for e
    proof -
      have "x \<in> set (ancestors k e) \<longleftrightarrow> x \<in> set (ancestors m e)"
        using reparented(5) [OF k(2) wf k(4)] .
      with h(2) [OF that] n(3,4) k(7) soundD(9) [OF s] show ?thesis by blast
    qed
    show "createIds n" using r(4) soundD(6) [OF s] by simp
    show "set_option (m_root n) \<subseteq> R" using s r(2) by (simp add: sound_def)
  qed (use kept(3) wfn keeps_tree_facts(6) [OF kept(2) k(5)] in simp_all)
  moreover have "exec_change ?c m = Some (swapped ?c (diagram m), n)"
    using k(1) n(1) d_index_diagram [OF t, of x]
    by (simp add: execute_child_change_def Let_def cell_getParent_def)
  moreover have "diagram n = after ?c (diagram m)" using dn by simp
  moreover have "applicable R (swapped ?c (diagram m)) n"
  proof (cases "cell_getParent x m")
    case None
    then have "rootless R x m" using ok by (simp add: place_ok_def)
    moreover have "inside n p" using h(1) ok by (simp add: place_ok_def)
    ultimately have "leave_ok R x n"
      using rootless_reparented [OF dn wf wfn] r(1) [of x] by (simp add: leave_ok_def)
    with None show ?thesis by (simp add: applicable_def cell_getParent_def)
  next
    case (Some q)
    have "x \<notin> set (ancestors m q)" using not_above_parent [OF wf Some] .
    moreover have "inside m q" "q < ncells m" using ok Some heap_wf_parent [OF wf Some] by (simp_all add: place_ok_def)
    ultimately have "place_ok R x q n"
      using ok h(1) r(1) [of x] r(3) r(5) [of q] by (simp add: place_ok_def)
    with Some show ?thesis by (simp add: applicable_def cell_getParent_def)
  qed
  moreover have "names n = names m" if "keeps_names ?c m"
  proof -
    have "names n = names k"
      using kept(2) n(2) only_cells_fields(10) [of k n] by (simp add: names_def keeps_tree_def cell_getId_def rewired_def)
    with that k(8) show ?thesis by (simp add: keeps_names_def)
  qed
  ultimately show ?thesis by (intro executesI)
qed

lemma leave_callback:
  assumes s: "sound R m" and ok: "leave_ok R x m" and k: "rewired X m k"
  shows "parentForCellChanged (Some x) None j k =
    Some (cell_getParent x m, drop_ids (ids_below (detach x k) x) (detach x k))"
proof -
  note kept = rewired_keeps [OF k]
  note wf = soundD(4) [OF s]
  obtain q r where q: "cell_getParent x m = Some q" "m_root m = Some r" "r \<in> set (ancestors m q)"
    using ok by (auto simp: leave_ok_def inside_def)
  have t: "tree_inv k" using kept(3) by (simp add: struct_inv_def)
  have qk: "cell_getParent x k = Some q" using diagramD(2) [OF kept(1)] q(1) by simp
  let ?n = "detach x k"
  have wfk: "heap_wf k" using keeps_tree_facts(4) [OF kept(2)] wf by simp
  have wfn: "heap_wf ?n" by (rule heap_wf_detach [OF wfk])
  have d: "diagram ?n = set_parent x None None (diagram m)"
    using detach_diagram [OF t, of x None] kept(1) by simp
  have rem: "snd (cell_remove q (cell_getIndex q x k) k) = ?n"
    using cell_remove_effect [OF t, of x q] qk by (simp add: cell_getParent_def)
  have "ancestors ?n q = ancestors m q"
    using reparented(6) [OF d wf wfn] not_above_parent [OF wf q(1)] by simp
  then have "m_contains (Some q) ?n = Some True"
    using isAncestor_wf(1) [OF wfn, of r q] q reparented(2) [OF d wf wfn] by (simp add: m_contains_def)
  moreover have "cellRemoved (Some x) ?n = Some (drop_ids (ids_below ?n x) ?n)"
    by (rule cellRemoved_drops [OF wfn tree_inv_detach [OF t]])
  ultimately show ?thesis
    using qk q(1) by (simp add: parentForCellChanged_def getParent_def Let_def rem)
qed

lemma leave_executes:
  assumes s: "sound R m" and ok: "leave_ok R x m"
  shows "executes R (ChildChange pp None (Some x) i j) m"
proof -
  note wf = soundD(4) [OF s] and t = soundD(2) [OF s]
  let ?c = "ChildChange pp None (Some x) i j"
  obtain k where k: "connect (Some x) False m = Some k" "rewired (\<lambda>d. x \<in> set (ancestors m d)) m k"
    using connect_rewires [OF wf soundD(1) [OF s], of x False] by auto
  note kept = rewired_keeps [OF k(2)]
  define n1 where "n1 = detach x k"
  define n where "n = drop_ids (ids_below n1 x) n1"
  have tk: "tree_inv k" using kept(3) by (simp add: struct_inv_def)
  have wf1: "heap_wf n1" using heap_wf_detach keeps_tree_facts(4) [OF kept(2)] wf by (simp add: n1_def)
  have d1: "diagram n1 = set_parent x None j (diagram m)"
    using detach_diagram [OF tk, of x j] kept(1) by (simp add: n1_def)
  then have dn: "diagram n = set_parent x None j (diagram m)" by (simp add: n_def)
  have wfn: "heap_wf n" using wf1 diagram_hierarchy(4) [of n n1] by (simp add: n_def)
  note r = reparented [OF dn wf wfn] and h = left_hierarchy [OF s ok dn wfn]
  have o: "only_cells m n1"
    using k(2) only_cells_trans [OF _ only_cells_detach] by (auto simp: rewired_def n1_def)
  have ids: "cell_getId d n1 = cell_getId d m" for d
    using kept(2) by (simp add: n1_def detach_ids keeps_tree_def)
  have reg: "registered d n1 = registered d m" for d
    using only_cells_fields(2) [OF o] ids by (rule registered_same)
  have tab: "table_inv n1"
    using only_cells_fields(2,3) [OF o] ids soundD(5) [OF s] by (intro table_inv_same [of n1 m])
  have below: "x \<in> set (ancestors n1 d) \<longleftrightarrow> x \<in> set (ancestors m d)" for d
    by (rule reparented(5) [OF d1 wf wf1])
  obtain q where q: "cell_getParent x m = Some q" "inside m q" using ok by (auto simp: leave_ok_def)
  have inx: "inside m d" if "x \<in> set (ancestors m d)" for d
  proof -
    obtain t where t: "m_root m = Some t" "t \<in> set (ancestors m q)" using q(2) by (auto simp: inside_def)
    then have "t \<in> set (ancestors m x)" using q(1) by (simp add: ancestors_parent [OF wf, of x])
    then show ?thesis using ancestors_trans [OF wf _ that] t(1) by (auto simp: inside_def)
  qed
  have regn: "registered d n \<longleftrightarrow> registered d m \<and> x \<notin> set (ancestors m d)" for d
  proof -
    have "(\<forall>i. cell_getId d n1 = Some i \<longrightarrow> i \<notin> ids_below n1 x) \<longleftrightarrow> x \<notin> set (ancestors m d)" if d: "registered d m"
    proof
      assume "\<forall>i. cell_getId d n1 = Some i \<longrightarrow> i \<notin> ids_below n1 x"
      then show "x \<notin> set (ancestors m d)"
        using d below by (auto simp: ids_below_def registered_def ids)
    next
      assume "x \<notin> set (ancestors m d)"
      moreover have "e = d" if "x \<in> set (ancestors m e)" "cell_getId e m = cell_getId d m" for e
        using inx [OF that(1)] soundD(8) [OF s, of e] d that(2) by (auto simp: registered_def)
      ultimately show "\<forall>i. cell_getId d n1 = Some i \<longrightarrow> i \<notin> ids_below n1 x"
        using below by (fastforce simp: ids_below_def ids)
    qed
    then show ?thesis using drop_ids_table(2) [OF tab] reg by (auto simp: n_def)
  qed
  have "sound R n"
    unfolding sound_def
  proof (intro conjI allI impI)
    show "struct_inv n"
    proof -
      have "struct_inv n1"
        using kept(3) tree_inv_detach [OF tk]
        by (simp add: n1_def struct_inv_def edge_inv_fields [of "detach x k" k] detach_edges)
      moreover have "links n = links n1" by (simp add: n_def)
      ultimately show ?thesis using struct_inv_links by blast
    qed
    show "registered c n \<longleftrightarrow> inside n c" for c using regn h(1) soundD(8) [OF s] by simp
    show "edge_linked e n" if "under R n e" for e
    proof -
      have e: "under R m e" "x \<notin> set (ancestors m e)" using that h(2) by simp_all
      have "cell_getTerminal e b n = cell_getTerminal e b m" "edges_of n u = edges_of k u" for b u
        using links_eqD(3,4) [of n n1] diagramD(4) [OF kept(1)] by (simp_all add: n_def n1_def detach_edges)
      moreover have "e \<in> set (edges_of k u) \<longleftrightarrow> e \<in> set (edges_of m u)" for u
        using k(2) e(2) by (simp add: rewired_def)
      ultimately show ?thesis using soundD(9) [OF s e(1)] by (simp add: edge_linked_def)
    qed
    show "createIds n" using r(4) soundD(6) [OF s] by simp
    show "set_option (m_root n) \<subseteq> R" using s r(2) by (simp add: sound_def)
    show "table_inv n" unfolding n_def by (rule drop_ids_table(1) [OF tab])
  qed (rule wfn)
  moreover have "exec_change ?c m = Some (swapped ?c (diagram m), n)"
    using k(1) leave_callback [OF s ok k(2)] d_index_diagram [OF t, of x]
    by (simp add: execute_child_change_def Let_def cell_getParent_def n_def n1_def)
  moreover have "diagram n = after ?c (diagram m)" using dn by simp
  moreover have "applicable R (swapped ?c (diagram m)) n"
  proof -
    have xq: "x \<notin> set (ancestors m q)" using not_above_parent [OF wf q(1)] .
    have "q < ncells m" "x < ncells m" using heap_wf_parent [OF wf q(1)] by simp_all
    moreover have "rootless R x n" using ok rootless_reparented [OF dn wf wfn] by (simp add: leave_ok_def)
    ultimately have "place_ok R x q n"
      using xq h(1) q(2) r(1) [of x] r(3) r(5) [of q] by (simp add: place_ok_def)
    with q(1) show ?thesis by (simp add: applicable_def cell_getParent_def)
  qed
  ultimately show ?thesis by (intro executesI) (simp_all add: keeps_names_def)
qed

text \<open>The change objects implement \<open>after\<close> and \<open>swapped\<close>, and keep the model sound.\<close>

theorem change_executes:
  assumes s: "sound R m" and a: "applicable R c m"
  shows "executes R c m"
proof (cases c)
  case (ChildChange pp q x i j)
  show ?thesis
  proof (cases x)
    case None
    with s ChildChange show ?thesis by (simp add: executes_def applicable_def execute_child_change_def)
  next
    case (Some y)
    with a ChildChange place_executes [OF s] leave_executes [OF s] show ?thesis
      by (cases q) (simp_all add: applicable_def)
  qed
next
  case (RootChange t p)
  with a root_executes [OF s] show ?thesis by (simp add: applicable_def)
next
  case (CellAttributeChange x n v p)
  with a attribute_executes [OF s] show ?thesis by simp
qed (use terminal_executes [OF s] value_executes [OF s] in simp_all)

end
