(* ===== verification/Reversal.thy ===== *)
theory Reversal
  imports ChangeEffect
begin

text \<open>
  The changes of the model are reversible: the interpretation of the contract of edits (locale
  \<open>reversible_changes\<close>) on the change objects, for states that show the same diagram.
\<close>

subsection \<open>Changes with the same input\<close>

text \<open>
  A change that has been executed may differ from one that is current in fields that \<open>execute\<close> does
  not read: the index that a removal was created with, or an index behind the last child.
\<close>

definition input_of :: "change \<Rightarrow> change" where
  "input_of c =
     (case c of ChildChange _ q (Some x) _ j \<Rightarrow> ChildChange None q (Some x) None j | _ \<Rightarrow> c)"

definition same_input :: "change \<Rightarrow> change \<Rightarrow> bool" where
  "same_input c d \<longleftrightarrow> input_of c = input_of d"

lemma same_input_refl [simp]: "same_input c c"
  by (simp add: same_input_def)

lemma input_of_facts:
  "exec_change (input_of c) = exec_change c \<and> after (input_of c) = after c \<and>
   applicable R (input_of c) = applicable R c \<and> keeps_names (input_of c) = keeps_names c"
proof (cases c)
  case (ChildChange pp q x i j)
  then show ?thesis
    by (cases x) (simp_all add: input_of_def fun_eq_iff applicable_def keeps_names_def execute_child_change_def)
qed (simp_all add: input_of_def)

lemma same_input_facts:
  assumes "same_input c d"
  shows "exec_change c = exec_change d" "after c = after d" "applicable R c = applicable R d"
    "keeps_names c = keeps_names d"
  using input_of_facts [of c R] input_of_facts [of d R] assms by (simp_all add: same_input_def)

lemma swapped_current:
  assumes "d_tree (diagram m)" and "applicable R c m"
  shows "\<exists>d. same_input d (swapped c (diagram m)) \<and> current d (after c (diagram m))"
proof -
  let ?D = "diagram m"
  have self: "\<exists>d. same_input d (swapped c ?D) \<and> current d (after c ?D)" if "current (swapped c ?D) (after c ?D)"
    using that by (intro exI [of _ "swapped c ?D"]) simp
  show ?thesis
  proof (cases c)
    case (ChildChange pp q x i j)
    show ?thesis
    proof (cases x)
      case None
      with ChildChange show ?thesis by (intro exI [of _ c]) (simp add: current_def)
    next
      case (Some y)
      let ?d = "ChildChange q (c_parent (d_cell ?D y)) (Some y) (Some (canonical y q j ?D)) (Some (d_index ?D y))"
      have "same_input ?d (swapped c ?D)" using ChildChange Some by (simp add: same_input_def input_of_def)
      moreover have "current ?d (after c ?D)"
        using ChildChange Some set_parent_own [OF assms(1), of y]
        by (simp add: current_def set_parent_twice [OF assms(1)] d_cell_set_parent canonical_def)
      ultimately show ?thesis by blast
    qed
  next
    case (CellAttributeChange x a v p)
    then show ?thesis using assms(2)
      by (intro self; cases x) (auto simp: current_def set_attribute_facts applicable_def attribute_ok_def)
  next
    case (TerminalChange e t p b)
    then show ?thesis
      by (intro self; cases e) (auto simp: current_def set_cell_def set_terminal_def d_terminal_def)
  next
    case (RootChange r p)
    then show ?thesis by (intro self) (simp add: current_def)
  next
    case (ValueChange x v p)
    then show ?thesis by (intro self; cases x) (simp_all add: current_def set_cell_def)
  next
    case (StyleChange x v p)
    then show ?thesis by (intro self; cases x) (simp_all add: current_def set_cell_def)
  next
    case (GeometryChange x v p)
    then show ?thesis by (intro self; cases x) (simp_all add: current_def set_cell_def)
  next
    case (CollapseChange x v p)
    then show ?thesis by (intro self; cases x) (simp_all add: current_def set_cell_def)
  next
    case (VisibleChange x v p)
    then show ?thesis by (intro self; cases x) (simp_all add: current_def set_cell_def)
  qed
qed

subsection \<open>The contract of the edits, for the changes of the model\<close>

text \<open>
  Two states of an edit are the same when they show the same diagram and are both sound or both not;
  with \<open>exact\<close> also their identifiers, table, counter and attributes agree.
\<close>

fun same_state :: "bool \<Rightarrow> cref set \<Rightarrow> mxGraphModel option \<Rightarrow> mxGraphModel option \<Rightarrow> bool" where
  "same_state exact R (Some m) (Some n) \<longleftrightarrow>
     diagram m = diagram n \<and> sound R m = sound R n \<and> (exact \<longrightarrow> names m = names n)"
| "same_state exact R None None \<longleftrightarrow> True"
| "same_state exact R _ _ \<longleftrightarrow> False"

fun reversible :: "bool \<Rightarrow> cref set \<Rightarrow> change \<Rightarrow> mxGraphModel option \<Rightarrow> bool" where
  "reversible exact R c None \<longleftrightarrow> False"
| "reversible exact R c (Some m) \<longleftrightarrow>
     sound R m \<and> applicable R c m \<and> current c (diagram m) \<and> (exact \<longrightarrow> keeps_names c m)"

lemma same_state_equiv:
  "same_state exact R s s" "same_state exact R s t \<Longrightarrow> same_state exact R t s"
  "same_state exact R s t \<Longrightarrow> same_state exact R t u \<Longrightarrow> same_state exact R s u"
  by (cases s; cases t; cases u; simp)+

lemma keeps_names_diagram:
  assumes "diagram m = diagram n"
  shows "keeps_names c m = keeps_names c n"
  unfolding keeps_names_def diagramD(2) [OF assms] ..

lemma keeps_names_back:
  assumes "keeps_names c m" and "diagram n = after c (diagram m)"
  shows "keeps_names (swapped c (diagram m)) n"
proof (cases c)
  case (ChildChange pp q x i j)
  show ?thesis
  proof (cases x)
    case (Some y)
    have "d_cell (diagram n) y = d_cell (after c (diagram m)) y" using assms(2) by simp
    then have "c_parent (cell_view (cell_at n y)) = q"
      using ChildChange Some by (simp only: diagram_cell after.simps d_cell_set_parent) simp
    with assms(1) ChildChange Some show ?thesis by (simp add: keeps_names_def cell_getParent_def)
  qed (use ChildChange in \<open>simp add: keeps_names_def\<close>)
next
  case (CellAttributeChange x a v p)
  with assms(1) show ?thesis by (cases x) (simp_all add: keeps_names_def)
next
  case (RootChange r p)
  with assms(1) show ?thesis by (simp add: keeps_names_def)
next
  case (TerminalChange x t p b)
  then show ?thesis by (cases x) (simp_all add: keeps_names_def)
next
  case (ValueChange x v p)
  then show ?thesis by (cases x) (simp_all add: keeps_names_def)
next
  case (StyleChange x v p)
  then show ?thesis by (cases x) (simp_all add: keeps_names_def)
next
  case (GeometryChange x v p)
  then show ?thesis by (cases x) (simp_all add: keeps_names_def)
next
  case (CollapseChange x v p)
  then show ?thesis by (cases x) (simp_all add: keeps_names_def)
next
  case (VisibleChange x v p)
  then show ?thesis by (cases x) (simp_all add: keeps_names_def)
qed

text \<open>Executing a change and then what it has become leads back to the diagram.\<close>

lemma exec_back:
  assumes s: "sound R m" and a: "applicable R c m" and k: "exact \<Longrightarrow> keeps_names c m"
    and e: "exec_change c m = Some (d, m')" and i: "same_input d' d"
  shows "\<exists>n. exec_change d' m' = Some (swapped d (diagram m'), n) \<and> same_state exact R (Some n) (Some m)"
proof -
  let ?D = "diagram m"
  from change_executes [OF s a] e have
    d: "d = swapped c ?D" and m': "diagram m' = after c ?D" "sound R m'" "applicable R d m'"
    and names: "keeps_names c m \<Longrightarrow> names m' = names m" by (auto simp: executes_def)
  from change_executes [OF m'(2,3)] obtain n where
    n: "exec_change d m' = Some (swapped d (diagram m'), n)" "diagram n = after d (diagram m')" "sound R n"
    "keeps_names d m' \<longrightarrow> names n = names m'" by (auto simp: executes_def)
  have "diagram n = ?D"
    using n(2) after_back [OF d_tree_diagram [OF soundD(2) [OF s]], of c] by (simp add: m'(1) d)
  moreover have "names n = names m" if exact
    using n(4) names [OF k [OF that]] keeps_names_back [OF k [OF that] m'(1)] by (simp add: d)
  ultimately show ?thesis using n(1,3) s same_input_facts(1) [OF i] by auto
qed

lemma reversible_twice:
  assumes "reversible exact R c s"
  shows "reversible exact R (fst (exec_opt c s)) (snd (exec_opt c s)) \<and>
    fst (exec_opt (fst (exec_opt c s)) (snd (exec_opt c s))) = c \<and>
    same_state exact R (snd (exec_opt (fst (exec_opt c s)) (snd (exec_opt c s)))) s"
proof -
  obtain m where m: "s = Some m" "sound R m" "applicable R c m" "current c (diagram m)"
    "exact \<Longrightarrow> keeps_names c m" using assms by (cases s) auto
  let ?d = "swapped c (diagram m)"
  from change_executes [OF m(2,3)] obtain m' where
    d: "exec_change c m = Some (?d, m')" and m': "diagram m' = after c (diagram m)" "sound R m'"
      "applicable R ?d m'" by (auto simp: executes_def)
  have t: "d_tree (diagram m)" by (rule d_tree_diagram [OF soundD(2) [OF m(2)]])
  have i: "same_input ?d ?d" by simp
  from exec_back [OF m(2,3,5) d i] obtain n where
    n: "exec_change ?d m' = Some (swapped ?d (diagram m'), n)" "same_state exact R (Some n) (Some m)" by blast
  have "current ?d (diagram m')" unfolding m'(1) by (rule current_back [OF t m(4)])
  moreover have "exact \<longrightarrow> keeps_names ?d m'" using keeps_names_back [OF m(5) m'(1)] by blast
  moreover have "swapped ?d (diagram m') = c" using m(4) by (simp add: current_def m'(1))
  ultimately show ?thesis
    using m' exec_opt_Some [OF d] exec_opt_Some [OF n(1)] n(2) m(1) by simp
qed

lemma reversible_cong:
  assumes "reversible exact R c s" and "same_state exact R s t"
  shows "reversible exact R c t \<and> fst (exec_opt c t) = fst (exec_opt c s) \<and>
    same_state exact R (snd (exec_opt c t)) (snd (exec_opt c s))"
proof -
  obtain m n where s: "s = Some m" "t = Some n" and m: "sound R m" "applicable R c m"
    "current c (diagram m)" "exact \<Longrightarrow> keeps_names c m" and d: "diagram m = diagram n" "sound R n"
    "exact \<Longrightarrow> names m = names n" using assms by (cases s; cases t) auto
  have n: "applicable R c n" "exact \<Longrightarrow> keeps_names c n"
    using applicable_diagram [OF d(1)] keeps_names_diagram [OF d(1)] m by simp_all
  from change_executes [OF m(1,2)] change_executes [OF d(2) n(1)] obtain m' n' where
    "exec_change c m = Some (swapped c (diagram m), m')" "exec_change c n = Some (swapped c (diagram n), n')"
    "diagram m' = after c (diagram m)" "diagram n' = after c (diagram n)" "sound R m'" "sound R n'"
    "keeps_names c m \<longrightarrow> names m' = names m" "keeps_names c n \<longrightarrow> names n' = names n"
    by (auto simp: executes_def)
  with s m d n show ?thesis by (simp add: exec_opt_Some)
qed

text \<open>What happens around the changes: events, the level of the update, the edit.\<close>

lemma same_parts:
  assumes "cell_at n = cell_at m" "ncells n = ncells m" "m_root n = m_root m" "m_cells n = m_cells m"
    "nextId n = nextId m" "createIds n = createIds m"
  shows "sound R n = sound R m"
proof -
  have k: "keeps_tree m n" "keeps_tree n m"
    using assms by (simp_all add: keeps_tree_def cell_getParent_def cell_getId_def)
  have l: "links n = links m" using assms(1) by (rule links_cell_at)
  have e: "edge_linked d n = edge_linked d m" for d unfolding edge_linked_def links_eqD(3,4) [OF l] ..
  have "struct_inv n = struct_inv m" by (rule struct_inv_links [OF l])
  with k e soundD(1,9) show ?thesis by (metis sound_keeps_tree keeps_tree_facts(3))
qed

lemma sound_fields [simp]:
  "sound R (m\<lparr>currentEdit := x1\<rparr>) = sound R m" "sound R (m\<lparr>updateLevel := x2\<rparr>) = sound R m"
  "sound R (m\<lparr>endingUpdate := x3\<rparr>) = sound R m" "sound R (m\<lparr>m_fired := x4\<rparr>) = sound R m"
  "sound R (m_fire ev m) = sound R m"
  by (rule same_parts; simp add: m_fire_def)+

lemma names_fields [simp]:
  "names (m\<lparr>currentEdit := x1\<rparr>) = names m" "names (m\<lparr>updateLevel := x2\<rparr>) = names m"
  "names (m\<lparr>endingUpdate := x3\<rparr>) = names m" "names (m\<lparr>m_fired := x4\<rparr>) = names m"
  "names (m_fire ev m) = names m"
  by (simp_all add: names_def m_fire_def)

lemma same_state_events:
  "same_state exact R (op_fire model_ops ev s) s" "same_state exact R (op_notify model_ops e s) s"
  by (cases s; simp add: model_ops_def notify_edit_def)+

interpretation mu: reversible_changes model_ops exec_opt "reversible exact R" "same_state exact R" for exact R
proof unfold_locales
  show "op_execute model_ops c = Some (exec_opt c)" for c by (simp add: model_ops_def)
  show "same_state exact R s s" for s by (rule same_state_equiv(1))
  show "same_state exact R s t \<Longrightarrow> same_state exact R t s" for s t by (rule same_state_equiv(2))
  show "same_state exact R s t \<Longrightarrow> same_state exact R t u \<Longrightarrow> same_state exact R s u" for s t u
    by (rule same_state_equiv(3))
qed (rule reversible_twice reversible_cong same_state_events; assumption)+

end
