(* ===== verification/Transactions.thy ===== *)
theory Transactions
  imports Reversal
begin

text \<open>
  Transactions of model/mxGraphModel.js: what happens between \<open>beginUpdate\<close> and \<open>endUpdate\<close>, and
  the model, its edits and the undo manager together.
\<close>

subsection \<open>What a change leaves alone\<close>

text \<open>No change touches the edit under construction, the level of the update or the events.\<close>

definition tx_fields :: "mxGraphModel \<Rightarrow> model_edit \<times> int \<times> bool \<times> bool \<times> model_event list" where
  "tx_fields m = (currentEdit m, updateLevel m, endingUpdate m, m_eventsEnabled m, m_fired m)"

lemma tx_fieldsD:
  assumes "tx_fields m = tx_fields n"
  shows "currentEdit m = currentEdit n" "updateLevel m = updateLevel n"
    "endingUpdate m = endingUpdate n" "m_eventsEnabled m = m_eventsEnabled n" "m_fired m = m_fired n"
  using assms by (simp_all add: tx_fields_def)

lemma tx_only_cells: "only_cells m m' \<Longrightarrow> tx_fields m' = tx_fields m"
  unfolding only_cells_def by (cases m; cases m') (simp add: tx_fields_def)

lemma tx_simps [simp]:
  "tx_fields (upd c f m) = tx_fields m"
  "tx_fields (m\<lparr>nextId := k0\<rparr>) = tx_fields m" "tx_fields (m\<lparr>m_cells := cs\<rparr>) = tx_fields m"
  "tx_fields (m\<lparr>m_root := r\<rparr>) = tx_fields m" "tx_fields (put_cell c m) = tx_fields m"
  "tx_fields (give_id c m) = tx_fields m" "tx_fields (raise_nextId c m) = tx_fields m"
  "tx_fields (drop_cell c m) = tx_fields m" "tx_fields (cell_insert p d i m) = tx_fields m"
  "tx_fields (snd (cell_remove p j m)) = tx_fields m"
  "tx_fields (snd (terminalForCellChanged e t b m)) = tx_fields m"
  "tx_fields (cell_setAttribute c a v m) = tx_fields m"
  "tx_fields (node_removeAttribute k a m) = tx_fields m"
  using tx_only_cells [OF only_cells_insert] tx_only_cells [OF only_cells_terminal]
  by (simp_all add: tx_fields_def upd_def put_cell_def give_id_def createId_def Let_def
      raise_nextId_def drop_cell_def cell_setId_def cell_remove_def cell_setParent_def
      cell_setAttribute_def node_setAttribute_def node_removeAttribute_def
      split: option.splits user_value.splits)

lemma tx_draw [simp]: "tx_fields (draw c m) = tx_fields m"
  by (simp add: draw_def createId_def Let_def cell_setId_def tx_fields_def upd_def)

lemma tx_id_loop: "id_loop n c m = Some m' \<Longrightarrow> tx_fields m' = tx_fields m"
proof (induction n arbitrary: m)
  case 0
  then show ?case by (simp add: id_loop.simps [of 0] split: option.splits)
next
  case (Suc n)
  then show ?case by (auto simp: id_loop_Suc split: option.splits)
qed

lemma tx_register: "register_cell c m = Some m' \<Longrightarrow> tx_fields m' = tx_fields m"
  using tx_id_loop by (fastforce simp: register_cell_def enter_cell_def split: if_splits)

lemma tx_for_each:
  assumes "for_each f xs s = Some s'" and "\<And>x s s'. f x s = Some s' \<Longrightarrow> tx_fields s' = tx_fields s"
  shows "tx_fields s' = tx_fields s"
  by (rule for_each_inv [OF assms(1), where P = "\<lambda>t. tx_fields t = tx_fields s"]) (auto dest: assms(2))

lemma tx_cellAdded_n: "cellAdded_n n c m = Some m' \<Longrightarrow> tx_fields m' = tx_fields m"
proof (induction n arbitrary: c m m')
  case 0
  then show ?case by (cases c) auto
next
  case (Suc n)
  then show ?case
    by (cases c) (auto split: option.splits dest!: tx_register tx_for_each [OF _ Suc.IH])
qed

lemma tx_cellRemoved_n: "cellRemoved_n n c m = Some m' \<Longrightarrow> tx_fields m' = tx_fields m"
proof (induction n arbitrary: c m m')
  case 0
  then show ?case by (cases c) (auto split: if_splits)
next
  case (Suc n)
  then show ?case by (cases c) (auto split: if_splits dest!: tx_for_each [OF _ Suc.IH])
qed

lemma tx_connect: "connect c b m = Some m' \<Longrightarrow> tx_fields m' = tx_fields m"
proof -
  have cell: "tx_fields (connect_cell c b m) = tx_fields m" for c m
    by (simp add: connect_cell_def connect_terminal_def Let_def cell_setTerminal_def)
  have "connect_n n c b m = Some m' \<Longrightarrow> tx_fields m' = tx_fields m" for n
  proof (induction n arbitrary: c m m')
    case 0
    then show ?case by (cases c) auto
  next
    case (Suc n)
    then show ?case by (cases c) (auto simp: Let_def cell dest!: tx_for_each [OF _ Suc.IH])
  qed
  then show "connect c b m = Some m' \<Longrightarrow> tx_fields m' = tx_fields m" by (simp add: connect_def)
qed

lemma tx_parentForCellChanged:
  "parentForCellChanged c p i m = Some (q, m') \<Longrightarrow> tx_fields m' = tx_fields m"
  by (auto simp: parentForCellChanged_def Let_def cellAdded_def cellRemoved_def
      dest!: tx_cellAdded_n tx_cellRemoved_n split: option.splits if_splits)

lemma tx_child_change:
  assumes "execute_child_change p q i j c m = Some (d, m')"
  shows "tx_fields m' = tx_fields m"
proof (cases c)
  case (Some x)
  with assms obtain m1 r m2 where
    1: "(if q = None then connect c False m else Some m) = Some m1" and
    2: "parentForCellChanged c q j m1 = Some (r, m2)" and
    3: "(if q \<noteq> None then connect c True m2 else Some m2) = Some m'"
    by (auto simp: execute_child_change_def Let_def bind_eq_Some_conv)
  from 1 3 tx_parentForCellChanged [OF 2] show ?thesis
    by (auto split: if_splits dest: tx_connect)
qed (use assms in \<open>simp add: execute_child_change_def\<close>)

lemma tx_exec_change:
  assumes "exec_change c m = Some (d, m')"
  shows "tx_fields m' = tx_fields m"
proof (cases c)
  case (RootChange x1 x2)
  with assms show ?thesis
    by (auto simp: rootChanged_def cellAdded_def Let_def dest!: tx_cellAdded_n)
next
  case (TerminalChange e t p b)
  with assms show ?thesis using tx_simps(11) [of e p b m] by (auto simp: split_beta split: option.splits)
qed (use assms in \<open>auto simp: tx_child_change field_callbacks Let_def cell_field_defs
  execute_attribute_change_def split: option.splits user_value.splits\<close>)


subsection \<open>Transactions\<close>

text \<open>Within an update, executing a change adds it to the edit and fires four events.\<close>

definition in_update :: "mxGraphModel \<Rightarrow> bool" where
  "in_update m \<longleftrightarrow> updateLevel m \<ge> 1 \<and> \<not> endingUpdate m \<and> m_eventsEnabled m"

definition execute_events :: "change \<Rightarrow> model_edit \<Rightarrow> model_event list" where
  "execute_events d e = [EvBeginUpdate, EvExecute d, EvExecuted d, EvEndUpdate (edit_add d e)]"

lemma m_execute_in_update:
  assumes "in_update m" and "exec_change c m = Some (d, m1)"
  obtains m' where "m_execute c m = Some m'" "same_model m' m1" "in_update m'"
    "currentEdit m' = edit_add d (currentEdit m)" "updateLevel m' = updateLevel m"
    "m_fired m' = m_fired m @ execute_events d (currentEdit m)"
proof -
  let ?m = "m1\<lparr>currentEdit := edit_add d (currentEdit m),
                m_fired := m_fired m @ execute_events d (currentEdit m)\<rparr>"
  note tx = tx_fieldsD [OF tx_exec_change [OF assms(2)]]
  have "m_execute c m = Some ?m"
    using assms tx by (simp add: m_execute_def in_update_def beginUpdate_def endUpdate_def
        m_fire_def Let_def execute_events_def)
  moreover have "same_model ?m m1"
    by (simp add: same_model_def children_of_def edges_of_def graph_fields_def)
  moreover have "in_update ?m" using assms(1) tx by (simp add: in_update_def)
  ultimately show ?thesis using that tx by simp
qed

text \<open>
  The changes of a transaction apply one after another; with \<open>exact\<close>, none of them adds a cell,
  removes one, replaces the root or sets an attribute.  \<open>R\<close> is the set of the roots in use.
\<close>

fun apply_in_turn :: "bool \<Rightarrow> cref set \<Rightarrow> change list \<Rightarrow> mxGraphModel \<Rightarrow> bool" where
  "apply_in_turn exact R [] m \<longleftrightarrow> True"
| "apply_in_turn exact R (c # cs) m \<longleftrightarrow>
     applicable R c m \<and> (exact \<longrightarrow> keeps_names c m) \<and>
     (case m_execute c m of None \<Rightarrow> False | Some m' \<Rightarrow> apply_in_turn exact R cs m')"

lemma update_same [simp]:
  "diagram (beginUpdate m) = diagram m" "sound R (beginUpdate m) = sound R m" "names (beginUpdate m) = names m"
  "diagram (endUpdate m) = diagram m" "sound R (endUpdate m) = sound R m" "names (endUpdate m) = names m"
  by (simp_all add: beginUpdate_def endUpdate_def Let_def notify_edit_def)

lemma m_execute_same:
  assumes "m_execute c m = Some m'" and "exec_change c m = Some (d, m1)"
  shows "diagram m' = diagram m1" "sound R m' = sound R m1" "names m' = names m1"
  using assms by (auto simp: m_execute_def Let_def)

definition transaction :: "change list \<Rightarrow> mxGraphModel \<Rightarrow> mxGraphModel option" where
  "transaction cs m = map_option endUpdate (for_each m_execute cs (beginUpdate m))"

text \<open>The events of an update never include the one that announces a finished edit.\<close>

fun is_undo_event :: "model_event \<Rightarrow> bool" where
  "is_undo_event (EvUndo e) = True"
| "is_undo_event _ = False"

text \<open>What the changes of an edit do depends on their input alone.\<close>

lemma undo_changes_input:
  "list_all2 same_input ds ds' \<Longrightarrow> undo_ok (reversible exact R) model_ops ds' s \<Longrightarrow>
   undo_changes model_ops ds s = undo_changes model_ops ds' s"
proof (induction rule: list_all2_induct)
  case (Cons d ds d' ds')
  have ok: "undo_ok (reversible exact R) model_ops ds' s" "reversible exact R d' (snd (undo_changes model_ops ds' s))"
    using Cons.prems by simp_all
  then obtain m where m: "snd (undo_changes model_ops ds' s) = Some m" "sound R m" "applicable R d' m"
    by (cases "snd (undo_changes model_ops ds' s)") auto
  then have "exec_opt d (Some m) = exec_opt d' (Some m)"
    using change_executes [OF m(2,3)] same_input_facts(1) [OF Cons.hyps(1)] by (auto simp: executes_def exec_opt_def)
  with m(1) Cons.IH [OF ok(1)] show ?case by (simp add: split_beta mu.undo_change_exec)
qed simp

definition undoes :: "bool \<Rightarrow> cref set \<Rightarrow> change list \<Rightarrow> mxGraphModel option \<Rightarrow> mxGraphModel option \<Rightarrow> bool" where
  "undoes exact R ds s s0 \<longleftrightarrow>
     (\<exists>ds'. list_all2 same_input ds ds' \<and> undo_ok (reversible exact R) model_ops ds' s \<and>
        same_state exact R (snd (undo_changes model_ops ds' s)) s0)"

lemma undoes_cong:
  assumes "undoes exact R ds s s0" "same_state exact R s t" "same_state exact R s0 t0"
  shows "undoes exact R ds t t0"
proof -
  obtain ds' where ds': "list_all2 same_input ds ds'" "undo_ok (reversible exact R) model_ops ds' s"
    "same_state exact R (snd (undo_changes model_ops ds' s)) s0" using assms(1) by (auto simp: undoes_def)
  from mu.undo_changes_cong [OF ds'(2) assms(2)] ds' assms(3) show ?thesis
    unfolding undoes_def using same_state_equiv(3) by (metis (no_types, lifting))
qed

lemma undoes_one_more:
  assumes s: "sound R m" and a: "applicable R c m" and k: "exact \<Longrightarrow> keeps_names c m"
    and e: "exec_change c m = Some (d, m1)" and u: "undoes exact R ds n (Some m1)"
  shows "undoes exact R (d # ds) n (Some m)"
proof -
  obtain ds' where ds': "list_all2 same_input ds ds'" "undo_ok (reversible exact R) model_ops ds' n"
    and u': "same_state exact R (snd (undo_changes model_ops ds' n)) (Some m1)"
    using u by (auto simp: undoes_def)
  let ?s = "snd (undo_changes model_ops ds' n)"
  note t = d_tree_diagram [OF soundD(2) [OF s]]
  from change_executes [OF s a] e have
    d: "d = swapped c (diagram m)" and m1: "diagram m1 = after c (diagram m)" "sound R m1" "applicable R d m1"
    by (auto simp: executes_def)
  obtain d' where d': "same_input d' d" "current d' (diagram m1)"
    using swapped_current [OF t a] d m1(1) by auto
  have "exact \<longrightarrow> keeps_names d' m1"
    using keeps_names_back [OF k m1(1)] same_input_facts(4) [OF d'(1)] d by simp
  then have rev: "reversible exact R d' (Some m1)"
    using m1 d'(2) same_input_facts(3) [OF d'(1), of R] by simp
  obtain m2 where m2: "exec_change d' m1 = Some (swapped d (diagram m1), m2)" "same_state exact R (Some m2) (Some m)"
    using exec_back [OF s a k e d'(1)] by blast
  note cong = reversible_cong [OF rev same_state_equiv(2) [OF u']]
  have "same_state exact R (snd (exec_opt d' ?s)) (Some m)"
    using cong same_state_equiv(3) [OF _ m2(2)] exec_opt_Some [OF m2(1)] by auto
  moreover have "list_all2 same_input (d # ds) (d' # ds')"
    using ds'(1) d'(1) by (simp add: same_input_def)
  ultimately show ?thesis
    unfolding undoes_def using ds'(2) cong
    by (intro exI [of _ "d' # ds'"]) (simp add: split_beta mu.undo_change_exec mu.same_fire)
qed

lemma for_each_execute:
  "for_each m_execute cs m = Some n \<Longrightarrow> in_update m \<Longrightarrow>
   \<exists>ds evs. in_update n \<and> updateLevel n = updateLevel m \<and> length ds = length cs \<and>
     currentEdit n = (currentEdit m)\<lparr>changes := changes (currentEdit m) @ ds\<rparr> \<and>
     m_fired n = m_fired m @ evs \<and> filter is_undo_event evs = [] \<and>
     (apply_in_turn exact R cs m \<and> sound R m \<longrightarrow> sound R n \<and> undoes exact R ds (Some n) (Some m))"
proof (induction cs arbitrary: m)
  case Nil
  then show ?case by (intro exI [of _ "[]"]) (simp add: undoes_def)
next
  case (Cons c cs)
  from Cons.prems(1) obtain m' where m': "m_execute c m = Some m'" "for_each m_execute cs m' = Some n"
    by (auto split: option.splits)
  then obtain d m1 where d: "exec_change c m = Some (d, m1)" by (auto simp: m_execute_def)
  from m'(1) m_execute_in_update [OF Cons.prems(2) d] have s: "in_update m'"
    "currentEdit m' = edit_add d (currentEdit m)" "updateLevel m' = updateLevel m"
    "m_fired m' = m_fired m @ execute_events d (currentEdit m)" by (metis option.inject)+
  note same = m_execute_same [OF m'(1) d]
  from Cons.IH [OF m'(2) s(1)] obtain ds evs where
    n: "in_update n" "updateLevel n = updateLevel m'" "length ds = length cs"
    "currentEdit n = (currentEdit m')\<lparr>changes := changes (currentEdit m') @ ds\<rparr>"
    "m_fired n = m_fired m' @ evs" "filter is_undo_event evs = []" and
    u: "apply_in_turn exact R cs m' \<Longrightarrow> sound R m' \<Longrightarrow> sound R n \<and> undoes exact R ds (Some n) (Some m')" by blast
  have "sound R n \<and> undoes exact R (d # ds) (Some n) (Some m)"
    if app: "apply_in_turn exact R (c # cs) m" and m: "sound R m"
  proof -
    from app m'(1) have a: "applicable R c m" "exact \<Longrightarrow> keeps_names c m" "apply_in_turn exact R cs m'" by simp_all
    have m1: "sound R m1" using change_executes [OF m a(1)] d by (auto simp: executes_def)
    from u [OF a(3)] same(2) m1 have r: "sound R n" "undoes exact R ds (Some n) (Some m')" by simp_all
    have "undoes exact R ds (Some n) (Some m1)"
      using undoes_cong [OF r(2) same_state_equiv(1), of "Some m1"] same by simp
    from undoes_one_more [OF m a(1,2) d this] r(1) show ?thesis by simp
  qed
  moreover have "changes (currentEdit m') @ ds = changes (currentEdit m) @ d # ds"
    by (simp add: s(2) edit_add_def)
  ultimately show ?case
    using n s
    by (intro exI [of _ "d # ds"] exI [of _ "execute_events d (currentEdit m) @ evs"])
      (simp add: execute_events_def edit_add_def)
qed


text \<open>A model between transactions.\<close>

definition at_rest :: "mxGraphModel \<Rightarrow> bool" where
  "at_rest m \<longleftrightarrow> updateLevel m = 0 \<and> \<not> endingUpdate m \<and> m_eventsEnabled m \<and>
     currentEdit m = createUndoableEdit None"

lemma beginUpdate_rest:
  assumes "at_rest m"
  shows "in_update (beginUpdate m)" "updateLevel (beginUpdate m) = 1"
    "currentEdit (beginUpdate m) = createUndoableEdit None"
    "m_fired (beginUpdate m) = m_fired m @ [EvBeginUpdate, EvStartEdit]"
    "same_model (beginUpdate m) m"
  using assms
  by (simp_all add: at_rest_def beginUpdate_def in_update_def m_fire_def Let_def same_model_def
      children_of_def edges_of_def graph_fields_def)

lemma endUpdate_rest:
  assumes "in_update n" and "updateLevel n = 1"
    and "currentEdit n = (createUndoableEdit None)\<lparr>changes := ds\<rparr>"
  shows "at_rest (endUpdate n)" "same_model (endUpdate n) n"
    "m_fired (endUpdate n) = m_fired n @ [EvEndEdit, EvEndUpdate (currentEdit n)] @
       (if ds = [] then []
        else [EvBeforeUndo (currentEdit n), EvChange (currentEdit n), EvNotify (currentEdit n),
              EvUndo (currentEdit n)])"
  using assms
  by (simp_all add: at_rest_def endUpdate_def in_update_def m_fire_def Let_def same_model_def
      children_of_def edges_of_def graph_fields_def edit_isEmpty_def notify_edit_def
      createUndoableEdit_def new_mxUndoableEdit_def)

lemma transaction_run:
  assumes rest: "at_rest m" and tr: "transaction cs m = Some n"
  obtains e evs where "at_rest n" "e = (createUndoableEdit None)\<lparr>changes := changes e\<rparr>"
    "length (changes e) = length cs" "m_fired n = m_fired m @ evs"
    "filter is_undo_event evs = (if cs = [] then [] else [EvUndo e])"
    "apply_in_turn exact R cs (beginUpdate m) \<Longrightarrow> sound R m \<Longrightarrow>
       sound R n \<and> undoes exact R (changes e) (Some n) (Some m)"
proof -
  note b = beginUpdate_rest [OF rest]
  from tr obtain k where k: "for_each m_execute cs (beginUpdate m) = Some k" "n = endUpdate k"
    by (auto simp: transaction_def)
  from for_each_execute [OF k(1) b(1), of exact R] obtain ds evs where
    r: "in_update k" "updateLevel k = 1" "length ds = length cs"
    "currentEdit k = (createUndoableEdit None)\<lparr>changes := ds\<rparr>"
    "m_fired k = m_fired (beginUpdate m) @ evs" "filter is_undo_event evs = []" and
    u: "apply_in_turn exact R cs (beginUpdate m) \<Longrightarrow> sound R m \<Longrightarrow>
        sound R k \<and> undoes exact R ds (Some k) (Some (beginUpdate m))"
    by (auto simp: b createUndoableEdit_def new_mxUndoableEdit_def)
  note e = endUpdate_rest [OF r(1,2,4)]
  have ne: "ds = [] \<longleftrightarrow> cs = []" using r(3) by auto
  have undo: "sound R n \<and> undoes exact R ds (Some n) (Some m)"
    if "apply_in_turn exact R cs (beginUpdate m)" "sound R m"
    using u [OF that] undoes_cong [of exact R ds "Some k" "Some (beginUpdate m)" "Some n" "Some m"] k(2) by simp
  show ?thesis
  proof (rule that)
    show "m_fired n = m_fired m @ ([EvBeginUpdate, EvStartEdit] @ evs @
        drop (length (m_fired k)) (m_fired n))"
      using e(3) k(2) r(5) b(4) by simp
    show "filter is_undo_event ([EvBeginUpdate, EvStartEdit] @ evs @
        drop (length (m_fired k)) (m_fired n)) = (if cs = [] then [] else [EvUndo (currentEdit k)])"
      using e(3) k(2) r(6) ne by simp
  qed (use e k(2) r undo in simp_all)
qed

lemma apply_in_turn_completes: "apply_in_turn exact R cs m \<Longrightarrow> for_each m_execute cs m \<noteq> None"
  by (induction cs arbitrary: m) (auto split: option.splits)

text \<open>What the transaction does to the diagram.\<close>

lemma for_each_diagram:
  "for_each m_execute cs m = Some n \<Longrightarrow> apply_in_turn exact R cs m \<Longrightarrow> sound R m \<Longrightarrow>
   diagram n = fold after cs (diagram m)"
proof (induction cs arbitrary: m)
  case (Cons c cs)
  from Cons.prems(1) obtain m' where m': "m_execute c m = Some m'" "for_each m_execute cs m' = Some n"
    by (auto split: option.splits)
  with Cons.prems(2) have a: "applicable R c m" "apply_in_turn exact R cs m'" by simp_all
  from change_executes [OF Cons.prems(3) a(1)] obtain m1 where
    m1: "exec_change c m = Some (swapped c (diagram m), m1)" "diagram m1 = after c (diagram m)" "sound R m1"
    by (auto simp: executes_def)
  note same = m_execute_same [OF m'(1) m1(1)]
  show ?case using Cons.IH [OF m'(2) a(2)] same m1 by simp
qed simp

text \<open>The manager that is told of an edit undoes and redoes exactly that edit.\<close>

lemma um_undo_last_edit:
  assumes "indexOfNextAdd um = Suc k" "k < length (history um)" "significant (history um ! k)" "significant e"
    and "edit_undo ops e s = edit_undo ops (history um ! k) s"
  shows "um_undo ops (um\<lparr>history := (history um)[k := e]\<rparr>) s = um_undo ops um s"
  using assms by (simp add: um_undo_def split_beta Let_def isSignificant_def edit_undo_flags um_fire_def)

lemma undo_new_edit:
  assumes sig: "significant e" "\<not> undone e" and u: "undoes exact R (changes e) s s0"
  shows "same_state exact R (snd (um_undo model_ops (fst (undoableEditHappened e um s')) s)) s0"
    and "same_state exact R (snd (um_redo model_ops
          (fst (um_undo model_ops (fst (undoableEditHappened e um s')) s))
          (snd (um_undo model_ops (fst (undoableEditHappened e um s')) s)))) s"
proof -
  let ?um = "fst (undoableEditHappened e um s')"
  obtain h where h: "history ?um = h @ [e]" "indexOfNextAdd ?um = Suc (length h)"
    by (simp add: edit_happened_history Let_def)
  obtain ds where ds: "list_all2 same_input (changes e) ds" "undo_ok (reversible exact R) model_ops ds s"
    "same_state exact R (snd (undo_changes model_ops ds s)) s0" using u by (auto simp: undoes_def)
  define e' where "e' = e\<lparr>changes := ds\<rparr>"
  have e': "significant e'" "\<not> undone e'" "changes e' = ds" using sig by (simp_all add: e'_def)
  let ?s = "op_fire model_ops START_EDIT s"
  have "same_state exact R s ?s" using same_state_events(1) by (rule same_state_equiv(2))
  note start = mu.undo_changes_cong [OF ds(2) this]
  have eu: "edit_undo model_ops e' s = edit_undo model_ops e s"
    using sig(2) undo_changes_input [OF ds(1) conjunct1 [OF start]]
    by (simp add: edit_undo_def e'_def split_beta Let_def)
  have "significant (history ?um ! length h)" "length h < length (history ?um)"
    "edit_undo model_ops e' s = edit_undo model_ops (history ?um ! length h) s"
    using sig(1) h(1) eu by simp_all
  from um_undo_last_edit [OF h(2) this(2,1) e'(1) this(3)]
  have same: "um_undo model_ops (?um\<lparr>history := (history ?um)[length h := e']\<rparr>) s = um_undo model_ops ?um s" .
  show "same_state exact R (snd (um_redo model_ops (fst (um_undo model_ops ?um s)) (snd (um_undo model_ops ?um s)))) s"
    unfolding same [symmetric]
    by (rule conjunct1 [OF mu.manager_undo_redo [of _ "length h"]]) (use h e' ds(2) in simp_all)
  have "same_state exact R (snd (edit_undo model_ops e' s)) s0"
  proof -
    have "same_state exact R (snd (undo_changes model_ops ds ?s)) s0"
      using start ds(3) same_state_equiv(3) by blast
    then show ?thesis
      using e' by (simp add: edit_undo_def split_beta Let_def mu.same_notify mu.same_fire)
  qed
  then show "same_state exact R (snd (um_undo model_ops ?um s)) s0"
    using sig by (simp add: um_undo_def h split_beta Let_def isSignificant_def edit_undo_flags eu)
qed


subsection \<open>Properties\<close>

text \<open>However many changes are executed between \<open>beginUpdate\<close> and \<open>endUpdate\<close>, the model
  fires one undo event, and none when nothing was executed: the edit of the event holds one entry
  per executed change and is neither undone nor redone, and the model is at rest again with an
  empty edit.\<close>

theorem transaction_one_undo_event:
  assumes "at_rest m" and "transaction cs m = Some n"
  shows "\<exists>e. filter is_undo_event (drop (length (m_fired m)) (m_fired n)) = (if cs = [] then [] else [EvUndo e]) \<and>
    length (changes e) = length cs \<and> significant e \<and> \<not> undone e \<and> \<not> redone e \<and> at_rest n"
proof -
  obtain e evs where "at_rest n" and e: "e = (createUndoableEdit None)\<lparr>changes := changes e\<rparr>"
    and "length (changes e) = length cs" "m_fired n = m_fired m @ evs"
    "filter is_undo_event evs = (if cs = [] then [] else [EvUndo e])"
    using transaction_run [OF assms] .
  moreover have "significant e \<and> \<not> undone e \<and> \<not> redone e"
    by (subst e, subst e, subst e) (simp add: createUndoableEdit_def new_mxUndoableEdit_def)
  ultimately show ?thesis by (intro exI [of _ e]) simp
qed

text \<open>The roots in use: the root of the model and those that the changes switch to.\<close>

definition roots_used :: "change list \<Rightarrow> mxGraphModel \<Rightarrow> cref set" where
  "roots_used cs m =
     set_option (m_root m) \<union> (\<Union>c \<in> set cs. case c of RootChange _ previous \<Rightarrow> set_option previous | _ \<Rightarrow> {})"

text \<open>
  What undo and redo restore: the diagram, the soundness of the model (so its table holds exactly its
  cells again, each under its identifier) and the edges that the cells list, up to their order.
\<close>

definition restored :: "bool \<Rightarrow> cref set \<Rightarrow> mxGraphModel \<Rightarrow> mxGraphModel \<Rightarrow> bool" where
  "restored exact R m n \<longleftrightarrow>
     diagram n = diagram m \<and> sound R n \<and>
     (\<forall>e q. under R m e \<longrightarrow> (e \<in> set (edges_of n q) \<longleftrightarrow> e \<in> set (edges_of m q))) \<and>
     (exact \<longrightarrow> names n = names m)"

lemma restoredI:
  assumes "sound R m" and "same_state exact R s (Some m)"
  shows "\<exists>n. s = Some n \<and> restored exact R m n"
proof -
  obtain n where n: "s = Some n" "diagram n = diagram m" "sound R n" "exact \<longrightarrow> names n = names m"
    using assms by (cases s) auto
  with sound_edges [OF n(3) assms(1) n(2)] diagram_hierarchy(3) [OF n(2), of R] show ?thesis
    by (simp add: restored_def)
qed

text \<open>C1: A transaction on a sound model whose changes apply one after another completes and turns the
  diagram into the one the changes describe.  The changes may add, remove and move cells, replace the root, and
  set terminals, values, styles, geometries, attributes, the collapsed and the visible state.  When its undo
  event reaches the undo manager, undo restores the diagram before the transaction and redo the one after it:
  the cells with all their fields but the identifier, the children in their order, the edges listed at each
  cell up to their order, and a table that holds exactly the cells of the model.  With \<open>exact\<close>, for
  changes that add and remove no cell, replace no root and set no attribute, identifiers, table and counter
  are those of before.  \<open>applicable\<close> asks of a cell that is placed that it comes from inside the model or has
  no parent and no root in use below it, and that it does not go below itself; of a cell that is removed that
  its parent is inside and no root in use is below it; of an attribute that it belongs to an element and is
  not empty before or after.\<close>

theorem transaction_undo_redo:
  assumes "at_rest m" and "sound (roots_used cs m) m" and "cs \<noteq> []"
    and "apply_in_turn exact (roots_used cs m) cs (beginUpdate m)"
  shows "\<exists>n e m2 m3. transaction cs m = Some n \<and> diagram n = fold after cs (diagram m) \<and>
    filter is_undo_event (drop (length (m_fired m)) (m_fired n)) = [EvUndo e] \<and>
    (let (um1, s1) = undoableEditHappened e um (Some n);
         (um2, s2) = um_undo model_ops um1 s1;
         (um3, s3) = um_redo model_ops um2 s2
     in s2 = Some m2 \<and> s3 = Some m3) \<and>
    restored exact (roots_used cs m) m m2 \<and> restored exact (roots_used cs m) n m3"
proof -
  let ?R = "roots_used cs m"
  obtain n where n: "transaction cs m = Some n"
    using apply_in_turn_completes [OF assms(4)] by (auto simp: transaction_def)
  then have after: "diagram n = fold after cs (diagram m)"
    using for_each_diagram [OF _ assms(4)] assms(2) by (auto simp: transaction_def)
  obtain e evs where "at_rest n" and e: "e = (createUndoableEdit None)\<lparr>changes := changes e\<rparr>"
    and "length (changes e) = length cs" and evs: "m_fired n = m_fired m @ evs"
    "filter is_undo_event evs = (if cs = [] then [] else [EvUndo e])" and
    u: "sound ?R n \<and> undoes exact ?R (changes e) (Some n) (Some m)"
    using transaction_run [OF assms(1) n, of exact ?R] assms(2,4) by metis
  have flags: "significant e" "\<not> undone e"
    by (subst e, simp add: createUndoableEdit_def new_mxUndoableEdit_def)+
  have s1: "snd (undoableEditHappened e um (Some n)) = Some n"
    by (simp add: undoableEditHappened_def um_trim_def split_beta Let_def)
  note m = undo_new_edit [OF flags conjunct2 [OF u], of um "Some n"]
  from restoredI [OF assms(2) m(1)] restoredI [OF conjunct1 [OF u] m(2)] obtain m2 m3 where
    "snd (um_undo model_ops (fst (undoableEditHappened e um (Some n))) (Some n)) = Some m2" "restored exact ?R m m2"
    "snd (um_redo model_ops (fst (um_undo model_ops (fst (undoableEditHappened e um (Some n))) (Some n)))
      (snd (um_undo model_ops (fst (undoableEditHappened e um (Some n))) (Some n)))) = Some m3"
    "restored exact ?R n m3" by blast
  with s1 n after evs assms(3) show ?thesis
    by (intro exI [of _ n] exI [of _ e] exI [of _ m2] exI [of _ m3]) (simp add: split_beta)
qed

definition two_changes :: "change list" where
  "two_changes = [new_mxTerminalChange (Some 1) (Some 0) True, new_mxValueChange (Some 0) (Some (VStr ''v''))]"

lemma two_changes_apply: "for_each m_execute two_changes (beginUpdate empty_model) \<noteq> None"
  by (simp add: two_changes_def new_mxTerminalChange_def new_mxValueChange_def m_execute_def split_beta)

lemma at_rest_empty: "at_rest empty_model"
  by (simp add: at_rest_def empty_model_def)

theorem transaction_one_undo_event_witness:
  "\<exists>n e. transaction two_changes empty_model = Some n \<and>
    filter is_undo_event (drop (length (m_fired empty_model)) (m_fired n)) = [EvUndo e] \<and> length (changes e) = 2"
proof -
  obtain n where n: "transaction two_changes empty_model = Some n"
    using two_changes_apply by (auto simp: transaction_def)
  from transaction_one_undo_event [OF at_rest_empty n] n show ?thesis
    by (auto simp: two_changes_def)
qed

text \<open>A page with a root and one layer, and a cell that is not in it yet.\<close>

definition layer_page :: mxGraphModel where
  "layer_page = empty_model\<lparr>
     cell_at := (\<lambda>_. blank_cell)(0 := blank_cell\<lparr>c_id := Some ''0'', c_children := Some [1]\<rparr>,
       1 := blank_cell\<lparr>c_id := Some ''1'', c_parent := Some 0\<rparr>),
     ncells := 3, m_root := Some 0, m_cells := Some [(''0'', 0), (''1'', 1)], nextId := 2\<rparr>"

definition insert_and_label :: "change list" where
  "insert_and_label =
     [new_mxChildChange (Some 1) (Some 2) (Some 0), new_mxValueChange (Some 2) (Some (VStr ''v''))]"

lemma layer_page_cells:
  "cell_getParent c layer_page = (if c = 1 then Some 0 else None)"
  "children_of layer_page c = (if c = 0 then [1] else [])" "edges_of layer_page c = []"
  "cell_getTerminal c b layer_page = None"
  "cell_getId c layer_page = (if c = 0 then Some ''0'' else if c = 1 then Some ''1'' else None)"
  "m_root layer_page = Some 0" "ncells layer_page = 3" "createIds layer_page"
  by (simp_all add: layer_page_def empty_model_def blank_cell_def cell_getParent_def children_of_def
      edges_of_def cell_getTerminal_def cell_getId_def)

lemma layer_page_wf: "heap_wf layer_page"
proof -
  have "parent_rel layer_page \<subseteq> less_than"
    by (auto simp: parent_rel_def layer_page_cells split: if_splits)
  then have "wf (parent_rel layer_page)" using wf_less_than wf_subset by blast
  then show ?thesis by (simp add: heap_wf_def layer_page_cells)
qed

lemma layer_page_ancestors: "ancestors layer_page c = (if c = 1 then [1, 0] else [c])"
  using ancestors_parent [OF layer_page_wf, of 0] ancestors_parent [OF layer_page_wf, of c]
  by (simp add: layer_page_cells)

lemma layer_page_sound: "sound {0} layer_page"
proof -
  have "struct_inv layer_page"
    by (auto simp: struct_inv_def tree_inv_def edge_inv_def layer_page_cells cell_getParent_def [symmetric])
  moreover have "table_inv layer_page"
    by (simp add: table_inv_def layer_page_cells) (simp add: layer_page_def)
  moreover have "registered c layer_page \<longleftrightarrow> inside layer_page c" for c
    by (simp add: registered_def inside_def layer_page_cells layer_page_ancestors getCell_def)
      (simp add: layer_page_def)
  ultimately show ?thesis using layer_page_wf
    by (simp add: sound_def layer_page_cells edge_linked_def)
qed

lemma insert_and_label_apply: "apply_in_turn False {0} insert_and_label (beginUpdate layer_page)"
proof -
  let ?c = "new_mxChildChange (Some 1) (Some 2) (Some 0)" and ?m = "beginUpdate layer_page"
  have d: "diagram ?m = diagram layer_page" by simp
  have a: "applicable {0} ?c ?m"
    unfolding applicable_diagram [OF d]
    by (simp add: new_mxChildChange_def applicable_def place_ok_def inside_def rootless_def layer_page_cells
        layer_page_ancestors)
  have "sound {0} ?m" using layer_page_sound by simp
  from change_executes [OF this a] obtain m1 where "exec_change ?c ?m = Some (swapped ?c (diagram ?m), m1)"
    by (auto simp: executes_def)
  then obtain m' where m': "m_execute ?c ?m = Some m'" by (auto simp: m_execute_def)
  moreover obtain m2 where "m_execute (new_mxValueChange (Some 2) (Some (VStr ''v''))) m' = Some m2"
    by (auto simp: m_execute_def new_mxValueChange_def split_beta)
  ultimately show ?thesis
    using a by (simp add: insert_and_label_def applicable_def new_mxValueChange_def)
qed

theorem transaction_undo_redo_witness:
  "\<exists>n e m2 m3. transaction insert_and_label layer_page = Some n \<and> children_of n 1 = [2] \<and>
    (let (um1, s1) = undoableEditHappened e (new_mxUndoManager None) (Some n);
         (um2, s2) = um_undo model_ops um1 s1;
         (um3, s3) = um_redo model_ops um2 s2
     in s2 = Some m2 \<and> s3 = Some m3) \<and>
    children_of m2 1 = [] \<and> \<not> registered 2 m2 \<and> children_of m3 1 = [2] \<and> registered 2 m3"
proof -
  have r: "roots_used insert_and_label layer_page = {0}"
    by (simp add: roots_used_def insert_and_label_def new_mxChildChange_def new_mxValueChange_def layer_page_cells)
  have rest: "at_rest layer_page" using at_rest_empty by (simp add: at_rest_def layer_page_def)
  have ne: "insert_and_label \<noteq> []" by (simp add: insert_and_label_def)
  from transaction_undo_redo [OF rest _ ne, of False "new_mxUndoManager None"]
  obtain n e m2 m3 where n: "transaction insert_and_label layer_page = Some n"
    "diagram n = fold after insert_and_label (diagram layer_page)"
    and s: "let (um1, s1) = undoableEditHappened e (new_mxUndoManager None) (Some n);
         (um2, s2) = um_undo model_ops um1 s1;
         (um3, s3) = um_redo model_ops um2 s2
     in s2 = Some m2 \<and> s3 = Some m3"
    and m2: "restored False {0} layer_page m2" and m3: "restored False {0} n m3"
    unfolding r using layer_page_sound insert_and_label_apply by blast
  have dn: "children_of n y = (if y = 1 then [2] else children_of layer_page y)"
    "cell_getParent y n = (if y = 2 then Some 1 else cell_getParent y layer_page)" "m_root n = Some 0" for y
  proof -
    have "d_children (diagram n) y = (if y = 1 then [2] else children_of layer_page y)"
      "c_parent (d_cell (diagram n) y) = (if y = 2 then Some 1 else c_parent (cell_at layer_page y))"
      "d_root (diagram n) = Some 0"
      unfolding n(2)
      by (simp_all add: insert_and_label_def new_mxChildChange_def new_mxValueChange_def set_cell_def
          set_parent_def layer_page_cells js_insert_at_def Let_def)
    then show "children_of n y = (if y = 1 then [2] else children_of layer_page y)"
      "cell_getParent y n = (if y = 2 then Some 1 else cell_getParent y layer_page)" "m_root n = Some 0"
      by (simp_all add: cell_getParent_def)
  qed
  have d2: "diagram m2 = diagram layer_page" "sound {0} m2" and d3: "diagram m3 = diagram n" "sound {0} m3"
    using m2 m3 by (simp_all add: restored_def)
  have "children_of m2 1 = []" "\<not> inside m2 2"
    using diagramD(3) [OF d2(1)] diagram_hierarchy(2) [OF d2(1)]
    by (simp_all add: layer_page_cells inside_def layer_page_ancestors)
  moreover have "children_of m3 1 = [2]" "inside m3 2"
    using diagramD(2,3,5) [OF d3(1)] dn ancestors_parent [OF soundD(4) [OF d3(2)]]
    by (simp_all add: layer_page_cells inside_def)
  ultimately show ?thesis
    using n(1) s dn(1) [of 1] soundD(8) [OF d2(2)] soundD(8) [OF d3(2)]
    by (intro exI [of _ n] exI [of _ e] exI [of _ m2] exI [of _ m3]) simp
qed

end
