(* ===== verification/ModelProps.thy ===== *)
theory ModelProps
  imports ModelQueries Transactions
begin

text \<open>
  Properties of cells, paths and the graph model, each applied to a small diagram: a root, a
  layer, a group with one vertex in it, a second vertex and an edge between the two.
\<close>

subsection \<open>The sample diagram\<close>

definition sample_cell :: "cref \<Rightarrow> mxCell" where
  "sample_cell c =
     (if c = 0 then blank_cell\<lparr>c_children := Some [1]\<rparr>
      else if c = 1 then blank_cell\<lparr>c_parent := Some 0, c_children := Some [2, 4, 5]\<rparr>
      else if c = 2 then blank_cell\<lparr>c_parent := Some 1, c_vertex := True, c_children := Some [3]\<rparr>
      else if c = 3 then blank_cell\<lparr>c_parent := Some 2, c_vertex := True, c_edges := Some [5]\<rparr>
      else if c = 4 then blank_cell\<lparr>c_parent := Some 1, c_vertex := True, c_edges := Some [5]\<rparr>
      else if c = 5 then blank_cell\<lparr>c_parent := Some 1, c_edge := True, c_source := Some 3, c_target := Some 4\<rparr>
      else blank_cell)"

definition sample :: mxGraphModel where
  "sample = empty_model\<lparr>cell_at := sample_cell, ncells := 6, m_root := Some 0\<rparr>"

lemma sample_simps [simp]:
  "cell_at sample = sample_cell" "ncells sample = 6" "m_root sample = Some 0"
  "m_cells sample = None" "nextId sample = 0" "createIds sample"
  by (simp_all add: sample_def empty_model_def)

lemma sample_parent:
  "cell_getParent c sample =
     (if c = 1 then Some 0 else if c = 2 \<or> c = 4 \<or> c = 5 then Some 1 else if c = 3 then Some 2 else None)"
  by (simp add: cell_getParent_def sample_cell_def blank_cell_def)

lemma sample_children:
  "children_of sample c =
     (if c = 0 then [1] else if c = 1 then [2, 4, 5] else if c = 2 then [3] else [])"
  by (simp add: children_of_def sample_cell_def blank_cell_def)

lemma sample_edges: "edges_of sample c = (if c = 3 \<or> c = 4 then [5] else [])"
  by (simp add: edges_of_def sample_cell_def blank_cell_def)

lemma sample_geometry: "cell_getGeometry c sample = None"
  by (simp add: cell_getGeometry_def sample_cell_def blank_cell_def)

lemma sample_offset: "offset_x sample c = 0" "offset_y sample c = 0"
  by (simp_all add: offset_x_def offset_y_def sample_geometry)

lemma sample_terminal:
  "cell_getTerminal c b sample = (if c = 5 then (if b then Some 3 else Some 4) else None)"
  by (simp add: cell_getTerminal_def sample_cell_def blank_cell_def)

lemma sample_tree: "tree_inv sample"
  using sample_parent by (auto simp: tree_inv_def sample_children cell_getParent_def split: if_splits)

lemma sample_edge_inv: "edge_inv sample"
  by (auto simp: edge_inv_def sample_edges sample_terminal ex_bool_eq split: if_splits)

lemma sample_wf: "heap_wf sample"
proof -
  have "parent_rel sample \<subseteq> less_than"
    by (auto simp: parent_rel_def sample_parent split: if_splits)
  then have "wf (parent_rel sample)" by (rule wf_subset [OF wf_less_than])
  then show ?thesis by (auto simp: heap_wf_def sample_parent split: if_splits)
qed

lemma sample_ancestors [simp]:
  "ancestors sample 0 = [0]" "ancestors sample (Suc 0) = [1, 0]" "ancestors sample 2 = [2, 1, 0]"
  "ancestors sample 3 = [3, 2, 1, 0]" "ancestors sample 4 = [4, 1, 0]" "ancestors sample 5 = [5, 1, 0]"
proof -
  note anc = ancestors_parent [OF sample_wf]
  show 0: "ancestors sample 0 = [0]" using anc [of 0] by (simp add: sample_parent)
  show 1: "ancestors sample (Suc 0) = [1, 0]" using 0 anc [of 1] by (simp add: sample_parent)
  show 2: "ancestors sample 2 = [2, 1, 0]" using 1 anc [of 2] by (simp add: sample_parent)
  show "ancestors sample 3 = [3, 2, 1, 0]" using 2 anc [of 3] by (simp add: sample_parent)
  show "ancestors sample 4 = [4, 1, 0]" using 1 anc [of 4] by (simp add: sample_parent)
  show "ancestors sample 5 = [5, 1, 0]" using 1 anc [of 5] by (simp add: sample_parent)
qed

lemma sample_root: "getRoot (Some c) sample = Some (Some (last (ancestors sample c)))"
  by (rule getRoot_wf [OF sample_wf])

lemma heap_wf_induct_above [consumes 1, case_names up]:
  assumes "heap_wf h" and "\<And>c. (\<And>p. p \<in> set (ancestors h c) \<Longrightarrow> p \<noteq> c \<Longrightarrow> P p) \<Longrightarrow> P c"
  shows "P c"
proof (induction "length (ancestors h c)" arbitrary: c rule: less_induct)
  case less
  have "length (ancestors h p) < length (ancestors h c)" if "p \<in> set (ancestors h c)" "p \<noteq> c" for p
    using assms(1) that
  proof (induction c rule: heap_wf_induct)
    case (up c)
    then show ?case
      using ancestors_parent [OF assms(1), of c]
      by (cases "cell_getParent c h"; cases "the (cell_getParent c h) = p") (auto intro: less_SucI)
  qed
  with less assms(2) show ?case by blast
qed

lemma distinct_count_list: "distinct xs \<Longrightarrow> count_list xs x = (if x \<in> set xs then 1 else 0)"
  by (induction xs) auto

subsection \<open>Cells\<close>

text \<open>C12: \<open>mxCell.insert\<close> takes the child out of its old parent, puts it at the given index of
  the new one (at the end when there is none), sets its parent, keeps every other children array as
  it was, and preserves the agreement of children arrays and parent references.\<close>

theorem cell_insert_moves_child:
  assumes "tree_inv h"
  shows "tree_inv (cell_insert p (Some c) index h) \<and>
    cell_getParent c (cell_insert p (Some c) index h) = Some p \<and>
    children_of (cell_insert p (Some c) index h) p =
      (case index of
         Some i \<Rightarrow> js_insert_at (remove1 c (children_of h p)) i c
       | None \<Rightarrow> remove1 c (children_of h p) @ [c]) \<and>
    (\<forall>q. q \<noteq> p \<longrightarrow> children_of (cell_insert p (Some c) index h) q = remove1 c (children_of h q))"
proof -
  have "js_insert_at (remove1 c (children_of h p)) (insert_pos p c None h) c = remove1 c (children_of h p) @ [c]"
    using tree_invD(2) [OF assms, of c p] remove1_idem [of c "children_of h p"]
      length_pos_if_in_set [of c "children_of h p"]
    by (cases "c_parent (cell_at h c) = Some p")
      (auto simp: insert_pos_def js_insert_at_def js_splice_pos_def Let_def length_remove1)
  then show ?thesis
    using cell_insert_children [OF assms, of p c index] cell_insert_parent [OF assms]
      tree_inv_insert [OF assms]
    by (cases index) (simp_all add: cell_getParent_def insert_pos_def)
qed

theorem cell_insert_moves_child_witness:
  "children_of (cell_insert 1 (Some 3) (Some 0) sample) 1 = [3, 2, 4, 5] \<and>
   children_of (cell_insert 1 (Some 3) (Some 0) sample) 2 = [] \<and>
   cell_getParent 3 (cell_insert 1 (Some 3) (Some 0) sample) = Some 1"
  using cell_insert_moves_child [OF sample_tree, of 1 3 "Some 0"]
  by (simp add: sample_children js_insert_at_def js_splice_pos_def)

text \<open>\<open>mxCell.insertEdge\<close> sets the terminal, takes the edge out of the list of the old
  terminal unless that is still the other end, and enters it once in the list of the new terminal;
  no list ever holds an edge twice, or an edge that does not end there.\<close>

theorem cell_insertEdge_relinks:
  assumes "edge_inv h"
  shows "edge_inv (cell_insertEdge t (Some e) out h) \<and>
    cell_getTerminal e out (cell_insertEdge t (Some e) out h) = Some t \<and>
    cell_getTerminal e (\<not> out) (cell_insertEdge t (Some e) out h) = cell_getTerminal e (\<not> out) h \<and>
    count_list (edges_of (cell_insertEdge t (Some e) out h) t) e = 1 \<and>
    (\<forall>q. q \<noteq> t \<and> cell_getTerminal e (\<not> out) h \<noteq> Some q \<longrightarrow>
       e \<notin> set (edges_of (cell_insertEdge t (Some e) out h) q))"
proof -
  let ?h = "cell_insertEdge t (Some e) out h"
  have inv: "edge_inv ?h" using assms by (rule edge_inv_insertEdge)
  have "e \<in> set (edges_of ?h t)" by (simp add: insertEdge_edges [OF assms] Let_def)
  then have "count_list (edges_of ?h t) e = 1"
    using edge_invD(1) [OF inv, of t] by (simp add: distinct_count_list)
  moreover have "e \<notin> set (edges_of ?h q)" if q: "q \<noteq> t" "cell_getTerminal e (\<not> out) h \<noteq> Some q" for q
  proof
    assume "e \<in> set (edges_of ?h q)"
    from edge_invD(2) [OF inv this, of out] q show False by (simp add: insertEdge_getTerminal)
  qed
  ultimately show ?thesis using inv by (simp add: insertEdge_getTerminal)
qed

theorem cell_insertEdge_relinks_witness:
  "edges_of (cell_insertEdge 2 (Some 5) True sample) 2 = [5] \<and>
   5 \<notin> set (edges_of (cell_insertEdge 2 (Some 5) True sample) 3) \<and>
   cell_getTerminal 5 True (cell_insertEdge 2 (Some 5) True sample) = Some 2"
  using cell_insertEdge_relinks [OF sample_edge_inv, of 2 5 True]
  by (simp add: sample_terminal insertEdge_edges [OF sample_edge_inv]
      removeFromTerminal_edges [OF sample_edge_inv] sample_edges Let_def)

subsection \<open>Paths\<close>

text \<open>C35: The path of a cell below a root, resolved from that root, is the cell.\<close>

theorem path_roundtrip:
  assumes "heap_wf m" and "tree_inv m" and "cell_getParent c m \<noteq> None"
  shows "\<exists>r s. getRoot (Some c) m = Some (Some r) \<and> path_create (Some c) m = Some s \<and>
     path_resolve (Some r) (Some s) m = Inr (Some c)"
proof -
  have "index_path m c \<noteq> []" using assms(3) index_path_parent [OF assms(1), of c] by auto
  then have "js_split CHR ''.'' (dotted (index_path m c)) = map nat_string (index_path m c)"
    by (rule dotted_tokens)
  then show ?thesis
    using path_create_eq [OF assms(1,2)] getRoot_wf [OF assms(1)] resolve_loop_index_path [OF assms(1,2)]
    by (simp add: path_resolve_def)
qed

theorem path_roundtrip_witness:
  "\<exists>s. path_create (Some 3) sample = Some s \<and> path_resolve (Some 0) (Some s) sample = Inr (Some 3)"
  using path_roundtrip [OF sample_wf sample_tree, of 3] by (auto simp: sample_parent sample_root)

text \<open>The root's own path is the empty string, and the empty string does not resolve to the
  root but to null.\<close>

theorem path_of_root_unresolved:
  assumes "cell_getParent r h = None"
  shows "path_create (Some r) h = Some [] \<and> path_resolve (Some r) (Some []) h = Inr None"
  using assms by (simp add: path_create_def path_loop.simps path_resolve_def js_parseInt_def)

theorem path_of_root_unresolved_witness: "path_resolve (Some 0) (path_create (Some 0) sample) sample = Inr None"
  using path_of_root_unresolved [of 0 sample] by (simp add: sample_parent)

text \<open>The parent path of a cell's path is the path of its parent.\<close>

theorem getParentPath_create:
  assumes "heap_wf m" and "tree_inv m" and "cell_getParent c m = Some p"
  shows "getParentPath (path_create (Some c) m) = path_create (Some p) m"
  using assms(3) index_path_parent [OF assms(1), of c]
  by (simp add: path_create_eq [OF assms(1,2)] getParentPath_dotted)

theorem getParentPath_create_witness:
  "getParentPath (path_create (Some 3) sample) = path_create (Some 2) sample"
  by (rule getParentPath_create [OF sample_wf sample_tree]) (simp add: sample_parent)

text \<open>C36: For cells under one root, \<open>mxCellPath.compare\<close> of their paths is zero exactly for
  equal cells, and otherwise orders them as the positions in the children arrays do, ancestors
  first.\<close>

theorem path_compare_orders_cells:
  assumes "heap_wf m" and "tree_inv m" and "getRoot (Some c) m = getRoot (Some d) m"
    and "cell_getParent c m \<noteq> None" and "cell_getParent d m \<noteq> None"
  shows "\<exists>s t. path_create (Some c) m = Some s \<and> path_create (Some d) m = Some t \<and>
     path_compare (js_split CHR ''.'' s) (js_split CHR ''.'' t) =
       (if c = d then 0 else if lex_less (index_path m c) (index_path m d) then -1 else 1)"
proof -
  have ne: "index_path m c \<noteq> []" "index_path m d \<noteq> []"
    using assms(4,5) index_path_parent [OF assms(1)] by auto
  have "last (ancestors m c) = last (ancestors m d)" using assms(3) by (simp add: getRoot_wf [OF assms(1)])
  from index_path_inject [OF assms(1,2) this] have "index_path m c = index_path m d \<longleftrightarrow> c = d" by blast
  then show ?thesis
    by (simp add: path_create_eq [OF assms(1,2)] dotted_tokens ne path_compare_nat)
qed

theorem path_compare_orders_cells_witness:
  "\<exists>s t. path_create (Some 3) sample = Some s \<and> path_create (Some 4) sample = Some t \<and>
     path_compare (js_split CHR ''.'' s) (js_split CHR ''.'' t) \<noteq> 0"
  using path_compare_orders_cells [OF sample_wf sample_tree, of 3 4]
  by (auto simp: sample_root sample_parent split: if_splits)

subsection \<open>Queries\<close>

text \<open>C13: On a well-founded store \<open>isAncestor\<close>, \<open>getRoot\<close> and \<open>getDescendants\<close> return;
  the first decides the reflexive and transitive closure of the parent references, the last lists
  without repetition exactly the cells of which the given cell is an ancestor.\<close>

theorem hierarchy_queries:
  assumes "heap_wf m" and "tree_inv m"
  shows "isAncestor (Some p) (Some c) m = Some ((p, c) \<in> (parent_rel m)\<^sup>*) \<and>
    (\<exists>r. getRoot (Some c) m = Some (Some r) \<and> cell_getParent r m = None \<and> (r, c) \<in> (parent_rel m)\<^sup>*) \<and>
    (\<exists>ds. getDescendants (Some p) m = Some (map Some ds) \<and> distinct ds \<and>
       set ds = {d. isAncestor (Some p) (Some d) m = Some True})"
proof -
  have anc: "isAncestor (Some p) (Some d) m = Some ((p, d) \<in> (parent_rel m)\<^sup>*)" for d
    using isAncestor_wf(1) [OF assms(1)] ancestors_rel [OF assms(1)] by simp
  have "cell_getParent (last (ancestors m c)) m = None"
    using assms(1)
  proof (induction c rule: heap_wf_induct)
    case (up c)
    then show ?case
      using ancestors_parent [OF assms(1), of c] last_ancestors_parent [OF assms(1), of c]
      by (cases "cell_getParent c m") auto
  qed
  moreover have "(last (ancestors m c), c) \<in> (parent_rel m)\<^sup>*"
    using ancestors_rel [OF assms(1), of "last (ancestors m c)" c] ancestors_not_Nil [OF assms(1)] last_in_set
    by blast
  moreover have "walk_fuel m + length (ancestors m p) \<ge> ncells m + 2"
    using ancestors_not_Nil [OF assms(1), of p]
    by (cases "ancestors m p") (simp_all add: walk_fuel_def)
  then obtain ds where "descend (walk_fuel m) (\<lambda>c. True) m p = Some ds"
    using descend_total [OF assms] by blast
  ultimately show ?thesis
    using descend_spec [OF assms, of "walk_fuel m" "\<lambda>c. True" p] getRoot_wf [OF assms(1), of c]
      ancestors_rel [OF assms(1)]
    by (auto simp: anc getDescendants_def filterDescendants_def)
qed

theorem hierarchy_queries_witness:
  "\<exists>ds. getDescendants (Some 2) sample = Some (map Some ds) \<and> 3 \<in> set ds \<and> 4 \<notin> set ds"
  using hierarchy_queries [OF sample_wf sample_tree, of 2 0]
  by (auto simp: isAncestor_wf [OF sample_wf])

text \<open>C11: For two cells below one root \<open>getNearestCommonAncestor\<close> returns their lowest common
  ancestor, unless that is the root itself: then it returns null.\<close>

theorem nearest_common_ancestor:
  assumes "heap_wf m" and "tree_inv m" and "getRoot (Some c) m = getRoot (Some d) m" and "c \<noteq> d"
  shows "\<exists>r. getNearestCommonAncestor (Some c) (Some d) m = Some r \<and>
    (\<forall>a. r = Some a \<longleftrightarrow>
       cell_getParent a m \<noteq> None \<and> isAncestor (Some a) (Some c) m = Some True \<and>
       isAncestor (Some a) (Some d) m = Some True \<and>
       (\<forall>b. cell_getParent b m \<noteq> None \<and> isAncestor (Some b) (Some c) m = Some True \<and>
            isAncestor (Some b) (Some d) m = Some True \<longrightarrow> isAncestor (Some b) (Some a) m = Some True))"
proof -
  have "last (ancestors m c) = last (ancestors m d)" using assms(3) by (simp add: getRoot_wf [OF assms(1)])
  from getNearestCommonAncestor_wf [OF assms(1,2) this assms(4)] show ?thesis
    by (auto simp: find_ancestor_iff [OF assms(1)] isAncestor_wf [OF assms(1)])
qed

theorem nearest_common_ancestor_witness:
  "getNearestCommonAncestor (Some 3) (Some 4) sample = Some (Some 1)"
proof -
  obtain r where r: "getNearestCommonAncestor (Some 3) (Some 4) sample = Some r"
    and a: "\<And>a. r = Some a \<longleftrightarrow>
       cell_getParent a sample \<noteq> None \<and> isAncestor (Some a) (Some 3) sample = Some True \<and>
       isAncestor (Some a) (Some 4) sample = Some True \<and>
       (\<forall>b. cell_getParent b sample \<noteq> None \<and> isAncestor (Some b) (Some 3) sample = Some True \<and>
            isAncestor (Some b) (Some 4) sample = Some True \<longrightarrow> isAncestor (Some b) (Some a) sample = Some True)"
    using nearest_common_ancestor [OF sample_wf sample_tree, of 3 4] by (auto simp: sample_root)
  have "r = Some 1" unfolding a by (auto simp: sample_parent isAncestor_wf [OF sample_wf])
  with r show ?thesis by simp
qed

text \<open>The origin of a cell is the sum of the offsets of its geometry and of those of its
  ancestors, edges left out.\<close>

theorem origin_is_sum_of_offsets:
  assumes "heap_wf m"
  shows "getOrigin (Some c) m =
    Some \<lparr>px = (\<Sum>a \<in> {a. isAncestor (Some a) (Some c) m = Some True}. offset_x m a),
          py = (\<Sum>a \<in> {a. isAncestor (Some a) (Some c) m = Some True}. offset_y m a)\<rparr>"
  using ancestors_distinct [OF assms, of c]
  by (simp add: getOrigin_wf [OF assms] isAncestor_wf [OF assms] sum_list_distinct_conv_sum_set)

theorem origin_is_sum_of_offsets_witness:
  "getOrigin (Some 3) sample = Some \<lparr>px = 0, py = 0\<rparr>"
  by (simp add: origin_is_sum_of_offsets [OF sample_wf] sample_offset)

text \<open>\<open>getTopmostCells\<close> keeps the cells that have no proper ancestor among the given
  ones, in their order; every given cell is one of them or below one of them.\<close>

theorem topmost_cells:
  assumes "heap_wf m"
  shows "\<exists>ts. getTopmostCells cs m = Some ts \<and>
    ts = filter (\<lambda>c. \<forall>p \<in> set cs. isAncestor (Some p) (Some c) m = Some True \<longrightarrow> p = c) cs \<and>
    (\<forall>c \<in> set cs. \<exists>t \<in> set ts. isAncestor (Some t) (Some c) m = Some True)"
proof -
  have tl: "x \<in> set (tl (ancestors m c)) \<longleftrightarrow> x \<in> set (ancestors m c) \<and> x \<noteq> c" for x c
    using ancestors_distinct [OF assms, of c] ancestors_parent [OF assms, of c] by auto
  let ?ts = "filter (\<lambda>c. \<forall>p \<in> set cs. p \<in> set (ancestors m c) \<longrightarrow> p = c) cs"
  have "\<exists>t \<in> set ?ts. t \<in> set (ancestors m c)" if "c \<in> set cs" for c
    using assms that
  proof (induction c rule: heap_wf_induct_above)
    case (up c)
    show ?case
    proof (cases "\<forall>p \<in> set cs. p \<in> set (ancestors m c) \<longrightarrow> p = c")
      case True
      with up.prems assms show ?thesis by auto
    next
      case False
      then obtain p where p: "p \<in> set cs" "p \<in> set (ancestors m c)" "p \<noteq> c" by blast
      from up.IH [OF p(2,3,1)] ancestors_trans [OF assms _ p(2)] show ?thesis by blast
    qed
  qed
  moreover have "filter (\<lambda>c. \<forall>p \<in> set (tl (ancestors m c)). p \<notin> set cs) cs = ?ts"
    by (rule filter_cong) (auto simp: tl)
  ultimately show ?thesis
    by (simp add: getTopmostCells_def topmost_loop_wf [OF assms] isAncestor_wf [OF assms])
qed

theorem topmost_cells_witness: "getTopmostCells [3, 4, 2] sample = Some [4, 2]"
  using topmost_cells [OF sample_wf, of "[3, 4, 2]"] by (simp add: isAncestor_wf [OF sample_wf])

text \<open>\<open>getEdgesBetween\<close> may scan the edges of either cell: it returns the edges between
  the two, only those from the source to the target when directed, whichever it scans.\<close>

theorem edges_between:
  assumes "\<And>e. e \<in> set (edges_of m s) \<union> set (edges_of m t) \<Longrightarrow> edge_linked e m"
  shows "set (getEdgesBetween (Some s) (Some t) directed m) =
    {e \<in> set (edges_of m s).
       cell_getTerminal e True m = Some s \<and> cell_getTerminal e False m = Some t \<or>
       directed \<noteq> Some True \<and> cell_getTerminal e True m = Some t \<and> cell_getTerminal e False m = Some s}"
  by (rule getEdgesBetween_either [OF assms])

theorem edges_between_witness:
  "set (getEdgesBetween (Some 4) (Some 3) None sample) = {5} \<and>
   set (getEdgesBetween (Some 4) (Some 3) (Some True) sample) = {}"
proof -
  have "set (getEdgesBetween (Some 4) (Some 3) directed sample) =
    {e \<in> set (edges_of sample 4).
       cell_getTerminal e True sample = Some 4 \<and> cell_getTerminal e False sample = Some 3 \<or>
       directed \<noteq> Some True \<and> cell_getTerminal e True sample = Some 3 \<and>
       cell_getTerminal e False sample = Some 4}" for directed
    by (rule edges_between) (auto simp: sample_edges sample_terminal edge_linked_def ex_bool_eq)
  note this [of None] this [of "Some True"]
  then show ?thesis by (auto simp: sample_edges sample_terminal)
qed

end
