(* ===== verification/ModelSteps.thy ===== *)
theory ModelSteps
  imports ModelProps
begin

text \<open>
  The model as a transition system: each step is one call a client makes of
  model/mxGraphModel.js, or the undo or redo of an edit.  What holds after every number of steps
  is proved once, for any invariant that the changes and the update brackets keep.
\<close>

inductive model_step :: "mxGraphModel \<Rightarrow> mxGraphModel \<Rightarrow> bool" where
  step_geometry_object: "model_step m (snd (alloc_geo g m))"
| step_begin: "model_step m (beginUpdate m)"
| step_end: "model_step m (endUpdate m)"
| step_add: "m_add p c i m = Some m' \<Longrightarrow> model_step m m'"
| step_remove: "m_remove c m = Some m' \<Longrightarrow> model_step m m'"
| step_root: "setRoot r m = Some m' \<Longrightarrow> model_step m m'"
| step_terminal: "setTerminal e t b m = Some m' \<Longrightarrow> model_step m m'"
| step_terminals: "setTerminals e s t m = Some m' \<Longrightarrow> model_step m m'"
| step_value: "m_setValue c v m = Some m' \<Longrightarrow> model_step m m'"
| step_geometry: "m_setGeometry c g m = Some m' \<Longrightarrow> model_step m m'"
| step_style: "m_setStyle c st m = Some m' \<Longrightarrow> model_step m m'"
| step_collapsed: "setCollapsed c b m = Some m' \<Longrightarrow> model_step m m'"
| step_visible: "setVisible c b m = Some m' \<Longrightarrow> model_step m m'"
| step_execute: "m_execute ch m = Some m' \<Longrightarrow> model_step m m'"
| step_undo: "edit_undo model_ops e (Some m) = (e', Some m') \<Longrightarrow> model_step m m'"
| step_redo: "edit_redo model_ops e (Some m) = (e', Some m') \<Longrightarrow> model_step m m'"

fun announces_edit :: "model_event \<Rightarrow> bool" where
  "announces_edit (EvUndo e) = True"
| "announces_edit (EvBeforeUndo e) = True"
| "announces_edit _ = False"

locale kept_by_steps = kept_by_updates P for P :: "mxGraphModel \<Rightarrow> bool" +
  assumes kept_change: "exec_change c m = Some (d, m') \<Longrightarrow> P m \<Longrightarrow> P m'"
    and kept_fire: "\<not> announces_edit ev \<Longrightarrow> P m \<Longrightarrow> P (m_fire ev m)"
begin

lemma kept_exec_opt: "pred_option P s \<Longrightarrow> pred_option P (snd (exec_opt c s))"
  by (auto simp: exec_opt_def intro: kept_change split: option.splits)

lemma kept_op_fire: "pred_option P s \<Longrightarrow> pred_option P (op_fire model_ops ev s)"
  using kept_fire by (cases s; cases ev) (simp_all add: model_ops_def)

lemma kept_op_notify: "pred_option P s \<Longrightarrow> pred_option P (op_notify model_ops e s)"
  using kept_fire by (cases s) (simp_all add: model_ops_def notify_edit_def)

lemma kept_undo_changes: "pred_option P s \<Longrightarrow> pred_option P (snd (undo_changes model_ops cs s))"
  by (induction cs arbitrary: s)
    (simp_all add: split_beta mu.undo_change_exec kept_op_fire kept_exec_opt)

lemma kept_redo_changes: "pred_option P s \<Longrightarrow> pred_option P (snd (redo_changes model_ops cs s))"
  by (induction cs arbitrary: s)
    (simp_all add: split_beta mu.redo_change_exec kept_op_fire kept_exec_opt)

lemma kept_edit:
  assumes "pred_option P s"
  shows "pred_option P (snd (edit_undo model_ops e s))" "pred_option P (snd (edit_redo model_ops e s))"
  using assms
  by (simp_all add: edit_undo_def edit_redo_def split_beta Let_def kept_op_fire kept_op_notify
      kept_undo_changes kept_redo_changes)

lemma kept_step: "model_step m m' \<Longrightarrow> P m \<Longrightarrow> P m'"
proof (induction rule: model_step.induct)
  case (step_undo e m e' m')
  with kept_edit(1) [of "Some m" e] show ?case by simp
next
  case (step_redo e m e' m')
  with kept_edit(2) [of "Some m" e] show ?case by simp
qed (auto intro: kept_alloc kept_begin kept_end kept_add kept_setters kept_setTerminal
    kept_setTerminals kept_execute)

lemma kept_steps: "model_step\<^sup>*\<^sup>* m m' \<Longrightarrow> P m \<Longrightarrow> P m'"
  by (induction rule: rtranclp_induct) (auto intro: kept_step)

end

subsection \<open>The structure of the graph\<close>

interpretation graph: kept_by_steps struct_inv
proof
  show "struct_inv m \<Longrightarrow> struct_inv (m_fire ev m)" for ev and m :: mxGraphModel
    using struct_inv_links [OF links_fire] by blast
qed (rule struct_inv_exec_change)

subsection \<open>The edits the model announces\<close>

definition fresh_edit :: "model_edit \<Rightarrow> bool" where
  "fresh_edit e \<longleftrightarrow> significant e \<and> \<not> undone e \<and> \<not> redone e"

definition log_inv :: "mxGraphModel \<Rightarrow> bool" where
  "log_inv m \<longleftrightarrow> fresh_edit (currentEdit m) \<and> \<not> endingUpdate m \<and>
     (\<forall>e. EvUndo e \<in> set (m_fired m) \<longrightarrow> fresh_edit e \<and> changes e \<noteq> [] \<and>
        EvBeforeUndo e \<in> set (m_fired m) \<and> EvNotify e \<in> set (m_fired m))"

lemma log_inv_tx: "tx_fields m = tx_fields m' \<Longrightarrow> log_inv m = log_inv m'"
  by (simp add: log_inv_def tx_fields_def)

lemma log_inv_fire: "\<not> is_undo_event ev \<Longrightarrow> log_inv m \<Longrightarrow> log_inv (m_fire ev m)"
  by (cases ev) (auto simp: log_inv_def m_fire_def)

lemma log_inv_begin: "log_inv m \<Longrightarrow> log_inv (beginUpdate m)"
proof -
  assume "log_inv m"
  then have "log_inv (m\<lparr>updateLevel := updateLevel m + 1\<rparr>)" by (simp add: log_inv_def)
  then show "log_inv (beginUpdate m)" by (simp add: beginUpdate_def Let_def log_inv_fire)
qed

definition end_events :: "mxGraphModel \<Rightarrow> model_event list" where
  "end_events m = (let e = currentEdit m in
     (if updateLevel m = 1 then [EvEndEdit] else []) @ [EvEndUpdate e] @
     (if updateLevel m = 1 \<and> changes e \<noteq> [] then [EvBeforeUndo e, EvChange e, EvNotify e, EvUndo e] else []))"

lemma endUpdate_eq:
  assumes "\<not> endingUpdate m" and "m_eventsEnabled m"
  shows "endUpdate m = m\<lparr>updateLevel := updateLevel m - 1,
     currentEdit := (if updateLevel m = 1 \<and> changes (currentEdit m) \<noteq> [] then createUndoableEdit None
       else currentEdit m), m_fired := m_fired m @ end_events m, endingUpdate := False\<rparr>"
  using assms
  by (cases "updateLevel m = 1"; cases "changes (currentEdit m) = []")
    (simp_all add: endUpdate_def Let_def m_fire_def edit_isEmpty_def notify_edit_def end_events_def)

lemma endUpdate_silent:
  assumes "\<not> endingUpdate m" and "\<not> m_eventsEnabled m"
  shows "endUpdate m = m\<lparr>updateLevel := updateLevel m - 1,
     currentEdit := (if updateLevel m = 1 \<and> changes (currentEdit m) \<noteq> [] then createUndoableEdit None
       else currentEdit m), endingUpdate := False\<rparr>"
  using assms
  by (cases "updateLevel m = 1"; cases "changes (currentEdit m) = []")
    (simp_all add: endUpdate_def Let_def m_fire_def edit_isEmpty_def notify_edit_def)

lemma fresh_edit_create: "fresh_edit (createUndoableEdit None)"
  by (simp add: fresh_edit_def createUndoableEdit_def new_mxUndoableEdit_def)

lemma log_inv_end:
  assumes "log_inv m"
  shows "log_inv (endUpdate m)"
proof -
  have e: "\<not> endingUpdate m" "fresh_edit (currentEdit m)" using assms by (simp_all add: log_inv_def)
  show ?thesis
  proof (cases "m_eventsEnabled m")
    case True
    have "set (m_fired (endUpdate m)) = set (m_fired m) \<union> set (end_events m)"
      by (simp add: endUpdate_eq [OF e(1) True])
    moreover have "ev = EvUndo x \<Longrightarrow> ev \<in> set (end_events m) \<Longrightarrow>
        fresh_edit x \<and> changes x \<noteq> [] \<and> EvBeforeUndo x \<in> set (end_events m) \<and> EvNotify x \<in> set (end_events m)"
      for ev x using e(2) by (auto simp: end_events_def Let_def split: if_splits)
    ultimately show ?thesis
      using assms e fresh_edit_create by (auto simp: log_inv_def endUpdate_eq [OF e(1) True])
  next
    case False
    then show ?thesis using assms fresh_edit_create by (simp add: log_inv_def endUpdate_silent [OF e(1) False])
  qed
qed

lemma log_inv_execute:
  assumes "m_execute c m = Some m'" and "log_inv m"
  shows "log_inv m'"
proof -
  obtain d m1 where d: "exec_change c m = Some (d, m1)" using assms(1) by (auto simp: m_execute_def)
  have "log_inv m1" using log_inv_tx [OF tx_exec_change [OF d]] assms(2) by simp
  then have "log_inv (beginUpdate m1)" by (rule log_inv_begin)
  then have "log_inv ((beginUpdate m1)\<lparr>currentEdit := edit_add d (currentEdit (beginUpdate m1))\<rparr>)"
    by (simp add: log_inv_def fresh_edit_def edit_add_def)
  then show ?thesis using assms(1) d by (auto simp: m_execute_def Let_def log_inv_fire intro!: log_inv_end)
qed

interpretation log: kept_by_steps log_inv
proof
  show "log_inv m \<Longrightarrow> log_inv (snd (alloc_geo g m))" for g m
    using log_inv_tx [of "snd (alloc_geo g m)" m] by (simp add: alloc_geo_def tx_fields_def)
  show "\<not> announces_edit ev \<Longrightarrow> log_inv m \<Longrightarrow> log_inv (m_fire ev m)" for ev m
    by (rule log_inv_fire) (cases ev, auto)
  show "exec_change c m = Some (d, m') \<Longrightarrow> log_inv m \<Longrightarrow> log_inv m'" for c m d m'
    using log_inv_tx [OF tx_exec_change] by blast
qed (rule log_inv_execute log_inv_begin log_inv_end; assumption)+

subsection \<open>Properties\<close>

text \<open>C5: Whatever sequence of calls a client makes, undo and redo included, children arrays and
  parent references agree, no child and no edge is listed twice, and a cell lists only edges that
  end there.\<close>

theorem structure_invariant:
  assumes "model_step\<^sup>*\<^sup>* m m'" and "struct_inv m"
  shows "(\<forall>p. distinct (children_of m' p)) \<and>
    (\<forall>p c. c \<in> set (children_of m' p) \<longleftrightarrow> cell_getParent c m' = Some p) \<and>
    (\<forall>t. distinct (edges_of m' t)) \<and>
    (\<forall>t e. e \<in> set (edges_of m' t) \<longrightarrow>
       cell_getTerminal e True m' = Some t \<or> cell_getTerminal e False m' = Some t)"
proof -
  have "tree_inv m'" "edge_inv m'" using graph.kept_steps [OF assms] by (simp_all add: struct_inv_def)
  then show ?thesis
    using tree_invD [of m'] edge_invD(1) [of m'] edge_invD(2) [of m' _ _ True]
    by (auto simp: cell_getParent_def)
qed

theorem structure_invariant_witness:
  "\<exists>m. m_setValue (Some 3) (Some (VStr ''v'')) sample = Some m \<and> distinct (children_of m 1)"
proof -
  obtain m where m: "m_setValue (Some 3) (Some (VStr ''v'')) sample = Some m"
    by (simp add: m_setValue_def new_mxValueChange_def m_execute_def split_beta)
  then have "model_step\<^sup>*\<^sup>* sample m" by (blast intro: step_value)
  moreover have "struct_inv sample" using sample_tree sample_edge_inv by (simp add: struct_inv_def)
  ultimately show ?thesis using structure_invariant m by blast
qed

text \<open>C34: Every edit the model announces to the undo manager, in any run of client calls, has at
  least one change, is significant and neither undone nor redone, and has been announced by a before-undo event
  and sent to the notify listeners; between calls the model is never left in the middle of ending an update.\<close>

theorem announced_edits:
  assumes "model_step\<^sup>*\<^sup>* m m'" and "at_rest m" and "m_fired m = []"
  shows "\<not> endingUpdate m' \<and>
    (\<forall>e. EvUndo e \<in> set (m_fired m') \<longrightarrow> changes e \<noteq> [] \<and> significant e \<and> \<not> undone e \<and> \<not> redone e \<and>
       EvBeforeUndo e \<in> set (m_fired m') \<and> EvNotify e \<in> set (m_fired m'))"
proof -
  have "log_inv m" using assms(2,3)
    by (simp add: log_inv_def at_rest_def fresh_edit_def createUndoableEdit_def new_mxUndoableEdit_def)
  with assms(1) have "log_inv m'" by (rule log.kept_steps)
  then show ?thesis by (auto simp: log_inv_def fresh_edit_def)
qed

theorem announced_edits_witness:
  "\<exists>m. m_setValue (Some 3) (Some (VStr ''v'')) sample = Some m \<and> \<not> endingUpdate m \<and>
     (\<forall>e. EvUndo e \<in> set (m_fired m) \<longrightarrow> changes e \<noteq> [])"
proof -
  obtain m where m: "m_setValue (Some 3) (Some (VStr ''v'')) sample = Some m"
    by (simp add: m_setValue_def new_mxValueChange_def m_execute_def split_beta)
  then have "model_step\<^sup>*\<^sup>* sample m" by (blast intro: step_value)
  moreover have "at_rest sample" "m_fired sample = []"
    by (simp_all add: at_rest_def sample_def empty_model_def)
  ultimately show ?thesis using announced_edits m by blast
qed

text \<open>C14: Adding a subtree ends, enters each of its cells under an identifier by which it is found,
  and loses no cell that was registered.\<close>

theorem cellAdded_registers_subtree:
  assumes "heap_wf m" and "tree_inv m" and "table_inv m" and "createIds m"
  shows "\<exists>m'. cellAdded (Some c) m = Some m' \<and> table_inv m' \<and>
    (\<forall>d. isAncestor (Some c) (Some d) m = Some True \<longrightarrow>
       cell_getId d m' \<noteq> None \<and> getCell (cell_getId d m') m' = Some d) \<and>
    (\<forall>d. cell_getId d m \<noteq> None \<and> getCell (cell_getId d m) m = Some d \<longrightarrow>
       getCell (cell_getId d m') m' = Some d)"
proof -
  obtain m' where "cellAdded (Some c) m = Some m'" "table_inv m'"
    "\<And>d. c \<in> set (ancestors m d) \<Longrightarrow> registered d m'" "\<And>d. registered d m \<Longrightarrow> registered d m'"
    using cellAdded_registers [OF assms] by blast
  then show ?thesis
    by (intro exI [of _ m']) (simp add: isAncestor_wf [OF assms(1)] registered_def)
qed

theorem cellAdded_registers_subtree_witness:
  "\<exists>m'. cellAdded (Some 1) sample = Some m' \<and> getCell (cell_getId 3 m') m' = Some 3"
proof -
  have "table_inv sample" by (simp add: table_inv_def)
  from cellAdded_registers_subtree [OF sample_wf sample_tree this, of 1] show ?thesis
    by (auto simp: isAncestor_wf [OF sample_wf])
qed

text \<open>The loop that looks for a free identifier ends, whatever the table holds: it needs no more
  rounds than there are entries; and the identifier it leaves is free.\<close>

theorem free_identifier_found:
  assumes "0 \<le> nextId m"
  shows "\<exists>m'. id_loop (Suc (cells_size m)) c m = Some m' \<and> getCell (cell_getId c m') m' = None \<and>
    m_cells m' = m_cells m \<and> (\<forall>d. d \<noteq> c \<longrightarrow> cell_getId d m' = cell_getId d m)"
  using id_loop_ends [OF assms] id_loop_free by (metis not_None_eq)

theorem free_identifier_found_witness:
  "\<exists>m'. id_loop 3 1 (sample\<lparr>m_cells := Some [(''0'', 7), (''1'', 8)]\<rparr>) = Some m' \<and>
     getCell (cell_getId 1 m') m' = None"
  using free_identifier_found [of "sample\<lparr>m_cells := Some [(''0'', 7), (''1'', 8)]\<rparr>" 1]
  by (auto simp: cells_size_def numeral_3_eq_3)

end
