(* ===== verification/Cloning.thy ===== *)
theory Cloning
  imports ModelProps
begin

text \<open>
  Cloning and merging of cells, model/mxGraphModel.js.  A clone is made cell by cell from the top,
  the terminals follow once every cell has its clone.  The store grows; what is in it stays.
\<close>

subsection \<open>Cloning\<close>

text \<open>The mapping from originals to clones; the keys of the source are the identities of the cells.\<close>

type_synonym clone_map = "(cref \<times> cref) list"

definition cellCloned :: "cref \<Rightarrow> 'a heap_scheme \<Rightarrow> cref \<times> 'a heap_scheme" where
  "cellCloned cell m = cell_clone cell m"

fun cloneCellImpl ::
  "nat \<Rightarrow> bool \<Rightarrow> cref option \<Rightarrow> clone_map \<times> 'a heap_scheme \<Rightarrow> (cref \<times> clone_map \<times> 'a heap_scheme) option"
where
  "cloneCellImpl n includeChildren None s = None"
| "cloneCellImpl n includeChildren (Some cell) (mapping, m) =
     (case map_of mapping cell of
        Some clone \<Rightarrow> Some (clone, mapping, m)
      | None \<Rightarrow>
          (case n of
             0 \<Rightarrow> None
           | Suc k \<Rightarrow>
               (let (clone, m) = cellCloned cell m;
                    mapping = (cell, clone) # mapping
                in map_option (Pair clone)
                  (for_each
                    (\<lambda>i (mapping, m).
                       map_option (\<lambda>(cloneChild, mapping, m).
                           (mapping, cell_insert clone (Some cloneChild) None m))
                         (cloneCellImpl k True (getChildAt (Some cell) i m) (mapping, m)))
                    (if includeChildren then upto_count (getChildCount (Some cell) m) else [])
                    (mapping, m)))))"

declare cloneCellImpl.simps(2) [simp del]

definition restore_terminal :: "cref \<Rightarrow> cref \<Rightarrow> bool \<Rightarrow> clone_map \<Rightarrow> 'a heap_scheme \<Rightarrow> 'a heap_scheme" where
  "restore_terminal clone cell isSource mapping m =
     (case getTerminal (Some cell) isSource m of
        None \<Rightarrow> m
      | Some t \<Rightarrow>
          (case map_of mapping t of None \<Rightarrow> m | Some tmp \<Rightarrow> cell_insertEdge tmp (Some clone) isSource m))"

fun restoreClone ::
  "nat \<Rightarrow> cref option \<Rightarrow> cref option \<Rightarrow> clone_map \<Rightarrow> 'a heap_scheme \<Rightarrow> 'a heap_scheme option"
where
  "restoreClone 0 clone cell mapping m = None"
| "restoreClone (Suc n) (Some clone) (Some cell) mapping m =
     (let m = restore_terminal clone cell True mapping m;
          m = restore_terminal clone cell False mapping m
      in for_each (\<lambda>i m. restoreClone n (getChildAt (Some clone) i m) (getChildAt (Some cell) i m) mapping m)
           (upto_count (getChildCount (Some clone) m)) m)"
| "restoreClone (Suc n) (Some clone) None mapping m =
     for_each (\<lambda>i m. restoreClone n (getChildAt (Some clone) i m) None mapping m)
       (upto_count (getChildCount (Some clone) m)) m"
| "restoreClone (Suc n) None cell mapping m = Some m"

text \<open>Both loops of \<open>cloneCells\<close>; the fuel exceeds the depth of the tree by what is cloned.\<close>

fun clone_each ::
  "nat \<Rightarrow> bool \<Rightarrow> cref option list \<Rightarrow> clone_map \<times> 'a heap_scheme \<Rightarrow>
   (cref option list \<times> clone_map \<times> 'a heap_scheme) option"
where
  "clone_each n includeChildren [] s = Some ([], s)"
| "clone_each n includeChildren (None # cells) s =
     map_option (\<lambda>(clones, s). (None # clones, s)) (clone_each n includeChildren cells s)"
| "clone_each n includeChildren (Some cell # cells) s =
     Option.bind (cloneCellImpl n includeChildren (Some cell) s) (\<lambda>(clone, s).
       map_option (\<lambda>(clones, s). (Some clone # clones, s)) (clone_each n includeChildren cells s))"

definition cloneCells ::
  "cref option list \<Rightarrow> bool \<Rightarrow> clone_map option \<Rightarrow> 'a heap_scheme \<Rightarrow>
   (cref option list \<times> clone_map \<times> 'a heap_scheme) option"
where
  "cloneCells cells includeChildren mapping m =
     (let mapping = (case mapping of None \<Rightarrow> [] | Some mp \<Rightarrow> mp)
      in Option.bind (clone_each (walk_fuel m) includeChildren cells (mapping, m))
           (\<lambda>(clones, mapping, m).
              map_option (\<lambda>m. (clones, mapping, m))
                (for_each
                  (\<lambda>(clone, cell) m. if clone \<noteq> None then restoreClone (walk_fuel m) clone cell mapping m else Some m)
                  (zip clones cells) m)))"

definition cloneCell :: "cref option \<Rightarrow> 'a heap_scheme \<Rightarrow> (cref option \<times> 'a heap_scheme) option" where
  "cloneCell cell m =
     (if cell \<noteq> None
      then map_option (\<lambda>(clones, mapping, m). (hd clones, m)) (cloneCells [cell] True None m)
      else Some (None, m))"


subsection \<open>Merging\<close>

text \<open>
  The mapping of a merge is an object with cell paths as its keys.  A \<open>for\<close>-\<open>in\<close> loop visits the
  keys that are array indices first, in ascending order, and then the others as they were added.
\<close>

definition index_key :: "string \<Rightarrow> nat option" where
  "index_key s =
     (case js_parseInt s of
        None \<Rightarrow> None
      | Some i \<Rightarrow> (if i \<ge> 0 \<and> nat_string (nat i) = s \<and> i < 2 ^ 32 - 1 then Some (nat i) else None))"

definition js_keys :: "'v jsobj \<Rightarrow> string list" where
  "js_keys m =
     sort_key (the \<circ> index_key) (filter (\<lambda>k. index_key k \<noteq> None) (map fst m)) @
     filter (\<lambda>k. index_key k = None) (map fst m)"

definition merge_target ::
  "cref \<Rightarrow> cref \<Rightarrow> bool \<Rightarrow> mxGraphModel \<Rightarrow> (cref \<times> mxGraphModel) option" where
  "merge_target cell dst cloneAllEdges m =
     (let i = cell_getId cell m;
          target = (if i \<noteq> None \<and> (\<not> isEdge (Some cell) m \<or> \<not> cloneAllEdges) then getCell i m else None)
      in case target of
           Some t \<Rightarrow> Some (t, m)
         | None \<Rightarrow>
             (let (clone, m) = cell_clone cell m;
                  m = cell_setId clone i m;
                  m = cell_setTerminal clone (cell_getTerminal cell True m) True m;
                  m = cell_setTerminal clone (cell_getTerminal cell False m) False m;
                  m = cell_insert dst (Some clone) None m
              in map_option (Pair clone) (cellAdded (Some clone) m)))"

fun mergeChildrenImpl ::
  "nat \<Rightarrow> cref \<Rightarrow> cref \<Rightarrow> bool \<Rightarrow> cref jsobj \<times> mxGraphModel \<Rightarrow> (cref jsobj \<times> mxGraphModel) option" where
  "mergeChildrenImpl 0 src dst cloneAllEdges s = None"
| "mergeChildrenImpl (Suc n) src dst cloneAllEdges (mapping, m) =
     map_option (\<lambda>(mapping, m). (mapping, endUpdate m))
       (for_each
         (\<lambda>i (mapping, m).
            case cell_getChildAt src i m of
              None \<Rightarrow> None
            | Some cell \<Rightarrow>
                Option.bind (merge_target cell dst cloneAllEdges m) (\<lambda>(target, m).
                Option.bind (path_create (Some cell) m) (\<lambda>path.
                  mergeChildrenImpl n cell target cloneAllEdges (AList.update path target mapping, m))))
         (upto_count (cell_getChildCount src m)) (mapping, beginUpdate m))"

definition merge_terminal :: "cref jsobj \<Rightarrow> cref \<Rightarrow> bool \<Rightarrow> mxGraphModel \<Rightarrow> mxGraphModel option" where
  "merge_terminal mapping cell isSource m =
     (case cell_getTerminal cell isSource m of
        None \<Rightarrow> Some m
      | Some t \<Rightarrow>
          Option.bind (path_create (Some t) m) (\<lambda>path.
            setTerminal (Some cell) (map_of mapping path) isSource m))"

definition mergeChildren :: "cref \<Rightarrow> cref \<Rightarrow> bool option \<Rightarrow> mxGraphModel \<Rightarrow> mxGraphModel option" where
  "mergeChildren src dst cloneAllEdges m =
     map_option endUpdate
       (Option.bind
         (mergeChildrenImpl (walk_fuel m) src dst (case cloneAllEdges of None \<Rightarrow> True | Some b \<Rightarrow> b)
           ([], beginUpdate m))
         (\<lambda>(mapping, m).
            for_each
              (\<lambda>key m. case map_of mapping key of
                 None \<Rightarrow> Some m
               | Some cell \<Rightarrow>
                   Option.bind (merge_terminal mapping cell True m) (merge_terminal mapping cell False))
              (js_keys mapping) m))"

subsection \<open>What a clone is\<close>

text \<open>Cloning only allocates: what was there stays as it was.\<close>

definition extends :: "'a heap_scheme \<Rightarrow> 'a heap_scheme \<Rightarrow> bool" where
  "extends h h' \<longleftrightarrow>
     ncells h \<le> ncells h' \<and> ngeos h \<le> ngeos h' \<and> nnodes h \<le> nnodes h' \<and>
     (\<forall>c < ncells h. cell_at h' c = cell_at h c) \<and> (\<forall>g < ngeos h. geo_at h' g = geo_at h g) \<and>
     (\<forall>n < nnodes h. node_at h' n = node_at h n)"

lemma extends_refl [simp]: "extends h h"
  by (simp add: extends_def)

lemma extends_trans: "extends h h' \<Longrightarrow> extends h' h'' \<Longrightarrow> extends h h''"
  by (auto simp: extends_def)

lemma extends_upd: "extends h h' \<Longrightarrow> c \<ge> ncells h \<Longrightarrow> extends h (upd c f h')"
  by (auto simp: extends_def)

text \<open>The geometries and nodes cells refer to are allocated.\<close>

definition refs_ok :: "'a heap_scheme \<Rightarrow> bool" where
  "refs_ok h \<longleftrightarrow>
     (\<forall>c g. c_geometry (cell_at h c) = Some g \<longrightarrow> g < ngeos h) \<and>
     (\<forall>c n. c_value (cell_at h c) = Some (VNode n) \<longrightarrow> n < nnodes h)"

definition geometry_copied :: "'a heap_scheme \<Rightarrow> 'a heap_scheme \<Rightarrow> nat \<Rightarrow> nat \<Rightarrow> bool" where
  "geometry_copied h h' g g' \<longleftrightarrow> ngeos h \<le> g' \<and> g' < ngeos h' \<and> geo_at h' g' = geo_at h g"

fun value_copied :: "'a heap_scheme \<Rightarrow> 'a heap_scheme \<Rightarrow> user_value option \<Rightarrow> user_value option \<Rightarrow> bool" where
  "value_copied h h' (Some (VNode n)) v =
     (\<exists>n'. v = Some (VNode n') \<and> nnodes h \<le> n' \<and> n' < nnodes h' \<and> node_at h' n' = node_at h n)"
| "value_copied h h' u v = (v = u)"

definition copy_fields :: "'a heap_scheme \<Rightarrow> cref \<Rightarrow> 'a heap_scheme \<Rightarrow> cref \<Rightarrow> bool" where
  "copy_fields h d h' k \<longleftrightarrow>
     (let x = cell_at h d; y = cell_at h' k in
        c_id y = None \<and> c_style y = c_style x \<and> c_vertex y = c_vertex x \<and> c_edge y = c_edge x \<and>
        c_connectable y = c_connectable x \<and> c_visible y = c_visible x \<and> c_collapsed y = c_collapsed x \<and>
        value_copied h h' (c_value x) (c_value y) \<and>
        rel_option (geometry_copied h h') (c_geometry x) (c_geometry y))"

text \<open>A cell and its clone: the children correspond in their order, and so do the parents.\<close>

definition below_copied :: "'a heap_scheme \<Rightarrow> (cref \<times> cref) set \<Rightarrow> 'a heap_scheme \<Rightarrow> cref \<Rightarrow> cref \<Rightarrow> bool" where
  "below_copied h R h' d k \<longleftrightarrow> copy_fields h d h' k \<and>
     list_all2 (\<lambda>d k. (d, k) \<in> R) (children_of h d) (children_of h' k) \<and>
     c_source (cell_at h' k) = None \<and> c_target (cell_at h' k) = None \<and> c_edges (cell_at h' k) = None"

definition node_copied :: "'a heap_scheme \<Rightarrow> (cref \<times> cref) set \<Rightarrow> 'a heap_scheme \<Rightarrow> cref \<Rightarrow> cref \<Rightarrow> bool" where
  "node_copied h R h' d k \<longleftrightarrow> below_copied h R h' d k \<and>
     rel_option (\<lambda>p q. (p, q) \<in> R) (c_parent (cell_at h d)) (c_parent (cell_at h' k))"

lemma value_copied_extends:
  "extends h' h'' \<Longrightarrow> value_copied h h' u v \<Longrightarrow> value_copied h h'' u v"
  by (induction h h' u v rule: value_copied.induct) (auto simp: extends_def)

lemma geometry_copied_extends:
  "extends h' h'' \<Longrightarrow> geometry_copied h h' g g' \<Longrightarrow> geometry_copied h h'' g g'"
  by (auto simp: geometry_copied_def extends_def)

lemma copy_fields_extends:
  assumes "extends h' h''" and "copy_fields h d h' k"
    and "cell_at h'' k = (cell_at h' k)\<lparr>c_parent := p, c_children := cs\<rparr>"
  shows "copy_fields h d h'' k"
  using assms value_copied_extends [OF assms(1)]
    option.rel_mono_strong [OF _ geometry_copied_extends [OF assms(1)]]
  by (auto simp: copy_fields_def Let_def)

lemma node_copied_extends:
  assumes "extends h' h''" and "k < ncells h'" and "R \<subseteq> R'"
  shows "below_copied h R h' d k \<Longrightarrow> below_copied h R' h'' d k"
    and "node_copied h R h' d k \<Longrightarrow> node_copied h R' h'' d k"
proof -
  have same: "cell_at h'' k = cell_at h' k" using assms(1,2) by (simp add: extends_def)
  then have ch: "children_of h'' k = children_of h' k" by (simp add: children_of_def)
  have f: "copy_fields h d h' k \<Longrightarrow> copy_fields h d h'' k"
    using copy_fields_extends [OF assms(1), where h = h and d = d and k = k and
        p = "c_parent (cell_at h' k)" and cs = "c_children (cell_at h' k)"] same
    by simp
  show below: "below_copied h R' h'' d k" if "below_copied h R h' d k"
    using that f ch same assms(3)
    by (auto simp: below_copied_def intro: list_all2_mono)
  show "node_copied h R' h'' d k" if "node_copied h R h' d k"
  proof -
    have "rel_option (\<lambda>p q. (p, q) \<in> R') (c_parent (cell_at h d)) (c_parent (cell_at h'' k))"
      using that same assms(3) by (auto simp: node_copied_def intro: option.rel_mono_strong)
    with that below show ?thesis by (simp add: node_copied_def)
  qed
qed

lemma cell_clone_spec:
  assumes "extends h0 h" and "refs_ok h0" and "c < ncells h0"
  obtains h' where "cell_clone c h = (ncells h, h')" "extends h h'" "ncells h' = Suc (ncells h)"
    "copy_fields h0 c h' (ncells h)" "c_parent (cell_at h' (ncells h)) = None"
    "children_of h' (ncells h) = []" "c_source (cell_at h' (ncells h)) = None"
    "c_target (cell_at h' (ncells h)) = None" "c_edges (cell_at h' (ncells h)) = None"
proof -
  define h' where "h' = snd (cell_clone c h)"
  have c: "cell_at h c = cell_at h0 c" "c \<noteq> ncells h" using assms(1,3) by (auto simp: extends_def)
  have geo: "\<And>g. c_geometry (cell_at h0 c) = Some g \<Longrightarrow> g < ngeos h \<and> geo_at h g = geo_at h0 g"
    and node: "\<And>n. c_value (cell_at h0 c) = Some (VNode n) \<Longrightarrow> n < nnodes h \<and> node_at h n = node_at h0 n"
    using assms(1,2) by (fastforce simp: extends_def refs_ok_def)+
  note defs = cell_clone_def clone_geometry_def cell_cloneValue_def alloc_geo_def alloc_node_def
    alloc_cell_def cell_setValue_def cell_getValue_def
  show ?thesis
  proof (rule that [of h'])
    show "cell_clone c h = (ncells h, h')"
      unfolding h'_def
      by (cases "c_geometry (cell_at h c)"; cases "c_value (cell_at h c)")
        (auto simp: defs Let_def split_beta split: user_value.split)
    have *: "extends h h' \<and> ncells h' = Suc (ncells h) \<and> copy_fields h0 c h' (ncells h) \<and>
        c_parent (cell_at h' (ncells h)) = None \<and> c_children (cell_at h' (ncells h)) = None \<and>
        c_source (cell_at h' (ncells h)) = None \<and> c_target (cell_at h' (ncells h)) = None \<and>
        c_edges (cell_at h' (ncells h)) = None"
      using c geo node assms(1) unfolding h'_def
      by (cases "c_geometry (cell_at h0 c)"; cases "c_value (cell_at h0 c)")
        (auto simp: defs Let_def extends_def copy_fields_def geometry_copied_def blank_cell_def split: user_value.split)
    then show "extends h h'" "ncells h' = Suc (ncells h)" "copy_fields h0 c h' (ncells h)"
      "c_parent (cell_at h' (ncells h)) = None" "c_source (cell_at h' (ncells h)) = None"
      "c_target (cell_at h' (ncells h)) = None" "c_edges (cell_at h' (ncells h)) = None"
      "children_of h' (ncells h) = []"
      by (simp_all add: children_of_def)
  qed
qed

lemma insert_orphan:
  assumes "c_parent (cell_at h c) = None" and "c \<noteq> p"
  shows "cell_insert p (Some c) None h =
    upd p (c_children_update (\<lambda>cs. Some (entries cs @ [c]))) (cell_setParent c (Some p) h)"
proof -
  have "cell_removeFromParent c h = h" using assms(1) by (simp add: cell_removeFromParent_def cell_getParent_def)
  moreover have "cell_getChildCount p h = int (length (entries (c_children (cell_at h p))))"
    by (simp add: cell_getChildCount_def split: option.splits)
  ultimately show ?thesis using assms
    by (auto simp: cell_insert_def Let_def cell_getParent_def upd_def cell_setParent_def js_insert_at_def
        js_splice_pos_def fun_eq_iff entries_def split: option.splits)
qed


subsection \<open>The clone of a tree\<close>

definition fresh_pairs :: "nat \<Rightarrow> nat \<Rightarrow> cref set \<Rightarrow> clone_map \<Rightarrow> bool" where
  "fresh_pairs a b D mp \<longleftrightarrow>
     fst ` set mp = D \<and> distinct (map fst mp) \<and> distinct (map snd mp) \<and> (\<forall>(d, k) \<in> set mp. a \<le> k \<and> k < b)"

lemma fresh_pairs_append:
  assumes "fresh_pairs a b D mp" "fresh_pairs b c E mp'" "D \<inter> E = {}" "a \<le> b" "b \<le> c"
  shows "fresh_pairs a c (D \<union> E) (mp' @ mp)"
proof -
  have "set (map snd mp') \<inter> set (map snd mp) = {}"
  proof -
    have "k \<in> set (map snd mp') \<Longrightarrow> b \<le> k" "k \<in> set (map snd mp) \<Longrightarrow> k < b" for k
      using assms(1,2) by (auto simp: fresh_pairs_def)
    then show ?thesis by fastforce
  qed
  then show ?thesis using assms by (auto simp: fresh_pairs_def)
qed

lemma fresh_pairsD:
  assumes "fresh_pairs a b D mp" and "(d, k) \<in> set mp"
  shows "d \<in> D" "a \<le> k" "k < b" "(d, k') \<in> set mp \<Longrightarrow> k' = k" "(d', k) \<in> set mp \<Longrightarrow> d' = d"
proof -
  show "d \<in> D" "a \<le> k" "k < b" using assms by (force simp: fresh_pairs_def)+
  show "k' = k" if "(d, k') \<in> set mp"
    using assms that eq_key_imp_eq_value [of mp d k k'] by (simp add: fresh_pairs_def)
  show "d' = d" if "(d', k) \<in> set mp"
  proof -
    have "inj_on snd (set mp)" using assms(1) by (simp add: fresh_pairs_def distinct_map)
    from inj_onD [OF this, of "(d', k)" "(d, k)"] assms(2) that show ?thesis by simp
  qed
qed

text \<open>What one call of \<open>cloneCellImpl\<close> for a cell that has not been cloned adds.\<close>

definition cloned :: "'a heap_scheme \<Rightarrow> cref \<Rightarrow> clone_map \<Rightarrow> 'a heap_scheme \<Rightarrow> clone_map \<Rightarrow> 'a heap_scheme \<Rightarrow> bool" where
  "cloned h0 c mp h mp' h' \<longleftrightarrow>
     (\<exists>new. mp' = new @ mp \<and> extends h h' \<and>
        fresh_pairs (ncells h) (ncells h') {d. c \<in> set (ancestors h0 d)} new \<and>
        (c, ncells h) \<in> set new \<and>
        below_copied h0 (set new) h' c (ncells h) \<and> c_parent (cell_at h' (ncells h)) = None \<and>
        (\<forall>(d, k) \<in> set new. d \<noteq> c \<longrightarrow> node_copied h0 (set new) h' d k))"

text \<open>And the loop over the first children.\<close>

definition cloning :: "'a heap_scheme \<Rightarrow> cref \<Rightarrow> clone_map \<Rightarrow> 'a heap_scheme \<Rightarrow> nat \<Rightarrow> clone_map \<Rightarrow> 'a heap_scheme \<Rightarrow> bool" where
  "cloning h0 c mp h j mp' h' \<longleftrightarrow>
     (\<exists>new. mp' = new @ (c, ncells h) # mp \<and> extends h h' \<and> ncells h < ncells h' \<and>
        fresh_pairs (Suc (ncells h)) (ncells h')
          (\<Union>e \<in> set (take j (children_of h0 c)). {d. e \<in> set (ancestors h0 d)}) new \<and>
        copy_fields h0 c h' (ncells h) \<and> c_parent (cell_at h' (ncells h)) = None \<and>
        c_source (cell_at h' (ncells h)) = None \<and> c_target (cell_at h' (ncells h)) = None \<and>
        c_edges (cell_at h' (ncells h)) = None \<and>
        list_all2 (\<lambda>d k. (d, k) \<in> set new) (take j (children_of h0 c)) (children_of h' (ncells h)) \<and>
        (\<forall>(d, k) \<in> set new. node_copied h0 (insert (c, ncells h) (set new)) h' d k))"

lemma for_each_upto:
  assumes "\<And>i s. i < n \<Longrightarrow> P i s \<Longrightarrow> \<exists>s'. f (int i) s = Some s' \<and> P (Suc i) s'" and "P 0 s"
  shows "\<exists>s'. for_each f (upto_count (int n)) s = Some s' \<and> P n s'"
proof -
  have "\<exists>s'. for_each f (map int [i..<n]) t = Some s' \<and> P n s'" if "i \<le> n" "P i t" for i t
    using that
  proof (induction "n - i" arbitrary: i t)
    case (Suc k)
    then have "i < n" by simp
    with assms(1) Suc.prems obtain t' where t': "f (int i) t = Some t'" "P (Suc i) t'" by blast
    from Suc.hyps(1) [of "Suc i" t'] Suc.hyps(2) \<open>i < n\<close> t' show ?case
      by (simp add: upt_rec [of i n])
  qed simp
  from this [of 0 s] assms(2) show ?thesis by (simp add: upto_count_def)
qed

lemma cloning_step:
  assumes wf: "heap_wf h0" "tree_inv h0" and c: "c < ncells h0" and e: "extends h0 h"
    and l: "cloning h0 c mp h j mp1 h1" and j: "j < length (children_of h0 c)"
    and cl: "cloned h0 (children_of h0 c ! j) mp1 h1 mp2 h2"
  shows "cloning h0 c mp h (Suc j) mp2 (cell_insert (ncells h) (Some (ncells h1)) None h2)"
proof -
  let ?k = "ncells h" and ?x = "children_of h0 c ! j" and ?kx = "ncells h1"
  let ?h = "cell_insert ?k (Some ?kx) None h2"
  obtain new1 where n1: "mp1 = new1 @ (c, ?k) # mp" "extends h h1" "?k < ncells h1"
    "fresh_pairs (Suc ?k) (ncells h1) (\<Union>e \<in> set (take j (children_of h0 c)). {d. e \<in> set (ancestors h0 d)}) new1"
    "copy_fields h0 c h1 ?k" "c_parent (cell_at h1 ?k) = None" "c_source (cell_at h1 ?k) = None"
    "c_target (cell_at h1 ?k) = None" "c_edges (cell_at h1 ?k) = None"
    "list_all2 (\<lambda>d k. (d, k) \<in> set new1) (take j (children_of h0 c)) (children_of h1 ?k)"
    "\<And>d k. (d, k) \<in> set new1 \<Longrightarrow> node_copied h0 (insert (c, ?k) (set new1)) h1 d k"
    using l unfolding cloning_def by blast
  obtain new2 where n2: "mp2 = new2 @ mp1" "extends h1 h2"
    "fresh_pairs ?kx (ncells h2) {d. ?x \<in> set (ancestors h0 d)} new2" "(?x, ?kx) \<in> set new2"
    "below_copied h0 (set new2) h2 ?x ?kx" "c_parent (cell_at h2 ?kx) = None"
    "\<And>d k. (d, k) \<in> set new2 \<Longrightarrow> d \<noteq> ?x \<Longrightarrow> node_copied h0 (set new2) h2 d k"
    using cl unfolding cloned_def by blast
  have kx: "?kx < ncells h2" using n2(3,4) by (auto simp: fresh_pairs_def)
  have kk: "?kx \<noteq> ?k" using n1(3) by simp
  have h: "?h = upd ?k (c_children_update (\<lambda>cs. Some (entries cs @ [?kx]))) (cell_setParent ?kx (Some ?k) h2)"
    using n2(6) kk by (rule insert_orphan)
  let ?R = "insert (c, ?k) (set (new2 @ new1))"
  have px: "c_parent (cell_at h0 ?x) = Some c" using tree_invD(2) [OF wf(2), of ?x c] j nth_mem by blast
  have hext: "extends h ?h"
    unfolding h using extends_trans [OF n1(2) n2(2)] n1(3) by (simp add: cell_setParent_def extends_upd)
  have same: "cell_at ?h x = cell_at h2 x" if "x \<noteq> ?k" "x \<noteq> ?kx" for x
    using that unfolding h by (simp add: cell_setParent_def)
  have at_k: "cell_at ?h ?k = (cell_at h1 ?k)\<lparr>c_parent := None, c_children := Some (children_of h1 ?k @ [?kx])\<rparr>"
    using kk n1(3,6) n2(2) unfolding h by (simp add: cell_setParent_def extends_def children_of_def)
  have at_kx: "cell_at ?h ?kx = (cell_at h2 ?kx)\<lparr>c_parent := Some ?k\<rparr>"
    using kk unfolding h by (simp add: cell_setParent_def)
  have rest: "ncells ?h = ncells h2" "ngeos ?h = ngeos h2" "geo_at ?h = geo_at h2" "nnodes ?h = nnodes h2"
    "node_at ?h = node_at h2" unfolding h by (simp_all add: cell_setParent_def)
  have fields: "value_copied h0 ?h = value_copied h0 h2" "geometry_copied h0 ?h = geometry_copied h0 h2"
  proof -
    have "value_copied h0 ?h u v = value_copied h0 h2 u v" for u v
      by (cases "(h0, h2, u, v)" rule: value_copied.cases) (simp_all add: rest)
    then show "value_copied h0 ?h = value_copied h0 h2" by blast
  qed (simp add: geometry_copied_def fun_eq_iff rest)
  have old: "node_copied h0 ?R ?h d k" if "(d, k) \<in> set new1" for d k
  proof -
    have k: "Suc ?k \<le> k" "k < ncells h1" using n1(4) that by (auto simp: fresh_pairs_def)
    have "node_copied h0 ?R h2 d k" 
      using node_copied_extends(2) [OF n2(2) k(2) _ n1(11) [OF that], of ?R] by auto
    then show ?thesis using same [of k] k
      by (simp add: node_copied_def below_copied_def copy_fields_def children_of_def fields Let_def)
  qed
  have new: "node_copied h0 ?R ?h d k" if dk: "(d, k) \<in> set new2" for d k
  proof (cases "d = ?x")
    case False
    have k: "?kx \<le> k" "k \<noteq> ?kx"
      using fresh_pairsD(2,5) [OF n2(3)] n2(4) dk False by blast+
    have "node_copied h0 ?R h2 d k"
      using node_copied_extends(2) [OF extends_refl _ _ n2(7) [OF dk False], of ?R] n2(3) dk
      by (auto simp: fresh_pairs_def)
    then show ?thesis using same [of k] k n1(3)
      by (simp add: node_copied_def below_copied_def copy_fields_def children_of_def fields Let_def)
  next
    case True
    have "k = ?kx" using fresh_pairsD(4) [OF n2(3)] n2(4) dk True by blast
    moreover have "below_copied h0 ?R h2 ?x ?kx"
      using node_copied_extends(1) [OF extends_refl kx _ n2(5), of ?R] by auto
    ultimately show ?thesis using True at_kx px
      by (simp add: node_copied_def below_copied_def copy_fields_def children_of_def fields Let_def)
  qed
  have disj: "(\<Union>e \<in> set (take j (children_of h0 c)). {d. e \<in> set (ancestors h0 d)}) \<inter> {d. ?x \<in> set (ancestors h0 d)} = {}"
  proof -
    have "e = ?x" if "e \<in> set (take j (children_of h0 c))" "e \<in> set (ancestors h0 d)" "?x \<in> set (ancestors h0 d)" for e d
      using siblings_disjoint [OF wf, of e c ?x d] that j nth_mem [OF j] by (auto dest: in_set_takeD)
    moreover have "?x \<notin> set (take j (children_of h0 c))"
      using j tree_invD(1) [OF wf(2), of c] by (auto simp: in_set_conv_nth nth_eq_iff_index_eq)
    ultimately show ?thesis by blast
  qed
  have fp: "fresh_pairs (Suc ?k) (ncells ?h)
      (\<Union>e \<in> set (take (Suc j) (children_of h0 c)). {d. e \<in> set (ancestors h0 d)}) (new2 @ new1)"
    using fresh_pairs_append [OF n1(4) n2(3) disj] n1(3) n2(2) j
    by (simp add: rest take_Suc_conv_app_nth Un_commute extends_def)
  have ch: "list_all2 (\<lambda>d k. (d, k) \<in> set (new2 @ new1)) (take (Suc j) (children_of h0 c)) (children_of ?h ?k)"
  proof -
    have "list_all2 (\<lambda>d k. (d, k) \<in> set (new2 @ new1)) (take j (children_of h0 c)) (children_of h1 ?k)"
      using n1(10) by (rule list_all2_mono) simp
    then show ?thesis using at_k n2(4) j
      by (simp add: children_of_def take_Suc_conv_app_nth list_all2_appendI)
  qed
  have cf: "copy_fields h0 c ?h ?k"
  proof -
    have "extends h1 h2" by (rule n2(2))
    then have "value_copied h0 h2 u v" if "value_copied h0 h1 u v" for u v
      using that value_copied_extends by blast
    moreover have "geometry_copied h0 h2 g g'" if "geometry_copied h0 h1 g g'" for g g'
      using that n2(2) geometry_copied_extends by blast
    ultimately show ?thesis
      using n1(5) option.rel_mono_strong [of "geometry_copied h0 h1" _ _ "geometry_copied h0 h2"]
      by (auto simp: copy_fields_def Let_def at_k fields)
  qed
  show ?thesis
    unfolding cloning_def
    using n1(1,3,7-9) n2(1,2) hext fp cf ch old new at_k
    by (intro exI [of _ "new2 @ new1"]) (auto simp: rest extends_def)
qed


lemma cloneCellImpl_spec:
  assumes wf: "heap_wf h0" "tree_inv h0" "refs_ok h0"
  shows "n + length (ancestors h0 c) \<ge> ncells h0 + 2 \<Longrightarrow> c < ncells h0 \<Longrightarrow> extends h0 h \<Longrightarrow>
    (\<And>d. c \<in> set (ancestors h0 d) \<Longrightarrow> map_of mp d = None) \<Longrightarrow>
    \<exists>mp' h'. cloneCellImpl n True (Some c) (mp, h) = Some (ncells h, mp', h') \<and> cloned h0 c mp h mp' h'"
proof (induction n arbitrary: c mp h)
  case 0
  with ancestors_length [OF wf(1), of c] show ?case by (simp add: walk_fuel_def)
next
  case (Suc n)
  let ?k = "ncells h" and ?chs = "children_of h0 c"
  obtain h1 where h1: "cell_clone c h = (?k, h1)" "extends h h1" "ncells h1 = Suc ?k"
    "copy_fields h0 c h1 ?k" "c_parent (cell_at h1 ?k) = None" "children_of h1 ?k = []"
    "c_source (cell_at h1 ?k) = None" "c_target (cell_at h1 ?k) = None" "c_edges (cell_at h1 ?k) = None"
    using Suc.prems(3) wf(3) Suc.prems(2) by (rule cell_clone_spec)
  have chs: "children_of h' c = ?chs" if "extends h h'" for h'
    using extends_trans [OF Suc.prems(3) that] Suc.prems(2) by (simp add: children_of_def extends_def)
  let ?f = "\<lambda>i (mapping, m). map_option (\<lambda>(cloneChild, mapping, m). (mapping, cell_insert ?k (Some cloneChild) None m))
      (cloneCellImpl n True (getChildAt (Some c) i m) (mapping, m))"
  let ?P = "\<lambda>j (mp', h'). cloning h0 c mp h j mp' h'"
  have "\<exists>s'. for_each ?f (upto_count (int (length ?chs))) ((c, ?k) # mp, h1) = Some s' \<and> ?P (length ?chs) s'"
  proof (rule for_each_upto)
    show "?P 0 ((c, ?k) # mp, h1)"
      using h1 by (simp add: cloning_def fresh_pairs_def)
    fix j s
    assume j: "j < length ?chs" and "?P j s"
    then obtain mp1 h2 where s: "s = (mp1, h2)" and l: "cloning h0 c mp h j mp1 h2" by (cases s) simp
    let ?x = "?chs ! j"
    have ext: "extends h h2" and fp: "\<exists>new. mp1 = new @ (c, ?k) # mp \<and>
        fst ` set new = (\<Union>e \<in> set (take j ?chs). {d. e \<in> set (ancestors h0 d)})"
      using l by (auto simp: cloning_def fresh_pairs_def)
    have p: "cell_getParent ?x h0 = Some c" using children_getParent [OF wf(2)] j nth_mem by blast
    then have anc: "ancestors h0 ?x = ?x # ancestors h0 c" by (simp add: ancestors_parent [OF wf(1), of ?x])
    have none: "map_of mp1 d = None" if d: "?x \<in> set (ancestors h0 d)" for d
    proof -
      have "e = ?x" if "e \<in> set (take j ?chs)" "e \<in> set (ancestors h0 d)" for e
        using siblings_disjoint [OF wf(1,2), of e c ?x d] that d j nth_mem [OF j] by (auto dest: in_set_takeD)
      moreover have "?x \<notin> set (take j ?chs)"
        using j tree_invD(1) [OF wf(2), of c] by (auto simp: in_set_conv_nth nth_eq_iff_index_eq)
      ultimately have 1: "d \<notin> (\<Union>e \<in> set (take j ?chs). {d. e \<in> set (ancestors h0 d)})" by blast
      have "c \<in> set (ancestors h0 ?x)" using anc wf(1) by simp
      then have 2: "c \<in> set (ancestors h0 d)" using ancestors_trans [OF wf(1)] d by blast
      have 3: "d \<noteq> c" using not_above_parent [OF wf(1) p] d by blast
      obtain new where new: "mp1 = new @ (c, ?k) # mp"
        "fst ` set new = (\<Union>e \<in> set (take j ?chs). {d. e \<in> set (ancestors h0 d)})" using fp by blast
      have "d \<notin> fst ` set new" using 1 unfolding new(2) .
      moreover have "d \<notin> fst ` set mp" using Suc.prems(4) [OF 2] by (simp add: map_of_eq_None_iff)
      ultimately have "d \<notin> fst ` set mp1" using 3 new(1) by (simp add: image_Un)
      then show ?thesis by (simp add: map_of_eq_None_iff)
    qed
    have x: "?x < ncells h0" using heap_wf_parent [OF wf(1) p] by simp
    have fuel: "n + length (ancestors h0 ?x) \<ge> ncells h0 + 2" using Suc.prems(1) anc by simp
    from Suc.IH [OF fuel x extends_trans [OF Suc.prems(3) ext] none] obtain mp2 h3 where
      r: "cloneCellImpl n True (Some ?x) (mp1, h2) = Some (ncells h2, mp2, h3)" "cloned h0 ?x mp1 h2 mp2 h3"
      by blast
    have "getChildAt (Some c) (int j) h2 = Some ?x"
      using j chs [OF ext] by (simp add: getChildAt_def getChildAt_entries)
    with r(1) have "?f (int j) s = Some (mp2, cell_insert ?k (Some (ncells h2)) None h3)" by (simp add: s)
    moreover have "?P (Suc j) (mp2, cell_insert ?k (Some (ncells h2)) None h3)"
      using cloning_step [OF wf(1,2) Suc.prems(2,3) l j r(2)] by simp
    ultimately show "\<exists>s'. ?f (int j) s = Some s' \<and> ?P (Suc j) s'" by blast
  qed
  then obtain mp' h' where r: "for_each ?f (upto_count (int (length ?chs))) ((c, ?k) # mp, h1) = Some (mp', h')"
    and l: "cloning h0 c mp h (length ?chs) mp' h'" by auto
  have "getChildCount (Some c) h1 = int (length ?chs)"
    using chs [OF h1(2)] by (simp add: getChildCount_def getChildAt_entries)
  moreover have "map_of mp c = None" using Suc.prems(4) wf(1) by simp
  ultimately have "cloneCellImpl (Suc n) True (Some c) (mp, h) = Some (?k, mp', h')"
    using r h1(1) by (simp add: cloneCellImpl.simps(2) cellCloned_def)
  moreover have "cloned h0 c mp h mp' h'"
  proof -
    obtain new where n: "mp' = new @ (c, ?k) # mp" "extends h h'" "?k < ncells h'"
      "fresh_pairs (Suc ?k) (ncells h') (\<Union>e \<in> set ?chs. {d. e \<in> set (ancestors h0 d)}) new"
      "copy_fields h0 c h' ?k" "c_parent (cell_at h' ?k) = None" "c_source (cell_at h' ?k) = None"
      "c_target (cell_at h' ?k) = None" "c_edges (cell_at h' ?k) = None"
      "list_all2 (\<lambda>d k. (d, k) \<in> set new) ?chs (children_of h' ?k)"
      "\<forall>(d, k) \<in> set new. node_copied h0 (insert (c, ?k) (set new)) h' d k"
      using l unfolding cloning_def by auto
    have below: "{d. c \<in> set (ancestors h0 d)} = insert c (\<Union>e \<in> set ?chs. {d. e \<in> set (ancestors h0 d)})"
      using below_iff [OF wf(1,2), of c] by auto
    have notc: "c \<notin> (\<Union>e \<in> set ?chs. {d. e \<in> set (ancestors h0 d)})"
    proof
      assume "c \<in> (\<Union>e \<in> set ?chs. {d. e \<in> set (ancestors h0 d)})"
      then obtain e where "e \<in> set ?chs" "e \<in> set (ancestors h0 c)" by blast
      with not_above_parent [OF wf(1), of e c] children_getParent [OF wf(2)] show False by blast
    qed
    have fp: "fresh_pairs ?k (ncells h') {d. c \<in> set (ancestors h0 d)} (new @ [(c, ?k)])"
    proof -
      have "fresh_pairs ?k (Suc ?k) {c} [(c, ?k)]" by (simp add: fresh_pairs_def)
      from fresh_pairs_append [OF this n(4)] notc n(3) show ?thesis by (simp add: below)
    qed
    have "below_copied h0 (set (new @ [(c, ?k)])) h' c ?k"
      using n(5,7-9) list_all2_mono [OF n(10)] by (simp add: below_copied_def)
    then show ?thesis
      unfolding cloned_def using n(1,2,6,11) fp by (intro exI [of _ "new @ [(c, ?k)]"]) auto
  qed
  ultimately show ?case by blast
qed


subsection \<open>The terminals of the clones\<close>

definition unwired :: "mxCell \<Rightarrow> mxCell" where
  "unwired x = x\<lparr>c_source := None, c_target := None, c_edges := None\<rparr>"

definition same_but_wires :: "'a heap_scheme \<Rightarrow> 'a heap_scheme \<Rightarrow> bool" where
  "same_but_wires h h' \<longleftrightarrow> (\<forall>x. unwired (cell_at h' x) = unwired (cell_at h x)) \<and> ncells h' = ncells h \<and>
     ngeos h' = ngeos h \<and> geo_at h' = geo_at h \<and> nnodes h' = nnodes h \<and> node_at h' = node_at h"

lemma same_but_wiresD:
  assumes "same_but_wires h h'"
  shows "children_of h' x = children_of h x" "c_parent (cell_at h' x) = c_parent (cell_at h x)"
    "copy_fields h0 d h' x = copy_fields h0 d h x"
proof -
  have u: "unwired (cell_at h' x) = unwired (cell_at h x)" using assms by (simp add: same_but_wires_def)
  have sel: "c_children (unwired y) = c_children y" "c_parent (unwired y) = c_parent y"
    "c_id (unwired y) = c_id y" "c_style (unwired y) = c_style y" "c_vertex (unwired y) = c_vertex y"
    "c_edge (unwired y) = c_edge y" "c_connectable (unwired y) = c_connectable y"
    "c_visible (unwired y) = c_visible y" "c_collapsed (unwired y) = c_collapsed y"
    "c_value (unwired y) = c_value y" "c_geometry (unwired y) = c_geometry y" for y
    by (simp_all add: unwired_def)
  note eqs = sel [of "cell_at h' x", unfolded u, unfolded sel]
  show "children_of h' x = children_of h x" by (simp add: children_of_def eqs)
  show "c_parent (cell_at h' x) = c_parent (cell_at h x)" by (simp add: eqs)
  have v: "value_copied h0 h' a b = value_copied h0 h a b" for a b
    using assms by (cases "(h0, h, a, b)" rule: value_copied.cases) (simp_all add: same_but_wires_def)
  have g: "geometry_copied h0 h' = geometry_copied h0 h"
    using assms by (simp add: same_but_wires_def geometry_copied_def fun_eq_iff)
  show "copy_fields h0 d h' x = copy_fields h0 d h x" by (simp add: copy_fields_def eqs v g Let_def)
qed

lemma same_but_wires_trans: "same_but_wires h h' \<Longrightarrow> same_but_wires h' h'' \<Longrightarrow> same_but_wires h h''"
  by (simp add: same_but_wires_def)

lemma insertEdge_loose:
  assumes "cell_getTerminal e b h = None"
  shows "\<exists>es. cell_insertEdge t (Some e) b h = upd t (c_edges_update es) (cell_setTerminal e (Some t) b h)"
proof (cases "c_edges (cell_at (cell_setTerminal e (Some t) b h) t) = None
    \<or> cell_getTerminal e (\<not> b) (cell_setTerminal e (Some t) b h) \<noteq> Some t
    \<or> mx_indexOf (c_edges (cell_at (cell_setTerminal e (Some t) b h) t)) (Some e) < 0")
  case True
  with assms show ?thesis
    unfolding cell_insertEdge_def cell_removeFromTerminal_def Let_def option.case if_P [OF True]
    by (simp only: option.case if_True) blast
next
  case False
  have "upd t (c_edges_update (\<lambda>x. x)) (cell_setTerminal e (Some t) b h) = cell_setTerminal e (Some t) b h"
    by (rule upd_id) simp
  with assms False show ?thesis
    unfolding cell_insertEdge_def cell_removeFromTerminal_def Let_def
    by (simp only: option.case if_False) metis
qed

definition clone_terminal :: "'a heap_scheme \<Rightarrow> clone_map \<Rightarrow> bool \<Rightarrow> cref \<Rightarrow> cref option" where
  "clone_terminal h0 mp b d = Option.bind (cell_getTerminal d b h0) (map_of mp)"

lemma restore_terminal_spec:
  assumes "extends h0 h" "d < ncells h0" "k \<ge> ncells h0" "\<And>x y. (x, y) \<in> set mp \<Longrightarrow> y \<ge> ncells h0"
    and "cell_getTerminal k b h = None"
  shows "extends h0 (restore_terminal k d b mp h)" "same_but_wires h (restore_terminal k d b mp h)"
    and "cell_getTerminal x b' (restore_terminal k d b mp h) =
      (if x = k \<and> b' = b then clone_terminal h0 mp b d else cell_getTerminal x b' h)"
proof -
  have t: "cell_getTerminal d b h = cell_getTerminal d b h0"
    using assms(1,2) by (simp add: cell_getTerminal_def extends_def)
  have "extends h0 (restore_terminal k d b mp h) \<and> same_but_wires h (restore_terminal k d b mp h) \<and>
    cell_getTerminal x b' (restore_terminal k d b mp h) =
      (if x = k \<and> b' = b then clone_terminal h0 mp b d else cell_getTerminal x b' h)"
  proof (cases "clone_terminal h0 mp b d")
    case None
    then have "restore_terminal k d b mp h = h"
      by (auto simp: restore_terminal_def clone_terminal_def getTerminal_def t split: option.splits)
    with None assms(1,5) show ?thesis by (simp add: same_but_wires_def)
  next
    case (Some u)
    then obtain w where w: "cell_getTerminal d b h0 = Some w" "map_of mp w = Some u"
      by (auto simp: clone_terminal_def bind_eq_Some_conv)
    then have r: "restore_terminal k d b mp h = cell_insertEdge u (Some k) b h"
      by (simp add: restore_terminal_def getTerminal_def t)
    obtain es where es: "cell_insertEdge u (Some k) b h = upd u (c_edges_update es) (cell_setTerminal k (Some u) b h)"
      using insertEdge_loose [OF assms(5)] by blast
    have u: "u \<ge> ncells h0" using assms(4) map_of_SomeD [OF w(2)] by blast
    have "extends h0 (restore_terminal k d b mp h)"
      unfolding r es using u assms(1,3) by (simp add: cell_setTerminal_def extends_upd)
    moreover have "same_but_wires h (restore_terminal k d b mp h)"
      unfolding r es by (simp add: same_but_wires_def cell_setTerminal_def unwired_def)
    moreover have "cell_getTerminal x b' (restore_terminal k d b mp h) =
      (if x = k \<and> b' = b then clone_terminal h0 mp b d else cell_getTerminal x b' h)"
      unfolding r insertEdge_getTerminal using Some by auto
    ultimately show ?thesis by blast
  qed
  then show "extends h0 (restore_terminal k d b mp h)" "same_but_wires h (restore_terminal k d b mp h)"
    "cell_getTerminal x b' (restore_terminal k d b mp h) =
      (if x = k \<and> b' = b then clone_terminal h0 mp b d else cell_getTerminal x b' h)" by simp_all
qed

definition rewired :: "'a heap_scheme \<Rightarrow> clone_map \<Rightarrow> cref set \<Rightarrow> 'a heap_scheme \<Rightarrow> 'a heap_scheme \<Rightarrow> bool" where
  "rewired h0 mp D h h' \<longleftrightarrow> extends h0 h' \<and> same_but_wires h h' \<and>
     (\<forall>(d, k) \<in> set mp. \<forall>b. cell_getTerminal k b h' =
        (if d \<in> D then clone_terminal h0 mp b d else cell_getTerminal k b h))"

lemma rewiredD:
  assumes "rewired h0 mp D h h'"
  shows "extends h0 h'" "same_but_wires h h'"
    and "(d, k) \<in> set mp \<Longrightarrow> cell_getTerminal k b h' =
        (if d \<in> D then clone_terminal h0 mp b d else cell_getTerminal k b h)"
  using assms by (auto simp: rewired_def)

lemma rewired_trans:
  assumes "rewired h0 mp D h h'" "rewired h0 mp E h' h''"
  shows "rewired h0 mp (D \<union> E) h h''"
  unfolding rewired_def
proof (intro conjI ballI)
  show "extends h0 h''" using assms(2) by (rule rewiredD)
  show "same_but_wires h h''" using rewiredD(2) [OF assms(1)] rewiredD(2) [OF assms(2)] by (rule same_but_wires_trans)
  fix x
  assume "x \<in> set mp"
  then have "(fst x, snd x) \<in> set mp" by simp
  note rewiredD(3) [OF assms(1) this] rewiredD(3) [OF assms(2) this]
  then show "case x of (d, k) \<Rightarrow> \<forall>b. cell_getTerminal k b h'' =
      (if d \<in> D \<union> E then clone_terminal h0 mp b d else cell_getTerminal k b h)" by (simp add: split_beta)
qed

lemma restoreClone_spec:
  assumes wf: "heap_wf h0" "tree_inv h0" and fp: "fresh_pairs (ncells h0) b0 D0 mp"
    and D0: "\<And>d. d \<in> D0 \<Longrightarrow> d < ncells h0"
    and ch: "\<And>d k. (d, k) \<in> set mp \<Longrightarrow> list_all2 (\<lambda>d k. (d, k) \<in> set mp) (children_of h0 d) (children_of hc k)"
  shows "n + length (ancestors h0 d) \<ge> ncells h0 + 2 \<Longrightarrow> (d, k) \<in> set mp \<Longrightarrow> extends h0 h \<Longrightarrow>
    same_but_wires hc h \<Longrightarrow>
    (\<And>x y b. (x, y) \<in> set mp \<Longrightarrow> d \<in> set (ancestors h0 x) \<Longrightarrow> cell_getTerminal y b h = None) \<Longrightarrow>
    \<exists>h'. restoreClone n (Some k) (Some d) mp h = Some h' \<and>
      rewired h0 mp {x. d \<in> set (ancestors h0 x)} h h'"
proof (induction n arbitrary: d k h)
  case 0
  with ancestors_length [OF wf(1), of d] show ?case by (simp add: walk_fuel_def)
next
  case (Suc n)
  note dk = fresh_pairsD [OF fp]
  have d: "d < ncells h0" "ncells h0 \<le> k" using dk(1,2) [OF Suc.prems(2)] D0 by auto
  have vals: "\<And>x y. (x, y) \<in> set mp \<Longrightarrow> y \<ge> ncells h0" using dk(2) by blast
  let ?chs = "children_of h0 d"
  let ?h1 = "restore_terminal k d True mp h"
  let ?h2 = "restore_terminal k d False mp ?h1"
  have n1: "cell_getTerminal k True h = None" "cell_getTerminal k False h = None"
    using Suc.prems(5) [OF Suc.prems(2)] wf(1) by simp_all
  note r1 = restore_terminal_spec [OF Suc.prems(3) d vals n1(1)]
  have n2: "cell_getTerminal k False ?h1 = None" using n1 by (simp add: r1(3))
  note r2 = restore_terminal_spec [OF r1(1) d(1) d(2) vals n2]
  have ext1: "extends h0 ?h1" by (rule r1(1))
  note r2 = restore_terminal_spec [OF ext1 d vals n2]
  have rw: "rewired h0 mp {d} h ?h2"
  proof -
    have "cell_getTerminal y b ?h2 = (if x \<in> {d} then clone_terminal h0 mp b x else cell_getTerminal y b h)"
      if xy: "(x, y) \<in> set mp" for x y b
    proof -
      have "y = k \<longleftrightarrow> x = d" using dk(4,5) [OF Suc.prems(2)] xy by blast
      then show ?thesis by (cases b) (auto simp: r1(3) r2(3))
    qed
    then show ?thesis using r2(1) same_but_wires_trans [OF r1(2) r2(2)] by (auto simp: rewired_def)
  qed
  let ?f = "\<lambda>i m. restoreClone n (getChildAt (Some k) i m) (getChildAt (Some d) i m) mp m"
  let ?D = "\<lambda>j. {d} \<union> (\<Union>e \<in> set (take j ?chs). {x. e \<in> set (ancestors h0 x)})"
  have len: "list_all2 (\<lambda>d k. (d, k) \<in> set mp) ?chs (children_of hc k)" by (rule ch [OF Suc.prems(2)])
  have cc: "children_of s k = children_of hc k" if "same_but_wires h s" for s
    using same_but_wiresD(1) [OF same_but_wires_trans [OF Suc.prems(4) that]] .
  have "\<exists>s'. for_each ?f (upto_count (int (length ?chs))) ?h2 = Some s' \<and> rewired h0 mp (?D (length ?chs)) h s'"
  proof (rule for_each_upto [where P = "\<lambda>j s. rewired h0 mp (?D j) h s"])
    show "rewired h0 mp (?D 0) h ?h2" using rw by simp
    fix j s
    assume j: "j < length ?chs" and rs: "rewired h0 mp (?D j) h s"
    then have s: "extends h0 s" "same_but_wires h s" by (simp_all add: rewired_def)
    let ?x = "?chs ! j" and ?y = "children_of hc k ! j"
    have xy: "(?x, ?y) \<in> set mp" using len j by (rule list_all2_nthD)
    have p: "cell_getParent ?x h0 = Some d" using children_getParent [OF wf(2)] j nth_mem by blast
    then have anc: "ancestors h0 ?x = ?x # ancestors h0 d" by (simp add: ancestors_parent [OF wf(1), of ?x])
    have fuel: "n + length (ancestors h0 ?x) \<ge> ncells h0 + 2" using Suc.prems(1) anc by simp
    have loose: "cell_getTerminal v b s = None" if uv: "(u, v) \<in> set mp" "?x \<in> set (ancestors h0 u)" for u v b
    proof -
      have "e = ?x" if "e \<in> set (take j ?chs)" "e \<in> set (ancestors h0 u)" for e
        using siblings_disjoint [OF wf, of e d ?x u] that uv(2) j nth_mem [OF j] by (auto dest: in_set_takeD)
      moreover have "?x \<notin> set (take j ?chs)"
        using j tree_invD(1) [OF wf(2), of d] by (auto simp: in_set_conv_nth nth_eq_iff_index_eq)
      moreover have "u \<noteq> d" using not_above_parent [OF wf(1) p] uv(2) by blast
      ultimately have "u \<notin> ?D j" by blast
      then have "cell_getTerminal v b s = cell_getTerminal v b h" using rewiredD(3) [OF rs uv(1)] by simp
      moreover have "d \<in> set (ancestors h0 u)"
        using ancestors_trans [OF wf(1) _ uv(2), of d] anc wf(1) by simp
      ultimately show ?thesis using Suc.prems(5) [OF uv(1)] by simp
    qed
    have "\<exists>s'. restoreClone n (Some ?y) (Some ?x) mp s = Some s' \<and>
        rewired h0 mp {u. ?x \<in> set (ancestors h0 u)} s s'"
      by (rule Suc.IH [OF fuel xy s(1) same_but_wires_trans [OF Suc.prems(4) s(2)]]) (rule loose)
    then obtain s' where s': "restoreClone n (Some ?y) (Some ?x) mp s = Some s'"
      "rewired h0 mp {u. ?x \<in> set (ancestors h0 u)} s s'" by blast
    have "children_of s d = ?chs" using s(1) d(1) by (simp add: extends_def children_of_def)
    then have "getChildAt (Some d) (int j) s = Some ?x" using j by (simp add: getChildAt_def getChildAt_entries)
    moreover have "getChildAt (Some k) (int j) s = Some ?y"
      using j list_all2_lengthD [OF len] by (simp add: getChildAt_def getChildAt_entries cc [OF s(2)])
    moreover have "?D (Suc j) = ?D j \<union> {u. ?x \<in> set (ancestors h0 u)}"
      unfolding take_Suc_conv_app_nth [OF j] by auto
    then have "rewired h0 mp (?D (Suc j)) h s'" using rewired_trans [OF rs s'(2)] by (simp only:)
    ultimately show "\<exists>s'. ?f (int j) s = Some s' \<and> rewired h0 mp (?D (Suc j)) h s'" using s'(1) by auto
  qed
  moreover have "getChildCount (Some k) ?h2 = int (length ?chs)"
    using cc [of ?h2] rw list_all2_lengthD [OF len]
    by (simp add: getChildCount_def getChildAt_entries rewired_def)
  moreover have "?D (length ?chs) = {x. d \<in> set (ancestors h0 x)}" using below_iff [OF wf, of d] by auto
  ultimately show ?case by (simp add: Let_def)
qed


lemma fuel_ok: "heap_wf m \<Longrightarrow> n \<ge> walk_fuel m \<Longrightarrow> n + length (ancestors m c) \<ge> ncells m + 2"
  using ancestors_not_Nil [of m c] by (cases "ancestors m c") (simp_all add: walk_fuel_def)

lemma clone_one:
  assumes wf: "heap_wf m" "tree_inv m" "refs_ok m" and c: "c < ncells m"
  obtains mp m1 m2 where "cloneCellImpl (walk_fuel m) True (Some c) ([], m) = Some (ncells m, mp, m1)"
    "cloned m c [] m mp m1" "restoreClone (walk_fuel m1) (Some (ncells m)) (Some c) mp m1 = Some m2"
    "rewired m mp {d. c \<in> set (ancestors m d)} m1 m2"
proof -
  obtain mp m1 where 1: "cloneCellImpl (walk_fuel m) True (Some c) ([], m) = Some (ncells m, mp, m1)"
    "cloned m c [] m mp m1"
    using cloneCellImpl_spec [OF wf fuel_ok [OF wf(1) order_refl] c extends_refl, where mp = "[]"] by auto
  then have 2: "extends m m1" "fresh_pairs (ncells m) (ncells m1) {d. c \<in> set (ancestors m d)} mp"
    "(c, ncells m) \<in> set mp" "below_copied m (set mp) m1 c (ncells m)"
    "\<And>d k. (d, k) \<in> set mp \<Longrightarrow> d \<noteq> c \<Longrightarrow> node_copied m (set mp) m1 d k" by (auto simp: cloned_def)
  have below: "below_copied m (set mp) m1 d k" if "(d, k) \<in> set mp" for d k
    using 2(4) 2(5) [of d k] fresh_pairsD(4) [OF 2(2,3)] that by (cases "d = c") (auto simp: node_copied_def)
  have alloc: "d < ncells m" if "d \<in> {d. c \<in> set (ancestors m d)}" for d
    using that c heap_wf_parent [OF wf(1), of d] ancestors_parent [OF wf(1), of d]
    by (cases "cell_getParent d m") auto
  have fuel: "walk_fuel m1 + length (ancestors m c) \<ge> ncells m + 2"
    using 2(1) by (intro fuel_ok [OF wf(1)]) (simp add: walk_fuel_def extends_def)
  have "\<exists>m2. restoreClone (walk_fuel m1) (Some (ncells m)) (Some c) mp m1 = Some m2 \<and>
      rewired m mp {x. c \<in> set (ancestors m x)} m1 m2"
  proof (rule restoreClone_spec [OF wf(1,2) 2(2) alloc _ fuel 2(3,1)])
    show "list_all2 (\<lambda>d k. (d, k) \<in> set mp) (children_of m d) (children_of m1 k)"
      if "(d, k) \<in> set mp" for d k using below [OF that] by (simp add: below_copied_def)
    show "same_but_wires m1 m1" by (simp add: same_but_wires_def)
    show "cell_getTerminal y b m1 = None" if "(x, y) \<in> set mp" for x y b
      using below [OF that] by (simp add: below_copied_def cell_getTerminal_def)
  qed
  with 1 that show ?thesis by blast
qed

subsection \<open>Properties\<close>

text \<open>C8: \<open>cloneCell\<close> returns, leaves every cell it found as it was, and builds an isomorphic copy:
  the mapping pairs each cell of the subtree with a new cell of its own, with the same style,
  flags, value and an equal geometry object of its own, no identifier, the clones of its children
  in their order and the clone of its parent; a terminal inside the subtree becomes its clone, one
  outside is dropped.\<close>

theorem cloneCell_isomorphic:
  assumes "heap_wf m" and "tree_inv m" and "refs_ok m" and "c < ncells m"
  shows "\<exists>k mp m'. cloneCell (Some c) m = Some (Some k, m') \<and>
    (\<forall>x < ncells m. cell_at m' x = cell_at m x) \<and>
    fst ` set mp = {d. isAncestor (Some c) (Some d) m = Some True} \<and>
    distinct (map fst mp) \<and> distinct (map snd mp) \<and> (\<forall>(d, x) \<in> set mp. ncells m \<le> x \<and> x < ncells m') \<and>
    (c, k) \<in> set mp \<and> cell_getParent k m' = None \<and>
    (\<forall>(d, x) \<in> set mp. copy_fields m d m' x \<and>
       list_all2 (\<lambda>d x. (d, x) \<in> set mp) (children_of m d) (children_of m' x) \<and>
       (d \<noteq> c \<longrightarrow> rel_option (\<lambda>d x. (d, x) \<in> set mp) (cell_getParent d m) (cell_getParent x m')) \<and>
       (\<forall>b. cell_getTerminal x b m' = Option.bind (cell_getTerminal d b m) (map_of mp)))"
proof -
  obtain mp m1 m2 where 1: "cloneCellImpl (walk_fuel m) True (Some c) ([], m) = Some (ncells m, mp, m1)"
    "cloned m c [] m mp m1" "restoreClone (walk_fuel m1) (Some (ncells m)) (Some c) mp m1 = Some m2"
    and rw: "rewired m mp {d. c \<in> set (ancestors m d)} m1 m2" using assms by (rule clone_one)
  from 1(2) have 2: "fresh_pairs (ncells m) (ncells m1) {d. c \<in> set (ancestors m d)} mp"
    "(c, ncells m) \<in> set mp" "below_copied m (set mp) m1 c (ncells m)"
    "c_parent (cell_at m1 (ncells m)) = None"
    "\<And>d k. (d, k) \<in> set mp \<Longrightarrow> d \<noteq> c \<Longrightarrow> node_copied m (set mp) m1 d k" by (auto simp: cloned_def)
  note rwD = rewiredD [OF rw] and same = same_but_wiresD [OF rewiredD(2) [OF rw]]
  have below: "below_copied m (set mp) m1 d k" if "(d, k) \<in> set mp" for d k
    using 2(3) 2(5) [of d k] fresh_pairsD(4) [OF 2(1,2)] that by (cases "d = c") (auto simp: node_copied_def)
  have each: "copy_fields m d m2 x \<and>
       list_all2 (\<lambda>d x. (d, x) \<in> set mp) (children_of m d) (children_of m2 x) \<and>
       (d \<noteq> c \<longrightarrow> rel_option (\<lambda>d x. (d, x) \<in> set mp) (cell_getParent d m) (cell_getParent x m2)) \<and>
       (\<forall>b. cell_getTerminal x b m2 = Option.bind (cell_getTerminal d b m) (map_of mp))"
    if dx: "(d, x) \<in> set mp" for d x
    using below [OF dx] 2(5) [OF dx] rwD(3) [OF dx] fresh_pairsD(1) [OF 2(1) dx]
    by (simp add: same below_copied_def node_copied_def clone_terminal_def cell_getParent_def)
  have "cloneCell (Some c) m = Some (Some (ncells m), m2)"
    using 1(1,3) by (simp add: cloneCell_def cloneCells_def)
  moreover have "ncells m2 = ncells m1" using rwD(2) by (simp add: same_but_wires_def)
  ultimately show ?thesis
    using 2(1,2,4) rwD(1) each same(2) [of "ncells m"] isAncestor_wf(1) [OF assms(1), where p = c]
    by (intro exI [of _ "ncells m"] exI [of _ mp] exI [of _ m2])
      (auto simp: fresh_pairs_def extends_def cell_getParent_def)
qed

theorem cloneCell_isomorphic_witness:
  "\<exists>k m'. cloneCell (Some 1) sample = Some (Some k, m') \<and> length (children_of m' k) = 3 \<and>
     cell_getParent k m' = None"
proof -
  have "refs_ok sample" by (auto simp: refs_ok_def sample_cell_def blank_cell_def split: if_splits)
  moreover have "1 < ncells sample" by simp
  ultimately obtain k mp m' where
    k: "cloneCell (Some 1) sample = Some (Some k, m')" "(1, k) \<in> set mp" "cell_getParent k m' = None"
    and all: "\<forall>y \<in> set mp. list_all2 (\<lambda>d x. (d, x) \<in> set mp) (children_of sample (fst y)) (children_of m' (snd y))"
    using cloneCell_isomorphic [OF sample_wf sample_tree, of 1]
    unfolding split_beta ball_conj_distrib by blast
  from bspec [OF all k(2)] have "length (children_of sample 1) = length (children_of m' k)"
    by (simp add: list_all2_lengthD)
  with k show ?thesis by (auto simp: sample_children)
qed

end
