(* ===== verification/Dictionary.thy ===== *)
theory Dictionary
  imports ModelProps "HOL-Library.AList"
begin

text \<open>
  Object identities and dictionaries: util/mxObjectIdentity.js and util/mxDictionary.js.  An
  object gets an identity, its constructor's name and a number, the first time it is asked for
  one; a dictionary is a JavaScript object with identities as keys.
\<close>

record 'k identity =
  ids :: "('k \<times> string) list"
  id_counter :: nat

text \<open>\<open>ctor\<close> gives the name of an object's constructor.\<close>

definition identity_get ::
  "('k \<Rightarrow> string) \<Rightarrow> 'k option \<Rightarrow> 'k identity \<Rightarrow> string option \<times> 'k identity" where
  "identity_get ctor obj st =
     (case obj of
        None \<Rightarrow> (None, st)
      | Some k \<Rightarrow>
          (case map_of (ids st) k of
             Some i \<Rightarrow> (Some i, st)
           | None \<Rightarrow>
               (let i = ctor k @ ''#'' @ nat_string (id_counter st)
                in (Some i, st\<lparr>ids := (k, i) # ids st, id_counter := id_counter st + 1\<rparr>))))"

definition identity_clear :: "'k \<Rightarrow> 'k identity \<Rightarrow> 'k identity" where
  "identity_clear k st = st\<lparr>ids := filter (\<lambda>p. fst p \<noteq> k) (ids st)\<rparr>"

text \<open>The state of a dictionary: the identities handed out so far, and the object \<open>map\<close>.\<close>

type_synonym ('k, 'v) mxDictionary = "'k identity \<times> 'v jsobj"

definition dict_key :: "('k \<Rightarrow> string) \<Rightarrow> 'k option \<Rightarrow> 'k identity \<Rightarrow> string \<times> 'k identity" where
  "dict_key ctor key st =
     (case identity_get ctor key st of (None, st) \<Rightarrow> (''null'', st) | (Some i, st) \<Rightarrow> (i, st))"

definition dict_clear :: "('k, 'v) mxDictionary \<Rightarrow> ('k, 'v) mxDictionary" where
  "dict_clear d = (fst d, [])"

definition new_mxDictionary :: "'k identity \<Rightarrow> ('k, 'v) mxDictionary" where
  "new_mxDictionary st = dict_clear (st, [])"

definition dict_get ::
  "('k \<Rightarrow> string) \<Rightarrow> 'k option \<Rightarrow> ('k, 'v) mxDictionary \<Rightarrow> 'v option \<times> ('k, 'v) mxDictionary" where
  "dict_get ctor key d = (let (i, st) = dict_key ctor key (fst d) in (map_of (snd d) i, (st, snd d)))"

definition dict_put ::
  "('k \<Rightarrow> string) \<Rightarrow> 'k option \<Rightarrow> 'v \<Rightarrow> ('k, 'v) mxDictionary \<Rightarrow> 'v option \<times> ('k, 'v) mxDictionary"
where
  "dict_put ctor key v d =
     (let (i, st) = dict_key ctor key (fst d)
      in (map_of (snd d) i, (st, AList.update i v (snd d))))"

definition dict_remove ::
  "('k \<Rightarrow> string) \<Rightarrow> 'k option \<Rightarrow> ('k, 'v) mxDictionary \<Rightarrow> 'v option \<times> ('k, 'v) mxDictionary" where
  "dict_remove ctor key d =
     (let (i, st) = dict_key ctor key (fst d)
      in (map_of (snd d) i, (st, AList.delete i (snd d))))"

definition dict_getKeys :: "('k, 'v) mxDictionary \<Rightarrow> string list" where
  "dict_getKeys d = map fst (snd d)"

definition dict_getValues :: "('k, 'v) mxDictionary \<Rightarrow> 'v list" where
  "dict_getValues d = map snd (snd d)"

definition dict_visit :: "(string \<Rightarrow> 'v \<Rightarrow> 's \<Rightarrow> 's) \<Rightarrow> ('k, 'v) mxDictionary \<Rightarrow> 's \<Rightarrow> 's" where
  "dict_visit visitor d s = fold (\<lambda>(k, v). visitor k v) (snd d) s"

subsection \<open>Identities are unique\<close>

definition identity_inv :: "('k \<Rightarrow> string) \<Rightarrow> 'k identity \<Rightarrow> bool" where
  "identity_inv ctor st \<longleftrightarrow>
     distinct (map fst (ids st)) \<and>
     (\<exists>num. inj_on num (fst ` set (ids st)) \<and>
        (\<forall>(k, i) \<in> set (ids st). num k < id_counter st \<and> i = ctor k @ ''#'' @ nat_string (num k)))"

lemma nat_string_no_hash: "CHR ''#'' \<notin> set (nat_string n)"
  by (rule nat_string_no) (simp add: is_digit_def digit_val_def)

lemma takeWhile_before: "x \<in> set ys \<longrightarrow> P x \<Longrightarrow> (\<And>y. y \<in> set ys \<Longrightarrow> P y) \<Longrightarrow> \<not> P x \<Longrightarrow> takeWhile P (ys @ x # zs) = ys"
  by (induction ys) auto

lemma identity_suffix: "takeWhile (\<lambda>c. c \<noteq> CHR ''#'') (rev (s @ ''#'' @ nat_string n)) = rev (nat_string n)"
proof -
  have "takeWhile (\<lambda>c. c \<noteq> CHR ''#'') (rev (nat_string n) @ CHR ''#'' # rev s) = rev (nat_string n)"
    using nat_string_no_hash [of n] by (intro takeWhile_before) auto
  then show ?thesis by simp
qed

lemma identity_number: "s @ ''#'' @ nat_string m = t @ ''#'' @ nat_string n \<Longrightarrow> m = n"
proof -
  assume "s @ ''#'' @ nat_string m = t @ ''#'' @ nat_string n"
  then have "rev (nat_string m) = rev (nat_string n)" by (metis identity_suffix)
  then show "m = n" by (simp del: nat_string.simps)
qed

lemma identity_get_spec:
  assumes "identity_inv ctor st"
  shows "identity_inv ctor (snd (identity_get ctor obj st))"
    and "map_of (ids st) k = Some i \<Longrightarrow> map_of (ids (snd (identity_get ctor obj st))) k = Some i"
    and "obj = Some x \<Longrightarrow> \<exists>i. fst (identity_get ctor obj st) = Some i \<and>
           map_of (ids (snd (identity_get ctor obj st))) x = Some i"
proof -
  obtain num where d: "distinct (map fst (ids st))" and inj: "inj_on num (fst ` set (ids st))"
    and num: "\<And>k i. (k, i) \<in> set (ids st) \<Longrightarrow> num k < id_counter st \<and> i = ctor k @ ''#'' @ nat_string (num k)"
    using assms by (auto simp: identity_inv_def)
  show "identity_inv ctor (snd (identity_get ctor obj st))"
  proof (cases "\<exists>x. obj = Some x \<and> map_of (ids st) x = None")
    case True
    then obtain x where x: "obj = Some x" "map_of (ids st) x = None" by blast
    then have new: "x \<notin> fst ` set (ids st)" by (simp add: map_of_eq_None_iff)
    let ?num = "num(x := id_counter st)"
    have old: "?num k = num k" if "k \<in> fst ` set (ids st)" for k using that new by auto
    have "inj_on ?num (insert x (fst ` set (ids st)))"
    proof (rule inj_on_insert [THEN iffD2], intro conjI)
      show "inj_on ?num (fst ` set (ids st))" using inj old by (simp add: inj_on_def)
      show "?num x \<notin> ?num ` (fst ` set (ids st) - {x})"
      proof
        assume "?num x \<in> ?num ` (fst ` set (ids st) - {x})"
        then obtain k where k: "?num x = ?num k" "k \<in> fst ` set (ids st) - {x}" by (rule imageE)
        then obtain i where "(k, i) \<in> set (ids st)" by auto
        from num [OF this] k show False by simp
      qed
    qed
    moreover have "\<forall>(k, i) \<in> set (ids st). ?num k < Suc (id_counter st) \<and> i = ctor k @ ''#'' @ nat_string (?num k)"
    proof (intro ballI)
      fix p
      assume "p \<in> set (ids st)"
      then have "(fst p, snd p) \<in> set (ids st)" "fst p \<in> fst ` set (ids st)" by auto
      with num [of "fst p" "snd p"] old [of "fst p"]
      show "case p of (k, i) \<Rightarrow> ?num k < Suc (id_counter st) \<and> i = ctor k @ ''#'' @ nat_string (?num k)"
        by (simp add: split_beta)
    qed
    ultimately show ?thesis
      unfolding identity_inv_def using x d new
      by (intro conjI exI [of _ ?num]) (simp_all add: identity_get_def Let_def)
  next
    case False
    then have "snd (identity_get ctor obj st) = st"
      by (auto simp: identity_get_def split: option.splits)
    with assms show ?thesis by simp
  qed
  show "map_of (ids st) k = Some i \<Longrightarrow> map_of (ids (snd (identity_get ctor obj st))) k = Some i"
    by (auto simp: identity_get_def Let_def split: option.splits)
  show "obj = Some x \<Longrightarrow> \<exists>i. fst (identity_get ctor obj st) = Some i \<and>
      map_of (ids (snd (identity_get ctor obj st))) x = Some i"
    by (auto simp: identity_get_def Let_def split: option.splits)
qed

lemma identity_unique:
  assumes "identity_inv ctor st" "map_of (ids st) x = Some i" "map_of (ids st) y = Some i"
  shows "x = y"
proof -
  obtain num where inj: "inj_on num (fst ` set (ids st))"
    and num: "\<And>k i. (k, i) \<in> set (ids st) \<Longrightarrow> i = ctor k @ ''#'' @ nat_string (num k)"
    using assms(1) by (auto simp: identity_inv_def)
  note m = map_of_SomeD [OF assms(2)] map_of_SomeD [OF assms(3)]
  have "ctor x @ ''#'' @ nat_string (num x) = ctor y @ ''#'' @ nat_string (num y)"
    using num [OF m(1)] num [OF m(2)] by (rule subst)
  then have "num x = num y" by (rule identity_number)
  moreover have "x \<in> fst ` set (ids st)" "y \<in> fst ` set (ids st)" using m by force+
  ultimately show ?thesis by (rule inj_onD [OF inj])
qed

text \<open>The key of an object, once it has one, and that of null.\<close>

definition has_key :: "'k identity \<Rightarrow> 'k option \<Rightarrow> string \<Rightarrow> bool" where
  "has_key st key i \<longleftrightarrow> (case key of None \<Rightarrow> i = ''null'' | Some k \<Rightarrow> map_of (ids st) k = Some i)"

lemma dict_key_spec:
  assumes "identity_inv ctor st"
  shows "identity_inv ctor (snd (dict_key ctor key st))"
    and "has_key (snd (dict_key ctor key st)) key (fst (dict_key ctor key st))"
    and "has_key st key' i \<Longrightarrow> has_key (snd (dict_key ctor key st)) key' i"
  using identity_get_spec [OF assms, where obj = key]
  by (auto simp: dict_key_def has_key_def identity_get_def Let_def split: option.splits)

lemma has_key_unique:
  assumes "identity_inv ctor st" "has_key st key i" "has_key st key' i'"
  shows "i = i' \<longleftrightarrow> key = key'"
proof -
  have "map_of (ids st) k \<noteq> Some ''null''" for k
  proof
    assume "map_of (ids st) k = Some ''null''"
    then obtain n where "''null'' = ctor k @ ''#'' @ nat_string n"
      using assms(1) map_of_SomeD by (fastforce simp: identity_inv_def)
    then have "CHR ''#'' \<in> set ''null''" by (metis in_set_conv_decomp append_Cons append_Nil)
    then show False by simp
  qed
  then show ?thesis
    using assms identity_unique [OF assms(1)]
    by (cases key; cases key') (auto simp: has_key_def)
qed

subsection \<open>The contract of a dictionary\<close>

text \<open>
  What a client of a dictionary relies on.  Reading may change the state (it hands out
  identities), but not what the dictionary answers.
\<close>

locale object_dictionary =
  fixes get :: "'k \<Rightarrow> 's \<Rightarrow> 'v option \<times> 's"
    and put :: "'k \<Rightarrow> 'v \<Rightarrow> 's \<Rightarrow> 'v option \<times> 's"
    and remove :: "'k \<Rightarrow> 's \<Rightarrow> 'v option \<times> 's"
    and clear :: "'s \<Rightarrow> 's"
    and inv :: "'s \<Rightarrow> bool"
  assumes get_state: "inv s \<Longrightarrow> inv (snd (get k s)) \<and> fst (get k' (snd (get k s))) = fst (get k' s)"
    and put_state: "inv s \<Longrightarrow> inv (snd (put k v s)) \<and> fst (put k v s) = fst (get k s) \<and>
          fst (get k' (snd (put k v s))) = (if k' = k then Some v else fst (get k' s))"
    and remove_state: "inv s \<Longrightarrow> inv (snd (remove k s)) \<and> fst (remove k s) = fst (get k s) \<and>
          fst (get k' (snd (remove k s))) = (if k' = k then None else fst (get k' s))"
    and clear_state: "inv s \<Longrightarrow> inv (clear s) \<and> fst (get k' (clear s)) = None"
begin

text \<open>A dictionary as a set of visited objects.\<close>

definition seen :: "'s \<Rightarrow> 'k set" where
  "seen s = {k. fst (get k s) \<noteq> None}"

lemma seen_put: "inv s \<Longrightarrow> seen (snd (put k v s)) = insert k (seen s)"
  using put_state by (auto simp: seen_def)

lemma seen_get: "inv s \<Longrightarrow> seen (snd (get k s)) = seen s"
  using get_state by (auto simp: seen_def)

lemma seen_remove: "inv s \<Longrightarrow> seen (snd (remove k s)) = seen s - {k}"
  using remove_state by (auto simp: seen_def)

lemma seen_clear: "inv s \<Longrightarrow> seen (clear s) = {}"
  using clear_state by (auto simp: seen_def)

lemma fill:
  "inv s \<Longrightarrow> inv (fold (\<lambda>k s. snd (put k v s)) ks s) \<and>
     seen (fold (\<lambda>k s. snd (put k v s)) ks s) = set ks \<union> seen s"
  using put_state by (induction ks arbitrary: s) (auto simp: seen_put)

text \<open>Collecting what has not been seen before.\<close>

fun collect_new :: "'v \<Rightarrow> 'k list \<Rightarrow> 's \<Rightarrow> 'k list \<times> 's" where
  "collect_new v [] s = ([], s)"
| "collect_new v (k # ks) s =
     (let (r, s) = get k s
      in if r = None
         then (let (xs, s) = collect_new v ks (snd (put k v s)) in (k # xs, s))
         else collect_new v ks s)"

lemma collect_new_spec:
  "inv s \<Longrightarrow> inv (snd (collect_new v ks s)) \<and> distinct (fst (collect_new v ks s)) \<and>
     set (fst (collect_new v ks s)) = set ks - seen s \<and> seen (snd (collect_new v ks s)) = seen s \<union> set ks"
proof (induction ks arbitrary: s)
  case (Cons k ks)
  let ?s = "snd (get k s)"
  have s: "inv ?s" "seen ?s = seen s" using Cons.prems get_state seen_get by blast+
  have p: "inv (snd (put k v ?s))" "seen (snd (put k v ?s)) = insert k (seen s)"
    using s put_state seen_put by auto
  show ?case
    using Cons.IH [OF s(1)] Cons.IH [OF p(1)] s p
    by (auto simp: split_beta Let_def seen_def)
qed simp

end

definition dict_inv :: "('k \<Rightarrow> string) \<Rightarrow> ('k, 'v) mxDictionary \<Rightarrow> bool" where
  "dict_inv ctor d \<longleftrightarrow>
     identity_inv ctor (fst d) \<and> distinct (map fst (snd d)) \<and>
     (\<forall>i \<in> fst ` set (snd d). \<exists>key. has_key (fst d) key i)"

lemma dict_get_iff:
  assumes "dict_inv ctor d"
  shows "fst (dict_get ctor k d) = Some v \<longleftrightarrow> (\<exists>i. has_key (fst d) k i \<and> map_of (snd d) i = Some v)"
proof -
  have inv: "identity_inv ctor (fst d)" using assms by (simp add: dict_inv_def)
  let ?i = "fst (dict_key ctor k (fst d))" and ?st = "snd (dict_key ctor k (fst d))"
  note key = dict_key_spec [OF inv, where key = k]
  have get: "fst (dict_get ctor k d) = map_of (snd d) ?i" by (simp add: dict_get_def split_beta)
  show ?thesis
  proof
    assume v: "fst (dict_get ctor k d) = Some v"
    then have "?i \<in> fst ` set (snd d)" by (metis get domI dom_map_of_conv_image_fst)
    then obtain key where k: "has_key (fst d) key ?i" using assms by (auto simp: dict_inv_def)
    from has_key_unique [OF key(1) key(3) [OF k] key(2)] have "key = k" by simp
    with k v get show "\<exists>i. has_key (fst d) k i \<and> map_of (snd d) i = Some v" by auto
  next
    assume "\<exists>i. has_key (fst d) k i \<and> map_of (snd d) i = Some v"
    then obtain i where i: "has_key (fst d) k i" "map_of (snd d) i = Some v" by blast
    from has_key_unique [OF key(1) key(3) [OF i(1)] key(2)] have "i = ?i" by simp
    with i get show "fst (dict_get ctor k d) = Some v" by simp
  qed
qed

text \<open>Handing out further identities changes no answer.\<close>

lemma dict_get_grown:
  assumes "dict_inv ctor (st, m)" and "identity_inv ctor st'"
    and grow: "\<And>k i. has_key st k i \<Longrightarrow> has_key st' k i"
  shows "dict_inv ctor (st', m)" and "fst (dict_get ctor k (st', m)) = fst (dict_get ctor k (st, m))"
proof -
  show inv: "dict_inv ctor (st', m)" using assms by (fastforce simp: dict_inv_def)
  have "has_key st' k i \<and> map_of m i = Some v \<longleftrightarrow> has_key st k i \<and> map_of m i = Some v" for i v
  proof (cases "map_of m i = Some v")
    case True
    then have "i \<in> fst ` set m" by (metis domI dom_map_of_conv_image_fst)
    then obtain key where key: "has_key st key i" using assms(1) by (auto simp: dict_inv_def)
    from has_key_unique [OF assms(2) grow [OF key], of k i] key show ?thesis using grow by blast
  qed simp
  then have "fst (dict_get ctor k (st', m)) = Some v \<longleftrightarrow> fst (dict_get ctor k (st, m)) = Some v" for v
    using dict_get_iff [OF inv, of k v] dict_get_iff [OF assms(1), of k v] by simp
  then show "fst (dict_get ctor k (st', m)) = fst (dict_get ctor k (st, m))"
    by (metis not_None_eq)
qed

lemma dict_laws:
  assumes "dict_inv ctor d"
  shows "dict_inv ctor (snd (dict_get ctor k d)) \<and>
      fst (dict_get ctor k' (snd (dict_get ctor k d))) = fst (dict_get ctor k' d)"
    and "dict_inv ctor (snd (dict_put ctor k v d)) \<and> fst (dict_put ctor k v d) = fst (dict_get ctor k d) \<and>
      fst (dict_get ctor k' (snd (dict_put ctor k v d))) = (if k' = k then Some v else fst (dict_get ctor k' d))"
    and "dict_inv ctor (snd (dict_remove ctor k d)) \<and> fst (dict_remove ctor k d) = fst (dict_get ctor k d) \<and>
      fst (dict_get ctor k' (snd (dict_remove ctor k d))) = (if k' = k then None else fst (dict_get ctor k' d))"
proof -
  have inv: "identity_inv ctor (fst d)" using assms by (simp add: dict_inv_def)
  let ?i = "fst (dict_key ctor k (fst d))" and ?st = "snd (dict_key ctor k (fst d))"
  note key = dict_key_spec [OF inv, where key = k]
  have d: "dict_inv ctor (fst d, snd d)" using assms by simp
  have g: "dict_inv ctor (?st, snd d)" "fst (dict_get ctor x (?st, snd d)) = fst (dict_get ctor x d)" for x
    using dict_get_grown [OF d key(1,3)] by simp_all
  show "dict_inv ctor (snd (dict_get ctor k d)) \<and>
      fst (dict_get ctor k' (snd (dict_get ctor k d))) = fst (dict_get ctor k' d)"
    using g by (simp add: dict_get_def [of ctor k d] split_beta)
  have other: "has_key ?st k' i \<Longrightarrow> i = ?i \<longleftrightarrow> k' = k" for i
    using has_key_unique [OF key(1) _ key(2)] by blast
  have lookup: "fst (dict_get ctor k' (?st, m)) =
      (if k' = k then r else fst (dict_get ctor k' d))"
    if m: "dict_inv ctor (?st, m)" and upd: "\<And>i. map_of m i = (if i = ?i then r else map_of (snd d) i)" for m r
  proof -
    have "fst (dict_get ctor k' (?st, m)) = Some v \<longleftrightarrow> (if k' = k then r else fst (dict_get ctor k' d)) = Some v" for v
    proof -
      have "fst (dict_get ctor k' (?st, m)) = Some v \<longleftrightarrow> (\<exists>i. has_key ?st k' i \<and> map_of m i = Some v)"
        using dict_get_iff [OF m, of k' v] by simp
      also have "\<dots> \<longleftrightarrow> (if k' = k then r = Some v else \<exists>i. has_key ?st k' i \<and> map_of (snd d) i = Some v)"
        using other key(2) by (auto simp: upd split: if_splits)
      also have "(\<exists>i. has_key ?st k' i \<and> map_of (snd d) i = Some v) \<longleftrightarrow> fst (dict_get ctor k' d) = Some v"
        using dict_get_iff [OF g(1), of k' v] g(2) by simp
      finally show ?thesis by simp
    qed
    then show ?thesis by (metis not_None_eq)
  qed
  have old: "fst (dict_get ctor k d) = map_of (snd d) ?i" by (simp add: dict_get_def split_beta)
  have "dict_inv ctor (?st, AList.update ?i v (snd d))" "dict_inv ctor (?st, AList.delete ?i (snd d))"
    using g(1) key(2)
    by (auto simp: dict_inv_def AList.distinct_update AList.dom_update AList.delete_eq distinct_map_filter)
  then show "dict_inv ctor (snd (dict_put ctor k v d)) \<and> fst (dict_put ctor k v d) = fst (dict_get ctor k d) \<and>
      fst (dict_get ctor k' (snd (dict_put ctor k v d))) = (if k' = k then Some v else fst (dict_get ctor k' d))"
    and "dict_inv ctor (snd (dict_remove ctor k d)) \<and> fst (dict_remove ctor k d) = fst (dict_get ctor k d) \<and>
      fst (dict_get ctor k' (snd (dict_remove ctor k d))) = (if k' = k then None else fst (dict_get ctor k' d))"
    using old lookup
    by (simp_all add: dict_put_def dict_remove_def split_beta AList.update_conv' AList.delete_conv')
qed

lemma dict_clear_law: "dict_inv ctor d \<Longrightarrow> dict_inv ctor (dict_clear d) \<and> fst (dict_get ctor k (dict_clear d)) = None"
  by (simp add: dict_inv_def dict_clear_def dict_get_def split_beta)

interpretation dict: object_dictionary "dict_get ctor" "dict_put ctor" "dict_remove ctor" dict_clear "dict_inv ctor"
  for ctor
  by unfold_locales (rule dict_laws dict_clear_law, assumption)+

subsection \<open>The model's use of dictionaries\<close>

text \<open>
  \<open>getParents\<close> and \<open>getTopmostCells\<close> of model/mxGraphModel.js with the dictionaries they
  create, the identities they hand out included.
\<close>

fun parents_dict ::
  "(cref \<Rightarrow> string) \<Rightarrow> 'a heap_scheme \<Rightarrow> cref list \<Rightarrow> cref list \<Rightarrow> (cref, bool) mxDictionary \<Rightarrow>
   cref list \<times> (cref, bool) mxDictionary"
where
  "parents_dict ctor m parents [] d = (parents, d)"
| "parents_dict ctor m parents (c # cs) d =
     (case cell_getParent c m of
        None \<Rightarrow> parents_dict ctor m parents cs d
      | Some p \<Rightarrow>
          (let (r, d) = dict_get ctor (Some p) d
           in if r \<noteq> Some True
              then parents_dict ctor m (parents @ [p]) cs (snd (dict_put ctor (Some p) True d))
              else parents_dict ctor m parents cs d))"

lemma parents_dict_loop:
  assumes "dict_inv ctor d" and "\<And>p. fst (dict_get ctor (Some p) d) = (if p \<in> set parents then Some True else None)"
  shows "fst (parents_dict ctor m parents cs d) = parents_loop m parents cs"
  using assms
proof (induction cs arbitrary: parents d)
  case (Cons c cs)
  show ?case
  proof (cases "cell_getParent c m")
    case None
    with Cons show ?thesis by simp
  next
    case (Some p)
    let ?d = "snd (dict_get ctor (Some p) d)"
    have d: "dict_inv ctor ?d" "\<And>q. fst (dict_get ctor q ?d) = fst (dict_get ctor q d)"
      using dict_laws(1) [OF Cons.prems(1)] by blast+
    let ?e = "snd (dict_put ctor (Some p) True ?d)"
    have e: "dict_inv ctor ?e" "\<And>q. fst (dict_get ctor q ?e) = (if q = Some p then Some True else fst (dict_get ctor q ?d))"
      using dict_laws(2) [OF d(1)] by blast+
    show ?thesis
    proof (cases "p \<in> set parents")
      case True
      with Cons.IH [OF d(1), of parents] d(2) Some Cons.prems(2) show ?thesis by (simp add: split_beta Let_def)
    next
      case False
      with Cons.IH [OF e(1), of "parents @ [p]"] e(2) d(2) Some Cons.prems(2) show ?thesis
        by (simp add: split_beta Let_def)
    qed
  qed
qed simp

fun walk_dict ::
  "nat \<Rightarrow> (cref \<Rightarrow> string) \<Rightarrow> 'a heap_scheme \<Rightarrow> cref option \<Rightarrow> (cref, bool) mxDictionary \<Rightarrow>
   (bool \<times> (cref, bool) mxDictionary) option"
where
  "walk_dict n ctor m None d = Some (True, d)"
| "walk_dict 0 ctor m (Some p) d = None"
| "walk_dict (Suc n) ctor m (Some p) d =
     (let (r, d) = dict_get ctor (Some p) d
      in if r = Some True then Some (False, d) else walk_dict n ctor m (cell_getParent p m) d)"

fun topmost_dict ::
  "(cref \<Rightarrow> string) \<Rightarrow> 'a heap_scheme \<Rightarrow> cref list \<Rightarrow> (cref, bool) mxDictionary \<Rightarrow> cref list option"
where
  "topmost_dict ctor m [] d = Some []"
| "topmost_dict ctor m (cell # cs) d =
     (case walk_dict (walk_fuel m) ctor m (cell_getParent cell m) d of
        None \<Rightarrow> None
      | Some (topmost, d) \<Rightarrow>
          map_option (\<lambda>tmp. if topmost then cell # tmp else tmp) (topmost_dict ctor m cs d))"

lemma walk_dict_walk_up:
  assumes "dict_inv ctor d"
    and "\<And>p. fst (dict_get ctor (Some p) d) = (if p \<in> set dict then Some True else None)"
  shows "rel_option (\<lambda>(t, d') hit. t = (hit = None) \<and> dict_inv ctor d' \<and>
      (\<forall>q. fst (dict_get ctor q d') = fst (dict_get ctor q d)))
    (walk_dict n ctor m c d) (walk_up n m (\<lambda>p. p \<in> set dict) c)"
  using assms
proof (induction n ctor m c d rule: walk_dict.induct)
  case (3 n ctor m p d)
  let ?d = "snd (dict_get ctor (Some p) d)"
  have d: "dict_inv ctor ?d" "\<And>q. fst (dict_get ctor q ?d) = fst (dict_get ctor q d)"
    using dict_laws(1) [OF 3(2)] by blast+
  show ?case
  proof (cases "p \<in> set dict")
    case True
    with 3(3) d show ?thesis by (simp add: split_beta Let_def)
  next
    case False
    then have r: "fst (dict_get ctor (Some p) d) \<noteq> Some True" using 3(3) by simp
    have "\<And>q. fst (dict_get ctor (Some q) ?d) = (if q \<in> set dict then Some True else None)"
      using 3(3) d(2) by simp
    from 3(1) [OF refl prod.collapse r d(1) this] False r d show ?thesis
      by (simp add: split_beta Let_def)
  qed
qed simp_all

lemma topmost_dict_loop:
  assumes "dict_inv ctor d"
    and "\<And>p. fst (dict_get ctor (Some p) d) = (if p \<in> set dict then Some True else None)"
  shows "topmost_dict ctor m cs d = topmost_loop m dict cs"
  using assms
proof (induction cs arbitrary: d)
  case (Cons c cs)
  have r: "rel_option (\<lambda>(t, d') hit. t = (hit = None) \<and> dict_inv ctor d' \<and>
      (\<forall>q. fst (dict_get ctor q d') = fst (dict_get ctor q d)))
    (walk_dict (walk_fuel m) ctor m (cell_getParent c m) d)
    (walk_up (walk_fuel m) m (\<lambda>p. p \<in> set dict) (cell_getParent c m))"
    using Cons.prems by (rule walk_dict_walk_up)
  then show ?case
  proof (cases rule: option.rel_cases)
    case (Some x y)
    obtain t d' where x: "x = (t, d')" by (cases x)
    with Some have "dict_inv ctor d'" "\<And>p. fst (dict_get ctor (Some p) d') = (if p \<in> set dict then Some True else None)"
      "t = (y = None)" using Cons.prems(2) by auto
    with Cons.IH [of d'] Some x show ?thesis by simp
  qed simp
qed simp

subsection \<open>Properties\<close>

text \<open>C28: With dictionaries that hand out identities as they go, \<open>getParents\<close> collects each parent
  once, in the order of its first child, and \<open>getTopmostCells\<close> answers as if membership in
  the list of cells were tested directly.\<close>

theorem dictionaries_answer_by_identity:
  assumes "identity_inv ctor st"
  shows "fst (parents_dict ctor m [] cs (new_mxDictionary st)) = getParents (Some cs) m \<and>
    topmost_dict ctor m cs (fold (\<lambda>c d. snd (dict_put ctor (Some c) True d)) cs (new_mxDictionary st)) =
      getTopmostCells cs m"
proof -
  let ?d = "new_mxDictionary st :: (cref, bool) mxDictionary"
  have d: "dict_inv ctor ?d" "fst (dict_get ctor k ?d) = None" for k
    using assms by (simp_all add: new_mxDictionary_def dict_clear_def dict_inv_def dict_get_def split_beta)
  have "dict_inv ctor (fold (\<lambda>c d. snd (dict_put ctor (Some c) True d)) cs e) \<and>
      (\<forall>k. fst (dict_get ctor (Some k) (fold (\<lambda>c d. snd (dict_put ctor (Some c) True d)) cs e)) =
         (if k \<in> set cs then Some True else fst (dict_get ctor (Some k) e)))" if "dict_inv ctor e" for e
    using that
  proof (induction cs arbitrary: e)
    case (Cons c cs)
    let ?e = "snd (dict_put ctor (Some c) True e)"
    have e: "dict_inv ctor ?e"
      "\<And>k. fst (dict_get ctor (Some k) ?e) = (if k = c then Some True else fst (dict_get ctor (Some k) e))"
      using dict_laws(2) [OF Cons.prems, of "Some c" True] by simp_all
    from Cons.IH [OF e(1)] e(2) show ?case by simp
  qed simp
  from this [OF d(1)] d show ?thesis
    by (simp add: getParents_def getTopmostCells_def parents_dict_loop topmost_dict_loop)
qed

theorem dictionaries_answer_by_identity_witness:
  "fst (parents_dict (\<lambda>c. ''mxCell'') sample [] [2, 4, 3] (new_mxDictionary \<lparr>ids = [], id_counter = 7\<rparr>)) = [1, 2]"
proof -
  have "identity_inv (\<lambda>c. ''mxCell'') (\<lparr>ids = [], id_counter = 7\<rparr> :: cref identity)"
    by (simp add: identity_inv_def)
  from conjunct1 [OF dictionaries_answer_by_identity [OF this, of sample "[2, 4, 3]"]] show ?thesis
    by (simp add: getParents_def sample_parent)
qed

end
