(* ===== verification/Selection.thy ===== *)
theory Selection
  imports Undo Cell
begin

text \<open>
  The selection model, view/mxGraphSelectionModel.js: an ordered list of selected cells, changed
  by change objects that the undo manager can execute again.  Which cells are selectable is the
  graph's decision (\<open>isCellSelectable\<close>, a method applications override), so it is an argument.
  The arrays the client passes may hold null.
\<close>

type_synonym cells = "cref option list option"

record mxSelectionChange =
  added :: cells
  removed :: cells

datatype selection_event =
  SelChange cells cells | SelUndo "mxSelectionChange mxUndoableEdit"
| SelEdit "mxSelectionChange edit_event"

record mxGraphSelectionModel =
  sel_cells :: "cref list"
  singleSelection :: bool
  sel_fired :: "selection_event list"

definition new_mxGraphSelectionModel :: mxGraphSelectionModel where
  "new_mxGraphSelectionModel = \<lparr>sel_cells = [], singleSelection = False, sel_fired = []\<rparr>"

definition sel_fire :: "selection_event \<Rightarrow> mxGraphSelectionModel \<Rightarrow> mxGraphSelectionModel" where
  "sel_fire ev s = s\<lparr>sel_fired := sel_fired s @ [ev]\<rparr>"

definition isSingleSelection :: "mxGraphSelectionModel \<Rightarrow> bool" where
  "isSingleSelection s = singleSelection s"

definition setSingleSelection :: "bool \<Rightarrow> mxGraphSelectionModel \<Rightarrow> mxGraphSelectionModel" where
  "setSingleSelection b s = s\<lparr>singleSelection := b\<rparr>"

definition isSelected :: "cref option \<Rightarrow> mxGraphSelectionModel \<Rightarrow> bool" where
  "isSelected cell s \<longleftrightarrow> (case cell of None \<Rightarrow> False | Some c \<Rightarrow> mx_indexOf (Some (sel_cells s)) (Some c) \<ge> 0)"

definition sel_isEmpty :: "mxGraphSelectionModel \<Rightarrow> bool" where
  "sel_isEmpty s \<longleftrightarrow> length (sel_cells s) = 0"

definition sel_cellAdded :: "cref option \<Rightarrow> mxGraphSelectionModel \<Rightarrow> mxGraphSelectionModel" where
  "sel_cellAdded cell s =
     (if cell \<noteq> None \<and> \<not> isSelected cell s then s\<lparr>sel_cells := sel_cells s @ [the cell]\<rparr> else s)"

definition sel_cellRemoved :: "cref option \<Rightarrow> mxGraphSelectionModel \<Rightarrow> mxGraphSelectionModel" where
  "sel_cellRemoved cell s =
     (case cell of
        None \<Rightarrow> s
      | Some c \<Rightarrow>
          (let index = mx_indexOf (Some (sel_cells s)) (Some c)
           in if index \<ge> 0 then s\<lparr>sel_cells := js_delete_at (sel_cells s) index\<rparr> else s))"

text \<open>The texts the change writes to the status bar and the log are left out.\<close>

definition execute_selection_change ::
  "mxSelectionChange \<Rightarrow> mxGraphSelectionModel \<Rightarrow> mxSelectionChange \<times> mxGraphSelectionModel" where
  "execute_selection_change c s =
     (let s = fold sel_cellRemoved (entries (removed c)) s;
          s = fold sel_cellAdded (entries (added c)) s;
          c = \<lparr>added = removed c, removed = added c\<rparr>
      in (c, sel_fire (SelChange (added c) (removed c)) s))"

definition changeSelection :: "cells \<Rightarrow> cells \<Rightarrow> mxGraphSelectionModel \<Rightarrow> mxGraphSelectionModel" where
  "changeSelection add rem s =
     (if (add \<noteq> None \<and> length (the add) > 0 \<and> hd (the add) \<noteq> None) \<or>
         (rem \<noteq> None \<and> length (the rem) > 0 \<and> hd (the rem) \<noteq> None)
      then (let (c, s) = execute_selection_change \<lparr>added = add, removed = rem\<rparr> s;
                edit = edit_add c (new_mxUndoableEdit (Some False))
            in sel_fire (SelUndo edit) s)
      else s)"

definition sel_clear :: "mxGraphSelectionModel \<Rightarrow> mxGraphSelectionModel" where
  "sel_clear s = changeSelection None (Some (map Some (sel_cells s))) s"

definition getFirstSelectableCell :: "(cref option \<Rightarrow> bool) \<Rightarrow> cells \<Rightarrow> cref option" where
  "getFirstSelectableCell selectable cs =
     (case cs of None \<Rightarrow> None
      | Some xs \<Rightarrow> (case List.find selectable xs of None \<Rightarrow> None | Some x \<Rightarrow> x))"

definition setCells ::
  "(cref option \<Rightarrow> bool) \<Rightarrow> cells \<Rightarrow> mxGraphSelectionModel \<Rightarrow> mxGraphSelectionModel" where
  "setCells selectable cs s =
     (case cs of
        None \<Rightarrow> s
      | Some xs \<Rightarrow>
          (let xs = (if singleSelection s then [getFirstSelectableCell selectable cs] else xs)
           in changeSelection (Some (filter selectable xs)) (Some (map Some (sel_cells s))) s))"

definition setCell ::
  "(cref option \<Rightarrow> bool) \<Rightarrow> cref option \<Rightarrow> mxGraphSelectionModel \<Rightarrow> mxGraphSelectionModel" where
  "setCell selectable cell s = (if cell \<noteq> None then setCells selectable (Some [cell]) s else s)"

definition addCells ::
  "(cref option \<Rightarrow> bool) \<Rightarrow> cells \<Rightarrow> mxGraphSelectionModel \<Rightarrow> mxGraphSelectionModel" where
  "addCells selectable cs s =
     (case cs of
        None \<Rightarrow> s
      | Some xs \<Rightarrow>
          (let rem = (if singleSelection s then Some (map Some (sel_cells s)) else None);
               xs = (if singleSelection s then [getFirstSelectableCell selectable cs] else xs)
           in changeSelection (Some (filter (\<lambda>x. \<not> isSelected x s \<and> selectable x) xs)) rem s))"

definition sel_addCell ::
  "(cref option \<Rightarrow> bool) \<Rightarrow> cref option \<Rightarrow> mxGraphSelectionModel \<Rightarrow> mxGraphSelectionModel" where
  "sel_addCell selectable cell s = (if cell \<noteq> None then addCells selectable (Some [cell]) s else s)"

definition removeCells :: "cells \<Rightarrow> mxGraphSelectionModel \<Rightarrow> mxGraphSelectionModel" where
  "removeCells cs s =
     (case cs of None \<Rightarrow> s | Some xs \<Rightarrow> changeSelection None (Some (filter (\<lambda>x. isSelected x s) xs)) s)"

definition sel_removeCell :: "cref option \<Rightarrow> mxGraphSelectionModel \<Rightarrow> mxGraphSelectionModel" where
  "sel_removeCell cell s = (if cell \<noteq> None then removeCells (Some [cell]) s else s)"

subsection \<open>What a change does\<close>

lemma isSelected_iff: "isSelected (Some c) s \<longleftrightarrow> c \<in> set (sel_cells s)"
  using mx_indexOf_neg_iff [of "Some (sel_cells s)" c] by (auto simp: isSelected_def)

lemma isSelected_None [simp]: "\<not> isSelected None s"
  by (simp add: isSelected_def)

lemma sel_cellRemoved_cells:
  "distinct (sel_cells s) \<Longrightarrow> sel_cellRemoved x s = s\<lparr>sel_cells := filter (\<lambda>c. Some c \<noteq> x) (sel_cells s)\<rparr>"
proof (cases x)
  case (Some c)
  assume d: "distinct (sel_cells s)"
  show ?thesis
  proof (cases "c \<in> set (sel_cells s)")
    case True
    with d delete_at_index(1,3) [OF True d] show ?thesis
      by (simp add: Some sel_cellRemoved_def Let_def distinct_remove1_removeAll removeAll_filter_not_eq eq_commute)
  next
    case False
    then have "mx_indexOf (Some (sel_cells s)) (Some c) < 0" by (simp add: mx_indexOf_neg_iff)
    moreover have "filter (\<lambda>d. Some d \<noteq> Some c) (sel_cells s) = sel_cells s"
      using False by (auto intro!: filter_True)
    ultimately show ?thesis by (simp add: Some sel_cellRemoved_def Let_def)
  qed
qed (simp add: sel_cellRemoved_def)

lemma fold_cellRemoved:
  "distinct (sel_cells s) \<Longrightarrow>
   fold sel_cellRemoved xs s = s\<lparr>sel_cells := filter (\<lambda>c. Some c \<notin> set xs) (sel_cells s)\<rparr>"
proof (induction xs arbitrary: s)
  case (Cons x xs)
  have "distinct (sel_cells (sel_cellRemoved x s))" using Cons.prems by (simp add: sel_cellRemoved_cells)
  from Cons.IH [OF this] Cons.prems show ?case
    by (simp add: sel_cellRemoved_cells conj_commute eq_commute cong: filter_cong)
qed simp

lemma fold_cellAdded:
  "distinct (sel_cells s) \<Longrightarrow>
   \<exists>ys. fold sel_cellAdded xs s = s\<lparr>sel_cells := ys\<rparr> \<and> distinct ys \<and>
     set ys = set (sel_cells s) \<union> {c. Some c \<in> set xs} \<and> (\<exists>zs. ys = sel_cells s @ zs)"
proof (induction xs arbitrary: s)
  case Nil
  then show ?case by (intro exI [of _ "sel_cells s"]) simp
next
  case (Cons x xs)
  show ?case
  proof (cases "x \<noteq> None \<and> \<not> isSelected x s")
    case True
    then obtain c where c: "x = Some c" "c \<notin> set (sel_cells s)" by (auto simp: isSelected_iff)
    then have s': "sel_cellAdded x s = s\<lparr>sel_cells := sel_cells s @ [c]\<rparr>"
      by (simp add: sel_cellAdded_def isSelected_iff)
    have "distinct (sel_cells (s\<lparr>sel_cells := sel_cells s @ [c]\<rparr>))" using c Cons.prems by simp
    from Cons.IH [OF this] obtain ys zs where
      "fold sel_cellAdded xs (s\<lparr>sel_cells := sel_cells s @ [c]\<rparr>) = s\<lparr>sel_cells := ys\<rparr>"
      "distinct ys" "set ys = insert c (set (sel_cells s)) \<union> {c. Some c \<in> set xs}" "ys = sel_cells s @ c # zs"
      by auto
    with c(1) s' show ?thesis by (intro exI [of _ ys]) auto
  next
    case False
    then have s': "sel_cellAdded x s = s" by (auto simp: sel_cellAdded_def)
    have "set (sel_cells s) \<union> {c. Some c \<in> set (x # xs)} = set (sel_cells s) \<union> {c. Some c \<in> set xs}"
      using False by (auto simp: isSelected_iff)
    with Cons.IH [OF Cons.prems] show ?thesis by (simp add: s')
  qed
qed

definition cells_of :: "cells \<Rightarrow> cref set" where
  "cells_of xs = {c. Some c \<in> set (entries xs)}"

lemma execute_selection_spec:
  assumes "distinct (sel_cells s)"
  obtains ys where "execute_selection_change c s = (\<lparr>added = removed c, removed = added c\<rparr>,
      s\<lparr>sel_cells := ys, sel_fired := sel_fired s @ [SelChange (removed c) (added c)]\<rparr>)"
    "distinct ys" "set ys = set (sel_cells s) - cells_of (removed c) \<union> cells_of (added c)"
proof -
  let ?s = "fold sel_cellRemoved (entries (removed c)) s"
  have s: "?s = s\<lparr>sel_cells := filter (\<lambda>x. Some x \<notin> set (entries (removed c))) (sel_cells s)\<rparr>"
    using assms by (rule fold_cellRemoved)
  then have "distinct (sel_cells ?s)" using assms by simp
  from fold_cellAdded [OF this, of "entries (added c)"] obtain ys where
    "fold sel_cellAdded (entries (added c)) ?s = ?s\<lparr>sel_cells := ys\<rparr>" "distinct ys"
    "set ys = set (sel_cells ?s) \<union> {x. Some x \<in> set (entries (added c))}" by blast
  with s that show ?thesis
    by (auto simp: execute_selection_change_def Let_def sel_fire_def cells_of_def)
qed

subsection \<open>Selection changes are reversible\<close>

text \<open>
  Two states are the same when they select the same cells, in whatever order, and differ in nothing
  but the events fired.
\<close>

definition same_selection :: "mxGraphSelectionModel \<Rightarrow> mxGraphSelectionModel \<Rightarrow> bool" where
  "same_selection s t \<longleftrightarrow>
     set (sel_cells s) = set (sel_cells t) \<and> distinct (sel_cells s) = distinct (sel_cells t) \<and>
     singleSelection s = singleSelection t"

text \<open>A change applies when it removes what is selected and adds nothing selected that it does not
  remove as well.\<close>

definition selection_ok :: "mxSelectionChange \<Rightarrow> mxGraphSelectionModel \<Rightarrow> bool" where
  "selection_ok c s \<longleftrightarrow> distinct (sel_cells s) \<and> cells_of (removed c) \<subseteq> set (sel_cells s) \<and>
     cells_of (added c) \<inter> set (sel_cells s) \<subseteq> cells_of (removed c)"

definition selection_ops :: "(mxSelectionChange, mxGraphSelectionModel) edit_ops" where
  "selection_ops =
     \<lparr>op_execute = (\<lambda>c. Some (execute_selection_change c)), op_undo = (\<lambda>c. None), op_redo = (\<lambda>c. None),
      op_fire = (\<lambda>ev. sel_fire (SelEdit ev)), op_notify = (\<lambda>e s. s)\<rparr>"

lemma selection_twice:
  assumes "selection_ok c s"
  shows "selection_ok (fst (execute_selection_change c s)) (snd (execute_selection_change c s)) \<and>
    fst (execute_selection_change (fst (execute_selection_change c s)) (snd (execute_selection_change c s))) = c \<and>
    same_selection (snd (execute_selection_change (fst (execute_selection_change c s))
      (snd (execute_selection_change c s)))) s"
proof -
  have d: "distinct (sel_cells s)" and sub: "cells_of (removed c) \<subseteq> set (sel_cells s)"
    "cells_of (added c) \<inter> set (sel_cells s) \<subseteq> cells_of (removed c)"
    using assms by (auto simp: selection_ok_def)
  let ?ev = "SelChange (removed c) (added c)"
  obtain ys where 1: "execute_selection_change c s =
      (\<lparr>added = removed c, removed = added c\<rparr>, s\<lparr>sel_cells := ys, sel_fired := sel_fired s @ [?ev]\<rparr>)"
    and ys: "distinct ys" "set ys = set (sel_cells s) - cells_of (removed c) \<union> cells_of (added c)"
    using d by (rule execute_selection_spec)
  let ?c = "\<lparr>added = removed c, removed = added c\<rparr>"
  let ?s = "s\<lparr>sel_cells := ys, sel_fired := sel_fired s @ [?ev]\<rparr>"
  have "distinct (sel_cells ?s)" using ys by simp
  then obtain zs where 2: "execute_selection_change ?c ?s = (\<lparr>added = removed ?c, removed = added ?c\<rparr>,
      ?s\<lparr>sel_cells := zs, sel_fired := sel_fired ?s @ [SelChange (removed ?c) (added ?c)]\<rparr>)"
    and zs: "distinct zs" "set zs = set (sel_cells ?s) - cells_of (removed ?c) \<union> cells_of (added ?c)"
    by (rule execute_selection_spec)
  have "set zs = set (sel_cells s)" using zs(2) ys(2) sub by auto
  then show ?thesis
    using ys zs(1) d sub by (auto simp: 1 2 selection_ok_def same_selection_def)
qed

lemma selection_cong:
  assumes "selection_ok c s" and "same_selection s t"
  shows "selection_ok c t \<and> fst (execute_selection_change c t) = fst (execute_selection_change c s) \<and>
    same_selection (snd (execute_selection_change c t)) (snd (execute_selection_change c s))"
proof -
  have s: "distinct (sel_cells s)" and t: "distinct (sel_cells t)"
    using assms by (simp_all add: selection_ok_def same_selection_def)
  let ?ev = "SelChange (removed c) (added c)"
  obtain ys where 1: "execute_selection_change c s =
      (\<lparr>added = removed c, removed = added c\<rparr>, s\<lparr>sel_cells := ys, sel_fired := sel_fired s @ [?ev]\<rparr>)"
    "distinct ys" "set ys = set (sel_cells s) - cells_of (removed c) \<union> cells_of (added c)"
    using s by (rule execute_selection_spec)
  obtain zs where 2: "execute_selection_change c t =
      (\<lparr>added = removed c, removed = added c\<rparr>, t\<lparr>sel_cells := zs, sel_fired := sel_fired t @ [?ev]\<rparr>)"
    "distinct zs" "set zs = set (sel_cells t) - cells_of (removed c) \<union> cells_of (added c)"
    using t by (rule execute_selection_spec)
  from 1 2 assms show ?thesis by (simp add: selection_ok_def same_selection_def)
qed

interpretation selection: reversible_changes selection_ops execute_selection_change selection_ok same_selection
proof unfold_locales
  show "op_execute selection_ops c = Some (execute_selection_change c)" for c by (simp add: selection_ops_def)
  show "same_selection s s" for s by (simp add: same_selection_def)
  show "same_selection s t \<Longrightarrow> same_selection t s" for s t by (simp add: same_selection_def)
  show "same_selection s t \<Longrightarrow> same_selection t u \<Longrightarrow> same_selection s u" for s t u
    by (simp add: same_selection_def)
  show "same_selection (op_fire selection_ops ev s) s" for ev s
    by (simp add: selection_ops_def same_selection_def sel_fire_def)
  show "same_selection (op_notify selection_ops e s) s" for e s
    by (simp add: selection_ops_def same_selection_def)
qed (rule selection_twice selection_cong; assumption)+

subsection \<open>The operations\<close>

text \<open>Every request the operations make is one that applies; they announce it as an
  insignificant edit.\<close>

definition request :: "cells \<Rightarrow> cells \<Rightarrow> mxGraphSelectionModel \<Rightarrow> bool" where
  "request add rem s \<longleftrightarrow> (rem = None \<or> rem = Some (map Some (sel_cells s)) \<or>
       (add = None \<and> cells_of rem \<subseteq> set (sel_cells s))) \<and>
     (rem = None \<longrightarrow> cells_of add \<inter> set (sel_cells s) = {})"

lemma entries_Some_cells [simp]: "cells_of (Some (map Some xs)) = set xs" "cells_of None = {}"
  by (auto simp: cells_of_def)

lemma request_ok: "request add rem s \<Longrightarrow> distinct (sel_cells s) \<Longrightarrow> selection_ok \<lparr>added = add, removed = rem\<rparr> s"
  by (auto simp: request_def selection_ok_def)

lemma changeSelection_spec:
  assumes "request add rem s" and "distinct (sel_cells s)"
  shows "changeSelection add rem s = s \<or>
    (\<exists>c e. changes e = [c] \<and> \<not> undone e \<and> \<not> redone e \<and> \<not> significant e \<and>
       selection_ok c (changeSelection add rem s) \<and>
       sel_fired (changeSelection add rem s) =
         sel_fired s @ [SelChange rem add, SelUndo e] \<and>
       same_selection (snd (execute_selection_change c (changeSelection add rem s))) s)"
proof (rule disjCI)
  assume ne: "\<not> (\<exists>c e. changes e = [c] \<and> \<not> undone e \<and> \<not> redone e \<and> \<not> significant e \<and>
       selection_ok c (changeSelection add rem s) \<and>
       sel_fired (changeSelection add rem s) =
         sel_fired s @ [SelChange rem add, SelUndo e] \<and>
       same_selection (snd (execute_selection_change c (changeSelection add rem s))) s)"
  let ?c = "\<lparr>added = add, removed = rem\<rparr>"
  let ?d = "fst (execute_selection_change ?c s)" and ?t = "snd (execute_selection_change ?c s)"
  let ?e = "edit_add ?d (new_mxUndoableEdit (Some False))"
  show "changeSelection add rem s = s"
  proof (rule ccontr)
    assume "changeSelection add rem s \<noteq> s"
    then have c: "changeSelection add rem s = sel_fire (SelUndo ?e) ?t"
      by (auto simp: changeSelection_def split_beta Let_def split: if_splits)
    note ok = request_ok [OF assms]
    note twice = selection_twice [OF ok]
    have same: "same_selection ?t (sel_fire (SelUndo ?e) ?t)" by (simp add: same_selection_def sel_fire_def)
    have t: "selection_ok ?d ?t" using twice by blast
    note cong = selection_cong [OF t same]
    have "same_selection (snd (execute_selection_change ?d (sel_fire (SelUndo ?e) ?t))) s"
      using cong twice by (auto simp: same_selection_def)
    moreover obtain ys where "execute_selection_change ?c s = (\<lparr>added = rem, removed = add\<rparr>,
        s\<lparr>sel_cells := ys, sel_fired := sel_fired s @ [SelChange rem add]\<rparr>)"
      using assms(2) execute_selection_spec [of s ?c] by auto
    then have "sel_fired (changeSelection add rem s) = sel_fired s @ [SelChange rem add, SelUndo ?e]"
      by (simp add: c sel_fire_def)
    ultimately show False using ne cong unfolding c
      by (auto simp: edit_add_def new_mxUndoableEdit_def)
  qed
qed

lemma starts_with_cell:
  assumes "entries xs \<noteq> []" and "None \<notin> set (entries xs)"
  shows "xs \<noteq> None \<and> length (the xs) > 0 \<and> hd (the xs) \<noteq> None"
proof -
  obtain ys where ys: "xs = Some ys" "ys \<noteq> []" using assms(1) by (cases xs) auto
  then have "hd ys \<in> set (entries xs)" by simp
  with assms(2) have "hd ys \<noteq> None" by metis
  with ys show ?thesis by simp
qed

lemma changeSelection_cells:
  assumes "distinct (sel_cells s)" and "None \<notin> set (entries add)" "None \<notin> set (entries rem)"
  shows "distinct (sel_cells (changeSelection add rem s)) \<and>
    set (sel_cells (changeSelection add rem s)) = set (sel_cells s) - cells_of rem \<union> cells_of add \<and>
    singleSelection (changeSelection add rem s) = singleSelection s"
proof (cases "entries add = [] \<and> entries rem = []")
  case True
  with assms(1) show ?thesis
    by (auto simp: changeSelection_def cells_of_def entries_def split: option.splits)
next
  case False
  obtain ys where "execute_selection_change \<lparr>added = add, removed = rem\<rparr> s =
      (\<lparr>added = rem, removed = add\<rparr>, s\<lparr>sel_cells := ys, sel_fired := sel_fired s @ [SelChange rem add]\<rparr>)"
    "distinct ys" "set ys = set (sel_cells s) - cells_of rem \<union> cells_of add"
    using execute_selection_spec [OF assms(1), of "\<lparr>added = add, removed = rem\<rparr>"] by auto
  moreover have "(add \<noteq> None \<and> length (the add) > 0 \<and> hd (the add) \<noteq> None) \<or>
         (rem \<noteq> None \<and> length (the rem) > 0 \<and> hd (the rem) \<noteq> None)"
    using False assms(2,3) starts_with_cell by metis
  ultimately show ?thesis by (simp add: changeSelection_def sel_fire_def)
qed

lemma cells_of_filter: "cells_of (Some (filter P (map Some xs))) = {x \<in> set xs. P (Some x)}"
  by (auto simp: cells_of_def)

subsection \<open>Properties\<close>

text \<open>C30: In multiple selection \<open>setCells\<close> selects exactly the selectable cells it is given,
  \<open>addCells\<close> adds the selectable ones, \<open>removeCells\<close> takes the given ones away and
  \<open>clear\<close> empties the selection; no cell is ever listed twice.\<close>

theorem selection_operations:
  assumes "distinct (sel_cells s)" and "\<not> singleSelection s"
  shows "set (sel_cells (setCells p (Some (map Some xs)) s)) = {x \<in> set xs. p (Some x)} \<and>
    set (sel_cells (addCells p (Some (map Some xs)) s)) = set (sel_cells s) \<union> {x \<in> set xs. p (Some x)} \<and>
    set (sel_cells (removeCells (Some (map Some xs)) s)) = set (sel_cells s) - set xs \<and>
    sel_isEmpty (sel_clear s) \<and>
    distinct (sel_cells (setCells p (Some (map Some xs)) s)) \<and>
    distinct (sel_cells (addCells p (Some (map Some xs)) s)) \<and>
    distinct (sel_cells (removeCells (Some (map Some xs)) s))"
proof -
  have "distinct (sel_cells (setCells p (Some (map Some xs)) s)) \<and>
      set (sel_cells (setCells p (Some (map Some xs)) s)) = {x \<in> set xs. p (Some x)}"
    using assms changeSelection_cells [OF assms(1), of "Some (filter p (map Some xs))" "Some (map Some (sel_cells s))"]
    by (auto simp: setCells_def cells_of_filter)
  moreover have "distinct (sel_cells (addCells p (Some (map Some xs)) s)) \<and>
      set (sel_cells (addCells p (Some (map Some xs)) s)) = set (sel_cells s) \<union> {x \<in> set xs. p (Some x)}"
    using assms changeSelection_cells [OF assms(1),
        of "Some (filter (\<lambda>x. \<not> isSelected x s \<and> p x) (map Some xs))" None]
    by (auto simp: addCells_def cells_of_filter isSelected_iff)
  moreover have "distinct (sel_cells (removeCells (Some (map Some xs)) s)) \<and>
      set (sel_cells (removeCells (Some (map Some xs)) s)) = set (sel_cells s) - set xs"
    using assms changeSelection_cells [OF assms(1), of None "Some (filter (\<lambda>x. isSelected x s) (map Some xs))"]
    by (auto simp: removeCells_def cells_of_filter isSelected_iff)
  moreover have "set (sel_cells (sel_clear s)) = {}"
    using changeSelection_cells [OF assms(1), of None "Some (map Some (sel_cells s))"] by (auto simp: sel_clear_def)
  ultimately show ?thesis by (simp add: sel_isEmpty_def)
qed

theorem selection_operations_witness:
  "set (sel_cells (addCells (\<lambda>x. x \<noteq> Some 4) (Some (map Some [3, 4, 5]))
     (setCells (\<lambda>x. True) (Some (map Some [1, 2, 2])) new_mxGraphSelectionModel))) = {1, 2, 3, 5}"
proof -
  let ?s = "setCells (\<lambda>x. True) (Some (map Some [1, 2, 2])) new_mxGraphSelectionModel"
  have new: "distinct (sel_cells new_mxGraphSelectionModel)" "\<not> singleSelection new_mxGraphSelectionModel"
    by (simp_all add: new_mxGraphSelectionModel_def)
  note 1 = selection_operations [OF new, of "\<lambda>x. True" "[1, 2, 2]"]
  have s: "set (sel_cells ?s) = {1, 2}" using 1 [THEN conjunct1] by (simp add: set_eq_iff)
  have d: "distinct (sel_cells ?s)" using 1 by blast
  have m: "\<not> singleSelection ?s"
    using changeSelection_cells [OF new(1)] by (simp add: setCells_def new_mxGraphSelectionModel_def)
  note 2 = selection_operations [OF d m, of "\<lambda>x. x \<noteq> Some 4" "[3, 4, 5]", THEN conjunct2, THEN conjunct1]
  have "{x \<in> set [3, 4, 5]. Some x \<noteq> Some 4} = {3, 5 :: cref}" by (auto simp: set_eq_iff)
  then show ?thesis unfolding 2 s by auto
qed

text \<open>C29: Every selection operation that changes anything announces one insignificant edit; undoing
  that edit selects again exactly the cells that were selected, and redoing it returns to the
  selection after the operation.\<close>

theorem selection_undo_redo:
  assumes "distinct (sel_cells s)"
    and "t \<in> {setCells p cs s, addCells p cs s, removeCells cs s, sel_clear s}" and "t \<noteq> s"
  shows "\<exists>add rem e. sel_fired t = sel_fired s @ [SelChange add rem, SelUndo e] \<and> \<not> isSignificant e \<and>
    (let (e1, s1) = edit_undo selection_ops e t; (e2, s2) = edit_redo selection_ops e1 s1
     in set (sel_cells s1) = set (sel_cells s) \<and> set (sel_cells s2) = set (sel_cells t))"
proof -
  obtain add rem where t: "t = changeSelection add rem s" and r: "request add rem s"
  proof -
    have "request (Some xs) (Some (map Some (sel_cells s))) s" for xs by (simp add: request_def)
    moreover have "request (Some (filter (\<lambda>x. \<not> isSelected x s \<and> p x) xs)) None s" for xs
      by (auto simp: request_def cells_of_def isSelected_iff)
    moreover have "request None (Some (filter (\<lambda>x. isSelected x s) xs)) s" for xs
      by (auto simp: request_def cells_of_def isSelected_iff)
    moreover have "request None (Some (map Some (sel_cells s))) s" by (simp add: request_def)
    moreover obtain add rem where "t = changeSelection add rem s"
      "rem = Some (map Some (sel_cells s)) \<and> add \<noteq> None \<or>
       (\<exists>xs. add = Some (filter (\<lambda>x. \<not> isSelected x s \<and> p x) xs)) \<and> rem = None \<or>
       (\<exists>xs. rem = Some (filter (\<lambda>x. isSelected x s) xs)) \<and> add = None \<or>
       rem = Some (map Some (sel_cells s)) \<and> add = None"
      using assms(2,3) that
      by (auto simp: setCells_def addCells_def removeCells_def sel_clear_def Let_def split: option.splits if_splits)
    ultimately show ?thesis using that by blast
  qed
  obtain c e where e: "changes e = [c]" "\<not> undone e" "\<not> redone e" "\<not> significant e" "selection_ok c t"
    "sel_fired t = sel_fired s @ [SelChange rem add, SelUndo e]"
    "same_selection (snd (execute_selection_change c t)) s"
    using changeSelection_spec [OF r assms(1)] assms(3) unfolding t by blast
  have ok: "undo_ok selection_ok selection_ops (changes e) t" using e(1,5) by simp
  let ?u = "edit_undo selection_ops e t"
  have "same_selection (snd ?u) s"
  proof -
    let ?t = "op_fire selection_ops START_EDIT t"
    have same: "same_selection t ?t" by (simp add: selection_ops_def same_selection_def sel_fire_def)
    have "same_selection (snd (execute_selection_change c ?t)) (snd (execute_selection_change c t))"
      using selection_cong [OF e(5) same] by blast
    then have "same_selection (snd (undo_changes selection_ops [c] ?t)) s"
      using e(7) by (simp add: split_beta Let_def selection.undo_change_exec selection.same_fire)
        (simp add: same_selection_def)
    then show ?thesis using e(1,2)
      by (simp add: edit_undo_def split_beta Let_def selection.same_fire selection.same_notify)
  qed
  moreover have "same_selection (snd (edit_redo selection_ops (fst ?u) (snd ?u))) t"
    using selection.edit_undo_redo(2) [OF e(2) ok] .
  ultimately show ?thesis using e(4,6) by (auto simp: split_beta isSignificant_def same_selection_def)
qed

theorem selection_undo_redo_witness:
  "\<exists>add rem e. sel_fired (addCells (\<lambda>x. True) (Some [Some 7, Some 8]) new_mxGraphSelectionModel) =
      [SelChange add rem, SelUndo e] \<and>
    (let (e1, s1) = edit_undo selection_ops e
       (addCells (\<lambda>x. True) (Some [Some 7, Some 8]) new_mxGraphSelectionModel)
     in set (sel_cells s1) = {})"
proof -
  let ?s = new_mxGraphSelectionModel
  let ?t = "addCells (\<lambda>x. True) (Some [Some 7, Some 8]) ?s"
  have d: "distinct (sel_cells ?s)" by (simp add: new_mxGraphSelectionModel_def)
  have t: "?t \<in> {setCells (\<lambda>x. True) (Some [Some 7, Some 8]) ?s, ?t,
      removeCells (Some [Some 7, Some 8]) ?s, sel_clear ?s}" by blast
  have "sel_cells ?t = [7, 8]" by code_simp
  then have "?t \<noteq> ?s" by (auto simp: new_mxGraphSelectionModel_def)
  from selection_undo_redo [OF d t this] obtain add rem e where
    "sel_fired ?t = sel_fired ?s @ [SelChange add rem, SelUndo e]"
    "set (sel_cells (snd (edit_undo selection_ops e ?t))) = set (sel_cells ?s)"
    by (auto simp: split_beta Let_def)
  then show ?thesis
    by (intro exI [of _ add] exI [of _ rem] exI [of _ e]) (simp add: new_mxGraphSelectionModel_def split_beta)
qed

text \<open>C38: In single selection, adding the cell that is already selected deselects it.\<close>

theorem single_selection_add_selected:
  assumes "singleSelection s" and "sel_cells s = [c]" and "p (Some c)"
  shows "sel_isEmpty (sel_addCell p (Some c) s)"
  using assms
  by (simp add: sel_addCell_def addCells_def getFirstSelectableCell_def isSelected_iff changeSelection_def
      execute_selection_change_def sel_cellRemoved_def mx_indexOf_def sel_fire_def Let_def sel_isEmpty_def
      js_delete_at_def js_splice_pos_def)

theorem single_selection_add_selected_witness:
  "sel_isEmpty (sel_addCell (\<lambda>x. True) (Some 7) \<lparr>sel_cells = [7], singleSelection = True, sel_fired = []\<rparr>)"
  by (rule single_selection_add_selected) simp_all

end
