(* ===== verification/Graph.thy ===== *)
theory Graph
  imports ModelChange Selection
begin

text \<open>
  The graph component, view/mxGraph.js: its settings, the view's cell states, and the predicates
  that decide what may be done with a cell.

  The graph owns the model, the selection model, the style sheet and the view.  Of the view
  (view/mxGraphView.js) the model keeps what these operations read: scale, translation, the current
  root and the map from cells to their states.  The states are computed when the view validates,
  which it does after a transaction; no operation here changes them.

  An operation that may not complete returns an option.  \<open>None\<close> is the TypeError of calling
  \<open>substring\<close> on an \<open>image\<close> style that is not a string, or a walk that does not return.
\<close>

subsection \<open>Image bundles\<close>

record mxImageBundle =
  images :: "(string \<times> string) jsobj"
  alt_images :: bool

definition new_mxImageBundle :: "bool option \<Rightarrow> mxImageBundle" where
  "new_mxImageBundle alt =
     \<lparr>images = [], alt_images = (case alt of None \<Rightarrow> False | Some b \<Rightarrow> b)\<rparr>"

definition putImage :: "string \<Rightarrow> string \<Rightarrow> string \<Rightarrow> mxImageBundle \<Rightarrow> mxImageBundle" where
  "putImage key v fallback b = b\<lparr>images := AList.update key (v, fallback) (images b)\<rparr>"

definition getImage :: "string option \<Rightarrow> mxImageBundle \<Rightarrow> string option" where
  "getImage key b =
     (case key of
        None \<Rightarrow> None
      | Some k \<Rightarrow> map_option (\<lambda>(v, fallback). if alt_images b then fallback else v) (map_of (images b) k))"

subsection \<open>State\<close>

record mxCellState =
  cs_bounds :: mxRectangle
  cs_style :: "style_obj option"
  cs_invalid :: bool
  cs_origin :: mxPoint
  absoluteOffset :: mxPoint
  absolutePoints :: "mxPoint option list option"
  visibleSource :: "cref option"
  visibleTarget :: "cref option"
  terminalDistance :: jsnum
  cs_length :: jsnum
  cs_segments :: "jsnum list option"
  unscaledWidth :: "jsnum option"
  cellBounds :: "mxRectangle option"
  paintBounds :: "mxRectangle option"

record mxCurrentRootChange =
  cr_root :: "cref option"
  cr_previous :: "cref option"
  cr_isUp :: bool

text \<open>The events of the view are kept as a log; \<open>EvRootEdit\<close> is the one that announces an edit.\<close>

datatype view_event =
  EvScale jsnum jsnum | EvTranslate mxPoint mxPoint | EvScaleAndTranslate jsnum jsnum mxPoint mxPoint
| EvUp "cref option" "cref option" | EvDown "cref option" "cref option"
| EvRootEdit "mxCurrentRootChange mxUndoableEdit"

record mxGraphView =
  states :: "cref \<Rightarrow> mxCellState option"
  scale :: jsnum
  translate :: mxPoint
  currentRoot :: "cref option"
  graphBounds :: "mxRectangle"
  v_fired :: "view_event list"

text \<open>The limits of a rule are numbers, or strings such as \<open>n\<close> that read as no number.\<close>

datatype limit = LNum jsnum | LText string

record mxMultiplicity =
  mp_source :: bool
  mp_type :: "string option"
  mp_attr :: "string option"
  mp_value :: "string option"
  mp_min :: limit
  mp_max :: limit
  validNeighbors :: "string list option"
  validNeighborsAllowed :: bool
  countError :: "string option"
  typeError :: "string option"

text \<open>The events of the graph, each with the properties its listeners get.\<close>

datatype graph_event =
  EvCellsAdded "cref option list" "cref option" int "cref option" "cref option" "bool option"
| EvAddCells "cref option list" "cref option" int "cref option" "cref option"
| EvCellsRemoved "cref option list" | EvRemoveCells "cref option list option" bool
| EvCellsOrdered bool "cref option list" | EvOrderCells bool "cref option list"
| EvCellConnected "cref option" "cref option" bool "cref option"
| EvConnectCell "cref option" "cref option" bool "cref option"
| EvCellsFolded "cref option list" bool bool | EvFoldCells bool bool "cref option list option"
| EvToggleCells bool "cref option list option" "bool option"
| EvFlipEdge cref
| EvGroupCells cref "jsnum option" "cref option list"
| EvUngroupCells "cref option list" | EvRemoveCellsFromParent "cref option list"
| EvCellsResized "cref option list" "mxRectangle list" | EvResizeCells "cref option list" "mxRectangle list"
| EvUpdateCellSize "cref option" bool
| EvLabelChanged cref "user_value option" "user_value option"
| EvCellsMoved "cref option list" jsnum jsnum bool
| EvMoveCells "cref option list" jsnum jsnum bool "cref option"
| EvAlignCells string "cref option list"
| EvRoot | EvRefresh
| EvSplitEdge "cref option" "cref option list" "cref option" jsnum jsnum

record graph_flags =
  gridEnabled :: bool
  portsEnabled :: bool
  exportEnabled :: bool
  importEnabled :: bool
  cellsLocked :: bool
  cellsCloneable :: bool
  cellsEditable :: bool
  cellsDeletable :: bool
  cellsMovable :: bool
  edgeLabelsMovable :: bool
  vertexLabelsMovable :: bool
  dropEnabled :: bool
  splitEnabled :: bool
  cellsResizable :: bool
  cellsBendable :: bool
  cellsSelectable :: bool
  cellsDisconnectable :: bool
  autoSizeCells :: bool
  autoSizeCellsOnAdd :: bool
  allowNegativeCoordinates :: bool
  constrainChildren :: bool
  constrainRelativeChildren :: bool
  extendParents :: bool
  extendParentsOnAdd :: bool
  extendParentsOnMove :: bool
  recursiveResize :: bool
  collapseToPreferredSize :: bool
  resetEdgesOnResize :: bool
  resetEdgesOnMove :: bool
  resetEdgesOnConnect :: bool
  allowLoops :: bool
  multigraph :: bool
  connectableEdges :: bool
  allowDanglingEdges :: bool
  cloneInvalidEdges :: bool
  disconnectOnMove :: bool
  swimlaneSelectionEnabled :: bool
  swimlaneNesting :: bool

text \<open>An application overrides a method by assigning a function to the graph under its name: the fields
  \<open>own_\<close> hold these functions, \<open>None\<close> where the prototype's method is called.\<close>

record mxGraph = graph_flags +
  g_model :: mxGraphModel
  g_view :: mxGraphView
  selectionModel :: mxGraphSelectionModel
  stylesheet :: mxStylesheet
  multiplicities :: "mxMultiplicity list option"
  imageBundles :: "mxImageBundle list"
  gridSize :: jsnum
  tolerance :: jsnum
  defaultOverlap :: jsnum
  defaultParent :: "cref option"
  alternateEdgeStyle :: "string option"
  maximumGraphBounds :: "mxRectangle option"
  own_isCellVisible :: "(cref option \<Rightarrow> mxGraphModel \<Rightarrow> bool) option"
  own_isCellLocked :: "(cref option \<Rightarrow> mxGraphModel \<Rightarrow> bool) option"
  own_isCellFoldable :: "(cref option \<Rightarrow> mxGraphModel \<Rightarrow> bool) option"
  g_fired :: "graph_event list"

definition default_flags :: graph_flags where
  "default_flags = \<lparr>gridEnabled = True,
     portsEnabled = True,
     exportEnabled = True,
     importEnabled = True,
     cellsLocked = False,
     cellsCloneable = True,
     cellsEditable = True,
     cellsDeletable = True,
     cellsMovable = True,
     edgeLabelsMovable = True,
     vertexLabelsMovable = False,
     dropEnabled = False,
     splitEnabled = True,
     cellsResizable = True,
     cellsBendable = True,
     cellsSelectable = True,
     cellsDisconnectable = True,
     autoSizeCells = False,
     autoSizeCellsOnAdd = False,
     allowNegativeCoordinates = True,
     constrainChildren = True,
     constrainRelativeChildren = False,
     extendParents = True,
     extendParentsOnAdd = True,
     extendParentsOnMove = False,
     recursiveResize = False,
     collapseToPreferredSize = True,
     resetEdgesOnResize = False,
     resetEdgesOnMove = False,
     resetEdgesOnConnect = True,
     allowLoops = False,
     multigraph = True,
     connectableEdges = False,
     allowDanglingEdges = True,
     cloneInvalidEdges = False,
     disconnectOnMove = True,
     swimlaneSelectionEnabled = True,
     swimlaneNesting = True\<rparr>"

text \<open>The constructor, on a model and a style sheet; the handlers and the renderer are left out.\<close>

definition new_mxGraph :: "mxGraphModel \<Rightarrow> mxStylesheet option \<Rightarrow> mxGraph" where
  "new_mxGraph model sheet =
     graph_flags.extend default_flags
       (mxGraph.fields model
          \<lparr>states = (\<lambda>_. None), scale = 1, translate = new_mxPoint None None, currentRoot = None,
           graphBounds = new_mxRectangle None None None None, v_fired = []\<rparr>
          new_mxGraphSelectionModel
          (case sheet of None \<Rightarrow> new_mxStylesheet | Some s \<Rightarrow> s)
          (Some []) [] 10 4 (1/2) None None None None None None [])"

definition g_fire :: "graph_event \<Rightarrow> mxGraph \<Rightarrow> mxGraph" where
  "g_fire ev g = g\<lparr>g_fired := g_fired g @ [ev]\<rparr>"

text \<open>An operation of the model, as one of the graph.\<close>

definition with_model :: "(mxGraphModel \<Rightarrow> mxGraphModel option) \<Rightarrow> mxGraph \<Rightarrow> mxGraph option" where
  "with_model f g = map_option (\<lambda>m. g\<lparr>g_model := m\<rparr>) (f (g_model g))"

text \<open>\<open>beginUpdate\<close>, a block, and \<open>endUpdate\<close> in the \<open>finally\<close> part.\<close>

definition in_update_do :: "(mxGraph \<Rightarrow> mxGraph option) \<Rightarrow> mxGraph \<Rightarrow> mxGraph option" where
  "in_update_do f g =
     map_option (\<lambda>g. g\<lparr>g_model := endUpdate (g_model g)\<rparr>) (f (g\<lparr>g_model := beginUpdate (g_model g)\<rparr>))"

subsection \<open>Settings\<close>

definition isGridEnabled :: "mxGraph \<Rightarrow> bool" where "isGridEnabled g = gridEnabled g"
definition setGridEnabled :: "bool \<Rightarrow> mxGraph \<Rightarrow> mxGraph" where "setGridEnabled b g = g\<lparr>gridEnabled := b\<rparr>"

definition isPortsEnabled :: "mxGraph \<Rightarrow> bool" where "isPortsEnabled g = portsEnabled g"
definition setPortsEnabled :: "bool \<Rightarrow> mxGraph \<Rightarrow> mxGraph" where "setPortsEnabled b g = g\<lparr>portsEnabled := b\<rparr>"

definition isCellsLocked :: "mxGraph \<Rightarrow> bool" where "isCellsLocked g = cellsLocked g"
definition setCellsLocked :: "bool \<Rightarrow> mxGraph \<Rightarrow> mxGraph" where "setCellsLocked b g = g\<lparr>cellsLocked := b\<rparr>"

definition isCellsCloneable :: "mxGraph \<Rightarrow> bool" where "isCellsCloneable g = cellsCloneable g"
definition setCellsCloneable :: "bool \<Rightarrow> mxGraph \<Rightarrow> mxGraph" where "setCellsCloneable b g = g\<lparr>cellsCloneable := b\<rparr>"

definition isCellsEditable :: "mxGraph \<Rightarrow> bool" where "isCellsEditable g = cellsEditable g"
definition setCellsEditable :: "bool \<Rightarrow> mxGraph \<Rightarrow> mxGraph" where "setCellsEditable b g = g\<lparr>cellsEditable := b\<rparr>"

definition isCellsDeletable :: "mxGraph \<Rightarrow> bool" where "isCellsDeletable g = cellsDeletable g"
definition setCellsDeletable :: "bool \<Rightarrow> mxGraph \<Rightarrow> mxGraph" where "setCellsDeletable b g = g\<lparr>cellsDeletable := b\<rparr>"

definition isCellsMovable :: "mxGraph \<Rightarrow> bool" where "isCellsMovable g = cellsMovable g"
definition setCellsMovable :: "bool \<Rightarrow> mxGraph \<Rightarrow> mxGraph" where "setCellsMovable b g = g\<lparr>cellsMovable := b\<rparr>"

definition isEdgeLabelsMovable :: "mxGraph \<Rightarrow> bool" where "isEdgeLabelsMovable g = edgeLabelsMovable g"
definition setEdgeLabelsMovable :: "bool \<Rightarrow> mxGraph \<Rightarrow> mxGraph" where "setEdgeLabelsMovable b g = g\<lparr>edgeLabelsMovable := b\<rparr>"

definition isVertexLabelsMovable :: "mxGraph \<Rightarrow> bool" where "isVertexLabelsMovable g = vertexLabelsMovable g"
definition setVertexLabelsMovable :: "bool \<Rightarrow> mxGraph \<Rightarrow> mxGraph" where "setVertexLabelsMovable b g = g\<lparr>vertexLabelsMovable := b\<rparr>"

definition isDropEnabled :: "mxGraph \<Rightarrow> bool" where "isDropEnabled g = dropEnabled g"
definition setDropEnabled :: "bool \<Rightarrow> mxGraph \<Rightarrow> mxGraph" where "setDropEnabled b g = g\<lparr>dropEnabled := b\<rparr>"

definition isSplitEnabled :: "mxGraph \<Rightarrow> bool" where "isSplitEnabled g = splitEnabled g"
definition setSplitEnabled :: "bool \<Rightarrow> mxGraph \<Rightarrow> mxGraph" where "setSplitEnabled b g = g\<lparr>splitEnabled := b\<rparr>"

definition isCellsResizable :: "mxGraph \<Rightarrow> bool" where "isCellsResizable g = cellsResizable g"
definition setCellsResizable :: "bool \<Rightarrow> mxGraph \<Rightarrow> mxGraph" where "setCellsResizable b g = g\<lparr>cellsResizable := b\<rparr>"

definition isCellsBendable :: "mxGraph \<Rightarrow> bool" where "isCellsBendable g = cellsBendable g"
definition setCellsBendable :: "bool \<Rightarrow> mxGraph \<Rightarrow> mxGraph" where "setCellsBendable b g = g\<lparr>cellsBendable := b\<rparr>"

definition isCellsSelectable :: "mxGraph \<Rightarrow> bool" where "isCellsSelectable g = cellsSelectable g"
definition setCellsSelectable :: "bool \<Rightarrow> mxGraph \<Rightarrow> mxGraph" where "setCellsSelectable b g = g\<lparr>cellsSelectable := b\<rparr>"

definition isCellsDisconnectable :: "mxGraph \<Rightarrow> bool" where "isCellsDisconnectable g = cellsDisconnectable g"
definition setCellsDisconnectable :: "bool \<Rightarrow> mxGraph \<Rightarrow> mxGraph" where "setCellsDisconnectable b g = g\<lparr>cellsDisconnectable := b\<rparr>"

definition isAutoSizeCells :: "mxGraph \<Rightarrow> bool" where "isAutoSizeCells g = autoSizeCells g"
definition setAutoSizeCells :: "bool \<Rightarrow> mxGraph \<Rightarrow> mxGraph" where "setAutoSizeCells b g = g\<lparr>autoSizeCells := b\<rparr>"

definition isAllowNegativeCoordinates :: "mxGraph \<Rightarrow> bool" where "isAllowNegativeCoordinates g = allowNegativeCoordinates g"
definition setAllowNegativeCoordinates :: "bool \<Rightarrow> mxGraph \<Rightarrow> mxGraph" where "setAllowNegativeCoordinates b g = g\<lparr>allowNegativeCoordinates := b\<rparr>"

definition isConstrainChildren :: "mxGraph \<Rightarrow> bool" where "isConstrainChildren g = constrainChildren g"
definition setConstrainChildren :: "bool \<Rightarrow> mxGraph \<Rightarrow> mxGraph" where "setConstrainChildren b g = g\<lparr>constrainChildren := b\<rparr>"

definition isConstrainRelativeChildren :: "mxGraph \<Rightarrow> bool" where "isConstrainRelativeChildren g = constrainRelativeChildren g"
definition setConstrainRelativeChildren :: "bool \<Rightarrow> mxGraph \<Rightarrow> mxGraph" where "setConstrainRelativeChildren b g = g\<lparr>constrainRelativeChildren := b\<rparr>"

definition isExtendParents :: "mxGraph \<Rightarrow> bool" where "isExtendParents g = extendParents g"
definition setExtendParents :: "bool \<Rightarrow> mxGraph \<Rightarrow> mxGraph" where "setExtendParents b g = g\<lparr>extendParents := b\<rparr>"

definition isExtendParentsOnAdd :: "mxGraph \<Rightarrow> bool" where "isExtendParentsOnAdd g = extendParentsOnAdd g"
definition setExtendParentsOnAdd :: "bool \<Rightarrow> mxGraph \<Rightarrow> mxGraph" where "setExtendParentsOnAdd b g = g\<lparr>extendParentsOnAdd := b\<rparr>"

definition isExtendParentsOnMove :: "mxGraph \<Rightarrow> bool" where "isExtendParentsOnMove g = extendParentsOnMove g"
definition setExtendParentsOnMove :: "bool \<Rightarrow> mxGraph \<Rightarrow> mxGraph" where "setExtendParentsOnMove b g = g\<lparr>extendParentsOnMove := b\<rparr>"

definition isRecursiveResize :: "mxGraph \<Rightarrow> bool" where "isRecursiveResize g = recursiveResize g"
definition setRecursiveResize :: "bool \<Rightarrow> mxGraph \<Rightarrow> mxGraph" where "setRecursiveResize b g = g\<lparr>recursiveResize := b\<rparr>"

definition isAllowLoops :: "mxGraph \<Rightarrow> bool" where "isAllowLoops g = allowLoops g"
definition setAllowLoops :: "bool \<Rightarrow> mxGraph \<Rightarrow> mxGraph" where "setAllowLoops b g = g\<lparr>allowLoops := b\<rparr>"

definition isMultigraph :: "mxGraph \<Rightarrow> bool" where "isMultigraph g = multigraph g"
definition setMultigraph :: "bool \<Rightarrow> mxGraph \<Rightarrow> mxGraph" where "setMultigraph b g = g\<lparr>multigraph := b\<rparr>"

definition isConnectableEdges :: "mxGraph \<Rightarrow> bool" where "isConnectableEdges g = connectableEdges g"
definition setConnectableEdges :: "bool \<Rightarrow> mxGraph \<Rightarrow> mxGraph" where "setConnectableEdges b g = g\<lparr>connectableEdges := b\<rparr>"

definition isAllowDanglingEdges :: "mxGraph \<Rightarrow> bool" where "isAllowDanglingEdges g = allowDanglingEdges g"
definition setAllowDanglingEdges :: "bool \<Rightarrow> mxGraph \<Rightarrow> mxGraph" where "setAllowDanglingEdges b g = g\<lparr>allowDanglingEdges := b\<rparr>"

definition isCloneInvalidEdges :: "mxGraph \<Rightarrow> bool" where "isCloneInvalidEdges g = cloneInvalidEdges g"
definition setCloneInvalidEdges :: "bool \<Rightarrow> mxGraph \<Rightarrow> mxGraph" where "setCloneInvalidEdges b g = g\<lparr>cloneInvalidEdges := b\<rparr>"

definition isDisconnectOnMove :: "mxGraph \<Rightarrow> bool" where "isDisconnectOnMove g = disconnectOnMove g"
definition setDisconnectOnMove :: "bool \<Rightarrow> mxGraph \<Rightarrow> mxGraph" where "setDisconnectOnMove b g = g\<lparr>disconnectOnMove := b\<rparr>"

definition isSwimlaneSelectionEnabled :: "mxGraph \<Rightarrow> bool" where "isSwimlaneSelectionEnabled g = swimlaneSelectionEnabled g"
definition setSwimlaneSelectionEnabled :: "bool \<Rightarrow> mxGraph \<Rightarrow> mxGraph" where "setSwimlaneSelectionEnabled b g = g\<lparr>swimlaneSelectionEnabled := b\<rparr>"

definition isSwimlaneNesting :: "mxGraph \<Rightarrow> bool" where "isSwimlaneNesting g = swimlaneNesting g"
definition setSwimlaneNesting :: "bool \<Rightarrow> mxGraph \<Rightarrow> mxGraph" where "setSwimlaneNesting b g = g\<lparr>swimlaneNesting := b\<rparr>"

definition getGridSize :: "mxGraph \<Rightarrow> jsnum" where "getGridSize g = gridSize g"
definition setGridSize :: "jsnum \<Rightarrow> mxGraph \<Rightarrow> mxGraph" where "setGridSize v g = g\<lparr>gridSize := v\<rparr>"

definition getTolerance :: "mxGraph \<Rightarrow> jsnum" where "getTolerance g = tolerance g"
definition setTolerance :: "jsnum \<Rightarrow> mxGraph \<Rightarrow> mxGraph" where "setTolerance v g = g\<lparr>tolerance := v\<rparr>"


subsection \<open>Styles\<close>

text \<open>\<open>encodeURIComponent\<close> on characters up to code 255.\<close>

definition hex_char :: "nat \<Rightarrow> char" where
  "hex_char n = ''0123456789ABCDEF'' ! n"

definition percent :: "nat \<Rightarrow> string" where
  "percent k = [CHR ''%'', hex_char (k div 16), hex_char (k mod 16)]"

definition encode_char :: "char \<Rightarrow> string" where
  "encode_char c =
     (let k = (of_char c :: nat)
      in if 48 \<le> k \<and> k \<le> 57 \<or> 65 \<le> k \<and> k \<le> 90 \<or> 97 \<le> k \<and> k \<le> 122 \<or> c \<in> set ''-_.!~*()'' \<or> k = 39
         then [c]
         else if k < 128 then percent k
         else percent (192 + k div 64) @ percent (128 + k mod 64))"

definition encodeURIComponent :: "string \<Rightarrow> string" where
  "encodeURIComponent s = concat (map encode_char s)"

text \<open>A key that is a number is looked up under its digits.\<close>

definition getImageFromBundles :: "style_value option \<Rightarrow> mxGraph \<Rightarrow> string option" where
  "getImageFromBundles key g =
     (case key of
        None \<Rightarrow> None
      | Some k \<Rightarrow>
          (case List.find (\<lambda>b. getImage (Some (style_value_string k)) b \<noteq> None) (imageBundles g) of
             None \<Rightarrow> None
           | Some b \<Rightarrow> getImage (Some (style_value_string k)) b))"

definition addImageBundle :: "mxImageBundle \<Rightarrow> mxGraph \<Rightarrow> mxGraph" where
  "addImageBundle b g = g\<lparr>imageBundles := imageBundles g @ [b]\<rparr>"

text \<open>The image of a data URI, escaped or marked as base 64.\<close>

definition data_image :: "string \<Rightarrow> string" where
  "data_image img =
     (if js_substring img 0 20 = ''data:image/svg+xml,<'' then
        js_substring img 0 19 @ encodeURIComponent (js_substring_from img 19)
      else if js_substring img 0 22 \<noteq> ''data:image/svg+xml,%3C'' then
        (let comma = js_str_indexOf img '',''
         in if comma > 0 \<and> js_substring img (comma - 7) (comma + 1) \<noteq> '';base64,''
            then js_substring img 0 comma @ '';base64,'' @ js_substring_from img (comma + 1)
            else img)
      else img)"

definition postProcessCellStyle :: "style_obj option \<Rightarrow> mxGraph \<Rightarrow> style_obj option option" where
  "postProcessCellStyle style g =
     (case style of
        None \<Rightarrow> Some None
      | Some st \<Rightarrow>
          (let key = map_of st ''image''; found = getImageFromBundles key g;
               st = (case found of Some i \<Rightarrow> AList.update ''image'' (SStr i) st | None \<Rightarrow> st)
           in case (case found of Some i \<Rightarrow> Some (SStr i) | None \<Rightarrow> key) of
                None \<Rightarrow> Some (Some st)
              | Some (SStr img) \<Rightarrow>
                  Some (Some (if js_substring img 0 11 = ''data:image/''
                              then AList.update ''image'' (SStr (data_image img)) st else st))
              | Some _ \<Rightarrow> None))"

definition graph_getCellStyle :: "cref option \<Rightarrow> mxGraph \<Rightarrow> style_obj option" where
  "graph_getCellStyle cell g =
     (let stylename = m_getStyle cell (g_model g);
          style = (if isEdge cell (g_model g) then getDefaultEdgeStyle (stylesheet g)
                   else getDefaultVertexStyle (stylesheet g))
      in map_option (\<lambda>style. case style of None \<Rightarrow> [] | Some st \<Rightarrow> st)
           (if stylename \<noteq> None
            then postProcessCellStyle (getCellStyle (stylesheet g) stylename style) g
            else Some style))"

text \<open>\<open>getState(cell)\<close> without \<open>create\<close>.\<close>

definition getState :: "cref option \<Rightarrow> mxGraph \<Rightarrow> mxCellState option" where
  "getState cell g = (case cell of None \<Rightarrow> None | Some c \<Rightarrow> states (g_view g) c)"

text \<open>\<open>(state != null) ? state.style : this.getCellStyle(cell)\<close>.\<close>

definition style_of :: "cref option \<Rightarrow> mxGraph \<Rightarrow> style_obj option" where
  "style_of cell g = (case getState cell g of Some st \<Rightarrow> cs_style st | None \<Rightarrow> graph_getCellStyle cell g)"

text \<open>\<open>pts[(isSource) ? 0 : pts.length - 1]\<close> for the \<open>absolutePoints\<close> of a state.\<close>

definition end_point :: "bool \<Rightarrow> mxCellState \<Rightarrow> mxPoint option" where
  "end_point source st =
     (let pts = entries (absolutePoints st)
      in Option.bind (js_at pts (if source then 0 else int (length pts) - 1)) (\<lambda>p. p))"

text \<open>\<open>style[key] != 0\<close>: a missing entry, a function and a string that is no number are not 0.\<close>

definition not_zero :: "style_obj \<Rightarrow> string \<Rightarrow> bool" where
  "not_zero style key \<longleftrightarrow>
     (case map_of style key of None \<Rightarrow> True | Some v \<Rightarrow> style_value_number v \<noteq> Some 0)"

subsection \<open>What may be done with a cell\<close>

definition isCellVisible :: "cref option \<Rightarrow> mxGraph \<Rightarrow> bool" where
  "isCellVisible cell g =
     (case own_isCellVisible g of Some f \<Rightarrow> f cell (g_model g) | None \<Rightarrow> isVisible cell (g_model g))"

definition isCellCollapsed :: "cref option \<Rightarrow> mxGraph \<Rightarrow> bool" where
  "isCellCollapsed cell g = isCollapsed cell (g_model g)"

definition isCellConnectable :: "cref option \<Rightarrow> mxGraph \<Rightarrow> bool" where
  "isCellConnectable cell g = isConnectable cell (g_model g)"

definition isCellLocked :: "cref option \<Rightarrow> mxGraph \<Rightarrow> bool" where
  "isCellLocked cell g =
     (case own_isCellLocked g of
        Some f \<Rightarrow> f cell (g_model g)
      | None \<Rightarrow>
          isCellsLocked g \<or>
          (case m_getGeometry cell (g_model g) of
             None \<Rightarrow> False
           | Some geo \<Rightarrow> isVertex cell (g_model g) \<and> g_relative (geo_at (g_model g) geo)))"

text \<open>A filter whose test may not complete.\<close>

fun filter_opt :: "('a \<Rightarrow> bool option) \<Rightarrow> 'a list \<Rightarrow> 'a list option" where
  "filter_opt f [] = Some []"
| "filter_opt f (x # xs) =
     (case f x of
        None \<Rightarrow> None
      | Some b \<Rightarrow> map_option (\<lambda>ys. if b then x # ys else ys) (filter_opt f xs))"

definition isCellCloneable :: "cref option \<Rightarrow> mxGraph \<Rightarrow> bool option" where
  "isCellCloneable cell g =
     map_option (\<lambda>style. isCellsCloneable g \<and> not_zero style ''cloneable'') (style_of cell g)"

definition getCloneableCells :: "cref option list \<Rightarrow> mxGraph \<Rightarrow> cref option list option" where
  "getCloneableCells cs g = filter_opt (\<lambda>c. isCellCloneable c g) cs"

definition canExportCell :: "cref option \<Rightarrow> mxGraph \<Rightarrow> bool" where
  "canExportCell cell g = exportEnabled g"

definition getExportableCells :: "cref option list option \<Rightarrow> mxGraph \<Rightarrow> cref option list option" where
  "getExportableCells cs g = filterCells cs (\<lambda>c. canExportCell c g)"

definition canImportCell :: "cref option \<Rightarrow> mxGraph \<Rightarrow> bool" where
  "canImportCell cell g = importEnabled g"

definition getImportableCells :: "cref option list option \<Rightarrow> mxGraph \<Rightarrow> cref option list option" where
  "getImportableCells cs g = filterCells cs (\<lambda>c. canImportCell c g)"

definition isCellSelectable :: "cref option \<Rightarrow> mxGraph \<Rightarrow> bool" where
  "isCellSelectable cell g = isCellsSelectable g"

definition isCellDeletable :: "cref option \<Rightarrow> mxGraph \<Rightarrow> bool option" where
  "isCellDeletable cell g =
     map_option (\<lambda>style. isCellsDeletable g \<and> not_zero style ''deletable'') (style_of cell g)"

definition getDeletableCells :: "cref option list \<Rightarrow> mxGraph \<Rightarrow> cref option list option" where
  "getDeletableCells cs g = filter_opt (\<lambda>c. isCellDeletable c g) cs"

definition isLabelMovable :: "cref option \<Rightarrow> mxGraph \<Rightarrow> bool" where
  "isLabelMovable cell g =
     (\<not> isCellLocked cell g \<and>
      (isEdge cell (g_model g) \<and> edgeLabelsMovable g \<or> isVertex cell (g_model g) \<and> vertexLabelsMovable g))"

definition isCellRotatable :: "cref option \<Rightarrow> mxGraph \<Rightarrow> bool option" where
  "isCellRotatable cell g = map_option (\<lambda>style. not_zero style ''rotatable'') (style_of cell g)"

definition isCellMovable :: "cref option \<Rightarrow> mxGraph \<Rightarrow> bool option" where
  "isCellMovable cell g =
     map_option (\<lambda>style. isCellsMovable g \<and> \<not> isCellLocked cell g \<and> not_zero style ''movable'')
       (style_of cell g)"

definition getMovableCells :: "cref option list \<Rightarrow> mxGraph \<Rightarrow> cref option list option" where
  "getMovableCells cs g = filter_opt (\<lambda>c. isCellMovable c g) cs"

text \<open>\<open>getValue(style, 'resizable', '1') != '0'\<close>: strings are compared as strings.\<close>

fun is_zero_string :: "style_value \<Rightarrow> bool" where
  "is_zero_string (SStr s) = (s = ''0'')"
| "is_zero_string v = (style_value_number v = Some 0)"

definition isCellResizable :: "cref option \<Rightarrow> mxGraph \<Rightarrow> bool option" where
  "isCellResizable cell g =
     map_option (\<lambda>style. isCellsResizable g \<and> \<not> isCellLocked cell g \<and>
         \<not> is_zero_string (the (getValue (Some style) ''resizable'' (Some (SStr ''1'')))))
       (style_of cell g)"

definition isCellBendable :: "cref option \<Rightarrow> mxGraph \<Rightarrow> bool option" where
  "isCellBendable cell g =
     map_option (\<lambda>style. isCellsBendable g \<and> \<not> isCellLocked cell g \<and> not_zero style ''bendable'')
       (style_of cell g)"

definition isCellEditable :: "cref option \<Rightarrow> mxGraph \<Rightarrow> bool option" where
  "isCellEditable cell g =
     map_option (\<lambda>style. isCellsEditable g \<and> \<not> isCellLocked cell g \<and> not_zero style ''editable'')
       (style_of cell g)"

definition isCellDisconnectable :: "cref option \<Rightarrow> mxGraph \<Rightarrow> bool" where
  "isCellDisconnectable cell g = (isCellsDisconnectable g \<and> \<not> isCellLocked cell g)"

definition isAutoSizeCell :: "cref option \<Rightarrow> mxGraph \<Rightarrow> bool option" where
  "isAutoSizeCell cell g =
     map_option (\<lambda>style. isAutoSizeCells g \<or>
         (case map_of style ''autosize'' of None \<Rightarrow> False | Some v \<Rightarrow> style_value_number v = Some 1))
       (style_of cell g)"

definition isExtendParent :: "cref option \<Rightarrow> mxGraph \<Rightarrow> bool" where
  "isExtendParent cell g = (\<not> isEdge cell (g_model g) \<and> isExtendParents g)"

definition isConstrainChild :: "cref option \<Rightarrow> mxGraph \<Rightarrow> bool" where
  "isConstrainChild cell g =
     (isConstrainChildren g \<and> \<not> isEdge (getParent cell (g_model g)) (g_model g))"

definition isAllowOverlapParent :: "cref option \<Rightarrow> mxGraph \<Rightarrow> bool" where
  "isAllowOverlapParent cell g = False"

definition getOverlap :: "cref option \<Rightarrow> mxGraph \<Rightarrow> jsnum" where
  "getOverlap cell g = (if isAllowOverlapParent cell g then defaultOverlap g else 0)"

definition isCellFoldable :: "cref option \<Rightarrow> mxGraph \<Rightarrow> bool option" where
  "isCellFoldable cell g =
     (case own_isCellFoldable g of
        Some f \<Rightarrow> Some (f cell (g_model g))
      | None \<Rightarrow>
          map_option (\<lambda>style. getChildCount cell (g_model g) > 0 \<and> not_zero style ''foldable'') (style_of cell g))"

definition getFoldableCells :: "cref option list \<Rightarrow> mxGraph \<Rightarrow> cref option list option" where
  "getFoldableCells cs g = filter_opt (\<lambda>c. isCellFoldable c g) cs"

definition isSwimlane :: "cref option \<Rightarrow> mxGraph \<Rightarrow> bool option" where
  "isSwimlane cell g =
     (if cell \<noteq> None \<and> getParent cell (g_model g) \<noteq> m_root (g_model g)
      then map_option (\<lambda>style. \<not> isEdge cell (g_model g) \<and> map_of style ''shape'' = Some (SStr ''swimlane''))
             (style_of cell g)
      else Some False)"

subsection \<open>Roots and parents\<close>

definition getCurrentRoot :: "mxGraph \<Rightarrow> cref option" where
  "getCurrentRoot g = currentRoot (g_view g)"

definition isValidRoot :: "cref option \<Rightarrow> mxGraph \<Rightarrow> bool" where
  "isValidRoot cell g \<longleftrightarrow> cell \<noteq> None"

definition getDefaultParent :: "mxGraph \<Rightarrow> cref option" where
  "getDefaultParent g =
     (case getCurrentRoot g of
        Some c \<Rightarrow> Some c
      | None \<Rightarrow>
          (case defaultParent g of
             Some c \<Rightarrow> Some c
           | None \<Rightarrow> getChildAt (m_root (g_model g)) 0 (g_model g)))"

definition setDefaultParent :: "cref option \<Rightarrow> mxGraph \<Rightarrow> mxGraph" where
  "setDefaultParent cell g = g\<lparr>defaultParent := cell\<rparr>"

definition graph_getChildCells ::
  "cref option \<Rightarrow> bool option \<Rightarrow> bool option \<Rightarrow> mxGraph \<Rightarrow> cref list" where
  "graph_getChildCells parent vertices edges g =
     (let parent = (case parent of Some p \<Rightarrow> Some p | None \<Rightarrow> getDefaultParent g);
          vertices = (case vertices of None \<Rightarrow> False | Some b \<Rightarrow> b);
          edges = (case edges of None \<Rightarrow> False | Some b \<Rightarrow> b)
      in filter (\<lambda>c. isCellVisible (Some c) g) (getChildCells parent vertices edges (g_model g)))"

definition graph_getChildVertices :: "cref option \<Rightarrow> mxGraph \<Rightarrow> cref list" where
  "graph_getChildVertices parent g = graph_getChildCells parent (Some True) (Some False) g"

definition graph_getChildEdges :: "cref option \<Rightarrow> mxGraph \<Rightarrow> cref list" where
  "graph_getChildEdges parent g = graph_getChildCells parent (Some False) (Some True) g"

subsection \<open>Visible terminals\<close>

text \<open>
  \<open>getVisibleTerminal\<close> of the view: the outermost collapsed or hidden ancestor of the terminal
  stands for it, and a layer is no terminal.
\<close>

fun visible_loop :: "nat \<Rightarrow> mxGraph \<Rightarrow> cref \<Rightarrow> cref option \<Rightarrow> cref option" where
  "visible_loop n g best result =
     (case result of
        None \<Rightarrow> Some best
      | Some r \<Rightarrow>
          (if Some r = currentRoot (g_view g) then Some best
           else case n of
             0 \<Rightarrow> None
           | Suc k \<Rightarrow>
               visible_loop k g
                 (if \<not> isCellVisible (Some best) g \<or> isCellCollapsed (Some r) g then r else best)
                 (cell_getParent r (g_model g))))"

declare visible_loop.simps [simp del]

definition view_getVisibleTerminal :: "cref \<Rightarrow> bool \<Rightarrow> mxGraph \<Rightarrow> cref option option" where
  "view_getVisibleTerminal edge source g =
     (let m = g_model g in
      case cell_getTerminal edge source m of
        None \<Rightarrow> Some None
      | Some t \<Rightarrow>
          map_option (\<lambda>best. if cell_getParent best m = m_root m then None else Some best)
            (visible_loop (walk_fuel m) g t (Some t)))"

text \<open>\<open>(state != null) ? state.getVisibleTerminal(source) : this.view.getVisibleTerminal(edge, source)\<close>.\<close>

definition visible_terminal :: "cref \<Rightarrow> bool \<Rightarrow> mxGraph \<Rightarrow> cref option option" where
  "visible_terminal edge source g =
     (case getState (Some edge) g of
        Some st \<Rightarrow> Some (if source then visibleSource st else visibleTarget st)
      | None \<Rightarrow> view_getVisibleTerminal edge source g)"

subsection \<open>A new graph\<close>

lemmas graph_defaults = new_mxGraph_def graph_flags.defs mxGraph.defs default_flags_def

lemma new_mxGraph_model [simp]: "g_model (new_mxGraph m sheet) = m"
  by (simp add: graph_defaults)

lemma new_mxGraph_settings [simp]:
  "multiplicities (new_mxGraph m sheet) = Some []" "allowLoops (new_mxGraph m sheet) = False"
  "multigraph (new_mxGraph m sheet) = True" "allowDanglingEdges (new_mxGraph m sheet) = True"
  "connectableEdges (new_mxGraph m sheet) = False" "states (g_view (new_mxGraph m sheet)) = (\<lambda>_. None)"
  "currentRoot (g_view (new_mxGraph m sheet)) = None" "imageBundles (new_mxGraph m sheet) = []"
  "cellsDeletable (new_mxGraph m sheet) = True" "cellsLocked (new_mxGraph m sheet) = False"
  by (simp_all add: graph_defaults)

end
