(* ===== verification/Validation.thy ===== *)
theory Validation
  imports Graph ModelProps
begin

text \<open>
  Validation of a graph: the rules of view/mxMultiplicity.js and the functions of view/mxGraph.js
  that apply them when an edge is connected and when the whole graph is checked.
  The texts come from util/mxResources.js: a table from keys to texts and the language in use.
\<close>

subsection \<open>Resources\<close>

record mxResources =
  resources :: "string jsobj"
  language :: string

text \<open>\<open>get(key)\<close> without parameters; \<open>a || b\<close> takes \<open>b\<close> for an empty text as well.\<close>

definition resources_get :: "string option \<Rightarrow> mxResources \<Rightarrow> string option" where
  "resources_get key env = (case key of None \<Rightarrow> None | Some k \<Rightarrow> map_of (resources env) k)"

definition get_or :: "mxResources \<Rightarrow> string option \<Rightarrow> string option" where
  "get_or env key =
     (case resources_get key env of None \<Rightarrow> key | Some v \<Rightarrow> if v = [] then key else Some v)"

definition resource_text :: "mxResources \<Rightarrow> string \<Rightarrow> string" where
  "resource_text env key = the (get_or env (Some (if language env \<noteq> ''none'' then key else [])))"

subsection \<open>Rules\<close>

definition new_mxMultiplicity ::
  "mxResources \<Rightarrow> bool \<Rightarrow> string option \<Rightarrow> string option \<Rightarrow> string option \<Rightarrow> limit option \<Rightarrow> limit option \<Rightarrow>
   string list option \<Rightarrow> string option \<Rightarrow> string option \<Rightarrow> bool option \<Rightarrow> mxMultiplicity"
where
  "new_mxMultiplicity env source type attr val lo hi neighbors countErr typeErr allowed =
     \<lparr>mp_source = source, mp_type = type, mp_attr = attr, mp_value = val,
      mp_min = (case lo of Some l \<Rightarrow> l | None \<Rightarrow> LNum 0),
      mp_max = (case hi of Some l \<Rightarrow> l | None \<Rightarrow> LText ''n''),
      validNeighbors = neighbors,
      validNeighborsAllowed = (case allowed of Some b \<Rightarrow> b | None \<Rightarrow> True),
      countError = get_or env countErr, typeError = get_or env typeErr\<rparr>"

text \<open>\<open>mxUtils.isNode\<close>: a missing attribute and a missing value are both null.\<close>

definition isNode ::
  "user_value option \<Rightarrow> string option \<Rightarrow> string option \<Rightarrow> string option \<Rightarrow> 'a heap_scheme \<Rightarrow> bool" where
  "isNode v nodeName attributeName attributeValue m =
     (case v of
        Some (VNode n) \<Rightarrow>
          (case nodeName of None \<Rightarrow> True | Some nm \<Rightarrow> js_toLower (node_name (node_at m n)) = js_toLower nm) \<and>
          (case attributeName of None \<Rightarrow> True
           | Some a \<Rightarrow> map_of (node_attributes (node_at m n)) a = attributeValue)
      | _ \<Rightarrow> False)"

text \<open>\<open>value == type\<close> compares a number with the number the string reads as.\<close>

definition checkType ::
  "user_value option \<Rightarrow> string option \<Rightarrow> string option \<Rightarrow> string option \<Rightarrow> 'a heap_scheme \<Rightarrow> bool" where
  "checkType v type attr attrValue m =
     (case v of
        None \<Rightarrow> False
      | Some (VNode n) \<Rightarrow> isNode v type attr attrValue m
      | Some (VStr s) \<Rightarrow> type = Some s
      | Some (VNum q) \<Rightarrow> (case type of None \<Rightarrow> False | Some t \<Rightarrow> js_Number t = Some q))"

definition checkTerminal :: "mxMultiplicity \<Rightarrow> cref option \<Rightarrow> 'a heap_scheme \<Rightarrow> bool" where
  "checkTerminal r terminal m = checkType (m_getValue terminal m) (mp_type r) (mp_attr r) (mp_value r) m"

definition checkNeighbors :: "mxMultiplicity \<Rightarrow> cref option \<Rightarrow> cref option \<Rightarrow> 'a heap_scheme \<Rightarrow> bool" where
  "checkNeighbors r source target m =
     (let sourceValue = m_getValue source m; targetValue = m_getValue target m
      in if \<exists>v \<in> set (the (validNeighbors r)).
              (mp_source r \<and> checkType targetValue (Some v) None None m) \<or>
              (\<not> mp_source r \<and> checkType sourceValue (Some v) None None m)
         then validNeighborsAllowed r else \<not> validNeighborsAllowed r)"

fun limit_value :: "limit \<Rightarrow> jsnum option" where
  "limit_value (LNum k) = Some k"
| "limit_value (LText s) = js_Number s"

definition reaches :: "int \<Rightarrow> limit \<Rightarrow> bool" where
  "reaches n l = (case limit_value l of None \<Rightarrow> False | Some k \<Rightarrow> of_int n \<ge> k)"

definition exceeds :: "int \<Rightarrow> limit \<Rightarrow> bool" where
  "exceeds n l = (case limit_value l of None \<Rightarrow> False | Some k \<Rightarrow> of_int n > k)"

definition falls_below :: "int \<Rightarrow> limit \<Rightarrow> bool" where
  "falls_below n l = (case limit_value l of None \<Rightarrow> False | Some k \<Rightarrow> of_int n < k)"

definition newline :: string where "newline = [char_of (10::nat)]"

definition mp_check ::
  "mxMultiplicity \<Rightarrow> cref option \<Rightarrow> cref option \<Rightarrow> int \<Rightarrow> int \<Rightarrow> 'a heap_scheme \<Rightarrow> string option" where
  "mp_check r source target sourceOut targetIn m =
     (let error =
        (if mp_source r \<and> checkTerminal r source m \<or> \<not> mp_source r \<and> checkTerminal r target m then
           (if countError r \<noteq> None \<and>
               (mp_source r \<and> (limit_value (mp_max r) = Some 0 \<or> reaches sourceOut (mp_max r)) \<or>
                \<not> mp_source r \<and> (limit_value (mp_max r) = Some 0 \<or> reaches targetIn (mp_max r)))
            then the (countError r) @ newline else []) @
           (if validNeighbors r \<noteq> None \<and> typeError r \<noteq> None \<and> length (the (validNeighbors r)) > 0 \<and>
               \<not> checkNeighbors r source target m
            then the (typeError r) @ newline else [])
         else [])
      in if length error > 0 then Some error else None)"

subsection \<open>Connections\<close>

definition isValidSource :: "cref option \<Rightarrow> mxGraph \<Rightarrow> bool" where
  "isValidSource cell g =
     (cell = None \<and> allowDanglingEdges g \<or>
      cell \<noteq> None \<and> (\<not> isEdge cell (g_model g) \<or> connectableEdges g) \<and> isCellConnectable cell g)"

definition isValidTarget :: "cref option \<Rightarrow> mxGraph \<Rightarrow> bool" where
  "isValidTarget cell g = isValidSource cell g"

definition isValidConnection :: "cref option \<Rightarrow> cref option \<Rightarrow> mxGraph \<Rightarrow> bool" where
  "isValidConnection source target g = (isValidSource source g \<and> isValidTarget target g)"

definition validateEdge :: "cref option \<Rightarrow> cref option \<Rightarrow> cref option \<Rightarrow> mxGraph \<Rightarrow> string option" where
  "validateEdge edge source target g = None"

definition validateCell :: "cref option \<Rightarrow> mxGraph \<Rightarrow> string option" where
  "validateCell cell g = None"

definition text_of :: "string option \<Rightarrow> string" where
  "text_of err = (case err of None \<Rightarrow> [] | Some e \<Rightarrow> e)"

definition getEdgeValidationError ::
  "mxResources \<Rightarrow> cref option \<Rightarrow> cref option \<Rightarrow> cref option \<Rightarrow> mxGraph \<Rightarrow> string option" where
  "getEdgeValidationError env edge source target g =
     (let m = g_model g in
      if edge \<noteq> None \<and> \<not> isAllowDanglingEdges g \<and> (source = None \<or> target = None) then Some []
      else if edge \<noteq> None \<and> getTerminal edge True m = None \<and> getTerminal edge False m = None then None
      else if \<not> allowLoops g \<and> source = target \<and> source \<noteq> None then Some []
      else if \<not> isValidConnection source target g then Some []
      else if source \<noteq> None \<and> target \<noteq> None then
        (let error = (if \<not> multigraph g then
               (let tmp = getEdgesBetween source target (Some True) m
                in if length tmp > 1 \<or> (length tmp = 1 \<and> Some (hd tmp) \<noteq> edge)
                   then resource_text env ''alreadyConnected'' @ newline else [])
               else []);
             sourceOut = getDirectedEdgeCount source True edge m;
             targetIn = getDirectedEdgeCount target False edge m;
             error = error @ (case multiplicities g of None \<Rightarrow> []
               | Some rules \<Rightarrow>
                   concat (map (\<lambda>r. text_of (mp_check r source target sourceOut targetIn m)) rules));
             error = error @ text_of (validateEdge edge source target g)
         in if length error > 0 then Some error else None)
      else (if allowDanglingEdges g then None else Some []))"

definition isEdgeValid ::
  "mxResources \<Rightarrow> cref option \<Rightarrow> cref option \<Rightarrow> cref option \<Rightarrow> mxGraph \<Rightarrow> bool" where
  "isEdgeValid env edge source target g \<longleftrightarrow> getEdgeValidationError env edge source target g = None"

definition isSplitTarget ::
  "mxResources \<Rightarrow> cref option \<Rightarrow> cref option list option \<Rightarrow> mxGraph \<Rightarrow> bool option" where
  "isSplitTarget env target cs g =
     (let m = g_model g in
      case cs of
        Some [c] \<Rightarrow>
          (if isEdge target m \<and> isCellConnectable c g \<and>
              getEdgeValidationError env target (getTerminal target True m) c g = None
           then Option.bind (isAncestor c (getTerminal target True m) m) (\<lambda>above.
                  if above then Some False
                  else map_option Not (isAncestor c (getTerminal target False m) m))
           else Some False)
      | _ \<Rightarrow> Some False)"

subsection \<open>The whole graph\<close>

text \<open>The count error of a rule that has none is the text \<open>undefined\<close>.\<close>

definition count_text :: "mxMultiplicity \<Rightarrow> string" where
  "count_text r = (case countError r of None \<Rightarrow> ''undefined'' | Some e \<Rightarrow> e)"

definition getCellValidationError :: "cref option \<Rightarrow> mxGraph \<Rightarrow> string option" where
  "getCellValidationError cell g =
     (let m = g_model g;
          outCount = getDirectedEdgeCount cell True None m;
          inCount = getDirectedEdgeCount cell False None m;
          v = m_getValue cell m;
          error = (case multiplicities g of None \<Rightarrow> []
            | Some rules \<Rightarrow> concat (map (\<lambda>r.
                if mp_source r \<and> isNode v (mp_type r) (mp_attr r) (mp_value r) m \<and>
                   (exceeds outCount (mp_max r) \<or> falls_below outCount (mp_min r))
                then count_text r @ newline
                else if \<not> mp_source r \<and> isNode v (mp_type r) (mp_attr r) (mp_value r) m \<and>
                   (exceeds inCount (mp_max r) \<or> falls_below inCount (mp_min r))
                then count_text r @ newline else []) rules))
      in if length error > 0 then Some error else None)"

text \<open>
  \<open>validateGraph\<close> sets a warning on every cell below the given one and has the view validate;
  these calls are returned in order, with the warning of the cell itself.  The context object is
  passed on but read by nothing here.
\<close>

datatype validation_call = SetCellWarning "cref option" "string option" | ViewValidate

definition html_breaks :: "string \<Rightarrow> string" where
  "html_breaks s = concat (map (\<lambda>c. if [c] = newline then ''<br>'' else [c]) s)"

fun validate_children ::
  "(cref option \<Rightarrow> (string option \<times> validation_call list) option) \<Rightarrow> cref option list \<Rightarrow>
   (bool \<times> validation_call list) option"
where
  "validate_children f [] = Some (True, [])"
| "validate_children f (c # cs) =
     (case f c of
        None \<Rightarrow> None
      | Some (warn, calls) \<Rightarrow>
          map_option (\<lambda>(valid, rest). (warn = None \<and> valid,
              calls @ SetCellWarning c (map_option html_breaks warn) # rest))
            (validate_children f cs))"

fun validateGraph_n ::
  "nat \<Rightarrow> mxResources \<Rightarrow> mxGraph \<Rightarrow> cref option \<Rightarrow> (string option \<times> validation_call list) option" where
  "validateGraph_n 0 env g cell = None"
| "validateGraph_n (Suc n) env g cell =
     (let m = g_model g in
      map_option
        (\<lambda>(isValid, calls).
           let warning = (if isCellCollapsed cell g \<and> \<not> isValid
                 then resource_text env ''containsValidationErrors'' @ newline else []);
               warning = warning @ text_of
                 (if isEdge cell m
                  then getEdgeValidationError env cell (getTerminal cell True m) (getTerminal cell False m) g
                  else getCellValidationError cell g);
               warning = warning @ text_of (validateCell cell g);
               calls = calls @ (if getParent cell m = None then [ViewValidate] else [])
           in (if length warning > 0 \<or> \<not> isValid then Some warning else None, calls))
        (validate_children (validateGraph_n n env g)
           (map (\<lambda>i. getChildAt cell i m) (upto_count (getChildCount cell m)))))"

definition validateGraph ::
  "mxResources \<Rightarrow> cref option \<Rightarrow> mxGraph \<Rightarrow> (string option \<times> validation_call list) option" where
  "validateGraph env cell g =
     validateGraph_n (Suc (walk_fuel (g_model g))) env g
       (case cell of Some c \<Rightarrow> Some c | None \<Rightarrow> m_root (g_model g))"

subsection \<open>What is accepted\<close>

text \<open>A rule holds of a connection: where it applies, its end is not full and the opposite type is
  one it allows; a rule without a text never objects.\<close>

definition rule_holds :: "mxMultiplicity \<Rightarrow> cref option \<Rightarrow> cref option \<Rightarrow> int \<Rightarrow> int \<Rightarrow> 'a heap_scheme \<Rightarrow> bool" where
  "rule_holds r source target sourceOut targetIn m \<longleftrightarrow>
     (checkTerminal r (if mp_source r then source else target) m \<longrightarrow>
        (countError r \<noteq> None \<longrightarrow>
           limit_value (mp_max r) \<noteq> Some 0 \<and>
           \<not> reaches (if mp_source r then sourceOut else targetIn) (mp_max r)) \<and>
        (typeError r \<noteq> None \<and> entries (validNeighbors r) \<noteq> [] \<longrightarrow> checkNeighbors r source target m))"

lemma newline_not_Nil [simp]: "newline \<noteq> []"
  by (simp add: newline_def)

lemma error_None_iff:
  "(let error = (if c then (if p then x @ newline else []) @ (if q then y @ newline else []) else [])
    in if length error > 0 then Some error else None) = None \<longleftrightarrow> (c \<longrightarrow> \<not> p \<and> \<not> q)"
  by simp

lemma entries_not_Nil: "xs \<noteq> None \<and> length (the xs) > 0 \<longleftrightarrow> entries xs \<noteq> []"
  by (cases xs) auto

lemma mp_check_None_iff:
  "mp_check r source target sourceOut targetIn m = None \<longleftrightarrow> rule_holds r source target sourceOut targetIn m"
proof -
  have neigh: "(validNeighbors r \<noteq> None \<and> typeError r \<noteq> None \<and> length (the (validNeighbors r)) > 0 \<and> n) =
      (typeError r \<noteq> None \<and> entries (validNeighbors r) \<noteq> [] \<and> n)" for n
    using entries_not_Nil [of "validNeighbors r"] by blast
  show ?thesis
    unfolding mp_check_def error_None_iff rule_holds_def neigh by (cases "mp_source r") auto
qed

lemma text_of_mp_check: "text_of (mp_check r s t a b m) = [] \<longleftrightarrow> mp_check r s t a b m = None"
  by (auto simp: text_of_def mp_check_def Let_def split: option.splits)

lemma getDirectedEdgeCount_card:
  assumes "edge_inv m"
  shows "getDirectedEdgeCount (Some q) out ign m =
     int (card {x \<in> set (edges_of m q). Some x \<noteq> ign \<and> cell_getTerminal x out m = Some q})"
proof -
  let ?P = "\<lambda>x. Some x \<noteq> ign \<and> cell_getTerminal x out m = Some q"
  have "length (filter ?P (edges_of m q)) = card ({x. ?P x} \<inter> set (edges_of m q))"
    using edge_invD(1) [OF assms, of q] by (rule distinct_length_filter)
  also have "{x. ?P x} \<inter> set (edges_of m q) = {x \<in> set (edges_of m q). ?P x}" by blast
  finally show ?thesis by (simp add: getDirectedEdgeCount_def edge_list_def)
qed

lemma count_insertEdge:
  assumes "edge_inv m"
  shows "getDirectedEdgeCount (Some q) out (Some e) (cell_insertEdge t (Some e) b m) =
     getDirectedEdgeCount (Some q) out (Some e) m"
proof -
  let ?m = "cell_insertEdge t (Some e) b m"
  have "{x \<in> set (edges_of ?m q). Some x \<noteq> Some e \<and> cell_getTerminal x out ?m = Some q} =
      {x \<in> set (edges_of m q). Some x \<noteq> Some e \<and> cell_getTerminal x out m = Some q}"
    using terminal_edges_other [OF assms, of _ e "Some t" b q]
    by (auto simp: terminalForCellChanged_def Let_def insertEdge_getTerminal)
  then show ?thesis
    by (simp only: getDirectedEdgeCount_card [OF assms] getDirectedEdgeCount_card [OF edge_inv_insertEdge [OF assms]])
qed

lemma count_one_more:
  assumes "edge_inv m"
  shows "getDirectedEdgeCount (Some q) out None m \<le> getDirectedEdgeCount (Some q) out (Some e) m + 1"
proof -
  let ?A = "{x \<in> set (edges_of m q). cell_getTerminal x out m = Some q}"
  let ?B = "{x \<in> set (edges_of m q). Some x \<noteq> Some e \<and> cell_getTerminal x out m = Some q}"
  have "?A \<subseteq> insert e ?B" by auto
  then have "card ?A \<le> card (insert e ?B)" by (intro card_mono) auto
  also have "\<dots> \<le> Suc (card ?B)" by (simp add: card_insert_if)
  finally show ?thesis by (simp add: getDirectedEdgeCount_card [OF assms])
qed

lemma count_without:
  assumes "edge_inv m"
  shows "getDirectedEdgeCount (Some q) out ign m \<le> getDirectedEdgeCount (Some q) out None m"
  unfolding getDirectedEdgeCount_card [OF assms] by (auto intro!: card_mono)

lemma single_entry:
  "distinct l \<Longrightarrow> \<not> (length l > 1 \<or> length l = 1 \<and> Some (hd l) \<noteq> x) \<longleftrightarrow> (\<forall>e \<in> set l. Some e = x)"
  by (cases l; cases "tl l") auto

lemma no_edge_between_iff:
  assumes "edge_inv m" and "\<And>e. edge_linked e m"
  shows "\<not> (length (getEdgesBetween (Some s) (Some t) (Some True) m) > 1 \<or>
      length (getEdgesBetween (Some s) (Some t) (Some True) m) = 1 \<and>
      Some (hd (getEdgesBetween (Some s) (Some t) (Some True) m)) \<noteq> edge) \<longleftrightarrow>
    (\<forall>e. cell_getTerminal e True m = Some s \<and> cell_getTerminal e False m = Some t \<longrightarrow> Some e = edge)"
    (is "\<not> (length ?l > 1 \<or> length ?l = 1 \<and> Some (hd ?l) \<noteq> edge) \<longleftrightarrow> ?R")
proof -
  have "distinct ?l"
    using edge_invD(1) [OF assms(1)] by (simp add: getEdgesBetween_def Let_def edge_list_def)
  note d = this [THEN single_entry, of edge]
  have "e \<in> set (edges_of m s)" if "cell_getTerminal e True m = Some s" for e
    using assms(2) [of e] that unfolding edge_linked_def by blast
  then have "set ?l = {e. cell_getTerminal e True m = Some s \<and> cell_getTerminal e False m = Some t}"
    unfolding getEdgesBetween_either [OF assms(2), of s t "Some True"] by auto
  with d show ?thesis by simp
qed

lemma edge_error_None_iff:
  "getEdgeValidationError env edge (Some s) (Some t) g = None \<longleftrightarrow>
     (edge \<noteq> None \<and> getTerminal edge True (g_model g) = None \<and> getTerminal edge False (g_model g) = None) \<or>
     ((s = t \<longrightarrow> allowLoops g) \<and> isValidConnection (Some s) (Some t) g \<and>
      (multigraph g \<or> \<not> (length (getEdgesBetween (Some s) (Some t) (Some True) (g_model g)) > 1 \<or>
         length (getEdgesBetween (Some s) (Some t) (Some True) (g_model g)) = 1 \<and>
         Some (hd (getEdgesBetween (Some s) (Some t) (Some True) (g_model g))) \<noteq> edge)) \<and>
      (\<forall>r \<in> set (entries (multiplicities g)). rule_holds r (Some s) (Some t)
         (getDirectedEdgeCount (Some s) True edge (g_model g))
         (getDirectedEdgeCount (Some t) False edge (g_model g)) (g_model g)))"
proof -
  have rules: "(case multiplicities g of None \<Rightarrow> []
      | Some rules \<Rightarrow> concat (map (\<lambda>r. text_of (mp_check r s t a b m)) rules)) = [] \<longleftrightarrow>
    (\<forall>r \<in> set (entries (multiplicities g)). rule_holds r s t a b m)"
    for s t a b and m :: mxGraphModel
    by (cases "multiplicities g") (auto simp: text_of_mp_check mp_check_None_iff)
  define crowded where "crowded \<longleftrightarrow> length (getEdgesBetween (Some s) (Some t) (Some True) (g_model g)) > 1 \<or>
     length (getEdgesBetween (Some s) (Some t) (Some True) (g_model g)) = 1 \<and>
     Some (hd (getEdgesBetween (Some s) (Some t) (Some True) (g_model g))) \<noteq> edge"
  show ?thesis
    unfolding getEdgeValidationError_def Let_def validateEdge_def crowded_def [symmetric]
    by (auto simp: rules text_of_def)
qed

subsection \<open>Validating the whole graph\<close>

text \<open>The text of the error of one cell, as \<open>validateGraph\<close> adds it up: an error without a text
  counts as none.\<close>

definition own_message :: "mxResources \<Rightarrow> mxGraph \<Rightarrow> cref \<Rightarrow> string" where
  "own_message env g c =
     text_of (if cell_isEdge c (g_model g)
       then getEdgeValidationError env (Some c) (cell_getTerminal c True (g_model g))
         (cell_getTerminal c False (g_model g)) g
       else getCellValidationError (Some c) g)"

text \<open>An error with a text: of an edge between its terminals, of any other cell by the rules.\<close>

definition has_text :: "mxResources \<Rightarrow> mxGraph \<Rightarrow> cref \<Rightarrow> bool" where
  "has_text env g c \<longleftrightarrow>
     (if cell_isEdge c (g_model g)
      then getEdgeValidationError env (Some c) (cell_getTerminal c True (g_model g)) (cell_getTerminal c False (g_model g)) g
        \<notin> {None, Some []}
      else getCellValidationError (Some c) g \<noteq> None)"

lemma own_message_text: "own_message env g c = [] \<longleftrightarrow> \<not> has_text env g c"
  by (auto simp: own_message_def has_text_def text_of_def getCellValidationError_def Let_def split: option.splits)

definition clean_below :: "mxResources \<Rightarrow> mxGraph \<Rightarrow> cref \<Rightarrow> bool" where
  "clean_below env g c \<longleftrightarrow> (\<forall>d. c \<in> set (ancestors (g_model g) d) \<longrightarrow> own_message env g d = [])"

lemma getChildAt_map:
  "map (\<lambda>i. getChildAt (Some c) i m) (upto_count (getChildCount (Some c) m)) = map Some (children_of m c)"
  by (rule nth_equalityI)
    (auto simp: upto_count_def getChildCount_def getChildAt_def cell_getChildCount_def
      cell_getChildAt_def children_of_def split: option.splits)

lemma validate_children_spec:
  assumes "\<And>c. c \<in> set cs \<Longrightarrow> f (Some c) = Some (w c, k c)"
  shows "validate_children f (map Some cs) = Some (\<forall>c \<in> set cs. w c = None,
    concat (map (\<lambda>c. k c @ [SetCellWarning (Some c) (map_option html_breaks (w c))]) cs))"
  using assms by (induction cs) auto

lemma validateGraph_n_spec:
  assumes wf: "heap_wf (g_model g)" and tree: "tree_inv (g_model g)"
  shows "n + length (ancestors (g_model g) c) \<ge> ncells (g_model g) + 2 \<Longrightarrow>
    \<exists>w calls. validateGraph_n n env g (Some c) = Some (w, calls) \<and> (w = None \<longleftrightarrow> clean_below env g c) \<and>
      (\<forall>d. (\<exists>x. SetCellWarning (Some d) x \<in> set calls) \<longleftrightarrow> d \<noteq> c \<and> c \<in> set (ancestors (g_model g) d)) \<and>
      (\<forall>d x. SetCellWarning (Some d) x \<in> set calls \<longrightarrow> (x = None \<longleftrightarrow> clean_below env g d))"
proof (induction n arbitrary: c)
  case 0
  with ancestors_length [OF wf, of c] show ?case by (simp add: walk_fuel_def)
next
  case (Suc n)
  let ?m = "g_model g" and ?f = "validateGraph_n n env g"
  let ?w = "\<lambda>d. fst (the (?f (Some d)))" and ?k = "\<lambda>d. snd (the (?f (Some d)))"
  have IH: "?f (Some d) = Some (?w d, ?k d) \<and> (?w d = None \<longleftrightarrow> clean_below env g d) \<and>
      (\<forall>e. (\<exists>x. SetCellWarning (Some e) x \<in> set (?k d)) \<longleftrightarrow> e \<noteq> d \<and> d \<in> set (ancestors ?m e)) \<and>
      (\<forall>e x. SetCellWarning (Some e) x \<in> set (?k d) \<longrightarrow> (x = None \<longleftrightarrow> clean_below env g e))"
    if "d \<in> set (children_of ?m c)" for d
  proof -
    from that have "cell_getParent d ?m = Some c" by (simp add: children_getParent [OF tree])
    then have "length (ancestors ?m d) = Suc (length (ancestors ?m c))"
      by (simp add: ancestors_parent [OF wf, of d])
    with Suc.prems have "n + length (ancestors ?m d) \<ge> ncells ?m + 2" by simp
    from Suc.IH [OF this] obtain w k where "?f (Some d) = Some (w, k)" "w = None \<longleftrightarrow> clean_below env g d"
      "\<forall>e. (\<exists>x. SetCellWarning (Some e) x \<in> set k) \<longleftrightarrow> e \<noteq> d \<and> d \<in> set (ancestors ?m e)"
      "\<forall>e x. SetCellWarning (Some e) x \<in> set k \<longrightarrow> (x = None \<longleftrightarrow> clean_below env g e)" by blast
    then show ?thesis by simp
  qed
  let ?calls = "concat (map (\<lambda>d. ?k d @ [SetCellWarning (Some d) (map_option html_breaks (?w d))]) (children_of ?m c))"
  have kids: "validate_children ?f (map Some (children_of ?m c)) =
      Some (\<forall>d \<in> set (children_of ?m c). ?w d = None, ?calls)"
    using IH by (intro validate_children_spec) blast
  have other: "d \<noteq> c" if "e \<in> set (children_of ?m c)" "e \<in> set (ancestors ?m d)" for d e
  proof
    assume "d = c"
    with that have "e \<in> set (ancestors ?m c)" by simp
    moreover have "c \<in> set (ancestors ?m e)" using that(1) below_iff [OF wf tree] ancestors_self [OF wf] by blast
    ultimately have "e = c" by (rule ancestors_antisym [OF wf])
    with that(1) have "(c, c) \<in> parent_rel ?m" by (simp add: children_getParent [OF tree] parent_rel_def)
    with wf show False by (auto simp: heap_wf_def)
  qed
  have calls: "SetCellWarning (Some d) x \<in> set ?calls \<longleftrightarrow>
      (\<exists>e \<in> set (children_of ?m c). SetCellWarning (Some d) x \<in> set (?k e) \<or>
         d = e \<and> x = map_option html_breaks (?w e))" for d x by auto
  have some: "(\<exists>x. SetCellWarning (Some d) x \<in> set ?calls) \<longleftrightarrow> d \<noteq> c \<and> c \<in> set (ancestors ?m d)" for d
  proof -
    have "(\<exists>x. SetCellWarning (Some d) x \<in> set ?calls) \<longleftrightarrow>
        (\<exists>e \<in> set (children_of ?m c). (\<exists>x. SetCellWarning (Some d) x \<in> set (?k e)) \<or> d = e)"
      unfolding calls by blast
    also have "\<dots> \<longleftrightarrow> (\<exists>e \<in> set (children_of ?m c). d \<noteq> e \<and> e \<in> set (ancestors ?m d) \<or> d = e)"
      using IH by (intro bex_cong refl) simp
    also have "\<dots> \<longleftrightarrow> (\<exists>e \<in> set (children_of ?m c). e \<in> set (ancestors ?m d))"
      using ancestors_self [OF wf] by (intro bex_cong refl) auto
    also have "\<dots> \<longleftrightarrow> d \<noteq> c \<and> c \<in> set (ancestors ?m d)"
      using below_iff [OF wf tree, of c d] other by blast
    finally show ?thesis .
  qed
  have each: "x = None \<longleftrightarrow> clean_below env g d" if "SetCellWarning (Some d) x \<in> set ?calls" for d x
    using that IH unfolding calls by fastforce
  have valid: "clean_below env g c \<longleftrightarrow> own_message env g c = [] \<and> (\<forall>d \<in> set (children_of ?m c). ?w d = None)"
  proof -
    have "clean_below env g c \<longleftrightarrow> own_message env g c = [] \<and> (\<forall>d \<in> set (children_of ?m c). clean_below env g d)"
      unfolding clean_below_def below_iff [OF wf tree, of c] by blast
    moreover have "?w d = None \<longleftrightarrow> clean_below env g d" if "d \<in> set (children_of ?m c)" for d
      using IH [OF that] by (elim conjE)
    ultimately show ?thesis by simp
  qed
  obtain w calls' where step: "validateGraph_n (Suc n) env g (Some c) = Some (w, ?calls @ calls')"
    "w = None \<longleftrightarrow> own_message env g c = [] \<and> (\<forall>d \<in> set (children_of ?m c). ?w d = None)"
    "\<And>d x. SetCellWarning d x \<notin> set calls'"
  proof
    show "validateGraph_n (Suc n) env g (Some c) = Some (
        if length ((if isCellCollapsed (Some c) g \<and> \<not> (\<forall>d \<in> set (children_of ?m c). ?w d = None)
              then resource_text env ''containsValidationErrors'' @ newline else []) @ own_message env g c) > 0 \<or>
           \<not> (\<forall>d \<in> set (children_of ?m c). ?w d = None)
        then Some ((if isCellCollapsed (Some c) g \<and> \<not> (\<forall>d \<in> set (children_of ?m c). ?w d = None)
              then resource_text env ''containsValidationErrors'' @ newline else []) @ own_message env g c) else None,
        ?calls @ (if cell_getParent c ?m = None then [ViewValidate] else []))"
      by (simp only: validateGraph_n.simps Let_def getChildAt_map kids option.map prod.case own_message_def
          validateCell_def text_of_def [of None] option.case append_Nil2 isEdge_def getTerminal_def getParent_def)
  qed (auto split: if_splits)
  show ?case
    using step valid some each by (intro exI [of _ w] exI [of _ "?calls @ calls'"]) auto
qed

subsection \<open>Properties\<close>

lemma sample_connectable:
  "c \<noteq> 5 \<Longrightarrow> g_model g = sample \<Longrightarrow> isValidSource (Some c) g"
  by (simp add: isValidSource_def isCellConnectable_def isConnectable_def cell_isConnectable_def isEdge_def
      cell_isEdge_def sample_cell_def blank_cell_def)

text \<open>C23: \<open>getEdgeValidationError\<close>, where edge lists and terminals agree: it accepts an edge between two cells
  exactly when the edge is a cell that has neither terminal in the model yet, whatever else holds of it (the code asks for the
  terminals of the model, not for those it is passed), or it is no loop unless loops are allowed, both ends take
  connections, no other edge connects them in that direction unless several may, and every rule holds, counted without the edge
  itself.  For a new edge that is no cell yet only the second can be.\<close>

theorem edge_validation_iff:
  assumes "edge_inv (g_model g)" and "\<And>e. edge_linked e (g_model g)"
  shows "getEdgeValidationError env edge (Some s) (Some t) g = None \<longleftrightarrow>
     (edge \<noteq> None \<and> getTerminal edge True (g_model g) = None \<and> getTerminal edge False (g_model g) = None) \<or>
     ((s = t \<longrightarrow> allowLoops g) \<and> isValidSource (Some s) g \<and> isValidTarget (Some t) g \<and>
      (multigraph g \<or> (\<forall>e. cell_getTerminal e True (g_model g) = Some s \<and>
         cell_getTerminal e False (g_model g) = Some t \<longrightarrow> Some e = edge)) \<and>
      (\<forall>r \<in> set (entries (multiplicities g)). rule_holds r (Some s) (Some t)
         (getDirectedEdgeCount (Some s) True edge (g_model g))
         (getDirectedEdgeCount (Some t) False edge (g_model g)) (g_model g)))"
  unfolding edge_error_None_iff no_edge_between_iff [OF assms] by (auto simp: isValidConnection_def)

theorem edge_validation_iff_witness:
  "getEdgeValidationError \<lparr>resources = [], language = ''en''\<rparr> (Some 5) (Some 3) (Some 4)
     ((new_mxGraph sample None)\<lparr>multigraph := False\<rparr>) = None \<and>
   getEdgeValidationError \<lparr>resources = [], language = ''en''\<rparr> None (Some 3) (Some 4)
     ((new_mxGraph sample None)\<lparr>multigraph := False\<rparr>) \<noteq> None"
proof -
  let ?g = "(new_mxGraph sample None)\<lparr>multigraph := False\<rparr>"
  have m: "g_model ?g = sample" by simp
  have "edge_inv (g_model ?g)" unfolding m by (rule sample_edge_inv)
  moreover have "edge_linked e (g_model ?g)" for e
    unfolding m by (auto simp: edge_linked_def sample_edges sample_terminal split: if_splits)
  ultimately show ?thesis
    by (simp only: edge_validation_iff)
      (auto simp: sample_connectable isValidTarget_def sample_terminal)
qed

text \<open>C25: Validation accepts a connection, of a new edge that is no cell yet, or of an edge that has a terminal already.  Once an edge
  is connected to these two ends, a new one or that edge, then for every rule with a text for its count and a number as its
  maximum, the end that the rule applies to has no more edges in the direction of the rule than the maximum.  Rules without such a text
  never object; minimums are only looked at by \<open>validateGraph\<close>; and an edge that is a cell without terminals is
  accepted unchecked.\<close>

theorem admitted_edge_keeps_limits:
  assumes "edge_inv (g_model g)"
    and "getEdgeValidationError env edge (Some s) (Some t) g = None"
    and "edge = None \<or>
      edge = Some e \<and> (cell_getTerminal e True (g_model g) \<noteq> None \<or> cell_getTerminal e False (g_model g) \<noteq> None)"
    and "r \<in> set (entries (multiplicities g))" and "countError r \<noteq> None"
    and "limit_value (mp_max r) = Some (of_int k)"
    and "checkTerminal r (Some (if mp_source r then s else t)) (g_model g)"
  shows "let m1 = snd (terminalForCellChanged (Some e) (Some s) True (g_model g));
             m2 = snd (terminalForCellChanged (Some e) (Some t) False m1)
         in getDirectedEdgeCount (Some (if mp_source r then s else t)) (mp_source r) None m2 \<le> k"
proof -
  let ?m = "g_model g" and ?q = "if mp_source r then s else t"
  let ?m1 = "cell_insertEdge s (Some e) True ?m"
  let ?m2 = "cell_insertEdge t (Some e) False ?m1"
  have "rule_holds r (Some s) (Some t) (getDirectedEdgeCount (Some s) True edge ?m)
      (getDirectedEdgeCount (Some t) False edge ?m) ?m"
    using assms(2-4) unfolding edge_error_None_iff getTerminal_def by auto
  with assms(5-7) have "getDirectedEdgeCount (Some ?q) (mp_source r) edge ?m < k"
    by (cases "mp_source r") (auto simp: rule_holds_def reaches_def)
  moreover have "getDirectedEdgeCount (Some ?q) b (Some e) ?m \<le> getDirectedEdgeCount (Some ?q) b edge ?m" for b
    using assms(3) count_without [OF assms(1)] by auto
  ultimately have "getDirectedEdgeCount (Some ?q) (mp_source r) (Some e) ?m < k" by (meson order_le_less_trans)
  moreover have "getDirectedEdgeCount (Some ?q) b (Some e) ?m2 = getDirectedEdgeCount (Some ?q) b (Some e) ?m" for b
    using count_insertEdge [OF assms(1)] count_insertEdge [OF edge_inv_insertEdge [OF assms(1)]] by simp
  moreover have "getDirectedEdgeCount (Some ?q) b None ?m2 \<le> getDirectedEdgeCount (Some ?q) b (Some e) ?m2 + 1" for b
    by (intro count_one_more edge_inv_insertEdge assms(1))
  ultimately have "getDirectedEdgeCount (Some ?q) (mp_source r) None ?m2 \<le> k" by (metis add1_zle_eq order_trans)
  then show ?thesis by (simp add: terminalForCellChanged_def Let_def split del: if_split)
qed

theorem admitted_edge_keeps_limits_witness:
  "let r = new_mxMultiplicity \<lparr>resources = [], language = ''en''\<rparr> True (Some ''A'') None None None (Some (LNum 1))
         None (Some ''full'') None None;
       m = sample\<lparr>cell_at := sample_cell(3 := (sample_cell 3)\<lparr>c_value := Some (VStr ''A'')\<rparr>)\<rparr>;
       m1 = snd (terminalForCellChanged (Some 5) (Some 3) True m);
       m2 = snd (terminalForCellChanged (Some 5) (Some 2) False m1)
   in getDirectedEdgeCount (Some 3) True None m2 \<le> 1"
proof -
  let ?env = "\<lparr>resources = [], language = ''en''\<rparr>"
  let ?r = "new_mxMultiplicity ?env True (Some ''A'') None None None (Some (LNum 1)) None (Some ''full'') None None"
  let ?m = "sample\<lparr>cell_at := sample_cell(3 := (sample_cell 3)\<lparr>c_value := Some (VStr ''A'')\<rparr>)\<rparr>"
  let ?g = "(new_mxGraph ?m None)\<lparr>multiplicities := Some [?r]\<rparr>"
  have m: "g_model ?g = ?m" by simp
  have t: "cell_getTerminal c b ?m = cell_getTerminal c b sample" for c b by (simp add: cell_getTerminal_def)
  have e: "edges_of ?m c = edges_of sample c" for c by (simp add: edges_of_def)
  have 1: "edge_inv (g_model ?g)" using sample_edge_inv unfolding m edge_inv_def t e .
  have r: "mp_source ?r" "countError ?r = Some ''full''" "mp_max ?r = LNum 1" "typeError ?r = None"
    "mp_type ?r = Some ''A''" by (simp_all add: new_mxMultiplicity_def get_or_def resources_get_def)
  have c: "checkTerminal ?r (Some 3) ?m" by (simp add: checkTerminal_def r m_getValue_def cell_getValue_def checkType_def)
  have n: "getDirectedEdgeCount (Some 3) True (Some 5) ?m = 0"
    unfolding getDirectedEdgeCount_def edge_list_def by (simp add: e sample_edges)
  have v: "isValidSource (Some c) ?g" if "c \<noteq> 5" for c
    using that unfolding isValidSource_def isCellConnectable_def m
    by (simp add: isConnectable_def cell_isConnectable_def isEdge_def cell_isEdge_def sample_cell_def blank_cell_def)
  have "rule_holds ?r (Some 3) (Some 2) (getDirectedEdgeCount (Some 3) True (Some 5) ?m)
      (getDirectedEdgeCount (Some 2) False (Some 5) ?m) ?m"
    unfolding rule_holds_def n by (simp add: r reaches_def)
  then have 2: "getEdgeValidationError ?env (Some 5) (Some 3) (Some 2) ?g = None"
    unfolding edge_error_None_iff m isValidConnection_def isValidTarget_def using v
    by simp
  have 3: "Some (5::cref) = None \<or> Some (5::cref) = Some 5 \<and>
      (cell_getTerminal 5 True (g_model ?g) \<noteq> None \<or> cell_getTerminal 5 False (g_model ?g) \<noteq> None)"
    unfolding m t by (simp add: sample_terminal)
  have 4: "?r \<in> set (entries (multiplicities ?g))" by simp
  have 5: "limit_value (mp_max ?r) = Some (of_int 1)" by (simp add: r)
  have "checkTerminal ?r (Some (if mp_source ?r then 3 else 2)) (g_model ?g)" unfolding m using c by (simp add: r)
  from admitted_edge_keeps_limits [OF 1 2 3 4 _ 5 this] show ?thesis unfolding m by (simp add: r Let_def)
qed

text \<open>C27: \<open>validateGraph\<close> ends.  It returns null exactly when no cell at or below the given one, hidden ones included, has
  an error with a text, and it sets a warning on each cell below it: null where nothing below that cell has one.  The
  empty text, which stands for an edge that is forbidden without a message (dangling, or a loop), is not reported, so that
  null is no proof that every edge is admitted.\<close>

theorem validateGraph_reports:
  assumes "heap_wf (g_model g)" and "tree_inv (g_model g)"
  shows "\<exists>w calls. validateGraph env (Some c) g = Some (w, calls) \<and>
     (w = None \<longleftrightarrow> (\<forall>d. isAncestor (Some c) (Some d) (g_model g) = Some True \<longrightarrow> \<not> has_text env g d)) \<and>
     (\<forall>d. (\<exists>x. SetCellWarning (Some d) x \<in> set calls) \<longleftrightarrow>
        d \<noteq> c \<and> isAncestor (Some c) (Some d) (g_model g) = Some True) \<and>
     (\<forall>d x. SetCellWarning (Some d) x \<in> set calls \<longrightarrow> (x = None \<longleftrightarrow>
        (\<forall>e. isAncestor (Some d) (Some e) (g_model g) = Some True \<longrightarrow> \<not> has_text env g e)))"
proof -
  have "ancestors (g_model g) c \<noteq> []" using ancestors_not_Nil [OF assms(1)] .
  then have "Suc (walk_fuel (g_model g)) + length (ancestors (g_model g) c) \<ge> ncells (g_model g) + 2"
    by (simp add: walk_fuel_def)
  from validateGraph_n_spec [OF assms this, of env] show ?thesis
    unfolding validateGraph_def clean_below_def isAncestor_wf(1) [OF assms(1)] by (simp add: own_message_text)
qed

theorem validateGraph_reports_witness:
  "\<exists>calls. validateGraph \<lparr>resources = [], language = ''en''\<rparr> (Some 0) (new_mxGraph sample None) = Some (None, calls)"
proof -
  let ?env = "\<lparr>resources = [], language = ''en''\<rparr>" and ?g = "new_mxGraph sample None"
  have m: "g_model ?g = sample" by simp
  have "own_message ?env ?g d = []" for d
  proof (cases "cell_isEdge d sample")
    case False
    then show ?thesis
      by (simp add: own_message_def m getCellValidationError_def Let_def text_of_def)
  next
    case True
    then have d: "d = 5" by (simp add: cell_isEdge_def sample_cell_def blank_cell_def split: if_splits)
    have "getEdgeValidationError ?env (Some 5) (Some 3) (Some 4) ?g = None"
      unfolding edge_error_None_iff m
      by (simp add: isValidConnection_def isValidTarget_def sample_connectable)
    then show ?thesis by (simp add: own_message_def m d True [unfolded d] sample_terminal text_of_def)
  qed
  then show ?thesis
    using validateGraph_reports [of ?g ?env 0] unfolding m own_message_text [symmetric] using sample_wf sample_tree by auto
qed

end
