(* ===== verification/GraphQueries.thy ===== *)
theory GraphQueries
  imports Graph ModelProps
begin

text \<open>
  Queries of view/mxGraph.js that see the graph as the view shows it: the edges at a cell and the
  cells opposite to it, by their visible terminals; the roots of a tree; and the traversal along
  edges, which layouts and applications use.
\<close>

subsection \<open>Edges by their visible terminals\<close>

definition isValidAncestor :: "cref option \<Rightarrow> cref option \<Rightarrow> bool \<Rightarrow> mxGraph \<Rightarrow> bool option" where
  "isValidAncestor cell parent recurse g =
     (if recurse then isAncestor parent cell (g_model g) else Some (getParent cell (g_model g) = parent))"

text \<open>One end of the test: the far terminal is below the parent, when there is one.\<close>

definition end_matches :: "bool \<Rightarrow> cref option \<Rightarrow> cref option \<Rightarrow> cref option \<Rightarrow> cref option \<Rightarrow> bool \<Rightarrow> mxGraph \<Rightarrow> bool option"
where
  "end_matches wanted near cell far parent recurse g =
     (if wanted \<and> near = cell
      then (if parent = None then Some True else isValidAncestor far parent recurse g) else Some False)"

definition edge_matches ::
  "cref option \<Rightarrow> cref option \<Rightarrow> bool \<Rightarrow> bool \<Rightarrow> bool \<Rightarrow> bool \<Rightarrow> mxGraph \<Rightarrow> cref \<Rightarrow> bool option" where
  "edge_matches cell parent incoming outgoing includeLoops recurse g e =
     Option.bind (visible_terminal e True g) (\<lambda>source.
     Option.bind (visible_terminal e False g) (\<lambda>target.
       if includeLoops \<and> source = target then Some True
       else if source = target then Some False
       else Option.bind (end_matches incoming target cell source parent recurse g) (\<lambda>found.
              if found then Some True else end_matches outgoing source cell target parent recurse g)))"

definition graph_getEdges ::
  "cref option \<Rightarrow> cref option \<Rightarrow> bool option \<Rightarrow> bool option \<Rightarrow> bool option \<Rightarrow> bool option \<Rightarrow> mxGraph \<Rightarrow> cref list option"
where
  "graph_getEdges cell parent incoming outgoing includeLoops recurse g =
     (let incoming = (case incoming of None \<Rightarrow> True | Some b \<Rightarrow> b);
          outgoing = (case outgoing of None \<Rightarrow> True | Some b \<Rightarrow> b);
          includeLoops = (case includeLoops of None \<Rightarrow> True | Some b \<Rightarrow> b);
          recurse = (case recurse of None \<Rightarrow> False | Some b \<Rightarrow> b);
          m = g_model g;
          collapsed = isCellCollapsed cell g;
          hidden = filter (\<lambda>child. collapsed \<or> \<not> isCellVisible (Some child) g)
            (case cell of None \<Rightarrow> [] | Some c \<Rightarrow> children_of m c);
          edges = concat (map (\<lambda>child. getEdges (Some child) (Some incoming) (Some outgoing) None m) hidden)
            @ getEdges cell (Some incoming) (Some outgoing) None m
      in filter_opt (edge_matches cell parent incoming outgoing includeLoops recurse g) edges)"

definition graph_getConnections :: "cref option \<Rightarrow> cref option \<Rightarrow> mxGraph \<Rightarrow> cref list option" where
  "graph_getConnections cell parent g = graph_getEdges cell parent (Some True) (Some True) (Some False) None g"

definition graph_getIncomingEdges :: "cref option \<Rightarrow> cref option \<Rightarrow> mxGraph \<Rightarrow> cref list option" where
  "graph_getIncomingEdges cell parent g = graph_getEdges cell parent (Some True) (Some False) (Some False) None g"

definition graph_getOutgoingEdges :: "cref option \<Rightarrow> cref option \<Rightarrow> mxGraph \<Rightarrow> cref list option" where
  "graph_getOutgoingEdges cell parent g = graph_getEdges cell parent (Some False) (Some True) (Some False) None g"

text \<open>A dictionary of cells answers by identity; here it is the list of the cells pushed.\<close>

fun graph_opposites_loop ::
  "cref option \<Rightarrow> bool \<Rightarrow> bool \<Rightarrow> mxGraph \<Rightarrow> cref list \<Rightarrow> cref list \<Rightarrow> cref list option" where
  "graph_opposites_loop terminal sources targets g [] terminals = Some terminals"
| "graph_opposites_loop terminal sources targets g (e # es) terminals =
     Option.bind (visible_terminal e True g) (\<lambda>source.
     Option.bind (visible_terminal e False g) (\<lambda>target.
       graph_opposites_loop terminal sources targets g es
         (if source = terminal \<and> target \<noteq> None \<and> target \<noteq> terminal \<and> targets
          then (if the target \<in> set terminals then terminals else terminals @ [the target])
          else if target = terminal \<and> source \<noteq> None \<and> source \<noteq> terminal \<and> sources
          then (if the source \<in> set terminals then terminals else terminals @ [the source])
          else terminals)))"

definition graph_getOpposites ::
  "cref list option \<Rightarrow> cref option \<Rightarrow> bool option \<Rightarrow> bool option \<Rightarrow> mxGraph \<Rightarrow> cref list option" where
  "graph_getOpposites edges terminal sources targets g =
     (let sources = (case sources of None \<Rightarrow> True | Some b \<Rightarrow> b);
          targets = (case targets of None \<Rightarrow> True | Some b \<Rightarrow> b)
      in case edges of
           None \<Rightarrow> Some []
         | Some es \<Rightarrow> graph_opposites_loop terminal sources targets g es [])"

definition graph_getEdgesBetween ::
  "cref option \<Rightarrow> cref option \<Rightarrow> bool option \<Rightarrow> mxGraph \<Rightarrow> cref list option" where
  "graph_getEdgesBetween source target directed g =
     (let directed = (case directed of None \<Rightarrow> False | Some b \<Rightarrow> b)
      in Option.bind (graph_getEdges source None None None None None g)
           (filter_opt (\<lambda>e.
              Option.bind (visible_terminal e True g) (\<lambda>src.
              Option.bind (visible_terminal e False g) (\<lambda>trg.
                Some ((src = source \<and> trg = target) \<or>
                      (\<not> directed \<and> src = target \<and> trg = source)))))))"

definition getCellsBeyond ::
  "jsnum \<Rightarrow> jsnum \<Rightarrow> cref option \<Rightarrow> bool \<Rightarrow> bool \<Rightarrow> mxGraph \<Rightarrow> cref list" where
  "getCellsBeyond x0 y0 parent rightHalfpane bottomHalfpane g =
     (if rightHalfpane \<or> bottomHalfpane then
        (case (case parent of Some p \<Rightarrow> Some p | None \<Rightarrow> getDefaultParent g) of
           None \<Rightarrow> []
         | Some p \<Rightarrow>
             filter (\<lambda>child. isCellVisible (Some child) g \<and>
                 (case getState (Some child) g of
                    None \<Rightarrow> False
                  | Some st \<Rightarrow> (\<not> rightHalfpane \<or> px (cs_bounds st) \<ge> x0) \<and>
                               (\<not> bottomHalfpane \<or> py (cs_bounds st) \<ge> y0)))
               (children_of (g_model g) p))
      else [])"

subsection \<open>Roots of a tree\<close>

text \<open>The numbers of edges that leave and enter a cell, among the given ones.\<close>

definition fans :: "cref \<Rightarrow> cref list \<Rightarrow> mxGraph \<Rightarrow> (int \<times> int) option" where
  "fans cell conns g =
     map_option (\<lambda>outs. (int (length outs), int (length conns) - int (length outs)))
       (filter_opt (\<lambda>e. map_option (\<lambda>src. src = Some cell) (view_getVisibleTerminal e True g)) conns)"

text \<open>The state of the loop: the roots found, the best cell so far and its surplus.\<close>

fun tree_roots_loop ::
  "cref \<Rightarrow> bool \<Rightarrow> bool \<Rightarrow> mxGraph \<Rightarrow> cref list \<Rightarrow> cref list \<times> cref option \<times> int \<Rightarrow>
   (cref list \<times> cref option \<times> int) option"
where
  "tree_roots_loop parent isolate invert g [] acc = Some acc"
| "tree_roots_loop parent isolate invert g (cell # cs) (roots, best, maxDiff) =
     (if isVertex (Some cell) (g_model g) \<and> isCellVisible (Some cell) g then
        Option.bind (graph_getConnections (Some cell) (if isolate then Some parent else None) g) (\<lambda>conns.
        Option.bind (fans cell conns g) (\<lambda>(fanOut, fanIn).
          let roots = (if invert \<and> fanOut = 0 \<and> fanIn > 0 \<or> \<not> invert \<and> fanIn = 0 \<and> fanOut > 0
                 then roots @ [cell] else roots);
              diff = (if invert then fanIn - fanOut else fanOut - fanIn)
          in tree_roots_loop parent isolate invert g cs
               (if diff > maxDiff then (roots, Some cell, diff) else (roots, best, maxDiff))))
      else tree_roots_loop parent isolate invert g cs (roots, best, maxDiff))"

definition findTreeRoots ::
  "cref option \<Rightarrow> bool option \<Rightarrow> bool option \<Rightarrow> mxGraph \<Rightarrow> cref list option" where
  "findTreeRoots parent isolate invert g =
     (case parent of
        None \<Rightarrow> Some []
      | Some p \<Rightarrow>
          map_option (\<lambda>(roots, best, _).
              if roots = [] \<and> best \<noteq> None then [the best] else roots)
            (tree_roots_loop p (case isolate of None \<Rightarrow> False | Some b \<Rightarrow> b)
               (case invert of None \<Rightarrow> False | Some b \<Rightarrow> b) g (children_of (g_model g) p) ([], None, 0)))"

subsection \<open>Traversal along edges\<close>

text \<open>
  \<open>traverse\<close>: the callback gets a cell and the edge it was reached by, and answers whether to
  go on from there (null counts as yes).  The state is the list of visited cells, in order, and the
  callback's own state.  The fuel bounds the depth.
\<close>

fun traverse_n ::
  "nat \<Rightarrow> 'a heap_scheme \<Rightarrow> bool \<Rightarrow> bool \<Rightarrow> (cref \<Rightarrow> cref option \<Rightarrow> 's \<Rightarrow> bool \<times> 's) \<Rightarrow>
   cref option \<Rightarrow> cref option \<Rightarrow> cref list \<times> 's \<Rightarrow> (cref list \<times> 's) option"
where
  "traverse_n n m directed inverted func None edge st = Some st"
| "traverse_n n m directed inverted func (Some vertex) edge (visited, s) =
     (if vertex \<in> set visited then Some (visited, s)
      else case n of
        0 \<Rightarrow> None
      | Suc k \<Rightarrow>
          (let (result, s) = func vertex edge s; visited = visited @ [vertex]
           in if result then
                for_each (\<lambda>e st.
                    let isSource = (cell_getTerminal e True m = Some vertex)
                    in if \<not> directed \<or> (\<not> inverted) = isSource
                       then traverse_n k m directed inverted func (cell_getTerminal e (\<not> isSource) m) (Some e) st
                       else Some st)
                  (edges_of m vertex) (visited, s)
              else Some (visited, s)))"

declare traverse_n.simps [simp del]

definition traverse ::
  "cref option \<Rightarrow> bool option \<Rightarrow> (cref \<Rightarrow> cref option \<Rightarrow> 's \<Rightarrow> bool \<times> 's) option \<Rightarrow> cref option \<Rightarrow>
   cref list option \<Rightarrow> bool option \<Rightarrow> 'a heap_scheme \<Rightarrow> 's \<Rightarrow> (cref list \<times> 's) option"
where
  "traverse vertex directed func edge visited inverted m s =
     (case func of
        None \<Rightarrow> Some (entries visited, s)
      | Some f \<Rightarrow>
          traverse_n (walk_fuel m) m (case directed of None \<Rightarrow> True | Some b \<Rightarrow> b)
            (case inverted of None \<Rightarrow> False | Some b \<Rightarrow> b) f vertex edge (entries visited, s))"

text \<open>The cells an edge leads to from a cell.\<close>

definition followed :: "'a heap_scheme \<Rightarrow> bool \<Rightarrow> bool \<Rightarrow> cref \<Rightarrow> cref \<Rightarrow> cref option" where
  "followed m directed inverted v e =
     (let isSource = (cell_getTerminal e True m = Some v)
      in if \<not> directed \<or> (\<not> inverted) = isSource then cell_getTerminal e (\<not> isSource) m else None)"

definition follow_rel :: "'a heap_scheme \<Rightarrow> bool \<Rightarrow> bool \<Rightarrow> (cref \<Rightarrow> bool) \<Rightarrow> (cref \<times> cref) set" where
  "follow_rel m directed inverted goes =
     {(v, w). goes v \<and> (\<exists>e \<in> set (edges_of m v). followed m directed inverted v e = Some w)}"

subsection \<open>What the traversal visits\<close>

text \<open>
  The callback's answer depends on the cell only; \<open>act\<close> is what it does to its state.  A run appends
  the cells it calls the callback on to the visited ones; \<open>ran\<close> says that these cells can be reached
  from the start, are new, and leave no followed cell unvisited.
\<close>

definition ran :: "(cref \<times> cref) set \<Rightarrow> cref set \<Rightarrow> cref list \<Rightarrow> cref list \<Rightarrow> bool" where
  "ran R starts visited new \<longleftrightarrow>
     distinct (visited @ new) \<and> set new \<subseteq> R\<^sup>* `` starts \<and> R `` set new \<subseteq> set visited \<union> set new"

lemma ran_Nil: "distinct visited \<Longrightarrow> ran R A visited []"
  by (simp add: ran_def)

lemma ran_append:
  assumes "ran R A visited new" and "ran R B (visited @ new) new'" and "B \<subseteq> R\<^sup>* `` A"
  shows "ran R A visited (new @ new')"
proof -
  have "R\<^sup>* `` B \<subseteq> R\<^sup>* `` A" using assms(3) by (auto intro: rtrancl_trans)
  moreover have "R `` (set new \<union> set new') \<subseteq> set visited \<union> (set new \<union> set new')"
    using assms(1,2) unfolding ran_def Image_Un by auto
  ultimately show ?thesis using assms(1,2) unfolding ran_def set_append append_assoc by auto
qed

lemma ran_from: "ran R B visited new \<Longrightarrow> B \<subseteq> R `` {v} \<Longrightarrow> ran R {v} visited new"
  unfolding ran_def by (blast intro: converse_rtrancl_into_rtrancl)

lemma traverse_n_ran:
  fixes m :: "'a heap_scheme"
  assumes fin: "finite U" and closed: "follow_rel m d i goes `` U \<subseteq> U"
    and func: "\<And>v e s. func v e s = (goes v, act v e s)"
  shows "card (U - set V) \<le> n \<Longrightarrow> set_option x \<subseteq> U \<Longrightarrow> distinct V \<Longrightarrow>
    \<exists>calls. traverse_n n m d i func x edge (V, s) =
        Some (V @ map fst calls, fold (\<lambda>(v, e). act v e) calls s) \<and>
      ran (follow_rel m d i goes) (set_option x) V (map fst calls) \<and> set_option x \<subseteq> set V \<union> set (map fst calls)"
proof (induction n arbitrary: x edge V s)
  case 0
  then have "U \<subseteq> set V" using fin by auto
  with 0 show ?case
    by (cases x) (auto simp: traverse_n.simps intro!: exI [of _ "[]"] ran_Nil)
next
  case (Suc n)
  let ?R = "follow_rel m d i goes"
  show ?case
  proof (cases "set_option x \<subseteq> set V")
    case True
    then show ?thesis using Suc.prems(3)
      by (cases x) (auto simp: traverse_n.simps intro!: exI [of _ "[]"] ran_Nil)
  next
    case False
    then obtain v where v: "x = Some v" "v \<notin> set V" by (cases x) auto
    with Suc.prems(2) have vU: "v \<in> U" by simp
    have "card (U - set (V @ [v])) < card (U - set V)"
      using v vU fin by (intro psubset_card_mono) auto
    with Suc.prems(1) have n: "card (U - set (V @ [v])) \<le> n" by simp
    let ?step = "\<lambda>e st. let isSource = (cell_getTerminal e True m = Some v)
        in if \<not> d \<or> (\<not> i) = isSource
           then traverse_n n m d i func (cell_getTerminal e (\<not> isSource) m) (Some e) st else Some st"
    have step: "?step e st = traverse_n n m d i func (followed m d i v e) (Some e) st" for e and st :: "cref list \<times> 'b"
      by (cases st) (simp add: followed_def Let_def traverse_n.simps)
    have loop: "set es \<subseteq> set (edges_of m v) \<Longrightarrow> goes v \<Longrightarrow> card (U - set W) \<le> n \<Longrightarrow> distinct W \<Longrightarrow>
        \<exists>calls. for_each ?step es (W, t) = Some (W @ map fst calls, fold (\<lambda>(v, e). act v e) calls t) \<and>
          ran ?R {v} W (map fst calls) \<and>
          {w. \<exists>e \<in> set es. followed m d i v e = Some w} \<subseteq> set W \<union> set (map fst calls)"
      for es W t
    proof (induction es arbitrary: W t)
      case Nil
      then show ?case by (auto intro!: exI [of _ "[]"] ran_Nil)
    next
      case (Cons e es)
      let ?w = "followed m d i v e"
      have R: "set_option ?w \<subseteq> ?R `` {v}" using Cons.prems(1,2) by (auto simp: follow_rel_def)
      then have "set_option ?w \<subseteq> U" using closed vU by blast
      from Suc.IH [OF Cons.prems(3) this Cons.prems(4), of "Some e" t] obtain c1 where
        c1: "traverse_n n m d i func ?w (Some e) (W, t) = Some (W @ map fst c1, fold (\<lambda>(v, e). act v e) c1 t)"
        "ran ?R (set_option ?w) W (map fst c1)" "set_option ?w \<subseteq> set W \<union> set (map fst c1)" by blast
      have "card (U - set (W @ map fst c1)) \<le> card (U - set W)" using fin by (intro card_mono) auto
      with Cons.prems(3) have "card (U - set (W @ map fst c1)) \<le> n" by simp
      moreover have "distinct (W @ map fst c1)" using c1(2) by (simp add: ran_def)
      ultimately obtain c2 where
        c2: "for_each ?step es (W @ map fst c1, fold (\<lambda>(v, e). act v e) c1 t) =
            Some ((W @ map fst c1) @ map fst c2, fold (\<lambda>(v, e). act v e) c2 (fold (\<lambda>(v, e). act v e) c1 t))"
        "ran ?R {v} (W @ map fst c1) (map fst c2)"
        "{w. \<exists>e \<in> set es. followed m d i v e = Some w} \<subseteq> set (W @ map fst c1) \<union> set (map fst c2)"
        using Cons.IH [of "W @ map fst c1" "fold (\<lambda>(v, e). act v e) c1 t"] Cons.prems(1,2) by auto
      have "ran ?R {v} W (map fst c1)" using c1(2) R by (rule ran_from)
      then have "ran ?R {v} W (map fst (c1 @ c2))" using ran_append [OF _ c2(2)] by auto
      moreover have e1: "?step e (W, t) = Some (W @ map fst c1, fold (\<lambda>(v, e). act v e) c1 t)"
        unfolding step by (rule c1(1))
      have "for_each ?step (e # es) (W, t) =
          Some (W @ map fst (c1 @ c2), fold (\<lambda>(v, e). act v e) (c1 @ c2) t)"
        unfolding for_each.simps e1 option.case c2(1) by simp
      moreover have "{w. \<exists>e \<in> set (e # es). followed m d i v e = Some w} \<subseteq> set W \<union> set (map fst (c1 @ c2))"
        using c1(3) c2(3) by auto
      ultimately show ?case by blast
    qed
    show ?thesis
    proof (cases "goes v")
      case False
      then have "ran ?R {v} V [v]"
        using v(2) Suc.prems(3) by (auto simp: ran_def follow_rel_def)
      with False v show ?thesis
        by (intro exI [of _ "[(v, edge)]"]) (simp add: traverse_n.simps func)
    next
      case True
      have "distinct (V @ [v])" using v(2) Suc.prems(3) by simp
      from loop [OF subset_refl True n this, of "act v edge s"] obtain calls where
        c: "for_each ?step (edges_of m v) (V @ [v], act v edge s) =
            Some ((V @ [v]) @ map fst calls, fold (\<lambda>(v, e). act v e) calls (act v edge s))"
        "ran ?R {v} (V @ [v]) (map fst calls)"
        "{w. \<exists>e \<in> set (edges_of m v). followed m d i v e = Some w} \<subseteq> set (V @ [v]) \<union> set (map fst calls)" by blast
      have "ran ?R {v} V (v # map fst calls)"
      proof -
        have "?R `` {v} \<subseteq> set (V @ [v]) \<union> set (map fst calls)" using c(3) by (auto simp: follow_rel_def)
        moreover have "?R `` set (map fst calls) \<subseteq> set (V @ [v]) \<union> set (map fst calls)"
          "set (map fst calls) \<subseteq> ?R\<^sup>* `` {v}" "distinct ((V @ [v]) @ map fst calls)"
          using c(2) unfolding ran_def by blast+
        ultimately show ?thesis
          unfolding ran_def using Image_Un [of ?R "{v}" "set (map fst calls)"] by auto
      qed
      moreover have "traverse_n (Suc n) m d i func x edge (V, s) =
          Some (V @ map fst ((v, edge) # calls), fold (\<lambda>(v, e). act v e) ((v, edge) # calls) s)"
        using c(1) v True by (simp add: traverse_n.simps func Let_def)
      ultimately show ?thesis using v by (intro exI [of _ "(v, edge) # calls"]) auto
    qed
  qed
qed

text \<open>Every terminal is a cell of the store.\<close>

definition terminals_stored :: "'a heap_scheme \<Rightarrow> bool" where
  "terminals_stored m \<longleftrightarrow> (\<forall>e b t. cell_getTerminal e b m = Some t \<longrightarrow> t < ncells m)"

subsection \<open>Properties\<close>

text \<open>C24: \<open>traverse\<close> ends.  It calls the function once on each cell that can be reached from the
  vertex along the edges it follows through cells where the function says to go on, and on no other.\<close>

theorem traverse_visits_reachable:
  assumes "terminals_stored m" and "\<And>v e s. func v e s = (goes v, act v e s)"
  shows "\<exists>calls. traverse (Some v) directed (Some func) edge None inverted m s =
      Some (map fst calls, fold (\<lambda>(w, e). act w e) calls s) \<and> distinct (map fst calls) \<and>
      set (map fst calls) = (follow_rel m (directed \<noteq> Some False) (inverted = Some True) goes)\<^sup>* `` {v}"
proof -
  let ?d = "directed \<noteq> Some False" and ?i = "inverted = Some True"
  let ?R = "follow_rel m ?d ?i goes" and ?U = "insert v {..<ncells m}"
  have "?R `` ?U \<subseteq> ?U"
    using assms(1) by (auto simp: follow_rel_def followed_def terminals_stored_def Let_def split: if_splits)
  moreover have "card (?U - set []) \<le> walk_fuel m"
    using card_insert_le_m1 [of "Suc (ncells m)" "{..<ncells m}" v] by (simp add: walk_fuel_def)
  moreover have "set_option (Some v) \<subseteq> ?U" "distinct ([] :: cref list)" "finite ?U" by simp_all
  ultimately obtain calls where
    c: "traverse_n (walk_fuel m) m ?d ?i func (Some v) edge ([], s) =
        Some (map fst calls, fold (\<lambda>(w, e). act w e) calls s)"
    and r: "ran ?R {v} [] (map fst calls)" "v \<in> set (map fst calls)"
    using traverse_n_ran [of ?U m ?d ?i goes func act "[]" "walk_fuel m" "Some v" edge s] assms(2) by auto
  have closed: "?R `` set (map fst calls) \<subseteq> set (map fst calls)" using r(1) by (simp add: ran_def)
  have "?R\<^sup>* `` {v} \<subseteq> set (map fst calls)"
    using Image_closed_trancl [OF closed] r(2) by blast
  with r have "set (map fst calls) = ?R\<^sup>* `` {v}" "distinct (map fst calls)" by (auto simp: ran_def)
  moreover have "traverse (Some v) directed (Some func) edge None inverted m s =
      traverse_n (walk_fuel m) m ?d ?i func (Some v) edge ([], s)"
    by (cases directed; cases inverted) (simp_all add: traverse_def)
  ultimately show ?thesis using c by auto
qed

theorem traverse_visits_reachable_witness:
  "\<exists>vis log. traverse (Some 3) None (Some (\<lambda>v e s. (True, s @ [v]))) None None None sample [] = Some (vis, log) \<and>
     distinct vis \<and> set vis = {3, 4}"
proof -
  let ?R = "follow_rel sample True False (\<lambda>_. True)"
  have step: "(v, w) \<in> ?R \<longleftrightarrow> v = 3 \<and> w = 4" for v w
    by (auto simp: follow_rel_def followed_def sample_edges sample_terminal split: if_splits)
  have "?R `` {3, 4} \<subseteq> {3, 4}" by (auto simp: step)
  then have "?R\<^sup>* `` {3} \<subseteq> {3, 4}" using Image_closed_trancl [of ?R "{3, 4}"] by blast
  moreover have "(3, 4) \<in> ?R\<^sup>*" using step by blast
  ultimately have "?R\<^sup>* `` {3} = {3, 4}" by blast
  moreover have "terminals_stored sample"
    by (auto simp: terminals_stored_def sample_terminal split: if_splits)
  ultimately show ?thesis
    using traverse_visits_reachable [of sample "\<lambda>v e s. (True, s @ [v])" "\<lambda>_. True" "\<lambda>v e s. s @ [v]" 3 None None None "[]"]
    by fastforce
qed

end
