(* ===== verification/GraphGeometry.thy ===== *)
theory GraphGeometry
  imports Graph ModelQueries
begin

text \<open>
  Sizes and positions of cells, view/mxGraph.js: the bounding box of a set of cells, the area a
  parent allows its children, constraining a child to it, extending a parent, resizing and moving.

  Every change of a geometry sets a new object on the cell in a transaction.  \<open>None\<close> stands for
  an operation that does not complete, or one whose coordinates leave the numbers of the model: a
  size that is read as NaN, or a division by a width or height of zero.
\<close>

definition set_geometry :: "cref option \<Rightarrow> mxGeometry \<Rightarrow> mxGraph \<Rightarrow> mxGraph option" where
  "set_geometry cell geo =
     with_model (\<lambda>m. let (r, m) = alloc_geo geo m in m_setGeometry cell (Some r) m)"

text \<open>\<open>getCellGeometry\<close>, with the object it refers to.\<close>

definition getCellGeometry :: "cref option \<Rightarrow> mxGraph \<Rightarrow> mxGeometry option" where
  "getCellGeometry cell g = map_option (geo_at (g_model g)) (m_getGeometry cell (g_model g))"

definition js_div :: "jsnum \<Rightarrow> jsnum \<Rightarrow> jsnum option" where
  "js_div a b = (if b = 0 then None else Some (a / b))"

subsection \<open>Bounding boxes\<close>

definition point_rect :: "mxPoint \<Rightarrow> mxRectangle" where
  "point_rect p = new_mxRectangle (Some (px p)) (Some (py p)) (Some 0) (Some 0)"

definition add_point :: "mxPoint option \<Rightarrow> mxRectangle option \<Rightarrow> mxRectangle option" where
  "add_point pt tmp =
     (case pt of
        None \<Rightarrow> tmp
      | Some p \<Rightarrow> (case tmp of None \<Rightarrow> Some (point_rect p) | Some t \<Rightarrow> Some (rect_add t (Some (point_rect p)))))"

text \<open>
  The box of an edge.  The variable \<open>tmp\<close> belongs to the whole function: it comes in with the value an
  earlier cell left in it, and a first control point replaces what the terminal points have added.
\<close>

definition edge_box :: "mxGeometry \<Rightarrow> bool \<Rightarrow> bool \<Rightarrow> mxRectangle option \<Rightarrow> mxRectangle option option" where
  "edge_box geo looseSource looseTarget tmp =
     (let tmp = (if looseSource then add_point (geo_getTerminalPoint geo True) tmp else tmp);
          tmp = (if looseTarget then add_point (geo_getTerminalPoint geo False) tmp else tmp)
      in case g_points geo of
           None \<Rightarrow> Some tmp
         | Some [] \<Rightarrow> Some tmp
         | Some (None # ps) \<Rightarrow> None
         | Some (Some p # ps) \<Rightarrow> Some (fold add_point ps (Some (point_rect p))))"

definition move_rect :: "jsnum \<Rightarrow> jsnum \<Rightarrow> mxRectangle \<Rightarrow> mxRectangle" where
  "move_rect dx dy r = r\<lparr>px := px r + dx, py := py r + dy\<rparr>"

text \<open>
  The box of a vertex and the new value of \<open>tmp\<close>; \<open>inner\<close> is the box of its parent alone.
\<close>

definition vertex_box ::
  "(cref option \<Rightarrow> mxRectangle option option) \<Rightarrow> mxGraph \<Rightarrow> cref option list \<Rightarrow> cref \<Rightarrow> mxGeometry \<Rightarrow>
   mxRectangle option \<Rightarrow> (mxRectangle option \<times> mxRectangle option) option"
where
  "vertex_box inner g cells cell geo tmp =
     (let m = g_model g; parent = cell_getParent cell m in
      map_option
        (\<lambda>(bbox, tmp). (case (bbox, g_offset geo) of
             (Some b, Some off) \<Rightarrow> Some (move_rect (px off) (py off) b) | _ \<Rightarrow> bbox, tmp))
        (if g_relative geo then
           (if isVertex parent m \<and> parent \<noteq> currentRoot (g_view g) then
              map_option
                (\<lambda>tmp. (case tmp of
                     None \<Rightarrow> None
                   | Some t \<Rightarrow>
                       (let b = new_mxRectangle (Some (px geo * width t)) (Some (py geo * height t))
                              (Some (width geo)) (Some (height geo))
                        in Some (if parent \<in> set cells then move_rect (px t) (py t) b else b)), tmp))
                (inner parent)
            else Some (None, tmp))
         else if isVertex parent m \<and> parent \<in> set cells then
           map_option
             (\<lambda>tmp. (Some (case tmp of None \<Rightarrow> fromRectangle geo
                              | Some t \<Rightarrow> move_rect (px t) (py t) (fromRectangle geo)), tmp))
             (inner parent)
         else Some (Some (fromRectangle geo), tmp)))"

fun bounding_loop ::
  "(cref option \<Rightarrow> mxRectangle option option) \<Rightarrow> mxGraph \<Rightarrow> bool \<Rightarrow> cref option list \<Rightarrow> cref option list \<Rightarrow>
   mxRectangle option \<times> mxRectangle option \<Rightarrow> mxRectangle option option"
where
  "bounding_loop inner g includeEdges cells [] (result, tmp) = Some result"
| "bounding_loop inner g includeEdges cells (c # cs) (result, tmp) =
     (case (c, getCellGeometry c g) of
        (Some cell, Some geo) \<Rightarrow>
          (if includeEdges \<or> isVertex c (g_model g) then
             Option.bind
               (if isEdge c (g_model g)
                then map_option (\<lambda>t. (t, t))
                       (edge_box geo (getTerminal c True (g_model g) = None) (getTerminal c False (g_model g) = None) tmp)
                else vertex_box inner g cells cell geo tmp)
               (\<lambda>(bbox, tmp). bounding_loop inner g includeEdges cells cs
                  (case bbox of
                     None \<Rightarrow> result
                   | Some b \<Rightarrow> Some (case result of None \<Rightarrow> fromRectangle b | Some r \<Rightarrow> rect_add r (Some b)), tmp))
           else bounding_loop inner g includeEdges cells cs (result, tmp))
      | _ \<Rightarrow> bounding_loop inner g includeEdges cells cs (result, tmp))"

fun bounding_n :: "nat \<Rightarrow> mxGraph \<Rightarrow> bool \<Rightarrow> cref option list \<Rightarrow> mxRectangle option option" where
  "bounding_n 0 g includeEdges cells = None"
| "bounding_n (Suc n) g includeEdges cells =
     bounding_loop (\<lambda>parent. bounding_n n g False [parent]) g includeEdges cells cells (None, None)"

definition getBoundingBoxFromGeometry ::
  "cref option list option \<Rightarrow> bool option \<Rightarrow> mxGraph \<Rightarrow> mxRectangle option option" where
  "getBoundingBoxFromGeometry cells includeEdges g =
     (case cells of
        None \<Rightarrow> Some None
      | Some cs \<Rightarrow>
          bounding_n (Suc (Suc (walk_fuel (g_model g)))) g (case includeEdges of None \<Rightarrow> False | Some b \<Rightarrow> b) cs)"

subsection \<open>The area of the children\<close>

text \<open>Whether a value counts as true.\<close>

fun truthy :: "style_value \<Rightarrow> bool" where
  "truthy (SNum q) = (q \<noteq> 0)"
| "truthy (SStr s) = (s \<noteq> [])"
| "truthy (SFun f) = True"
| "truthy (SBool b) = b"

definition getStartSize :: "cref option \<Rightarrow> mxGraph \<Rightarrow> mxRectangle option" where
  "getStartSize swimlane g =
     Option.bind (style_of swimlane g) (\<lambda>style.
     Option.bind (js_parseInt (style_value_string (the (getValue (Some style) ''startSize'' (Some (SNum 40)))))) (\<lambda>size.
       Some (if truthy (the (getValue (Some style) ''horizontal'' (Some (SBool True))))
             then new_mxRectangle None None None (Some (of_int size))
             else new_mxRectangle None None (Some (of_int size)) None)))"

definition style_is :: "style_obj \<Rightarrow> string \<Rightarrow> string \<Rightarrow> string \<Rightarrow> bool" where
  "style_is style key fallback s \<longleftrightarrow> the (getValue (Some style) key (Some (SStr fallback))) = SStr s"

definition style_is_1 :: "style_obj \<Rightarrow> string \<Rightarrow> bool" where
  "style_is_1 style key \<longleftrightarrow> style_value_number (the (getValue (Some style) key (Some (SNum 0)))) = Some 1"

definition getCellContainmentArea :: "cref option \<Rightarrow> mxGraph \<Rightarrow> mxRectangle option option" where
  "getCellContainmentArea cell g =
     (let m = g_model g; parent = getParent cell m in
      if cell \<noteq> None \<and> \<not> isEdge cell m \<and> parent \<noteq> None \<and> parent \<noteq> getDefaultParent g then
        (case getCellGeometry parent g of
           None \<Rightarrow> Some None
         | Some geo \<Rightarrow>
             Option.bind (isSwimlane parent g) (\<lambda>lane.
             if lane then
               Option.bind (getStartSize parent g) (\<lambda>size.
               Option.bind (style_of parent g) (\<lambda>style.
                 let dir = style_is style ''direction'' ''east'';
                     flipH = style_is_1 style ''flipH''; flipV = style_is_1 style ''flipV'';
                     size = (if dir ''south'' \<or> dir ''north''
                       then size\<lparr>width := height size, height := width size\<rparr> else size);
                     leading = (dir ''east'' \<and> \<not> flipV \<or> dir ''north'' \<and> \<not> flipH \<or>
                       dir ''west'' \<and> flipV \<or> dir ''south'' \<and> flipH)
                 in Some (Some (new_mxRectangle
                      (Some (if leading then width size else 0)) (Some (if leading then height size else 0))
                      (Some (width geo - width size)) (Some (height geo - height size))))))
             else Some (Some (new_mxRectangle (Some 0) (Some 0) (Some (width geo)) (Some (height geo))))))
      else Some None)"

subsection \<open>Constraining a child\<close>

text \<open>The largest area for a cell: the bounds of the graph, cut with the area of the parent.\<close>

definition overlap_area :: "jsnum \<Rightarrow> mxRectangle \<Rightarrow> mxRectangle" where
  "overlap_area overlap r =
     (if overlap > 0
      then r\<lparr>px := px r - width r * overlap, py := py r - height r * overlap,
             width := width r + 2 * width r * overlap, height := height r + 2 * height r * overlap\<rparr>
      else r)"

definition allowed_area :: "cref option \<Rightarrow> mxGraph \<Rightarrow> mxRectangle option option" where
  "allowed_area cell g =
     (let parent = getParent cell (g_model g) in
      Option.bind
        (case maximumGraphBounds g of
           None \<Rightarrow> Some None
         | Some r \<Rightarrow>
             map_option
               (\<lambda>off. case off of None \<Rightarrow> Some r | Some off \<Rightarrow> Some (move_rect (- px off) (- py off) (fromRectangle r)))
               (getBoundingBoxFromGeometry (Some [parent]) (Some False) g))
        (\<lambda>area.
         if isConstrainChild cell g then
           map_option
             (\<lambda>tmp. case tmp of
                 None \<Rightarrow> area
               | Some t \<Rightarrow>
                   (let t = overlap_area (getOverlap cell g) t
                    in case area of None \<Rightarrow> Some t | Some r \<Rightarrow> Some (rect_intersect (fromRectangle r) (Some t))))
             (getCellContainmentArea cell g)
         else Some area))"

text \<open>
  The new geometry, from the box of the cell and its visible descendants.  The movement starts with
  what the size has been cut by, as the source has it.
\<close>

definition constrain_geometry :: "mxRectangle \<Rightarrow> mxRectangle \<Rightarrow> mxGeometry \<Rightarrow> mxGeometry" where
  "constrain_geometry area bbox geo =
     (let dx = (if width geo > width area then width geo - width area else 0);
          w = width geo - dx;
          dx = (if px bbox + width bbox > px area + width area
                then dx - (px bbox + width bbox - px area - width area - dx) else dx);
          dy = (if height geo > height area then height geo - height area else 0);
          h = height geo - dy;
          dy = (if py bbox + height bbox > py area + height area
                then dy - (py bbox + height bbox - py area - height area - dy) else dy);
          dx = (if px bbox < px area then dx - (px bbox - px area) else dx);
          dy = (if py bbox < py area then dy - (py bbox - py area) else dy);
          geo = geo\<lparr>width := w, height := h\<rparr>
      in if dx \<noteq> 0 \<or> dy \<noteq> 0 then
           (if g_relative geo
            then geo\<lparr>g_offset := Some (point_move dx dy
                   (case g_offset geo of None \<Rightarrow> new_mxPoint None None | Some p \<Rightarrow> p))\<rparr>
            else geo\<lparr>px := px geo + dx, py := py geo + dy\<rparr>)
         else geo)"

definition constrainChild :: "cref option \<Rightarrow> mxGraph \<Rightarrow> mxGraph option" where
  "constrainChild cell g =
     (case getCellGeometry cell g of
        None \<Rightarrow> Some g
      | Some geo \<Rightarrow>
          (if isConstrainRelativeChildren g \<or> \<not> g_relative geo then
             Option.bind (allowed_area cell g) (\<lambda>area.
             case area of
               None \<Rightarrow> Some g
             | Some area \<Rightarrow>
                 Option.bind
                   (if isCellCollapsed cell g then Some []
                    else map_option (filter (\<lambda>c. isCellVisible c g)) (getDescendants cell (g_model g)))
                   (\<lambda>desc.
                 Option.bind (getBoundingBoxFromGeometry (Some (cell # desc)) (Some False) g) (\<lambda>bbox.
                 case bbox of
                   None \<Rightarrow> Some g
                 | Some bbox \<Rightarrow> set_geometry cell (constrain_geometry area bbox geo) g)))
           else Some g))"

text \<open>A loop over the children, with the count taken before and each child read in its turn.\<close>

definition each_child :: "(cref option \<Rightarrow> mxGraph \<Rightarrow> mxGraph option) \<Rightarrow> cref option \<Rightarrow> mxGraph \<Rightarrow> mxGraph option" where
  "each_child f cell g =
     for_each (\<lambda>i g. f (getChildAt cell i (g_model g)) g) (upto_count (getChildCount cell (g_model g))) g"

definition constrainChildCells :: "cref option \<Rightarrow> mxGraph \<Rightarrow> mxGraph option" where
  "constrainChildCells cell g = each_child constrainChild cell g"

subsection \<open>Resizing\<close>

type_synonym resizer = "cref option \<Rightarrow> mxRectangle \<Rightarrow> bool \<Rightarrow> bool \<Rightarrow> mxGraph \<Rightarrow> mxGraph option"

definition style_string :: "style_obj \<Rightarrow> string \<Rightarrow> string \<Rightarrow> bool" where
  "style_string style key s \<longleftrightarrow>
     (case map_of style key of None \<Rightarrow> False | Some v \<Rightarrow> (case v of SStr t \<Rightarrow> t = s
        | _ \<Rightarrow> js_Number s \<noteq> None \<and> style_value_number v = js_Number s))"

text \<open>\<open>scaleCell\<close>; \<open>resized\<close> is \<open>cellResized\<close>, which calls it in turn for the children.\<close>

definition scaleCell :: "resizer \<Rightarrow> cref option \<Rightarrow> jsnum \<Rightarrow> jsnum \<Rightarrow> bool \<Rightarrow> mxGraph \<Rightarrow> mxGraph option" where
  "scaleCell resized cell dx dy recurse g =
     (case getCellGeometry cell g of
        None \<Rightarrow> Some g
      | Some old \<Rightarrow>
          Option.bind (style_of cell g) (\<lambda>style.
          Option.bind (isCellMovable cell g) (\<lambda>movable.
          Option.bind (isCellResizable cell g) (\<lambda>resizable.
            let geo = geo_scale dx dy (style_string style ''aspect'' ''fixed'') old;
                geo = (if style_string style ''resizeWidth'' ''1'' then geo\<lparr>width := width old * dx\<rparr>
                       else if style_string style ''resizeWidth'' ''0'' then geo\<lparr>width := width old\<rparr> else geo);
                geo = (if style_string style ''resizeHeight'' ''1'' then geo\<lparr>height := height old * dy\<rparr>
                       else if style_string style ''resizeHeight'' ''0'' then geo\<lparr>height := height old\<rparr> else geo);
                geo = (if \<not> movable then geo\<lparr>px := px old, py := py old\<rparr> else geo);
                geo = (if \<not> resizable then geo\<lparr>width := width old, height := height old\<rparr> else geo)
            in if isVertex cell (g_model g) then resized cell (fromRectangle geo) True recurse g
               else set_geometry cell geo g))))"

definition resizeChildCells :: "resizer \<Rightarrow> cref option \<Rightarrow> mxGeometry \<Rightarrow> mxGraph \<Rightarrow> mxGraph option" where
  "resizeChildCells resized cell newGeo g =
     (case getCellGeometry cell g of
        None \<Rightarrow> None
      | Some geo \<Rightarrow>
          (if getChildCount cell (g_model g) = 0 then Some g
           else Option.bind (js_div (width newGeo) (width geo)) (\<lambda>dx.
                Option.bind (js_div (height newGeo) (height geo)) (\<lambda>dy.
                  each_child (\<lambda>child. scaleCell resized child dx dy True) cell g))))"

definition resized_geometry :: "cref option \<Rightarrow> mxRectangle \<Rightarrow> bool \<Rightarrow> mxGraph \<Rightarrow> mxGeometry \<Rightarrow> mxGeometry" where
  "resized_geometry cell bounds ignoreRelative g geo =
     (let geo' = (if \<not> ignoreRelative \<and> g_relative geo
                  then geo\<lparr>g_offset := map_option (point_move (px bounds - px geo) (py bounds - py geo)) (g_offset geo)\<rparr>
                  else geo\<lparr>px := px bounds, py := py bounds\<rparr>);
          geo' = geo'\<lparr>width := width bounds, height := height bounds\<rparr>
      in if \<not> g_relative geo' \<and> isVertex cell (g_model g) \<and> \<not> isAllowNegativeCoordinates g
         then geo'\<lparr>px := max 0 (px geo'), py := max 0 (py geo')\<rparr> else geo')"

fun cellResized_n :: "nat \<Rightarrow> resizer" where
  "cellResized_n 0 cell bounds ignoreRelative recurse g = None"
| "cellResized_n (Suc n) cell bounds ignoreRelative recurse g =
     (case getCellGeometry cell g of
        None \<Rightarrow> Some g
      | Some old \<Rightarrow>
          (if px old \<noteq> px bounds \<or> py old \<noteq> py bounds \<or> width old \<noteq> width bounds \<or> height old \<noteq> height bounds then
             (let geo = resized_geometry cell bounds ignoreRelative g old
              in in_update_do (\<lambda>g.
                   Option.bind (if recurse then resizeChildCells (cellResized_n n) cell geo g else Some g) (\<lambda>g.
                   Option.bind (set_geometry cell geo g) (constrainChildCells cell))) g)
           else Some g))"

definition cellResized :: resizer where
  "cellResized cell bounds ignoreRelative recurse g =
     cellResized_n (Suc (walk_fuel (g_model g))) cell bounds ignoreRelative recurse g"

subsection \<open>Resetting edges\<close>

definition resetEdge :: "cref option \<Rightarrow> mxGraph \<Rightarrow> mxGraph option" where
  "resetEdge edge g =
     (case getCellGeometry edge g of
        None \<Rightarrow> Some g
      | Some geo \<Rightarrow>
          (if g_points geo \<noteq> None \<and> length (the (g_points geo)) > 0
           then set_geometry edge (geo\<lparr>g_points := Some []\<rparr>) g else Some g))"

fun resetEdges_n :: "nat \<Rightarrow> cref option list option \<Rightarrow> mxGraph \<Rightarrow> mxGraph option" where
  "resetEdges_n n None g = Some g"
| "resetEdges_n 0 (Some cells) g = None"
| "resetEdges_n (Suc n) (Some cells) g =
     in_update_do
       (for_each (\<lambda>cell g.
          Option.bind
            (for_each (\<lambda>edge g.
               Option.bind (visible_terminal edge True g) (\<lambda>source.
               Option.bind (visible_terminal edge False g) (\<lambda>target.
                 if source \<notin> set cells \<or> target \<notin> set cells
                 then resetEdge (Some edge) g else Some g)))
              (getEdges cell None None None (g_model g)) g)
            (\<lambda>g. resetEdges_n n (map_option (map Some) (getChildren cell (g_model g))) g)) cells) g"

definition resetEdges :: "cref option list option \<Rightarrow> mxGraph \<Rightarrow> mxGraph option" where
  "resetEdges cells g = resetEdges_n (Suc (walk_fuel (g_model g))) cells g"

end
