(* ===== verification/GraphResize.thy ===== *)
theory GraphResize
  imports GraphGeometry Planar
begin

text \<open>
  Resizing, moving, folding and showing cells, view/mxGraph.js, on top of the single steps of the
  geometry theory.  What only the browser knows is the record \<open>browser\<close>: the cosine and sine of an
  angle in degrees, and the preferred size of a cell, which is measured by laying out its label.
\<close>

record browser =
  trig :: "jsnum \<Rightarrow> jsnum \<times> jsnum"
  preferred_size :: "cref option \<Rightarrow> mxGraph \<Rightarrow> mxRectangle option"

subsection \<open>Resizing\<close>

type_synonym resize_all = "cref option list \<Rightarrow> mxRectangle list \<Rightarrow> bool option \<Rightarrow> mxGraph \<Rightarrow> mxGraph option"

text \<open>\<open>extendParent\<close> calls \<open>cellsResized\<close> on the parent, which extends the next parent in turn.\<close>

definition extendParent_by :: "resize_all \<Rightarrow> cref option \<Rightarrow> mxGraph \<Rightarrow> mxGraph option" where
  "extendParent_by resize cell g =
     (let parent = getParent cell (g_model g) in
      case (getCellGeometry parent g, getCellGeometry cell g) of
        (Some p, Some geo) \<Rightarrow>
          (if \<not> isCellCollapsed parent g \<and> \<not> g_relative geo \<and>
              (width p < px geo + width geo \<or> height p < py geo + height geo)
           then resize [parent]
                  [fromRectangle (p\<lparr>width := max (width p) (px geo + width geo),
                     height := max (height p) (py geo + height geo)\<rparr>)] (Some False) g
           else Some g)
      | _ \<Rightarrow> Some g)"

fun cellsResized_n :: "nat \<Rightarrow> resize_all" where
  "cellsResized_n 0 cells bounds recurse g = None"
| "cellsResized_n (Suc n) cells bounds recurse g =
     (if length cells = length bounds then
        in_update_do (\<lambda>g.
          Option.bind
            (for_each (\<lambda>(cell, b) g.
               Option.bind (cellResized cell b False (recurse = Some True) g) (\<lambda>g.
               Option.bind (if isExtendParent cell g then extendParent_by (cellsResized_n n) cell g else Some g)
                 (constrainChild cell))) (zip cells bounds) g) (\<lambda>g.
          Option.bind (if resetEdgesOnResize g then resetEdges (Some cells) g else Some g) (\<lambda>g.
            Some (g_fire (EvCellsResized cells bounds) g)))) g
      else Some g)"

definition cellsResized :: resize_all where
  "cellsResized cells bounds recurse g =
     cellsResized_n (Suc (Suc (walk_fuel (g_model g)))) cells bounds recurse g"

definition extendParent :: "cref option \<Rightarrow> mxGraph \<Rightarrow> mxGraph option" where
  "extendParent cell g = extendParent_by cellsResized cell g"

definition resizeCells :: resize_all where
  "resizeCells cells bounds recurse g =
     (let recurse = (case recurse of None \<Rightarrow> isRecursiveResize g | Some b \<Rightarrow> b) in
      in_update_do (\<lambda>g. map_option (g_fire (EvResizeCells cells bounds))
        (cellsResized cells bounds (Some recurse) g)) g)"

definition resizeCell :: "cref option \<Rightarrow> mxRectangle \<Rightarrow> bool option \<Rightarrow> mxGraph \<Rightarrow> mxGraph option" where
  "resizeCell cell bounds recurse g = resizeCells [cell] [bounds] recurse g"

subsection \<open>Preferred sizes\<close>

text \<open>\<open>getBounds\<close> of the view: the box around the states of the cells.\<close>

definition view_getBounds :: "cref list option \<Rightarrow> mxGraph \<Rightarrow> mxRectangle option" where
  "view_getBounds cells g =
     (case cells of
        None \<Rightarrow> None
      | Some cs \<Rightarrow>
          fold (\<lambda>c result.
              if isVertex (Some c) (g_model g) \<or> isEdge (Some c) (g_model g) then
                (case states (g_view g) c of
                   None \<Rightarrow> result
                 | Some st \<Rightarrow> Some (case result of None \<Rightarrow> fromRectangle (cs_bounds st)
                     | Some r \<Rightarrow> rect_add r (Some (cs_bounds st))))
              else result) cs None)"

definition cellSizeUpdated :: "browser \<Rightarrow> cref option \<Rightarrow> bool \<Rightarrow> mxGraph \<Rightarrow> mxGraph option" where
  "cellSizeUpdated env cell ignoreChildren g =
     (if cell \<noteq> None then
        in_update_do (\<lambda>g.
          case (preferred_size env cell g, getCellGeometry cell g) of
            (Some sz, Some geo) \<Rightarrow>
              (let collapsed = isCellCollapsed cell g in
               Option.bind (isSwimlane cell g) (\<lambda>lane.
               Option.bind
                 (if lane then
                    Option.bind (style_of cell g) (\<lambda>style.
                      let cellStyle = (case m_getStyle cell (g_model g) of None \<Rightarrow> [] | Some s \<Rightarrow> s)
                      in if truthy (the (getValue (Some style) ''horizontal'' (Some (SBool True)))) then
                           map_option (Pair (geo\<lparr>height := (if collapsed then height sz + 8 else height geo),
                               width := width sz\<rparr>))
                             (with_model (m_setStyle cell
                               (setStyle (Some cellStyle) ''startSize'' (Some (SNum (height sz + 8))))) g)
                         else
                           map_option (Pair (geo\<lparr>width := (if collapsed then width sz + 8 else width geo),
                               height := height sz\<rparr>))
                             (with_model (m_setStyle cell
                               (setStyle (Some cellStyle) ''startSize'' (Some (SNum (width sz + 8))))) g))
                  else Some (geo\<lparr>width := width sz, height := height sz\<rparr>, g))
                 (\<lambda>(geo, g).
                   let geo = (if \<not> ignoreChildren \<and> \<not> collapsed then
                         (case view_getBounds (getChildren cell (g_model g)) g of
                            None \<Rightarrow> geo
                          | Some b \<Rightarrow>
                              (let tr = translate (g_view g); sc = scale (g_view g)
                               in geo\<lparr>width := max (width geo) ((px b + width b) / sc - px geo - px tr),
                                    height := max (height geo) ((py b + height b) / sc - py geo - py tr)\<rparr>))
                       else geo)
                   in cellsResized [cell] [fromRectangle geo] (Some False) g)))
          | _ \<Rightarrow> Some g) g
      else Some g)"

definition updateCellSize :: "browser \<Rightarrow> cref option \<Rightarrow> bool option \<Rightarrow> mxGraph \<Rightarrow> mxGraph option" where
  "updateCellSize env cell ignoreChildren g =
     (let ignoreChildren = (ignoreChildren = Some True) in
      in_update_do (\<lambda>g. map_option (g_fire (EvUpdateCellSize cell ignoreChildren))
        (cellSizeUpdated env cell ignoreChildren g)) g)"

fun autoSizeCell_n :: "nat \<Rightarrow> browser \<Rightarrow> bool \<Rightarrow> cref option \<Rightarrow> mxGraph \<Rightarrow> mxGraph option" where
  "autoSizeCell_n n env recurse None g = Some g"
| "autoSizeCell_n 0 env recurse (Some cell) g = None"
| "autoSizeCell_n (Suc n) env recurse (Some cell) g =
     Option.bind (if recurse then each_child (autoSizeCell_n n env True) (Some cell) g else Some g) (\<lambda>g.
     if isVertex (Some cell) (g_model g) then
       Option.bind (isAutoSizeCell (Some cell) g) (\<lambda>auto.
         if auto then updateCellSize env (Some cell) None g else Some g)
     else Some g)"

definition autoSizeCell :: "browser \<Rightarrow> cref option \<Rightarrow> bool option \<Rightarrow> mxGraph \<Rightarrow> mxGraph option" where
  "autoSizeCell env cell recurse g =
     autoSizeCell_n (Suc (walk_fuel (g_model g))) env (recurse \<noteq> Some False) cell g"

subsection \<open>Moving\<close>

text \<open>A relative vertex moves by its offset, turned against the rotation of its parent.\<close>

definition turned :: "browser \<Rightarrow> cref option \<Rightarrow> jsnum \<Rightarrow> jsnum \<Rightarrow> mxGraph \<Rightarrow> (jsnum \<times> jsnum) option" where
  "turned env parent dx dy g =
     (if isVertex parent (g_model g) then
        Option.bind (style_of parent g) (\<lambda>style.
        Option.bind (style_value_number (the (getValue (Some style) ''rotation'' (Some (SNum 0))))) (\<lambda>angle.
          if angle \<noteq> 0 then
            (let (c, s) = trig env (- angle);
                 pt = getRotatedPoint (new_mxPoint (Some dx) (Some dy)) c s (Some (new_mxPoint (Some 0) (Some 0)))
             in Some (px pt, py pt))
          else Some (dx, dy)))
      else Some (dx, dy))"

definition translateCell :: "browser \<Rightarrow> cref option \<Rightarrow> jsnum \<Rightarrow> jsnum \<Rightarrow> mxGraph \<Rightarrow> mxGraph option" where
  "translateCell env cell dx dy g =
     (case getCellGeometry cell g of
        None \<Rightarrow> Some g
      | Some old \<Rightarrow>
          (let m = g_model g;
               geo = geo_translate dx dy old;
               geo = (if \<not> g_relative geo \<and> isVertex cell m \<and> \<not> isAllowNegativeCoordinates g
                      then geo\<lparr>px := max 0 (px geo), py := max 0 (py geo)\<rparr> else geo)
           in if g_relative geo \<and> \<not> isEdge cell m then
                Option.bind (turned env (getParent cell m) dx dy g) (\<lambda>(dx, dy).
                  set_geometry cell
                    (geo\<lparr>g_offset := Some (case g_offset geo of
                        None \<Rightarrow> new_mxPoint (Some dx) (Some dy) | Some p \<Rightarrow> point_move dx dy p)\<rparr>) g)
              else set_geometry cell geo g))"

text \<open>One end of an edge that is moved away from its terminal; the point is where the view shows it.\<close>

definition loosen_end ::
  "cref option list \<Rightarrow> cref \<Rightarrow> mxCellState \<Rightarrow> mxPoint \<Rightarrow> bool \<Rightarrow> mxGeometry \<times> mxGraph \<Rightarrow> (mxGeometry \<times> mxGraph) option"
where
  "loosen_end cells edge state origin source = (\<lambda>(geo, g).
     let m = g_model g; t = cell_getTerminal edge source m in
     if t \<noteq> None \<and> isCellDisconnectable (Some edge) g then
       Option.bind (walk_up (walk_fuel m) m (\<lambda>c. Some c \<in> set cells) t) (\<lambda>hit.
         if hit = None then
           (case end_point source state of
              None \<Rightarrow> None
            | Some pt \<Rightarrow>
                (let sc = scale (g_view g); tr = translate (g_view g)
                 in map_option (Pair (geo_setTerminalPoint
                        (Some (new_mxPoint (Some (px pt / sc - px tr - px origin)) (Some (py pt / sc - py tr - py origin))))
                        source geo))
                      (with_model (setTerminal (Some edge) None source) g)))
         else Some (geo, g))
     else Some (geo, g))"

definition disconnectGraph :: "cref option list option \<Rightarrow> mxGraph \<Rightarrow> mxGraph option" where
  "disconnectGraph cells g =
     (case cells of
        None \<Rightarrow> Some g
      | Some cs \<Rightarrow>
          in_update_do
            (for_each (\<lambda>cell g.
               case cell of
                 None \<Rightarrow> Some g
               | Some c \<Rightarrow>
                   (if cell_isEdge c (g_model g) then
                      (case (getCellGeometry cell g, getState cell g, getState (getParent cell (g_model g)) g) of
                         (Some geo, Some state, Some pstate) \<Rightarrow>
                           Option.bind (loosen_end cs c state (cs_origin pstate) True (geo, g)) (\<lambda>s.
                           Option.bind (loosen_end cs c state (cs_origin pstate) False s) (\<lambda>(geo, g).
                             set_geometry cell geo g))
                       | _ \<Rightarrow> Some g)
                    else Some g)) cs) g)"

definition cellsMoved ::
  "browser \<Rightarrow> cref option list option \<Rightarrow> jsnum \<Rightarrow> jsnum \<Rightarrow> bool \<Rightarrow> bool \<Rightarrow> bool option \<Rightarrow> mxGraph \<Rightarrow> mxGraph option"
where
  "cellsMoved env cells dx dy disconnect constrain ext_parent g =
     (case cells of
        None \<Rightarrow> Some g
      | Some cs \<Rightarrow>
          (if dx \<noteq> 0 \<or> dy \<noteq> 0 then
             in_update_do (\<lambda>g.
               Option.bind (if disconnect then disconnectGraph cells g else Some g) (\<lambda>g.
               Option.bind
                 (for_each (\<lambda>cell g.
                    Option.bind (translateCell env cell dx dy g) (\<lambda>g.
                      if ext_parent = Some True \<and> isExtendParent cell g then extendParent cell g
                      else if constrain then constrainChild cell g else Some g)) cs g) (\<lambda>g.
               Option.bind (if resetEdgesOnMove g then resetEdges cells g else Some g) (\<lambda>g.
                 Some (g_fire (EvCellsMoved cs dx dy disconnect) g))))) g
           else Some g))"

end
