(* ===== verification/GraphSelection.thy ===== *)
theory GraphSelection
  imports Graph ModelProps
begin

text \<open>
  The selection as the graph offers it, view/mxGraph.js: the calls that pass on to the selection
  model, the selection by keyboard (next, previous, parent and child cell), and the cells that the
  changes of an edit select or take out of the selection.
\<close>

subsection \<open>Operations\<close>

definition on_selection :: "(mxGraphSelectionModel \<Rightarrow> mxGraphSelectionModel) \<Rightarrow> mxGraph \<Rightarrow> mxGraph" where
  "on_selection f g = g\<lparr>selectionModel := f (selectionModel g)\<rparr>"

definition selectable :: "mxGraph \<Rightarrow> cref option \<Rightarrow> bool" where
  "selectable g c \<longleftrightarrow> isCellSelectable c g"

definition isCellSelected :: "cref option \<Rightarrow> mxGraph \<Rightarrow> bool" where
  "isCellSelected cell g \<longleftrightarrow> isSelected cell (selectionModel g)"

definition isSelectionEmpty :: "mxGraph \<Rightarrow> bool" where
  "isSelectionEmpty g \<longleftrightarrow> sel_isEmpty (selectionModel g)"

definition clearSelection :: "mxGraph \<Rightarrow> mxGraph" where
  "clearSelection g = on_selection sel_clear g"

definition getSelectionCount :: "mxGraph \<Rightarrow> nat" where
  "getSelectionCount g = length (sel_cells (selectionModel g))"

definition getSelectionCell :: "mxGraph \<Rightarrow> cref option" where
  "getSelectionCell g = js_at (sel_cells (selectionModel g)) 0"

definition getSelectionCells :: "mxGraph \<Rightarrow> cref option list" where
  "getSelectionCells g = map Some (sel_cells (selectionModel g))"

definition setSelectionCell :: "cref option \<Rightarrow> mxGraph \<Rightarrow> mxGraph" where
  "setSelectionCell cell g = on_selection (setCell (selectable g) cell) g"

definition setSelectionCells :: "cells \<Rightarrow> mxGraph \<Rightarrow> mxGraph" where
  "setSelectionCells cs g = on_selection (setCells (selectable g) cs) g"

definition addSelectionCell :: "cref option \<Rightarrow> mxGraph \<Rightarrow> mxGraph" where
  "addSelectionCell cell g = on_selection (sel_addCell (selectable g) cell) g"

definition addSelectionCells :: "cells \<Rightarrow> mxGraph \<Rightarrow> mxGraph" where
  "addSelectionCells cs g = on_selection (addCells (selectable g) cs) g"

definition removeSelectionCell :: "cref option \<Rightarrow> mxGraph \<Rightarrow> mxGraph" where
  "removeSelectionCell cell g = on_selection (sel_removeCell cell) g"

definition removeSelectionCells :: "cells \<Rightarrow> mxGraph \<Rightarrow> mxGraph" where
  "removeSelectionCells cs g = on_selection (removeCells cs) g"

definition selectCell :: "bool \<Rightarrow> bool \<Rightarrow> bool \<Rightarrow> mxGraph \<Rightarrow> mxGraph" where
  "selectCell isNext isParent isChild g =
     (let sel = sel_cells (selectionModel g); m = g_model g;
          cell = (if length sel > 0 then js_at sel 0 else None);
          g = (if length sel > 1 then clearSelection g else g);
          parent = (if cell \<noteq> None then getParent cell m else getDefaultParent g);
          childCount = getChildCount parent m
      in if cell = None \<and> childCount > 0 then setSelectionCell (getChildAt parent 0 m) g
         else if (cell = None \<or> isParent) \<and> getState parent g \<noteq> None \<and> m_getGeometry parent m \<noteq> None then
           (if getCurrentRoot g \<noteq> parent then setSelectionCell parent g else g)
         else if cell \<noteq> None \<and> isChild then
           (if getChildCount cell m > 0 then setSelectionCell (getChildAt cell 0 m) g else g)
         else if childCount > 0 then
           (let i = cell_getIndex (the parent) (the cell) m
            in if isNext then setSelectionCell (getChildAt parent ((i + 1) mod childCount) m) g
               else setSelectionCell
                 (getChildAt parent (if i - 1 < 0 then childCount - 1 else i - 1) m) g)
         else g)"

definition selectNextCell :: "mxGraph \<Rightarrow> mxGraph" where
  "selectNextCell g = selectCell True False False g"

definition selectPreviousCell :: "mxGraph \<Rightarrow> mxGraph" where
  "selectPreviousCell g = selectCell False False False g"

definition selectParentCell :: "mxGraph \<Rightarrow> mxGraph" where
  "selectParentCell g = selectCell False True False g"

definition selectChildCell :: "mxGraph \<Rightarrow> mxGraph" where
  "selectChildCell g = selectCell False False True g"

definition selectAll :: "cref option \<Rightarrow> bool \<Rightarrow> mxGraph \<Rightarrow> mxGraph option" where
  "selectAll parent descendants g =
     (let parent = (if parent \<noteq> None then parent else getDefaultParent g)
      in map_option (\<lambda>cs. if cs \<noteq> None then setSelectionCells cs g else g)
           (if descendants then map_option Some (filterDescendants (Some (\<lambda>c. c \<noteq> parent)) parent (g_model g))
            else Some (map_option (map Some) (getChildren parent (g_model g)))))"

definition selectCells :: "bool \<Rightarrow> bool \<Rightarrow> cref option \<Rightarrow> mxGraph \<Rightarrow> mxGraph option" where
  "selectCells vertices edges parent g =
     (let parent = (if parent \<noteq> None then parent else getDefaultParent g); m = g_model g
      in map_option (\<lambda>cs. setSelectionCells (Some cs) g)
           (filterDescendants
             (Some (\<lambda>c. getState c g \<noteq> None \<and>
                (getChildCount c m = 0 \<and> isVertex c m \<and> vertices \<and> \<not> isEdge (getParent c m) m \<or>
                 isEdge c m \<and> edges))) parent m))"

definition selectVertices :: "cref option \<Rightarrow> mxGraph \<Rightarrow> mxGraph option" where
  "selectVertices parent g = selectCells True False parent g"

definition selectEdges :: "cref option \<Rightarrow> mxGraph \<Rightarrow> mxGraph option" where
  "selectEdges parent g = selectCells False True parent g"

subsection \<open>The cells of an edit\<close>

text \<open>\<open>addCell\<close>: the cell, or for a cell that is neither vertex nor edge its children; \<open>acc\<close> holds
  the cells in the dictionary, in the order they are listed.\<close>

fun add_changed :: "nat \<Rightarrow> mxGraphModel \<Rightarrow> cref option \<Rightarrow> cref option list \<Rightarrow> cref option list option" where
  "add_changed 0 m cell acc = None"
| "add_changed (Suc n) m cell acc =
     (if cell \<in> set acc then Some acc
      else Option.bind (m_contains cell m) (\<lambda>contained.
        if contained then
          (if isEdge cell m \<or> isVertex cell m then Some (acc @ [cell])
           else for_each (\<lambda>i. add_changed n m (getChildAt cell i m)) (upto_count (getChildCount cell m)) acc)
        else Some acc))"

fun changed_cell :: "change \<Rightarrow> cref option" where
  "changed_cell (RootChange r p) = None"
| "changed_cell (ChildChange p q c i j) = c"
| "changed_cell (TerminalChange c t p s) = c"
| "changed_cell (ValueChange c v p) = c"
| "changed_cell (StyleChange c s p) = c"
| "changed_cell (GeometryChange c s p) = c"
| "changed_cell (CollapseChange c s p) = c"
| "changed_cell (VisibleChange c s p) = c"
| "changed_cell (CellAttributeChange c a v p) = c"

definition getSelectionCellsForChanges :: "change list \<Rightarrow> mxGraph \<Rightarrow> cref option list option" where
  "getSelectionCellsForChanges chs g =
     for_each
       (\<lambda>c acc. case changed_cell c of
           None \<Rightarrow> Some acc
         | Some cell \<Rightarrow> add_changed (Suc (walk_fuel (g_model g))) (g_model g) (Some cell) acc)
       chs []"

fun getRemovedCellsForChanges :: "change list \<Rightarrow> mxGraph \<Rightarrow> cref option list option" where
  "getRemovedCellsForChanges [] g = Some []"
| "getRemovedCellsForChanges (RootChange r p # cs) g = Some []"
| "getRemovedCellsForChanges (ChildChange parent previous child i j # cs) g =
     Option.bind (m_contains previous (g_model g)) (\<lambda>before.
     Option.bind (m_contains parent (g_model g)) (\<lambda>after.
     Option.bind (if before \<and> \<not> after then getDescendants child (g_model g) else Some []) (\<lambda>gone.
       map_option ((@) gone) (getRemovedCellsForChanges cs g))))"
| "getRemovedCellsForChanges (VisibleChange cell b p # cs) g =
     Option.bind (getDescendants cell (g_model g)) (\<lambda>gone.
       map_option ((@) gone) (getRemovedCellsForChanges cs g))"
| "getRemovedCellsForChanges (c # cs) g = getRemovedCellsForChanges cs g"

subsection \<open>Keyboard selection\<close>

lemma distinct_singleton:
  assumes "distinct xs" and "set xs = {x}"
  shows "xs = [x]"
proof -
  have "\<forall>y \<in> set xs. y = x" "xs \<noteq> []" using assms(2) by auto
  with assms(1) show ?thesis by (cases xs; cases "tl xs") auto
qed

lemma setSelectionCell_single:
  assumes "distinct (sel_cells (selectionModel g))" and "cellsSelectable g"
  shows "sel_cells (selectionModel (setSelectionCell (Some c) g)) = [c]"
    and "g_model (setSelectionCell (Some c) g) = g_model g"
    and "cellsSelectable (setSelectionCell (Some c) g) = cellsSelectable g"
proof -
  have "List.find (selectable g) [Some c] = Some (Some c)" "filter (selectable g) [Some c] = [Some c]"
    using assms(2) by (simp_all add: selectable_def isCellSelectable_def isCellsSelectable_def)
  then have "selectionModel (setSelectionCell (Some c) g) =
      changeSelection (Some [Some c]) (Some (map Some (sel_cells (selectionModel g)))) (selectionModel g)"
    by (simp add: setSelectionCell_def on_selection_def setCell_def setCells_def getFirstSelectableCell_def)
  then have "distinct (sel_cells (selectionModel (setSelectionCell (Some c) g)))"
      "set (sel_cells (selectionModel (setSelectionCell (Some c) g))) = {c}"
    using changeSelection_cells [OF assms(1), of "Some [Some c]" "Some (map Some (sel_cells (selectionModel g)))"]
    by (auto simp: cells_of_def)
  then show "sel_cells (selectionModel (setSelectionCell (Some c) g)) = [c]" by (rule distinct_singleton)
qed (simp_all add: setSelectionCell_def on_selection_def)

lemma select_sibling:
  assumes "tree_inv (g_model g)" and "sel_cells (selectionModel g) = [c]"
    and "cell_getParent c (g_model g) = Some p"
  obtains i where "i < length (children_of (g_model g) p)" "children_of (g_model g) p ! i = c"
    "selectNextCell g = setSelectionCell
       (Some (children_of (g_model g) p ! (Suc i mod length (children_of (g_model g) p)))) g"
    "selectPreviousCell g = setSelectionCell
       (Some (children_of (g_model g) p ! (if i = 0 then length (children_of (g_model g) p) - 1 else i - 1))) g"
proof -
  let ?m = "g_model g"
  let ?cs = "children_of ?m p"
  obtain i where i: "cell_getIndex p c ?m = int i" "i < length ?cs" "?cs ! i = c"
    using cell_getIndex_child [OF assms(1,3)] .
  have count: "getChildCount (Some p) ?m = int (length ?cs)"
    by (simp add: getChildCount_def cell_getChildCount_def children_of_def split: option.split)
  have child: "getChildAt (Some p) (int j) ?m = Some (?cs ! j)" if "j < length ?cs" for j
    using that by (cases "c_children (cell_at ?m p)")
      (simp_all add: getChildAt_def cell_getChildAt_def children_of_def js_at_def)
  have par: "getParent (Some c) ?m = Some p" using assms(3) by (simp add: getParent_def)
  have pos: "0 < length ?cs" "?cs \<noteq> []" using i(2) by auto
  have nxt: "(int i + 1) mod int (length ?cs) = int (Suc i mod length ?cs)"
    by (simp add: zmod_int add.commute)
  have "selectNextCell g = setSelectionCell (Some (?cs ! (Suc i mod length ?cs))) g"
    using assms(2) par i(1) child [of "Suc i mod length ?cs"] pos
    by (simp add: selectNextCell_def selectCell_def Let_def js_at_def count nxt)
  moreover have "selectPreviousCell g =
      setSelectionCell (Some (?cs ! (if i = 0 then length ?cs - 1 else i - 1))) g"
  proof (cases "i = 0")
    case True
    moreover obtain n where "length ?cs = Suc n" using pos(1) gr0_implies_Suc by blast
    ultimately have "int (length ?cs) - 1 = int (length ?cs - 1)" by simp
    with \<open>i = 0\<close> show ?thesis
      using assms(2) par i(1) child [of "length ?cs - 1"] pos
      by (simp add: selectPreviousCell_def selectCell_def Let_def js_at_def count)
  next
    case False
    then obtain j where "i = Suc j" by (cases i) auto
    then show ?thesis
      using assms(2) par i(1) child [of j] pos i(2)
      by (simp add: selectPreviousCell_def selectCell_def Let_def js_at_def count)
  qed
  ultimately show thesis by (rule that [OF i(2,3)])
qed

lemma cycle_siblings:
  assumes "tree_inv (g_model g)" and "cellsSelectable g"
    and "sel_cells (selectionModel g) = [c]" and "cell_getParent c (g_model g) = Some p"
    and "i < length (children_of (g_model g) p)" and "children_of (g_model g) p ! i = c"
  shows "sel_cells (selectionModel ((selectNextCell ^^ k) g)) =
      [children_of (g_model g) p ! ((i + k) mod length (children_of (g_model g) p))] \<and>
    g_model ((selectNextCell ^^ k) g) = g_model g \<and> cellsSelectable ((selectNextCell ^^ k) g)"
proof (induction k)
  case 0
  then show ?case using assms by simp
next
  case (Suc k)
  let ?cs = "children_of (g_model g) p"
  let ?g = "(selectNextCell ^^ k) g"
  let ?d = "?cs ! ((i + k) mod length ?cs)"
  have lt: "(i + k) mod length ?cs < length ?cs" using assms(5) by (intro mod_less_divisor) linarith
  then have "cell_getParent ?d (g_model ?g) = Some p"
    using tree_invD(2) [OF assms(1)] nth_mem [OF lt] Suc by (simp add: cell_getParent_def)
  then obtain j where j: "j < length ?cs" "?cs ! j = ?d"
      "selectNextCell ?g = setSelectionCell (Some (?cs ! (Suc j mod length ?cs))) ?g"
    using select_sibling [of ?g ?d p] Suc assms(1) by metis
  have "j = (i + k) mod length ?cs"
    using j(1,2) lt tree_invD(1) [OF assms(1)] nth_eq_iff_index_eq by blast
  then have "Suc j mod length ?cs = (i + Suc k) mod length ?cs" by (simp add: mod_Suc_eq)
  then show ?case
    using Suc j(3) setSelectionCell_single [of ?g] by simp
qed

subsection \<open>Properties\<close>

text \<open>C39: Selecting the next cell again and again goes through the siblings of the selected cell in the
  order of the children array and comes back to it after as many steps as there are; selecting the
  previous cell takes one step back.\<close>

theorem next_cell_cycles:
  assumes "tree_inv (g_model g)" and "cellsSelectable g"
    and "sel_cells (selectionModel g) = [c]" and "cell_getParent c (g_model g) = Some p"
  shows "sel_cells (selectionModel ((selectNextCell ^^ length (children_of (g_model g) p)) g)) = [c] \<and>
    (\<forall>d \<in> set (children_of (g_model g) p). \<exists>k < length (children_of (g_model g) p).
       sel_cells (selectionModel ((selectNextCell ^^ k) g)) = [d]) \<and>
    sel_cells (selectionModel (selectPreviousCell (selectNextCell g))) = [c]"
proof -
  let ?cs = "children_of (g_model g) p"
  let ?n = "length ?cs"
  obtain i where i: "i < ?n" "?cs ! i = c" using select_sibling [OF assms(1,3,4)] by metis
  note cycle = cycle_siblings [OF assms i]
  have "sel_cells (selectionModel ((selectNextCell ^^ ?n) g)) = [c]" using cycle [of ?n] i by simp
  moreover have "\<exists>k < ?n. sel_cells (selectionModel ((selectNextCell ^^ k) g)) = [d]" if d: "d \<in> set ?cs" for d
  proof -
    obtain j where j: "j < ?n" "?cs ! j = d" using d unfolding in_set_conv_nth by blast
    let ?k = "(if i \<le> j then j - i else ?n - i + j)"
    have "?k < ?n" "(i + ?k) mod ?n = j" using i(1) j(1) by auto
    with cycle [of ?k] j(2) show ?thesis by metis
  qed
  moreover have "sel_cells (selectionModel (selectPreviousCell (selectNextCell g))) = [c]"
  proof -
    let ?g = "selectNextCell g"
    let ?d = "?cs ! (Suc i mod ?n)"
    have g: "sel_cells (selectionModel ?g) = [?d]" "g_model ?g = g_model g" "cellsSelectable ?g"
      using cycle [of 1] by simp_all
    have lt: "Suc i mod ?n < ?n" using i(1) by (intro mod_less_divisor) linarith
    then have par: "cell_getParent ?d (g_model ?g) = Some p"
      using tree_invD(2) [OF assms(1)] nth_mem [OF lt] g(2) by (simp add: cell_getParent_def)
    then obtain j where j: "j < ?n" "?cs ! j = ?d"
        "selectPreviousCell ?g = setSelectionCell (Some (?cs ! (if j = 0 then ?n - 1 else j - 1))) ?g"
      using select_sibling [of ?g ?d p] g assms(1) by metis
    have "j = Suc i mod ?n" using j(1,2) lt tree_invD(1) [OF assms(1)] nth_eq_iff_index_eq by blast
    then have "(if j = 0 then ?n - 1 else j - 1) = i" using i(1) by (auto simp: mod_Suc)
    then show ?thesis using j(3) i(2) g setSelectionCell_single [of ?g] by simp
  qed
  ultimately show ?thesis by blast
qed

theorem next_cell_cycles_witness:
  "sel_cells (selectionModel ((selectNextCell ^^ 3) (setSelectionCell (Some 4) (new_mxGraph sample None)))) = [4]"
proof -
  let ?g = "new_mxGraph sample None"
  have "cellsSelectable ?g" "sel_cells (selectionModel ?g) = []"
    by (simp_all add: graph_defaults new_mxGraphSelectionModel_def)
  then have "sel_cells (selectionModel (setSelectionCell (Some 4) ?g)) = [4]"
      "g_model (setSelectionCell (Some 4) ?g) = sample" "cellsSelectable (setSelectionCell (Some 4) ?g)"
    using setSelectionCell_single [of ?g] by simp_all
  moreover have "cell_getParent 4 sample = Some 1" by (simp add: sample_parent)
  ultimately show ?thesis
    using next_cell_cycles [of "setSelectionCell (Some 4) ?g" 4 1] sample_tree
    by (simp add: sample_children numeral_3_eq_3)
qed

end
