(* ===== verification/GraphOps.thy ===== *)
theory GraphOps
  imports GraphResize GraphSelection
begin

text \<open>
  Styles, order and alignment of cells: view/mxGraph.js and the functions of util/mxUtils.js behind
  them.  An operation that is given no cells works on the selection.
\<close>

definition given_cells :: "cells \<Rightarrow> mxGraph \<Rightarrow> cref option list" where
  "given_cells cs g = (case cs of None \<Rightarrow> getSelectionCells g | Some xs \<Rightarrow> xs)"

subsection \<open>Sorting cells\<close>

text \<open>
  \<open>Array.prototype.sort\<close> with a comparison function: a stable sort, here by insertion.
\<close>

fun insert_by :: "('a \<Rightarrow> 'a \<Rightarrow> int) \<Rightarrow> 'a \<Rightarrow> 'a list \<Rightarrow> 'a list" where
  "insert_by cmp x [] = [x]"
| "insert_by cmp x (y # ys) = (if cmp x y \<le> 0 then x # y # ys else y # insert_by cmp x ys)"

definition js_sort :: "('a \<Rightarrow> 'a \<Rightarrow> int) \<Rightarrow> 'a list \<Rightarrow> 'a list" where
  "js_sort cmp xs = foldr (insert_by cmp) xs []"

text \<open>The paths of the cells, as the dictionary keeps them.\<close>

fun cell_paths :: "'a heap_scheme \<Rightarrow> cref option list \<Rightarrow> (string list \<times> cref option) list option" where
  "cell_paths m [] = Some []"
| "cell_paths m (c # cs) =
     Option.bind (path_create c m) (\<lambda>p. map_option ((#) (js_split CHR ''.'' p, c)) (cell_paths m cs))"

definition sort_order :: "bool \<Rightarrow> string list \<times> cref option \<Rightarrow> string list \<times> cref option \<Rightarrow> int" where
  "sort_order ascending o1 o2 =
     (let comp = path_compare (fst o1) (fst o2)
      in if comp = 0 then 0 else if (comp > 0) = ascending then 1 else -1)"

definition sortCells :: "cref option list \<Rightarrow> bool option \<Rightarrow> 'a heap_scheme \<Rightarrow> cref option list option" where
  "sortCells cs ascending m =
     map_option (\<lambda>ps. map snd (js_sort (sort_order (ascending \<noteq> Some False)) ps)) (cell_paths m cs)"

subsection \<open>Styles\<close>

text \<open>\<open>mxUtils.setCellStyles\<close> and \<open>setCellStyleFlags\<close>: one transaction that sets the style of each cell.\<close>

definition restyle_cells :: "(string option \<Rightarrow> string option) \<Rightarrow> cref option list \<Rightarrow> mxGraphModel \<Rightarrow> mxGraphModel option" where
  "restyle_cells f cs m =
     (if length cs > 0 then
        map_option endUpdate
          (for_each (\<lambda>c m. if c \<noteq> None then m_setStyle c (f (m_getStyle c m)) m else Some m) cs (beginUpdate m))
      else Some m)"

definition mx_setCellStyles :: "cref option list \<Rightarrow> string \<Rightarrow> style_value option \<Rightarrow> mxGraphModel \<Rightarrow> mxGraphModel option" where
  "mx_setCellStyles cs key v = restyle_cells (\<lambda>style. setStyle style key v) cs"

text \<open>The bitwise operators work on 32-bit integers; what \<open>parseInt\<close> cannot read counts as 0.\<close>

definition to_int32 :: "int option \<Rightarrow> int32" where
  "to_int32 i = (case i of None \<Rightarrow> 0 | Some k \<Rightarrow> word_of_int k)"

definition change_flag :: "string \<Rightarrow> int \<Rightarrow> bool option \<Rightarrow> string" where
  "change_flag tmp flag v =
     (let old = to_int32 (js_parseInt tmp); f = word_of_int flag
      in js_int_string (sint (case v of None \<Rightarrow> old XOR f | Some True \<Rightarrow> old OR f | Some False \<Rightarrow> old AND NOT f)))"

definition setStyleFlag :: "string option \<Rightarrow> string \<Rightarrow> int \<Rightarrow> bool option \<Rightarrow> string option" where
  "setStyleFlag style key flag v =
     (let on = (v \<noteq> Some False); s = (case style of None \<Rightarrow> [] | Some s \<Rightarrow> s)
      in if length s = 0 then Some (key @ ''='' @ (if on then js_int_string flag else ''0''))
         else
           (let index = js_str_indexOf s (key @ ''='')
            in if index < 0 then
                 (let sep = (if js_charAt s (int (length s) - 1) = '';'' then [] else '';'')
                  in Some (s @ sep @ key @ ''='' @ (if on then js_int_string flag else ''0'')))
               else
                 (let cont = js_indexOf_from s '';'' (nat index);
                      start = index + int (length key) + 1;
                      tmp = (if cont < 0 then js_substring_from s start else js_substring s start cont)
                  in Some (js_substring s 0 index @ key @ ''='' @ change_flag tmp flag v @
                       (if cont \<ge> 0 then js_substring_from s cont else [])))))"

definition mx_setCellStyleFlags ::
  "cref option list \<Rightarrow> string \<Rightarrow> int \<Rightarrow> bool option \<Rightarrow> mxGraphModel \<Rightarrow> mxGraphModel option" where
  "mx_setCellStyleFlags cs key flag v = restyle_cells (\<lambda>style. setStyleFlag style key flag v) cs"

definition setCellStyle :: "string option \<Rightarrow> cells \<Rightarrow> mxGraph \<Rightarrow> mxGraph option" where
  "setCellStyle style cs g =
     in_update_do (for_each (\<lambda>c. with_model (m_setStyle c style)) (given_cells cs g)) g"

definition setCellStyles :: "string \<Rightarrow> style_value option \<Rightarrow> cells \<Rightarrow> mxGraph \<Rightarrow> mxGraph option" where
  "setCellStyles key v cs g = with_model (mx_setCellStyles (given_cells cs g) key v) g"

text \<open>The style is toggled by its value on the first cell; the result is the new value.\<close>

definition toggleCellStyles :: "string \<Rightarrow> bool option \<Rightarrow> cells \<Rightarrow> mxGraph \<Rightarrow> (int option \<times> mxGraph) option" where
  "toggleCellStyles key defaultValue cs g =
     (let defaultValue = (case defaultValue of None \<Rightarrow> False | Some b \<Rightarrow> b); xs = given_cells cs g
      in if length xs > 0 then
           Option.bind (style_of (hd xs) g) (\<lambda>style.
             let v = (if truthy (the (getValue (Some style) key (Some (SBool defaultValue)))) then 0 else 1)
             in map_option (Pair (Some v)) (setCellStyles key (Some (SNum (of_int v))) (Some xs) g))
         else Some (None, g))"

definition toggleCellStyle :: "string \<Rightarrow> bool option \<Rightarrow> cref option \<Rightarrow> mxGraph \<Rightarrow> (int option \<times> mxGraph) option" where
  "toggleCellStyle key defaultValue cell g =
     toggleCellStyles key defaultValue (Some [if cell \<noteq> None then cell else getSelectionCell g]) g"

text \<open>\<open>parseInt(style[key] || 0)\<close>.\<close>

definition current_flags :: "style_obj \<Rightarrow> string \<Rightarrow> int option" where
  "current_flags style key =
     (case map_of style key of
        None \<Rightarrow> Some 0
      | Some v \<Rightarrow> (if truthy v then js_parseInt (style_value_string v) else Some 0))"

definition setCellStyleFlags :: "string \<Rightarrow> int \<Rightarrow> bool option \<Rightarrow> cells \<Rightarrow> mxGraph \<Rightarrow> mxGraph option" where
  "setCellStyleFlags key flag v cs g =
     (let xs = given_cells cs g
      in if length xs > 0 then
           Option.bind
             (case v of
                Some b \<Rightarrow> Some (Some b)
              | None \<Rightarrow>
                  map_option (\<lambda>style. Some (sint (to_int32 (current_flags style key) AND word_of_int flag) \<noteq> flag))
                    (style_of (hd xs) g)) (\<lambda>v.
             with_model (mx_setCellStyleFlags xs key flag v) g)
         else Some g)"

definition toggleCellStyleFlags :: "string \<Rightarrow> int \<Rightarrow> cells \<Rightarrow> mxGraph \<Rightarrow> mxGraph option" where
  "toggleCellStyleFlags key flag cs g = setCellStyleFlags key flag None cs g"

definition flipEdge :: "cref option \<Rightarrow> mxGraph \<Rightarrow> mxGraph option" where
  "flipEdge edge g =
     (case (edge, alternateEdgeStyle g) of
        (Some e, Some alternate) \<Rightarrow>
          in_update_do (\<lambda>g.
            let style = m_getStyle edge (g_model g)
            in Option.bind
                 (with_model (m_setStyle edge
                   (if style = None \<or> length (the style) = 0 then Some alternate else None)) g) (\<lambda>g.
               map_option (g_fire (EvFlipEdge e)) (resetEdge edge g))) g
      | _ \<Rightarrow> Some g)"

subsection \<open>Order\<close>

definition cellsOrdered :: "cells \<Rightarrow> bool \<Rightarrow> mxGraph \<Rightarrow> mxGraph option" where
  "cellsOrdered cs to_back g =
     (case cs of
        None \<Rightarrow> Some g
      | Some xs \<Rightarrow>
          in_update_do (\<lambda>g.
            map_option (g_fire (EvCellsOrdered to_back xs))
              (for_each (\<lambda>(i, c) g.
                 let parent = getParent c (g_model g)
                 in with_model (m_add parent c
                      (Some (if to_back then int i else getChildCount parent (g_model g) - 1))) g)
                (enumerate 0 xs) g)) g)"

definition orderCells :: "bool \<Rightarrow> cells \<Rightarrow> mxGraph \<Rightarrow> mxGraph option" where
  "orderCells to_back cs g =
     Option.bind (case cs of Some xs \<Rightarrow> Some xs | None \<Rightarrow> sortCells (getSelectionCells g) (Some True) (g_model g)) (\<lambda>xs.
       in_update_do (\<lambda>g. map_option (g_fire (EvOrderCells to_back xs)) (cellsOrdered (Some xs) to_back g)) g)"

subsection \<open>Alignment\<close>

text \<open>The line to align to: for center and middle that of the first vertex with a state, otherwise
  the outermost one.\<close>

definition state_line :: "string \<Rightarrow> mxRectangle \<Rightarrow> jsnum" where
  "state_line align r =
     (if align = ''center'' then px r + width r / 2
      else if align = ''right'' then px r + width r
      else if align = ''top'' then py r
      else if align = ''middle'' then py r + height r / 2
      else if align = ''bottom'' then py r + height r
      else px r)"

fun align_line :: "string \<Rightarrow> mxGraph \<Rightarrow> cref option list \<Rightarrow> jsnum option \<Rightarrow> jsnum option" where
  "align_line align g [] param = param"
| "align_line align g (c # cs) param =
     (case getState c g of
        None \<Rightarrow> align_line align g cs param
      | Some st \<Rightarrow>
          (if isEdge c (g_model g) then align_line align g cs param
           else
             (case param of
                None \<Rightarrow>
                  (if align = ''center'' \<or> align = ''middle'' then Some (state_line align (cs_bounds st))
                   else align_line align g cs (Some (state_line align (cs_bounds st))))
              | Some p \<Rightarrow>
                  align_line align g cs
                    (Some (if align = ''right'' \<or> align = ''bottom'' then max p (state_line align (cs_bounds st))
                           else if align = ''top'' then min p (py (cs_bounds st))
                           else min p (px (cs_bounds st)))))))"

definition align_geometry :: "string \<Rightarrow> jsnum \<Rightarrow> jsnum \<Rightarrow> mxRectangle \<Rightarrow> mxGeometry \<Rightarrow> mxGeometry option" where
  "align_geometry align param s r geo =
     map_option
       (\<lambda>d. if align = ''top'' \<or> align = ''middle'' \<or> align = ''bottom''
            then geo\<lparr>py := py geo + d\<rparr> else geo\<lparr>px := px geo + d\<rparr>)
       (js_div (param - state_line align r) s)"

definition alignCells :: "string \<Rightarrow> cells \<Rightarrow> jsnum option \<Rightarrow> mxGraph \<Rightarrow> mxGraph option" where
  "alignCells align cs param g =
     (let xs = given_cells cs g
      in if length xs > 1 then
           (case (if param = None then align_line align g xs None else param) of
              None \<Rightarrow> Some g
            | Some p \<Rightarrow>
                in_update_do (\<lambda>g.
                  map_option (g_fire (EvAlignCells align xs))
                    (for_each (\<lambda>c g.
                       case (getState c g, getCellGeometry c g) of
                         (Some st, Some geo) \<Rightarrow>
                           (if \<not> isEdge c (g_model g) then
                              Option.bind (align_geometry align p (scale (g_view g)) (cs_bounds st) geo) (\<lambda>geo.
                                resizeCell c (fromRectangle geo) None g)
                            else Some g)
                       | _ \<Rightarrow> Some g) xs g)) g)
         else Some g)"

end
