(* ===== verification/GraphCells.thy ===== *)
theory GraphCells
  imports GraphOps
begin

text \<open>
  Adding, removing, connecting, folding and grouping cells, view/mxGraph.js.  Each operation is a
  transaction of the model around a step that does the work (\<open>addCells\<close> around
  \<open>cellsAdded\<close>, and so on) and ends with an event of the graph.
\<close>

subsection \<open>Edges of cells\<close>

fun getAllEdges_n :: "nat \<Rightarrow> mxGraphModel \<Rightarrow> cref option list \<Rightarrow> cref option list option" where
  "getAllEdges_n n m [] = Some []"
| "getAllEdges_n 0 m (c # cs) = None"
| "getAllEdges_n (Suc n) m (c # cs) =
     Option.bind (getAllEdges_n n m (map Some (entries (getChildren c m)))) (\<lambda>below.
       map_option (\<lambda>rest. map (\<lambda>j. getEdgeAt c j m) (upto_count (getEdgeCount c m)) @ below @ rest)
         (getAllEdges_n (Suc n) m cs))"

definition getAllEdges :: "cells \<Rightarrow> mxGraph \<Rightarrow> cref option list option" where
  "getAllEdges cs g = getAllEdges_n (Suc (walk_fuel (g_model g))) (g_model g) (entries cs)"

text \<open>\<open>mxUtils.removeDuplicates\<close> keeps the first of equal entries.\<close>

fun without_seen :: "'a list \<Rightarrow> 'a list \<Rightarrow> 'a list" where
  "without_seen seen [] = []"
| "without_seen seen (x # xs) = (if x \<in> set seen then without_seen seen xs else x # without_seen (x # seen) xs)"

definition removeDuplicates :: "'a list \<Rightarrow> 'a list" where
  "removeDuplicates xs = without_seen [] xs"

definition addAllEdges :: "cref option list \<Rightarrow> mxGraph \<Rightarrow> cref option list option" where
  "addAllEdges cs g = map_option (\<lambda>es. removeDuplicates (cs @ es)) (getAllEdges (Some cs) g)"

subsection \<open>Connecting\<close>

record mxConnectionConstraint =
  cn_point :: "mxPoint option"
  cn_perimeter :: bool

definition new_mxConnectionConstraint :: "mxPoint option \<Rightarrow> bool option \<Rightarrow> mxConnectionConstraint" where
  "new_mxConnectionConstraint point perimeter =
     \<lparr>cn_point = point, cn_perimeter = (case perimeter of None \<Rightarrow> True | Some b \<Rightarrow> b)\<rparr>"

definition setConnectionConstraint ::
  "cref option \<Rightarrow> cref option \<Rightarrow> bool \<Rightarrow> mxConnectionConstraint option \<Rightarrow> mxGraph \<Rightarrow> mxGraph option" where
  "setConnectionConstraint edge terminal source constraint g =
     (case constraint of
        None \<Rightarrow> Some g
      | Some cn \<Rightarrow>
          in_update_do (\<lambda>g.
            (let x = (if source then ''exitX'' else ''entryX''); y = (if source then ''exitY'' else ''entryY'');
                 p = (if source then ''exitPerimeter'' else ''entryPerimeter'');
                 set = (\<lambda>key v. setCellStyles key v (Some [edge]))
             in case cn_point cn of
                  None \<Rightarrow> Option.bind (set x None g) (\<lambda>g. Option.bind (set y None g) (set p None))
                | Some pt \<Rightarrow>
                    Option.bind (set x (Some (SNum (px pt))) g) (\<lambda>g.
                    Option.bind (set y (Some (SNum (py pt))) g)
                      (set p (if \<not> cn_perimeter cn then Some (SStr ''0'') else None))))) g)"

definition isPort :: "cref option \<Rightarrow> mxGraph \<Rightarrow> bool" where
  "isPort cell g = False"

definition getTerminalForPort :: "cref option \<Rightarrow> bool \<Rightarrow> mxGraph \<Rightarrow> cref option" where
  "getTerminalForPort cell source g = getParent cell (g_model g)"

definition cellConnected ::
  "cref option \<Rightarrow> cref option \<Rightarrow> bool \<Rightarrow> mxConnectionConstraint option \<Rightarrow> mxGraph \<Rightarrow> mxGraph option" where
  "cellConnected edge terminal source constraint g =
     (if edge \<noteq> None then
        in_update_do (\<lambda>g.
          let previous = getTerminal edge source (g_model g)
          in Option.bind (setConnectionConstraint edge terminal source constraint g) (\<lambda>g.
             Option.bind
               (if isPortsEnabled g then
                  (let port = isPort terminal g;
                       ident = (if port then Option.bind terminal (\<lambda>t. cell_getId t (g_model g)) else None);
                       terminal = (if port then getTerminalForPort terminal source g else terminal)
                   in map_option (Pair terminal)
                        (setCellStyles (if source then ''sourcePort'' else ''targetPort'')
                          (map_option SStr ident) (Some [edge]) g))
                else Some (terminal, g)) (\<lambda>(terminal, g).
             Option.bind (with_model (setTerminal edge terminal source) g) (\<lambda>g.
             map_option (g_fire (EvCellConnected edge terminal source previous))
               (if resetEdgesOnConnect g then resetEdge edge g else Some g))))) g
      else Some g)"

definition connectCell ::
  "cref option \<Rightarrow> cref option \<Rightarrow> bool \<Rightarrow> mxConnectionConstraint option \<Rightarrow> mxGraph \<Rightarrow> mxGraph option" where
  "connectCell edge terminal source constraint g =
     in_update_do (\<lambda>g.
       let previous = getTerminal edge source (g_model g)
       in map_option (g_fire (EvConnectCell edge terminal source previous))
            (cellConnected edge terminal source constraint g)) g"

subsection \<open>Adding\<close>

text \<open>The geometry of a cell that moves to another parent and keeps its place on the screen; \<open>o1\<close> is
  the origin of the new parent.\<close>

definition keep_position :: "cref option \<Rightarrow> cref option \<Rightarrow> mxPoint option \<Rightarrow> mxGraph \<Rightarrow> mxGraph option" where
  "keep_position cell parent o1 g =
     (let m = g_model g; previous = getParent cell m
      in case (o1, getCellGeometry cell g) of
           (Some o1, Some geo) \<Rightarrow>
             (if cell \<noteq> parent \<and> parent \<noteq> previous then
                (let o2 = (case getState previous g of None \<Rightarrow> new_mxPoint (Some 0) (Some 0) | Some st \<Rightarrow> cs_origin st);
                     geo = geo_translate (px o2 - px o1) (py o2 - py o1) geo
                 in set_geometry cell
                      (if \<not> g_relative geo \<and> isVertex cell m \<and> \<not> isAllowNegativeCoordinates g
                       then geo\<lparr>px := max 0 (px geo), py := max 0 (py geo)\<rparr> else geo) g)
              else Some g)
         | _ \<Rightarrow> Some g)"

text \<open>One round of the loop; \<open>index\<close> is the variable of the source, without the number of the cell.\<close>

definition add_one ::
  "browser \<Rightarrow> cref option \<Rightarrow> cref option \<Rightarrow> cref option \<Rightarrow> mxPoint option \<Rightarrow> bool \<Rightarrow> bool \<Rightarrow>
   nat \<times> cref option \<Rightarrow> int \<times> mxGraph \<Rightarrow> (int \<times> mxGraph) option"
where
  "add_one env parent source target o1 constrain extends = (\<lambda>(i, cell) (index, g).
     if cell = None then Some (index - 1, g)
     else
       Option.bind (keep_position cell parent o1 g) (\<lambda>g'.
         let index = (if parent = getParent cell (g_model g) \<and>
               index + int i > getChildCount parent (g_model g') then index - 1 else index)
         in map_option (Pair index)
           (Option.bind (with_model (m_add parent cell (Some (index + int i))) g') (\<lambda>g.
            Option.bind (if autoSizeCellsOnAdd g then autoSizeCell env cell (Some True) g else Some g) (\<lambda>g.
            Option.bind
              (if extends \<and> isExtendParentsOnAdd g \<and> isExtendParent cell g
               then extendParent cell g else Some g) (\<lambda>g.
            Option.bind (if constrain then constrainChild cell g else Some g) (\<lambda>g.
            Option.bind (if source \<noteq> None then cellConnected cell source True None g else Some g) (\<lambda>g.
              if target \<noteq> None then cellConnected cell target False None g else Some g))))))))"

definition cellsAdded ::
  "browser \<Rightarrow> cells \<Rightarrow> cref option \<Rightarrow> int option \<Rightarrow> cref option \<Rightarrow> cref option \<Rightarrow> bool option \<Rightarrow>
   bool option \<Rightarrow> bool option \<Rightarrow> mxGraph \<Rightarrow> mxGraph option"
where
  "cellsAdded env cs parent index source target absolute constrain extends g =
     (case (cs, index) of
        (Some xs, Some index) \<Rightarrow>
          (if parent \<noteq> None then
             in_update_do (\<lambda>g.
               let o1 = (if absolute = Some True then map_option cs_origin (getState parent g) else None)
               in map_option (\<lambda>(index, g). g_fire (EvCellsAdded xs parent index source target absolute) g)
                    (for_each
                      (add_one env parent source target o1 (constrain \<noteq> Some False) (extends \<noteq> Some False))
                      (enumerate 0 xs) (index, g))) g
           else Some g)
      | _ \<Rightarrow> Some g)"

definition graph_addCells ::
  "browser \<Rightarrow> cref option list \<Rightarrow> cref option \<Rightarrow> int option \<Rightarrow> cref option \<Rightarrow> cref option \<Rightarrow> mxGraph \<Rightarrow> mxGraph option"
where
  "graph_addCells env cs parent index source target g =
     (let parent = (if parent = None then getDefaultParent g else parent);
          index = (case index of None \<Rightarrow> getChildCount parent (g_model g) | Some i \<Rightarrow> i)
      in in_update_do (\<lambda>g.
           map_option (g_fire (EvAddCells cs parent index source target))
             (cellsAdded env (Some cs) parent (Some index) source target (Some False) (Some True) None g)) g)"

definition graph_addCell ::
  "browser \<Rightarrow> cref option \<Rightarrow> cref option \<Rightarrow> int option \<Rightarrow> cref option \<Rightarrow> cref option \<Rightarrow> mxGraph \<Rightarrow> mxGraph option"
where
  "graph_addCell env cell parent index source target g = graph_addCells env [cell] parent index source target g"

definition addEdge ::
  "browser \<Rightarrow> cref option \<Rightarrow> cref option \<Rightarrow> cref option \<Rightarrow> cref option \<Rightarrow> int option \<Rightarrow> mxGraph \<Rightarrow> mxGraph option"
where
  "addEdge env edge parent source target index g = graph_addCell env edge parent index source target g"

text \<open>New cells, in the store but in no tree yet.\<close>

definition createVertex ::
  "string option \<Rightarrow> user_value option \<Rightarrow> jsnum option \<Rightarrow> jsnum option \<Rightarrow> jsnum option \<Rightarrow> jsnum option \<Rightarrow>
   string option \<Rightarrow> bool option \<Rightarrow> mxGraph \<Rightarrow> cref \<times> mxGraph"
where
  "createVertex ident v x y w h style relative g =
     (let geo = (new_mxGeometry x y w h)\<lparr>g_relative := (case relative of None \<Rightarrow> False | Some b \<Rightarrow> b)\<rparr>;
          (r, m) = alloc_geo geo (g_model g);
          (vertex, m) = new_mxCell v (Some r) style m;
          m = cell_setConnectable vertex True (cell_setVertex vertex True (cell_setId vertex ident m))
      in (vertex, g\<lparr>g_model := m\<rparr>))"

definition insertVertex ::
  "browser \<Rightarrow> cref option \<Rightarrow> string option \<Rightarrow> user_value option \<Rightarrow> jsnum option \<Rightarrow> jsnum option \<Rightarrow> jsnum option \<Rightarrow>
   jsnum option \<Rightarrow> string option \<Rightarrow> bool option \<Rightarrow> mxGraph \<Rightarrow> (cref \<times> mxGraph) option"
where
  "insertVertex env parent ident v x y w h style relative g =
     (let (vertex, g) = createVertex ident v x y w h style relative g
      in map_option (Pair vertex) (graph_addCell env (Some vertex) parent None None None g))"

definition createEdge :: "string option \<Rightarrow> user_value option \<Rightarrow> string option \<Rightarrow> mxGraph \<Rightarrow> cref \<times> mxGraph" where
  "createEdge ident v style g =
     (let (r, m) = alloc_geo ((new_mxGeometry None None None None)\<lparr>g_relative := True\<rparr>) (g_model g);
          (edge, m) = new_mxCell v (Some r) style m;
          m = cell_setEdge edge True (cell_setId edge ident m)
      in (edge, g\<lparr>g_model := m\<rparr>))"

definition graph_insertEdge ::
  "browser \<Rightarrow> cref option \<Rightarrow> string option \<Rightarrow> user_value option \<Rightarrow> cref option \<Rightarrow> cref option \<Rightarrow> string option \<Rightarrow>
   mxGraph \<Rightarrow> (cref \<times> mxGraph) option"
where
  "graph_insertEdge env parent ident v source target style g =
     (let (edge, g) = createEdge ident v style g
      in map_option (Pair edge) (addEdge env (Some edge) parent source target None g))"

subsection \<open>Removing\<close>

text \<open>One end of an edge that stays: if its visible terminal is the removed cell or lies below it, the
  end is fixed at the point where the view shows it.\<close>

definition disconnect_from :: "cref option \<Rightarrow> cref option \<Rightarrow> bool \<Rightarrow> mxGraph \<Rightarrow> mxGraph option" where
  "disconnect_from cell edge source g =
     (let m = g_model g in
      case (getCellGeometry edge g, getState edge g) of
        (Some geo, Some state) \<Rightarrow>
          Option.bind (walk_up (walk_fuel m) m (\<lambda>c. cell = Some c)
            (if source then visibleSource state else visibleTarget state)) (\<lambda>hit.
          if hit \<noteq> None then
            (let sc = scale (g_view g); tr = translate (g_view g); parent = getParent edge m
             in Option.bind
                  (case getState parent g of
                     Some ps \<Rightarrow>
                       (if isVertex parent m
                        then Option.bind (js_div (px (cs_bounds ps)) sc) (\<lambda>dx.
                             map_option (Pair dx) (js_div (py (cs_bounds ps)) sc))
                        else Some (px tr, py tr))
                   | None \<Rightarrow> Some (px tr, py tr)) (\<lambda>(dx, dy).
                Option.bind (end_point source state) (\<lambda>pt.
                Option.bind (js_div (px pt) sc) (\<lambda>x. Option.bind (js_div (py pt) sc) (\<lambda>y.
                Option.bind (with_model (setTerminal edge None source) g)
                  (set_geometry edge
                    (geo_setTerminalPoint (Some (new_mxPoint (Some (x - dx)) (Some (y - dy)))) source geo)))))))
          else Some g)
      | _ \<Rightarrow> Some g)"

definition remove_one :: "cref option list \<Rightarrow> cref option \<Rightarrow> mxGraph \<Rightarrow> mxGraph option" where
  "remove_one cs cell g =
     Option.bind (getAllEdges (Some [cell]) g) (\<lambda>edges.
     Option.bind
       (for_each (\<lambda>edge g.
          if edge \<notin> set cs
          then Option.bind (disconnect_from cell edge True g) (disconnect_from cell edge False)
          else Some g) edges g)
       (with_model (m_remove cell)))"

definition cellsRemoved :: "cells \<Rightarrow> mxGraph \<Rightarrow> mxGraph option" where
  "cellsRemoved cs g =
     (case cs of
        None \<Rightarrow> Some g
      | Some xs \<Rightarrow>
          (if length xs > 0
           then in_update_do (\<lambda>g. map_option (g_fire (EvCellsRemoved xs)) (for_each (remove_one xs) xs g)) g
           else Some g))"

definition graph_removeCells :: "cells \<Rightarrow> bool option \<Rightarrow> mxGraph \<Rightarrow> (cref option list \<times> mxGraph) option" where
  "graph_removeCells cs includeEdges g =
     (let includeEdges = (includeEdges \<noteq> Some False) in
      Option.bind (case cs of None \<Rightarrow> getDeletableCells (getSelectionCells g) g | Some xs \<Rightarrow> Some xs) (\<lambda>xs.
      Option.bind
        (if includeEdges then Option.bind (addAllEdges xs g) (\<lambda>ys. getDeletableCells ys g) else Some xs) (\<lambda>xs.
        map_option (Pair xs)
          (in_update_do (\<lambda>g. map_option (g_fire (EvRemoveCells (Some xs) includeEdges))
            (cellsRemoved (Some xs) g)) g))))"

subsection \<open>Visibility and folding\<close>

definition cellsToggled :: "cref option list \<Rightarrow> bool \<Rightarrow> mxGraph \<Rightarrow> mxGraph option" where
  "cellsToggled cs visible g =
     (if length cs > 0 then in_update_do (for_each (\<lambda>c. with_model (setVisible c visible)) cs) g else Some g)"

definition toggleCells :: "bool \<Rightarrow> cells \<Rightarrow> bool option \<Rightarrow> mxGraph \<Rightarrow> (cref option list \<times> mxGraph) option" where
  "toggleCells visible cs includeEdges g =
     Option.bind
       (if includeEdges = Some True then addAllEdges (given_cells cs g) g else Some (given_cells cs g)) (\<lambda>xs.
       map_option (Pair xs)
         (in_update_do (\<lambda>g. map_option (g_fire (EvToggleCells visible (Some xs) includeEdges))
           (cellsToggled xs visible g)) g))"

text \<open>The size of the other state: as preferred, or the present one.  A turned cell keeps its upper
  left corner on the screen.\<close>

definition alternate_size :: "browser \<Rightarrow> cref option \<Rightarrow> style_obj \<Rightarrow> mxGeometry \<Rightarrow> mxGraph \<Rightarrow> mxRectangle" where
  "alternate_size env cell style geo g =
     (let bounds = (if collapseToPreferredSize g then
            (case preferred_size env cell g of
               None \<Rightarrow> fromRectangle geo
             | Some tmp \<Rightarrow>
                 (case Option.bind (getValue (Some style) ''startSize'' None) style_value_number of
                    None \<Rightarrow> tmp
                  | Some s \<Rightarrow> (if s > 0 then tmp\<lparr>height := max (height tmp) s\<rparr> else tmp)))
          else fromRectangle geo)
      in new_mxRectangle (Some 0) (Some 0) (Some (width bounds)) (Some (height bounds)))"

definition updateAlternateBounds :: "browser \<Rightarrow> cref option \<Rightarrow> mxGeometry \<Rightarrow> bool \<Rightarrow> mxGraph \<Rightarrow> mxGeometry option" where
  "updateAlternateBounds env cell geo willCollapse g =
     Option.bind (style_of cell g) (\<lambda>style.
     let a = (case g_alternateBounds geo of None \<Rightarrow> alternate_size env cell style geo g | Some a \<Rightarrow> a);
         a = a\<lparr>px := px geo, py := py geo\<rparr>
     in Option.bind
          (case map_of style ''rotation'' of
             None \<Rightarrow> Some 0
           | Some v \<Rightarrow> (if truthy v then style_value_number v else Some 0)) (\<lambda>angle.
          let a = (if angle \<noteq> 0 then
                (let (co, si) = trig env angle;
                     dx = getCenterX a - getCenterX geo; dy = getCenterY a - getCenterY geo
                 in a\<lparr>px := px a + ((co * dx - si * dy) - dx), py := py a + ((si * dx + co * dy) - dy)\<rparr>)
              else a)
          in Some (geo\<lparr>g_alternateBounds := Some a\<rparr>)))"

definition swapBounds :: "browser \<Rightarrow> cref option \<Rightarrow> bool \<Rightarrow> mxGraph \<Rightarrow> mxGraph option" where
  "swapBounds env cell willCollapse g =
     (case getCellGeometry cell g of
        None \<Rightarrow> Some g
      | Some geo \<Rightarrow>
          Option.bind (updateAlternateBounds env cell geo willCollapse g) (\<lambda>geo.
            set_geometry cell (geo_swap geo) g))"

fun cellsFolded_n ::
  "nat \<Rightarrow> browser \<Rightarrow> cref option list \<Rightarrow> bool \<Rightarrow> bool \<Rightarrow> bool \<Rightarrow> mxGraph \<Rightarrow> mxGraph option"
where
  "cellsFolded_n n env [] collapse recurse checkFoldable g = Some g"
| "cellsFolded_n 0 env (c # cs) collapse recurse checkFoldable g = None"
| "cellsFolded_n (Suc n) env (c # cs) collapse recurse checkFoldable g =
     in_update_do (\<lambda>g.
       map_option (g_fire (EvCellsFolded (c # cs) collapse recurse))
         (for_each (\<lambda>cell g.
            Option.bind (if checkFoldable then isCellFoldable cell g else Some True) (\<lambda>foldable.
            if foldable \<and> collapse \<noteq> isCellCollapsed cell g then
              Option.bind (with_model (setCollapsed cell collapse) g) (\<lambda>g.
              Option.bind (swapBounds env cell collapse g) (\<lambda>g.
              Option.bind (if isExtendParent cell g then extendParent cell g else Some g) (\<lambda>g.
              Option.bind
                (if recurse
                 then cellsFolded_n n env (map Some (entries (getChildren cell (g_model g)))) collapse recurse False g
                 else Some g)
                (constrainChild cell))))
            else Some g)) (c # cs) g)) g"

definition cellsFolded :: "browser \<Rightarrow> cref option list \<Rightarrow> bool \<Rightarrow> bool \<Rightarrow> bool \<Rightarrow> mxGraph \<Rightarrow> mxGraph option" where
  "cellsFolded env cs collapse recurse checkFoldable g =
     cellsFolded_n (Suc (walk_fuel (g_model g))) env cs collapse recurse checkFoldable g"

text \<open>Ending the editing of a label, which \<open>foldCells\<close> does first, belongs to the editor.\<close>

definition foldCells ::
  "browser \<Rightarrow> bool \<Rightarrow> bool option \<Rightarrow> cells \<Rightarrow> bool \<Rightarrow> mxGraph \<Rightarrow> (cref option list \<times> mxGraph) option"
where
  "foldCells env collapse recurse cs checkFoldable g =
     (let recurse = (recurse = Some True) in
      Option.bind (case cs of None \<Rightarrow> getFoldableCells (getSelectionCells g) g | Some xs \<Rightarrow> Some xs) (\<lambda>xs.
        map_option (Pair xs)
          (in_update_do (\<lambda>g. map_option (g_fire (EvFoldCells collapse recurse (Some xs)))
            (cellsFolded env xs collapse recurse checkFoldable g)) g)))"

subsection \<open>Grouping\<close>

definition getCellsForGroup :: "cref option list \<Rightarrow> mxGraph \<Rightarrow> cref option list" where
  "getCellsForGroup cs g =
     (case cs of
        [] \<Rightarrow> []
      | c # rest \<Rightarrow> c # filter (\<lambda>d. getParent d (g_model g) = getParent c (g_model g)) rest)"

definition getBoundsForGroup ::
  "cref option \<Rightarrow> cref option list \<Rightarrow> jsnum option \<Rightarrow> mxGraph \<Rightarrow> mxRectangle option option" where
  "getBoundsForGroup grp children border g =
     Option.bind (getBoundingBoxFromGeometry (Some children) (Some True) g) (\<lambda>box.
     case box of
       None \<Rightarrow> Some None
     | Some r \<Rightarrow>
         Option.bind (isSwimlane grp g) (\<lambda>lane.
         Option.bind
           (if lane then
              map_option (\<lambda>s. r\<lparr>px := px r - width s, py := py r - height s,
                width := width r + width s, height := height r + height s\<rparr>) (getStartSize grp g)
            else Some r) (\<lambda>r.
           Some (Some (case border of
               None \<Rightarrow> r
             | Some b \<Rightarrow> r\<lparr>px := px r - b, py := py r - b,
                 width := width r + 2 * b, height := height r + 2 * b\<rparr>)))))"

definition createGroupCell :: "mxGraph \<Rightarrow> cref \<times> mxGraph" where
  "createGroupCell g =
     (let (grp, m) = new_mxCell (Some (VStr [])) None None (g_model g);
          m = cell_setConnectable grp False (cell_setVertex grp True m)
      in (grp, g\<lparr>g_model := m\<rparr>))"

definition groupCells ::
  "browser \<Rightarrow> cref option \<Rightarrow> jsnum option \<Rightarrow> cells \<Rightarrow> mxGraph \<Rightarrow> (cref \<times> mxGraph) option" where
  "groupCells env grp border cs g =
     Option.bind (case cs of Some xs \<Rightarrow> Some xs | None \<Rightarrow> sortCells (getSelectionCells g) (Some True) (g_model g)) (\<lambda>xs.
     let cs = getCellsForGroup xs g;
         (grp, g) = (case grp of Some c \<Rightarrow> (c, g) | None \<Rightarrow> createGroupCell g)
     in Option.bind (getBoundsForGroup (Some grp) cs border g) (\<lambda>bounds.
        case bounds of
          None \<Rightarrow> Some (grp, g)
        | Some r \<Rightarrow>
            (if length cs > 0 then
               (let parent = (case cell_getParent grp (g_model g) of
                      Some p \<Rightarrow> Some p | None \<Rightarrow> getParent (hd cs) (g_model g))
                in map_option (Pair grp)
                  (in_update_do (\<lambda>g.
                     Option.bind
                       (if getCellGeometry (Some grp) g = None
                        then set_geometry (Some grp) (new_mxGeometry None None None None) g else Some g) (\<lambda>g.
                     Option.bind
                       (cellsAdded env (Some [Some grp]) parent (Some (getChildCount parent (g_model g)))
                         None None (Some False) (Some False) (Some False) g) (\<lambda>g.
                     Option.bind
                       (cellsAdded env (Some cs) (Some grp) (Some (cell_getChildCount grp (g_model g)))
                         None None (Some False) (Some False) (Some False) g) (\<lambda>g.
                     Option.bind (cellsMoved env (Some cs) (- px r) (- py r) False False (Some False) g) (\<lambda>g.
                     map_option (g_fire (EvGroupCells grp border cs))
                       (cellsResized [Some grp] [r] (Some False) g)))))) g))
             else Some (grp, g))))"

definition removeCellsAfterUngroup :: "cref option list \<Rightarrow> mxGraph \<Rightarrow> mxGraph option" where
  "removeCellsAfterUngroup cs g = Option.bind (addAllEdges cs g) (\<lambda>xs. cellsRemoved (Some xs) g)"

definition ungroup_one ::
  "browser \<Rightarrow> cref option \<Rightarrow> cref option list \<times> mxGraph \<Rightarrow> (cref option list \<times> mxGraph) option" where
  "ungroup_one env cell = (\<lambda>(result, g).
     let children = map Some (entries (getChildren cell (g_model g)))
     in if length children > 0 then
          (let parent = getParent cell (g_model g)
           in map_option (Pair (result @ children))
                (cellsAdded env (Some children) parent (Some (getChildCount parent (g_model g)))
                  None None (Some True) None None g))
        else Some (result, g))"

definition ungroupCells :: "browser \<Rightarrow> cells \<Rightarrow> mxGraph \<Rightarrow> (cref option list \<times> mxGraph) option" where
  "ungroupCells env cs g =
     (let xs = (case cs of
            Some xs \<Rightarrow> xs
          | None \<Rightarrow> filter (\<lambda>c. getChildCount c (g_model g) > 0) (getSelectionCells g))
      in if length xs > 0 then
           map_option (\<lambda>(result, g). (result, g\<lparr>g_model := endUpdate (g_model g)\<rparr>))
             (Option.bind (for_each (ungroup_one env) xs ([], g\<lparr>g_model := beginUpdate (g_model g)\<rparr>)) (\<lambda>(result, g).
                map_option (\<lambda>g. (result, g_fire (EvUngroupCells xs) g)) (removeCellsAfterUngroup xs g)))
         else Some ([], g))"

definition removeCellsFromParent :: "browser \<Rightarrow> cells \<Rightarrow> mxGraph \<Rightarrow> (cref option list \<times> mxGraph) option" where
  "removeCellsFromParent env cs g =
     (let xs = given_cells cs g
      in map_option (Pair xs)
        (in_update_do (\<lambda>g.
           let parent = getDefaultParent g
           in map_option (g_fire (EvRemoveCellsFromParent xs))
                (cellsAdded env (Some xs) parent (Some (getChildCount parent (g_model g)))
                  None None (Some True) None None g)) g))"

subsection \<open>Labels\<close>

definition cellLabelChanged :: "browser \<Rightarrow> cref \<Rightarrow> user_value option \<Rightarrow> bool \<Rightarrow> mxGraph \<Rightarrow> mxGraph option" where
  "cellLabelChanged env cell v autoSize g =
     in_update_do (\<lambda>g. Option.bind (with_model (m_setValue (Some cell) v) g) (\<lambda>g.
       if autoSize then cellSizeUpdated env (Some cell) False g else Some g)) g"

definition labelChanged :: "browser \<Rightarrow> cref \<Rightarrow> user_value option \<Rightarrow> mxGraph \<Rightarrow> mxGraph option" where
  "labelChanged env cell v g =
     in_update_do (\<lambda>g.
       let old = m_getValue (Some cell) (g_model g)
       in Option.bind (isAutoSizeCell (Some cell) g) (\<lambda>autoSize.
            map_option (g_fire (EvLabelChanged cell v old)) (cellLabelChanged env cell v autoSize g))) g"

end
