(* ===== verification/GraphMove.thy ===== *)
theory GraphMove
  imports GraphCells Validation Cloning
begin

text \<open>
  Copies and moves, view/mxGraph.js: cloning cells with their positions on the screen, moving cells
  (with or without a copy, within their parent or into a target), splitting an edge by cells that are
  dropped on it, and fitting a group to its children.
\<close>

subsection \<open>Cloning\<close>

text \<open>A geometry object changed in place, which only happens to that of a new clone.\<close>

definition change_geometry :: "nat \<Rightarrow> (mxGeometry \<Rightarrow> mxGeometry) \<Rightarrow> mxGraph \<Rightarrow> mxGraph" where
  "change_geometry r f g = g\<lparr>g_model := (g_model g)\<lparr>geo_at := (geo_at (g_model g))(r := f (geo_at (g_model g) r))\<rparr>\<rparr>"

text \<open>An end of a cloned edge whose terminal has not been cloned along stays at its point.\<close>

definition clone_end :: "cref option list \<Rightarrow> cref \<Rightarrow> mxCellState \<Rightarrow> bool \<Rightarrow> mxGraph \<Rightarrow> mxGeometry \<Rightarrow> mxGeometry option" where
  "clone_end cs cell state source g geo =
     (let m = g_model g; sc = scale (g_view g); tr = translate (g_view g)
      in Option.bind (walk_up (walk_fuel m) m (\<lambda>c. Some c \<in> set cs) (cell_getTerminal cell source m)) (\<lambda>hit.
         if hit = None then
           Option.bind (end_point source state) (\<lambda>pt.
           Option.bind (js_div (px pt) sc) (\<lambda>x.
           map_option (\<lambda>y. geo_setTerminalPoint (Some (new_mxPoint (Some (x - px tr)) (Some (y - py tr)))) source geo)
             (js_div (py pt) sc)))
         else Some geo))"

definition clone_edge_geometry ::
  "cref option list \<Rightarrow> cref \<Rightarrow> mxCellState \<Rightarrow> jsnum \<Rightarrow> jsnum \<Rightarrow> mxGraph \<Rightarrow> mxGeometry \<Rightarrow> mxGeometry option" where
  "clone_edge_geometry cs cell state dx dy g geo =
     Option.bind (clone_end cs cell state True g geo) (\<lambda>geo.
     Option.bind (clone_end cs cell state False g geo) (\<lambda>geo.
       case g_points geo of
         None \<Rightarrow> Some geo
       | Some ps \<Rightarrow>
           (if None \<in> set ps then None
            else Some (geo\<lparr>g_points := Some (map (map_option (point_move dx dy)) ps)\<rparr>))))"

definition place_clone ::
  "mxResources \<Rightarrow> cref option list \<Rightarrow> bool \<Rightarrow> bool \<Rightarrow> cref option \<times> cref option \<Rightarrow> mxGraph \<Rightarrow>
   (cref option \<times> mxGraph) option"
where
  "place_clone res cs allowInvalidEdges keepPosition = (\<lambda>(cell, clone) g.
     let m = g_model g in
     if \<not> allowInvalidEdges \<and> isEdge clone m \<and>
        getEdgeValidationError res clone (getTerminal clone True m) (getTerminal clone False m) g \<noteq> None
     then Some (None, g)
     else map_option (Pair clone)
       (case (m_getGeometry clone m, cell, getState cell g, getState (getParent cell m) g) of
          (Some r, Some c, Some state, Some pstate) \<Rightarrow>
            (let dx = (if keepPosition then 0 else px (cs_origin pstate));
                 dy = (if keepPosition then 0 else py (cs_origin pstate))
             in if isEdge clone m
                then map_option (\<lambda>geo. change_geometry r (\<lambda>_. geo) g)
                       (clone_edge_geometry cs c state dx dy g (geo_at m r))
                else Some (change_geometry r (geo_translate dx dy) g))
        | _ \<Rightarrow> Some g))"

fun place_clones ::
  "mxResources \<Rightarrow> cref option list \<Rightarrow> bool \<Rightarrow> bool \<Rightarrow> (cref option \<times> cref option) list \<Rightarrow> mxGraph \<Rightarrow>
   (cref option list \<times> mxGraph) option"
where
  "place_clones res cs allowInvalidEdges keepPosition [] g = Some ([], g)"
| "place_clones res cs allowInvalidEdges keepPosition (p # ps) g =
     Option.bind (place_clone res cs allowInvalidEdges keepPosition p g) (\<lambda>(clone, g).
       map_option (\<lambda>(clones, g). (clone # clones, g)) (place_clones res cs allowInvalidEdges keepPosition ps g))"

definition graph_cloneCells ::
  "mxResources \<Rightarrow> cells \<Rightarrow> bool option \<Rightarrow> clone_map option \<Rightarrow> bool option \<Rightarrow> mxGraph \<Rightarrow>
   (cells \<times> mxGraph) option"
where
  "graph_cloneCells res cs allowInvalidEdges mapping keepPosition g =
     (case cs of
        None \<Rightarrow> Some (None, g)
      | Some xs \<Rightarrow>
          (if length xs > 0 then
             Option.bind (cloneCells xs True mapping (g_model g)) (\<lambda>(clones, mapping, m).
               map_option (\<lambda>(clones, g). (Some clones, g))
                 (place_clones res xs (allowInvalidEdges \<noteq> Some False) (keepPosition = Some True)
                   (zip xs clones) (g\<lparr>g_model := m\<rparr>)))
           else Some (Some [], g)))"

definition graph_cloneCell ::
  "mxResources \<Rightarrow> cref option \<Rightarrow> bool option \<Rightarrow> clone_map option \<Rightarrow> bool option \<Rightarrow> mxGraph \<Rightarrow>
   (cref option \<times> mxGraph) option"
where
  "graph_cloneCell res cell allowInvalidEdges mapping keepPosition g =
     map_option (\<lambda>(clones, g). (hd (the clones), g))
       (graph_cloneCells res (Some [cell]) allowInvalidEdges mapping keepPosition g)"

subsection \<open>Moving\<close>

text \<open>A relative child of an edge moves along with the edge when a terminal of the edge moves.\<close>

definition moves_itself :: "cref list \<Rightarrow> mxGraph \<Rightarrow> cref \<Rightarrow> bool option" where
  "moves_itself tops g cell =
     (let m = g_model g; parent = cell_getParent cell m;
          sel = (\<lambda>t. map_option (\<lambda>hit. hit \<noteq> None) (walk_up (walk_fuel m) m (\<lambda>c. c \<in> set tops) t))
      in if (case getCellGeometry (Some cell) g of None \<Rightarrow> True | Some geo \<Rightarrow> \<not> g_relative geo) \<or> \<not> isEdge parent m
         then Some True
         else Option.bind (sel (getTerminal parent True m)) (\<lambda>s.
              if s then Some False else map_option Not (sel (getTerminal parent False m))))"

text \<open>The cells at their new place: negative coordinates are allowed while the cells still have the
  coordinates of their old parents.\<close>

definition place_moved ::
  "browser \<Rightarrow> cref option list \<Rightarrow> jsnum \<Rightarrow> jsnum \<Rightarrow> bool \<Rightarrow> cref option \<Rightarrow> mxGraph \<Rightarrow> mxGraph option"
where
  "place_moved env cs dx dy clone target g =
     (let previous = isAllowNegativeCoordinates g;
          g = (if target \<noteq> None then setAllowNegativeCoordinates True g else g)
      in Option.bind
           (cellsMoved env (Some cs) dx dy
             (\<not> clone \<and> isDisconnectOnMove g \<and> isAllowDanglingEdges g) (target = None)
             (Some (isExtendParentsOnMove g \<and> target = None)) g) (\<lambda>g.
         let g = setAllowNegativeCoordinates previous g
         in map_option (g_fire (EvMoveCells cs dx dy clone target))
              (if target \<noteq> None
               then cellsAdded env (Some cs) target (Some (getChildCount target (g_model g)))
                      None None (Some True) None None g
               else Some g)))"

definition moveCells ::
  "browser \<Rightarrow> mxResources \<Rightarrow> cref list option \<Rightarrow> jsnum option \<Rightarrow> jsnum option \<Rightarrow> bool option \<Rightarrow> cref option \<Rightarrow>
   clone_map option \<Rightarrow> mxGraph \<Rightarrow> (cells \<times> mxGraph) option"
where
  "moveCells env res cs dx dy clone target mapping g =
     (let dx = (case dx of None \<Rightarrow> 0 | Some d \<Rightarrow> d); dy = (case dy of None \<Rightarrow> 0 | Some d \<Rightarrow> d);
          clone = (clone = Some True)
      in case cs of
           Some xs \<Rightarrow>
             (if dx \<noteq> 0 \<or> dy \<noteq> 0 \<or> clone \<or> target \<noteq> None then
                Option.bind (getTopmostCells xs (g_model g)) (\<lambda>tops.
                map_option (\<lambda>(cs, g). (Some cs, g\<lparr>g_model := endUpdate (g_model g)\<rparr>))
                  ((\<lambda>g.
                      Option.bind (filter_opt (moves_itself tops g) tops) (\<lambda>checked.
                        if clone then
                          Option.bind
                            (graph_cloneCells res (Some (map Some checked)) (Some (isCloneInvalidEdges g)) mapping None g)
                            (\<lambda>(clones, g).
                              let cs = entries clones;
                                  target = (if target = None then getDefaultParent g else target)
                              in map_option (Pair cs) (place_moved env cs dx dy clone target g))
                        else map_option (Pair (map Some checked))
                               (place_moved env (map Some checked) dx dy clone target g)))
                    (g\<lparr>g_model := beginUpdate (g_model g)\<rparr>)))
              else Some (Some (map Some xs), g))
         | None \<Rightarrow> Some (None, g))"

definition importCells ::
  "browser \<Rightarrow> mxResources \<Rightarrow> cref list option \<Rightarrow> jsnum option \<Rightarrow> jsnum option \<Rightarrow> cref option \<Rightarrow>
   clone_map option \<Rightarrow> mxGraph \<Rightarrow> (cells \<times> mxGraph) option"
where
  "importCells env res cs dx dy target mapping g = moveCells env res cs dx dy (Some True) target mapping g"

subsection \<open>Splitting an edge\<close>

text \<open>\<open>slice(from, to)\<close>: a negative position counts from the end.\<close>

definition slice_pos :: "'a list \<Rightarrow> int \<Rightarrow> nat" where
  "slice_pos xs i = (if i < 0 then nat (int (length xs) + i) else min (nat i) (length xs))"

definition js_slice :: "'a list \<Rightarrow> int \<Rightarrow> int \<Rightarrow> 'a list" where
  "js_slice xs a b = drop (slice_pos xs a) (take (slice_pos xs b) xs)"

text \<open>The control points are shared out between the two halves at the nearest segment.\<close>

definition split_points :: "cref option \<Rightarrow> cref option \<Rightarrow> jsnum \<Rightarrow> jsnum \<Rightarrow> mxGraph \<Rightarrow> mxGraph option" where
  "split_points edge newEdge dx dy g =
     (case (m_getGeometry newEdge (g_model g), getState edge g) of
        (Some r, Some state) \<Rightarrow>
          (case g_points (geo_at (g_model g) r) of
             None \<Rightarrow> Some g
           | Some ps \<Rightarrow>
               Option.bind (Option.bind (absolutePoints state) those) (\<lambda>pts.
                 let t = translate (g_view g); s = scale (g_view g);
                     idx = findNearestSegment pts ((dx + px t) * s) ((dy + py t) * s);
                     g = change_geometry r (\<lambda>geo. geo\<lparr>g_points := Some (js_slice ps 0 idx)\<rparr>) g
                 in case getCellGeometry edge g of
                      None \<Rightarrow> Some g
                    | Some geo \<Rightarrow>
                        (case g_points geo of
                           None \<Rightarrow> Some g
                         | Some qs \<Rightarrow>
                             set_geometry edge (geo\<lparr>g_points := Some (js_slice qs idx (int (length qs)))\<rparr>) g)))
      | _ \<Rightarrow> Some g)"

definition splitEdge ::
  "browser \<Rightarrow> mxResources \<Rightarrow> cref option \<Rightarrow> cref option list \<Rightarrow> cref option \<Rightarrow> jsnum option \<Rightarrow> jsnum option \<Rightarrow>
   mxGraph \<Rightarrow> (cref option \<times> mxGraph) option"
where
  "splitEdge env res edge cs newEdge dx dy g =
     (let dx = (case dx of None \<Rightarrow> 0 | Some d \<Rightarrow> d); dy = (case dy of None \<Rightarrow> 0 | Some d \<Rightarrow> d);
          parent = getParent edge (g_model g); source = getTerminal edge True (g_model g);
          first = (case cs of [] \<Rightarrow> None | c # _ \<Rightarrow> c)
      in map_option (\<lambda>(newEdge, g). (newEdge, g\<lparr>g_model := endUpdate (g_model g)\<rparr>))
           (let g = g\<lparr>g_model := beginUpdate (g_model g)\<rparr>
            in Option.bind
                 (if newEdge = None then
                    Option.bind (graph_cloneCell res edge None None None g) (\<lambda>(newEdge, g).
                      map_option (Pair newEdge) (split_points edge newEdge dx dy g))
                  else Some (newEdge, g)) (\<lambda>(newEdge, g).
               Option.bind (cellsMoved env (Some cs) dx dy False False None g) (\<lambda>g.
               Option.bind
                 (cellsAdded env (Some cs) parent (Some (getChildCount parent (g_model g)))
                   None None (Some True) None None g) (\<lambda>g.
               Option.bind
                 (cellsAdded env (Some [newEdge]) parent (Some (getChildCount parent (g_model g)))
                   source first (Some False) None None g) (\<lambda>g.
               map_option (\<lambda>g. (newEdge, g_fire (EvSplitEdge edge cs newEdge dx dy) g))
                 (cellConnected edge first True None g)))))))"

subsection \<open>Groups around their children\<close>

definition js_round :: "jsnum \<Rightarrow> jsnum" where
  "js_round x = of_int \<lfloor>x + 1 / 2\<rfloor>"

record group_borders =
  b_border :: jsnum
  b_top :: jsnum
  b_right :: jsnum
  b_bottom :: jsnum
  b_left :: jsnum

definition fit_group ::
  "browser \<Rightarrow> mxResources \<Rightarrow> group_borders \<Rightarrow> bool \<Rightarrow> cref option \<Rightarrow> mxGraph \<Rightarrow> mxGraph option" where
  "fit_group env res b moveGroup cell g =
     (let children = graph_getChildCells cell None None g in
      case getCellGeometry cell g of
        Some geo \<Rightarrow>
          (if length children > 0 then
             Option.bind (getBoundingBoxFromGeometry (Some (map Some children)) (Some True) g) (\<lambda>bounds.
             case bounds of
               None \<Rightarrow> Some g
             | Some r \<Rightarrow>
                 (if width r > 0 \<and> height r > 0 then
                    Option.bind (isSwimlane cell g) (\<lambda>lane.
                    Option.bind (if lane then getStartSize cell g else Some (new_mxRectangle None None None None)) (\<lambda>size'.
                    let left = width size'; upper = height size';
                        geo = (if moveGroup
                               then geo\<lparr>px := js_round (px geo + px r - b_border b - left - b_left b),
                                    py := js_round (py geo + py r - b_border b - upper - b_top b)\<rparr>
                               else geo);
                        geo = geo\<lparr>width := js_round (width r + 2 * b_border b + left + b_left b + b_right b),
                                  height := js_round (height r + 2 * b_border b + upper + b_top b + b_bottom b)\<rparr>
                    in Option.bind (set_geometry cell geo g) (\<lambda>g.
                       map_option snd
                         (moveCells env res (Some children) (Some (b_border b + left - px r + b_left b))
                           (Some (b_border b + upper - py r + b_top b)) None None None g))))
                  else Some g))
           else Some g)
      | None \<Rightarrow> Some g)"

definition updateGroupBounds ::
  "browser \<Rightarrow> mxResources \<Rightarrow> cells \<Rightarrow> jsnum option \<Rightarrow> bool option \<Rightarrow> jsnum option \<Rightarrow> jsnum option \<Rightarrow>
   jsnum option \<Rightarrow> jsnum option \<Rightarrow> mxGraph \<Rightarrow> (cref option list \<times> mxGraph) option"
where
  "updateGroupBounds env res cs border moveGroup topBorder rightBorder bottomBorder leftBorder g =
     (let xs = given_cells cs g; zero = (\<lambda>v. case v of None \<Rightarrow> 0 | Some d \<Rightarrow> d);
          b = \<lparr>b_border = zero border, b_top = zero topBorder, b_right = zero rightBorder,
               b_bottom = zero bottomBorder, b_left = zero leftBorder\<rparr>
      in map_option (Pair xs)
           (in_update_do (for_each (fit_group env res b (moveGroup = Some True)) (rev xs)) g))"

end
