(* ===== verification/CloneSteps.thy ===== *)
theory CloneSteps
  imports GraphMove ModelSteps
begin

text \<open>
  Cloning and the links between cells, model/mxGraphModel.js: \<open>cloneCells\<close> makes cells without links and wires
  them by \<open>insert\<close> and \<open>insertEdge\<close> of model/mxCell.js, whatever else it is given.
\<close>

lemma links_upd: "links m c = links m c \<Longrightarrow>
    (\<And>x. (c_parent (f x), c_children (f x), c_source (f x), c_target (f x), c_edges (f x)) =
       (c_parent x, c_children x, c_source x, c_target x, c_edges x)) \<Longrightarrow> links (upd c f m) = links m"
  by (auto simp: links_def upd_def fun_eq_iff)

subsection \<open>Links of clones\<close>

text \<open>What cloning does to the links between cells: new cells without links, and insertions.\<close>

inductive wired :: "mxGraphModel \<Rightarrow> mxGraphModel \<Rightarrow> bool" where
  wired_links: "links m' = links m \<Longrightarrow> tx_fields m' = tx_fields m \<Longrightarrow> wired m m'"
| wired_insert: "wired m (cell_insert p c i m)"
| wired_edge: "wired m (cell_insertEdge t e b m)"
| wired_trans: "wired m m1 \<Longrightarrow> wired m1 m2 \<Longrightarrow> wired m m2"

lemma wired_refl [simp]: "wired m m"
  by (rule wired_links) simp_all

lemma tx_insertEdge [simp]: "tx_fields (cell_insertEdge t e b m) = tx_fields m"
  by (simp add: cell_insertEdge_def cell_removeFromTerminal_def cell_removeEdge_def cell_setTerminal_def Let_def split: option.splits)

lemma wired_tx: "wired m m' \<Longrightarrow> tx_fields m' = tx_fields m"
  by (induction rule: wired.induct) simp_all

lemma wired_struct: "wired m m' \<Longrightarrow> struct_inv m \<Longrightarrow> struct_inv m'"
  by (induction rule: wired.induct) (simp_all add: struct_inv_insert struct_inv_insertEdge, use struct_inv_links in blast)

definition grown :: "mxGraphModel \<Rightarrow> mxGraphModel \<Rightarrow> bool" where
  "grown m m' \<longleftrightarrow> wired m m' \<and> fresh_links m' \<and> ncells m \<le> ncells m'"

lemma grown_refl: "fresh_links m \<Longrightarrow> grown m m"
  by (simp add: grown_def)

lemma grown_trans: "grown m m1 \<Longrightarrow> grown m1 m2 \<Longrightarrow> grown m m2"
  by (auto simp: grown_def intro: wired_trans)

lemma fresh_upd: "fresh_links m \<Longrightarrow> c < ncells m \<Longrightarrow> fresh_links (upd c f m)"
  by (simp add: fresh_links_def links_def upd_def)

lemma fresh_same: "fresh_links m \<Longrightarrow> links m' = links m \<Longrightarrow> ncells m' = ncells m \<Longrightarrow> fresh_links m'"
  by (simp add: fresh_links_def)

lemma tx_alloc [simp]:
  "tx_fields (snd (alloc_cell x m)) = tx_fields m" "tx_fields (snd (alloc_geo geo m)) = tx_fields m"
  "tx_fields (snd (alloc_node n m)) = tx_fields m"
  by (simp_all add: alloc_cell_def alloc_geo_def alloc_node_def tx_fields_def)

lemma links_alloc_node [simp]: "links (snd (alloc_node n m)) = links m"
  by (simp add: alloc_node_def links_def)

lemma ncells_alloc [simp]:
  "ncells (snd (alloc_cell x m)) = Suc (ncells m)" "fst (alloc_cell x m) = ncells m"
  "ncells (snd (alloc_geo geo m)) = ncells m" "ncells (snd (alloc_node n m)) = ncells m"
  by (simp_all add: alloc_cell_def alloc_geo_def alloc_node_def)

lemma cell_clone_grown:
  assumes fresh: "fresh_links m" and "cell_clone c m = (k, m')"
  shows "grown m m' \<and> k < ncells m'"
proof -
  let ?x = "cell_at m c"
  let ?m1 = "snd (clone_geometry (c_geometry ?x) m)"
  let ?y = "blank_cell\<lparr>c_geometry := fst (clone_geometry (c_geometry ?x) m), c_style := c_style ?x,
    c_vertex := c_vertex ?x, c_edge := c_edge ?x, c_connectable := c_connectable ?x,
    c_visible := c_visible ?x, c_collapsed := c_collapsed ?x\<rparr>"
  let ?m2 = "snd (alloc_cell ?y ?m1)"
  let ?m3 = "snd (cell_cloneValue c ?m2)"
  have 1: "links ?m1 = links m" "tx_fields ?m1 = tx_fields m" "ncells ?m1 = ncells m"
    by (simp_all add: clone_geometry_def split_beta Let_def split: option.splits)
  have f1: "fresh_links ?m1" using fresh_same [OF fresh 1(1,3)] .
  have 2: "links ?m2 = links ?m1" "fresh_links ?m2"
    by (rule alloc_blank [OF f1]; simp add: blank_cell_def)+
  have 3: "links ?m3 = links ?m2" "tx_fields ?m3 = tx_fields ?m2" "ncells ?m3 = ncells ?m2"
    by (simp_all add: cell_cloneValue_def split_beta Let_def split: option.splits user_value.splits)
  have kc: "k = fst (alloc_cell ?y ?m1)" and m': "m' = cell_setValue k (fst (cell_cloneValue c ?m2)) ?m3"
    using assms(2) by (auto simp: cell_clone_def Let_def split_beta simp del: ncells_alloc)
  have k: "k = ncells m" using kc 1(3) by simp
  have 4: "links m' = links m" "tx_fields m' = tx_fields m" "ncells m' = Suc (ncells m)"
    using 1 2 3 by (simp_all add: m' cell_setValue_def links_upd)
  have "fresh_links m'" using fresh_same [OF 2(2), of m'] 4 1 2 3 by simp
  then show ?thesis using 4 k by (simp add: grown_def wired_links)
qed

lemma insert_grown:
  assumes "fresh_links m" and "p < ncells m" and "c < ncells m"
  shows "grown m (cell_insert p (Some c) i m)"
proof -
  have orphan: "fresh_links h \<Longrightarrow> fresh_links (cell_setParent d None h)" for d and h :: mxGraphModel
    by (auto simp: fresh_links_def links_def cell_setParent_def upd_def)
  have remove: "fresh_links h \<Longrightarrow> fresh_links (snd (cell_remove q j h))" for q j and h :: mxGraphModel
    by (cases "q < ncells h")
      (auto simp: cell_remove_def fresh_links_def links_def cell_setParent_def upd_def split: option.splits)
  let ?h = "cell_removeFromParent c m"
  have h: "fresh_links ?h" "ncells ?h = ncells m"
    using assms(1) remove by (auto simp: cell_removeFromParent_def cell_remove_def cell_setParent_def Let_def upd_def split: option.splits)
  have "fresh_links (cell_insert p (Some c) i m)"
    unfolding cell_insert_def Let_def option.case cell_setParent_def
    by (rule fresh_upd [OF fresh_upd [OF h(1)]]) (use assms h(2) in \<open>simp_all add: upd_def\<close>)
  then show ?thesis by (simp add: grown_def wired_insert)
qed

text \<open>The clones in a mapping are cells that there are.\<close>

lemma cloneCellImpl_grown:
  "cloneCellImpl n incl cell (mapping, m) = Some (k, mapping', m') \<Longrightarrow> fresh_links m \<Longrightarrow>
   (\<And>c d. map_of mapping c = Some d \<Longrightarrow> d < ncells m) \<Longrightarrow>
   grown m m' \<and> k < ncells m' \<and> (\<forall>c d. map_of mapping' c = Some d \<longrightarrow> d < ncells m')"
proof (induction n arbitrary: incl cell mapping m k mapping' m')
  case 0
  then show ?case
    by (cases cell) (auto simp: cloneCellImpl.simps(2) grown_refl split: option.splits)
next
  case (Suc n)
  obtain c where c: "cell = Some c" using Suc.prems(1) by (cases cell) auto
  show ?case
  proof (cases "map_of mapping c")
    case (Some d)
    then show ?thesis using Suc.prems by (auto simp: c cloneCellImpl.simps(2) grown_refl)
  next
    case None
    obtain k0 m0 where clone: "cell_clone c m = (k0, m0)" by (cases "cell_clone c m")
    have g0: "grown m m0" "k0 < ncells m0" using cell_clone_grown [OF Suc.prems(2) clone] by auto
    let ?P = "\<lambda>(mp, h). grown m h \<and> k0 < ncells h \<and> (\<forall>c d. map_of mp c = Some d \<longrightarrow> d < ncells h)"
    let ?f = "\<lambda>i (mapping, m). map_option (\<lambda>(cloneChild, mapping, m). (mapping, cell_insert k0 (Some cloneChild) None m))
      (cloneCellImpl n True (getChildAt (Some c) i m) (mapping, m))"
    have run: "for_each ?f (if incl then upto_count (getChildCount (Some c) m0) else []) ((c, k0) # mapping, m0) = Some (mapping', m')"
      "k = k0"
      using Suc.prems(1) None clone by (auto simp: c cloneCellImpl.simps(2) [of "Suc n"] cellCloned_def Let_def)
    have start: "?P ((c, k0) # mapping, m0)"
      using g0 Suc.prems(3) by (auto simp: grown_def) (meson less_le_trans)
    have "?P (mapping', m')"
    proof (rule for_each_inv [OF run(1), where P = ?P], rule start)
      fix i s s' assume s: "?P s" "?f i s = Some s'"
      obtain mp h where h: "s = (mp, h)" by (cases s)
      from s(2) obtain ch mp' h1 where 1: "cloneCellImpl n True (getChildAt (Some c) i h) (mp, h) = Some (ch, mp', h1)"
        "s' = (mp', cell_insert k0 (Some ch) None h1)" by (auto simp: h)
      have 2: "grown h h1" "ch < ncells h1" "\<forall>c d. map_of mp' c = Some d \<longrightarrow> d < ncells h1"
        using Suc.IH [OF 1(1)] s(1) by (auto simp: h grown_def)
      have "k0 < ncells h1" "fresh_links h1" using s(1) 2(1) by (auto simp: h grown_def)
      then have "grown h1 (cell_insert k0 (Some ch) None h1)" by (intro insert_grown 2(2))
      then have "grown m (cell_insert k0 (Some ch) None h1)" using s(1) 2(1) grown_trans by (auto simp: h)
      then show "?P s'" using 2(3) \<open>k0 < ncells h1\<close> by (simp add: 1(2))
    qed
    then show ?thesis using run(2) by auto
  qed
qed

lemma clone_each_grown:
  "clone_each n incl cells (mapping, m) = Some (clones, mapping', m') \<Longrightarrow> fresh_links m \<Longrightarrow>
   (\<And>c d. map_of mapping c = Some d \<Longrightarrow> d < ncells m) \<Longrightarrow> grown m m'"
proof (induction cells arbitrary: mapping m clones)
  case Nil
  then show ?case by (simp add: grown_refl)
next
  case (Cons cell cells)
  show ?case
  proof (cases cell)
    case None
    then show ?thesis using Cons.prems Cons.IH by (auto split: prod.splits)
  next
    case (Some c)
    from Cons.prems(1) obtain k mp1 m1 cl where 1: "cloneCellImpl n incl (Some c) (mapping, m) = Some (k, mp1, m1)"
      "clone_each n incl cells (mp1, m1) = Some (cl, mapping', m')"
      by (auto simp: Some bind_eq_Some_conv)
    have 2: "grown m m1" "\<And>c d. map_of mp1 c = Some d \<Longrightarrow> d < ncells m1"
      using cloneCellImpl_grown [OF 1(1) Cons.prems(2,3)] by auto
    have "grown m1 m'" using Cons.IH [OF 1(2)] 2 by (simp add: grown_def)
    then show ?thesis using 2(1) grown_trans by blast
  qed
qed

lemma wired_step: "wired m m1 \<Longrightarrow> wired m (cell_insertEdge t e b m1)"
  by (rule wired_trans [OF _ wired_edge])

lemma restore_terminal_wired: "wired m m1 \<Longrightarrow> wired m (restore_terminal c d b mp m1)"
  by (simp add: restore_terminal_def wired_step split: option.splits)

lemma restoreClone_wired: "restoreClone n clone cell mp m = Some m' \<Longrightarrow> wired m m'"
proof (induction n arbitrary: clone cell m m')
  case (Suc n)
  have loop: "for_each (\<lambda>i m. restoreClone n (f i m) (h i m) mp m) xs m1 = Some m' \<Longrightarrow> wired m m1 \<Longrightarrow> wired m m'" for f h xs m1
    by (rule for_each_inv [where P = "wired m"]) (assumption, assumption, blast intro: Suc.IH wired_trans)
  show ?case
    using Suc.prems
    by (cases clone; cases cell) (auto simp: Let_def intro!: loop restore_terminal_wired)
qed simp

lemma cloneCells_wired:
  assumes "cloneCells cells incl mapping m = Some (clones, mp, m')" and "fresh_links m"
    and "\<And>c d. mapping \<noteq> None \<Longrightarrow> map_of (the mapping) c = Some d \<Longrightarrow> d < ncells m"
  shows "wired m m'"
proof -
  let ?mp = "case mapping of None \<Rightarrow> [] | Some mp \<Rightarrow> mp"
  obtain m1 where 1: "clone_each (walk_fuel m) incl cells (?mp, m) = Some (clones, mp, m1)"
    "for_each (\<lambda>(clone, cell) m. if clone \<noteq> None then restoreClone (walk_fuel m) clone cell mp m else Some m) (zip clones cells) m1 = Some m'"
    using assms(1) by (auto simp: cloneCells_def Let_def bind_eq_Some_conv)
  have "wired m m1"
    using clone_each_grown [OF 1(1) assms(2)] assms(3) by (cases mapping) (auto simp: grown_def)
  then show ?thesis
    by (rule for_each_inv [OF 1(2), where P = "wired m"])
      (auto intro: wired_trans [OF _ restoreClone_wired] split: if_splits)
qed

end
