(* ===== verification/GraphSteps.thy ===== *)
theory GraphSteps
  imports CloneSteps
begin

text \<open>
  What the operations of the graph do to the model, view/mxGraph.js on model/mxGraphModel.js.  Each
  operation is a run of executed changes between nested \<open>beginUpdate\<close> and \<open>endUpdate\<close>; a
  geometry that is set is a new object, and a new cell is an object that nothing refers to.  What such runs keep, all operations keep.
\<close>

subsection \<open>Runs of changes\<close>

text \<open>The step \<open>run_wired\<close> stands for everything that is no change of the model and leaves the state of the
  transaction alone: new objects, fields that are no links, and the wiring of clones.\<close>

inductive edit_run :: "mxGraphModel \<Rightarrow> mxGraphModel \<Rightarrow> bool" where
  run_refl: "edit_run m m"
| run_trans: "edit_run m m1 \<Longrightarrow> edit_run m1 m2 \<Longrightarrow> edit_run m m2"
| run_execute: "m_execute c m = Some m' \<Longrightarrow> edit_run m m'"
| run_wired: "wired m m' \<Longrightarrow> edit_run m m'"
| run_update: "edit_run (beginUpdate m) m' \<Longrightarrow> edit_run m (endUpdate m')"

lemma run_objects: "links m' = links m \<Longrightarrow> tx_fields m' = tx_fields m \<Longrightarrow> edit_run m m'"
  by (rule run_wired [OF wired_links])

lemma run_geometry: "edit_run m (snd (alloc_geo geo m))"
  by (rule run_objects [OF links_alloc_geo]) (simp add: alloc_geo_def tx_fields_def)

interpretation run: kept_by_changes "edit_run m0" for m0
  by unfold_locales (blast intro: run_trans run_execute run_geometry)+

lemmas run_model_calls =
  run.kept_setters [OF run_refl] run.kept_add [OF _ run_refl] run.kept_setTerminal [OF _ run_refl]

lemma run_restyle: "restyle_cells f cs m = Some m' \<Longrightarrow> edit_run m m'"
proof (cases "length cs > 0")
  case True
  assume "restyle_cells f cs m = Some m'"
  then obtain m1 where 1: "for_each (\<lambda>c m. if c \<noteq> None then m_setStyle c (f (m_getStyle c m)) m else Some m)
      cs (beginUpdate m) = Some m1" "m' = endUpdate m1"
    using True by (auto simp: restyle_cells_def)
  have "edit_run (beginUpdate m) m1"
    by (rule for_each_inv [OF 1(1), where P = "edit_run (beginUpdate m)"])
      (auto intro: run_refl run.kept_setters(3) split: if_splits)
  then show ?thesis using 1(2) by (simp add: run_update)
qed (auto simp: restyle_cells_def intro: run_refl)

subsection \<open>Runs of the graph\<close>

definition leads :: "(mxGraphModel \<Rightarrow> mxGraphModel \<Rightarrow> bool) \<Rightarrow> mxGraph \<Rightarrow> mxGraph option \<Rightarrow> bool" where
  "leads R g r \<longleftrightarrow> (\<forall>g'. r = Some g' \<longrightarrow> R (g_model g) (g_model g'))"

definition leads_pair ::
  "(mxGraphModel \<Rightarrow> mxGraphModel \<Rightarrow> bool) \<Rightarrow> mxGraph \<Rightarrow> ('a \<times> mxGraph) option \<Rightarrow> bool" where
  "leads_pair R g r \<longleftrightarrow> (\<forall>x g'. r = Some (x, g') \<longrightarrow> R (g_model g) (g_model g'))"

abbreviation run_to :: "mxGraph \<Rightarrow> mxGraph option \<Rightarrow> bool" where "run_to \<equiv> leads edit_run"

abbreviation run_pair :: "mxGraph \<Rightarrow> ('a \<times> mxGraph) option \<Rightarrow> bool" where "run_pair \<equiv> leads_pair edit_run"

text \<open>For any relation.\<close>

lemma leads_fire: "leads R g r \<Longrightarrow> leads R g (map_option (g_fire ev) r)"
  by (auto simp: leads_def g_fire_def)

lemma leads_None: "leads R g None" "leads_pair R g None"
  by (simp_all add: leads_def leads_pair_def)

lemma leads_value: "(\<And>x. leads R g (f x)) \<Longrightarrow> leads R g (Option.bind r f)"
  by (cases r) (simp_all add: leads_None)

lemma leads_if: "leads R g r \<Longrightarrow> leads R g s \<Longrightarrow> leads R g (if b then r else s)"
  by simp

lemma leads_option: "leads R g r \<Longrightarrow> (\<And>x. leads R g (f x)) \<Longrightarrow> leads R g (case v of None \<Rightarrow> r | Some x \<Rightarrow> f x)"
  by (cases v) simp_all

lemma leads_prod: "(\<And>a b. leads R g (f a b)) \<Longrightarrow> leads R g (case p of (a, b) \<Rightarrow> f a b)"
  by (cases p) simp

lemma leads_prod_app: "(\<And>a b. leads R g (f a b h)) \<Longrightarrow> leads R g ((case p of (a, b) \<Rightarrow> f a b) h)"
  by (cases p) simp

lemma leads_pair_with: "leads R g r \<Longrightarrow> leads_pair R g (map_option (Pair x) r)"
  by (auto simp: leads_def leads_pair_def)

lemma leads_pair_value: "(\<And>x. leads_pair R g (f x)) \<Longrightarrow> leads_pair R g (Option.bind r f)"
  by (cases r) (simp_all add: leads_None)

lemma leads_pair_if: "leads_pair R g r \<Longrightarrow> leads_pair R g s \<Longrightarrow> leads_pair R g (if b then r else s)"
  by simp

lemma leads_pair_prod: "(\<And>a b. leads_pair R g (f a b)) \<Longrightarrow> leads_pair R g (case p of (a, b) \<Rightarrow> f a b)"
  by (cases p) simp

lemma leads_pair_option:
  "leads_pair R g r \<Longrightarrow> (\<And>x. leads_pair R g (f x)) \<Longrightarrow> leads_pair R g (case v of None \<Rightarrow> r | Some x \<Rightarrow> f x)"
  by (cases v) simp_all

lemmas leads_rules = leads_None leads_fire leads_value leads_if leads_option leads_pair_with
  leads_pair_value leads_pair_if leads_pair_option leads_prod leads_prod_app leads_pair_prod

text \<open>For runs, one after another.\<close>

lemma run_to_same: "run_to g (Some g)" "run_to g (Some (g_fire ev g))"
  by (simp_all add: leads_def g_fire_def run_refl)

lemma run_to_bind: "run_to g r \<Longrightarrow> (\<And>g'. run_to g' (f g')) \<Longrightarrow> run_to g (Option.bind r f)"
  by (cases r) (auto simp: leads_def intro: run_trans)

lemma run_to_bind_pair:
  "run_pair g r \<Longrightarrow> (\<And>x g'. run_to g' (f x g')) \<Longrightarrow> run_to g (Option.bind r (case_prod f))"
  by (cases r) (auto simp: leads_def leads_pair_def intro: run_trans)

lemma run_to_update: "(\<And>g. run_to g (f g)) \<Longrightarrow> run_to g (in_update_do f g)"
  by (fastforce simp: leads_def in_update_do_def intro: run_update)

lemma run_to_for_each: "(\<And>x g. run_to g (f x g)) \<Longrightarrow> run_to g (for_each f xs g)"
proof (induction xs arbitrary: g)
  case (Cons x xs)
  show ?case
    using run_to_bind [OF Cons.prems(1) [of g x] Cons.IH [OF Cons.prems]]
    by (cases "f x g") (simp_all add: run_to_same)
qed (simp add: run_to_same)

lemma run_to_model:
  "(\<And>m'. h (g_model g) = Some m' \<Longrightarrow> edit_run (g_model g) m') \<Longrightarrow> run_to g (with_model h g)"
  by (auto simp: leads_def with_model_def)

lemma run_pair_same: "run_pair g (Some (x, g))"
  by (simp_all add: leads_pair_def run_refl)

lemma run_to_seq:
  "run_pair g r \<Longrightarrow> (\<And>x g'. run_to g' (f (x, g'))) \<Longrightarrow> run_to g (Option.bind r f)"
  by (cases r) (auto simp: leads_def leads_pair_def intro: run_trans)

lemma run_pair_bind: "run_to g r \<Longrightarrow> (\<And>g'. run_pair g' (f g')) \<Longrightarrow> run_pair g (Option.bind r f)"
  by (cases r) (auto simp: leads_def leads_pair_def intro: run_trans)

lemma run_pair_bind_pair:
  "run_pair g r \<Longrightarrow> (\<And>x g'. run_pair g' (f x g')) \<Longrightarrow> run_pair g (Option.bind r (case_prod f))"
  by (cases r) (auto simp: leads_pair_def intro: run_trans)

lemmas run_rules =
  run_to_same run_pair_same run_to_update run_to_bind run_to_bind_pair run_pair_bind
  run_pair_bind_pair run_to_for_each leads_rules

subsection \<open>Geometry\<close>

lemma run_set_geometry: "run_to g (set_geometry c geo g)"
  unfolding set_geometry_def
  by (rule run_to_model) (auto simp: Let_def split_beta intro: run_trans [OF run_geometry] run_model_calls(2))

lemma run_each_child: "(\<And>c g. run_to g (f c g)) \<Longrightarrow> run_to g (each_child f c g)"
  unfolding each_child_def by (rule run_to_for_each)

lemma run_constrainChild: "run_to g (constrainChild c g)"
  unfolding constrainChild_def Let_def by (intro run_rules run_set_geometry)

lemma run_constrainChildCells: "run_to g (constrainChildCells c g)"
  unfolding constrainChildCells_def by (intro run_each_child run_constrainChild)

lemma run_scaleCell:
  "(\<And>c b i r g. run_to g (resized c b i r g)) \<Longrightarrow> run_to g (scaleCell resized c dx dy rec g)"
  unfolding scaleCell_def Let_def by (intro run_rules run_set_geometry)

lemma run_resizeChildCells:
  "(\<And>c b i r g. run_to g (resized c b i r g)) \<Longrightarrow> run_to g (resizeChildCells resized c geo g)"
  unfolding resizeChildCells_def by (intro run_rules run_each_child run_scaleCell)

lemma run_cellResized_n: "run_to g (cellResized_n n c b i r g)"
proof (induction n arbitrary: c b i r g)
  case (Suc n)
  show ?case
    unfolding cellResized_n.simps Let_def
    by (intro run_rules run_resizeChildCells run_set_geometry run_constrainChildCells Suc)
qed (simp add: run_rules)

lemma run_cellResized: "run_to g (cellResized c b i r g)"
  unfolding cellResized_def by (rule run_cellResized_n)

lemma run_resetEdge: "run_to g (resetEdge e g)"
  unfolding resetEdge_def by (intro run_rules run_set_geometry)

lemma run_resetEdges_n: "run_to g (resetEdges_n n cs g)"
proof (induction n arbitrary: cs g)
  case 0
  then show ?case by (cases cs) (simp_all add: run_rules)
next
  case (Suc n)
  then show ?case by (cases cs) (simp_all only: resetEdges_n.simps, (intro run_rules run_resetEdge Suc)+)
qed

lemma run_resetEdges: "run_to g (resetEdges cs g)"
  unfolding resetEdges_def by (rule run_resetEdges_n)

lemma run_extendParent_by:
  "(\<And>cs bs r g. run_to g (resize cs bs r g)) \<Longrightarrow> run_to g (extendParent_by resize c g)"
  unfolding extendParent_by_def Let_def
  by (auto simp: run_to_same split: prod.splits option.splits)

lemma run_cellsResized_n: "run_to g (cellsResized_n n cs bs r g)"
proof (induction n arbitrary: cs bs r g)
  case (Suc n)
  show ?case
    unfolding cellsResized_n.simps
    by (intro run_rules run_cellResized run_extendParent_by run_constrainChild run_resetEdges Suc)
qed (simp add: run_rules)

lemma run_cellsResized: "run_to g (cellsResized cs bs r g)"
  unfolding cellsResized_def by (rule run_cellsResized_n)

lemma run_extendParent: "run_to g (extendParent c g)"
  unfolding extendParent_def by (intro run_extendParent_by run_cellsResized)

lemma run_resizeCells: "run_to g (resizeCells cs bs r g)"
  unfolding resizeCells_def Let_def by (intro run_rules run_cellsResized)

lemma run_resizeCell: "run_to g (resizeCell c b r g)"
  unfolding resizeCell_def by (rule run_resizeCells)

lemma run_set_style: "run_to g (with_model (m_setStyle c s) g)"
  by (rule run_to_model) (rule run_model_calls(3))

lemma run_cellSizeUpdated: "run_to g (cellSizeUpdated env c i g)"
  unfolding cellSizeUpdated_def Let_def by (intro run_rules run_set_style run_cellsResized)

lemma run_updateCellSize: "run_to g (updateCellSize env c i g)"
  unfolding updateCellSize_def Let_def by (intro run_rules run_cellSizeUpdated)

lemma run_autoSizeCell_n: "run_to g (autoSizeCell_n n env r c g)"
proof (induction n arbitrary: r c g)
  case 0
  then show ?case by (cases c) (simp_all add: run_rules)
next
  case (Suc n)
  then show ?case
    by (cases c) (simp_all only: autoSizeCell_n.simps, (intro run_rules run_each_child run_updateCellSize Suc)+)
qed

lemma run_autoSizeCell: "run_to g (autoSizeCell env c r g)"
  unfolding autoSizeCell_def by (rule run_autoSizeCell_n)

subsection \<open>Moving, styles and order\<close>

lemma run_translateCell: "run_to g (translateCell env c dx dy g)"
  unfolding translateCell_def Let_def by (intro run_rules run_set_geometry)

lemma run_set_terminal: "run_to g (with_model (setTerminal e t b) g)"
  by (rule run_to_model) (rule run_model_calls)

lemma run_loosen_end: "run_pair g (loosen_end cs e st origin b (geo, g))"
  unfolding loosen_end_def Let_def prod.case
  by (intro run_rules run_set_terminal)

lemma run_disconnectGraph: "run_to g (disconnectGraph cs g)"
  unfolding disconnectGraph_def
  by (intro run_to_update run_to_for_each leads_option leads_if leads_prod run_to_same
      run_to_seq [OF run_loosen_end] run_to_bind_pair [OF run_loosen_end] run_set_geometry)

lemma run_cellsMoved: "run_to g (cellsMoved env cs dx dy d k e g)"
  unfolding cellsMoved_def
  by (intro run_rules run_disconnectGraph run_translateCell run_extendParent run_constrainChild run_resetEdges)

lemma run_styles:
  "run_to g (setCellStyle s cs g)" "run_to g (setCellStyles k v cs g)"
  "run_pair g (toggleCellStyles k d cs g)" "run_to g (setCellStyleFlags k fl b cs g)"
proof -
  show styles: "run_to g (setCellStyles k v cs g)" for k v cs g
    unfolding setCellStyles_def mx_setCellStyles_def by (rule run_to_model) (rule run_restyle)
  show "run_to g (setCellStyle s cs g)" unfolding setCellStyle_def by (intro run_rules run_set_style)
  show "run_pair g (toggleCellStyles k d cs g)"
    unfolding toggleCellStyles_def Let_def by (intro run_rules styles)
  show "run_to g (setCellStyleFlags k fl b cs g)"
    unfolding setCellStyleFlags_def mx_setCellStyleFlags_def Let_def
    by (intro run_rules run_to_model) (rule run_restyle)
qed

lemma run_flipEdge: "run_to g (flipEdge e g)"
  unfolding flipEdge_def Let_def by (intro run_rules run_set_style run_resetEdge)

lemma run_add: "run_to g (with_model (m_add p c i) g)"
  by (rule run_to_model) (rule run_model_calls)

lemma run_orderCells: "run_to g (orderCells b cs g)"
  unfolding orderCells_def cellsOrdered_def Let_def by (intro run_rules run_add)

lemma run_alignCells: "run_to g (alignCells a cs p g)"
  unfolding alignCells_def Let_def by (intro run_rules run_resizeCell)

subsection \<open>Adding, removing, connecting, folding and grouping\<close>

lemma run_setConnectionConstraint: "run_to g (setConnectionConstraint e t b cn g)"
  unfolding setConnectionConstraint_def Let_def by (intro run_rules run_styles)

lemma run_cellConnected: "run_to g (cellConnected e t b cn g)"
  unfolding cellConnected_def Let_def
  by (intro run_rules run_setConnectionConstraint run_set_terminal run_resetEdge run_styles)

lemma run_connectCell: "run_to g (connectCell e t b cn g)"
  unfolding connectCell_def Let_def by (intro run_rules run_cellConnected)

lemma run_keep_position: "run_to g (keep_position c p o1 g)"
  unfolding keep_position_def Let_def by (intro run_rules run_set_geometry)

lemma run_add_one: "run_pair g (add_one env p s t o1 k e jc (i, g))"
proof (cases jc)
  case (Pair j c)
  then show ?thesis
    unfolding add_one_def Let_def Pair prod.case
    by (intro run_rules run_keep_position run_add run_autoSizeCell run_extendParent
        run_constrainChild run_cellConnected)
qed

lemma run_pair_for_each:
  "(\<And>x v g. run_pair g (f x (v, g))) \<Longrightarrow> run_pair g (for_each f xs (v, g))"
proof (induction xs arbitrary: v g)
  case (Cons x xs)
  show ?case
  proof (cases "f x (v, g)")
    case (Some s)
    then obtain v1 g1 where "s = (v1, g1)" by (cases s)
    with Some Cons.prems [of g x v] Cons.IH [OF Cons.prems, of g1 v1] show ?thesis
      by (auto simp: leads_pair_def intro: run_trans)
  qed (simp add: leads_pair_def)
qed (simp add: run_pair_same)

lemma run_to_snd: "run_pair g r \<Longrightarrow> run_to g (map_option (\<lambda>(x, g). g_fire (ev x) g) r)"
  by (auto simp: leads_def leads_pair_def g_fire_def)

lemma run_cellsAdded: "run_to g (cellsAdded env cs p i s t a k e g)"
  unfolding cellsAdded_def Let_def by (intro run_rules run_to_snd run_pair_for_each run_add_one)

lemma run_addCells: "run_to g (graph_addCells env cs p i s t g)"
  unfolding graph_addCells_def Let_def by (intro run_rules run_cellsAdded)

lemma run_disconnect_from: "run_to g (disconnect_from c e b g)"
  unfolding disconnect_from_def Let_def by (intro run_rules run_set_terminal run_set_geometry)

lemma run_remove_one: "run_to g (remove_one cs c g)"
proof -
  have "run_to g (with_model (m_remove c) g)" for g by (rule run_to_model) (rule run_model_calls)
  then show ?thesis unfolding remove_one_def by (intro run_rules run_disconnect_from)
qed

lemma run_cellsRemoved: "run_to g (cellsRemoved cs g)"
  unfolding cellsRemoved_def by (intro run_rules run_remove_one)

lemma run_removeCells: "run_pair g (graph_removeCells cs i g)"
  unfolding graph_removeCells_def Let_def by (intro run_rules run_cellsRemoved)

lemma run_toggleCells: "run_pair g (toggleCells b cs i g)"
proof -
  have "run_to g (with_model (setVisible c v) g)" for c v g by (rule run_to_model) (rule run_model_calls)
  then show ?thesis unfolding toggleCells_def cellsToggled_def by (intro run_rules)
qed

lemma run_swapBounds: "run_to g (swapBounds env c b g)"
  unfolding swapBounds_def by (intro run_rules run_set_geometry)

lemma run_cellsFolded_n: "run_to g (cellsFolded_n n env cs b r k g)"
proof (induction n arbitrary: cs b r k g)
  case 0
  then show ?case by (cases cs) (simp_all add: run_rules)
next
  case (Suc n)
  have "run_to g (with_model (setCollapsed c v) g)" for c v g by (rule run_to_model) (rule run_model_calls)
  with Suc show ?case
    by (cases cs) (simp_all only: cellsFolded_n.simps, (intro run_rules run_swapBounds run_extendParent run_constrainChild; simp)+)
qed

lemma run_foldCells: "run_pair g (foldCells env b r cs k g)"
  unfolding foldCells_def cellsFolded_def Let_def by (intro run_rules run_cellsFolded_n)

lemma run_removeCellsFromParent: "run_pair g (removeCellsFromParent env cs g)"
  unfolding removeCellsFromParent_def Let_def by (intro run_rules run_cellsAdded)

subsection \<open>Calls of a client\<close>

text \<open>
  A call makes at most one update of its own, or executes one change, after creating objects: with \<open>at_rest\<close> before, it is
  the outermost one and ends as one edit.
\<close>

inductive call_run :: "mxGraphModel \<Rightarrow> mxGraphModel \<Rightarrow> bool" where
  call_wired: "wired m m' \<Longrightarrow> call_run m m'"
| call_update: "wired m m1 \<Longrightarrow> edit_run (beginUpdate m1) m' \<Longrightarrow> call_run m (endUpdate m')"
| call_execute: "wired m m1 \<Longrightarrow> m_execute c m1 = Some m' \<Longrightarrow> call_run m m'"

lemma call_objects: "links m' = links m \<Longrightarrow> tx_fields m' = tx_fields m \<Longrightarrow> call_run m m'"
  by (rule call_wired [OF wired_links])

abbreviation calls :: "mxGraph \<Rightarrow> mxGraph option \<Rightarrow> bool" where "calls \<equiv> leads call_run"

abbreviation calls_pair :: "mxGraph \<Rightarrow> ('a \<times> mxGraph) option \<Rightarrow> bool" where "calls_pair \<equiv> leads_pair call_run"

lemma calls_same: "calls g (Some g)" "calls_pair g (Some (x, g))"
  by (simp_all add: leads_def leads_pair_def call_objects)

lemma calls_update: "(\<And>g. run_to g (f g)) \<Longrightarrow> calls g (in_update_do f g)"
  by (fastforce simp: leads_def in_update_do_def intro: call_update [OF wired_refl])

lemma calls_bracket_at:
  "run_pair (g\<lparr>g_model := beginUpdate (g_model g)\<rparr>) r \<Longrightarrow>
   calls_pair g (map_option (\<lambda>(x, g). (h x, g\<lparr>g_model := endUpdate (g_model g)\<rparr>)) r)"
  by (fastforce simp: leads_pair_def intro: call_update [OF wired_refl])

lemma calls_bracket:
  "(\<And>g. run_pair g (f g)) \<Longrightarrow>
   calls_pair g (map_option (\<lambda>(x, g). (h x, g\<lparr>g_model := endUpdate (g_model g)\<rparr>))
     (f (g\<lparr>g_model := beginUpdate (g_model g)\<rparr>)))"
  by (fastforce simp: leads_pair_def intro: call_update [OF wired_refl])

lemma call_after_wired: "call_run m1 m' \<Longrightarrow> wired m m1 \<Longrightarrow> call_run m m'"
  by (erule call_run.cases) (blast intro: call_run.intros wired_trans)+

lemma calls_after_objects:
  "links (g_model g1) = links (g_model g) \<Longrightarrow> tx_fields (g_model g1) = tx_fields (g_model g) \<Longrightarrow>
   leads_pair call_run g1 r \<Longrightarrow> leads_pair call_run g r"
  using call_after_wired [OF _ wired_links] by (auto simp: leads_pair_def)

lemmas call_rules = calls_same calls_update leads_rules

lemma calls_set_geometry: "calls g (set_geometry c geo g)"
proof -
  have "wired (g_model g) (snd (alloc_geo geo (g_model g)))"
    by (rule wired_links [OF links_alloc_geo]) (simp add: alloc_geo_def tx_fields_def)
  then have "call_run (g_model g) m'"
    if "m_setGeometry c (Some r) (snd (alloc_geo geo (g_model g))) = Some m'" for r m'
    using that by (auto simp: m_setGeometry_def intro: call_run.intros split: if_splits)
  then show ?thesis by (auto simp: set_geometry_def with_model_def leads_def split_beta Let_def)
qed

lemma calls_restyle: "calls g (with_model (restyle_cells f cs) g)"
proof -
  have "call_run m m'" if r: "restyle_cells f cs m = Some m'" for m m'
  proof (cases "length cs > 0")
    case True
    with r obtain m1 where 1: "for_each (\<lambda>c m. if c \<noteq> None then m_setStyle c (f (m_getStyle c m)) m else Some m)
        cs (beginUpdate m) = Some m1" "m' = endUpdate m1" by (auto simp: restyle_cells_def)
    have "edit_run (beginUpdate m) m1"
      by (rule for_each_inv [OF 1(1), where P = "edit_run (beginUpdate m)"])
        (auto intro: run_refl run.kept_setters(3) split: if_splits)
    then show ?thesis using 1(2) by (simp add: call_update [OF wired_refl])
  qed (use r in \<open>auto simp: restyle_cells_def intro: call_objects\<close>)
  then show ?thesis by (auto simp: leads_def with_model_def)
qed

lemma calls_operations:
  "calls g (resizeCells xs bs r g)" "calls g (updateCellSize env c i g)" "calls g (setCellStyle st cs g)"
  "calls g (setCellStyles k v cs g)" "calls_pair g (toggleCellStyles k d cs g)"
  "calls g (setCellStyleFlags k fl b cs g)" "calls g (flipEdge c g)" "calls g (orderCells b' cs g)"
  "calls g (alignCells a cs p g)" "calls g (connectCell c t b' cn g)"
  "calls g (graph_addCells env xs c' i' t t' g)" "calls_pair g (graph_removeCells cs b g)"
  "calls_pair g (toggleCells b' cs b g)" "calls_pair g (foldCells env b' b cs b'' g)"
  "calls_pair g (removeCellsFromParent env cs g)" "calls g (labelChanged env lc lv g)"
proof -
  have "run_to g (with_model (m_setValue (Some c) v) g)" for c v g by (rule run_to_model) (rule run_model_calls)
  then show "calls g (labelChanged env lc lv g)"
    unfolding labelChanged_def cellLabelChanged_def Let_def by (intro call_rules run_rules leads_fire run_cellSizeUpdated)
  show styles: "calls g (setCellStyles k v cs g)" for k v cs g
    unfolding setCellStyles_def mx_setCellStyles_def by (rule calls_restyle)
  show "calls g (resizeCells xs bs r g)"
    unfolding resizeCells_def Let_def by (intro call_rules run_to_same leads_fire run_cellsResized)
  show "calls g (updateCellSize env c i g)"
    unfolding updateCellSize_def Let_def by (intro call_rules leads_fire run_cellSizeUpdated)
  show "calls g (setCellStyle st cs g)"
    unfolding setCellStyle_def by (intro calls_update run_rules run_set_style)
  show "calls_pair g (toggleCellStyles k d cs g)"
    unfolding toggleCellStyles_def Let_def by (intro call_rules styles)
  show "calls g (setCellStyleFlags k fl b cs g)"
    unfolding setCellStyleFlags_def mx_setCellStyleFlags_def Let_def by (intro call_rules calls_restyle)
  show "calls g (flipEdge c g)"
    unfolding flipEdge_def Let_def by (intro call_rules run_rules run_set_style run_resetEdge)
  show "calls g (orderCells b' cs g)"
    unfolding orderCells_def cellsOrdered_def Let_def by (intro call_rules run_rules run_add)
  show "calls g (alignCells a cs p g)"
    unfolding alignCells_def Let_def by (intro call_rules run_rules run_resizeCell)
  show "calls g (connectCell c t b' cn g)"
    unfolding connectCell_def Let_def by (intro call_rules run_cellConnected)
  show "calls g (graph_addCells env xs c' i' t t' g)"
    unfolding graph_addCells_def Let_def by (intro call_rules run_cellsAdded)
  show "calls_pair g (graph_removeCells cs b g)"
    unfolding graph_removeCells_def Let_def by (intro call_rules run_cellsRemoved)
  have "run_to g (with_model (setVisible c v) g)" for c v g by (rule run_to_model) (rule run_model_calls)
  then show "calls_pair g (toggleCells b' cs b g)"
    unfolding toggleCells_def cellsToggled_def by (intro call_rules run_rules)
  show "calls_pair g (foldCells env b' b cs b'' g)"
    unfolding foldCells_def cellsFolded_def Let_def by (intro call_rules run_cellsFolded_n)
  show "calls_pair g (removeCellsFromParent env cs g)"
    unfolding removeCellsFromParent_def Let_def by (intro call_rules run_cellsAdded)
qed


text \<open>Moving without copies, groups and their ends, and new cells.\<close>

lemma leads_model: "g_model g1 = g_model g \<Longrightarrow> leads R g1 r \<Longrightarrow> leads R g r"
  by (simp add: leads_def)

lemma model_setAllow [simp]: "g_model (setAllowNegativeCoordinates b g) = g_model g"
  by (simp add: setAllowNegativeCoordinates_def)

lemma run_place_moved: "run_to g (place_moved env cs dx dy clone target g)"
proof -
  let ?in = "\<lambda>g. if target \<noteq> None then setAllowNegativeCoordinates True g else g"
  have moved: "run_to g (cellsMoved env (Some cs) dx dy d k e (?in g))" for d k e g
    by (rule leads_model [OF _ run_cellsMoved]) simp
  have added: "run_to g (if target \<noteq> None
      then cellsAdded env (Some cs) target n None None (Some True) None None (setAllowNegativeCoordinates b g)
      else Some (setAllowNegativeCoordinates b g))" for n b g
    by (rule leads_model [of "setAllowNegativeCoordinates b g"], simp) (intro run_rules run_cellsAdded)
  show ?thesis unfolding place_moved_def Let_def by (intro run_to_bind leads_fire moved added)
qed

lemma wired_place_clone: "leads_pair wired g (place_clone res cs ai kp p g)"
proof -
  have geo: "wired (g_model g) (g_model (change_geometry r f g))" for r f
    by (rule wired_links) (simp_all add: change_geometry_def links_def tx_fields_def)
  show ?thesis
    by (cases p) (auto simp: place_clone_def Let_def leads_pair_def split: option.splits if_splits intro: geo)
qed

lemma wired_place_clones: "place_clones res cs ai kp ps g = Some (r, g') \<Longrightarrow> wired (g_model g) (g_model g')"
proof (induction ps arbitrary: g r)
  case (Cons p ps)
  then obtain c g1 r1 where 1: "place_clone res cs ai kp p g = Some (c, g1)" "place_clones res cs ai kp ps g1 = Some (r1, g')"
    by (auto simp: bind_eq_Some_conv)
  have "wired (g_model g) (g_model g1)" using wired_place_clone [of g res cs ai kp p] 1(1) by (simp add: leads_pair_def)
  then show ?case using Cons.IH [OF 1(2)] wired_trans by blast
qed simp

text \<open>Clones are wired among themselves; the mapping that a caller may give has cells that there are.\<close>

definition mapping_ok :: "clone_map option \<Rightarrow> mxGraph \<Rightarrow> bool" where
  "mapping_ok mapping g \<longleftrightarrow>
     (\<forall>mp c d. mapping = Some mp \<and> map_of mp c = Some d \<longrightarrow> d < ncells (g_model g))"

lemma wired_cloneCells:
  assumes "fresh_links (g_model g)" and "mapping_ok mapping g"
  shows "leads_pair wired g (graph_cloneCells res cs ai mapping kp g)"
proof -
  have clones: "wired (g_model g) m" if "cloneCells xs True mapping (g_model g) = Some (clones, mp, m)" for xs clones mp m
    by (rule cloneCells_wired [OF that assms(1)]) (use assms(2) in \<open>auto simp: mapping_ok_def\<close>)
  have "wired (g_model g) (g_model g')"
    if "cloneCells xs True mapping (g_model g) = Some (clones, mp, m)" "place_clones res ys ai kp ps (g\<lparr>g_model := m\<rparr>) = Some (r, g')"
    for xs ys clones mp m ai kp ps r g'
    using clones [OF that(1)] wired_trans [OF _ wired_place_clones [OF that(2)]] by simp
  then show ?thesis
    by (auto simp: graph_cloneCells_def leads_pair_def bind_eq_Some_conv split: option.splits if_splits)
qed

lemma leads_mono: "leads_pair R g r \<Longrightarrow> (\<And>m m'. R m m' \<Longrightarrow> S m m') \<Longrightarrow> leads_pair S g r"
  by (simp add: leads_pair_def)

lemma calls_cloneCells:
  "fresh_links (g_model g) \<Longrightarrow> mapping_ok mapping g \<Longrightarrow> calls_pair g (graph_cloneCells res cs ai mapping kp g)"
  by (rule leads_mono [OF wired_cloneCells call_wired])

lemma calls_moveCells:
  assumes "clone = Some True \<Longrightarrow> fresh_links (g_model g) \<and> mapping_ok mapping g"
  shows "calls_pair g (moveCells env res cs dx dy clone target mapping g)"
proof (cases "clone = Some True")
  case False
  show ?thesis
    unfolding moveCells_def Let_def if_not_P [OF False]
    by (intro call_rules calls_bracket run_rules run_place_moved)
next
  case True
  let ?g = "g\<lparr>g_model := beginUpdate (g_model g)\<rparr>"
  have "ncells (beginUpdate (g_model g)) = ncells (g_model g)"
    by (simp add: beginUpdate_def m_fire_def Let_def)
  then have "fresh_links (g_model ?g)" "mapping_ok mapping ?g"
    using assms [OF True] fresh_same [of "g_model g" "beginUpdate (g_model g)"] by (simp_all add: mapping_ok_def) blast?
  then have cloned: "run_pair ?g (graph_cloneCells res xs ai mapping None ?g)" for xs ai
    by (intro leads_mono [OF wired_cloneCells run_wired])
  show ?thesis
    unfolding moveCells_def Let_def
    by (intro call_rules calls_bracket_at leads_rules run_pair_bind_pair cloned run_place_moved)
qed

lemma calls_group_existing:
  "calls_pair g (groupCells env (Some grp) border cs g)"
  unfolding groupCells_def Let_def option.case prod.case
  by (intro call_rules run_rules run_set_geometry run_cellsAdded run_cellsMoved run_cellsResized)

text \<open>New cells, where the store keeps to its discipline: a cell that is not there yet has no links.\<close>

lemma new_cell_objects:
  assumes "fresh_links m"
  shows "links (snd (new_mxCell v geo st m)) = links m"
    and "tx_fields (snd (new_mxCell v geo st m)) = tx_fields m"
  using alloc_blank(1) [OF assms, of "blank_cell\<lparr>c_value := v, c_geometry := geo, c_style := st\<rparr>"]
  by (simp_all add: new_mxCell_def blank_cell_def alloc_cell_def tx_fields_def)

lemma cell_fields_objects [simp]:
  "links (cell_setVertex c b m) = links m" "tx_fields (cell_setVertex c b m) = tx_fields m"
  "links (cell_setEdge c b m) = links m" "tx_fields (cell_setEdge c b m) = tx_fields m"
  "links (cell_setConnectable c b m) = links m" "tx_fields (cell_setConnectable c b m) = tx_fields m"
  "links (cell_setId c i m) = links m" "tx_fields (cell_setId c i m) = tx_fields m"
  by (simp_all add: cell_setVertex_def cell_setEdge_def cell_setConnectable_def cell_setId_def links_upd)

lemma create_objects:
  assumes "fresh_links (g_model g)"
  shows "links (g_model (snd (createVertex i v x y w h st r g))) = links (g_model g)"
    "tx_fields (g_model (snd (createVertex i v x y w h st r g))) = tx_fields (g_model g)"
    "links (g_model (snd (createEdge i v st g))) = links (g_model g)"
    "tx_fields (g_model (snd (createEdge i v st g))) = tx_fields (g_model g)"
    "links (g_model (snd (createGroupCell g))) = links (g_model g)"
    "tx_fields (g_model (snd (createGroupCell g))) = tx_fields (g_model g)"
proof -
  have fresh: "fresh_links (snd (alloc_geo geo (g_model g)))" for geo
    using assms by (simp add: fresh_links_def)
  have tx: "tx_fields (snd (alloc_geo geo (g_model g))) = tx_fields (g_model g)" for geo
    by (simp add: alloc_geo_def tx_fields_def)
  note new_cell_objects [OF fresh] new_cell_objects [OF assms]
  then show "links (g_model (snd (createVertex i v x y w h st r g))) = links (g_model g)"
    "tx_fields (g_model (snd (createVertex i v x y w h st r g))) = tx_fields (g_model g)"
    "links (g_model (snd (createEdge i v st g))) = links (g_model g)"
    "tx_fields (g_model (snd (createEdge i v st g))) = tx_fields (g_model g)"
    "links (g_model (snd (createGroupCell g))) = links (g_model g)"
    "tx_fields (g_model (snd (createGroupCell g))) = tx_fields (g_model g)"
    by (simp_all add: createVertex_def createEdge_def createGroupCell_def Let_def split_beta tx)
qed

lemma calls_new_cells:
  assumes "fresh_links (g_model g)"
  shows "calls_pair g (insertVertex env p i v x y w h st r g)"
    and "calls_pair g (graph_insertEdge env p i v s t st g)"
    and "calls_pair g (groupCells env None border cs g)"
proof -
  show "calls_pair g (insertVertex env p i v x y w h st r g)"
    unfolding insertVertex_def Let_def split_beta graph_addCell_def
    by (rule calls_after_objects [OF create_objects(1,2) [OF assms, of i v x y w h st r]])
      (rule leads_pair_with, rule calls_operations)
  show "calls_pair g (graph_insertEdge env p i v s t st g)"
    unfolding graph_insertEdge_def Let_def split_beta addEdge_def graph_addCell_def
    by (rule calls_after_objects [OF create_objects(3,4) [OF assms, of i v st]])
      (rule leads_pair_with, rule calls_operations)
  show "calls_pair g (groupCells env None border cs g)"
    unfolding groupCells_def Let_def option.case split_beta
    by (rule leads_pair_value, rule calls_after_objects [OF create_objects(5,6) [OF assms]])
      (intro call_rules run_rules run_set_geometry run_cellsAdded run_cellsMoved run_cellsResized)
qed

lemma run_pair_fire: "run_to g r \<Longrightarrow> run_pair g (map_option (\<lambda>g. (x, g_fire ev g)) r)"
  by (auto simp: leads_def leads_pair_def g_fire_def)

lemma calls_ungroupCells: "calls_pair g (ungroupCells env cs g)"
proof -
  have one: "run_pair g (ungroup_one env c (r, g))" for c r g
    unfolding ungroup_one_def Let_def prod.case by (intro run_rules run_cellsAdded)
  have removed: "run_to g (removeCellsAfterUngroup xs g)" for xs g
    unfolding removeCellsAfterUngroup_def by (intro run_rules run_cellsRemoved)
  show ?thesis
    unfolding ungroupCells_def Let_def
    by (intro call_rules calls_bracket [where h = "\<lambda>x. x"] run_pair_bind_pair run_pair_for_each
        run_pair_fire one removed)
qed

subsection \<open>What runs and calls keep\<close>

locale kept_by_calls = kept_by_updates P for P :: "mxGraphModel \<Rightarrow> bool" +
  assumes kept_wired: "wired m m' \<Longrightarrow> P m \<Longrightarrow> P m'"
begin

lemma kept_run: "edit_run m m' \<Longrightarrow> P m \<Longrightarrow> P m'"
  by (induction rule: edit_run.induct) (blast intro: kept_execute kept_wired kept_begin kept_end)+

lemma kept_call: "call_run m m' \<Longrightarrow> P m \<Longrightarrow> P m'"
  by (elim call_run.cases) (metis kept_wired, metis kept_wired kept_begin kept_end kept_run, metis kept_wired kept_execute)

end

interpretation structure_calls: kept_by_calls struct_inv
  by unfold_locales (rule wired_struct)

interpretation log_calls: kept_by_calls log_inv
  by unfold_locales (use log_inv_tx wired_tx in blast)

lemma begin_in_update:
  assumes "in_update m"
  shows "in_update (beginUpdate m)" "updateLevel (beginUpdate m) = updateLevel m + 1"
    "currentEdit (beginUpdate m) = currentEdit m"
    "\<exists>evs. m_fired (beginUpdate m) = m_fired m @ evs \<and> filter is_undo_event evs = []"
  using assms by (auto simp: in_update_def beginUpdate_def m_fire_def Let_def)

lemma end_in_update:
  assumes "in_update n" and "updateLevel n \<ge> 2"
  shows "in_update (endUpdate n)" "updateLevel (endUpdate n) = updateLevel n - 1"
    "currentEdit (endUpdate n) = currentEdit n"
    "\<exists>evs. m_fired (endUpdate n) = m_fired n @ evs \<and> filter is_undo_event evs = []"
  using assms by (auto simp: in_update_def endUpdate_def m_fire_def Let_def)

text \<open>What a run adds within an update: changes to the edit, and events of which none announces one.\<close>

definition adds :: "mxGraphModel \<Rightarrow> mxGraphModel \<Rightarrow> bool" where
  "adds m n \<longleftrightarrow> in_update n \<and> updateLevel n = updateLevel m \<and>
     (\<exists>ds. currentEdit n = (currentEdit m)\<lparr>changes := changes (currentEdit m) @ ds\<rparr>) \<and>
     (\<exists>evs. m_fired n = m_fired m @ evs \<and> filter is_undo_event evs = [])"

lemma adds_refl: "in_update m \<Longrightarrow> adds m m"
  by (auto simp: adds_def intro: exI [of _ "[]"])

lemma adds_trans:
  assumes "adds m n" and "adds n k"
  shows "adds m k"
proof -
  from assms(1) obtain ds evs where 1: "updateLevel n = updateLevel m"
    "currentEdit n = (currentEdit m)\<lparr>changes := changes (currentEdit m) @ ds\<rparr>"
    "m_fired n = m_fired m @ evs" "filter is_undo_event evs = []" by (auto simp: adds_def)
  from assms(2) obtain ds' evs' where 2: "in_update k" "updateLevel k = updateLevel n"
    "currentEdit k = (currentEdit n)\<lparr>changes := changes (currentEdit n) @ ds'\<rparr>"
    "m_fired k = m_fired n @ evs'" "filter is_undo_event evs' = []" by (auto simp: adds_def)
  have "currentEdit k = (currentEdit m)\<lparr>changes := changes (currentEdit m) @ (ds @ ds')\<rparr>"
    using 1 2 by simp
  moreover have "m_fired k = m_fired m @ (evs @ evs')" "filter is_undo_event (evs @ evs') = []"
    using 1 2 by simp_all
  ultimately show ?thesis using 1(1) 2(1,2) unfolding adds_def by (metis (no_types))
qed

lemma adds_same_tx: "tx_fields n = tx_fields m \<Longrightarrow> in_update m \<Longrightarrow> adds m n"
  by (auto simp: adds_def tx_fields_def in_update_def intro!: exI [of _ "[]"])

lemma run_adds: "edit_run m n \<Longrightarrow> in_update m \<Longrightarrow> adds m n"
proof (induction rule: edit_run.induct)
  case (run_trans m m1 m2)
  then have "adds m m1" by blast
  then have "in_update m1" by (simp add: adds_def)
  with run_trans show ?case using adds_trans by blast
next
  case (run_execute c m m')
  then obtain d m1 where d: "exec_change c m = Some (d, m1)" by (auto simp: m_execute_def)
  with m_execute_in_update [OF run_execute.prems d] run_execute.hyps
  obtain "in_update m'" "currentEdit m' = edit_add d (currentEdit m)" "updateLevel m' = updateLevel m"
    "m_fired m' = m_fired m @ execute_events d (currentEdit m)" by (metis option.inject)
  then show ?case by (auto simp: adds_def edit_add_def execute_events_def)
next
  case (run_update m m')
  note b = begin_in_update [OF run_update.prems]
  have a: "adds (beginUpdate m) m'" using run_update.IH b(1) .
  have n: "in_update m'" "updateLevel m' = updateLevel m + 1" using a b(2) by (auto simp: adds_def)
  have "updateLevel m' \<ge> 2" using n(2) run_update.prems by (simp add: in_update_def)
  note e = end_in_update [OF n(1) this]
  obtain e1 e2 e3 where fired: "m_fired (beginUpdate m) = m_fired m @ e1"
    "m_fired m' = m_fired (beginUpdate m) @ e2" "m_fired (endUpdate m') = m_fired m' @ e3"
    "filter is_undo_event (e1 @ e2 @ e3) = []"
    using a b(4) e(4) by (auto simp: adds_def)
  then have "m_fired (endUpdate m') = m_fired m @ (e1 @ e2 @ e3)" by simp
  with fired(4) have "\<exists>evs. m_fired (endUpdate m') = m_fired m @ evs \<and> filter is_undo_event evs = []" by blast
  with a b e n show ?case by (simp add: adds_def)
qed (auto intro: adds_refl adds_same_tx wired_tx)

definition announces_one_edit :: "mxGraphModel \<Rightarrow> mxGraphModel \<Rightarrow> bool" where
  "announces_one_edit m n \<longleftrightarrow>
     (let us = filter is_undo_event (drop (length (m_fired m)) (m_fired n))
      in us = [] \<or> (\<exists>e. us = [EvUndo e] \<and> changes e \<noteq> [] \<and> significant e \<and> \<not> undone e \<and> \<not> redone e))"

lemma call_from_rest:
  assumes "call_run m n" and "at_rest m"
  shows "at_rest n \<and> announces_one_edit m n"
  using assms(1)
proof cases
  case call_wired
  with assms(2) wired_tx [OF call_wired] show ?thesis by (auto simp: at_rest_def tx_fields_def announces_one_edit_def)
next
  case (call_update m1 k)
  have rest: "at_rest m1" and fired: "m_fired m1 = m_fired m"
    using assms(2) wired_tx [OF call_update(2)] by (auto simp: at_rest_def tx_fields_def)
  note b = beginUpdate_rest [OF rest]
  from run_adds [OF call_update(3) b(1)] obtain ds evs where
    k: "in_update k" "updateLevel k = 1" "currentEdit k = (createUndoableEdit None)\<lparr>changes := ds\<rparr>"
    "m_fired k = m_fired (beginUpdate m1) @ evs" "filter is_undo_event evs = []"
    by (auto simp: adds_def b createUndoableEdit_def new_mxUndoableEdit_def)
  note e = endUpdate_rest [OF k(1,2,3)]
  have "significant (currentEdit k) \<and> \<not> undone (currentEdit k) \<and> \<not> redone (currentEdit k)"
    "changes (currentEdit k) = ds"
    by (simp_all add: k(3) createUndoableEdit_def new_mxUndoableEdit_def)
  then show ?thesis
    using k(5) e(1) by (auto simp: announces_one_edit_def call_update(1) e(3) k(4) b(4) fired)
next
  case (call_execute m1 c)
  have rest: "at_rest m1" and fired: "m_fired m1 = m_fired m"
    using assms(2) wired_tx [OF call_execute(1)] by (auto simp: at_rest_def tx_fields_def)
  obtain d m2 where d: "exec_change c m1 = Some (d, m2)"
    using call_execute(2) by (auto simp: m_execute_def)
  have rest2: "at_rest m2" and fired2: "m_fired m2 = m_fired m"
    using rest fired tx_exec_change [OF d] by (auto simp: at_rest_def tx_fields_def)
  note b = beginUpdate_rest [OF rest2]
  let ?k = "m_fire (EvExecuted d) (m_fire (EvExecute d) ((beginUpdate m2)\<lparr>currentEdit := edit_add d (createUndoableEdit None)\<rparr>))"
  have n: "n = endUpdate ?k" using call_execute(2) d by (simp add: m_execute_def Let_def b(3))
  have k: "in_update ?k" "updateLevel ?k = 1" "currentEdit ?k = (createUndoableEdit None)\<lparr>changes := [d]\<rparr>"
    "m_fired ?k = m_fired m @ [EvBeginUpdate, EvStartEdit, EvExecute d, EvExecuted d]"
    using b(1,2,4) fired2
    by (simp_all add: in_update_def m_fire_def edit_add_def createUndoableEdit_def new_mxUndoableEdit_def)
  note e = endUpdate_rest [OF k(1-3)]
  have "significant (currentEdit ?k) \<and> \<not> undone (currentEdit ?k) \<and> \<not> redone (currentEdit ?k)"
    unfolding k(3) by (simp add: createUndoableEdit_def new_mxUndoableEdit_def)
  then show ?thesis using e(1) k(3) by (auto simp: announces_one_edit_def n e(3) k(4))
qed

subsection \<open>The graph as a transition system\<close>

text \<open>The editing calls of the graph.  For those that create cells, the store has no links yet for
  the cells that are not there.\<close>

inductive graph_call :: "mxGraph \<Rightarrow> mxGraph \<Rightarrow> bool" where
  call_resize: "resizeCells xs bs rc g = Some g' \<Longrightarrow> graph_call g g'"
| call_size: "updateCellSize env c i g = Some g' \<Longrightarrow> graph_call g g'"
| call_move: "moveCells env res cs dx dy clone target mapping g = Some (r, g') \<Longrightarrow>
    (clone = Some True \<Longrightarrow> fresh_links (g_model g) \<and> mapping_ok mapping g) \<Longrightarrow> graph_call g g'"
| call_clone: "graph_cloneCells res cs allowInvalid mapping keep g = Some (r, g') \<Longrightarrow>
    fresh_links (g_model g) \<Longrightarrow> mapping_ok mapping g \<Longrightarrow> graph_call g g'"
| call_style: "setCellStyle st ys g = Some g' \<Longrightarrow> graph_call g g'"
| call_styles: "setCellStyles k v ys g = Some g' \<Longrightarrow> graph_call g g'"
| call_toggle_style: "toggleCellStyles k d ys g = Some (t, g') \<Longrightarrow> graph_call g g'"
| call_style_flags: "setCellStyleFlags k fl b ys g = Some g' \<Longrightarrow> graph_call g g'"
| call_flip: "flipEdge c g = Some g' \<Longrightarrow> graph_call g g'"
| call_order: "orderCells to_back ys g = Some g' \<Longrightarrow> graph_call g g'"
| call_align: "alignCells al ys p g = Some g' \<Longrightarrow> graph_call g g'"
| call_connect: "connectCell e t src cn g = Some g' \<Longrightarrow> graph_call g g'"
| call_add: "graph_addCells env xs p ix s t g = Some g' \<Longrightarrow> graph_call g g'"
| call_vertex: "insertVertex env p i v x y w h st rl g = Some (c', g') \<Longrightarrow> fresh_links (g_model g) \<Longrightarrow> graph_call g g'"
| call_edge: "graph_insertEdge env p i v s t st g = Some (c', g') \<Longrightarrow> fresh_links (g_model g) \<Longrightarrow> graph_call g g'"
| call_remove: "graph_removeCells ys b g = Some (zs, g') \<Longrightarrow> graph_call g g'"
| call_toggle: "toggleCells vis ys b g = Some (zs, g') \<Longrightarrow> graph_call g g'"
| call_fold: "foldCells env cl b ys ck g = Some (zs, g') \<Longrightarrow> graph_call g g'"
| call_group: "groupCells env grp bd ys g = Some (c', g') \<Longrightarrow> fresh_links (g_model g) \<Longrightarrow> graph_call g g'"
| call_ungroup: "ungroupCells env ys g = Some (zs, g') \<Longrightarrow> graph_call g g'"
| call_unparent: "removeCellsFromParent env ys g = Some (zs, g') \<Longrightarrow> graph_call g g'"
| call_label: "labelChanged env lc lv g = Some g' \<Longrightarrow> graph_call g g'"

lemma graph_call_run: "graph_call g g' \<Longrightarrow> call_run (g_model g) (g_model g')"
proof (induction rule: graph_call.induct)
  case (call_group env grp bd ys g c' g')
  then show ?case
    using calls_new_cells(3) [OF call_group(2), of env bd ys] calls_group_existing [of g env "the grp" bd ys]
    by (cases grp) (auto simp: leads_pair_def)
next
  case (call_move env res cs dx dy clone target mapping g r g')
  then show ?case using calls_moveCells [OF call_move(2), where env = env and res = res and cs = cs and dx = dx and dy = dy and target = target] by (auto simp: leads_pair_def)
next
  case (call_clone res cs allowInvalid mapping keep g r g')
  then show ?case using calls_cloneCells [OF call_clone(2,3)] by (auto simp: leads_pair_def)
qed (use calls_operations calls_new_cells calls_ungroupCells in
    \<open>simp add: leads_def leads_pair_def; blast\<close>)+

subsection \<open>Properties\<close>

text \<open>C3: Whatever editing calls a client makes on the graph (resizing, moving, styling, ordering,
  connecting, adding, inserting, cloning, removing, folding, grouping and ungrouping), children arrays and parent
  references stay in agreement, no child and no edge is listed twice, and a cell lists only edges that
  end there.\<close>

theorem graph_calls_keep_structure:
  assumes "graph_call\<^sup>*\<^sup>* g g'" and "struct_inv (g_model g)"
  shows "(\<forall>p. distinct (children_of (g_model g') p)) \<and>
    (\<forall>p c. c \<in> set (children_of (g_model g') p) \<longleftrightarrow> cell_getParent c (g_model g') = Some p) \<and>
    (\<forall>t. distinct (edges_of (g_model g') t)) \<and>
    (\<forall>t e. e \<in> set (edges_of (g_model g') t) \<longrightarrow>
       cell_getTerminal e True (g_model g') = Some t \<or> cell_getTerminal e False (g_model g') = Some t)"
proof -
  have "struct_inv (g_model g')"
    using assms by (induction rule: rtranclp_induct) (blast intro: structure_calls.kept_call graph_call_run)+
  then have "tree_inv (g_model g')" "edge_inv (g_model g')" by (simp_all add: struct_inv_def)
  then show ?thesis
    using tree_invD [of "g_model g'"] edge_invD(1) [of "g_model g'"] edge_invD(2) [of "g_model g'" _ _ True]
    by (auto simp: cell_getParent_def)
qed

lemma sample_styled:
  obtains g where "setCellStyle (Some ''s'') (Some [Some 3]) (new_mxGraph sample None) = Some g"
    "graph_call (new_mxGraph sample None) g"
proof -
  have "setCellStyle (Some ''s'') (Some [Some 3]) (new_mxGraph sample None) \<noteq> None"
    by (simp add: setCellStyle_def given_cells_def in_update_do_def with_model_def m_setStyle_def
        new_mxStyleChange_def m_execute_def split_beta)
  then show thesis using that call_style by blast
qed

theorem graph_calls_keep_structure_witness:
  "\<exists>g. setCellStyle (Some ''s'') (Some [Some 3]) (new_mxGraph sample None) = Some g \<and>
     distinct (children_of (g_model g) 1)"
proof -
  obtain g where g: "setCellStyle (Some ''s'') (Some [Some 3]) (new_mxGraph sample None) = Some g"
    "graph_call\<^sup>*\<^sup>* (new_mxGraph sample None) g" using sample_styled by blast
  have "struct_inv (g_model (new_mxGraph sample None))"
    using sample_tree sample_edge_inv by (simp add: struct_inv_def)
  with graph_calls_keep_structure [OF g(2)] g(1) show ?thesis by blast
qed

text \<open>C4: Each editing call of the graph, however many changes and nested updates it makes, leaves a model
  at rest at rest and announces at most one edit to the undo manager, which is not empty, significant and
  neither undone nor redone.\<close>

theorem graph_call_is_one_edit:
  assumes "graph_call g g'" and "at_rest (g_model g)"
  shows "at_rest (g_model g') \<and>
    (let us = filter is_undo_event (drop (length (m_fired (g_model g))) (m_fired (g_model g')))
     in us = [] \<or> (\<exists>e. us = [EvUndo e] \<and> changes e \<noteq> [] \<and> significant e \<and> \<not> undone e \<and> \<not> redone e))"
  using call_from_rest [OF graph_call_run [OF assms(1)] assms(2)] by (simp add: announces_one_edit_def)

theorem graph_call_is_one_edit_witness:
  "\<exists>g. setCellStyle (Some ''s'') (Some [Some 3]) (new_mxGraph sample None) = Some g \<and> at_rest (g_model g)"
proof -
  obtain g where g: "setCellStyle (Some ''s'') (Some [Some 3]) (new_mxGraph sample None) = Some g"
    "graph_call (new_mxGraph sample None) g" using sample_styled by blast
  have "at_rest (g_model (new_mxGraph sample None))" by (simp add: at_rest_def sample_def empty_model_def)
  with graph_call_is_one_edit [OF g(2)] g(1) show ?thesis by blast
qed

end
