(* ===== verification/View.thy ===== *)
theory View
  imports GraphMove GraphSelection
begin

text \<open>
  The view of a graph, view/mxGraphView.js and view/mxCellState.js: which cells have a state, and
  where a state stands.  \<open>validate\<close> first creates and removes states (\<open>view_validateCell\<close>) and then
  computes those that are marked invalid (\<open>validateCellState\<close>): origins, bounds, labels, and the points of edges.

  A state is a value under its cell, or an object that has been taken from the view and that the code
  at work still holds; such a state is passed along.  The record \<open>painter\<close> holds what is not
  computed here: the functions that style sheets name for the routes and perimeters, square roots,
  sines and cosines, and the boxes of what has been painted.  \<open>None\<close> is a TypeError, or a coordinate
  that is not a number.  States are taken to have no stencil.
\<close>

subsection \<open>States\<close>

record painter =
  p_registry :: registry
  p_route :: "string \<Rightarrow> mxCellState \<Rightarrow> mxCellState option \<Rightarrow> mxCellState option \<Rightarrow>
    mxPoint option list option \<Rightarrow> mxPoint list"
  p_perimeter :: "string \<Rightarrow> mxRectangle \<Rightarrow> mxCellState \<Rightarrow> mxPoint \<Rightarrow> bool \<Rightarrow> mxPoint option"
  p_trig :: "jsnum \<Rightarrow> jsnum \<times> jsnum"
  p_sqrt :: "jsnum \<Rightarrow> jsnum"
  p_shape_box :: "cref \<Rightarrow> mxCellState \<Rightarrow> mxRectangle option"
  p_text_box :: "cref \<Rightarrow> mxCellState \<Rightarrow> mxRectangle option"

definition new_mxCellState :: "style_obj option \<Rightarrow> mxCellState" where
  "new_mxCellState style =
     \<lparr>cs_bounds = new_mxRectangle None None None None, cs_style = style, cs_invalid = True,
      cs_origin = new_mxPoint None None, absoluteOffset = new_mxPoint None None, absolutePoints = None,
      visibleSource = None, visibleTarget = None, terminalDistance = 0, cs_length = 0,
      cs_segments = None, unscaledWidth = None, cellBounds = None, paintBounds = None\<rparr>"

definition cs_setAbsoluteTerminalPoint :: "mxPoint option \<Rightarrow> bool \<Rightarrow> mxCellState \<Rightarrow> mxCellState" where
  "cs_setAbsoluteTerminalPoint point isSource st =
     (if isSource then
        (case entries (absolutePoints st) of
           [] \<Rightarrow> st\<lparr>absolutePoints := Some [point]\<rparr>
         | p # ps \<Rightarrow> st\<lparr>absolutePoints := Some (point # ps)\<rparr>)
      else
        (case absolutePoints st of
           None \<Rightarrow> st\<lparr>absolutePoints := Some [None, point]\<rparr>
         | Some ps \<Rightarrow>
             if length ps = 1 then st\<lparr>absolutePoints := Some (ps @ [point])\<rparr>
             else st\<lparr>absolutePoints := Some (ps[length ps - 1 := point])\<rparr>))"

definition cs_setVisibleTerminal :: "cref option \<Rightarrow> bool \<Rightarrow> mxCellState \<Rightarrow> mxCellState" where
  "cs_setVisibleTerminal t source st =
     (if source then st\<lparr>visibleSource := t\<rparr> else st\<lparr>visibleTarget := t\<rparr>)"

definition updateCachedBounds :: "mxGraphView \<Rightarrow> mxCellState \<Rightarrow> mxCellState option" where
  "updateCachedBounds v st =
     (let tr = translate v; s = scale v; b = cs_bounds st in
      Option.bind (js_div (px b) s) (\<lambda>x. Option.bind (js_div (py b) s) (\<lambda>y.
      Option.bind (js_div (width b) s) (\<lambda>w. map_option (\<lambda>h.
        let cb = new_mxRectangle (Some (x - px tr)) (Some (y - py tr)) (Some w) (Some h)
        in st\<lparr>cellBounds := Some cb, paintBounds := Some (fromRectangle cb)\<rparr>) (js_div (height b) s)))))"

definition set_state :: "cref \<Rightarrow> mxCellState option \<Rightarrow> mxGraph \<Rightarrow> mxGraph" where
  "set_state c st g = g\<lparr>g_view := (g_view g)\<lparr>states := (states (g_view g))(c := st)\<rparr>\<rparr>"

text \<open>\<open>getState(cell, create)\<close>; \<open>updateStyle\<close> is off.\<close>

definition createState :: "cref \<Rightarrow> mxGraph \<Rightarrow> mxCellState option" where
  "createState c g = map_option (\<lambda>style. new_mxCellState (Some style)) (graph_getCellStyle (Some c) g)"

definition getState_create :: "cref \<Rightarrow> bool \<Rightarrow> mxGraph \<Rightarrow> mxGraph option" where
  "getState_create c create g =
     (if create \<and> states (g_view g) c = None \<and> isCellVisible (Some c) g
      then map_option (\<lambda>st. set_state c (Some st) g) (createState c g) else Some g)"

definition removeState :: "cref option \<Rightarrow> mxGraph \<Rightarrow> mxGraph" where
  "removeState cell g = (case cell of None \<Rightarrow> g | Some c \<Rightarrow> set_state c None g)"

definition getCellStates :: "cref option list \<Rightarrow> mxGraph \<Rightarrow> mxCellState list" where
  "getCellStates cs g = concat (map (\<lambda>c. case getState c g of None \<Rightarrow> [] | Some st \<Rightarrow> [st]) cs)"

text \<open>\<open>cell || model.getRoot()\<close>.\<close>

definition or_root :: "cref option \<Rightarrow> mxGraph \<Rightarrow> cref option" where
  "or_root cell g = (if cell \<noteq> None then cell else m_root (g_model g))"

subsection \<open>Invalidation\<close>

definition mark_invalid :: "cref \<Rightarrow> mxGraph \<Rightarrow> mxGraph" where
  "mark_invalid c g =
     (case states (g_view g) c of None \<Rightarrow> g | Some st \<Rightarrow> set_state c (Some (st\<lparr>cs_invalid := True\<rparr>)) g)"

text \<open>\<open>busy\<close> are the cells that carry the mark \<open>invalidating\<close>, which a cell has while its call lasts.\<close>

fun invalidate_n :: "nat \<Rightarrow> cref list \<Rightarrow> cref option \<Rightarrow> bool \<Rightarrow> bool \<Rightarrow> mxGraph \<Rightarrow> mxGraph option" where
  "invalidate_n n busy None recurse includeEdges g = None"
| "invalidate_n n busy (Some c) recurse includeEdges g =
     (let g = mark_invalid c g; m = g_model g in
      if c \<in> set busy then Some g
      else case n of
        0 \<Rightarrow> None
      | Suc k \<Rightarrow>
          Option.bind
            (if recurse
             then for_each (\<lambda>d. invalidate_n k (c # busy) (Some d) recurse includeEdges) (children_of m c) g
             else Some g) (\<lambda>g.
          if includeEdges
          then for_each (\<lambda>e. invalidate_n k (c # busy) (Some e) recurse includeEdges) (edges_of m c) g
          else Some g))"

declare invalidate_n.simps(2) [simp del]

definition invalidate :: "cref option \<Rightarrow> bool option \<Rightarrow> bool option \<Rightarrow> mxGraph \<Rightarrow> mxGraph option" where
  "invalidate cell recurse includeEdges g =
     invalidate_n (Suc (walk_fuel (g_model g))) [] (or_root cell g)
       (recurse \<noteq> Some False) (includeEdges \<noteq> Some False) g"

fun clear_n :: "nat \<Rightarrow> cref option \<Rightarrow> bool \<Rightarrow> bool \<Rightarrow> mxGraph \<Rightarrow> mxGraph option" where
  "clear_n n cell force recurse g =
     (let g = removeState cell g in
      if recurse \<and> (force \<or> cell \<noteq> currentRoot (g_view g)) then
        (case cell of
           None \<Rightarrow> Some g
         | Some c \<Rightarrow>
             (case n of
                0 \<Rightarrow> None
              | Suc k \<Rightarrow> for_each (\<lambda>d. clear_n k (Some d) force True) (children_of (g_model g) c) g))
      else invalidate cell None None g)"

declare clear_n.simps [simp del]

definition view_clear :: "cref option \<Rightarrow> bool option \<Rightarrow> bool option \<Rightarrow> mxGraph \<Rightarrow> mxGraph option" where
  "view_clear cell force recurse g =
     clear_n (walk_fuel (g_model g)) (or_root cell g) (force = Some True) (recurse \<noteq> Some False) g"

subsection \<open>The states that there are\<close>

fun validateCell_n :: "nat \<Rightarrow> cref option \<Rightarrow> bool \<Rightarrow> mxGraph \<Rightarrow> mxGraph option" where
  "validateCell_n n None visible g = Some g"
| "validateCell_n 0 (Some c) visible g = None"
| "validateCell_n (Suc n) (Some c) visible g =
     (let visible = visible \<and> isCellVisible (Some c) g in
      Option.bind (getState_create c visible g) (\<lambda>g.
        if states (g_view g) c \<noteq> None \<and> \<not> visible then Some (removeState (Some c) g)
        else for_each
          (\<lambda>d. validateCell_n n (Some d)
             (visible \<and> (\<not> isCellCollapsed (Some c) g \<or> Some c = currentRoot (g_view g))))
          (children_of (g_model g) c) g))"

definition view_validateCell :: "cref option \<Rightarrow> bool option \<Rightarrow> mxGraph \<Rightarrow> mxGraph option" where
  "view_validateCell cell visible g = validateCell_n (walk_fuel (g_model g)) cell (visible \<noteq> Some False) g"

end
