(* ===== verification/ViewPoints.thy ===== *)
theory ViewPoints
  imports View
begin

text \<open>
  Points, view/mxGraphView.js: points along an edge, offsets of labels, and the points of an edge at
  its ends (fixed by its style or floating on a perimeter) and between them.
\<close>

subsection \<open>Reading styles\<close>

text \<open>\<open>parseFloat(style[key] || 0)\<close>.\<close>

fun parse_float_value :: "style_value \<Rightarrow> jsnum option" where
  "parse_float_value (SNum q) = Some q"
| "parse_float_value (SStr s) = js_parseFloat s"
| "parse_float_value (SFun f) = None"
| "parse_float_value (SBool b) = None"

definition style_float :: "style_obj \<Rightarrow> string \<Rightarrow> jsnum option" where
  "style_float style key =
     (case map_of style key of
        None \<Rightarrow> Some 0
      | Some v \<Rightarrow> if truthy v then parse_float_value v else Some 0)"

text \<open>\<open>style['rotation'] || '0'\<close>, as a number.\<close>

definition style_rotation :: "style_obj \<Rightarrow> jsnum option" where
  "style_rotation style =
     (case map_of style ''rotation'' of
        None \<Rightarrow> Some 0
      | Some v \<Rightarrow> if truthy v then style_value_number v else Some 0)"

definition equals_one :: "style_obj \<Rightarrow> string \<Rightarrow> bool" where
  "equals_one style key =
     (case map_of style key of None \<Rightarrow> False | Some v \<Rightarrow> style_value_number v = Some 1)"

text \<open>A style value that is the name of a function, or a function.\<close>

definition function_named :: "registry \<Rightarrow> style_value option \<Rightarrow> string option" where
  "function_named reg v =
     (case v of Some (SStr s) \<Rightarrow> reg_getValue reg s | Some (SFun f) \<Rightarrow> Some f | _ \<Rightarrow> None)"

subsection \<open>Points of a state\<close>

definition cs_center :: "mxCellState \<Rightarrow> mxPoint" where
  "cs_center st = new_mxPoint (Some (getCenterX (cs_bounds st))) (Some (getCenterY (cs_bounds st)))"

text \<open>The loop of \<open>getPoint\<close> over the segments: the segment on which the distance lies, the length before
  it, and its number, from 1.  Without segments the segment is \<open>undefined\<close>.\<close>

fun segment_loop :: "jsnum \<Rightarrow> nat \<Rightarrow> jsnum \<Rightarrow> nat \<Rightarrow> jsnum list \<Rightarrow> jsnum \<times> jsnum option \<times> nat" where
  "segment_loop reach pointCount len index [] = (len, None, index)"
| "segment_loop reach pointCount len index (segment # rest) =
     (if reach \<ge> js_round (len + segment) \<and> Suc index < pointCount
      then segment_loop reach pointCount (len + segment) (Suc index) rest
      else (len, Some segment, index))"

definition view_getPoint :: "mxCellState \<Rightarrow> mxGeometry option \<Rightarrow> mxGraphView \<Rightarrow> mxPoint option" where
  "view_getPoint state geometry v =
     (let x = getCenterX (cs_bounds state); y = getCenterY (cs_bounds state) in
      case cs_segments state of
        Some segs \<Rightarrow>
          if (case geometry of None \<Rightarrow> True | Some geo \<Rightarrow> g_relative geo) then
            (let gx = (case geometry of None \<Rightarrow> 0 | Some geo \<Rightarrow> px geo / 2);
                 pts = entries (absolutePoints state);
                 reach = js_round ((gx + 1 / 2) * cs_length state);
                 (len, seg, index) = segment_loop reach (length pts) 0 1 segs
             in case (Option.bind (js_at pts (int index - 1)) (\<lambda>p. p), Option.bind (js_at pts (int index)) (\<lambda>p. p)) of
                  (Some p0, Some pe) \<Rightarrow>
                    map_option (\<lambda>segment.
                      let factor = (if segment = 0 then 0 else (reach - len) / segment);
                          gy = (case geometry of None \<Rightarrow> 0 | Some geo \<Rightarrow> py geo);
                          offset = (case geometry of None \<Rightarrow> None | Some geo \<Rightarrow> g_offset geo);
                          ox = (case offset of None \<Rightarrow> 0 | Some p \<Rightarrow> px p);
                          oy = (case offset of None \<Rightarrow> 0 | Some p \<Rightarrow> py p);
                          dx = px pe - px p0; dy = py pe - py p0;
                          nx = (if segment = 0 then 0 else dy / segment);
                          ny = (if segment = 0 then 0 else dx / segment)
                      in new_mxPoint (Some (px p0 + dx * factor + (nx * gy + ox) * scale v))
                           (Some (py p0 + dy * factor - (ny * gy - oy) * scale v))) seg
                | _ \<Rightarrow> Some (new_mxPoint (Some x) (Some y)))
          else
            (case Option.bind geometry g_offset of
               None \<Rightarrow> Some (new_mxPoint (Some x) (Some y))
             | Some p \<Rightarrow> Some (new_mxPoint (Some (x + px p)) (Some (y + py p))))
      | None \<Rightarrow>
          (case Option.bind geometry g_offset of
             None \<Rightarrow> Some (new_mxPoint (Some x) (Some y))
           | Some p \<Rightarrow> Some (new_mxPoint (Some (x + px p)) (Some (y + py p)))))"

subsection \<open>Labels\<close>

text \<open>\<open>updateVertexLabelOffset\<close>; the width of the label may be given as text, and \<open>*\<close> reads it as a number.\<close>

definition label_width :: "mxCellState \<Rightarrow> jsnum option option" where
  "label_width state =
     (case getValue (cs_style state) ''labelWidth'' None of
        None \<Rightarrow> Some None
      | Some v \<Rightarrow> map_option Some (style_value_number v))"

definition label_dx :: "jsnum \<Rightarrow> mxCellState \<Rightarrow> jsnum option" where
  "label_dx s state =
     (let h = the (getValue (cs_style state) ''labelPosition'' (Some (SStr ''center'')));
          w = width (cs_bounds state)
      in if h = SStr ''left'' then
           map_option (\<lambda>lw. - (case lw of Some l \<Rightarrow> l * s | None \<Rightarrow> w)) (label_width state)
         else if h = SStr ''right'' then Some w
         else if h = SStr ''center'' then
           map_option (\<lambda>lw. case lw of
               None \<Rightarrow> 0
             | Some l \<Rightarrow>
                 (let align = the (getValue (cs_style state) ''align'' (Some (SStr ''center'')));
                      dx = (if align = SStr ''center'' then 1 / 2 else if align = SStr ''right'' then 1 else 0)
                  in - ((l * s - w) * dx))) (label_width state)
         else Some 0)"

definition label_dy :: "mxCellState \<Rightarrow> jsnum" where
  "label_dy state =
     (let v = the (getValue (cs_style state) ''verticalLabelPosition'' (Some (SStr ''middle'')))
      in if v = SStr ''top'' then - height (cs_bounds state)
         else if v = SStr ''bottom'' then height (cs_bounds state) else 0)"

definition updateVertexLabelOffset :: "mxGraphView \<Rightarrow> mxCellState \<Rightarrow> mxCellState option" where
  "updateVertexLabelOffset v state =
     map_option (\<lambda>dx. state\<lparr>absoluteOffset := point_move dx (label_dy state) (absoluteOffset state)\<rparr>)
       (label_dx (scale v) state)"

text \<open>\<open>getPoint\<close> on an edge gives the place of its label, unless its geometry is absolute.\<close>

definition updateEdgeLabelOffset :: "cref \<Rightarrow> mxCellState \<Rightarrow> mxGraph \<Rightarrow> mxCellState option" where
  "updateEdgeLabelOffset c state g =
     (let state = state\<lparr>absoluteOffset := cs_center state\<rparr>; pts = entries (absolutePoints state) in
      if length pts > 0 \<and> cs_segments state \<noteq> None then
        (case getCellGeometry (Some c) g of
           None \<Rightarrow> None
         | Some geo \<Rightarrow>
             if g_relative geo
             then map_option (\<lambda>p. state\<lparr>absoluteOffset := p\<rparr>) (view_getPoint state (Some geo) (g_view g))
             else Some (case (hd pts, List.last pts) of
                 (Some p0, Some pe) \<Rightarrow>
                   (let off = (case g_offset geo of None \<Rightarrow> new_mxPoint None None | Some p \<Rightarrow> p);
                        s = scale (g_view g)
                    in state\<lparr>absoluteOffset := new_mxPoint
                         (Some (px p0 + (px pe - px p0) / 2 + px off * s))
                         (Some (py p0 + (py pe - py p0) / 2 + py off * s))\<rparr>)
               | _ \<Rightarrow> state))
      else Some state)"

subsection \<open>The ends of an edge\<close>

text \<open>A state, together with its cell.\<close>

type_synonym shown = "cref \<times> mxCellState"

definition shown_state :: "cref option \<Rightarrow> mxGraph \<Rightarrow> shown option" where
  "shown_state cell g = (case cell of None \<Rightarrow> None | Some c \<Rightarrow> map_option (Pair c) (states (g_view g) c))"

definition getTerminalPort :: "mxCellState \<Rightarrow> shown option \<Rightarrow> bool \<Rightarrow> mxGraph \<Rightarrow> shown option" where
  "getTerminalPort state terminal source g =
     (case getValue (cs_style state) (if source then ''sourcePort'' else ''targetPort'') None of
        None \<Rightarrow> terminal
      | Some i \<Rightarrow>
          (case shown_state (getCell (Some (style_value_string i)) (g_model g)) g of
             None \<Rightarrow> terminal
           | Some p \<Rightarrow> Some p))"

definition getPerimeterFunction :: "painter \<Rightarrow> mxCellState \<Rightarrow> string option option" where
  "getPerimeterFunction env state =
     map_option (\<lambda>style. function_named (p_registry env) (map_of style ''perimeter'')) (cs_style state)"

text \<open>\<open>terminal.getPerimeterBounds(border * this.scale)\<close> for a state without a stencil.\<close>

definition cs_getPerimeterBounds :: "jsnum \<Rightarrow> mxCellState \<Rightarrow> mxRectangle" where
  "cs_getPerimeterBounds border st =
     (let bounds = fromRectangle (cs_bounds st) in if border \<noteq> 0 then rect_grow border bounds else bounds)"

definition view_getPerimeterBounds :: "mxCellState \<Rightarrow> jsnum \<Rightarrow> mxGraphView \<Rightarrow> mxRectangle option" where
  "view_getPerimeterBounds terminal border v =
     Option.bind (cs_style terminal) (\<lambda>style.
     map_option (\<lambda>spacing. cs_getPerimeterBounds ((border + spacing) * scale v) terminal)
       (style_float style ''perimeterSpacing''))"

definition mirror :: "bool \<Rightarrow> bool \<Rightarrow> mxRectangle \<Rightarrow> mxPoint \<Rightarrow> mxPoint" where
  "mirror flipH flipV bounds p =
     new_mxPoint (Some (if flipH then 2 * getCenterX bounds - px p else px p))
       (Some (if flipV then 2 * getCenterY bounds - py p else py p))"

definition getPerimeterPoint ::
  "painter \<Rightarrow> shown \<Rightarrow> mxPoint option \<Rightarrow> bool \<Rightarrow> jsnum \<Rightarrow> mxGraph \<Rightarrow> mxPoint option"
where
  "getPerimeterPoint env terminal nxt orthogonal border g =
     (let (c, st) = terminal in
      Option.bind (getPerimeterFunction env st) (\<lambda>perimeter.
        case (perimeter, nxt) of
          (Some f, Some p) \<Rightarrow>
            Option.bind (view_getPerimeterBounds st border (g_view g)) (\<lambda>bounds.
              let flip = (\<lambda>key. isVertex (Some c) (g_model g) \<and> equals_one (the (cs_style st)) key);
                  flipH = flip ''flipH''; flipV = flip ''flipV''
              in case (if width bounds > 0 \<or> height bounds > 0
                       then p_perimeter env f bounds st (mirror flipH flipV bounds p) orthogonal else None) of
                   Some q \<Rightarrow> Some (mirror flipH flipV bounds q)
                 | None \<Rightarrow> view_getPoint st None (g_view g))
        | _ \<Rightarrow> view_getPoint st None (g_view g)))"

text \<open>\<open>getConnectionConstraint\<close> reads the point at which an edge is fixed from its style; \<open>None\<close> is a
  coordinate that is not a number.\<close>

definition getConnectionConstraint :: "mxCellState \<Rightarrow> bool \<Rightarrow> mxConnectionConstraint option" where
  "getConnectionConstraint edge source =
     Option.bind (cs_style edge) (\<lambda>style.
       case (map_of style (if source then ''exitX'' else ''entryX''),
             map_of style (if source then ''exitY'' else ''entryY'')) of
         (Some x, Some y) \<Rightarrow>
           Option.bind (parse_float_value x) (\<lambda>x. map_option (\<lambda>y.
             new_mxConnectionConstraint (Some (new_mxPoint (Some x) (Some y)))
               (Some (truthy (the (getValue (Some style) (if source then ''exitPerimeter'' else ''entryPerimeter'')
                  (Some (SBool True))))))) (parse_float_value y))
       | _ \<Rightarrow> Some (new_mxConnectionConstraint None (Some False)))"

text \<open>\<open>r2 += r1\<close>: \<open>+\<close> joins texts.\<close>

fun plus_angle :: "style_value \<Rightarrow> jsnum \<Rightarrow> jsnum option" where
  "plus_angle (SStr s) r = js_Number (s @ js_num_string r)"
| "plus_angle (SFun f) r = None"
| "plus_angle v r = map_option (\<lambda>q. q + r) (style_value_number v)"

definition direction_angle :: "style_obj \<Rightarrow> jsnum" where
  "direction_angle style =
     (if getValue (Some style) ''anchorPointDirection'' (Some (SNum 1)) \<noteq> None \<and>
         style_value_number (the (getValue (Some style) ''anchorPointDirection'' (Some (SNum 1)))) = Some 1
      then (case map_of style ''direction'' of
              Some (SStr d) \<Rightarrow> if d = ''north'' then 270 else if d = ''west'' then 180 else if d = ''south'' then 90 else 0
            | _ \<Rightarrow> 0)
      else 0)"

definition quarter_turn :: "jsnum \<Rightarrow> jsnum \<times> jsnum" where
  "quarter_turn r = (if r = 90 then (0, 1) else if r = 180 then (-1, 0) else if r = 270 then (0, -1) else (0, 0))"

definition rotate_about :: "jsnum \<times> jsnum \<Rightarrow> mxPoint \<Rightarrow> mxPoint \<Rightarrow> mxPoint" where
  "rotate_about cs c p = getRotatedPoint p (fst cs) (snd cs) (Some c)"

definition getConnectionPoint ::
  "painter \<Rightarrow> shown option \<Rightarrow> mxConnectionConstraint \<Rightarrow> mxGraph \<Rightarrow> mxPoint option option"
where
  "getConnectionPoint env vertex cn g =
     (case (vertex, cn_point cn) of
        (Some (c, st), Some cp) \<Rightarrow>
          Option.bind (view_getPerimeterBounds st 0 (g_view g)) (\<lambda>bounds.
            let style = the (cs_style st);
                cx = new_mxPoint (Some (getCenterX bounds)) (Some (getCenterY bounds));
                r1 = direction_angle style;
                bounds = (if r1 = 90 \<or> r1 = 270 then rotate90 bounds else bounds);
                point = new_mxPoint (Some (px bounds + px cp * width bounds)) (Some (py bounds + py cp * height bounds));
                r2 = (case map_of style ''rotation'' of None \<Rightarrow> SNum 0 | Some v \<Rightarrow> if truthy v then v else SNum 0);
                flip = (\<lambda>key. isVertex (Some c) (g_model g) \<and> equals_one style key)
            in Option.bind
                 (if cn_perimeter cn
                  then getPerimeterPoint env (c, st)
                    (Some (if r1 \<noteq> 0 then rotate_about (quarter_turn r1) cx point else point)) False 0 g
                  else Some (mirror (flip ''flipH'') (flip ''flipV'') bounds point)) (\<lambda>point.
               map_option (\<lambda>r2.
                 let point = (if r2 \<noteq> 0 then rotate_about (p_trig env r2) cx point else point)
                 in Some (new_mxPoint (Some (js_round (px point))) (Some (js_round (py point)))))
                 (if cn_perimeter cn then style_value_number r2 else plus_angle r2 r1)))
      | _ \<Rightarrow> Some None)"

text \<open>A point of the geometry of an edge, on the screen.\<close>

definition transformControlPoint :: "mxCellState \<Rightarrow> mxPoint \<Rightarrow> mxGraphView \<Rightarrow> mxPoint" where
  "transformControlPoint state pt v =
     new_mxPoint (Some (scale v * (px pt + px (translate v) + px (cs_origin state))))
       (Some (scale v * (py pt + py (translate v) + py (cs_origin state))))"

definition getFixedTerminalPoint ::
  "painter \<Rightarrow> cref \<Rightarrow> mxCellState \<Rightarrow> shown option \<Rightarrow> bool \<Rightarrow> mxGraph \<Rightarrow> mxPoint option option"
where
  "getFixedTerminalPoint env c state terminal source g =
     Option.bind (getConnectionConstraint state source) (\<lambda>cn.
     Option.bind (getConnectionPoint env terminal cn g) (\<lambda>pt.
       if pt = None \<and> terminal = None
       then map_option (\<lambda>geo. map_option (\<lambda>p. transformControlPoint state p (g_view g)) (geo_getTerminalPoint geo source))
              (getCellGeometry (Some c) g)
       else Some pt))"

definition updateFixedTerminalPoint ::
  "painter \<Rightarrow> cref \<Rightarrow> shown option \<Rightarrow> bool \<Rightarrow> mxGraph \<Rightarrow> mxCellState \<Rightarrow> mxCellState option"
where
  "updateFixedTerminalPoint env c terminal source g state =
     map_option (\<lambda>pt. cs_setAbsoluteTerminalPoint pt source state) (getFixedTerminalPoint env c state terminal source g)"

subsection \<open>The points of an edge\<close>

definition isLoopStyleEnabled ::
  "mxCellState \<Rightarrow> mxPoint option list option \<Rightarrow> shown option \<Rightarrow> shown option \<Rightarrow> bool option"
where
  "isLoopStyleEnabled edge points source target =
     Option.bind (getConnectionConstraint edge True) (\<lambda>sc. map_option (\<lambda>tc.
       length (entries points) < 2 \<and>
       (\<not> truthy (the (getValue (cs_style edge) ''orthogonalLoop'' (Some (SBool False)))) \<or>
        cn_point sc = None \<and> cn_point tc = None) \<and>
       source \<noteq> None \<and> map_option fst source = map_option fst target) (getConnectionConstraint edge False))"

definition getEdgeStyle ::
  "painter \<Rightarrow> mxCellState \<Rightarrow> mxPoint option list option \<Rightarrow> shown option \<Rightarrow> shown option \<Rightarrow> string option option"
where
  "getEdgeStyle env edge points source target =
     map_option (\<lambda>loop.
       function_named (p_registry env)
         (if loop then getValue (cs_style edge) ''loopStyle'' (Some (SFun ''Loop''))
          else if \<not> truthy (the (getValue (cs_style edge) ''noEdgeStyle'' (Some (SBool False))))
          then getValue (cs_style edge) ''edgeStyle'' None else None))
       (isLoopStyleEnabled edge points source target)"

definition isOrthogonal :: "painter \<Rightarrow> mxCellState \<Rightarrow> bool option" where
  "isOrthogonal env edge =
     (case getValue (cs_style edge) ''orthogonal'' None of
        Some v \<Rightarrow> Some (truthy v)
      | None \<Rightarrow>
          map_option (\<lambda>f. f \<in> {Some ''SegmentConnector'', Some ''ElbowConnector'', Some ''SideToSide'',
              Some ''TopToBottom'', Some ''EntityRelation'', Some ''OrthConnector''})
            (getEdgeStyle env edge None None None))"

definition updatePoints ::
  "painter \<Rightarrow> mxPoint option list option \<Rightarrow> shown option \<Rightarrow> shown option \<Rightarrow> mxGraph \<Rightarrow>
   mxCellState \<Rightarrow> mxCellState option"
where
  "updatePoints env points source target g edge =
     map_option (\<lambda>f.
       let old = entries (absolutePoints edge);
           mid = (case f of
               Some f \<Rightarrow>
                 map Some (p_route env f edge (map_option snd (getTerminalPort edge source True g))
                   (map_option snd (getTerminalPort edge target False g)) points)
             | None \<Rightarrow>
                 concat (map (\<lambda>p. case p of None \<Rightarrow> []
                     | Some q \<Rightarrow> [Some (transformControlPoint edge q (g_view g))]) (entries points)))
       in edge\<lparr>absolutePoints := Some (hd old # mid @ [List.last old])\<rparr>)
     (getEdgeStyle env edge points source target)"

definition getNextPoint :: "mxCellState \<Rightarrow> shown option \<Rightarrow> bool \<Rightarrow> mxPoint option" where
  "getNextPoint edge opposite source =
     (let pts = entries (absolutePoints edge);
          point = (if length pts \<ge> 2 then pts ! (if source then 1 else length pts - 2) else None)
      in if point = None then map_option (\<lambda>(c, st). cs_center st) opposite else point)"

definition getFloatingTerminalPoint ::
  "painter \<Rightarrow> mxCellState \<Rightarrow> shown \<Rightarrow> shown option \<Rightarrow> bool \<Rightarrow> mxGraph \<Rightarrow> mxPoint option"
where
  "getFloatingTerminalPoint env edge start opposite source g =
     (let start = the (getTerminalPort edge (Some start) source g); nxt = getNextPoint edge opposite source;
          center = cs_center (snd start) in
      Option.bind (isOrthogonal env edge) (\<lambda>orth.
      Option.bind (cs_style (snd start)) (\<lambda>start_style. Option.bind (style_rotation start_style) (\<lambda>alpha.
      Option.bind (cs_style edge) (\<lambda>style. Option.bind (style_float style ''perimeterSpacing'') (\<lambda>b1.
      Option.bind (style_float style (if source then ''sourcePerimeterSpacing'' else ''targetPerimeterSpacing'')) (\<lambda>b2.
        if alpha \<noteq> 0 then
          Option.bind nxt (\<lambda>p.
          map_option (rotate_about (p_trig env alpha) center)
            (getPerimeterPoint env start (Some (rotate_about (p_trig env (- alpha)) center p)) False (b1 + b2) g))
        else getPerimeterPoint env start nxt orth (b1 + b2) g)))))))"

definition updateFloatingTerminalPoint ::
  "painter \<Rightarrow> shown \<Rightarrow> shown option \<Rightarrow> bool \<Rightarrow> mxGraph \<Rightarrow> mxCellState \<Rightarrow> mxCellState option"
where
  "updateFloatingTerminalPoint env start opposite source g edge =
     map_option (\<lambda>pt. cs_setAbsoluteTerminalPoint (Some pt) source edge)
       (getFloatingTerminalPoint env edge start opposite source g)"

definition updateFloatingTerminalPoints ::
  "painter \<Rightarrow> shown option \<Rightarrow> shown option \<Rightarrow> mxGraph \<Rightarrow> mxCellState \<Rightarrow> mxCellState option"
where
  "updateFloatingTerminalPoints env source target g state =
     (let pts = entries (absolutePoints state) in
      Option.bind
        (case target of
           Some t \<Rightarrow> if List.last pts = None then updateFloatingTerminalPoint env t source False g state else Some state
         | None \<Rightarrow> Some state) (\<lambda>state.
        case source of
          Some s \<Rightarrow> if hd pts = None then updateFloatingTerminalPoint env s target True g state else Some state
        | None \<Rightarrow> Some state))"

fun bounds_loop :: "painter \<Rightarrow> mxPoint \<Rightarrow> mxPoint option list \<Rightarrow>
    jsnum list \<times> jsnum \<times> jsnum \<times> jsnum \<times> jsnum \<Rightarrow> jsnum list \<times> jsnum \<times> jsnum \<times> jsnum \<times> jsnum" where
  "bounds_loop env pt [] acc = acc"
| "bounds_loop env pt (None # ps) acc = bounds_loop env pt ps acc"
| "bounds_loop env pt (Some p # ps) (segs, x0, y0, x1, y1) =
     bounds_loop env p ps
       (segs @ [p_sqrt env ((px pt - px p) * (px pt - px p) + (py pt - py p) * (py pt - py p))],
        min (px p) x0, min (py p) y0, max (px p) x1, max (py p) y1)"

definition updateEdgeBounds :: "painter \<Rightarrow> mxCellState \<Rightarrow> mxCellState option" where
  "updateEdgeBounds env state =
     (case (entries (absolutePoints state)) of
        Some p0 # ps \<Rightarrow>
          map_option (\<lambda>pe.
            let (segs, x0, y0, x1, y1) = bounds_loop env p0 ps ([], px p0, py p0, px p0, py p0)
            in state\<lparr>terminalDistance :=
                       (if px p0 \<noteq> px pe \<or> py p0 \<noteq> py pe
                        then p_sqrt env ((px pe - px p0) * (px pe - px p0) + (py pe - py p0) * (py pe - py p0)) else 0),
                     cs_length := sum_list segs, cs_segments := Some segs,
                     cs_bounds := new_mxRectangle (Some x0) (Some y0) (Some (max 1 (x1 - x0))) (Some (max 1 (y1 - y0)))\<rparr>)
            (List.last (Some p0 # ps))
      | _ \<Rightarrow> None)"

end
