(* ===== verification/ViewUpdate.thy ===== *)
theory ViewUpdate
  imports ViewPoints
begin

text \<open>
  Updating the view, view/mxGraphView.js: \<open>updateCellState\<close> and \<open>validateCellState\<close>, the operations that
  change scale, translation and current root, and what the graph (view/mxGraph.js) does with the view
  when the model has changed.
\<close>

subsection \<open>Updating a state\<close>

definition detached :: "mxCellState \<Rightarrow> mxCellState" where
  "detached st = st\<lparr>cs_invalid := True\<rparr>"

text \<open>An edge whose ends are not shown, or that gets no point at an end, loses its state.\<close>

definition updateEdgeState ::
  "painter \<Rightarrow> cref \<Rightarrow> mxGeometry \<Rightarrow> shown option \<Rightarrow> shown option \<Rightarrow> mxCellState \<Rightarrow> mxGraph \<Rightarrow>
   (mxCellState \<times> mxGraph) option"
where
  "updateEdgeState env c geo source target state g =
     (let lost = (\<lambda>end source. end = None \<and>
            (cell_getTerminal c source (g_model g) \<noteq> None \<or> geo_getTerminalPoint geo source = None));
          removed = (\<lambda>state. map_option (Pair (detached state)) (view_clear (Some c) (Some True) None g))
      in if lost source True \<or> lost target False then removed state
         else
           Option.bind (updateFixedTerminalPoint env c source True g state) (\<lambda>state.
           Option.bind (updateFixedTerminalPoint env c target False g state) (\<lambda>state.
           Option.bind (updatePoints env (g_points geo) source target g state) (\<lambda>state.
           Option.bind (updateFloatingTerminalPoints env source target g state) (\<lambda>state.
             let pts = entries (absolutePoints state) in
             if Some c \<noteq> currentRoot (g_view g) \<and> (length pts < 2 \<or> hd pts = None \<or> List.last pts = None)
             then removed state
             else Option.bind (updateEdgeBounds env state) (\<lambda>state.
                  map_option (\<lambda>state. (state, g)) (updateEdgeLabelOffset c state g)))))))"

definition updateVertexState ::
  "painter \<Rightarrow> cref \<Rightarrow> mxGeometry \<Rightarrow> mxGraph \<Rightarrow> mxCellState \<Rightarrow> mxCellState option"
where
  "updateVertexState env c geo g state =
     (let m = g_model g; parent = cell_getParent c m in
      Option.bind
        (case shown_state parent g of
           Some (p, ps) \<Rightarrow>
             if g_relative geo \<and> \<not> isEdge parent m then
               Option.bind (cs_style ps) (\<lambda>style. map_option (\<lambda>alpha.
                 if alpha \<noteq> 0 then
                   (let pt = rotate_about (p_trig env alpha) (cs_center ps) (cs_center state); b = cs_bounds state
                    in state\<lparr>cs_bounds := setRect (px pt - width b / 2) (py pt - height b / 2) (width b) (height b) b\<rparr>)
                 else state) (style_rotation style))
             else Some state
         | None \<Rightarrow> Some state) (updateVertexLabelOffset (g_view g)))"

text \<open>The origin of a state, in the coordinates of the model.\<close>

definition cell_origin ::
  "cref \<Rightarrow> shown option \<Rightarrow> mxGeometry option \<Rightarrow> mxGraph \<Rightarrow> (mxPoint \<times> mxPoint) option"
where
  "cell_origin c pState geometry g =
     (let v = g_view g; s = scale v; m = g_model g;
          base = (case pState of
              Some (p, ps) \<Rightarrow> if Some p \<noteq> currentRoot v then cs_origin ps else new_mxPoint None None
            | None \<Rightarrow> new_mxPoint None None)
      in case geometry of
           None \<Rightarrow> Some (base, new_mxPoint None None)
         | Some geo \<Rightarrow>
             if isEdge (Some c) m then Some (base, new_mxPoint None None)
             else
               (let offset = (case g_offset geo of None \<Rightarrow> new_mxPoint None None | Some p \<Rightarrow> p) in
                case pState of
                  Some (p, ps) \<Rightarrow>
                    if g_relative geo then
                      if isEdge (Some p) m then
                        Option.bind (view_getPoint ps (Some geo) v) (\<lambda>lp.
                        Option.bind (js_div (px lp) s) (\<lambda>x. map_option (\<lambda>y.
                          (point_move (x - px (cs_origin ps) - px (translate v))
                             (y - py (cs_origin ps) - py (translate v)) base, new_mxPoint None None))
                          (js_div (py lp) s)))
                      else
                        Option.bind (js_div (px geo * width (cs_bounds ps)) s) (\<lambda>x. map_option (\<lambda>y.
                          (point_move (x + px offset) (y + py offset) base, new_mxPoint None None))
                          (js_div (py geo * height (cs_bounds ps)) s))
                    else Some (point_move (px geo) (py geo) base,
                           new_mxPoint (Some (s * px offset)) (Some (s * py offset)))
                | None \<Rightarrow> Some (point_move (px geo) (py geo) base,
                           new_mxPoint (Some (s * px offset)) (Some (s * py offset)))))"

text \<open>The place of a cell that is not the current root.\<close>

definition put_state :: "cref \<Rightarrow> mxCellState \<Rightarrow> mxGraph \<Rightarrow> mxGraph" where
  "put_state c st g = (if states (g_view g) c = None then g else set_state c (Some st) g)"

definition set_bounds :: "mxGeometry \<Rightarrow> mxGraphView \<Rightarrow> mxCellState \<Rightarrow> mxCellState" where
  "set_bounds geo v state =
     (let s = scale v; tr = translate v
      in state\<lparr>cs_bounds := new_mxRectangle (Some (s * (px tr + px (cs_origin state))))
             (Some (s * (py tr + py (cs_origin state)))) (Some (s * width geo)) (Some (s * height geo)),
           unscaledWidth := Some (width geo)\<rparr>)"

definition place_state ::
  "painter \<Rightarrow> cref \<Rightarrow> shown option \<Rightarrow> shown option \<Rightarrow> mxCellState \<Rightarrow> mxGraph \<Rightarrow>
   (mxCellState \<times> mxGraph) option"
where
  "place_state env c source target state g =
     (let m = g_model g; pState = shown_state (cell_getParent c m) g; geometry = getCellGeometry (Some c) g in
      Option.bind (cell_origin c pState geometry g) (\<lambda>(origin, offset).
        let state = state\<lparr>cs_origin := origin, absoluteOffset := offset\<rparr> in
        case geometry of
          None \<Rightarrow> Some (state, g)
        | Some geo \<Rightarrow>
            (let state = set_bounds geo (g_view g) state in
             Option.bind (if isVertex (Some c) m then updateVertexState env c geo g state else Some state) (\<lambda>state.
               if isEdge (Some c) m then updateEdgeState env c geo source target state (put_state c state g)
               else Some (state, g)))))"

text \<open>\<open>updateCellState\<close>; the state is changed in place, and found in the view by those who look for it there.\<close>

definition updateCellState ::
  "painter \<Rightarrow> cref \<Rightarrow> shown option \<Rightarrow> shown option \<Rightarrow> mxCellState \<Rightarrow> mxGraph \<Rightarrow>
   (mxCellState \<times> mxGraph) option"
where
  "updateCellState env c source target state g =
     (let state = state\<lparr>absoluteOffset := new_mxPoint None None, cs_origin := new_mxPoint None None, cs_length := 0\<rparr>
      in Option.bind
           (if Some c = currentRoot (g_view g) then Some (state, g) else place_state env c source target state g)
           (\<lambda>(state, g). map_option (\<lambda>state. (state, put_state c state g)) (updateCachedBounds (g_view g) state)))"

text \<open>The state of a cell after other states have been updated: what the view has, or the object that has
  been taken from it.\<close>

definition current_state :: "cref \<Rightarrow> mxCellState \<Rightarrow> mxGraph \<Rightarrow> mxCellState" where
  "current_state c st g = (case states (g_view g) c of Some st' \<Rightarrow> st' | None \<Rightarrow> detached st)"

definition current_shown :: "shown option \<Rightarrow> mxGraph \<Rightarrow> shown option" where
  "current_shown sh g = map_option (\<lambda>(c, st). (c, current_state c st g)) sh"

text \<open>The states that are marked: first those that the state depends on, then the state itself, then
  those of the children.\<close>

definition validate_end ::
  "(cref option \<Rightarrow> mxGraph \<Rightarrow> (shown option \<times> mxGraph) option) \<Rightarrow>
   cref \<Rightarrow> bool \<Rightarrow> mxCellState \<Rightarrow> mxGraph \<Rightarrow> (shown option \<times> mxCellState \<times> mxGraph) option"
where
  "validate_end validate c source state g =
     Option.bind (view_getVisibleTerminal c source g) (\<lambda>t. map_option (\<lambda>(end, g).
       let state = cs_setVisibleTerminal (map_option fst end) source (current_state c state g)
       in (end, state, put_state c state g)) (validate t g))"

definition refresh_state ::
  "(cref option \<Rightarrow> mxGraph \<Rightarrow> (shown option \<times> mxGraph) option) \<Rightarrow>
   painter \<Rightarrow> cref \<Rightarrow> mxCellState \<Rightarrow> mxGraph \<Rightarrow> (mxCellState \<times> mxGraph) option"
where
  "refresh_state validate env c state g =
     Option.bind (case cs_style state of Some s \<Rightarrow> Some s | None \<Rightarrow> graph_getCellStyle (Some c) g) (\<lambda>style.
       let state = state\<lparr>cs_invalid := False, cs_style := Some style\<rparr>; g = set_state c (Some state) g in
       Option.bind (if Some c \<noteq> currentRoot (g_view g)
                    then map_option snd (validate (cell_getParent c (g_model g)) g) else Some g) (\<lambda>g.
       Option.bind (validate_end validate c True state g) (\<lambda>(source, state, g).
       Option.bind (validate_end validate c False state g) (\<lambda>(target, state, g).
         updateCellState env c (current_shown source g) (current_shown target g) state g))))"

fun validateCellState_n ::
  "nat \<Rightarrow> painter \<Rightarrow> cref option \<Rightarrow> bool \<Rightarrow> mxGraph \<Rightarrow> (shown option \<times> mxGraph) option"
where
  "validateCellState_n n env cell recurse g =
     (case shown_state cell g of
        None \<Rightarrow> Some (None, g)
      | Some (c, state) \<Rightarrow>
          (case n of
             0 \<Rightarrow> None
           | Suc k \<Rightarrow>
               Option.bind
                 (if cs_invalid state
                  then refresh_state (\<lambda>d. validateCellState_n k env d False) env c state g
                  else Some (state, g)) (\<lambda>(state, g).
               map_option (\<lambda>g. (Some (c, current_state c state g), g))
                 (if recurse \<and> \<not> cs_invalid state
                  then for_each (\<lambda>d g. map_option snd (validateCellState_n k env (Some d) True g)) (children_of (g_model g) c) g
                  else Some g))))"

declare validateCellState_n.simps [simp del]

definition validateCellState ::
  "painter \<Rightarrow> cref option \<Rightarrow> bool option \<Rightarrow> mxGraph \<Rightarrow> (shown option \<times> mxGraph) option"
where
  "validateCellState env cell recurse g =
     validateCellState_n (2 * Suc (walk_fuel (g_model g))) env cell (recurse \<noteq> Some False) g"

subsection \<open>Bounds of the diagram\<close>

definition join_box :: "mxRectangle option \<Rightarrow> mxRectangle option \<Rightarrow> mxRectangle option" where
  "join_box bbox bounds =
     (case bounds of
        None \<Rightarrow> bbox
      | Some b \<Rightarrow> (case bbox of None \<Rightarrow> Some b | Some r \<Rightarrow> Some (rect_add r (Some b))))"

fun getBoundingBox_n :: "nat \<Rightarrow> painter \<Rightarrow> shown option \<Rightarrow> mxGraph \<Rightarrow> mxRectangle option option" where
  "getBoundingBox_n n env None g = Some None"
| "getBoundingBox_n 0 env (Some sh) g = None"
| "getBoundingBox_n (Suc n) env (Some (c, st)) g =
     for_each
       (\<lambda>d bbox. map_option (join_box bbox) (getBoundingBox_n n env (shown_state (Some d) g) g))
       (children_of (g_model g) c) (join_box (p_shape_box env c st) (p_text_box env c st))"

definition getBoundingBox :: "painter \<Rightarrow> shown option \<Rightarrow> mxGraph \<Rightarrow> mxRectangle option option" where
  "getBoundingBox env state g = getBoundingBox_n (walk_fuel (g_model g)) env state g"

definition getEmptyBounds :: "mxGraphView \<Rightarrow> mxRectangle" where
  "getEmptyBounds v =
     new_mxRectangle (Some (px (translate v) * scale v)) (Some (py (translate v) * scale v)) None None"

definition setGraphBounds :: "mxRectangle \<Rightarrow> mxGraph \<Rightarrow> mxGraph" where
  "setGraphBounds b g = g\<lparr>g_view := (g_view g)\<lparr>graphBounds := b\<rparr>\<rparr>"

definition view_validate :: "painter \<Rightarrow> cref option \<Rightarrow> mxGraph \<Rightarrow> mxGraph option" where
  "view_validate env cell g =
     (let cell = (if cell \<noteq> None then cell
                  else if currentRoot (g_view g) \<noteq> None then currentRoot (g_view g) else m_root (g_model g))
      in Option.bind (view_validateCell cell None g) (\<lambda>g. Option.bind (validateCellState env cell None g) (\<lambda>(state, g).
         map_option (\<lambda>box. setGraphBounds (case box of Some b \<Rightarrow> b | None \<Rightarrow> getEmptyBounds (g_view g)) g)
           (getBoundingBox env state g))))"

subsection \<open>Scale, translation and current root\<close>

definition v_fire :: "view_event \<Rightarrow> mxGraph \<Rightarrow> mxGraph" where
  "v_fire ev g = g\<lparr>g_view := (g_view g)\<lparr>v_fired := v_fired (g_view g) @ [ev]\<rparr>\<rparr>"

definition revalidate :: "painter \<Rightarrow> mxGraph \<Rightarrow> mxGraph option" where
  "revalidate env g = Option.bind (invalidate None None None g) (view_validate env None)"

definition view_refresh :: "painter \<Rightarrow> mxGraph \<Rightarrow> mxGraph option" where
  "view_refresh env g =
     Option.bind (if currentRoot (g_view g) \<noteq> None then view_clear None None None g else Some g) (revalidate env)"

definition scaleAndTranslate :: "painter \<Rightarrow> jsnum \<Rightarrow> jsnum \<Rightarrow> jsnum \<Rightarrow> mxGraph \<Rightarrow> mxGraph option" where
  "scaleAndTranslate env s dx dy g =
     (let old = g_view g; tr = new_mxPoint (Some dx) (Some dy)
      in map_option (v_fire (EvScaleAndTranslate s (scale old) tr (translate old)))
           (if scale old \<noteq> s \<or> px (translate old) \<noteq> dx \<or> py (translate old) \<noteq> dy
            then revalidate env (g\<lparr>g_view := old\<lparr>scale := s, translate := tr\<rparr>\<rparr>) else Some g))"

definition setScale :: "painter \<Rightarrow> jsnum \<Rightarrow> mxGraph \<Rightarrow> mxGraph option" where
  "setScale env s g =
     (let old = g_view g
      in map_option (v_fire (EvScale s (scale old)))
           (if scale old \<noteq> s then revalidate env (g\<lparr>g_view := old\<lparr>scale := s\<rparr>\<rparr>) else Some g))"

definition setTranslate :: "painter \<Rightarrow> jsnum \<Rightarrow> jsnum \<Rightarrow> mxGraph \<Rightarrow> mxGraph option" where
  "setTranslate env dx dy g =
     (let old = g_view g; tr = new_mxPoint (Some dx) (Some dy)
      in map_option (v_fire (EvTranslate tr (translate old)))
           (if px (translate old) \<noteq> dx \<or> py (translate old) \<noteq> dy
            then revalidate env (g\<lparr>g_view := old\<lparr>translate := tr\<rparr>\<rparr>) else Some g))"

definition zoomActual :: "painter \<Rightarrow> mxGraph \<Rightarrow> mxGraph option" where
  "zoomActual env g =
     (if scale (g_view g) = 1 then setTranslate env 0 0 g
      else setScale env 1 (g\<lparr>g_view := (g_view g)\<lparr>translate := new_mxPoint (Some 0) (Some 0)\<rparr>\<rparr>))"

definition getTranslateForRoot :: "cref option \<Rightarrow> mxPoint option" where
  "getTranslateForRoot cell = None"

text \<open>The change of the current root; the walk looks for the new root above the current one.\<close>

definition new_mxCurrentRootChange :: "cref option \<Rightarrow> mxGraph \<Rightarrow> mxCurrentRootChange option" where
  "new_mxCurrentRootChange rt g =
     map_option (\<lambda>hit. \<lparr>cr_root = rt, cr_previous = rt, cr_isUp = (rt = None \<or> hit \<noteq> None)\<rparr>)
       (if rt = None then Some None
        else walk_up (walk_fuel (g_model g)) (g_model g) (\<lambda>c. Some c = rt) (currentRoot (g_view g)))"

definition execute_root_change ::
  "painter \<Rightarrow> mxCurrentRootChange \<Rightarrow> mxGraph \<Rightarrow> (mxCurrentRootChange \<times> mxGraph) option"
where
  "execute_root_change env ch g =
     (let tmp = currentRoot (g_view g); now = cr_previous ch;
          v = (g_view g)\<lparr>currentRoot := now\<rparr>;
          v = (case getTranslateForRoot now of
              None \<Rightarrow> v | Some t \<Rightarrow> v\<lparr>translate := new_mxPoint (Some (- px t)) (Some (- py t))\<rparr>);
          g = g\<lparr>g_view := v\<rparr>
      in map_option
           (\<lambda>g. (ch\<lparr>cr_previous := tmp, cr_isUp := \<not> cr_isUp ch\<rparr>,
                 v_fire (if cr_isUp ch then EvUp now tmp else EvDown now tmp) g))
           (if cr_isUp ch then Option.bind (view_clear now (Some True) None g) (view_validate env None)
            else view_refresh env g))"

definition setCurrentRoot :: "painter \<Rightarrow> cref option \<Rightarrow> mxGraph \<Rightarrow> mxGraph option" where
  "setCurrentRoot env rt g =
     (if currentRoot (g_view g) \<noteq> rt then
        Option.bind (new_mxCurrentRootChange rt g) (\<lambda>ch.
        map_option (\<lambda>(ch, g). v_fire (EvRootEdit (edit_add ch (new_mxUndoableEdit (Some False)))) g)
          (execute_root_change env ch g))
      else Some g)"

definition enterGroup :: "painter \<Rightarrow> cref option \<Rightarrow> mxGraph \<Rightarrow> mxGraph option" where
  "enterGroup env cell g =
     (let cell = (if cell \<noteq> None then cell else getSelectionCell g) in
      if cell \<noteq> None \<and> isValidRoot cell g
      then map_option clearSelection (setCurrentRoot env cell g) else Some g)"

text \<open>\<open>exitGroup\<close> looks for the next root above the current one; \<open>None\<close> means that the loop does not end.\<close>

fun exit_loop :: "nat \<Rightarrow> mxGraph \<Rightarrow> cref option \<Rightarrow> cref option option" where
  "exit_loop n g nxt =
     (let m = g_model g in
      if nxt \<noteq> m_root m \<and> \<not> isValidRoot nxt g \<and> getParent nxt m \<noteq> m_root m
      then (case n of 0 \<Rightarrow> None | Suc k \<Rightarrow> exit_loop k g (getParent nxt m)) else Some nxt)"

declare exit_loop.simps [simp del]

definition select_if_shown :: "cref option \<Rightarrow> mxGraph \<Rightarrow> mxGraph" where
  "select_if_shown cell g = (if getState cell g \<noteq> None then setSelectionCell cell g else g)"

definition exitGroup :: "painter \<Rightarrow> mxGraph \<Rightarrow> mxGraph option" where
  "exitGroup env g =
     (let m = g_model g; current = getCurrentRoot g in
      if current \<noteq> None then
        Option.bind (exit_loop (walk_fuel m) g (getParent current m)) (\<lambda>nxt.
        map_option (select_if_shown current)
          (setCurrentRoot env (if nxt = m_root m \<or> getParent nxt m = m_root m then None else nxt) g))
      else Some g)"

definition home :: "painter \<Rightarrow> mxGraph \<Rightarrow> mxGraph option" where
  "home env g =
     (let current = getCurrentRoot g in
      if current \<noteq> None then map_option (select_if_shown current) (setCurrentRoot env None g) else Some g)"

definition graph_refresh :: "painter \<Rightarrow> cref option \<Rightarrow> mxGraph \<Rightarrow> mxGraph option" where
  "graph_refresh env cell g =
     Option.bind (view_clear cell (Some (cell = None)) None g) (\<lambda>g.
       map_option (g_fire EvRefresh) (view_validate env None g))"

fun getCellBounds_n :: "nat \<Rightarrow> cref option \<Rightarrow> bool \<Rightarrow> bool \<Rightarrow> mxGraph \<Rightarrow> mxRectangle option option" where
  "getCellBounds_n n cell includeEdges includeDescendants g =
     (let m = g_model g;
          cells = (case cell of None \<Rightarrow> [] | Some c \<Rightarrow> c # (if includeEdges then edges_of m c else []));
          result = view_getBounds (Some cells) g
      in if includeDescendants then
           (case n of
              0 \<Rightarrow> None
            | Suc k \<Rightarrow>
                for_each (\<lambda>d result. map_option (join_box result) (getCellBounds_n k (Some d) includeEdges True g))
                  (case cell of None \<Rightarrow> [] | Some c \<Rightarrow> children_of m c) result)
         else Some result)"

declare getCellBounds_n.simps [simp del]

definition getCellBounds :: "cref option \<Rightarrow> bool \<Rightarrow> bool \<Rightarrow> mxGraph \<Rightarrow> mxRectangle option option" where
  "getCellBounds cell includeEdges includeDescendants g =
     getCellBounds_n (walk_fuel (g_model g)) cell includeEdges includeDescendants g"

subsection \<open>Changes of the model\<close>

fun removeStateForCell_n :: "nat \<Rightarrow> cref option \<Rightarrow> mxGraph \<Rightarrow> mxGraph option" where
  "removeStateForCell_n n cell g =
     Option.bind
       (case cell of
          None \<Rightarrow> Some g
        | Some c \<Rightarrow>
            (case n of
               0 \<Rightarrow> None
             | Suc k \<Rightarrow> for_each (\<lambda>d. removeStateForCell_n k (Some d)) (children_of (g_model g) c) g))
       (\<lambda>g. map_option (removeState cell) (invalidate cell (Some False) (Some True) g))"

declare removeStateForCell_n.simps [simp del]

definition removeStateForCell :: "cref option \<Rightarrow> mxGraph \<Rightarrow> mxGraph option" where
  "removeStateForCell cell g = removeStateForCell_n (walk_fuel (g_model g)) cell g"

definition geometry_differs :: "nat option \<Rightarrow> nat option \<Rightarrow> mxGraphModel \<Rightarrow> bool" where
  "geometry_differs previous geometry m \<longleftrightarrow>
     (case previous of
        None \<Rightarrow> geometry \<noteq> None
      | Some p \<Rightarrow> \<not> geo_equals (previous = geometry) (geo_at m p) (map_option (geo_at m) geometry))"

definition forget_style :: "cref option \<Rightarrow> mxGraph \<Rightarrow> mxGraph" where
  "forget_style cell g =
     (case shown_state cell g of None \<Rightarrow> g | Some (c, st) \<Rightarrow> set_state c (Some (st\<lparr>cs_style := None\<rparr>)) g)"

definition reparented :: "painter \<Rightarrow> cref option \<Rightarrow> cref option \<Rightarrow> mxGraph \<Rightarrow> mxGraph option" where
  "reparented env child previous g =
     (let newParent = getParent child (g_model g) in
      Option.bind (invalidate child (Some True) (Some True) g) (\<lambda>g.
      Option.bind (m_contains newParent (g_model g)) (\<lambda>inside.
      Option.bind
        (if \<not> inside \<or> isCellCollapsed newParent g then
           Option.bind (invalidate child (Some True) (Some True) g) (\<lambda>g.
           Option.bind (removeStateForCell child g) (\<lambda>g.
             if currentRoot (g_view g) = child then home env g else Some g))
         else Some g) (\<lambda>g.
      if newParent \<noteq> previous then
        Option.bind (if newParent \<noteq> None then invalidate newParent (Some False) (Some False) g else Some g) (\<lambda>g.
          if previous \<noteq> None then invalidate previous (Some False) (Some False) g else Some g)
      else Some g))))"

fun processChange :: "painter \<Rightarrow> change \<Rightarrow> mxGraph \<Rightarrow> mxGraph option" where
  "processChange env (RootChange r previous) g =
     map_option (\<lambda>g. g_fire EvRoot
         (g\<lparr>g_view := (g_view g)\<lparr>scale := 1, translate := new_mxPoint (Some 0) (Some 0)\<rparr>\<rparr>))
       (removeStateForCell previous (setDefaultParent None (clearSelection g)))"
| "processChange env (ChildChange p previous child i j) g = reparented env child previous g"
| "processChange env (TerminalChange c t p s) g = invalidate c None None g"
| "processChange env (GeometryChange c geometry previous) g =
     (if geometry_differs previous geometry (g_model g) then invalidate c None None g else Some g)"
| "processChange env (ValueChange c v p) g = invalidate c (Some False) (Some False) g"
| "processChange env (StyleChange c s p) g =
     map_option (forget_style c) (invalidate c (Some True) (Some True) g)"
| "processChange env (CollapseChange c s p) g = (if c \<noteq> None then removeStateForCell c g else Some g)"
| "processChange env (VisibleChange c s p) g = (if c \<noteq> None then removeStateForCell c g else Some g)"
| "processChange env (CellAttributeChange c a v p) g = (if c \<noteq> None then removeStateForCell c g else Some g)"

definition graphModelChanged :: "painter \<Rightarrow> change list \<Rightarrow> mxGraph \<Rightarrow> mxGraph option" where
  "graphModelChanged env chs g =
     Option.bind (for_each (processChange env) chs g) (\<lambda>g.
     Option.bind (getRemovedCellsForChanges chs g) (\<lambda>removed.
       view_validate env None (removeSelectionCells (Some removed) g)))"

subsection \<open>Points relative to an edge\<close>

definition getRoutingCenterX :: "mxCellState \<Rightarrow> jsnum" where
  "getRoutingCenterX state =
     (let f = (case getValue (cs_style state) ''routingCenterX'' None of
          None \<Rightarrow> 0 | Some v \<Rightarrow> (case parse_float_value v of None \<Rightarrow> 0 | Some q \<Rightarrow> q))
      in getCenterX (cs_bounds state) + f * width (cs_bounds state))"

definition getRoutingCenterY :: "mxCellState \<Rightarrow> jsnum" where
  "getRoutingCenterY state =
     (let f = (case getValue (cs_style state) ''routingCenterY'' None of
          None \<Rightarrow> 0 | Some v \<Rightarrow> (case parse_float_value v of None \<Rightarrow> 0 | Some q \<Rightarrow> q))
      in getCenterY (cs_bounds state) + f * height (cs_bounds state))"

definition isLoop :: "mxCellState \<Rightarrow> bool" where
  "isLoop state \<longleftrightarrow> visibleSource state \<noteq> None \<and> visibleSource state = visibleTarget state"

end
