(* ===== verification/ViewStates.thy ===== *)
theory ViewStates
  imports ViewUpdate
begin

text \<open>
  Which cells have a state: what \<open>view_validateCell\<close> of view/mxGraphView.js computes on a well-formed model.
\<close>

subsection \<open>Graphs that differ in states only\<close>

definition with_states :: "(cref \<Rightarrow> mxCellState option) \<Rightarrow> mxGraph \<Rightarrow> mxGraph" where
  "with_states f g = g\<lparr>g_view := (g_view g)\<lparr>states := f\<rparr>\<rparr>"

lemma with_states_simps [simp]:
  "g_model (with_states f g) = g_model g" "states (g_view (with_states f g)) = f"
  "currentRoot (g_view (with_states f g)) = currentRoot (g_view g)"
  "scale (g_view (with_states f g)) = scale (g_view g)"
  "translate (g_view (with_states f g)) = translate (g_view g)"
  "with_states f' (with_states f g) = with_states f' g" "with_states (states (g_view g)) g = g"
  "set_state c st (with_states f g) = with_states (f(c := st)) g"
  "removeState (Some c) (with_states f g) = with_states (f(c := None)) g"
  by (simp_all add: with_states_def set_state_def removeState_def)

lemma with_states_reads [simp]:
  "isCellVisible c (with_states f g) = isCellVisible c g"
  "isCellCollapsed c (with_states f g) = isCellCollapsed c g"
  "graph_getCellStyle c (with_states f g) = graph_getCellStyle c g"
  "createState d (with_states f g) = createState d g"
  by (simp_all add: with_states_def isCellVisible_def isCellCollapsed_def graph_getCellStyle_def
      createState_def postProcessCellStyle_def getImageFromBundles_def Let_def cong: option.case_cong)

lemma as_with_states: "g = with_states (states (g_view g)) g"
  by simp

subsection \<open>The cells that the view shows\<close>

text \<open>From a cell at which validation starts, the view descends through visible cells that are not
  collapsed; the current root counts as open.\<close>

inductive reached :: "mxGraph \<Rightarrow> cref \<Rightarrow> cref \<Rightarrow> bool" for g r where
  reached_start: "isCellVisible (Some r) g \<Longrightarrow> reached g r r"
| reached_child: "reached g r p \<Longrightarrow> cell_getParent c (g_model g) = Some p \<Longrightarrow> isCellVisible (Some c) g \<Longrightarrow>
    \<not> isCellCollapsed (Some p) g \<or> Some p = currentRoot (g_view g) \<Longrightarrow> reached g r c"

lemma set_ancestors:
  assumes "heap_wf h" and "cell_getParent c h = Some p"
  shows "set (ancestors h c) = insert c (set (ancestors h p))"
  by (subst ancestors_parent [OF assms(1)]) (simp add: assms(2))

lemma reached_below: "reached g r c \<Longrightarrow> heap_wf (g_model g) \<Longrightarrow> r \<in> set (ancestors (g_model g) c)"
  by (induction rule: reached.induct) (simp_all add: set_ancestors)

lemma reached_visible: "reached g r c \<Longrightarrow> isCellVisible (Some c) g"
  by (induction rule: reached.induct) simp_all

text \<open>What is reached from a cell is reached from it through one of its children.\<close>

lemma reached_via_child:
  assumes "heap_wf (g_model g)" and "cell_getParent d (g_model g) = Some c"
    and "d \<in> set (ancestors (g_model g) e)"
  shows "reached g c e \<longleftrightarrow>
    isCellVisible (Some c) g \<and> (\<not> isCellCollapsed (Some c) g \<or> Some c = currentRoot (g_view g)) \<and> reached g d e"
    (is "_ \<longleftrightarrow> ?v \<and> ?o \<and> _")
proof
  assume "reached g c e"
  from this assms(3) show "?v \<and> ?o \<and> reached g d e"
  proof (induction rule: reached.induct)
    case reached_start
    then show ?case using not_above_parent [OF assms(1,2)] by simp
  next
    case (reached_child p x)
    show ?case
    proof (cases "x = d")
      case True
      then have "p = c" using assms(2) reached_child.hyps(2) by simp
      with True reached_child.hyps show ?thesis
        using reached_visible [OF reached_child.hyps(1)] reached.reached_start [of d g] by simp
    next
      case False
      then have "d \<in> set (ancestors (g_model g) p)"
        using reached_child.prems set_ancestors [OF assms(1) reached_child.hyps(2)] by simp
      then show ?thesis
        using reached_child.IH reached.reached_child [OF _ reached_child.hyps(2,3,4), of d] by blast
    qed
  qed
next
  assume open_d: "?v \<and> ?o \<and> reached g d e"
  have "reached g d x \<Longrightarrow> reached g c x" for x
  proof (induction rule: reached.induct)
    case reached_start
    then show ?case using open_d assms(2) reached.intros by blast
  next
    case (reached_child p x)
    show ?case by (rule reached.reached_child [OF reached_child.IH reached_child.hyps(2,3,4)])
  qed
  then show "reached g c e" using open_d by blast
qed


subsection \<open>What validation leaves\<close>

text \<open>A state that is there although the cell is not reached goes away, unless one above it went away
  first: below a cell whose state is removed the validation does not look.\<close>

definition left_over :: "(cref \<Rightarrow> mxCellState option) \<Rightarrow> mxGraph \<Rightarrow> bool \<Rightarrow> cref \<Rightarrow> cref \<Rightarrow> bool" where
  "left_over f g visible r d \<longleftrightarrow>
     (\<exists>a \<in> set (ancestors (g_model g) d). a \<noteq> d \<and> r \<in> set (ancestors (g_model g) a) \<and>
        \<not> (visible \<and> reached g r a) \<and> f a \<noteq> None)"

definition states_after ::
  "(cref \<Rightarrow> mxCellState option) \<Rightarrow> mxGraph \<Rightarrow> bool \<Rightarrow> cref \<Rightarrow> cref \<Rightarrow> mxCellState option"
where
  "states_after f g visible r d =
     (if r \<notin> set (ancestors (g_model g) d) then f d
      else if visible \<and> reached g r d then (if f d = None then createState d g else f d)
      else if left_over f g visible r d then f d else None)"

lemma fold_local:
  assumes out: "\<And>d h x. x \<notin> D d \<Longrightarrow> F d h x = h x"
    and cong: "\<And>d h h' x. x \<in> D d \<Longrightarrow> (\<And>y. y \<in> D d \<Longrightarrow> h y = h' y) \<Longrightarrow> F d h x = F d h' x"
    and disj: "\<And>d e. d \<in> set ds \<Longrightarrow> e \<in> set ds \<Longrightarrow> d \<noteq> e \<Longrightarrow> D d \<inter> D e = {}"
    and "distinct ds"
  shows "d \<in> set ds \<Longrightarrow> x \<in> D d \<Longrightarrow> fold F ds h x = F d h x"
    and "(\<And>d. d \<in> set ds \<Longrightarrow> x \<notin> D d) \<Longrightarrow> fold F ds h x = h x"
proof -
  have none: "(\<And>d. d \<in> set es \<Longrightarrow> x \<notin> D d) \<Longrightarrow> fold F es h x = h x" for es h x
    by (induction es arbitrary: h) (simp_all add: out)
  show "(\<And>d. d \<in> set ds \<Longrightarrow> x \<notin> D d) \<Longrightarrow> fold F ds h x = h x" by (rule none)
  show "d \<in> set ds \<Longrightarrow> x \<in> D d \<Longrightarrow> fold F ds h x = F d h x"
    using disj \<open>distinct ds\<close>
  proof (induction ds arbitrary: h)
    case (Cons e ds)
    show ?case
    proof (cases "e = d")
      case True
      with Cons.prems have "y \<in> D d \<Longrightarrow> d' \<in> set ds \<Longrightarrow> y \<notin> D d'" for d' y
        by (metis disjoint_iff distinct.simps(2) list.set_intros)
      with True Cons.prems(2) none [of ds x] show ?thesis by simp
    next
      case False
      with Cons.prems have d: "d \<in> set ds" and e: "D e \<inter> D d = {}" by auto
      have "fold F ds (F e h) x = F d (F e h) x"
        by (rule Cons.IH [OF d Cons.prems(2)]) (use Cons.prems in auto)
      also have "\<dots> = F d h x" by (rule cong [OF Cons.prems(2)]) (use e out in blast)
      finally show ?thesis by simp
    qed
  qed simp
qed

lemma states_after_local:
  assumes "heap_wf (g_model g)" and "r \<in> set (ancestors (g_model g) d)"
    and "\<And>a. r \<in> set (ancestors (g_model g) a) \<Longrightarrow> f a = f' a"
  shows "states_after f g v r d = states_after f' g v r d"
proof -
  have "left_over f g v r d \<longleftrightarrow> left_over f' g v r d"
    unfolding left_over_def using assms(3) by metis
  then show ?thesis using assms(2,3) by (simp add: states_after_def)
qed

lemma children_disjoint:
  assumes "heap_wf m" and "cell_getParent d m = Some c" and "cell_getParent e m = Some c" and "d \<noteq> e"
  shows "\<not> (d \<in> set (ancestors m x) \<and> e \<in> set (ancestors m x))"
proof
  assume "d \<in> set (ancestors m x) \<and> e \<in> set (ancestors m x)"
  then have "d \<in> set (ancestors m e) \<or> e \<in> set (ancestors m d)" using ancestors_linear [OF assms(1)] by blast
  then show False
    using set_ancestors [OF assms(1,2)] set_ancestors [OF assms(1,3)] assms(4)
      not_above_parent [OF assms(1,2)] not_above_parent [OF assms(1,3)] by auto
qed

lemma below_child:
  assumes "heap_wf m" and "c \<in> set (ancestors m x)" and "x \<noteq> c"
  obtains d where "cell_getParent d m = Some c" "d \<in> set (ancestors m x)"
  using assms
proof (induction x arbitrary: thesis rule: heap_wf_induct)
  case (up x)
  obtain p where p: "cell_getParent x m = Some p" "c \<in> set (ancestors m p)"
  proof (cases "cell_getParent x m")
    case None
    then have "ancestors m x = [x]" by (subst ancestors_parent [OF assms(1)]) simp
    with up.prems show thesis by simp
  next
    case (Some p)
    with up.prems that show thesis using set_ancestors [OF assms(1) Some] by auto
  qed
  show ?case
  proof (cases "p = c")
    case True
    with p up.prems(1) [of x] show ?thesis using assms(1) by simp
  next
    case False
    obtain d where "cell_getParent d m = Some c" "d \<in> set (ancestors m p)"
      by (rule up.IH [OF p(1) _ p(2) False])
    with up.prems(1) set_ancestors [OF assms(1) p(1)] show ?thesis by blast
  qed
qed

lemma states_after_children:
  assumes wf: "heap_wf (g_model g)" "tree_inv (g_model g)"
    and v: "visible' = (visible \<and> isCellVisible (Some c) g \<and>
      (\<not> isCellCollapsed (Some c) g \<or> Some c = currentRoot (g_view g)))"
    and h: "h = (if visible \<and> isCellVisible (Some c) g \<and> f c = None then f(c := createState c g) else f)"
    and open_c: "f c = None \<or> visible \<and> isCellVisible (Some c) g"
    and made: "createState c g \<noteq> None"
  shows "fold (\<lambda>d h. states_after h g visible' d) (children_of (g_model g) c) h = states_after f g visible c"
proof
  fix x
  let ?m = "g_model g"
  let ?F = "\<lambda>d h. states_after h g visible' d"
  let ?D = "\<lambda>d. {x. d \<in> set (ancestors ?m x)}"
  note child = children_getParent [OF wf(2)]
  have out: "?F d h x = h x" if "x \<notin> ?D d" for d h x using that by (simp add: states_after_def)
  have cong: "?F d h x = ?F d h' x" if "x \<in> ?D d" "\<And>y. y \<in> ?D d \<Longrightarrow> h y = h' y" for d h h' x
    by (rule states_after_local [OF wf(1)]) (use that in simp_all)
  have disj: "?D d \<inter> ?D e = {}"
    if "d \<in> set (children_of ?m c)" "e \<in> set (children_of ?m c)" "d \<noteq> e" for d e
    using that children_disjoint [OF wf(1), of d c e] by (auto simp: child)
  note fold_at = fold_local [of ?D ?F "children_of ?m c", OF out cong disj tree_invD(1) [OF wf(2)]]
  have start: "reached g c c \<longleftrightarrow> isCellVisible (Some c) g"
    using reached.reached_start reached_visible by blast
  show "fold ?F (children_of ?m c) h x = states_after f g visible c x"
  proof (cases "x \<noteq> c \<and> c \<in> set (ancestors ?m x)")
    case True
    then obtain d where d: "cell_getParent d ?m = Some c" "d \<in> set (ancestors ?m x)"
      using below_child [OF wf(1)] by blast
    then have "fold ?F (children_of ?m c) h x = ?F d h x" using child by (intro fold_at(1)) auto
    also have "\<dots> = ?F d f x"
    proof (rule states_after_local [OF wf(1) d(2)])
      fix a assume "d \<in> set (ancestors ?m a)"
      then have "a \<noteq> c" using not_above_parent [OF wf(1) d(1)] by blast
      then show "h a = f a" using h by simp
    qed
    also have "\<dots> = states_after f g visible c x"
    proof -
      have reach: "reached g c e \<longleftrightarrow> isCellVisible (Some c) g \<and>
          (\<not> isCellCollapsed (Some c) g \<or> Some c = currentRoot (g_view g)) \<and> reached g d e"
        if "d \<in> set (ancestors ?m e)" for e by (rule reached_via_child [OF wf(1) d(1) that])
      have "left_over f g visible' d x \<longleftrightarrow> left_over f g visible c x"
      proof
        assume "left_over f g visible' d x"
        then show "left_over f g visible c x"
          unfolding left_over_def using reach v set_ancestors [OF wf(1) d(1)] ancestors_trans [OF wf(1)]
          by (metis insertI2 ancestors_self wf(1))
      next
        assume "left_over f g visible c x"
        then obtain a where a: "a \<in> set (ancestors ?m x)" "a \<noteq> x" "c \<in> set (ancestors ?m a)"
          "\<not> (visible \<and> reached g c a)" "f a \<noteq> None" by (auto simp: left_over_def)
        have "a \<noteq> c" using a(4,5) open_c start by auto
        then obtain e where e: "cell_getParent e ?m = Some c" "e \<in> set (ancestors ?m a)"
          using below_child [OF wf(1) a(3)] by blast
        then have "e = d" using children_disjoint [OF wf(1) e(1) d(1), of x] d(2) ancestors_trans [OF wf(1) e(2) a(1)] by blast
        then show "left_over f g visible' d x" unfolding left_over_def using a e(2) reach [of a] v by blast
      qed
      then show ?thesis using True d(2) reach [OF d(2)] v by (auto simp: states_after_def)
    qed
    finally show ?thesis .
  next
    case False
    have "fold ?F (children_of ?m c) h x = h x"
    proof (rule fold_at(2))
      fix d assume "d \<in> set (children_of ?m c)"
      then have d: "cell_getParent d ?m = Some c" by (simp add: child)
      have "x \<noteq> c" if "d \<in> set (ancestors ?m x)" using that not_above_parent [OF wf(1) d] by blast
      then show "x \<notin> ?D d" using False ancestors_trans [OF wf(1), of c d x] set_ancestors [OF wf(1) d] wf(1) by auto
    qed
    also have "\<dots> = states_after f g visible c x"
    proof (cases "x = c")
      case True
      have "\<not> left_over f g visible c c"
        using ancestors_antisym [OF wf(1)] by (auto simp: left_over_def)
      with True show ?thesis using h open_c start wf(1) by (auto simp: states_after_def)
    next
      case x: False
      with False show ?thesis using h by (simp add: states_after_def)
    qed
    finally show ?thesis .
  qed
qed

lemma validateCell_n_states:
  assumes wf: "heap_wf (g_model g)" "tree_inv (g_model g)" and made: "\<And>c. createState c g \<noteq> None"
  shows "n + length (ancestors (g_model g) c) \<ge> ncells (g_model g) + 2 \<Longrightarrow>
    validateCell_n n (Some c) visible (with_states f g) = Some (with_states (states_after f g visible c) g)"
proof (induction n arbitrary: c visible f)
  case 0
  then show ?case using ancestors_length [OF wf(1), of c] by (simp add: walk_fuel_def)
next
  case (Suc n)
  let ?m = "g_model g"
  let ?now = "visible \<and> isCellVisible (Some c) g"
  let ?deep = "?now \<and> (\<not> isCellCollapsed (Some c) g \<or> Some c = currentRoot (g_view g))"
  define h where "h = (if visible \<and> isCellVisible (Some c) g \<and> f c = None then f(c := createState c g) else f)"
  obtain st where "createState c g = Some st" using made [of c] by blast
  then have made_c: "getState_create c ?now (with_states f g) = Some (with_states h g)"
    by (simp add: getState_create_def h_def)
  have fuel: "n + length (ancestors ?m d) \<ge> ncells ?m + 2" if "d \<in> set (children_of ?m c)" for d
  proof -
    have "ancestors ?m d = d # ancestors ?m c"
      using that by (subst ancestors_parent [OF wf(1)]) (simp add: children_getParent [OF wf(2)])
    then show ?thesis using Suc.prems by simp
  qed
  have loop: "set ds \<subseteq> set (children_of ?m c) \<Longrightarrow>
      for_each (\<lambda>d. validateCell_n n (Some d) ?deep) ds (with_states k g) =
      Some (with_states (fold (\<lambda>d h. states_after h g ?deep d) ds k) g)" for ds k
    by (induction ds arbitrary: k) (simp_all add: Suc.IH [OF fuel])
  show ?case
  proof (cases "f c \<noteq> None \<and> \<not> ?now")
    case True
    have "f(c := None) = states_after f g visible c"
    proof
      fix x
      have start: "reached g c d \<Longrightarrow> isCellVisible (Some c) g" for d
        by (induction rule: reached.induct)
      have "left_over f g visible c x \<longleftrightarrow> x \<noteq> c" if "c \<in> set (ancestors ?m x)"
        unfolding left_over_def
        using True start that wf(1) ancestors_antisym [OF wf(1)] by (metis ancestors_self)
      then show "(f(c := None)) x = states_after f g visible c x"
        using True start [of x] wf(1) by (auto simp: states_after_def)
    qed
    moreover have "h = f" using True by (auto simp: h_def)
    moreover from True obtain s where "f c = Some s" by blast
    ultimately show ?thesis using True made_c by (simp add: Let_def del: fun_upd_apply)
  next
    case False
    then have "f c = None \<or> visible \<and> isCellVisible (Some c) g" by blast
    then have "fold (\<lambda>d h. states_after h g ?deep d) (children_of ?m c) h = states_after f g visible c"
      by (intro states_after_children [OF wf _ h_def _ made]) simp_all
    moreover have "\<not> (h c \<noteq> None \<and> \<not> ?now)" using False made by (auto simp: h_def)
    ultimately show ?thesis using made_c loop [of "children_of ?m c" h]
      by (auto simp: Let_def)
  qed
qed

end
