(* ===== verification/ViewPlaces.thy ===== *)
theory ViewPlaces
  imports ViewStates
begin

text \<open>
  Where the states of vertices stand: \<open>validateCellState\<close> of view/mxGraphView.js, on diagrams whose edges may
  be routed in any way.
\<close>

subsection \<open>Vertices with absolute geometries\<close>

text \<open>Cells that neither are edges nor stand on one, nor on a cell with a relative geometry.\<close>

definition plain :: "mxGraphModel \<Rightarrow> cref \<Rightarrow> bool" where
  "plain m c \<longleftrightarrow>
     (\<forall>a \<in> set (ancestors m c). \<not> cell_isEdge a m \<and> (\<forall>b. cell_getTerminal a b m = None) \<and>
        (\<forall>r. cell_getGeometry a m = Some r \<longrightarrow> \<not> g_relative (geo_at m r)))"

lemma plain_below: "heap_wf m \<Longrightarrow> plain m c \<Longrightarrow> a \<in> set (ancestors m c) \<Longrightarrow> plain m a"
  unfolding plain_def using ancestors_trans by blast

text \<open>The origin of a cell: the sum of the offsets up to the current root.\<close>

definition view_path :: "mxGraph \<Rightarrow> cref \<Rightarrow> cref list" where
  "view_path g c = takeWhile (\<lambda>a. Some a \<noteq> currentRoot (g_view g)) (ancestors (g_model g) c)"

definition view_origin :: "mxGraph \<Rightarrow> cref \<Rightarrow> mxPoint" where
  "view_origin g c =
     \<lparr>px = sum_list (map (offset_x (g_model g)) (view_path g c)),
      py = sum_list (map (offset_y (g_model g)) (view_path g c))\<rparr>"

definition placed :: "mxGraph \<Rightarrow> cref \<Rightarrow> mxCellState \<Rightarrow> bool" where
  "placed g c st \<longleftrightarrow>
     \<not> cs_invalid st \<and> cs_origin st = view_origin g c \<and>
     (\<forall>r. cell_getGeometry c (g_model g) = Some r \<and> Some c \<noteq> currentRoot (g_view g) \<longrightarrow>
        cs_bounds st =
          \<lparr>px = scale (g_view g) * (px (translate (g_view g)) + px (view_origin g c)),
           py = scale (g_view g) * (py (translate (g_view g)) + py (view_origin g c)),
           width = scale (g_view g) * width (geo_at (g_model g) r),
           height = scale (g_view g) * height (geo_at (g_model g) r)\<rparr>)"

definition numeric_label :: "style_obj \<Rightarrow> bool" where
  "numeric_label s \<longleftrightarrow> (case map_of s ''labelWidth'' of None \<Rightarrow> True | Some v \<Rightarrow> style_value_number v \<noteq> None)"

lemma label_dx_numeric:
  assumes "cs_style st = Some s" and "numeric_label s"
  shows "label_dx z st \<noteq> None"
  using assms by (auto simp: label_dx_def label_width_def numeric_label_def getValue_def Let_def split: option.splits)

lemma view_origin_parent:
  assumes "heap_wf (g_model g)" and "Some c \<noteq> currentRoot (g_view g)" and "cell_getParent c (g_model g) = Some p"
  shows "view_origin g c = point_move (offset_x (g_model g) c) (offset_y (g_model g) c) (view_origin g p)"
proof -
  have "ancestors (g_model g) c = c # ancestors (g_model g) p"
    by (subst ancestors_parent [OF assms(1)]) (simp add: assms(3))
  then show ?thesis using assms(2) by (simp add: view_origin_def view_path_def point_move_def add.commute)
qed

lemma view_origin_top:
  assumes "heap_wf (g_model g)"
  shows "Some c = currentRoot (g_view g) \<Longrightarrow> view_origin g c = \<lparr>px = 0, py = 0\<rparr>"
    and "Some c \<noteq> currentRoot (g_view g) \<Longrightarrow> cell_getParent c (g_model g) = None \<Longrightarrow>
      view_origin g c = \<lparr>px = offset_x (g_model g) c, py = offset_y (g_model g) c\<rparr>"
proof -
  have anc: "ancestors (g_model g) c = c # (case cell_getParent c (g_model g) of None \<Rightarrow> [] | Some p \<Rightarrow> ancestors (g_model g) p)"
    by (rule ancestors_parent [OF assms])
  show "Some c = currentRoot (g_view g) \<Longrightarrow> view_origin g c = \<lparr>px = 0, py = 0\<rparr>"
    using anc by (simp add: view_origin_def view_path_def)
  show "Some c \<noteq> currentRoot (g_view g) \<Longrightarrow> cell_getParent c (g_model g) = None \<Longrightarrow>
      view_origin g c = \<lparr>px = offset_x (g_model g) c, py = offset_y (g_model g) c\<rparr>"
    using anc by (simp add: view_origin_def view_path_def)
qed

lemma updateCachedBounds_total:
  assumes "scale v \<noteq> 0"
  obtains cb pb where "updateCachedBounds v st = Some (st\<lparr>cellBounds := cb, paintBounds := pb\<rparr>)"
  using assms by (auto simp: updateCachedBounds_def Let_def js_div_def)

lemma cell_origin_plain:
  assumes wf: "heap_wf (g_model g)" and c: "plain (g_model g) c" "Some c \<noteq> currentRoot (g_view g)"
    and parent: "\<And>p. cell_getParent c (g_model g) = Some p \<Longrightarrow> \<exists>ps. f p = Some ps \<and> placed g p ps"
  shows "\<exists>off. cell_origin c (shown_state (cell_getParent c (g_model g)) (with_states f g))
      (getCellGeometry (Some c) g) (with_states f g) = Some (view_origin g c, off)"
proof -
  have own: "\<not> cell_isEdge c (g_model g)"
    "\<And>r. cell_getGeometry c (g_model g) = Some r \<Longrightarrow> \<not> g_relative (geo_at (g_model g) r)"
    using c(1) wf by (auto simp: plain_def)
  let ?geo = "cell_getGeometry c (g_model g)"
  have geo: "getCellGeometry (Some c) g = map_option (geo_at (g_model g)) ?geo"
    by (simp add: getCellGeometry_def m_getGeometry_def)
  have zero: "new_mxPoint None None = \<lparr>px = 0, py = 0\<rparr>" by (simp add: new_mxPoint_def js_default_def)
  have offset: "offset_x (g_model g) c = (case ?geo of None \<Rightarrow> 0 | Some r \<Rightarrow> px (geo_at (g_model g) r))"
    "offset_y (g_model g) c = (case ?geo of None \<Rightarrow> 0 | Some r \<Rightarrow> py (geo_at (g_model g) r))"
    using own(1) by (simp_all add: offset_x_def offset_y_def)
  show ?thesis
  proof (cases "cell_getParent c (g_model g)")
    case None
    then show ?thesis
      using view_origin_top(2) [OF wf c(2) None] own offset
      by (cases ?geo) (simp_all add: cell_origin_def shown_state_def geo zero isEdge_def Let_def point_move_def)
  next
    case (Some p)
    then obtain ps where ps: "f p = Some ps" "placed g p ps" using parent by blast
    have base: "(if Some p \<noteq> currentRoot (g_view g) then cs_origin ps else \<lparr>px = 0, py = 0\<rparr>) = view_origin g p"
      using ps(2) view_origin_top(1) [OF wf, of p] by (simp add: placed_def)
    show ?thesis
      using view_origin_parent [OF wf c(2) Some] own offset base ps(1) Some view_origin_top(1) [OF wf, of p]
      by (cases ?geo) (simp_all add: cell_origin_def shown_state_def geo zero isEdge_def Let_def point_move_def
          split: if_splits)
  qed
qed

lemma place_state_plain:
  assumes wf: "heap_wf (g_model g)" and c: "plain (g_model g) c" "Some c \<noteq> currentRoot (g_view g)"
    and st: "cs_style st = Some s" "numeric_label s" "\<not> cs_invalid st"
    and parent: "\<And>p. cell_getParent c (g_model g) = Some p \<Longrightarrow> \<exists>ps. f p = Some ps \<and> placed g p ps"
  obtains st' where "place_state env c src trg st (with_states f g) = Some (st', with_states f g)"
    "placed g c st'" "cs_style st' = Some s"
proof -
  have own: "\<not> cell_isEdge c (g_model g)"
    "\<And>r. cell_getGeometry c (g_model g) = Some r \<Longrightarrow> \<not> g_relative (geo_at (g_model g) r)"
    using c(1) wf by (auto simp: plain_def)
  have geo: "getCellGeometry (Some c) h = map_option (geo_at (g_model h)) (cell_getGeometry c (g_model h))" for h
    by (simp add: getCellGeometry_def m_getGeometry_def)
  obtain off where origin: "cell_origin c (shown_state (cell_getParent c (g_model g)) (with_states f g))
      (map_option (geo_at (g_model g)) (cell_getGeometry c (g_model g))) (with_states f g) = Some (view_origin g c, off)"
    using cell_origin_plain [OF wf c parent] by (auto simp: geo)
  let ?st1 = "st\<lparr>cs_origin := view_origin g c, absoluteOffset := off\<rparr>"
  show thesis
  proof (cases "cell_getGeometry c (g_model g)")
    case None
    show thesis
      by (rule that [of ?st1]) (use None c(2) st origin in \<open>simp_all add: place_state_def geo placed_def Let_def\<close>)
  next
    case (Some r)
    let ?geo = "geo_at (g_model g) r"
    let ?st2 = "set_bounds ?geo (g_view g) ?st1"
    have st2: "cs_style ?st2 = Some s" "\<not> cs_invalid ?st2" "placed g c ?st2"
      using st Some by (simp_all add: set_bounds_def placed_def Let_def new_mxRectangle_def js_default_def)
    obtain dx where dx: "label_dx (scale (g_view g)) ?st2 = Some dx"
      using label_dx_numeric [OF st2(1) st(2)] by auto
    let ?st3 = "?st2\<lparr>absoluteOffset := point_move dx (label_dy ?st2) (absoluteOffset ?st2)\<rparr>"
    have "updateVertexState env c ?geo (with_states f g) ?st2 = Some ?st3"
      using own(2) [OF Some] dx
      by (simp add: updateVertexState_def updateVertexLabelOffset_def Let_def split: option.splits)
    moreover have "set_bounds ?geo (g_view (with_states f g)) ?st1 = ?st2"
      by (simp add: set_bounds_def Let_def)
    moreover have "placed g c ?st3" "cs_style ?st3 = Some s" using st2 by (simp_all add: placed_def)
    ultimately obtain st3 where
      "(if isVertex (Some c) (g_model g)
        then updateVertexState env c ?geo (with_states f g) (set_bounds ?geo (g_view (with_states f g)) ?st1)
        else Some (set_bounds ?geo (g_view (with_states f g)) ?st1)) = Some st3"
      "placed g c st3" "cs_style st3 = Some s"
      using st2 by (cases "isVertex (Some c) (g_model g)") simp_all
    then show thesis
      by (intro that [of st3]) (use Some origin own in \<open>simp_all add: place_state_def geo Let_def isEdge_def\<close>)
  qed
qed

lemma updateCellState_plain:
  assumes wf: "heap_wf (g_model g)" and c: "plain (g_model g) c" "f c \<noteq> None" "scale (g_view g) \<noteq> 0"
    and st: "cs_style st = Some s" "numeric_label s" "\<not> cs_invalid st"
    and parent: "\<And>p. Some c \<noteq> currentRoot (g_view g) \<Longrightarrow> cell_getParent c (g_model g) = Some p \<Longrightarrow>
      \<exists>ps. f p = Some ps \<and> placed g p ps"
  obtains st' where "updateCellState env c src trg st (with_states f g) =
      Some (st', with_states (f(c := Some st')) g)" "placed g c st'" "cs_style st' = Some s"
proof -
  let ?st0 = "st\<lparr>absoluteOffset := new_mxPoint None None, cs_origin := new_mxPoint None None, cs_length := 0\<rparr>"
  have st0: "cs_style ?st0 = Some s" "\<not> cs_invalid ?st0" using st by simp_all
  obtain st1 where core: "(if Some c = currentRoot (g_view (with_states f g)) then Some (?st0, with_states f g)
      else place_state env c src trg ?st0 (with_states f g)) = Some (st1, with_states f g)"
    and st1: "placed g c st1" "cs_style st1 = Some s"
  proof (cases "Some c = currentRoot (g_view g)")
    case True
    show thesis
      by (rule that [of ?st0]) (use True st view_origin_top(1) [OF wf True] in
        \<open>simp_all add: placed_def new_mxPoint_def js_default_def\<close>)
  next
    case False
    obtain st' where "place_state env c src trg ?st0 (with_states f g) = Some (st', with_states f g)"
      "placed g c st'" "cs_style st' = Some s"
      using place_state_plain [OF wf c(1) False st0(1) st(2) st0(2) parent [OF False]] by blast
    then show thesis by (intro that [of st']) (use False in simp_all)
  qed
  obtain cb pb where "updateCachedBounds (g_view (with_states f g)) st1 = Some (st1\<lparr>cellBounds := cb, paintBounds := pb\<rparr>)"
    using updateCachedBounds_total [of "g_view (with_states f g)"] c(3) by (metis with_states_simps(4))
  then have "updateCellState env c src trg st (with_states f g) =
      Some (st1\<lparr>cellBounds := cb, paintBounds := pb\<rparr>, with_states (f(c := Some (st1\<lparr>cellBounds := cb, paintBounds := pb\<rparr>))) g)"
    using c(2) unfolding updateCellState_def Let_def core by (auto simp: put_state_def)
  then show thesis by (rule that) (use st1 in \<open>simp_all add: placed_def\<close>)
qed

subsection \<open>Validating a vertex\<close>

definition good_at :: "mxGraph \<Rightarrow> (cref \<Rightarrow> mxCellState option) \<Rightarrow> cref \<Rightarrow> bool" where
  "good_at g f d \<longleftrightarrow>
     (\<forall>st. f d = Some st \<longrightarrow>
        (\<forall>s. cs_style st = Some s \<longrightarrow> numeric_label s) \<and> (cs_invalid st \<or> cs_style st \<noteq> None \<and> placed g d st))"

definition closed_at :: "mxGraph \<Rightarrow> (cref \<Rightarrow> mxCellState option) \<Rightarrow> cref \<Rightarrow> bool" where
  "closed_at g f d \<longleftrightarrow>
     (\<forall>p. f d \<noteq> None \<and> Some d \<noteq> currentRoot (g_view g) \<and> cell_getParent d (g_model g) = Some p \<longrightarrow> f p \<noteq> None)"

definition valid_at :: "(cref \<Rightarrow> mxCellState option) \<Rightarrow> cref \<Rightarrow> bool" where
  "valid_at f d \<longleftrightarrow> (\<exists>st. f d = Some st \<and> \<not> cs_invalid st)"

definition labels_ok :: "mxGraph \<Rightarrow> bool" where
  "labels_ok g \<longleftrightarrow>
     (\<forall>c. plain (g_model g) c \<longrightarrow> (\<exists>s. graph_getCellStyle (Some c) g = Some s \<and> numeric_label s))"

text \<open>What validation does to the vertices it looks at.\<close>

definition advances :: "mxGraph \<Rightarrow> cref set \<Rightarrow> (cref \<Rightarrow> mxCellState option) \<Rightarrow> (cref \<Rightarrow> mxCellState option) \<Rightarrow> bool" where
  "advances g D f f' \<longleftrightarrow>
     (\<forall>d \<in> D. good_at g f' d \<and> (f' d = None \<longleftrightarrow> f d = None) \<and> (valid_at f d \<longrightarrow> f' d = f d))"

lemma advances_refl: "(\<And>d. d \<in> D \<Longrightarrow> good_at g f d) \<Longrightarrow> advances g D f f"
  by (simp add: advances_def)

lemma advances_trans: "advances g D f f' \<Longrightarrow> advances g D f' f'' \<Longrightarrow> advances g D f f''"
  unfolding advances_def valid_at_def by metis

lemma advances_valid: "advances g D f f' \<Longrightarrow> d \<in> D \<Longrightarrow> valid_at f d \<Longrightarrow> valid_at f' d"
  unfolding advances_def valid_at_def by metis

lemma shown_with [simp]: "shown_state cell (with_states f g) = (case cell of None \<Rightarrow> None | Some c \<Rightarrow> map_option (Pair c) (f c))"
  by (cases cell) (simp_all add: shown_state_def)

lemma validate_nothing [simp]: "validateCellState_n n env None r g = Some (None, g)"
  "f c = None \<Longrightarrow> validateCellState_n n env (Some c) r (with_states f g) = Some (None, with_states f g)"
  by (simp_all add: validateCellState_n.simps shown_state_def)

lemma no_visible_terminal: "cell_getTerminal c b (g_model g) = None \<Longrightarrow> view_getVisibleTerminal c b g = Some None"
  by (simp add: view_getVisibleTerminal_def Let_def)

lemma validate_vertex:
  assumes wf: "heap_wf (g_model g)" and view: "scale (g_view g) \<noteq> 0" "labels_ok g"
  shows "plain (g_model g) c \<Longrightarrow> f c \<noteq> None \<Longrightarrow> length (ancestors (g_model g) c) \<le> n \<Longrightarrow>
    (\<And>d. d \<in> set (ancestors (g_model g) c) \<Longrightarrow> good_at g f d \<and> closed_at g f d) \<Longrightarrow>
    \<exists>f' st. validateCellState_n n env (Some c) False (with_states f g) = Some (Some (c, st), with_states f' g) \<and>
      f' c = Some st \<and> placed g c st \<and> (\<forall>d. d \<notin> set (ancestors (g_model g) c) \<longrightarrow> f' d = f d) \<and>
      advances g (set (ancestors (g_model g) c)) f f'"
  using wf
proof (induction c arbitrary: f n rule: heap_wf_induct)
  case (up c)
  let ?m = "g_model g"
  note prems = up.prems
  have self: "c \<in> set (ancestors ?m c)" using wf by simp
  obtain st where st: "f c = Some st" using prems(2) by blast
  obtain k where n: "n = Suc k" using prems(3) wf by (cases n) auto
  have good: "good_at g f c" using prems(4) [OF self] ..
  show ?case
  proof (cases "cs_invalid st")
    case False
    then have "placed g c st" using good st by (simp add: good_at_def)
    moreover have "validateCellState_n n env (Some c) False (with_states f g) = Some (Some (c, st), with_states f g)"
      using False by (simp add: n validateCellState_n.simps st current_state_def)
    ultimately show ?thesis
      using st prems(4) advances_refl [of "set (ancestors ?m c)" g f] by blast
  next
    case True
    obtain s where s: "(case cs_style st of Some s \<Rightarrow> Some s | None \<Rightarrow> graph_getCellStyle (Some c) (with_states f g)) = Some s"
      "numeric_label s"
      using good st view(2) prems(1) by (cases "cs_style st") (auto simp: good_at_def labels_ok_def)
    define st0 where "st0 = st\<lparr>cs_invalid := False, cs_style := Some s\<rparr>"
    define f0 where "f0 = f(c := Some st0)"
    have up_one: "\<exists>f2. (if Some c \<noteq> currentRoot (g_view g)
          then map_option snd (validateCellState_n k env (cell_getParent c ?m) False (with_states f0 g))
          else Some (with_states f0 g)) = Some (with_states f2 g) \<and> f2 c = Some st0 \<and>
        (\<forall>d. d \<notin> set (ancestors ?m c) \<longrightarrow> f2 d = f d) \<and> advances g (set (ancestors ?m c) - {c}) f f2 \<and>
        (\<forall>p. Some c \<noteq> currentRoot (g_view g) \<longrightarrow> cell_getParent c ?m = Some p \<longrightarrow> (\<exists>ps. f2 p = Some ps \<and> placed g p ps))"
    proof (cases "Some c = currentRoot (g_view g) \<or> cell_getParent c ?m = None")
      case top: True
      then have "advances g (set (ancestors ?m c) - {c}) f f0"
        using prems(4) by (auto simp: advances_def f0_def good_at_def)
      with top show ?thesis
        using self by (intro exI [of _ f0]) (auto simp: f0_def)
    next
      case False
      then obtain p where p: "cell_getParent c ?m = Some p" "Some c \<noteq> currentRoot (g_view g)" by auto
      have anc: "ancestors ?m c = c # ancestors ?m p" by (subst ancestors_parent [OF wf]) (simp add: p(1))
      have notin: "c \<notin> set (ancestors ?m p)" by (rule not_above_parent [OF wf p(1)])
      then have same: "f0 d = f d" if "d \<in> set (ancestors ?m p)" for d using that by (auto simp: f0_def)
      have "f p \<noteq> None" using prems(4) [OF self] prems(2) p by (simp add: closed_at_def)
      moreover have "good_at g f0 d \<and> closed_at g f0 d" if "d \<in> set (ancestors ?m p)" for d
        using prems(4) [of d] that same [OF that] by (auto simp: anc good_at_def closed_at_def f0_def)
      ultimately obtain f2 ps where f2: "validateCellState_n k env (Some p) False (with_states f0 g) =
          Some (Some (p, ps), with_states f2 g)" "f2 p = Some ps" "placed g p ps"
          "\<forall>d. d \<notin> set (ancestors ?m p) \<longrightarrow> f2 d = f0 d" "advances g (set (ancestors ?m p)) f0 f2"
        using up.IH [OF p(1), of f0 k] plain_below [OF wf prems(1), of p] prems(3) same [of p] n wf
        by (auto simp: anc)
      have "advances g (set (ancestors ?m c) - {c}) f f2"
        using f2(5) same notin by (auto simp: advances_def anc valid_at_def)
      with f2 p notin show ?thesis
        by (intro exI [of _ f2]) (auto simp: anc f0_def)
    qed
    then obtain f2 where f2: "(if Some c \<noteq> currentRoot (g_view g)
          then map_option snd (validateCellState_n k env (cell_getParent c ?m) False (with_states f0 g))
          else Some (with_states f0 g)) = Some (with_states f2 g)" "f2 c = Some st0"
      "\<forall>d. d \<notin> set (ancestors ?m c) \<longrightarrow> f2 d = f d" "advances g (set (ancestors ?m c) - {c}) f f2"
      "\<And>p. Some c \<noteq> currentRoot (g_view g) \<Longrightarrow> cell_getParent c ?m = Some p \<Longrightarrow> \<exists>ps. f2 p = Some ps \<and> placed g p ps"
      by blast
    have loose: "view_getVisibleTerminal c b (with_states h g) = Some None" for b h
      using prems(1) self by (intro no_visible_terminal) (auto simp: plain_def)
    define st1 where "st1 = st0\<lparr>visibleSource := None, visibleTarget := None\<rparr>"
    have st1: "cs_style st1 = Some s" "\<not> cs_invalid st1" by (simp_all add: st1_def st0_def)
    define f3 where "f3 = f2(c := Some st1)"
    have parent3: "\<exists>ps. f3 p = Some ps \<and> placed g p ps"
      if "Some c \<noteq> currentRoot (g_view g)" "cell_getParent c ?m = Some p" for p
      using f2(5) [OF that] not_above_parent [OF wf that(2)] wf by (auto simp: f3_def)
    obtain st2 where st2: "updateCellState env c None None st1 (with_states f3 g) =
        Some (st2, with_states (f3(c := Some st2)) g)" "placed g c st2" "cs_style st2 = Some s"
    proof (rule updateCellState_plain [of g c f3 st1 s env None None])
      show "f3 c \<noteq> None" by (simp add: f3_def)
    qed (use wf prems(1) view(1) st1 s(2) parent3 in blast)+
    have st0': "set_state c (Some (st\<lparr>cs_invalid := False, cs_style := Some s\<rparr>)) (with_states f g) = with_states f0 g"
      by (simp add: st0_def f0_def)
    have "refresh_state (\<lambda>d. validateCellState_n k env d False) env c st (with_states f g) =
        Some (st2, with_states (f3(c := Some st2)) g)"
      unfolding refresh_state_def s(1)
      by (simp only: Let_def Option.bind.simps st0' with_states_simps(1,3) f2(1))
        (simp add: loose validate_end_def Let_def current_state_def cs_setVisibleTerminal_def put_state_def current_shown_def f2(2)
          st1_def [symmetric] f3_def [symmetric] st2(1) fun_upd_same del: fun_upd_apply)
    moreover have "f3(c := Some st2) = f2(c := Some st2)" by (simp add: f3_def)
    ultimately have "validateCellState_n n env (Some c) False (with_states f g) =
        Some (Some (c, st2), with_states (f2(c := Some st2)) g)"
      using True by (simp add: n validateCellState_n.simps st current_state_def)
    moreover have "advances g (set (ancestors ?m c)) f (f2(c := Some st2))"
      using f2(4) st2 s True st by (auto simp: advances_def good_at_def valid_at_def)
    moreover have "\<forall>d. d \<notin> set (ancestors ?m c) \<longrightarrow> (f2(c := Some st2)) d = f d" using f2(3) self by auto
    moreover have "(f2(c := Some st2)) c = Some st2" by simp
    ultimately show ?thesis using st2(2) by blast
  qed
qed

subsection \<open>Edges leave vertices alone\<close>

lemma for_each_inv_in:
  "for_each f xs s = Some s' \<Longrightarrow> P s \<Longrightarrow> (\<And>x s s'. x \<in> set xs \<Longrightarrow> P s \<Longrightarrow> f x s = Some s' \<Longrightarrow> P s') \<Longrightarrow> P s'"
proof (induction xs arbitrary: s)
  case (Cons x xs)
  from Cons.prems(1) obtain s1 where s1: "f x s = Some s1" "for_each f xs s1 = Some s'" by (auto split: option.splits)
  have "P s1" by (rule Cons.prems(3) [OF _ Cons.prems(2) s1(1)]) simp
  show ?case
    by (rule Cons.IH [OF s1(2) \<open>P s1\<close> Cons.prems(3) [OF list.set_intros(2)]]) assumption+
qed simp

text \<open>Only states at or below a cell differ, and none is new.\<close>

definition differs_below :: "mxGraph \<Rightarrow> cref \<Rightarrow> (cref \<Rightarrow> mxCellState option) \<Rightarrow> mxGraph \<Rightarrow> bool" where
  "differs_below g c f g' \<longleftrightarrow>
     (\<exists>f'. g' = with_states f' g \<and> (\<forall>d. c \<notin> set (ancestors (g_model g) d) \<longrightarrow> f' d = f d) \<and>
        (\<forall>d. f d = None \<longrightarrow> f' d = None))"

lemma clear_below:
  assumes wf: "heap_wf (g_model g)" "tree_inv (g_model g)"
  shows "clear_n n (Some c) True True (with_states f g) = Some g' \<Longrightarrow> differs_below g c f g'"
proof (induction n arbitrary: c f g')
  case 0
  then show ?case by (simp add: clear_n.simps)
next
  case (Suc n)
  let ?m = "g_model g"
  from Suc.prems have loop: "for_each (\<lambda>d. clear_n n (Some d) True True) (children_of ?m c) (with_states (f(c := None)) g) = Some g'"
    by (simp add: clear_n.simps [of "Suc n"])
  show ?case
  proof (rule for_each_inv_in [OF loop])
    show "differs_below g c f (with_states (f(c := None)) g)"
      using wf(1) by (auto simp: differs_below_def intro!: exI [of _ "f(c := None)"])
  next
    fix d s s' assume d: "d \<in> set (children_of ?m c)" "differs_below g c f s" "clear_n n (Some d) True True s = Some s'"
    then obtain f1 where f1: "s = with_states f1 g" "\<forall>x. c \<notin> set (ancestors ?m x) \<longrightarrow> f1 x = f x"
      "\<forall>x. f x = None \<longrightarrow> f1 x = None"
      by (auto simp: differs_below_def)
    have par: "cell_getParent d ?m = Some c" using d(1) by (simp add: children_getParent [OF wf(2)])
    have "c \<in> set (ancestors ?m d)" using set_ancestors [OF wf(1) par] wf(1) by simp
    then show "differs_below g c f s'"
      using Suc.IH [of d f1 s'] d(3) f1 ancestors_trans [OF wf(1)] unfolding differs_below_def by metis
  qed
qed

lemma view_clear_below:
  assumes "heap_wf (g_model g)" "tree_inv (g_model g)" and "view_clear (Some c) (Some True) None (with_states f g) = Some g'"
  shows "differs_below g c f g'"
  using clear_below [OF assms(1,2)] assms(3) by (simp add: view_clear_def or_root_def)

lemma differs_below_refl: "differs_below g c f (with_states f g)"
  by (auto simp: differs_below_def)

lemma differs_below_put:
  assumes "heap_wf (g_model g)" and "differs_below g c f g'"
  shows "differs_below g c f (put_state c st g')"
proof -
  from assms(2) obtain f' where "g' = with_states f' g" "\<forall>d. c \<notin> set (ancestors (g_model g) d) \<longrightarrow> f' d = f d"
    "\<forall>d. f d = None \<longrightarrow> f' d = None"
    by (auto simp: differs_below_def)
  moreover have "put_state c st (with_states f' g) = with_states (if f' c = None then f' else f'(c := Some st)) g"
    by (simp add: put_state_def)
  ultimately show ?thesis using assms(1) unfolding differs_below_def
    by (intro exI [of _ "if f' c = None then f' else f'(c := Some st)"]) auto
qed

lemma differs_below_trans:
  "differs_below g c f (with_states f1 g) \<Longrightarrow> differs_below g c f1 g' \<Longrightarrow> differs_below g c f g'"
proof -
  assume a: "differs_below g c f (with_states f1 g)" and b: "differs_below g c f1 g'"
  from a obtain f2 where f2: "with_states f1 g = with_states f2 g" "\<forall>d. c \<notin> set (ancestors (g_model g) d) \<longrightarrow> f2 d = f d"
    "\<forall>d. f d = None \<longrightarrow> f2 d = None"
    by (auto simp: differs_below_def)
  have "f1 = f2" using f2(1) by (metis with_states_simps(2))
  with f2 have "\<forall>d. c \<notin> set (ancestors (g_model g) d) \<longrightarrow> f1 d = f d" "\<forall>d. f d = None \<longrightarrow> f1 d = None" by auto
  with b show ?thesis unfolding differs_below_def by metis
qed

lemma updateEdgeState_below:
  assumes wf: "heap_wf (g_model g)" "tree_inv (g_model g)"
    and "updateEdgeState env c geo src trg st (with_states f g) = Some (st', g')"
  shows "differs_below g c f g'"
  using assms(3) view_clear_below [OF wf, of c f] differs_below_refl [of g c f]
  by (auto simp: updateEdgeState_def Let_def bind_eq_Some_conv split: if_splits)

lemma place_state_below:
  assumes wf: "heap_wf (g_model g)" "tree_inv (g_model g)"
    and "place_state env c src trg st (with_states f g) = Some (st', g')"
  shows "differs_below g c f g'"
proof -
  have edge: "differs_below g c f g'"
    if "updateEdgeState env c geo src trg st1 (put_state c st1 (with_states f g)) = Some (st', g')" for geo st1
  proof (cases "f c = None")
    case True
    then have "put_state c st1 (with_states f g) = with_states f g" by (simp add: put_state_def)
    then show ?thesis using that updateEdgeState_below [OF wf] by simp
  next
    case False
    then have put: "put_state c st1 (with_states f g) = with_states (f(c := Some st1)) g" by (auto simp: put_state_def)
    have "differs_below g c f (with_states (f(c := Some st1)) g)"
      using differs_below_put [OF wf(1) differs_below_refl, of c f st1] put by simp
    then show ?thesis
      using that updateEdgeState_below [OF wf] differs_below_trans unfolding put by blast
  qed
  show ?thesis
    using assms(3) differs_below_refl [of g c f]
    by (auto simp: place_state_def Let_def bind_eq_Some_conv split: if_splits option.splits intro: edge)
qed

lemma updateCellState_below:
  assumes wf: "heap_wf (g_model g)" "tree_inv (g_model g)"
    and "updateCellState env c src trg st (with_states f g) = Some (st', g')"
  shows "differs_below g c f g'"
proof -
  from assms(3) obtain st1 g1 where 1: "(if Some c = currentRoot (g_view g)
        then Some (st\<lparr>absoluteOffset := new_mxPoint None None, cs_origin := new_mxPoint None None, cs_length := 0\<rparr>, with_states f g)
        else place_state env c src trg (st\<lparr>absoluteOffset := new_mxPoint None None, cs_origin := new_mxPoint None None, cs_length := 0\<rparr>)
          (with_states f g)) = Some (st1, g1)" "g' = put_state c st' g1"
    by (auto simp: updateCellState_def Let_def bind_eq_Some_conv)
  then have "differs_below g c f g1"
    using place_state_below [OF wf] differs_below_refl by (auto split: if_splits)
  then show "differs_below g c f g'" using differs_below_put [OF wf(1)] 1(2) by blast
qed

lemma put_state_at: "states (g_view (put_state c st g)) c = None \<or> states (g_view (put_state c st g)) c = Some st"
  by (simp add: put_state_def set_state_def)

lemma updateCellState_put:
  assumes "updateCellState env c src trg st g = Some (st', g')"
  shows "states (g_view g') c = None \<or> states (g_view g') c = Some st'"
proof -
  from assms obtain g1 where "g' = put_state c st' g1"
    by (auto simp: updateCellState_def Let_def bind_eq_Some_conv)
  then show ?thesis by (simp only: put_state_at)
qed

end
