(* ===== verification/ViewValid.thy ===== *)
theory ViewValid
  imports ViewPlaces
begin

text \<open>
  Validation of any state, view/mxGraphView.js: what \<open>validateCellState\<close> keeps, which states are valid when it
  returns, and that it returns on vertices.
\<close>

subsection \<open>More fuel, the same result\<close>

lemma for_each_mono:
  assumes "for_each f xs s = Some s'" and "\<And>x s s'. f x s = Some s' \<Longrightarrow> h x s = Some s'"
  shows "for_each h xs s = Some s'"
  using assms(1) by (induction xs arbitrary: s) (auto split: option.splits dest: assms(2))

lemma validate_end_mono:
  assumes "validate_end v c source st g = Some r" and "\<And>d g r. v d g = Some r \<Longrightarrow> w d g = Some r"
  shows "validate_end w c source st g = Some r"
  using assms(1) by (auto simp: validate_end_def bind_eq_Some_conv dest: assms(2))

lemma set_state_reads [simp]:
  "g_model (set_state c st g) = g_model g" "currentRoot (g_view (set_state c st g)) = currentRoot (g_view g)"
  by (simp_all add: set_state_def)

lemma refresh_stateE:
  assumes "refresh_state v env c st g = Some r"
  obtains s g1 src st1 g2 trg st2 g3 where
    "(case cs_style st of Some s \<Rightarrow> Some s | None \<Rightarrow> graph_getCellStyle (Some c) g) = Some s"
    "(if Some c \<noteq> currentRoot (g_view g)
     then map_option snd (v (cell_getParent c (g_model g)) (set_state c (Some (st\<lparr>cs_invalid := False, cs_style := Some s\<rparr>)) g))
     else Some (set_state c (Some (st\<lparr>cs_invalid := False, cs_style := Some s\<rparr>)) g)) = Some g1"
    "validate_end v c True (st\<lparr>cs_invalid := False, cs_style := Some s\<rparr>) g1 = Some (src, st1, g2)"
    "validate_end v c False st1 g2 = Some (trg, st2, g3)"
    "updateCellState env c (current_shown src g3) (current_shown trg g3) st2 g3 = Some r"
  using assms unfolding refresh_state_def Let_def bind_eq_Some_conv set_state_reads
  by (auto simp only: prod.case split_paired_Ex bind_eq_Some_conv)

lemma refresh_state_mono:
  assumes "refresh_state v env c st g = Some r" and w: "\<And>d g r. v d g = Some r \<Longrightarrow> w d g = Some r"
  shows "refresh_state w env c st g = Some r"
proof -
  have parent: "(if b then map_option snd (w d h) else Some h) = Some k"
    if "(if b then map_option snd (v d h) else Some h) = Some k" for b d h k
    using that by (auto split: if_splits dest: w)
  note ends = validate_end_mono [of v _ _ _ _ _ w, OF _ w]
  from assms(1) obtain s g1 src st1 g2 trg st2 g3 where
    "(case cs_style st of Some s \<Rightarrow> Some s | None \<Rightarrow> graph_getCellStyle (Some c) g) = Some s" and
    1: "(if Some c \<noteq> currentRoot (g_view g)
     then map_option snd (v (cell_getParent c (g_model g)) (set_state c (Some (st\<lparr>cs_invalid := False, cs_style := Some s\<rparr>)) g))
     else Some (set_state c (Some (st\<lparr>cs_invalid := False, cs_style := Some s\<rparr>)) g)) = Some g1"
    "validate_end v c True (st\<lparr>cs_invalid := False, cs_style := Some s\<rparr>) g1 = Some (src, st1, g2)"
    "validate_end v c False st1 g2 = Some (trg, st2, g3)"
    "updateCellState env c (current_shown src g3) (current_shown trg g3) st2 g3 = Some r"
    by (rule refresh_stateE)
  then show ?thesis
    unfolding refresh_state_def Let_def set_state_reads
    by (simp only: Option.bind.simps parent [OF 1(1)] ends [OF 1(2)] ends [OF 1(3)] prod.case)
qed

lemma validate_more_fuel:
  "validateCellState_n n env cell recurse g = Some r \<Longrightarrow> validateCellState_n (Suc n) env cell recurse g = Some r"
proof (induction n arbitrary: cell recurse g r)
  case 0
  then show ?case by (subst validateCellState_n.simps) (auto simp: validateCellState_n.simps [of 0] split: option.splits)
next
  case (Suc k)
  show ?case
  proof (cases "shown_state cell g")
    case None
    then show ?thesis using Suc.prems by (simp add: validateCellState_n.simps)
  next
    case (Some sh)
    obtain c st where sh: "sh = (c, st)" by (cases sh)
    from Suc.prems obtain st1 g1 g2 where
      1: "(if cs_invalid st then refresh_state (\<lambda>d. validateCellState_n k env d False) env c st g else Some (st, g)) = Some (st1, g1)" and
      2: "(if recurse \<and> \<not> cs_invalid st1
           then for_each (\<lambda>d g. map_option snd (validateCellState_n k env (Some d) True g)) (children_of (g_model g1) c) g1
           else Some g1) = Some g2" and r: "r = (Some (c, current_state c st1 g2), g2)"
      by (auto simp: validateCellState_n.simps [of "Suc k"] Some sh bind_eq_Some_conv)
    have 1: "(if cs_invalid st then refresh_state (\<lambda>d. validateCellState_n (Suc k) env d False) env c st g else Some (st, g)) = Some (st1, g1)"
      using 1 by (auto split: if_splits elim!: refresh_state_mono dest: Suc.IH)
    have 2: "(if recurse \<and> \<not> cs_invalid st1
           then for_each (\<lambda>d g. map_option snd (validateCellState_n (Suc k) env (Some d) True g)) (children_of (g_model g1) c) g1
           else Some g1) = Some g2"
      using 2 by (auto split: if_splits elim!: for_each_mono dest: Suc.IH)
    show ?thesis
      by (subst validateCellState_n.simps) (simp add: Some sh 1 2 r)
  qed
qed

lemma validate_fuel_le:
  assumes "validateCellState_n n env cell recurse g = Some r" and "n \<le> k"
  shows "validateCellState_n k env cell recurse g = Some r"
  using assms(2,1) by (induction rule: dec_induct) (simp_all add: validate_more_fuel)

subsection \<open>Validating any state\<close>

definition vertices :: "mxGraph \<Rightarrow> cref set" where
  "vertices g = {d. plain (g_model g) d}"

definition view_inv :: "mxGraph \<Rightarrow> (cref \<Rightarrow> mxCellState option) \<Rightarrow> bool" where
  "view_inv g f \<longleftrightarrow> (\<forall>d \<in> vertices g. good_at g f d \<and> closed_at g f d)"

definition keeps :: "mxGraph \<Rightarrow> (cref \<Rightarrow> mxCellState option) \<Rightarrow> mxGraph \<Rightarrow> bool" where
  "keeps g f g' \<longleftrightarrow> (\<exists>f'. g' = with_states f' g \<and> advances g (vertices g) f f' \<and> (\<forall>d. f d = None \<longrightarrow> f' d = None))"

lemma view_inv_advances:
  assumes "heap_wf (g_model g)" and "view_inv g f" and "advances g (vertices g) f f'"
  shows "view_inv g f'"
  unfolding view_inv_def
proof
  fix d assume d: "d \<in> vertices g"
  have parent: "f' p \<noteq> None" if p: "f' d \<noteq> None" "Some d \<noteq> currentRoot (g_view g)" "cell_getParent d (g_model g) = Some p" for p
  proof -
    have "p \<in> vertices g"
      using d plain_below [OF assms(1), of d p] set_ancestors [OF assms(1) p(3)] assms(1) by (simp add: vertices_def)
    have "f d \<noteq> None" using assms(3) d p(1) by (simp add: advances_def)
    then have "f p \<noteq> None" using assms(2) d p(2,3) by (simp add: view_inv_def closed_at_def)
    then show ?thesis using assms(3) \<open>p \<in> vertices g\<close> by (simp add: advances_def)
  qed
  then show "good_at g f' d \<and> closed_at g f' d"
    using assms(3) d parent unfolding closed_at_def advances_def by blast
qed

lemma keeps_same:
  "view_inv g f \<Longrightarrow> (\<And>d. d \<in> vertices g \<Longrightarrow> f' d = f d) \<Longrightarrow> (\<And>d. f d = None \<Longrightarrow> f' d = None) \<Longrightarrow>
   keeps g f (with_states f' g)"
  unfolding keeps_def by (intro exI [of _ f']) (auto simp: advances_def view_inv_def good_at_def)

lemma keeps_trans: "keeps g f (with_states f1 g) \<Longrightarrow> keeps g f1 g' \<Longrightarrow> keeps g f g'"
proof -
  assume a: "keeps g f (with_states f1 g)" and b: "keeps g f1 g'"
  from a obtain f2 where f2: "with_states f1 g = with_states f2 g" "advances g (vertices g) f f2" "\<forall>d. f d = None \<longrightarrow> f2 d = None"
    by (auto simp: keeps_def)
  have "f1 = f2" using f2(1) by (metis with_states_simps(2))
  with f2 have "advances g (vertices g) f f1" "\<forall>d. f d = None \<longrightarrow> f1 d = None" by auto
  with b show ?thesis unfolding keeps_def using advances_trans by blast
qed

lemma keepsE:
  assumes "keeps g f g'" and "heap_wf (g_model g)" and "view_inv g f"
  obtains f' where "g' = with_states f' g" "view_inv g f'" "advances g (vertices g) f f'" "\<forall>d. f d = None \<longrightarrow> f' d = None"
  using assms view_inv_advances unfolding keeps_def by blast

lemma not_plain_below: "heap_wf (g_model g) \<Longrightarrow> c \<notin> vertices g \<Longrightarrow> d \<in> vertices g \<Longrightarrow> c \<notin> set (ancestors (g_model g) d)"
  unfolding vertices_def using plain_below by blast

lemma keeps_below:
  assumes "heap_wf (g_model g)" and "view_inv g f" and "c \<notin> vertices g" and "differs_below g c f g'"
  shows "keeps g f g'"
  using assms(4) keeps_same [OF assms(2)] not_plain_below [OF assms(1,3)] unfolding differs_below_def by metis

lemma keeps_put:
  assumes "heap_wf (g_model g)" and "view_inv g f" and "c \<notin> vertices g"
  shows "keeps g f (put_state c st (with_states f g))"
  by (rule keeps_below [OF assms differs_below_put [OF assms(1) differs_below_refl]])

lemma validate_end_keeps:
  assumes wf: "heap_wf (g_model g)" and "c \<notin> vertices g" and "view_inv g f"
    and v: "\<And>d f sh g'. view_inv g f \<Longrightarrow> v d (with_states f g) = Some (sh, g') \<Longrightarrow> keeps g f g'"
    and "validate_end v c source st (with_states f g) = Some (sh, st', g')"
  shows "keeps g f g'"
proof -
  from assms(5) obtain t g1 where 1: "v t (with_states f g) = Some (sh, g1)" "g' = put_state c st' g1"
    by (auto simp: validate_end_def bind_eq_Some_conv Let_def)
  have k1: "keeps g f g1" by (rule v [OF assms(3) 1(1)])
  obtain f1 where f1: "g1 = with_states f1 g" "view_inv g f1" by (rule keepsE [OF k1 wf assms(3)])
  show ?thesis using keeps_trans [of g f f1] k1 f1 keeps_put [OF wf f1(2) assms(2)] 1(2) by simp
qed

lemma refresh_other:
  assumes wf: "heap_wf (g_model g)" "tree_inv (g_model g)" and c: "c \<notin> vertices g" and inv: "view_inv g f"
    and v: "\<And>d f sh g'. view_inv g f \<Longrightarrow> v d (with_states f g) = Some (sh, g') \<Longrightarrow> keeps g f g'"
    and "refresh_state v env c st (with_states f g) = Some (st', g')" and f: "f c \<noteq> None"
  shows "keeps g f g'"
proof -
  obtain s g1 src st1 g2 trg st2 g3 where
    1: "(if Some c \<noteq> currentRoot (g_view g)
         then map_option snd (v (cell_getParent c (g_model g)) (with_states (f(c := Some (st\<lparr>cs_invalid := False, cs_style := Some s\<rparr>))) g))
         else Some (with_states (f(c := Some (st\<lparr>cs_invalid := False, cs_style := Some s\<rparr>))) g)) = Some g1"
    "validate_end v c True (st\<lparr>cs_invalid := False, cs_style := Some s\<rparr>) g1 = Some (src, st1, g2)"
    "validate_end v c False st1 g2 = Some (trg, st2, g3)"
    "updateCellState env c (current_shown src g3) (current_shown trg g3) st2 g3 = Some (st', g')"
    by (rule refresh_stateE [OF assms(6)], unfold with_states_simps)
  let ?st0 = "st\<lparr>cs_invalid := False, cs_style := Some s\<rparr>"
  let ?f0 = "f(c := Some ?st0)"
  have k0: "keeps g f (with_states ?f0 g)" by (rule keeps_same [OF inv]) (use c f in auto)
  obtain f0' where "with_states ?f0 g = with_states f0' g" "view_inv g f0'" by (rule keepsE [OF k0 wf(1) inv])
  then have i0: "view_inv g ?f0" by (metis with_states_simps(2))
  have "keeps g ?f0 g1"
    using 1(1) v [OF i0] keeps_same [OF i0] by (auto split: if_splits)
  then obtain f1 where f1: "g1 = with_states f1 g" "view_inv g f1" "keeps g ?f0 g1"
    using keepsE [OF _ wf(1) i0] by metis
  have "keeps g f1 g2" by (rule validate_end_keeps [OF wf(1) c f1(2) v 1(2) [unfolded f1(1)]]) assumption+
  then obtain f2 where f2: "g2 = with_states f2 g" "view_inv g f2" "keeps g f1 g2"
    using keepsE [OF _ wf(1) f1(2)] by metis
  have "keeps g f2 g3" by (rule validate_end_keeps [OF wf(1) c f2(2) v 1(3) [unfolded f2(1)]]) assumption+
  then obtain f3 where f3: "g3 = with_states f3 g" "view_inv g f3" "keeps g f2 g3"
    using keepsE [OF _ wf(1) f2(2)] by metis
  have "keeps g f3 g'"
    by (rule keeps_below [OF wf(1) f3(2) c updateCellState_below [OF wf 1(4) [unfolded f3(1)]]])
  then show ?thesis
    using k0 f1 f2 f3 keeps_trans by metis
qed

lemma refresh_vertex:
  assumes wf: "heap_wf (g_model g)" "tree_inv (g_model g)" and view: "scale (g_view g) \<noteq> 0" "labels_ok g"
    and c: "c \<in> vertices g" and inv: "view_inv g f" and st: "f c = Some st" "cs_invalid st"
    and "refresh_state (\<lambda>d. validateCellState_n k env d False) env c st (with_states f g) = Some (st', g')"
  shows "keeps g f g' \<and> \<not> cs_invalid st' \<and> (\<exists>st. states (g_view g') c = Some st \<and> \<not> cs_invalid st)"
proof -
  let ?m = "g_model g"
  have val: "validateCellState_n (Suc k) env (Some c) False (with_states f g) = Some (Some (c, current_state c st' g'), g')"
    using st assms(9) by (simp add: validateCellState_n.simps)
  let ?n = "max (Suc k) (length (ancestors ?m c))"
  have anc: "a \<in> vertices g" if "a \<in> set (ancestors ?m c)" for a
    using c that plain_below [OF wf(1)] by (simp add: vertices_def)
  obtain f' st1 where f': "validateCellState_n ?n env (Some c) False (with_states f g) = Some (Some (c, st1), with_states f' g)"
    "f' c = Some st1" "placed g c st1" "\<forall>d. d \<notin> set (ancestors ?m c) \<longrightarrow> f' d = f d"
    "advances g (set (ancestors ?m c)) f f'"
    using validate_vertex [OF wf(1) view, of c f ?n env] c st(1) inv anc by (auto simp: vertices_def view_inv_def)
  have g': "g' = with_states f' g" using validate_fuel_le [OF val, of ?n] f'(1) by simp
  have "states (g_view g') c = None \<or> states (g_view g') c = Some st'"
    by (rule refresh_stateE [OF assms(9)]) (rule updateCellState_put)
  then have "st' = st1" using g' f'(2) by simp
  moreover have "advances g (vertices g) f f'"
    using f'(4,5) inv unfolding advances_def view_inv_def good_at_def by (metis (no_types))
  moreover have "\<forall>d. f d = None \<longrightarrow> f' d = None" using f'(4,5) unfolding advances_def by metis
  ultimately have "keeps g f g'" unfolding keeps_def using g' by blast
  moreover have "\<not> cs_invalid st1" using f'(3) by (simp add: placed_def)
  ultimately show ?thesis using g' f'(2) \<open>st' = st1\<close> by simp
qed

subsection \<open>Validating what is below\<close>

text \<open>A cell hangs below another if it and all the cells between them have a state.\<close>

definition hangs :: "mxGraphModel \<Rightarrow> (cref \<Rightarrow> mxCellState option) \<Rightarrow> cref \<Rightarrow> cref \<Rightarrow> bool" where
  "hangs m f c d \<longleftrightarrow> c \<in> set (ancestors m d) \<and> (\<forall>a \<in> set (ancestors m d). c \<in> set (ancestors m a) \<longrightarrow> f a \<noteq> None)"

definition validates :: "mxGraph \<Rightarrow> cref \<Rightarrow> (cref \<Rightarrow> mxCellState option) \<Rightarrow> mxGraph \<Rightarrow> bool" where
  "validates g c f g' \<longleftrightarrow> (\<forall>d \<in> vertices g. hangs (g_model g) f c d \<longrightarrow> valid_at (states (g_view g')) d)"

lemma hangs_advances:
  assumes "heap_wf (g_model g)" and "advances g (vertices g) f f'" and "d \<in> vertices g"
  shows "hangs (g_model g) f' c d \<longleftrightarrow> hangs (g_model g) f c d"
  using assms(2) plain_below [OF assms(1)] assms(3) unfolding hangs_def advances_def vertices_def by blast

lemma hangs_child:
  assumes "heap_wf m" and "cell_getParent d m = Some c" and "hangs m f c x" and "d \<in> set (ancestors m x)"
  shows "hangs m f d x"
  using assms(3,4) set_ancestors [OF assms(1,2)] ancestors_trans [OF assms(1), of c d] assms(1)
  unfolding hangs_def by (metis ancestors_self insertI2)

lemma keeps_validates:
  assumes "keeps g f1 g'" and "validates g c f (with_states f1 g)"
  shows "validates g c f g'"
  using assms unfolding keeps_def validates_def by (auto intro: advances_valid)

lemma validate_children:
  assumes wf: "heap_wf (g_model g)"
    and v: "\<And>x f s'. view_inv g f \<Longrightarrow> v x (with_states f g) = Some s' \<Longrightarrow> keeps g f s' \<and> validates g x f s'"
  shows "for_each v xs (with_states f g) = Some g' \<Longrightarrow> view_inv g f \<Longrightarrow>
    keeps g f g' \<and> (\<forall>x \<in> set xs. validates g x f g')"
proof (induction xs arbitrary: f)
  case Nil
  then show ?case by (auto intro: keeps_same)
next
  case (Cons x xs)
  from Cons.prems(1) obtain s1 where s1: "v x (with_states f g) = Some s1" "for_each v xs s1 = Some g'"
    by (auto split: option.splits)
  from v [OF Cons.prems(2) s1(1)] have 1: "keeps g f s1" "validates g x f s1" by auto
  from keepsE [OF 1(1) wf Cons.prems(2)] obtain f1 where f1: "s1 = with_states f1 g" "view_inv g f1"
    "advances g (vertices g) f f1" .
  from Cons.IH [OF s1(2) [unfolded f1(1)] f1(2)] have 2: "keeps g f1 g'" "\<forall>x \<in> set xs. validates g x f1 g'" by auto
  have "validates g y f g'" if "y \<in> set xs" for y
    using 2(2) that hangs_advances [OF wf f1(3)] unfolding validates_def by blast
  moreover have "validates g x f g'" using keeps_validates [OF 2(1)] 1(2) f1(1) by simp
  moreover have "keeps g f g'" using keeps_trans [OF _ 2(1)] 1(1) f1(1) by simp
  ultimately show ?case by simp
qed

lemma validate_below:
  assumes wf: "heap_wf (g_model g)" "tree_inv (g_model g)" and view: "scale (g_view g) \<noteq> 0" "labels_ok g"
  shows "validateCellState_n n env cell recurse (with_states f g) = Some (sh, g') \<Longrightarrow> view_inv g f \<Longrightarrow>
    keeps g f g' \<and> (\<forall>c. recurse \<and> cell = Some c \<longrightarrow> validates g c f g')"
proof (induction n arbitrary: cell recurse f sh g')
  case 0
  then show ?case
    by (cases cell) (auto simp: validateCellState_n.simps [of 0] validates_def hangs_def wf(1) intro: keeps_same split: option.splits)
next
  case (Suc k)
  let ?m = "g_model g"
  show ?case
  proof (cases "shown_state cell (with_states f g)")
    case None
    then have "g' = with_states f g" using Suc.prems by (simp add: validateCellState_n.simps del: shown_with)
    moreover have "validates g c f g'" if "cell = Some c" for c
      using None that wf(1) by (auto simp: validates_def hangs_def)
    ultimately show ?thesis using keeps_same [OF Suc.prems(2)] by simp
  next
    case (Some sh0)
    then obtain c st where st: "cell = Some c" "f c = Some st" by (auto split: option.splits)
    from Suc.prems(1) st obtain st1 g1 where
      1: "(if cs_invalid st then refresh_state (\<lambda>d. validateCellState_n k env d False) env c st (with_states f g)
         else Some (st, with_states f g)) = Some (st1, g1)" and
      2: "(if recurse \<and> \<not> cs_invalid st1
           then for_each (\<lambda>d g. map_option snd (validateCellState_n k env (Some d) True g)) (children_of (g_model g1) c) g1
           else Some g1) = Some g'"
      by (auto simp: validateCellState_n.simps [of "Suc k"] bind_eq_Some_conv)
    have up: "keeps g f g'" if "view_inv g f" "validateCellState_n k env d False (with_states f g) = Some (sh, g')" for d f sh g'
      using Suc.IH [OF that(2,1)] by blast
    have first: "keeps g f g1 \<and> (c \<in> vertices g \<longrightarrow> \<not> cs_invalid st1 \<and> valid_at (states (g_view g1)) c)"
    proof (cases "cs_invalid st")
      case False
      then show ?thesis using 1 st Suc.prems(2) by (auto simp: valid_at_def intro: keeps_same)
    next
      case True
      then have r: "refresh_state (\<lambda>d. validateCellState_n k env d False) env c st (with_states f g) = Some (st1, g1)"
        using 1 by simp
      show ?thesis
      proof (cases "c \<in> vertices g")
        case vertex: True
        show ?thesis
          using refresh_vertex [OF wf view vertex Suc.prems(2) st(2) True r] by (simp add: valid_at_def)
      next
        case False
        have "keeps g f g1" by (rule refresh_other [OF wf False Suc.prems(2) _ r]) (use up st in blast)+
        with False show ?thesis by blast
      qed
    qed
    then obtain f1 where f1: "g1 = with_states f1 g" "view_inv g f1" "advances g (vertices g) f f1"
      using keepsE [OF _ wf(1) Suc.prems(2)] by blast
    have child: "keeps g f s' \<and> validates g x f s'"
      if "view_inv g f" "map_option snd (validateCellState_n k env (Some x) True (with_states f g)) = Some s'" for x f s'
      using that Suc.IH [OF _ that(1)] by auto
    have rest: "keeps g f1 g' \<and> (recurse \<and> \<not> cs_invalid st1 \<longrightarrow> (\<forall>x \<in> set (children_of ?m c). validates g x f1 g'))"
    proof (cases "recurse \<and> \<not> cs_invalid st1")
      case True
      then have "for_each (\<lambda>d g. map_option snd (validateCellState_n k env (Some d) True g)) (children_of ?m c) (with_states f1 g) = Some g'"
        using 2 f1(1) by simp
      from validate_children [OF wf(1) child this f1(2)] show ?thesis by blast
    next
      case False
      then show ?thesis using 2 f1 keeps_same [OF f1(2)] by auto
    qed
    have "keeps g f g'" using keeps_trans [of g f f1] first rest f1(1) by blast
    moreover have "validates g c f g'" if "recurse"
      unfolding validates_def
    proof (intro ballI impI)
      fix d assume d: "d \<in> vertices g" "hangs ?m f c d"
      have c: "c \<in> vertices g" using d plain_below [OF wf(1)] by (simp add: vertices_def hangs_def)
      then have ok: "\<not> cs_invalid st1" "valid_at f1 c" using first f1(1) by auto
      show "valid_at (states (g_view g')) d"
      proof (cases "d = c")
        case True
        then show ?thesis using rest ok(2) c unfolding keeps_def by (auto intro: advances_valid)
      next
        case False
        obtain x where x: "cell_getParent x ?m = Some c" "x \<in> set (ancestors ?m d)"
          using below_child [OF wf(1) _ False] d(2) by (auto simp: hangs_def)
        have "hangs ?m f1 x d"
          using hangs_child [OF wf(1) x(1) _ x(2)] d hangs_advances [OF wf(1) f1(3)] by blast
        then show ?thesis
          using rest ok(1) that x(1) d(1) children_getParent [OF wf(2)] by (auto simp: validates_def)
      qed
    qed
    ultimately show ?thesis using st(1) by simp
  qed
qed

subsection \<open>Validation returns\<close>

text \<open>Where all states are those of vertices, validation returns.\<close>

lemma for_each_total:
  assumes "\<And>x s. x \<in> set xs \<Longrightarrow> P s \<Longrightarrow> \<exists>s'. v x s = Some s' \<and> P s'" and "P s"
  shows "\<exists>s'. for_each v xs s = Some s' \<and> P s'"
  using assms
proof (induction xs arbitrary: s)
  case (Cons x xs)
  from Cons.prems obtain s1 where "v x s = Some s1" "P s1" by auto
  with Cons.IH [of s1] Cons.prems(1) show ?case by auto
qed simp

lemma validate_returns:
  assumes wf: "heap_wf (g_model g)" "tree_inv (g_model g)" and view: "scale (g_view g) \<noteq> 0" "labels_ok g"
  shows "n + length (ancestors (g_model g) c) \<ge> 2 * Suc (walk_fuel (g_model g)) \<Longrightarrow> view_inv g f \<Longrightarrow>
    (\<And>d. f d \<noteq> None \<Longrightarrow> plain (g_model g) d) \<Longrightarrow>
    validateCellState_n n env (Some c) True (with_states f g) \<noteq> None"
proof (induction n arbitrary: c f)
  case 0
  then show ?case using ancestors_length [OF wf(1), of c] by simp
next
  case (Suc k)
  let ?m = "g_model g"
  show ?case
  proof (cases "f c")
    case None
    then show ?thesis by simp
  next
    case (Some st)
    have long: "length (ancestors ?m c) \<le> Suc k"
      using Suc.prems(1) ancestors_length [OF wf(1), of c] by simp
    have c: "c \<in> vertices g" using Suc.prems(3) [of c] Some by (simp add: vertices_def)
    have anc: "a \<in> vertices g" if "a \<in> set (ancestors ?m c)" for a
      using c that plain_below [OF wf(1)] by (simp add: vertices_def)
    obtain f1 st1 where self: "validateCellState_n (Suc k) env (Some c) False (with_states f g) = Some (Some (c, st1), with_states f1 g)"
      using validate_vertex [OF wf(1) view, of c f "Suc k" env] c Some Suc.prems(2) anc long
      by (auto simp: vertices_def view_inv_def)
    obtain g1 where g1: "(if cs_invalid st then refresh_state (\<lambda>d. validateCellState_n k env d False) env c st (with_states f g)
         else Some (st, with_states f g)) = Some (g1, with_states f1 g)"
      using self Some by (auto simp: validateCellState_n.simps [of "Suc k"] bind_eq_Some_conv)
    have k1: "keeps g f (with_states f1 g)"
      using validate_below [OF wf view self Suc.prems(2)] by blast
    obtain f1' where f1': "with_states f1 g = with_states f1' g" "view_inv g f1'" "advances g (vertices g) f f1'"
      "\<forall>d. f d = None \<longrightarrow> f1' d = None"
      by (rule keepsE [OF k1 wf(1) Suc.prems(2)])
    have "f1' = f1" using arg_cong [OF f1'(1), of "\<lambda>h. states (g_view h)"] by simp
    have old: "f d \<noteq> None" if "f1 d \<noteq> None" for d using f1'(4) [unfolded \<open>f1' = f1\<close>] that by metis
    have start: "view_inv g f1 \<and> (\<forall>d. f1 d \<noteq> None \<longrightarrow> plain ?m d)"
      using f1'(2) [unfolded \<open>f1' = f1\<close>] Suc.prems(3) [OF old] by simp
    have step: "\<exists>s'. map_option snd (validateCellState_n k env (Some x) True s) = Some s' \<and>
        (\<exists>h. s' = with_states h g \<and> view_inv g h \<and> (\<forall>d. h d \<noteq> None \<longrightarrow> plain ?m d))"
      if x: "x \<in> set (children_of ?m c)"
        and s: "\<exists>h. s = with_states h g \<and> view_inv g h \<and> (\<forall>d. h d \<noteq> None \<longrightarrow> plain ?m d)" for x s
    proof -
      obtain h where h: "s = with_states h g" "view_inv g h" "\<forall>d. h d \<noteq> None \<longrightarrow> plain ?m d" using s by blast
      have "ancestors ?m x = x # ancestors ?m c"
        using x by (subst ancestors_parent [OF wf(1)]) (simp add: children_getParent [OF wf(2)])
      then have fuel: "k + length (ancestors ?m x) \<ge> 2 * Suc (walk_fuel ?m)" using Suc.prems(1) by simp
      obtain sh s' where s': "validateCellState_n k env (Some x) True (with_states h g) = Some (sh, s')"
        using Suc.IH [OF fuel h(2)] h(3) by (cases "validateCellState_n k env (Some x) True (with_states h g)") auto
      have "keeps g h s'" using validate_below [OF wf view s' h(2)] by blast
      then obtain h' where "s' = with_states h' g" "view_inv g h'" "\<forall>d. h d = None \<longrightarrow> h' d = None"
        by (rule keepsE [OF _ wf(1) h(2)])
      moreover from this(3) h(3) have "\<forall>d. h' d \<noteq> None \<longrightarrow> plain ?m d" by metis
      moreover have "map_option snd (validateCellState_n k env (Some x) True s) = Some s'" using s' h(1) by simp
      ultimately show ?thesis by blast
    qed
    have "for_each (\<lambda>d g. map_option snd (validateCellState_n k env (Some d) True g)) (children_of ?m c) (with_states f1 g) \<noteq> None"
    proof -
      let ?P = "\<lambda>s. \<exists>h. s = with_states h g \<and> view_inv g h \<and> (\<forall>d. h d \<noteq> None \<longrightarrow> plain ?m d)"
      let ?v = "\<lambda>d g. map_option snd (validateCellState_n k env (Some d) True g)"
      have "?P (with_states f1 g)" using start by blast
      then have "\<exists>s'. for_each ?v (children_of ?m c) (with_states f1 g) = Some s' \<and> ?P s'"
        by (rule for_each_total [of "children_of ?m c" ?P ?v, rotated]) (rule step)
      then show ?thesis by auto
    qed
    then show ?thesis
      using Some g1 by (cases "cs_invalid g1") (auto simp: validateCellState_n.simps [of "Suc k"])
  qed
qed

end
