(* ===== verification/ViewShows.thy ===== *)
theory ViewShows
  imports ViewValid
begin

text \<open>
  Validation of the whole view, view/mxGraphView.js: \<open>validate\<close>, and what \<open>invalidate\<close> and a change of scale or
  translation lead to.
\<close>

subsection \<open>The whole view\<close>

text \<open>Where validation starts, and the states it can start from.  States \<open>hang together\<close> when no vertex is shown
  without its parent, there are none below a cell that is no longer to be shown, and the label widths in their styles are
  numbers; they are settled when those of vertices, besides, are right or marked invalid.\<close>

definition view_start :: "mxGraph \<Rightarrow> cref option" where
  "view_start g = (if currentRoot (g_view g) \<noteq> None then currentRoot (g_view g) else m_root (g_model g))"

definition settled :: "mxGraph \<Rightarrow> cref \<Rightarrow> bool" where
  "settled g r \<longleftrightarrow>
     view_inv g (states (g_view g)) \<and> (\<forall>d. left_over (states (g_view g)) g True r d \<longrightarrow> states (g_view g) d = None)"

definition hang_together :: "mxGraph \<Rightarrow> cref \<Rightarrow> bool" where
  "hang_together g r \<longleftrightarrow>
     (\<forall>d \<in> vertices g. closed_at g (states (g_view g)) d \<and>
        (\<forall>st s. states (g_view g) d = Some st \<and> cs_style st = Some s \<longrightarrow> numeric_label s)) \<and>
     (\<forall>d. left_over (states (g_view g)) g True r d \<longrightarrow> states (g_view g) d = None)"

lemma settled_hang: "settled g r \<Longrightarrow> hang_together g r"
  by (auto simp: settled_def hang_together_def view_inv_def good_at_def)

text \<open>A diagram that can be drawn: a forest of cells, a scale, a place to start at, and styles that can be looked up.\<close>

definition drawable :: "mxGraph \<Rightarrow> cref \<Rightarrow> bool" where
  "drawable g r \<longleftrightarrow>
     heap_wf (g_model g) \<and> tree_inv (g_model g) \<and> scale (g_view g) \<noteq> 0 \<and> labels_ok g \<and>
     (\<forall>c. createState c g \<noteq> None) \<and> view_start g = Some r \<and>
     (Some r = currentRoot (g_view g) \<or> cell_getParent r (g_model g) = None)"

lemma reached_parent:
  assumes "reached g r d" and "d \<noteq> r" and "cell_getParent d (g_model g) = Some p"
  shows "reached g r p"
  using assms by (cases rule: reached.cases) auto

lemma created_good:
  assumes "labels_ok g" and "plain (g_model g) d" and "createState d g = Some st"
  shows "cs_invalid st \<and> (\<forall>s. cs_style st = Some s \<longrightarrow> numeric_label s)"
  using assms by (auto simp: createState_def new_mxCellState_def labels_ok_def)

lemma view_inv_after:
  assumes wf: "heap_wf (g_model g)" and labels: "labels_ok g" and made: "\<And>c. createState c g \<noteq> None"
    and start: "Some r = currentRoot (g_view g) \<or> cell_getParent r (g_model g) = None"
    and settled: "settled g r"
  shows "view_inv g (states_after (states (g_view g)) g True r)"
  unfolding view_inv_def
proof (intro ballI conjI)
  let ?f = "states (g_view g)"
  let ?h = "states_after ?f g True r"
  let ?m = "g_model g"
  fix d assume d: "d \<in> vertices g"
  have old: "good_at g ?f d" "closed_at g ?f d" using settled d by (auto simp: settled_def view_inv_def)
  show "good_at g ?h d"
    unfolding good_at_def
  proof (intro allI impI)
    fix st assume st: "?h d = Some st"
    show "(\<forall>s. cs_style st = Some s \<longrightarrow> numeric_label s) \<and> (cs_invalid st \<or> cs_style st \<noteq> None \<and> placed g d st)"
    proof (cases "?f d")
      case None
      with st have "createState d g = Some st" by (auto simp: states_after_def split: if_splits)
      then show ?thesis using created_good [OF labels] d by (simp add: vertices_def)
    next
      case (Some st')
      with st have "st' = st" by (auto simp: states_after_def split: if_splits)
      with Some old(1) show ?thesis by (simp add: good_at_def)
    qed
  qed
  show "closed_at g ?h d"
    unfolding closed_at_def
  proof (intro allI impI)
    fix p assume p: "?h d \<noteq> None \<and> Some d \<noteq> currentRoot (g_view g) \<and> cell_getParent d ?m = Some p"
    then have par: "cell_getParent d ?m = Some p" by blast
    note anc = set_ancestors [OF wf par]
    show "?h p \<noteq> None"
    proof (cases "r \<in> set (ancestors ?m d)")
      case False
      then have "r \<notin> set (ancestors ?m p)" using anc by simp
      with False p old(2) show ?thesis by (auto simp: states_after_def closed_at_def)
    next
      case True
      then have "reached g r d"
        using p settled by (auto simp: states_after_def settled_def split: if_splits)
      moreover have "d \<noteq> r" using p start by auto
      ultimately have "reached g r p" by (rule reached_parent [OF _ _ par])
      then show ?thesis
        using reached_below [OF _ wf] made [of p] by (auto simp: states_after_def)
    qed
  qed
qed

lemma hangs_reached:
  assumes wf: "heap_wf (g_model g)" and made: "\<And>c. createState c g \<noteq> None" and "reached g r c"
  shows "hangs (g_model g) (states_after f g True r) r c"
proof -
  have up: "reached g r a" if "reached g r c" "a \<in> set (ancestors (g_model g) c)" "r \<in> set (ancestors (g_model g) a)" for a c
    using that
  proof (induction rule: reached.induct)
    case reached_start
    then have "a = r" using ancestors_antisym [OF wf] by blast
    then show ?case using reached_start reached.reached_start by blast
  next
    case (reached_child p c)
    then show ?case using set_ancestors [OF wf reached_child.hyps(2)] reached.reached_child [OF reached_child.hyps] by auto
  qed
  show ?thesis
    unfolding hangs_def using reached_below [OF assms(3) wf] up [OF assms(3)] made by (auto simp: states_after_def)
qed

definition same_view :: "mxGraph \<Rightarrow> mxGraph \<Rightarrow> bool" where
  "same_view g g' \<longleftrightarrow> g_model g' = g_model g \<and> scale (g_view g') = scale (g_view g) \<and>
     translate (g_view g') = translate (g_view g) \<and> currentRoot (g_view g') = currentRoot (g_view g)"

lemma validate_whole:
  assumes wf: "heap_wf (g_model g)" "tree_inv (g_model g)" and view: "scale (g_view g) \<noteq> 0" "labels_ok g"
    and made: "\<And>c. createState c g \<noteq> None"
    and start: "view_start g = Some r" "Some r = currentRoot (g_view g) \<or> cell_getParent r (g_model g) = None"
    and settled: "settled g r" and "view_validate env None g = Some g'"
  obtains f h where "f = states_after (states (g_view g)) g True r" "view_inv g f" "states (g_view g') = h"
    "advances g (vertices g) f h" "validates g r f (with_states h g)" "same_view g g'" "view_inv g h"
    "\<forall>d. f d = None \<longrightarrow> h d = None" "\<exists>v. g' = g\<lparr>g_view := v\<rparr>"
proof -
  let ?f = "states_after (states (g_view g)) g True r"
  have cell: "(if (None :: cref option) \<noteq> None then None
      else if currentRoot (g_view g) \<noteq> None then currentRoot (g_view g) else m_root (g_model g)) = Some r"
    using start(1) by (simp add: view_start_def)
  have "ncells (g_model g) + 2 \<le> walk_fuel (g_model g) + length (ancestors (g_model g) r)"
    by (subst ancestors_parent [OF wf(1)]) (simp add: walk_fuel_def)
  from validateCell_n_states [OF wf made this, of True "states (g_view g)"]
  have first: "view_validateCell (Some r) None g = Some (with_states ?f g)" by (simp add: view_validateCell_def)
  have inv: "view_inv g ?f" by (rule view_inv_after [OF wf(1) view(2) made start(2) settled])
  obtain sh g1 box where g1: "validateCellState env (Some r) None (with_states ?f g) = Some (sh, g1)"
    "g' = setGraphBounds box g1"
    using assms(9) unfolding view_validate_def cell Let_def first by (auto simp: bind_eq_Some_conv)
  from g1(1) have run: "validateCellState_n (2 * Suc (walk_fuel (g_model g))) env (Some r) True (with_states ?f g) = Some (sh, g1)"
    by (simp add: validateCellState_def)
  have k: "keeps g ?f g1" "validates g r ?f g1" using validate_below [OF wf view run inv] by auto
  obtain h where h: "g1 = with_states h g" "view_inv g h" "advances g (vertices g) ?f h" "\<forall>d. ?f d = None \<longrightarrow> h d = None"
    by (rule keepsE [OF k(1) wf(1) inv])
  have "same_view g g'" "states (g_view g') = h" "\<exists>v. g' = g\<lparr>g_view := v\<rparr>"
    using g1(2) h(1) by (auto simp: same_view_def setGraphBounds_def with_states_def)
  then show thesis using that [OF refl inv] h k(2) by simp
qed

lemma placed_same: "same_view g g' \<Longrightarrow> placed g' c st \<longleftrightarrow> placed g c st"
  by (auto simp: placed_def view_origin_def view_path_def same_view_def)

lemma other_view_reads [simp]:
  "isCellVisible c (g\<lparr>g_view := v\<rparr>) = isCellVisible c g"
  "isCellCollapsed c (g\<lparr>g_view := v\<rparr>) = isCellCollapsed c g"
  "graph_getCellStyle c (g\<lparr>g_view := v\<rparr>) = graph_getCellStyle c g"
  "createState d (g\<lparr>g_view := v\<rparr>) = createState d g"
  by (simp_all add: isCellVisible_def isCellCollapsed_def graph_getCellStyle_def
      createState_def postProcessCellStyle_def getImageFromBundles_def Let_def cong: option.case_cong)

lemma reached_other_view:
  assumes "currentRoot v = currentRoot (g_view g)"
  shows "reached (g\<lparr>g_view := v\<rparr>) r c \<longleftrightarrow> reached g r c"
proof
  show "reached (g\<lparr>g_view := v\<rparr>) r c \<Longrightarrow> reached g r c"
    by (induction rule: reached.induct) (auto intro: reached.intros simp: assms)
  show "reached g r c \<Longrightarrow> reached (g\<lparr>g_view := v\<rparr>) r c"
    by (induction rule: reached.induct) (auto intro: reached.intros simp: assms)
qed

lemma settled_log:
  assumes "states v = states (g_view g)" "currentRoot v = currentRoot (g_view g)" "scale v = scale (g_view g)"
    "translate v = translate (g_view g)"
  shows "settled (g\<lparr>g_view := v\<rparr>) r \<longleftrightarrow> settled g r"
proof -
  have "same_view g (g\<lparr>g_view := v\<rparr>)" using assms by (simp add: same_view_def)
  note placed = placed_same [OF this]
  show ?thesis
    using reached_other_view [OF assms(2)] assms
    by (simp add: settled_def view_inv_def good_at_def closed_at_def left_over_def vertices_def placed)
qed

text \<open>Validation leaves the states settled.\<close>

lemma validate_settles:
  assumes "heap_wf (g_model g)" and "tree_inv (g_model g)" and "scale (g_view g) \<noteq> 0" and "labels_ok g"
    and "\<And>c. createState c g \<noteq> None"
    and "view_start g = Some r" and "Some r = currentRoot (g_view g) \<or> cell_getParent r (g_model g) = None"
    and "settled g r" and "view_validate env None g = Some g'"
  shows "settled g' r"
proof -
  let ?S = "states (g_view g)"
  obtain f h where r: "f = states_after ?S g True r" "states (g_view g') = h" "same_view g g'" "view_inv g h"
    "\<forall>d. f d = None \<longrightarrow> h d = None" "\<exists>v. g' = g\<lparr>g_view := v\<rparr>"
    by (rule validate_whole [OF assms(1-9)]) blast
  from r(6) obtain v where v: "g' = g\<lparr>g_view := v\<rparr>" by blast
  have reach: "reached (g\<lparr>g_view := v\<rparr>) r c \<longleftrightarrow> reached g r c" for c
    by (rule reached_other_view) (use r(3) in \<open>simp add: same_view_def v\<close>)
  have "\<not> left_over h g' True r d" for d
  proof
    assume "left_over h g' True r d"
    then obtain a where a: "r \<in> set (ancestors (g_model g) a)" "\<not> reached g r a" "h a \<noteq> None"
      by (auto simp: left_over_def reach v)
    then have "f a \<noteq> None" using r(5) by auto
    then show False using a(1,2) assms(8) by (auto simp: r(1) states_after_def settled_def split: if_splits)
  qed
  moreover have "view_inv g' h"
    using r(4) placed_same [OF r(3)] by (simp add: view_inv_def good_at_def closed_at_def vertices_def v)
      (use r(3) in \<open>simp add: same_view_def v\<close>)
  ultimately show ?thesis by (simp add: settled_def r(2))
qed

lemma shows_and_places:
  assumes "heap_wf (g_model g)" and "tree_inv (g_model g)" and "scale (g_view g) \<noteq> 0" and "labels_ok g"
    and "\<And>c. createState c g \<noteq> None"
    and "view_start g = Some r" and "Some r = currentRoot (g_view g) \<or> cell_getParent r (g_model g) = None"
    and "settled g r" and "view_validate env None g = Some g'"
    and "plain (g_model g) c" and "r \<in> set (ancestors (g_model g) c)"
  shows "states (g_view g') c = None \<and> \<not> reached g r c \<or>
    reached g r c \<and> (\<exists>st. states (g_view g') c = Some st \<and> placed g c st)"
proof -
  obtain f h where r: "f = states_after (states (g_view g)) g True r" "view_inv g f" "states (g_view g') = h"
    "advances g (vertices g) f h" "validates g r f (with_states h g)" "same_view g g'" "view_inv g h"
    by (rule validate_whole [OF assms(1-9)])
  have c: "c \<in> vertices g" using assms(10) by (simp add: vertices_def)
  show ?thesis
  proof (cases "reached g r c")
    case True
    then have "hangs (g_model g) f r c" unfolding r(1) by (rule hangs_reached [OF assms(1,5)])
    then obtain st where "h c = Some st" "\<not> cs_invalid st" using r(5) c by (auto simp: validates_def valid_at_def)
    moreover from this have "placed g c st"
      using r(7) c by (auto simp: view_inv_def good_at_def)
    ultimately show ?thesis using True r(3) by blast
  next
    case False
    then have "f c = None" using assms(8,11) by (auto simp: r(1) states_after_def settled_def)
    then show ?thesis using False r(3,4) c by (auto simp: advances_def)
  qed
qed

text \<open>A view without states is settled.\<close>

lemma settled_empty: "states (g_view g) = (\<lambda>c. None) \<Longrightarrow> settled g r"
  by (simp add: settled_def view_inv_def good_at_def closed_at_def)

text \<open>At the root of the model the origin of a state is the origin that the model computes.\<close>

lemma view_origin_getOrigin:
  assumes "heap_wf (g_model g)" and "currentRoot (g_view g) = None"
  shows "getOrigin (Some c) (g_model g) = Some (view_origin g c)"
  by (simp add: getOrigin_wf [OF assms(1)] view_origin_def view_path_def assms(2) takeWhile_eq_all_conv [THEN iffD2])

subsection \<open>Marking states\<close>

definition weaker :: "mxGraph \<Rightarrow> (cref \<Rightarrow> mxCellState option) \<Rightarrow> mxGraph \<Rightarrow> bool" where
  "weaker g f g' \<longleftrightarrow>
     (\<exists>f'. g' = with_states f' g \<and> (\<forall>d. f' d = f d \<or> f' d = map_option (\<lambda>st. st\<lparr>cs_invalid := True\<rparr>) (f d)))"

definition marked :: "mxGraph \<Rightarrow> cref \<Rightarrow> bool" where
  "marked g d \<longleftrightarrow> (\<forall>st. states (g_view g) d = Some st \<longrightarrow> cs_invalid st)"

lemma weaker_trans:
  assumes "weaker g f (with_states f1 g)" and "weaker g f1 g'"
  shows "weaker g f g'"
proof -
  obtain f2 where f2: "with_states f1 g = with_states f2 g"
    "\<forall>d. f2 d = f d \<or> f2 d = map_option (\<lambda>st. st\<lparr>cs_invalid := True\<rparr>) (f d)"
    using assms(1) by (auto simp: weaker_def)
  have "f1 = f2" using arg_cong [OF f2(1), of "\<lambda>h. states (g_view h)"] by simp
  obtain f3 where f3: "g' = with_states f3 g"
    "\<forall>d. f3 d = f1 d \<or> f3 d = map_option (\<lambda>st. st\<lparr>cs_invalid := True\<rparr>) (f1 d)"
    using assms(2) by (auto simp: weaker_def)
  have "f3 d = f d \<or> f3 d = map_option (\<lambda>st. st\<lparr>cs_invalid := True\<rparr>) (f d)" for d
    using f2(2) [rule_format, of d] f3(2) [rule_format, of d] \<open>f1 = f2\<close> by (cases "f d") auto
  then show ?thesis using f3(1) by (auto simp: weaker_def)
qed

lemma weaker_refl: "weaker g f (with_states f g)"
  by (auto simp: weaker_def)

lemma marked_weaker:
  assumes "weaker g f g'" and "marked (with_states f g) d"
  shows "marked g' d"
proof -
  obtain f' where "g' = with_states f' g" "f' d = f d \<or> f' d = map_option (\<lambda>st. st\<lparr>cs_invalid := True\<rparr>) (f d)"
    using assms(1) by (auto simp: weaker_def)
  with assms(2) show ?thesis by (cases "f d") (auto simp: marked_def)
qed

lemma mark_invalid_weaker:
  "weaker g f (mark_invalid c (with_states f g))" "marked (mark_invalid c (with_states f g)) c"
proof -
  let ?f = "f(c := map_option (\<lambda>st. st\<lparr>cs_invalid := True\<rparr>) (f c))"
  have *: "mark_invalid c (with_states f g) = with_states ?f g"
    by (auto simp: mark_invalid_def fun_upd_idem split: option.splits)
  have "\<forall>d. ?f d = f d \<or> ?f d = map_option (\<lambda>st. st\<lparr>cs_invalid := True\<rparr>) (f d)" by simp
  then show "weaker g f (mark_invalid c (with_states f g))" unfolding * weaker_def by blast
  show "marked (mark_invalid c (with_states f g)) c" unfolding * by (auto simp: marked_def)
qed

lemma weaker_loop:
  assumes "\<And>x f s'. x \<in> set xs \<Longrightarrow> v x (with_states f g) = Some s' \<Longrightarrow> weaker g f s' \<and> (\<forall>d. Q x d \<longrightarrow> marked s' d)"
  shows "for_each v xs (with_states f g) = Some g' \<Longrightarrow> weaker g f g' \<and> (\<forall>x \<in> set xs. \<forall>d. Q x d \<longrightarrow> marked g' d)"
  using assms
proof (induction xs arbitrary: f)
  case Nil
  then show ?case by (auto simp: weaker_refl)
next
  case (Cons x xs)
  from Cons.prems(1) obtain s1 where s1: "v x (with_states f g) = Some s1" "for_each v xs s1 = Some g'"
    by (auto split: option.splits)
  have 1: "weaker g f s1" "\<forall>d. Q x d \<longrightarrow> marked s1 d" using Cons.prems(2) [OF _ s1(1)] by auto
  then obtain f1 where f1: "s1 = with_states f1 g" by (auto simp: weaker_def)
  have 2: "weaker g f1 g'" "\<forall>x \<in> set xs. \<forall>d. Q x d \<longrightarrow> marked g' d"
    using Cons.IH [OF s1(2) [unfolded f1]] Cons.prems(2) by auto
  then show ?case using 1 f1 weaker_trans [of g f f1] marked_weaker by auto
qed

text \<open>A call marks the states below its cell, as no cell below is busy.\<close>

lemma invalidate_marks:
  assumes wf: "heap_wf (g_model g)" "tree_inv (g_model g)"
  shows "invalidate_n n busy (Some c) recurse incl (with_states f g) = Some g' \<Longrightarrow>
    weaker g f g' \<and>
    (\<forall>d. c \<in> set (ancestors (g_model g) d) \<and> recurse \<and> (\<forall>a \<in> set busy. c \<notin> set (ancestors (g_model g) a)) \<longrightarrow> marked g' d)"
proof (induction n arbitrary: busy c f g' recurse)
  case 0
  then show ?case
    by (auto simp: invalidate_n.simps mark_invalid_weaker wf(1) Let_def split: if_splits)
next
  case (Suc k)
  let ?m = "g_model g"
  let ?s0 = "mark_invalid c (with_states f g)"
  obtain f0 where f0: "?s0 = with_states f0 g" using mark_invalid_weaker(1) [of g f c] by (auto simp: weaker_def)
  show ?case
  proof (cases "c \<in> set busy")
    case True
    then have "g' = ?s0" using Suc.prems by (simp add: invalidate_n.simps Let_def)
    then show ?thesis using True mark_invalid_weaker wf(1) by auto
  next
    case False
    then obtain g1 where
      1: "(if recurse then for_each (\<lambda>d. invalidate_n k (c # busy) (Some d) recurse incl) (children_of ?m c) (with_states f0 g)
           else Some (with_states f0 g)) = Some g1" and
      2: "(if incl then for_each (\<lambda>e. invalidate_n k (c # busy) (Some e) recurse incl) (edges_of ?m c) g1 else Some g1) = Some g'"
      using Suc.prems f0 by (auto simp: invalidate_n.simps Let_def bind_eq_Some_conv cong: if_cong)
    let ?Q = "\<lambda>x d. x \<in> set (ancestors ?m d) \<and> recurse \<and> (\<forall>a \<in> set (c # busy). x \<notin> set (ancestors ?m a))"
    have loop: "weaker g h s' \<and> (\<forall>x \<in> set xs. \<forall>d. ?Q x d \<longrightarrow> marked s' d)"
      if "for_each (\<lambda>d. invalidate_n k (c # busy) (Some d) recurse incl) xs (with_states h g) = Some s'" for xs h s'
      by (rule weaker_loop [OF _ that]) (rule Suc.IH)
    have kids: "weaker g f0 g1 \<and> (recurse \<longrightarrow> (\<forall>x \<in> set (children_of ?m c). \<forall>d. ?Q x d \<longrightarrow> marked g1 d))"
      using 1 loop [of "children_of ?m c" f0 g1] weaker_refl by (auto split: if_splits)
    then obtain f1 where f1: "g1 = with_states f1 g" by (auto simp: weaker_def)
    have ends: "weaker g f1 g'"
      using 2 loop [of "edges_of ?m c" f1 g'] weaker_refl f1 by (auto split: if_splits)
    have all: "weaker g f0 g'" using weaker_trans [of g f0 f1 g'] kids f1 ends by blast
    have "weaker g f g'" using weaker_trans [of g f f0 g'] all mark_invalid_weaker(1) [of g f c] f0 by simp
    moreover have "marked g' d"
      if d: "c \<in> set (ancestors ?m d)" "recurse" "\<forall>a \<in> set busy. c \<notin> set (ancestors ?m a)" for d
    proof (cases "d = c")
      case True
      have "marked (with_states f0 g) c" using mark_invalid_weaker(2) [of c f g] f0 by simp
      then show ?thesis using True marked_weaker [OF all] by simp
    next
      case False
      obtain x where x: "cell_getParent x ?m = Some c" "x \<in> set (ancestors ?m d)"
        using below_child [OF wf(1) d(1) False] by blast
      have "x \<notin> set (ancestors ?m a)" if "a \<in> set busy" for a
        using d(3) that ancestors_trans [OF wf(1), of c x a] set_ancestors [OF wf(1) x(1)] wf(1) by auto
      then have "?Q x d" using x d(2) not_above_parent [OF wf(1) x(1)] by simp
      then have "marked g1 d" using kids d(2) x(1) children_getParent [OF wf(2)] by blast
      then show ?thesis using marked_weaker [OF ends] f1 by simp
    qed
    ultimately show ?thesis by blast
  qed
qed

subsection \<open>Validating again\<close>

lemma labels_other_view [simp]: "labels_ok (g\<lparr>g_view := v\<rparr>) \<longleftrightarrow> labels_ok g"
  by (simp add: labels_ok_def)

lemma with_states_other_view: "with_states f (g\<lparr>g_view := v\<rparr>) = g\<lparr>g_view := v\<lparr>states := f\<rparr>\<rparr>"
  by (simp add: with_states_def)

text \<open>States that have all been marked fit any scale and translation.\<close>

lemma settled_marked:
  assumes hang: "hang_together g r" and v: "currentRoot v = currentRoot (g_view g)" "states v = states (g_view g)"
    and weaker: "weaker (g\<lparr>g_view := v\<rparr>) (states v) g2" and marked: "\<And>d. d \<in> vertices g \<Longrightarrow> marked g2 d"
  shows "settled g2 r"
proof -
  obtain f where f: "g2 = g\<lparr>g_view := v\<lparr>states := f\<rparr>\<rparr>"
    "\<And>d. f d = states (g_view g) d \<or> f d = map_option (\<lambda>st. st\<lparr>cs_invalid := True\<rparr>) (states (g_view g) d)"
    using weaker by (auto simp: weaker_def with_states_other_view v(2))
  have none: "f d = None \<longleftrightarrow> states (g_view g) d = None" for d using f(2) [of d] by auto
  have "good_at g2 f d \<and> closed_at g2 f d" if d: "d \<in> vertices g" for d
  proof
    have old: "\<And>st s. states (g_view g) d = Some st \<Longrightarrow> cs_style st = Some s \<Longrightarrow> numeric_label s"
      "closed_at g (states (g_view g)) d"
      using hang d by (auto simp: hang_together_def)
    show "closed_at g2 f d" using old(2) by (simp add: closed_at_def none f(1) v(1))
    show "good_at g2 f d"
      unfolding good_at_def
    proof (intro allI impI)
      fix st assume st: "f d = Some st"
      have "cs_invalid st" using marked [OF d] st by (simp add: marked_def f(1))
      moreover obtain st' where "states (g_view g) d = Some st'" "cs_style st' = cs_style st"
        using f(2) [of d] st by (cases "states (g_view g) d") auto
      ultimately show "(\<forall>s. cs_style st = Some s \<longrightarrow> numeric_label s) \<and> (cs_invalid st \<or> cs_style st \<noteq> None \<and> placed g2 d st)"
        using old(1) by auto
    qed
  qed
  moreover have "left_over f g2 True r d \<longleftrightarrow> left_over (states (g_view g)) g True r d" for d
    using reached_other_view [of "v\<lparr>states := f\<rparr>" g r] v(1) by (simp add: left_over_def none f(1))
  ultimately show ?thesis
    using hang by (simp add: settled_def hang_together_def view_inv_def f(1) none vertices_def)
qed

lemma revalidate_settled:
  assumes wf: "heap_wf (g_model g)" "tree_inv (g_model g)" and hang: "hang_together g r"
    and v: "currentRoot v = currentRoot (g_view g)" "states v = states (g_view g)"
    and top: "m_root (g_model g) = Some t" "\<And>d. d \<in> vertices g \<Longrightarrow> states (g_view g) d \<noteq> None \<Longrightarrow> t \<in> set (ancestors (g_model g) d)"
    and "revalidate env (g\<lparr>g_view := v\<rparr>) = Some g'"
  obtains g2 where "settled g2 r" "view_validate env None g2 = Some g'"
    "\<exists>f. g2 = g\<lparr>g_view := v\<lparr>states := f\<rparr>\<rparr>"
proof -
  let ?g = "g\<lparr>g_view := v\<rparr>"
  obtain g2 where g2: "invalidate None None None ?g = Some g2" "view_validate env None g2 = Some g'"
    using assms(8) by (auto simp: revalidate_def bind_eq_Some_conv)
  have run: "invalidate_n (Suc (walk_fuel (g_model ?g))) [] (Some t) True True (with_states (states v) ?g) = Some g2"
    using g2(1) top(1) by (simp add: invalidate_def or_root_def with_states_def)
  have 1: "weaker ?g (states v) g2" "\<And>d. t \<in> set (ancestors (g_model g) d) \<Longrightarrow> marked g2 d"
    using invalidate_marks [OF _ _ run] wf by auto
  have "marked g2 d" if "d \<in> vertices g" for d
  proof (cases "states (g_view g) d = None")
    case True
    then show ?thesis using 1(1) v(2) by (auto simp: weaker_def marked_def dest: spec [of _ d])
  next
    case False
    then show ?thesis using 1(2) top(2) that by blast
  qed
  then have "settled g2 r" by (rule settled_marked [OF hang v 1(1)])
  moreover have "\<exists>f. g2 = g\<lparr>g_view := v\<lparr>states := f\<rparr>\<rparr>" using 1(1) by (auto simp: weaker_def with_states_other_view)
  ultimately show thesis using that g2(2) by blast
qed

lemma rescaled_places:
  assumes "heap_wf (g_model g)" and "tree_inv (g_model g)" and "labels_ok g" and "\<And>c. createState c g \<noteq> None"
    and "view_start g = Some r" and "Some r = currentRoot (g_view g) \<or> cell_getParent r (g_model g) = None"
    and "hang_together g r" and "m_root (g_model g) = Some t"
    and "\<And>d. states (g_view g) d \<noteq> None \<Longrightarrow> t \<in> set (ancestors (g_model g) d)"
    and "s \<noteq> 0" and "\<not> (scale (g_view g) = s \<and> translate (g_view g) = \<lparr>px = dx, py = dy\<rparr>)"
    and "scaleAndTranslate env s dx dy g = Some g'"
    and "plain (g_model g) c" and "r \<in> set (ancestors (g_model g) c)"
  shows "scale (g_view g') = s \<and> translate (g_view g') = \<lparr>px = dx, py = dy\<rparr> \<and> settled g' r \<and>
    (states (g_view g') c = None \<and> \<not> reached g r c \<or>
     reached g r c \<and> (\<exists>st. states (g_view g') c = Some st \<and>
       placed (g\<lparr>g_view := (g_view g)\<lparr>scale := s, translate := \<lparr>px = dx, py = dy\<rparr>\<rparr>\<rparr>) c st))"
proof -
  let ?v = "(g_view g)\<lparr>scale := s, translate := \<lparr>px = dx, py = dy\<rparr>\<rparr>"
  have "scale (g_view g) \<noteq> s \<or> px (translate (g_view g)) \<noteq> dx \<or> py (translate (g_view g)) \<noteq> dy"
    using assms(11) by auto
  then obtain g1 ev where g1: "revalidate env (g\<lparr>g_view := ?v\<rparr>) = Some g1" "g' = v_fire ev g1"
    using assms(12) by (auto simp: scaleAndTranslate_def Let_def new_mxPoint_def js_default_def)
  have roots: "currentRoot ?v = currentRoot (g_view g)" "states ?v = states (g_view g)" by simp_all
  obtain g2 where g2': "settled g2 r" "view_validate env None g2 = Some g1" "\<exists>f. g2 = g\<lparr>g_view := ?v\<lparr>states := f\<rparr>\<rparr>"
    by (rule revalidate_settled [OF assms(1,2,7) roots assms(8) assms(9) g1(1)])
  then obtain f where g2: "settled g2 r" "view_validate env None g2 = Some g1" "g2 = g\<lparr>g_view := ?v\<lparr>states := f\<rparr>\<rparr>"
    by blast
  have "view_start g2 = view_start g" by (simp add: view_start_def g2(3))
  then have pre: "heap_wf (g_model g2)" "tree_inv (g_model g2)" "scale (g_view g2) \<noteq> 0" "labels_ok g2"
    "\<And>c. createState c g2 \<noteq> None" "view_start g2 = Some r"
    "Some r = currentRoot (g_view g2) \<or> cell_getParent r (g_model g2) = None"
    "plain (g_model g2) c" "r \<in> set (ancestors (g_model g2) c)"
    using assms(1-6,10,13,14) unfolding g2(3) by simp_all
  note valid = shows_and_places [OF pre(1-7) g2(1,2) pre(8,9)]
  obtain same: "same_view g2 g1" by (rule validate_whole [OF pre(1-7) g2(1,2)])
  have reach: "reached g2 r c \<longleftrightarrow> reached g r c" unfolding g2(3) by (rule reached_other_view) simp
  have "same_view (g\<lparr>g_view := ?v\<rparr>) g2" by (simp add: same_view_def g2(3))
  note placed = placed_same [OF this]
  have fire: "states (g_view g') = states (g_view g1)" "same_view g1 g'"
    by (simp_all add: g1(2) v_fire_def same_view_def)
  have "settled g1 r" by (rule validate_settles [OF pre(1-7) g2(1,2)])
  then have "settled g' r" unfolding g1(2) v_fire_def by (subst settled_log) simp_all
  then show ?thesis
    using valid same reach fire placed by (simp add: same_view_def g2(3))
qed

subsection \<open>Diagrams of vertices only\<close>

lemma no_edges:
  assumes "edge_inv m" and "\<And>c. plain m c" and "heap_wf m"
  shows "edges_of m c = []"
proof (rule ccontr)
  assume "edges_of m c \<noteq> []"
  then obtain e where "e \<in> set (edges_of m c)" by (cases "edges_of m c") auto
  with assms(1) obtain b where "cell_getTerminal e b m = Some c" using edge_inv_def by metis
  then show False using assms(2) [of e] assms(3) by (auto simp: plain_def)
qed

lemma invalidate_returns:
  assumes wf: "heap_wf (g_model g)" "tree_inv (g_model g)" and none: "\<And>c. edges_of (g_model g) c = []"
  shows "n + length (ancestors (g_model g) c) \<ge> Suc (walk_fuel (g_model g)) \<Longrightarrow>
    invalidate_n n busy (Some c) recurse incl (with_states f g) \<noteq> None"
proof (induction n arbitrary: busy c f)
  case 0
  then show ?case using ancestors_length [OF wf(1), of c] by simp
next
  case (Suc k)
  let ?m = "g_model g"
  let ?P = "\<lambda>s. \<exists>h. s = with_states h g"
  let ?v = "\<lambda>d. invalidate_n k (c # busy) (Some d) recurse incl"
  obtain f0 where f0: "mark_invalid c (with_states f g) = with_states f0 g"
    using mark_invalid_weaker(1) [of g f c] by (auto simp: weaker_def)
  have step: "\<exists>s'. ?v x s = Some s' \<and> ?P s'" if x: "x \<in> set (children_of ?m c)" and s: "?P s" for x s
  proof -
    obtain h where h: "s = with_states h g" using s by blast
    have "ancestors ?m x = x # ancestors ?m c"
      using x by (subst ancestors_parent [OF wf(1)]) (simp add: children_getParent [OF wf(2)])
    then have "?v x (with_states h g) \<noteq> None" using Suc.prems by (intro Suc.IH) simp
    then obtain s' where s': "?v x (with_states h g) = Some s'" by blast
    have "?P s'" using invalidate_marks [OF wf s'] by (auto simp: weaker_def)
    with s' h show ?thesis by blast
  qed
  have "?P (with_states f0 g)" by blast
  then have "\<exists>s'. for_each ?v (children_of ?m c) (with_states f0 g) = Some s' \<and> ?P s'"
    by (rule for_each_total [of "children_of ?m c" ?P ?v, rotated]) (rule step)
  then show ?case by (auto simp: invalidate_n.simps f0 none Let_def cong: if_cong)
qed

lemma getBoundingBox_returns:
  assumes wf: "heap_wf (g_model g)" "tree_inv (g_model g)"
  shows "n + length (ancestors (g_model g) c) \<ge> Suc (walk_fuel (g_model g)) \<Longrightarrow>
    getBoundingBox_n n env (Some (c, st)) g \<noteq> None"
proof (induction n arbitrary: c st)
  case 0
  then show ?case using ancestors_length [OF wf(1), of c] by simp
next
  case (Suc k)
  let ?m = "g_model g"
  let ?v = "\<lambda>d bbox. map_option (join_box bbox) (getBoundingBox_n k env (shown_state (Some d) g) g)"
  have step: "\<exists>s'. ?v x s = Some s' \<and> True" if x: "x \<in> set (children_of ?m c)" for x s
  proof (cases "shown_state (Some x) g")
    case None
    then show ?thesis by simp
  next
    case (Some sh)
    then obtain st' where sh: "sh = (x, st')" by (auto simp: shown_state_def split: option.splits)
    have "ancestors ?m x = x # ancestors ?m c"
      using x by (subst ancestors_parent [OF wf(1)]) (simp add: children_getParent [OF wf(2)])
    then have "getBoundingBox_n k env (Some (x, st')) g \<noteq> None" using Suc.prems by (intro Suc.IH) simp
    then show ?thesis using Some sh by auto
  qed
  have "\<exists>s'. for_each ?v (children_of ?m c) (join_box (p_shape_box env c st) (p_text_box env c st)) = Some s' \<and> True"
    by (rule for_each_total [of "children_of ?m c" "\<lambda>_. True" ?v]) (use step in auto)
  then show ?case by auto
qed

lemma validate_total:
  assumes "heap_wf (g_model g)" and "tree_inv (g_model g)" and "scale (g_view g) \<noteq> 0" and "labels_ok g"
    and "\<And>c. createState c g \<noteq> None"
    and "view_start g = Some r" and "Some r = currentRoot (g_view g) \<or> cell_getParent r (g_model g) = None"
    and "settled g r"
    and "\<And>c. reached g r c \<or> states (g_view g) c \<noteq> None \<Longrightarrow> plain (g_model g) c"
  shows "\<exists>g'. view_validate env None g = Some g'"
proof -
  let ?m = "g_model g"
  let ?f = "states_after (states (g_view g)) g True r"
  have cell: "(if (None :: cref option) \<noteq> None then None
      else if currentRoot (g_view g) \<noteq> None then currentRoot (g_view g) else m_root ?m) = Some r"
    using assms(6) by (simp add: view_start_def)
  have short: "Suc (walk_fuel ?m) \<le> walk_fuel ?m + length (ancestors ?m c)" for c
    by (subst ancestors_parent [OF assms(1)]) simp
  from validateCell_n_states [OF assms(1,2,5), of "walk_fuel ?m" r True "states (g_view g)"] short [of r]
  have first: "view_validateCell (Some r) None g = Some (with_states ?f g)" by (simp add: view_validateCell_def walk_fuel_def)
  have inv: "view_inv g ?f" by (rule view_inv_after [OF assms(1,4,5,7,8)])
  have plains: "plain ?m d" if "?f d \<noteq> None" for d
    using that assms(9) [of d] by (auto simp: states_after_def split: if_splits)
  obtain sh g1 where g1: "validateCellState_n (2 * Suc (walk_fuel ?m)) env (Some r) True (with_states ?f g) = Some (sh, g1)"
    using validate_returns [OF assms(1-4), of "2 * Suc (walk_fuel ?m)" r ?f env] inv plains by auto
  have "keeps g ?f g1" using validate_below [OF assms(1-4) g1 inv] by blast
  then have model: "g_model g1 = ?m" by (auto simp: keeps_def)
  have "getBoundingBox env sh g1 \<noteq> None"
  proof (cases sh)
    case (Some p)
    then show ?thesis
      using getBoundingBox_returns [of g1 "walk_fuel ?m" "fst p" env "snd p"] assms(1,2) short [of "fst p"] model
      by (simp add: getBoundingBox_def)
  qed (simp add: getBoundingBox_def)
  then show ?thesis
    unfolding view_validate_def cell Let_def first using g1 by (auto simp: validateCellState_def)
qed

end
