(* ===== verification/ViewProps.thy ===== *)
theory ViewProps
  imports ViewShows
begin

text \<open>
  Properties of the view: which cells it shows and where they stand.
\<close>

subsection \<open>A drawing\<close>

text \<open>A vertex in a vertex in a layer.\<close>

definition drawing_cell :: "cref \<Rightarrow> mxCell" where
  "drawing_cell c =
     (if c = 0 then blank_cell\<lparr>c_children := Some [1]\<rparr>
      else if c = 1 then blank_cell\<lparr>c_parent := Some 0, c_children := Some [2]\<rparr>
      else if c = 2 then blank_cell\<lparr>c_parent := Some 1, c_vertex := True, c_geometry := Some 0, c_children := Some [3]\<rparr>
      else if c = 3 then blank_cell\<lparr>c_parent := Some 2, c_vertex := True, c_geometry := Some 1\<rparr>
      else blank_cell)"

definition drawing :: mxGraphModel where
  "drawing = empty_model\<lparr>cell_at := drawing_cell, ncells := 4, m_root := Some 0,
     geo_at := (\<lambda>r. if r = 0 then new_mxGeometry (Some 10) (Some 20) (Some 100) (Some 80)
                    else new_mxGeometry (Some 5) (Some 6) (Some 30) (Some 20))\<rparr>"

definition blind :: painter where
  "blind = \<lparr>p_registry = [], p_route = \<lambda>_ _ _ _ _. [], p_perimeter = \<lambda>_ _ _ p _. Some p,
     p_trig = \<lambda>_. (1, 0), p_sqrt = id, p_shape_box = \<lambda>_ st. Some (cs_bounds st), p_text_box = \<lambda>_ _. None\<rparr>"

lemma drawing_simps [simp]: "cell_at drawing = drawing_cell" "ncells drawing = 4" "m_root drawing = Some 0"
  by (simp_all add: drawing_def)

lemma drawing_parent:
  "cell_getParent c drawing = (if c = 1 then Some 0 else if c = 2 then Some 1 else if c = 3 then Some 2 else None)"
  by (simp add: cell_getParent_def drawing_cell_def blank_cell_def)

lemma drawing_children:
  "children_of drawing c = (if c = 0 then [1] else if c = 1 then [2] else if c = 2 then [3] else [])"
  by (simp add: children_of_def drawing_cell_def blank_cell_def)

lemma drawing_facts:
  "edges_of drawing c = []" "cell_getTerminal c b drawing = None" "\<not> cell_isEdge c drawing"
  "cell_getGeometry c drawing = (if c = 2 then Some 0 else if c = 3 then Some 1 else None)"
  "\<not> g_relative (geo_at drawing r)" "isVisible (Some c) drawing" "\<not> isCollapsed (Some c) drawing" "cell_getStyle c drawing = None"
  by (simp_all add: edges_of_def cell_getTerminal_def cell_isEdge_def cell_getGeometry_def drawing_cell_def
      drawing_def blank_cell_def new_mxGeometry_def isVisible_def isCollapsed_def
      cell_isVisible_def cell_isCollapsed_def cell_getStyle_def)

lemma drawing_tree: "tree_inv drawing"
  using drawing_parent by (auto simp: tree_inv_def drawing_children cell_getParent_def split: if_splits)

lemma drawing_wf: "heap_wf drawing"
proof -
  have "parent_rel drawing \<subseteq> less_than"
    by (auto simp: parent_rel_def drawing_parent split: if_splits)
  then have "wf (parent_rel drawing)" by (rule wf_subset [OF wf_less_than])
  then show ?thesis by (auto simp: heap_wf_def drawing_parent split: if_splits)
qed

lemma drawing_ancestors [simp]:
  "ancestors drawing 0 = [0]" "ancestors drawing (Suc 0) = [1, 0]" "ancestors drawing 2 = [2, 1, 0]"
  "ancestors drawing 3 = [3, 2, 1, 0]"
proof -
  note anc = ancestors_parent [OF drawing_wf]
  show 0: "ancestors drawing 0 = [0]" using anc [of 0] by (simp add: drawing_parent)
  show 1: "ancestors drawing (Suc 0) = [1, 0]" using 0 anc [of 1] by (simp add: drawing_parent)
  show 2: "ancestors drawing 2 = [2, 1, 0]" using 1 anc [of 2] by (simp add: drawing_parent)
  show "ancestors drawing 3 = [3, 2, 1, 0]" using 2 anc [of 3] by (simp add: drawing_parent)
qed

lemma drawing_plain: "plain drawing c"
  by (simp add: plain_def drawing_facts)

definition drawing_graph :: mxGraph where
  "drawing_graph = new_mxGraph drawing None"

lemma drawing_graph_simps [simp]:
  "g_model drawing_graph = drawing" "states (g_view drawing_graph) = (\<lambda>_. None)" "scale (g_view drawing_graph) = 1"
  "currentRoot (g_view drawing_graph) = None" "translate (g_view drawing_graph) = \<lparr>px = 0, py = 0\<rparr>"
  "stylesheet drawing_graph = new_mxStylesheet" "own_isCellVisible drawing_graph = None"
  by (simp_all add: drawing_graph_def graph_defaults new_mxPoint_def js_default_def)

lemma drawing_style: "\<exists>s. graph_getCellStyle (Some c) drawing_graph = Some s \<and> numeric_label s"
proof -
  have "numeric_label (case getDefaultVertexStyle new_mxStylesheet of None \<Rightarrow> [] | Some st \<Rightarrow> st)" by code_simp
  then show ?thesis by (simp add: graph_getCellStyle_def m_getStyle_def drawing_facts isEdge_def)
qed

lemma drawing_pre:
  "labels_ok drawing_graph" "createState c drawing_graph \<noteq> None" "view_start drawing_graph = Some 0"
  "cell_getParent 0 drawing = None" "settled drawing_graph r"
  using drawing_style drawing_style [of c]
  by (auto simp: labels_ok_def createState_def view_start_def drawing_parent settled_empty)

lemma drawing_drawable: "drawable drawing_graph 0"
  using drawing_wf drawing_tree drawing_pre by (simp add: drawable_def)

lemma drawing_reached: "reached drawing_graph 0 3"
proof -
  have vis: "isCellVisible (Some c) drawing_graph" "\<not> isCellCollapsed (Some c) drawing_graph" for c
    by (simp_all add: isCellVisible_def isCellCollapsed_def drawing_facts)
  have "reached drawing_graph 0 0" using vis by (intro reached_start)
  then have "reached drawing_graph 0 1" by (rule reached_child) (simp_all add: drawing_parent vis)
  then have "reached drawing_graph 0 2" by (rule reached_child) (simp_all add: drawing_parent vis)
  then show ?thesis by (rule reached_child) (simp_all add: drawing_parent vis)
qed

lemma drawing_view:
  "view_path drawing_graph 3 = [3, 2, 1, 0]" "offset_x drawing 3 = 5" "offset_x drawing 2 = 10" "offset_x drawing (Suc 0) = 0"
  "offset_x drawing 0 = 0" "offset_y drawing 3 = 6" "offset_y drawing 2 = 20" "offset_y drawing (Suc 0) = 0" "offset_y drawing 0 = 0"
  "width (geo_at drawing (Suc 0)) = 30" "height (geo_at drawing (Suc 0)) = 20"
  by (simp_all add: view_path_def offset_x_def offset_y_def drawing_facts)
    (simp_all add: drawing_def new_mxGeometry_def js_default_def)

lemma drawing_validated: "\<exists>g'. view_validate blind None drawing_graph = Some g'"
  using validate_total [of drawing_graph 0 blind] drawing_wf drawing_tree drawing_pre drawing_plain by simp

lemma drawing_revalidated:
  assumes "scale v \<noteq> 0" and "states v = (\<lambda>_. None)" and "currentRoot v = None"
  shows "\<exists>g'. revalidate blind (drawing_graph\<lparr>g_view := v\<rparr>) = Some g'"
proof -
  let ?g = "drawing_graph\<lparr>g_view := v\<rparr>"
  have "invalidate_n (Suc (walk_fuel (g_model ?g))) [] (Some 0) True True (with_states (\<lambda>_. None) ?g) \<noteq> None"
    by (rule invalidate_returns) (simp_all add: drawing_wf drawing_tree drawing_facts)
  then obtain g2 where run: "invalidate_n (Suc (walk_fuel (g_model ?g))) [] (Some 0) True True (with_states (\<lambda>_. None) ?g) = Some g2"
    by blast
  have "weaker ?g (\<lambda>_. None) g2" using invalidate_marks [OF _ _ run] drawing_wf drawing_tree by simp
  then obtain f where f: "g2 = with_states f ?g" "\<forall>d. f d = None" by (auto simp: weaker_def)
  from f(2) have "f = (\<lambda>_. None)" by auto
  with f(1) have g2: "g2 = ?g" using as_with_states [of ?g] assms(2) by simp
  then have inv: "invalidate None None None ?g = Some ?g"
    using run as_with_states [of ?g] assms(2) by (simp add: invalidate_def or_root_def)
  have "\<exists>g'. view_validate blind None ?g = Some g'"
    by (rule validate_total [of ?g 0])
      (use assms drawing_wf drawing_tree drawing_pre drawing_plain in \<open>auto simp: view_start_def settled_empty\<close>)
  then show ?thesis by (simp add: revalidate_def inv)
qed

lemma drawing_scaled: "s \<noteq> 0 \<Longrightarrow> \<exists>g'. scaleAndTranslate blind s dx dy drawing_graph = Some g'"
  using drawing_revalidated [of "(g_view drawing_graph)\<lparr>scale := s, translate := new_mxPoint (Some dx) (Some dy)\<rparr>"]
  by (auto simp: scaleAndTranslate_def Let_def)

subsection \<open>The properties\<close>

text \<open>
  C6: \<open>validate\<close> of view/mxGraphView.js, whenever it returns, on a diagram that can be drawn and states that are
  settled: those that are there hang together, and are right unless they are marked invalid.  An empty view is settled, and
  \<open>validate\<close> leaves the states settled again.  For a cell at or below the one at which it starts that, with all
  cells above it, is no edge, has no terminals and has no relative geometry (any others may be edges or relative), it has a state afterwards
  exactly if it is visible and so are the cells above it, none of them collapsed but the current root; its state is then valid,
  its origin is the sum of the offsets of the cells below the current root (at the top level, what \<open>getOrigin\<close> of the
  model computes), and its bounds are those of the geometry at that origin, translated and scaled.
\<close>

theorem validate_shows_and_places:
  assumes "drawable g r" and "settled g r" and "view_validate env None g = Some g'"
    and "plain (g_model g) c" and "r \<in> set (ancestors (g_model g) c)"
  shows "settled g' r \<and>
    (states (g_view g') c = None \<and> \<not> reached g r c \<or>
     reached g r c \<and> (\<exists>st. states (g_view g') c = Some st \<and> placed g c st \<and>
       (currentRoot (g_view g) = None \<longrightarrow> getOrigin (Some c) (g_model g) = Some (cs_origin st))))"
proof -
  note d = assms(1) [unfolded drawable_def]
  show ?thesis
    using shows_and_places [OF _ _ _ _ _ _ _ assms(2-5)] validate_settles [OF _ _ _ _ _ _ _ assms(2,3)]
      view_origin_getOrigin [of g c] d unfolding placed_def by auto
qed

lemma shows_witness:
  "\<exists>g' st. view_validate blind None drawing_graph = Some g' \<and> states (g_view g') 3 = Some st \<and>
     cs_bounds st = \<lparr>px = 15, py = 26, width = 30, height = 20\<rparr>"
proof -
  obtain g' where g': "view_validate blind None drawing_graph = Some g'" using drawing_validated by blast
  obtain st where st: "states (g_view g') 3 = Some st" "placed drawing_graph 3 st"
    using validate_shows_and_places [of drawing_graph 0 blind g' 3] drawing_drawable drawing_pre drawing_plain
      g' drawing_reached by auto
  then show ?thesis
    using g' by (simp add: placed_def view_origin_def drawing_view drawing_facts)
qed

text \<open>
  C7: \<open>scaleAndTranslate\<close>, whenever it returns, on a diagram that can be drawn, with states that hang together and are of
  cells of the model, wherever they stand: with a new scale or translation the whole view is validated again, which leaves the
  states settled, and every shown cell that, with all cells above it, is no edge, has no terminals and has no relative geometry stands
  where the new scale and translation put it.
\<close>

theorem scaleAndTranslate_places:
  assumes "drawable g r" and "hang_together g r" and "m_root (g_model g) = Some t"
    and "\<And>d. states (g_view g) d \<noteq> None \<Longrightarrow> t \<in> set (ancestors (g_model g) d)"
    and "s \<noteq> 0" and "\<not> (scale (g_view g) = s \<and> translate (g_view g) = \<lparr>px = dx, py = dy\<rparr>)"
    and "scaleAndTranslate env s dx dy g = Some g'"
    and "plain (g_model g) c" and "r \<in> set (ancestors (g_model g) c)"
  shows "scale (g_view g') = s \<and> translate (g_view g') = \<lparr>px = dx, py = dy\<rparr> \<and> settled g' r \<and>
    (states (g_view g') c = None \<and> \<not> reached g r c \<or>
     reached g r c \<and> (\<exists>st. states (g_view g') c = Some st \<and>
       placed (g\<lparr>g_view := (g_view g)\<lparr>scale := s, translate := \<lparr>px = dx, py = dy\<rparr>\<rparr>\<rparr>) c st))"
  using assms(1) rescaled_places [OF _ _ _ _ _ _ assms(2-9)] by (simp add: drawable_def)

lemma scaled_witness:
  "\<exists>g' st. scaleAndTranslate blind 2 7 0 drawing_graph = Some g' \<and> states (g_view g') 3 = Some st \<and>
     cs_bounds st = \<lparr>px = 44, py = 52, width = 60, height = 40\<rparr>"
proof -
  obtain g' where g': "scaleAndTranslate blind 2 7 0 drawing_graph = Some g'" using drawing_scaled [of 2] by auto
  let ?h = "drawing_graph\<lparr>g_view := (g_view drawing_graph)\<lparr>scale := 2, translate := \<lparr>px = 7, py = 0\<rparr>\<rparr>\<rparr>"
  have "scale (g_view g') = 2 \<and> translate (g_view g') = \<lparr>px = 7, py = 0\<rparr> \<and>
    (states (g_view g') 3 = None \<and> \<not> reached drawing_graph 0 3 \<or>
     reached drawing_graph 0 3 \<and> (\<exists>st. states (g_view g') 3 = Some st \<and> placed ?h 3 st))"
    using scaleAndTranslate_places [of drawing_graph 0 0 2 7 0 blind g' 3] drawing_drawable settled_hang [OF drawing_pre(5)]
      drawing_plain g' by simp
  then obtain st where "states (g_view g') 3 = Some st" "placed ?h 3 st" using drawing_reached by blast
  moreover have "view_path ?h 3 = [3, 2, 1, 0]" by (simp add: view_path_def)
  ultimately show ?thesis using g' by (simp add: placed_def view_origin_def drawing_view drawing_facts)
qed

text \<open>
  C26: \<open>validate\<close> returns, with no TypeError, on a diagram that can be drawn and states that are settled (as an empty
  view is, and as \<open>validate\<close> leaves them), where the cells that are shown, and those above them, are no edges and have absolute
  geometries: \<open>validateCellState\<close> goes up from every state to those it depends on and down to the children, and comes to an
  end.
\<close>

theorem view_validate_returns:
  assumes "drawable g r" and "settled g r"
    and "\<And>c. reached g r c \<or> states (g_view g) c \<noteq> None \<Longrightarrow> plain (g_model g) c"
  shows "\<exists>g'. view_validate env None g = Some g' \<and> settled g' r"
proof -
  have d: "heap_wf (g_model g)" "tree_inv (g_model g)" "scale (g_view g) \<noteq> 0" "labels_ok g" "\<And>c. createState c g \<noteq> None"
    "view_start g = Some r" "Some r = currentRoot (g_view g) \<or> cell_getParent r (g_model g) = None"
    using assms(1) by (simp_all add: drawable_def)
  then show ?thesis
    using validate_total [OF d assms(2), of env] assms(3) validate_settles [OF d assms(2), of env] by blast
qed

lemma returns_witness: "\<exists>g'. view_validate blind (Some 0) drawing_graph = Some g'"
  using view_validate_returns [of drawing_graph 0 blind] drawing_drawable drawing_pre drawing_plain
  by (auto simp: view_validate_def)

end
