(* ===== verification/Hover.thy ===== *)
theory Hover
  imports Planar
begin

text \<open>
  The icon beside the vertex under the pointer, js/mouse.js: the mouse listener that \<open>addMouse\<close> adds to the
  graph, and \<open>mxIconSet\<close>.

  A state object of the view is taken by its identity, of any type \<open>'s\<close>; \<open>place\<close> gives its rectangle, \<open>vertex\<close>
  whether its cell is a vertex.  The images in the container are the elements that icon sets have added there,
  each with the state it was made for.
\<close>

subsection \<open>Icon sets\<close>

record 's icon =
  ic_state :: 's
  ic_left :: jsnum
  ic_top :: jsnum

type_synonym 's icon_set = "'s icon list option"

record 's hover =
  currentState :: "'s option"
  currentIconSet :: "'s icon_set option"
  container :: "'s icon list"

definition iconTolerance :: jsnum where
  "iconTolerance = 20"

definition new_mxIconSet :: "('s \<Rightarrow> mxRectangle) \<Rightarrow> 's \<Rightarrow> 's hover \<Rightarrow> 's icon_set \<times> 's hover" where
  "new_mxIconSet place state h =
     (let r = place state;
          img = \<lparr>ic_state = state, ic_left = px r + width r + 10, ic_top = py r + 16 + 16 + 14\<rparr>
      in (Some [img], h\<lparr>container := container h @ [img]\<rparr>))"

definition icon_set_destroy :: "'s icon_set \<Rightarrow> 's hover \<Rightarrow> 's icon_set \<times> 's hover" where
  "icon_set_destroy images h =
     (None, h\<lparr>container := (case images of None \<Rightarrow> container h | Some imgs \<Rightarrow> fold remove1 imgs (container h))\<rparr>)"

subsection \<open>The listener\<close>

definition dragEnter :: "('s \<Rightarrow> mxRectangle) \<Rightarrow> 's \<Rightarrow> 's hover \<Rightarrow> 's hover" where
  "dragEnter place state h =
     (if currentIconSet h = None
      then (let (icons, h) = new_mxIconSet place state h in h\<lparr>currentIconSet := Some icons\<rparr>) else h)"

definition dragLeave :: "'s hover \<Rightarrow> 's hover" where
  "dragLeave h =
     (case currentIconSet h of
        None \<Rightarrow> h
      | Some icons \<Rightarrow> (let (icons, h) = icon_set_destroy icons h in h\<lparr>currentIconSet := None\<rparr>))"

text \<open>What an event says: the state it was dispatched for, the place, the state that the view has for its cell,
  and whether a button is down.\<close>

record 's hover_event =
  me_state :: "'s option"
  me_x :: jsnum
  me_y :: jsnum
  hit_state :: "'s option"
  isMouseDown :: bool

definition mouseDown :: "'s hover \<Rightarrow> 's hover" where
  "mouseDown h = (if currentState h \<noteq> None then (dragLeave h)\<lparr>currentState := None\<rparr> else h)"

definition within_tolerance :: "('s \<Rightarrow> mxRectangle) \<Rightarrow> 's hover_event \<Rightarrow> 's hover \<Rightarrow> bool" where
  "within_tolerance place me h =
     (case currentState h of
        None \<Rightarrow> False
      | Some st \<Rightarrow>
          (me_state me = Some st \<or> me_state me = None) \<and>
          (let tol = iconTolerance;
               tmp = new_mxRectangle (Some (me_x me - tol)) (Some (me_y me - tol)) (Some (2 * tol)) (Some (2 * tol))
           in rect_intersects tmp (place st)))"

definition mouseMove ::
  "('s \<Rightarrow> mxRectangle) \<Rightarrow> ('s \<Rightarrow> bool) \<Rightarrow> 's hover_event \<Rightarrow> 's hover \<Rightarrow> 's hover"
where
  "mouseMove place vertex me h =
     (if within_tolerance place me h then h
      else
        (let tmp = hit_state me;
             tmp = (if isMouseDown me \<or> (case tmp of None \<Rightarrow> False | Some s \<Rightarrow> \<not> vertex s) then None else tmp)
         in if tmp \<noteq> currentState h then
              (let h = (if currentState h \<noteq> None then dragLeave h else h);
                   h = h\<lparr>currentState := tmp\<rparr>
               in case tmp of None \<Rightarrow> h | Some s \<Rightarrow> dragEnter place s h)
            else h))"

definition mouseUp :: "'s hover \<Rightarrow> 's hover" where
  "mouseUp h = h"

definition addMouse :: "'s hover" where
  "addMouse = \<lparr>currentState = None, currentIconSet = None, container = []\<rparr>"

subsection \<open>What the listener keeps\<close>

inductive hover_step :: "('s \<Rightarrow> bool) \<Rightarrow> 's hover \<Rightarrow> 's hover \<Rightarrow> bool" for vertex where
  step_down: "hover_step vertex h (mouseDown h)"
| step_move: "hover_step vertex h (mouseMove place vertex me h)"
| step_up: "hover_step vertex h (mouseUp h)"

text \<open>One icon for the current state, which is one of a vertex, and none without.\<close>

definition hover_inv :: "('s \<Rightarrow> bool) \<Rightarrow> 's hover \<Rightarrow> bool" where
  "hover_inv vertex h \<longleftrightarrow>
     (case currentState h of
        None \<Rightarrow> currentIconSet h = None \<and> container h = []
      | Some s \<Rightarrow> vertex s \<and> (\<exists>img. currentIconSet h = Some (Some [img]) \<and> container h = [img] \<and> ic_state img = s))"

lemmas hover_defs = hover_inv_def dragLeave_def dragEnter_def icon_set_destroy_def new_mxIconSet_def

lemma dragLeave_inv: "hover_inv vertex h \<Longrightarrow> hover_inv vertex ((dragLeave h)\<lparr>currentState := None\<rparr>)"
  by (auto simp: hover_defs Let_def split: option.splits)

lemma dragEnter_inv:
  "hover_inv vertex (h\<lparr>currentState := None\<rparr>) \<Longrightarrow> vertex s \<Longrightarrow> hover_inv vertex (dragEnter place s (h\<lparr>currentState := Some s\<rparr>))"
  by (auto simp: hover_defs Let_def)

lemma mouseDown_inv: "hover_inv vertex h \<Longrightarrow> hover_inv vertex (mouseDown h)"
  using dragLeave_inv by (auto simp: mouseDown_def)

lemma mouseMove_inv:
  assumes "hover_inv vertex h"
  shows "hover_inv vertex (mouseMove place vertex me h)"
proof -
  have left: "hover_inv vertex ((if currentState h \<noteq> None then dragLeave h else h)\<lparr>currentState := None\<rparr>)"
    using dragLeave_inv [OF assms] assms by (cases "currentState h") (auto simp: hover_inv_def)
  show ?thesis
    using assms left dragEnter_inv [OF left] by (auto simp: mouseMove_def Let_def split: option.splits if_splits)
qed

text \<open>C32: Whatever the mouse does, the page shows one icon set when the listener has a current state, made for that
  state, which is one of a vertex, and none otherwise; and a move that is not within the tolerance of the
  current state leads to the icon of the vertex under the pointer, to none over an edge or the background or
  while a button is down.\<close>

theorem hover_icon:
  assumes "(hover_step vertex)\<^sup>*\<^sup>* addMouse h"
  shows "(case currentState h of
      None \<Rightarrow> container h = []
    | Some s \<Rightarrow> vertex s \<and> (\<exists>img. container h = [img] \<and> ic_state img = s)) \<and>
    (within_tolerance place me h \<or>
     currentState (mouseMove place vertex me h) =
       (if isMouseDown me then None
        else case hit_state me of None \<Rightarrow> None | Some s \<Rightarrow> if vertex s then Some s else None))"
proof -
  have inv: "hover_inv vertex h"
    using assms
  proof (induction rule: rtranclp_induct)
    case base
    show ?case by (simp add: hover_inv_def addMouse_def)
  next
    case (step h h')
    from step.hyps(2) step.IH show ?case
      by (cases rule: hover_step.cases) (simp_all add: mouseDown_inv mouseMove_inv mouseUp_def)
  qed
  have "currentState (mouseMove place vertex me h) =
       (if isMouseDown me then None
        else case hit_state me of None \<Rightarrow> None | Some s \<Rightarrow> if vertex s then Some s else None)"
    if "\<not> within_tolerance place me h"
    using that by (auto simp: mouseMove_def Let_def dragEnter_def new_mxIconSet_def split: option.splits)
  moreover have "case currentState h of
      None \<Rightarrow> container h = []
    | Some s \<Rightarrow> vertex s \<and> (\<exists>img. container h = [img] \<and> ic_state img = s)"
    using inv by (auto simp: hover_inv_def split: option.splits)
  ultimately show ?thesis by blast
qed

theorem hover_icon_witness:
  "\<exists>h img. (hover_step (\<lambda>s. True))\<^sup>*\<^sup>* addMouse h \<and> currentState h = Some (3 :: nat) \<and> container h = [img] \<and> ic_state img = 3"
proof -
  let ?me = "\<lparr>me_state = None, me_x = 0, me_y = 0, hit_state = Some 3, isMouseDown = False\<rparr>"
  let ?h = "mouseMove (\<lambda>s. new_mxRectangle None None None None) (\<lambda>s. True) ?me (addMouse :: nat hover)"
  have "(hover_step (\<lambda>s. True))\<^sup>*\<^sup>* addMouse ?h" by (rule r_into_rtranclp) (rule step_move)
  moreover have "currentState ?h = Some 3"
    by (simp add: mouseMove_def within_tolerance_def addMouse_def dragEnter_def new_mxIconSet_def Let_def)
  ultimately show ?thesis using hover_icon [of "\<lambda>s. True" ?h] by fastforce
qed

end
