(* ===== verification/Palette.thy ===== *)
theory Palette
  imports GraphCells ModelProps
begin

text \<open>
  The palette at the left of the page, js/leftpanel.js, and the form with the data of a cell
  (\<open>initVue\<close> and the \<open>click\<close> and \<open>parse\<close> handlers of js/MXGraph.js).

  Strings outside of ASCII are given by their bytes in UTF-8.
\<close>

subsection \<open>Items\<close>

record palette_item =
  it_name :: string
  it_image :: string
  it_id :: string
  it_width :: jsnum
  it_height :: jsnum
  sWidth :: jsnum
  sHeight :: jsnum
  it_type :: string

definition p_data :: "palette_item list" where
  "p_data =
     [\<lparr>it_name = ''Excel'' @ [CHR 0xE8, CHR 0xBE, CHR 0x93, CHR 0xE5, CHR 0x85, CHR 0xA5],
       it_image = ''i_userGroupManager.png'', it_id = ''e_input'', it_width = 100, it_height = 100,
       sWidth = 50, sHeight = 50, it_type = ''e_input''\<rparr>,
      \<lparr>it_name = ''Excel'' @ [CHR 0xE8, CHR 0xBE, CHR 0x93, CHR 0xE5, CHR 0x87, CHR 0xBA],
       it_image = ''i_transDetail.png'', it_id = ''e_output'', it_width = 100, it_height = 100,
       sWidth = 50, sHeight = 50, it_type = ''e_output''\<rparr>,
      \<lparr>it_name = [CHR 0xE6, CHR 0x96, CHR 0x87, CHR 0xE6, CHR 0x9C, CHR 0xAC, CHR 0xE6, CHR 0x96, CHR 0x87,
         CHR 0xE4, CHR 0xBB, CHR 0xB6, CHR 0xE8, CHR 0xBE, CHR 0x93, CHR 0xE5, CHR 0x85, CHR 0xA5],
       it_image = ''i_slaveCon_16.png'', it_id = ''t_input'', it_width = 100, it_height = 100,
       sWidth = 50, sHeight = 50, it_type = ''t_input''\<rparr>,
      \<lparr>it_name = [CHR 0xE6, CHR 0x96, CHR 0x87, CHR 0xE6, CHR 0x9C, CHR 0xAC, CHR 0xE6, CHR 0x96, CHR 0x87,
         CHR 0xE4, CHR 0xBB, CHR 0xB6, CHR 0xE8, CHR 0xBE, CHR 0x93, CHR 0xE5, CHR 0x87, CHR 0xBA],
       it_image = ''i_refresh.png'', it_id = ''t_output'', it_width = 100, it_height = 100,
       sWidth = 50, sHeight = 50, it_type = ''t_output''\<rparr>]"

definition start_style :: "palette_item \<Rightarrow> style_obj" where
  "start_style item =
     [(''shape'', SStr ''image''),
      (''fontSize'', SStr ''8''),
      (''fontColor'', SStr ''#f5f5f5''),
      (''perimeter'', SFun ''RectanglePerimeter''),
      (''image'', SStr (''/resources/images/'' @ it_image item))]"

text \<open>\<open>map_type\<close> lists the identifiers whose styles have been put into the style sheet.\<close>

definition initType :: "palette_item \<Rightarrow> string list \<times> mxGraph \<Rightarrow> string \<times> string list \<times> mxGraph" where
  "initType item = (\<lambda>(map_type, g).
     (it_id item,
      if it_id item \<notin> set map_type
      then (it_id item # map_type, g\<lparr>stylesheet := putCellStyle (stylesheet g) (it_id item) (start_style item)\<rparr>)
      else (map_type, g)))"

definition initLeftPanel :: "string list \<times> mxGraph \<Rightarrow> string list \<times> mxGraph" where
  "initLeftPanel s = fold (\<lambda>item s. snd (initType item s)) p_data s"

text \<open>A style that is put together by the same file and not used.\<close>

definition panel_getStyle :: "palette_item \<Rightarrow> mxGraph \<Rightarrow> string \<times> mxGraph" where
  "panel_getStyle item g =
     (''Ccc'',
      g\<lparr>stylesheet := putCellStyle (stylesheet g) ''Ccc''
          [(''shape'', SStr ''label''), (''fontColor'', SStr ''#FFFF00''), (''align'', SStr ''center''),
           (''verticalAlign'', SStr ''bottom''), (''fontSize'', SNum 30), (''imageAlign'', SStr ''center''),
           (''imageVerticalAlign'', SStr ''center''), (''image'', SStr (it_image item)), (''imageWidth'', SNum 50),
           (''imageHeight'', SNum 20), (''spacingTop'', SNum 30), (''spacing'', SNum 10)]\<rparr>)"

subsection \<open>The data of cells\<close>

text \<open>Rows are objects that cells and the form share; a field of a new row is undefined.\<close>

record cell_row =
  row_name :: "string option"
  row_type :: "string option"

record form =
  cell_type :: "cref \<Rightarrow> string option"
  cell_row :: "cref \<Rightarrow> nat option"
  row_at :: "nat \<Rightarrow> cell_row"
  nrows :: nat
  vm_row :: nat
  form_cell :: "cref option"

definition initVue :: form where
  "initVue =
     \<lparr>cell_type = (\<lambda>_. None), cell_row = (\<lambda>_. None), row_at = (\<lambda>_. \<lparr>row_name = Some [], row_type = Some []\<rparr>),
      nrows = 1, vm_row = 0, form_cell = None\<rparr>"

definition new_row :: "form \<Rightarrow> nat \<times> form" where
  "new_row f =
     (nrows f, f\<lparr>row_at := (row_at f)(nrows f := \<lparr>row_name = None, row_type = None\<rparr>), nrows := Suc (nrows f)\<rparr>)"

definition on_click :: "cref option \<Rightarrow> form \<Rightarrow> form" where
  "on_click cell f =
     (let (v, f) = new_row f in
      case cell of
        None \<Rightarrow> f\<lparr>vm_row := v\<rparr>
      | Some c \<Rightarrow>
          (case cell_row f c of
             Some r \<Rightarrow> f\<lparr>vm_row := r\<rparr>
           | None \<Rightarrow> (let (r, f) = new_row f in f\<lparr>cell_row := (cell_row f)(c := Some r), vm_row := r\<rparr>)))"

text \<open>Typing into the two fields of the form, which are bound to \<open>vm.row\<close>.\<close>

definition type_name :: "string \<Rightarrow> form \<Rightarrow> form" where
  "type_name s f = f\<lparr>row_at := (row_at f)(vm_row f := (row_at f (vm_row f))\<lparr>row_name := Some s\<rparr>)\<rparr>"

definition type_type :: "string \<Rightarrow> form \<Rightarrow> form" where
  "type_type s f = f\<lparr>row_at := (row_at f)(vm_row f := (row_at f (vm_row f))\<lparr>row_type := Some s\<rparr>)\<rparr>"

text \<open>\<open>parse\<close> reads the row of the cell that the form is said to show; nothing sets that cell.\<close>

definition parse_form :: "string \<Rightarrow> string \<Rightarrow> form \<Rightarrow> form option" where
  "parse_form name typ f =
     Option.bind (form_cell f) (\<lambda>c. map_option (\<lambda>r.
       f\<lparr>row_at := (row_at f)(r := \<lparr>row_name = Some name, row_type = Some typ\<rparr>)\<rparr>) (cell_row f c))"

subsection \<open>Dropping an item\<close>

definition palette_style :: "string \<Rightarrow> string" where
  "palette_style name = name @ '';rounded=true;strokeColor=none;fillColor=yellow;size=12''"

text \<open>\<open>mcell.type = item.type; mcell.row = {}\<close>.\<close>

definition give_data :: "palette_item \<Rightarrow> cref \<Rightarrow> form \<Rightarrow> form" where
  "give_data item mcell f =
     (let (r, f) = new_row (f\<lparr>cell_type := (cell_type f)(mcell := Some (it_type item))\<rparr>)
      in f\<lparr>cell_row := (cell_row f)(mcell := Some r)\<rparr>)"

definition drop_item ::
  "browser \<Rightarrow> palette_item \<Rightarrow> jsnum \<Rightarrow> jsnum \<Rightarrow> form \<times> string list \<times> mxGraph \<Rightarrow>
   (cref \<times> form \<times> string list \<times> mxGraph) option"
where
  "drop_item env item x y = (\<lambda>(f, map_type, g).
     let parent = getDefaultParent g;
         g = g\<lparr>g_model := beginUpdate (g_model g)\<rparr>;
         (name, map_type, g) = initType item (map_type, g)
     in map_option (\<lambda>(mcell, g). (mcell, give_data item mcell f, map_type, g\<lparr>g_model := endUpdate (g_model g)\<rparr>))
          (insertVertex env parent None (Some (VStr (it_name item))) (Some x) (Some y) (Some (sWidth item)) (Some (sHeight item))
             (Some (palette_style name)) None g))"

subsection \<open>The style of what is dropped\<close>

lemma initType_keeps:
  "g_model (snd (snd (initType item s))) = g_model (snd s)"
  "imageBundles (snd (snd (initType item s))) = imageBundles (snd s)"
  "n \<noteq> it_id item \<Longrightarrow> map_of (styles (stylesheet (snd (snd (initType item s))))) n = map_of (styles (stylesheet (snd s))) n"
  by (simp_all add: initType_def putCellStyle_def update_conv' split: prod.splits)

abbreviation init_types :: "palette_item list \<Rightarrow> string list \<times> mxGraph \<Rightarrow> string list \<times> mxGraph" where
  "init_types items s \<equiv> fold (\<lambda>item s. snd (initType item s)) items s"

lemma init_types_keeps:
  "g_model (snd (init_types items s)) = g_model (snd s)" "imageBundles (snd (init_types items s)) = imageBundles (snd s)"
  "n \<notin> it_id ` set items \<Longrightarrow>
     map_of (styles (stylesheet (snd (init_types items s)))) n = map_of (styles (stylesheet (snd s))) n"
  by (induction items arbitrary: s) (simp_all add: initType_keeps)

lemma initType_puts:
  "it_id item \<notin> set (fst s) \<Longrightarrow>
   map_of (styles (stylesheet (snd (snd (initType item s))))) (it_id item) = Some (start_style item)"
  "set (fst (snd (initType item s))) = insert (it_id item) (set (fst s))"
  by (auto simp: initType_def putCellStyle_def update_conv' split: prod.splits)

lemma initLeftPanel_finds:
  assumes "set (fst s) \<inter> it_id ` set p_data = {}" and "item \<in> set p_data"
  shows "map_of (styles (stylesheet (snd (initLeftPanel s)))) (it_id item) = Some (start_style item)"
proof -
  have "set (fst s) \<inter> it_id ` set items = {} \<Longrightarrow> distinct (map it_id items) \<Longrightarrow> item \<in> set items \<Longrightarrow>
      map_of (styles (stylesheet (snd (init_types items s)))) (it_id item) = Some (start_style item)"
    for items
  proof (induction items arbitrary: s)
    case (Cons i items)
    let ?s = "snd (initType i s)"
    have fresh: "set (fst ?s) \<inter> it_id ` set items = {}" "distinct (map it_id items)"
      using Cons.prems by (auto simp: initType_puts(2))
    show ?case
    proof (cases "item \<in> set items")
      case True
      then show ?thesis using Cons.IH [OF fresh] by simp
    next
      case False
      then have "item = i" using Cons.prems(3) by simp
      have "it_id i \<notin> it_id ` set items" using Cons.prems(2) by simp
      then show ?thesis
        using initType_puts(1) [of i s] Cons.prems(1) \<open>item = i\<close> init_types_keeps(3) [of "it_id i" items ?s] by simp
    qed
  qed simp
  moreover have "distinct (map it_id p_data)" by code_simp
  ultimately show ?thesis using assms by (simp add: initLeftPanel_def)
qed

lemma split_tail:
  "js_split CHR '';'' (palette_style name) =
     (if CHR '';'' \<in> set name then js_split CHR '';'' (palette_style name)
      else [name, ''rounded=true'', ''strokeColor=none'', ''fillColor=yellow'', ''size=12''])"
proof (cases "CHR '';'' \<in> set name")
  case False
  have "js_split CHR '';'' (name @ CHR '';'' # rest) = name # js_split CHR '';'' rest" for rest
    using False by (induction name) auto
  then show ?thesis using False by (simp add: palette_style_def)
qed simp

lemma token_parts:
  "js_str_indexOf ''rounded=true'' ''='' = 7" "js_substring ''rounded=true'' 0 7 = ''rounded''"
  "js_substring_from ''rounded=true'' 8 = ''true''" "isNumeric ''true'' = False"
  "js_str_indexOf ''strokeColor=none'' ''='' = 11" "js_substring ''strokeColor=none'' 0 11 = ''strokeColor''"
  "js_substring_from ''strokeColor=none'' 12 = ''none''"
  "js_str_indexOf ''fillColor=yellow'' ''='' = 9" "js_substring ''fillColor=yellow'' 0 9 = ''fillColor''"
  "js_substring_from ''fillColor=yellow'' 10 = ''yellow''" "isNumeric ''yellow'' = False"
  "js_str_indexOf ''size=12'' ''='' = 4" "js_substring ''size=12'' 0 4 = ''size''"
  "js_substring_from ''size=12'' 5 = ''12''" "isNumeric ''12''" "js_parseFloat ''12'' = Some 12"
  by code_simp+

lemma palette_tokens:
  "style_token sh ''rounded=true'' al = AList.update ''rounded'' (SStr ''true'') al"
  "style_token sh ''strokeColor=none'' al = AList.delete ''strokeColor'' al"
  "style_token sh ''fillColor=yellow'' al = AList.update ''fillColor'' (SStr ''yellow'') al"
  "style_token sh ''size=12'' al = AList.update ''size'' (SNum 12) al"
  by (simp_all add: style_token_def token_parts Let_def)

text \<open>What a dropped item looks like: the style of its type over the defaults, and four more keys.\<close>

definition palette_look :: "palette_item \<Rightarrow> style_obj \<Rightarrow> string \<Rightarrow> style_value option" where
  "palette_look item d key =
     (if key = ''strokeColor'' then None
      else if key = ''rounded'' then Some (SStr ''true'') else if key = ''fillColor'' then Some (SStr ''yellow'')
      else if key = ''size'' then Some (SNum 12)
      else case map_of (start_style item) key of None \<Rightarrow> map_of d key | Some v \<Rightarrow> Some v)"

lemma palette_resolves:
  assumes "map_of (styles sh) (it_id item) = Some (start_style item)" and "item \<in> set p_data"
  obtains s where "getCellStyle sh (Some (palette_style (it_id item))) (Some d) = Some s"
    "\<forall>key. map_of s key = palette_look item d key"
proof -
  have name: "CHR '';'' \<notin> set (it_id item)" "js_str_indexOf (it_id item) ''='' < 0" "it_id item \<noteq> []" "hd (it_id item) \<noteq> CHR '';''"
  proof -
    have "\<forall>i \<in> set (map it_id p_data). CHR '';'' \<notin> set i \<and> js_str_indexOf i ''='' < 0 \<and> i \<noteq> [] \<and> hd i \<noteq> CHR '';''"
      by code_simp
    then show "CHR '';'' \<notin> set (it_id item)" "js_str_indexOf (it_id item) ''='' < 0" "it_id item \<noteq> []" "hd (it_id item) \<noteq> CHR '';''"
      using assms(2) by auto
  qed
  have named: "style_token sh (it_id item) al = fold (\<lambda>(k, v). AList.update k v) (start_style item) al" for al
    using name(2) assms(1) by (simp add: style_token_def Let_def)
  have keys: "distinct (map fst (start_style item))" by (simp add: start_style_def)
  let ?s = "AList.update ''size'' (SNum 12) (AList.update ''fillColor'' (SStr ''yellow'') (AList.delete ''strokeColor''
    (AList.update ''rounded'' (SStr ''true'') (fold (\<lambda>(k, v). AList.update k v) (start_style item) d))))"
  have tokens: "js_split CHR '';'' (palette_style (it_id item)) =
      [it_id item, ''rounded=true'', ''strokeColor=none'', ''fillColor=yellow'', ''size=12'']"
    by (subst split_tail) (simp add: name(1))
  have first: "js_charAt (palette_style (it_id item)) 0 \<noteq> '';''" "palette_style (it_id item) \<noteq> []"
    using name(3,4) by (cases "it_id item"; simp add: js_charAt_def js_at_def palette_style_def)+
  show thesis
  proof (rule that)
    show "getCellStyle sh (Some (palette_style (it_id item))) (Some d) = Some ?s"
      using first by (simp add: getCellStyle_def tokens palette_tokens named)
    show "\<forall>key. map_of ?s key = palette_look item d key"
      by (auto simp: update_conv' delete_conv' map_of_fold_update [OF keys] palette_look_def)
  qed
qed

text \<open>C31: After \<open>initLeftPanel\<close>, a cell with the style string of a dropped item is painted with the image of the
  item: every key of the style is that of the item's type, or else the default for vertices, but for the four
  keys of the style string itself, which round and fill the shape and take its border away.\<close>

theorem dropped_item_look:
  assumes "set map_type \<inter> it_id ` set p_data = {}" and "item \<in> set p_data" and "imageBundles g = []"
    and "getDefaultVertexStyle (stylesheet g) = Some d"
    and "m_getStyle cell (g_model g) = Some (palette_style (it_id item))" and "\<not> isEdge cell (g_model g)"
  shows "\<exists>s. graph_getCellStyle cell (snd (initLeftPanel (map_type, g))) = Some s \<and>
    map_of s ''image'' = Some (SStr (''/resources/images/'' @ it_image item)) \<and>
    (\<forall>key. map_of s key = palette_look item d key)"
proof -
  let ?g = "snd (initLeftPanel (map_type, g))"
  have "''defaultVertex'' \<notin> set (map it_id p_data)" by code_simp
  then have g: "g_model ?g = g_model g" "imageBundles ?g = []" "getDefaultVertexStyle (stylesheet ?g) = Some d"
    using assms(3,4) by (simp_all add: getDefaultVertexStyle_def initLeftPanel_def init_types_keeps)
  have named: "map_of (styles (stylesheet ?g)) (it_id item) = Some (start_style item)"
    using initLeftPanel_finds [OF _ assms(2), where s = "(map_type, g)"] assms(1) by simp
  obtain s where s: "getCellStyle (stylesheet ?g) (Some (palette_style (it_id item))) (Some d) = Some s"
    "\<forall>key. map_of s key = palette_look item d key"
    by (rule palette_resolves [OF named assms(2), where d = d])
  have img: "map_of s ''image'' = Some (SStr (''/resources/images/'' @ it_image item))"
    by (simp add: s(2) palette_look_def start_style_def)
  have "\<forall>i \<in> set p_data. js_substring (''/resources/images/'' @ it_image i) 0 11 \<noteq> ''data:image/''" by code_simp
  then have "postProcessCellStyle (Some s) ?g = Some (Some s)"
    using img g(2) assms(2) by (simp add: postProcessCellStyle_def getImageFromBundles_def Let_def)
  then have "graph_getCellStyle cell ?g = Some s"
    using assms(5,6) by (simp add: graph_getCellStyle_def g s(1))
  then show ?thesis using img s(2) by blast
qed

definition dropped :: mxGraph where
  "dropped = new_mxGraph (sample\<lparr>cell_at := (cell_at sample)(3 := (cell_at sample 3)\<lparr>c_style := Some (palette_style ''t_output'')\<rparr>)\<rparr>) None"

theorem dropped_item_look_witness:
  "\<exists>s. graph_getCellStyle (Some 3) (snd (initLeftPanel ([], dropped))) = Some s \<and>
     map_of s ''image'' = Some (SStr ''/resources/images/i_refresh.png'') \<and> map_of s ''strokeColor'' = None"
proof -
  have "p_data ! 3 \<in> set p_data" by (simp add: p_data_def)
  moreover have d: "getDefaultVertexStyle (stylesheet dropped) = Some createDefaultVertexStyle"
    by (simp add: dropped_def graph_defaults) code_simp
  moreover have "it_id (p_data ! 3) = ''t_output''" "it_image (p_data ! 3) = ''i_refresh.png''" by (simp_all add: p_data_def)
  moreover have "imageBundles dropped = []" by (simp add: dropped_def graph_defaults)
  moreover have "m_getStyle (Some 3) (g_model dropped) = Some (palette_style ''t_output'')" "\<not> isEdge (Some 3) (g_model dropped)"
    by (simp_all add: dropped_def graph_defaults m_getStyle_def cell_getStyle_def isEdge_def cell_isEdge_def sample_cell_def blank_cell_def)
  ultimately obtain s where "graph_getCellStyle (Some 3) (snd (initLeftPanel ([], dropped))) = Some s"
    "map_of s ''image'' = Some (SStr (''/resources/images/'' @ ''i_refresh.png''))"
    "\<And>key. map_of s key = palette_look (p_data ! 3) createDefaultVertexStyle key"
    using dropped_item_look [of "[]" "p_data ! 3" dropped createDefaultVertexStyle "Some 3"] by auto
  then show ?thesis by (auto simp: palette_look_def)
qed

subsection \<open>What the form changes\<close>

inductive form_step :: "form \<Rightarrow> form \<Rightarrow> bool" where
  form_drop: "form_step f (give_data item c f)"
| form_click: "form_step f (on_click cell f)"
| form_name: "form_step f (type_name s f)"
| form_type: "form_step f (type_type s f)"

text \<open>Every row in use has been made, no two cells share one, and the form shows one.\<close>

definition form_inv :: "form \<Rightarrow> bool" where
  "form_inv f \<longleftrightarrow> (\<forall>c r. cell_row f c = Some r \<longrightarrow> r < nrows f) \<and> vm_row f < nrows f \<and> form_cell f = None \<and>
     (\<forall>c d r. cell_row f c = Some r \<and> cell_row f d = Some r \<longrightarrow> c = d)"

lemma form_step_inv: "form_step f f' \<Longrightarrow> form_inv f \<Longrightarrow> form_inv f'"
proof (induction rule: form_step.induct)
  case (form_drop f item c)
  then show ?case by (auto simp: form_inv_def give_data_def new_row_def Let_def less_Suc_eq)
next
  case (form_click f cell)
  then show ?case
    by (auto simp: form_inv_def on_click_def new_row_def Let_def less_Suc_eq split: option.splits) fastforce+
qed (simp_all add: form_inv_def type_name_def type_type_def)

text \<open>C33: Whatever has been dropped, clicked and typed before, what is typed into the form after a click on a cell
  becomes the data of this cell and of no other, and after a click on the background of none; the \<open>parse\<close>
  handler of the hidden button, which asks the form for its cell, fails in every case.\<close>

theorem form_edits_last_clicked:
  assumes "form_step\<^sup>*\<^sup>* initVue f" and "f1 = on_click cell f"
    and "f2 = type_type t (type_name s f1)"
  shows "(\<forall>c. cell = Some c \<longrightarrow> (\<exists>r. cell_row f2 c = Some r \<and> row_at f2 r = \<lparr>row_name = Some s, row_type = Some t\<rparr>)) \<and>
    (\<forall>d r. cell \<noteq> Some d \<and> cell_row f d = Some r \<longrightarrow> cell_row f2 d = Some r \<and> row_at f2 r = row_at f r) \<and>
    parse_form s t f2 = None"
proof -
  have inv: "form_inv f"
    using assms(1)
  proof (induction rule: rtranclp_induct)
    case base
    show ?case by (simp add: form_inv_def initVue_def)
  qed (blast intro: form_step_inv)
  have rows: "cell_row f d = Some r \<Longrightarrow> r < nrows f" "cell_row f c = Some r \<Longrightarrow> cell_row f d = Some r \<Longrightarrow> c = d" for c d r
    using inv by (auto simp: form_inv_def)
  have keep: "cell_row f1 d = Some r \<and> row_at f1 r = row_at f r \<and> vm_row f1 \<noteq> r"
    if "cell \<noteq> Some d" "cell_row f d = Some r" for d r
  proof (cases cell)
    case None
    then show ?thesis using that(2) rows(1) [OF that(2)] by (simp add: assms(2) on_click_def new_row_def)
  next
    case (Some c)
    show ?thesis
    proof (cases "cell_row f c")
      case None
      then show ?thesis using Some that rows(1) [OF that(2)] by (auto simp: assms(2) on_click_def new_row_def)
    next
      case (Some r')
      then have "r' \<noteq> r" using rows(2) [OF Some, of d] that \<open>cell = Some c\<close> by auto
      then show ?thesis
        using \<open>cell = Some c\<close> Some that(2) rows(1) [OF that(2)] by (simp add: assms(2) on_click_def new_row_def)
    qed
  qed
  have own: "cell_row f1 c = Some (vm_row f1)" if "cell = Some c" for c
    using that unfolding assms(2) by (auto simp: on_click_def new_row_def Let_def split: option.splits)
  have f2: "cell_row f2 = cell_row f1" "form_cell f2 = form_cell f1"
    "row_at f2 = (row_at f1)(vm_row f1 := \<lparr>row_name = Some s, row_type = Some t\<rparr>)"
    unfolding assms(3) by (simp_all add: type_name_def type_type_def, cases "row_at f1 (vm_row f1)", simp)
  have "form_cell f1 = None" using form_step_inv [OF form_click inv] by (simp add: assms(2) form_inv_def)
  then show ?thesis using keep own by (auto simp: f2 parse_form_def)
qed

theorem form_edits_last_clicked_witness:
  "\<exists>f. form_step\<^sup>*\<^sup>* initVue f \<and> cell_row f 7 = Some 1 \<and>
     parse_form ''a'' ''b'' (type_type ''b'' (type_name ''a'' (on_click (Some 7) f))) = None"
proof -
  let ?f = "give_data (hd p_data) 7 initVue"
  have "form_step\<^sup>*\<^sup>* initVue ?f" using form_drop by blast
  moreover have "cell_row ?f 7 = Some 1" by (simp add: give_data_def new_row_def initVue_def)
  ultimately show ?thesis using form_edits_last_clicked [OF _ refl refl, where f = ?f and cell = "Some 7"] by blast
qed

end
