(* ===== verification/HitTest.thy ===== *)
theory HitTest
  imports ViewProps
begin

text \<open>
  Finding cells by their place, view/mxGraph.js: which cell a point hits, which cells a rubber band
  encloses, on which cell dropped cells land, and what a click and a rubber band select.  The states of
  the view are the boxes and lines that are hit; \<open>None\<close> is a TypeError, or a walk that does not end.
\<close>

subsection \<open>What a point hits\<close>

text \<open>The loop of \<open>intersects\<close> over the points of an edge, from the point before.\<close>

fun near_points :: "jsnum \<Rightarrow> jsnum \<Rightarrow> jsnum \<Rightarrow> mxPoint option \<Rightarrow> mxPoint option list \<Rightarrow> bool option" where
  "near_points t2 x y pt [] = Some False"
| "near_points t2 x y pt (nxt # rest) =
     Option.bind pt (\<lambda>p. Option.bind nxt (\<lambda>q.
       if ptSegDistSq (px p) (py p) (px q) (py q) x y \<le> t2 then Some True else near_points t2 x y nxt rest))"

text \<open>\<open>mxUtils.getValue(state.style, 'rotation') || 0\<close>; \<open>None\<close> is NaN, with which no comparison holds.\<close>

definition state_rotation :: "mxCellState \<Rightarrow> jsnum option" where
  "state_rotation state = (case cs_style state of None \<Rightarrow> Some 0 | Some style \<Rightarrow> style_rotation style)"

definition intersects :: "painter \<Rightarrow> mxCellState option \<Rightarrow> jsnum \<Rightarrow> jsnum \<Rightarrow> mxGraph \<Rightarrow> bool option" where
  "intersects env state x y g =
     (case state of
        None \<Rightarrow> Some False
      | Some st \<Rightarrow>
          (case absolutePoints st of
             Some pts \<Rightarrow>
               (let t2 = tolerance g * tolerance g
                in case pts of [] \<Rightarrow> Some False | pt # rest \<Rightarrow> near_points t2 x y pt rest)
           | None \<Rightarrow>
               (case state_rotation st of
                  None \<Rightarrow> Some False
                | Some alpha \<Rightarrow>
                    (let pt = new_mxPoint (Some x) (Some y);
                         pt = (if alpha \<noteq> 0 then rotate_about (p_trig env (- alpha)) (cs_center st) pt else pt)
                     in Some (rect_contains (cs_bounds st) (px pt) (py pt))))))"

text \<open>A search over cells stops at the first that is found; the functions passed to it may keep a state.\<close>

type_synonym 's cell_test = "cref \<Rightarrow> 's \<Rightarrow> (cref option \<times> 's) option"

definition or_else :: "(cref option \<times> 's) option \<Rightarrow> ('s \<Rightarrow> (cref option \<times> 's) option) \<Rightarrow> (cref option \<times> 's) option" where
  "or_else r k = Option.bind r (\<lambda>(c, s). if c \<noteq> None then Some (c, s) else k s)"

fun first_found :: "'s cell_test \<Rightarrow> cref list \<Rightarrow> 's \<Rightarrow> (cref option \<times> 's) option" where
  "first_found f [] s = Some (None, s)"
| "first_found f (c # cs) s = or_else (f c s) (\<lambda>s. first_found f cs s)"

text \<open>The children from the last to the first, below each child first: the fuel bounds the depth.\<close>

fun cell_at_n :: "nat \<Rightarrow> 's cell_test \<Rightarrow> mxGraphModel \<Rightarrow> 's cell_test" where
  "cell_at_n 0 test m parent s = None"
| "cell_at_n (Suc n) test m parent s =
     first_found (\<lambda>cell s. or_else (cell_at_n n test m cell s) (test cell))
       (rev (children_of m parent)) s"

type_synonym 's ignore_fn = "cref \<Rightarrow> mxCellState \<Rightarrow> 's \<Rightarrow> bool \<times> 's"

definition test_cell ::
  "painter \<Rightarrow> jsnum \<Rightarrow> jsnum \<Rightarrow> bool \<Rightarrow> bool \<Rightarrow> 's ignore_fn option \<Rightarrow> mxGraph \<Rightarrow> 's cell_test"
where
  "test_cell env x y verts edgs ignoreFn g cell s =
     (let m = g_model g in
      if isCellVisible (Some cell) g \<and>
         (edgs \<and> isEdge (Some cell) m \<or> verts \<and> isVertex (Some cell) m) then
        (case getState (Some cell) g of
           None \<Rightarrow> Some (None, s)
         | Some state \<Rightarrow>
             (let (ignored, s) = (case ignoreFn of None \<Rightarrow> (False, s) | Some f \<Rightarrow> f cell state s)
              in if ignored then Some (None, s)
                 else map_option (\<lambda>hit. (if hit then Some cell else None, s)) (intersects env (Some state) x y g)))
      else Some (None, s))"

definition getCellAt ::
  "painter \<Rightarrow> jsnum \<Rightarrow> jsnum \<Rightarrow> cref option \<Rightarrow> bool option \<Rightarrow> bool option \<Rightarrow> 's ignore_fn option \<Rightarrow>
   mxGraph \<Rightarrow> 's \<Rightarrow> (cref option \<times> 's) option"
where
  "getCellAt env x y parent verts edgs ignoreFn g s =
     (let m = g_model g;
          verts = (case verts of None \<Rightarrow> True | Some b \<Rightarrow> b);
          edgs = (case edgs of None \<Rightarrow> True | Some b \<Rightarrow> b);
          parent = (if parent \<noteq> None then parent else
                    if getCurrentRoot g \<noteq> None then getCurrentRoot g else m_root m)
      in case parent of
           None \<Rightarrow> Some (None, s)
         | Some p \<Rightarrow> cell_at_n (walk_fuel m) (test_cell env x y verts edgs ignoreFn g) m p s)"

subsection \<open>Swimlanes\<close>

text \<open>\<open>while (cell != null && cond(cell)) cell = model.getParent(cell)\<close>\<close>

fun climb_while :: "nat \<Rightarrow> mxGraphModel \<Rightarrow> (cref \<Rightarrow> bool option) \<Rightarrow> cref option \<Rightarrow> cref option option" where
  "climb_while n m cond None = Some None"
| "climb_while 0 m cond (Some c) = None"
| "climb_while (Suc n) m cond (Some c) =
     Option.bind (cond c) (\<lambda>b. if b then climb_while n m cond (cell_getParent c m) else Some (Some c))"

definition getSwimlane :: "cref option \<Rightarrow> mxGraph \<Rightarrow> cref option option" where
  "getSwimlane cell g =
     climb_while (walk_fuel (g_model g)) (g_model g) (\<lambda>c. map_option Not (isSwimlane (Some c) g)) cell"

definition test_swimlane :: "painter \<Rightarrow> jsnum \<Rightarrow> jsnum \<Rightarrow> mxGraph \<Rightarrow> unit cell_test" where
  "test_swimlane env x y g child s =
     Option.bind (isSwimlane (Some child) g) (\<lambda>lane.
       if lane then map_option (\<lambda>hit. (if hit then Some child else None, s))
              (intersects env (getState (Some child) g) x y g)
       else Some (None, s))"

fun swimlane_at_n :: "nat \<Rightarrow> unit cell_test \<Rightarrow> mxGraphModel \<Rightarrow> unit cell_test" where
  "swimlane_at_n 0 test m parent s = None"
| "swimlane_at_n (Suc n) test m parent s =
     first_found (\<lambda>child s. or_else (swimlane_at_n n test m child s) (test child))
       (children_of m parent) s"

definition getSwimlaneAt :: "painter \<Rightarrow> jsnum \<Rightarrow> jsnum \<Rightarrow> cref option \<Rightarrow> mxGraph \<Rightarrow> cref option option" where
  "getSwimlaneAt env x y parent g =
     (case (if parent \<noteq> None then parent else getDefaultParent g) of
        None \<Rightarrow> Some None
      | Some p \<Rightarrow>
          map_option fst (swimlane_at_n (walk_fuel (g_model g)) (test_swimlane env x y g) (g_model g) p ()))"

definition hitsSwimlaneContent :: "cref option \<Rightarrow> jsnum \<Rightarrow> jsnum \<Rightarrow> mxGraph \<Rightarrow> bool option" where
  "hitsSwimlaneContent swimlane x y g =
     (let state = getState swimlane g
      in map_option (\<lambda>sz.
           case state of
             None \<Rightarrow> False
           | Some st \<Rightarrow>
               (let s = scale (g_view g); x = x - px (cs_bounds st); y = y - py (cs_bounds st)
                in if width sz > 0 \<and> x > 0 \<and> x > width sz * s then True
                   else if height sz > 0 \<and> y > 0 \<and> y > height sz * s then True else False))
           (getStartSize swimlane g))"

subsection \<open>Where dropped cells land\<close>

definition isValidDropTarget ::
  "mxResources \<Rightarrow> cref option \<Rightarrow> cref option list option \<Rightarrow> mxGraph \<Rightarrow> bool option" where
  "isValidDropTarget res cell cells g =
     (let m = g_model g in
      if cell \<noteq> None then
        Option.bind (if splitEnabled g then isSplitTarget res cell cells g else Some False) (\<lambda>split.
          if split then Some True
          else if isEdge cell m then Some False
          else map_option (\<lambda>lane. lane \<or> getChildCount cell m > 0 \<and> \<not> isCellCollapsed cell g)
                 (isSwimlane cell g))
      else Some False)"

fun some_swimlane :: "cref option list \<Rightarrow> mxGraph \<Rightarrow> bool option" where
  "some_swimlane [] g = Some False"
| "some_swimlane (c # cs) g =
     Option.bind (isSwimlane c g) (\<lambda>b. if b then Some True else some_swimlane cs g)"

text \<open>\<open>x\<close> and \<open>y\<close>: the place of the mouse in the container, less what the graph has been panned.\<close>

definition getDropTarget ::
  "painter \<Rightarrow> mxResources \<Rightarrow> cref option list \<Rightarrow> jsnum \<Rightarrow> jsnum \<Rightarrow> cref option \<Rightarrow> bool option \<Rightarrow> mxGraph \<Rightarrow>
   cref option option"
where
  "getDropTarget env res cells x y cell clone g =
     (let m = g_model g; n = walk_fuel m in
      Option.bind (if \<not> isSwimlaneNesting g then some_swimlane cells g else Some False) (\<lambda>nested.
      if nested then Some None
      else
        Option.bind (getSwimlaneAt env x y None g) (\<lambda>swimlane.
        Option.bind
          (if cell = None then Some swimlane
           else if swimlane \<noteq> None then
             map_option (\<lambda>tmp. if tmp = cell then swimlane else cell)
               (climb_while n m (\<lambda>c. map_option (\<lambda>lane. lane \<and> Some c \<noteq> cell) (isSwimlane (Some c) g))
                  (getParent swimlane m))
           else Some cell) (\<lambda>cell.
        Option.bind
          (climb_while n m (\<lambda>c. map_option (\<lambda>valid. \<not> valid \<and> \<not> isLayer (Some c) m)
             (isValidDropTarget res (Some c) (Some cells) g)) cell) (\<lambda>cell.
        map_option (\<lambda>parent. if \<not> isLayer cell m \<and> parent = None then cell else None)
          (if clone = None \<or> clone = Some False
           then climb_while n m (\<lambda>c. Some (Some c \<notin> set cells)) cell
           else Some None))))))"

subsection \<open>Rubber bands\<close>

definition mx_getBoundingBox ::
  "(jsnum \<Rightarrow> jsnum \<times> jsnum) \<Rightarrow> mxRectangle option \<Rightarrow> jsnum option \<Rightarrow> mxPoint option \<Rightarrow> mxRectangle option"
where
  "mx_getBoundingBox tg rect rotation cx =
     (case (rect, rotation) of
        (Some r, Some deg) \<Rightarrow>
          (if deg \<noteq> 0 then
             (let (co, si) = tg deg;
                  c = (case cx of Some c \<Rightarrow> c | None \<Rightarrow>
                         new_mxPoint (Some (px r + width r / 2)) (Some (py r + height r / 2)));
                  corner = (\<lambda>x y. getRotatedPoint (new_mxPoint (Some x) (Some y)) co si (Some c));
                  box = (\<lambda>p :: mxPoint. new_mxRectangle (Some (px p)) (Some (py p)) (Some 0) (Some 0));
                  result = box (corner (px r) (py r));
                  result = rect_add result (Some (box (corner (px r + width r) (py r))));
                  result = rect_add result (Some (box (corner (px r + width r) (py r + height r))));
                  result = rect_add result (Some (box (corner (px r) (py r + height r))))
              in Some result)
           else None)
      | _ \<Rightarrow> None)"

definition enclosed_by :: "painter \<Rightarrow> mxRectangle \<Rightarrow> mxCellState \<Rightarrow> bool" where
  "enclosed_by env area state \<longleftrightarrow>
     (case state_rotation state of
        None \<Rightarrow> False
      | Some deg \<Rightarrow>
          (let box = (if deg \<noteq> 0 then the (mx_getBoundingBox (p_trig env) (Some (cs_bounds state)) (Some deg) None)
                      else cs_bounds state)
           in px box \<ge> px area \<and> py box + height box \<le> py area + height area \<and>
              py box \<ge> py area \<and> px box + width box \<le> px area + width area))"

fun cells_in_n :: "nat \<Rightarrow> painter \<Rightarrow> mxRectangle \<Rightarrow> mxGraph \<Rightarrow> cref \<Rightarrow> cref list option" where
  "cells_in_n 0 env area g parent = None"
| "cells_in_n (Suc n) env area g parent =
     collect (\<lambda>cell. case getState (Some cell) g of
         None \<Rightarrow> Some []
       | Some state \<Rightarrow>
           if isCellVisible (Some cell) g then
             (if (isEdge (Some cell) (g_model g) \<or> isVertex (Some cell) (g_model g)) \<and> enclosed_by env area state
              then Some [cell] else cells_in_n n env area g cell)
           else Some []) (children_of (g_model g) parent)"

definition getCells ::
  "painter \<Rightarrow> jsnum \<Rightarrow> jsnum \<Rightarrow> jsnum \<Rightarrow> jsnum \<Rightarrow> cref option \<Rightarrow> cref list option \<Rightarrow> mxGraph \<Rightarrow> cref list option"
where
  "getCells env x y w h parent result g =
     (let m = g_model g; result = (case result of None \<Rightarrow> [] | Some r \<Rightarrow> r) in
      if w > 0 \<or> h > 0 then
        (case (if parent \<noteq> None then parent else
               if getCurrentRoot g \<noteq> None then getCurrentRoot g else m_root m) of
           None \<Rightarrow> Some result
         | Some p \<Rightarrow>
             map_option (\<lambda>cs. result @ cs)
               (cells_in_n (walk_fuel m) env (new_mxRectangle (Some x) (Some y) (Some w) (Some h)) g p))
      else Some result)"

subsection \<open>What the mouse selects\<close>

text \<open>The answers of the browser to an event: whether the control key toggles, and whether the click is
  to go through what is selected.\<close>

definition selectCellForEvent :: "cref option \<Rightarrow> bool \<Rightarrow> mxGraph \<Rightarrow> mxGraph" where
  "selectCellForEvent cell toggle g =
     (let selected = isSelected cell (selectionModel g) in
      if toggle then (if selected then removeSelectionCell cell g else addSelectionCell cell g)
      else if \<not> selected \<or> getSelectionCount g \<noteq> 1 then setSelectionCell cell g
      else g)"

definition selectCellsForEvent :: "cells \<Rightarrow> bool \<Rightarrow> mxGraph \<Rightarrow> mxGraph" where
  "selectCellsForEvent cs toggle g =
     (if toggle then addSelectionCells cs g else setSelectionCells cs g)"

definition selectRegion :: "painter \<Rightarrow> mxRectangle \<Rightarrow> bool \<Rightarrow> mxGraph \<Rightarrow> (cref list \<times> mxGraph) option" where
  "selectRegion env r toggle g =
     map_option (\<lambda>cells. (cells, selectCellsForEvent (Some (map Some cells)) toggle g))
       (getCells env (px r) (py r) (width r) (height r) None None g)"

text \<open>The filter of a click that goes through: nothing before the first selected cell, and no selected cell.\<close>

definition behind_selected :: "mxGraph \<Rightarrow> bool ignore_fn" where
  "behind_selected g cell state active =
     (let selected = isSelected (Some cell) (selectionModel g); active = active \<or> selected
      in (\<not> active \<or> selected, active))"

text \<open>\<open>click\<close> after its event has been fired; \<open>live\<close>: the graph is enabled and no listener has consumed
  the event.\<close>

definition graph_click ::
  "painter \<Rightarrow> cref option \<Rightarrow> jsnum \<Rightarrow> jsnum \<Rightarrow> bool \<Rightarrow> bool \<Rightarrow> bool \<Rightarrow> mxGraph \<Rightarrow> mxGraph option"
where
  "graph_click env cell x y live toggle through g =
     (if live then
        (if cell \<noteq> None then
           (if through then
              map_option (\<lambda>(tmp, active). selectCellForEvent (if tmp \<noteq> None then tmp else cell) toggle g)
                (getCellAt env x y None None None (Some (behind_selected g)) g False)
            else Some (selectCellForEvent cell toggle g))
         else
           map_option (\<lambda>swimlane.
               if swimlane \<noteq> None then selectCellForEvent swimlane toggle g
               else if \<not> toggle then clearSelection g else g)
             (if isSwimlaneSelectionEnabled g then getSwimlaneAt env x y None g else Some None))
      else Some g)"


subsection \<open>The order of the search\<close>

text \<open>The search goes through what is painted from the front to the back: the descendants in the reverse of
  their order.\<close>

lemma or_else_assoc: "or_else (or_else r k) k' = or_else r (\<lambda>s. or_else (k s) k')"
  by (cases r) (auto simp: or_else_def)

lemma or_else_none [simp]: "or_else r (\<lambda>s. Some (None, s)) = r"
  by (cases r) (auto simp: or_else_def)

lemma or_else_miss [simp]: "or_else (Some (None, s)) k = k s"
  by (simp add: or_else_def)

lemma first_found_fun:
  "first_found f [] = (\<lambda>s. Some (None, s))" "first_found f (c # cs) = (\<lambda>s. or_else (f c s) (first_found f cs))"
  by (simp_all add: fun_eq_iff)

lemma first_found_append:
  "first_found f (xs @ ys) = (\<lambda>s. or_else (first_found f xs s) (first_found f ys))"
  by (induction xs) (simp_all add: first_found_fun or_else_assoc)

lemma descend_head:
  assumes "descend n (\<lambda>c. True) m c = Some ds"
  shows "ds = c # tl ds"
  using assms by (cases n) auto

lemma cell_at_n_order:
  "descend n (\<lambda>c. True) m p = Some (p # ds) \<Longrightarrow> cell_at_n n test m p s = first_found test (rev ds) s"
proof (induction n arbitrary: p ds s)
  case 0
  then show ?case by simp
next
  case (Suc n)
  let ?sub = "\<lambda>c. tl (the (descend n (\<lambda>c. True) m c))"
  from Suc.prems have "collect (descend n (\<lambda>c. True) m) (children_of m p) = Some ds" by auto
  then have cs: "\<forall>c \<in> set (children_of m p). descend n (\<lambda>c. True) m c \<noteq> None"
    and ds: "ds = concat (map (\<lambda>c. the (descend n (\<lambda>c. True) m c)) (children_of m p))"
    by (simp_all add: collect_Some_iff)
  have sub: "descend n (\<lambda>c. True) m c = Some (c # ?sub c)" if "c \<in> set (children_of m p)" for c
    using cs that descend_head by fastforce
  have "first_found (\<lambda>cell s. or_else (cell_at_n n test m cell s) (test cell)) (rev xs) =
      first_found test (rev (concat (map (\<lambda>c. the (descend n (\<lambda>c. True) m c)) xs)))"
    if "set xs \<subseteq> set (children_of m p)" for xs
    using that
  proof (induction xs rule: rev_induct)
    case (snoc c xs)
    then have c: "descend n (\<lambda>c. True) m c = Some (c # ?sub c)" using sub by simp
    have "cell_at_n n test m c s = first_found test (rev (?sub c)) s" for s by (rule Suc.IH [OF c])
    moreover have "rev (the (descend n (\<lambda>c. True) m c)) = rev (?sub c) @ [c]" by (subst c) simp
    ultimately show ?case using snoc by (simp add: first_found_fun first_found_append or_else_assoc)
  qed (simp add: first_found_fun)
  then show ?case by (simp add: ds)
qed

subsection \<open>What is found\<close>

definition findable :: "bool \<Rightarrow> bool \<Rightarrow> mxGraph \<Rightarrow> cref \<Rightarrow> bool" where
  "findable verts edgs g c \<longleftrightarrow>
     isCellVisible (Some c) g \<and> getState (Some c) g \<noteq> None \<and>
     (edgs \<and> isEdge (Some c) (g_model g) \<or> verts \<and> isVertex (Some c) (g_model g))"

definition hit_at :: "painter \<Rightarrow> jsnum \<Rightarrow> jsnum \<Rightarrow> mxGraph \<Rightarrow> cref \<Rightarrow> bool" where
  "hit_at env x y g c \<longleftrightarrow> intersects env (getState (Some c) g) x y g = Some True"

text \<open>The points of the edges that are shown have been computed.\<close>

definition lines_known :: "mxGraph \<Rightarrow> bool" where
  "lines_known g \<longleftrightarrow> (\<forall>c st pts. getState (Some c) g = Some st \<and> absolutePoints st = Some pts \<longrightarrow> None \<notin> set pts)"

lemma near_points_known: "None \<notin> set (pt # pts) \<Longrightarrow> near_points t2 x y pt pts \<noteq> None"
proof (induction pts arbitrary: pt)
  case (Cons a pts)
  then obtain p q where "pt = Some p" "a = Some q" by (cases pt; cases a) auto
  with Cons.IH [of a] Cons.prems show ?case by auto
qed simp

lemma intersects_known:
  assumes "lines_known g"
  shows "intersects env (getState (Some c) g) x y g = Some (hit_at env x y g c)"
proof -
  have "intersects env (getState (Some c) g) x y g \<noteq> None"
  proof (cases "getState (Some c) g")
    case (Some st)
    show ?thesis
    proof (cases "absolutePoints st")
      case (Some pts)
      with assms \<open>getState (Some c) g = Some st\<close> have "None \<notin> set pts" by (simp add: lines_known_def)
      with Some \<open>getState (Some c) g = Some st\<close> near_points_known show ?thesis
        by (cases pts) (auto simp: intersects_def Let_def)
    qed (use Some in \<open>auto simp: intersects_def Let_def split: option.split\<close>)
  qed (simp add: intersects_def)
  then show ?thesis by (auto simp: hit_at_def)
qed

lemma test_cell_known:
  assumes "lines_known g"
  shows "test_cell env x y verts edgs ignoreFn g c s =
    (if findable verts edgs g c then
       (let (ignored, s) = (case ignoreFn of None \<Rightarrow> (False, s)
          | Some f \<Rightarrow> f c (the (getState (Some c) g)) s)
        in Some (if \<not> ignored \<and> hit_at env x y g c then Some c else None, s))
     else Some (None, s))"
proof (cases "getState (Some c) g")
  case (Some st)
  with intersects_known [OF assms, of env c x y] have "intersects env (Some st) x y g = Some (hit_at env x y g c)"
    by simp
  then show ?thesis
    unfolding test_cell_def findable_def Let_def Some option.sel by (auto simp: split_beta)
qed (simp add: test_cell_def findable_def Let_def)

lemma first_found_find:
  assumes "\<And>c s. test c s = Some (if P c then Some c else None, s)"
  shows "first_found test cs s = Some (List.find P cs, s)"
  by (induction cs) (simp_all add: assms or_else_def)

lemma preorder:
  assumes "heap_wf m" and "tree_inv m"
  obtains ds where "descend (walk_fuel m) (\<lambda>c. True) m p = Some (p # ds)"
    "getDescendants (Some p) m = Some (map Some (p # ds))"
proof -
  have "walk_fuel m + length (ancestors m p) \<ge> ncells m + 2"
    using ancestors_not_Nil [OF assms(1), of p] by (cases "ancestors m p") (simp_all add: walk_fuel_def)
  then obtain cs where cs: "descend (walk_fuel m) (\<lambda>c. True) m p = Some cs"
    using descend_total [OF assms] by blast
  from that [of "tl cs"] descend_head [OF cs] cs show thesis
    by (simp add: getDescendants_def filterDescendants_def)
qed

lemma getCellAt_search:
  assumes "heap_wf (g_model g)" and "tree_inv (g_model g)"
    and "(if parent \<noteq> None then parent else
      if getCurrentRoot g \<noteq> None then getCurrentRoot g else m_root (g_model g)) = Some p"
  obtains ds where "getDescendants (Some p) (g_model g) = Some (map Some (p # ds))"
    "\<And>env x y verts edgs ignoreFn s. getCellAt env x y parent (Some verts) (Some edgs) ignoreFn g s =
       first_found (test_cell env x y verts edgs ignoreFn g) (rev ds) s"
    "\<And>env x y ignoreFn s. getCellAt env x y parent None None ignoreFn g s =
       first_found (test_cell env x y True True ignoreFn g) (rev ds) s"
proof -
  obtain ds where ds: "descend (walk_fuel (g_model g)) (\<lambda>c. True) (g_model g) p = Some (p # ds)"
    "getDescendants (Some p) (g_model g) = Some (map Some (p # ds))"
    using preorder [OF assms(1,2)] .
  show thesis
    by (rule that [OF ds(2)])
      (simp_all add: getCellAt_def Let_def assms(3) cell_at_n_order [OF ds(1)] del: not_None_eq)
qed

subsection \<open>A drawing under the mouse\<close>

text \<open>The drawing with the boxes of its two vertices; 3 lies in front of 2.\<close>

definition boxed :: "jsnum \<Rightarrow> jsnum \<Rightarrow> jsnum \<Rightarrow> jsnum \<Rightarrow> mxCellState" where
  "boxed x y w h = (new_mxCellState None)\<lparr>cs_bounds := new_mxRectangle (Some x) (Some y) (Some w) (Some h)\<rparr>"

definition drawn :: mxGraph where
  "drawn = drawing_graph\<lparr>g_view := (g_view drawing_graph)\<lparr>states := Map.empty
     (2 \<mapsto> boxed 10 20 100 100, 3 \<mapsto> boxed 15 26 30 20)\<rparr>\<rparr>"

lemma drawn_simps [simp]: "g_model drawn = drawing" "own_isCellVisible drawn = None" "getCurrentRoot drawn = None"
  by (simp_all add: drawn_def getCurrentRoot_def)

lemma selection_invisible [simp]:
  "getState cell (g\<lparr>selectionModel := s\<rparr>) = getState cell g"
  "intersects env st x y (g\<lparr>selectionModel := s\<rparr>) = intersects env st x y g"
  "findable verts edgs (g\<lparr>selectionModel := s\<rparr>) = findable verts edgs g"
  "hit_at env x y (g\<lparr>selectionModel := s\<rparr>) = hit_at env x y g"
  "lines_known (g\<lparr>selectionModel := s\<rparr>) = lines_known g"
  "getCurrentRoot (g\<lparr>selectionModel := s\<rparr>) = getCurrentRoot g"
proof -
  show state: "getState cell (g\<lparr>selectionModel := s\<rparr>) = getState cell g" for cell by (cases cell) (simp_all add: getState_def)
  show cut: "intersects env st x y (g\<lparr>selectionModel := s\<rparr>) = intersects env st x y g" for st
    by (simp add: intersects_def cong: option.case_cong list.case_cong)
  show "findable verts edgs (g\<lparr>selectionModel := s\<rparr>) = findable verts edgs g"
    by (simp add: fun_eq_iff findable_def state isCellVisible_def split: option.split)
  show "hit_at env x y (g\<lparr>selectionModel := s\<rparr>) = hit_at env x y g"
    by (simp add: fun_eq_iff hit_at_def state cut)
  show "lines_known (g\<lparr>selectionModel := s\<rparr>) = lines_known g" by (simp add: lines_known_def state)
  show "getCurrentRoot (g\<lparr>selectionModel := s\<rparr>) = getCurrentRoot g" by (simp add: getCurrentRoot_def)
qed

definition drawn_selected :: mxGraph where
  "drawn_selected = drawn\<lparr>selectionModel := (selectionModel drawn)\<lparr>sel_cells := [3]\<rparr>\<rparr>"

lemma drawn_boxes:
  "lines_known drawn" "findable True True drawn c \<longleftrightarrow> c = 2 \<or> c = 3"
  "hit_at blind 20 30 drawn 3" "hit_at blind 20 30 drawn 2"
  "getDescendants (Some 0) drawing = Some (map Some (0 # ds)) \<Longrightarrow> ds = [1, 2, 3]"
proof -
  show "lines_known drawn"
    by (auto simp: lines_known_def drawn_def getState_def boxed_def new_mxCellState_def)
  show "findable True True drawn c \<longleftrightarrow> c = 2 \<or> c = 3"
    by (auto simp: findable_def isCellVisible_def drawing_facts getState_def drawn_def isVertex_def isEdge_def
        cell_isVertex_def drawing_cell_def blank_cell_def)
  show "hit_at blind 20 30 drawn 3" "hit_at blind 20 30 drawn 2"
    by (simp_all add: hit_at_def intersects_def drawn_def getState_def boxed_def new_mxCellState_def
        state_rotation_def rect_contains_def new_mxRectangle_def new_mxPoint_def js_default_def)
  have "getDescendants (Some 0) drawing = Some (map Some [0, 1, 2, 3])"
    by (simp add: getDescendants_def filterDescendants_def walk_fuel_def drawing_children numeral_eq_Suc)
  then show "getDescendants (Some 0) drawing = Some (map Some (0 # ds)) \<Longrightarrow> ds = [1, 2, 3]"
    by (simp only: option.inject inj_map_eq_map [OF inj_Some]) simp
qed

text \<open>C9: \<open>getCellAt\<close> returns the cell in front: of the visible cells below the parent that are of the wanted kinds
  and whose state the point hits, the one that is painted last, or null where there is none.\<close>

theorem getCellAt_topmost:
  assumes "heap_wf (g_model g)" and "tree_inv (g_model g)" and "lines_known g"
  shows "\<exists>ds. getDescendants (Some p) (g_model g) = Some (map Some (p # ds)) \<and>
    getCellAt env x y (Some p) (Some verts) (Some edgs) None g s =
      Some (List.find (\<lambda>c. findable verts edgs g c \<and> hit_at env x y g c) (rev ds), s)"
proof -
  obtain ds where ds: "getDescendants (Some p) (g_model g) = Some (map Some (p # ds))"
    "getCellAt env x y (Some p) (Some verts) (Some edgs) None g s =
       first_found (test_cell env x y verts edgs None g) (rev ds) s"
    using getCellAt_search [OF assms(1,2), of "Some p" p] by (metis option.distinct(1))
  have "first_found (test_cell env x y verts edgs None g) (rev ds) s =
      Some (List.find (\<lambda>c. findable verts edgs g c \<and> hit_at env x y g c) (rev ds), s)"
    by (rule first_found_find) (simp add: test_cell_known [OF assms(3)])
  with ds show ?thesis by auto
qed

theorem getCellAt_topmost_witness:
  "getCellAt blind 20 30 (Some 0) (Some True) (Some True) None drawn () = Some (Some 3, ())"
proof -
  obtain ds where "getDescendants (Some 0) drawing = Some (map Some (0 # ds))" and
    r: "getCellAt blind 20 30 (Some 0) (Some True) (Some True) None drawn () =
      Some (List.find (\<lambda>c. findable True True drawn c \<and> hit_at blind 20 30 drawn c) (rev ds), ())"
    using getCellAt_topmost [of drawn 0 blind 20 30 True True "()"] drawing_wf drawing_tree drawn_boxes(1)
    by (auto simp del: list.map)
  then have "ds = [1, 2, 3]" by (intro drawn_boxes(5))
  with r show ?thesis by (simp add: drawn_boxes)
qed

lemma first_found_behind:
  assumes "\<And>c s. test c s =
    (if shown c then Some (if (s \<or> sel c) \<and> \<not> sel c \<and> hit c then Some c else None, s \<or> sel c)
     else Some (None, s))"
  shows "\<exists>b. first_found test cs active =
    Some (List.find (\<lambda>c. \<not> sel c \<and> hit c)
      ((if active then id else dropWhile (\<lambda>c. \<not> sel c)) (filter shown cs)), b)"
proof (induction cs arbitrary: active)
  case (Cons c cs)
  note step = assms [of c True] assms [of c False]
  show ?case
    using Cons.IH [of True] Cons.IH [of False]
    by (cases active; cases "sel c"; cases "shown c") (auto simp: step or_else_def)
qed simp

text \<open>C18: A click that goes through the selection selects the cell behind: going through what is shown from the
  front to the back, the first cell under the mouse that comes after a selected cell and is not selected; the clicked
  cell where there is none.\<close>

theorem click_goes_through:
  assumes "heap_wf (g_model g)" and "tree_inv (g_model g)" and "lines_known g"
    and "getCurrentRoot g = None" and "m_root (g_model g) = Some p"
  shows "\<exists>ds. getDescendants (Some p) (g_model g) = Some (map Some (p # ds)) \<and>
    graph_click env (Some cell) x y True toggle True g =
      Some (selectCellForEvent
        (case List.find (\<lambda>c. \<not> isSelected (Some c) (selectionModel g) \<and> hit_at env x y g c)
            (dropWhile (\<lambda>c. \<not> isSelected (Some c) (selectionModel g)) (filter (findable True True g) (rev ds))) of
           None \<Rightarrow> Some cell | Some c \<Rightarrow> Some c) toggle g)"
proof -
  obtain ds where ds: "getDescendants (Some p) (g_model g) = Some (map Some (p # ds))"
    "getCellAt env x y None None None (Some (behind_selected g)) g False =
       first_found (test_cell env x y True True (Some (behind_selected g)) g) (rev ds) False"
    using getCellAt_search [OF assms(1,2), of None p] assms(4,5) by (metis option.distinct(1))
  have "\<exists>b. first_found (test_cell env x y True True (Some (behind_selected g)) g) (rev ds) False =
    Some (List.find (\<lambda>c. \<not> isSelected (Some c) (selectionModel g) \<and> hit_at env x y g c)
      ((if False then id else dropWhile (\<lambda>c. \<not> isSelected (Some c) (selectionModel g)))
        (filter (findable True True g) (rev ds))), b)"
    by (rule first_found_behind) (auto simp: test_cell_known [OF assms(3)] behind_selected_def Let_def)
  with ds show ?thesis by (auto simp: graph_click_def split: option.splits)
qed

theorem click_goes_through_witness:
  "graph_click blind (Some 3) 20 30 True False True drawn_selected = Some (selectCellForEvent (Some 2) False drawn_selected)"
proof -
  let ?g = drawn_selected
  have same: "g_model ?g = drawing" "getCurrentRoot ?g = None" "findable True True ?g = findable True True drawn"
    "hit_at blind 20 30 ?g = hit_at blind 20 30 drawn" "lines_known ?g"
    and sel: "isSelected (Some c) (selectionModel ?g) \<longleftrightarrow> c = 3" for c
    using drawn_boxes(1) by (simp_all add: drawn_selected_def isSelected_def mx_indexOf_def)
  obtain ds where ds: "getDescendants (Some 0) drawing = Some (map Some (0 # ds))" and
    r: "graph_click blind (Some 3) 20 30 True False True ?g =
      Some (selectCellForEvent
        (case List.find (\<lambda>c. \<not> isSelected (Some c) (selectionModel ?g) \<and> hit_at blind 20 30 ?g c)
            (dropWhile (\<lambda>c. \<not> isSelected (Some c) (selectionModel ?g)) (filter (findable True True ?g) (rev ds))) of
           None \<Rightarrow> Some 3 | Some c \<Rightarrow> Some c) False ?g)"
    using click_goes_through [of ?g 0 blind 3 20 30 False] drawing_wf drawing_tree same(1,2,5)
    by (auto simp del: list.map)
  from ds have "ds = [1, 2, 3]" by (rule drawn_boxes(5))
  with r show ?thesis by (simp add: same sel drawn_boxes)
qed

end
