(* ===== verification/ViewFrame.thy ===== *)
theory ViewFrame
  imports ViewProps
begin

text \<open>
  What the operations of the view leave alone, view/mxGraphView.js: they write states and the bounds of the diagram,
  and fire events; model, selection, settings, scale, translation and current root stay, where the operation does not set them.
\<close>

definition behind_states :: "mxGraph \<Rightarrow> mxGraph" where
  "behind_states g = g\<lparr>g_view := (g_view g)\<lparr>states := Map.empty, graphBounds := new_mxRectangle None None None None\<rparr>\<rparr>"

lemma behind_statesD:
  assumes "behind_states g' = behind_states g"
  shows "g_model g' = g_model g" "selectionModel g' = selectionModel g" "scale (g_view g') = scale (g_view g)"
    "translate (g_view g') = translate (g_view g)" "currentRoot (g_view g') = currentRoot (g_view g)"
    "v_fired (g_view g') = v_fired (g_view g)" "g_fired g' = g_fired g" "defaultParent g' = defaultParent g"
proof -
  have "g_model (behind_states g') = g_model (behind_states g)"
    "selectionModel (behind_states g') = selectionModel (behind_states g)"
    "scale (g_view (behind_states g')) = scale (g_view (behind_states g))"
    "translate (g_view (behind_states g')) = translate (g_view (behind_states g))"
    "currentRoot (g_view (behind_states g')) = currentRoot (g_view (behind_states g))"
    "v_fired (g_view (behind_states g')) = v_fired (g_view (behind_states g))"
    "g_fired (behind_states g') = g_fired (behind_states g)" 
    "defaultParent (behind_states g') = defaultParent (behind_states g)"
    by (simp_all only: assms)
  then show "g_model g' = g_model g" "selectionModel g' = selectionModel g" "scale (g_view g') = scale (g_view g)"
    "translate (g_view g') = translate (g_view g)" "currentRoot (g_view g') = currentRoot (g_view g)"
    "v_fired (g_view g') = v_fired (g_view g)" "g_fired g' = g_fired g" "defaultParent g' = defaultParent g"
    by (simp_all add: behind_states_def)
qed

lemma behind_simps [simp]:
  "behind_states (set_state c st g) = behind_states g" "behind_states (mark_invalid c g) = behind_states g"
  "behind_states (put_state c s g) = behind_states g" "behind_states (removeState cell g) = behind_states g"
  "behind_states (setGraphBounds b g) = behind_states g"
proof -
  show set: "behind_states (set_state c st g) = behind_states g" for c st g
    by (simp add: behind_states_def set_state_def)
  show "behind_states (mark_invalid c g) = behind_states g" "behind_states (put_state c s g) = behind_states g"
    "behind_states (removeState cell g) = behind_states g"
    by (simp_all add: mark_invalid_def put_state_def removeState_def set split: option.split)
  show "behind_states (setGraphBounds b g) = behind_states g"
    by (simp add: behind_states_def setGraphBounds_def)
qed

lemma behind_each:
  assumes "for_each f xs g = Some g'" and "\<And>x g g'. f x g = Some g' \<Longrightarrow> behind_states g' = behind_states g"
  shows "behind_states g' = behind_states g"
  by (rule for_each_inv [OF assms(1), where P = "\<lambda>t. behind_states t = behind_states g"]) (auto dest: assms(2))

lemma behind_invalidate_n: "invalidate_n n busy cell r e g = Some g' \<Longrightarrow> behind_states g' = behind_states g"
proof (induction n arbitrary: busy cell g g' r e)
  case 0
  then show ?case by (cases cell) (auto simp: invalidate_n.simps(2) Let_def split: if_splits)
next
  case (Suc n)
  show ?case
  proof (cases cell)
    case (Some c)
    have "behind_states s' = behind_states s" if "for_each (\<lambda>d. invalidate_n n (c # busy) (Some d) r e) xs s = Some s'" for xs s s'
      by (rule behind_each [OF that]) (rule Suc.IH)
    with Suc.prems Some show ?thesis
      by (auto simp: invalidate_n.simps(2) Let_def bind_eq_Some_conv split: if_splits; metis behind_simps(2))
  qed (use Suc.prems in simp)
qed

lemma behind_invalidate: "invalidate cell r e g = Some g' \<Longrightarrow> behind_states g' = behind_states g"
  by (simp add: invalidate_def behind_invalidate_n)

lemma behind_clear_n: "clear_n n cell force r g = Some g' \<Longrightarrow> behind_states g' = behind_states g"
proof (induction n arbitrary: cell g g' r)
  case 0
  then show ?case
    by (cases cell) (auto simp: clear_n.simps [of 0] Let_def dest: behind_invalidate split: if_splits)
next
  case (Suc n)
  have "behind_states s' = behind_states s" if "for_each (\<lambda>d. clear_n n (Some d) force True) xs s = Some s'" for xs s s'
    by (rule behind_each [OF that]) (rule Suc.IH)
  with Suc.prems show ?case
    by (cases cell) (auto simp: clear_n.simps [of "Suc n"] Let_def dest: behind_invalidate split: if_splits)
qed

lemma behind_clear: "view_clear cell force r g = Some g' \<Longrightarrow> behind_states g' = behind_states g"
  by (simp add: view_clear_def behind_clear_n)

lemma behind_create: "getState_create c b g = Some g' \<Longrightarrow> behind_states g' = behind_states g"
  by (auto simp: getState_create_def split: if_splits)

lemma behind_validateCell_n: "validateCell_n n cell visible g = Some g' \<Longrightarrow> behind_states g' = behind_states g"
proof (induction n arbitrary: cell g g' visible)
  case 0
  then show ?case by (cases cell) auto
next
  case (Suc n)
  show ?case
  proof (cases cell)
    case (Some c)
    have "behind_states s' = behind_states s" if "for_each (\<lambda>d. validateCell_n n (Some d) b) xs s = Some s'" for xs s s' b
      by (rule behind_each [OF that]) (rule Suc.IH)
    with Suc.prems Some show ?thesis
      by (auto simp: Let_def bind_eq_Some_conv dest!: behind_create split: if_splits)
  qed (use Suc.prems in simp)
qed

lemma behind_updateEdgeState:
  "updateEdgeState env c geo source target st g = Some (st', g') \<Longrightarrow> behind_states g' = behind_states g"
  by (auto simp: updateEdgeState_def Let_def bind_eq_Some_conv dest: behind_clear split: if_splits)

lemma behind_updateCellState:
  assumes "updateCellState env c source target st g = Some (st', g')"
  shows "behind_states g' = behind_states g"
proof -
  have place: "behind_states h' = behind_states h" if "place_state env c source target s h = Some (s', h')" for s s' h h'
    using that
    by (auto simp: place_state_def Let_def bind_eq_Some_conv dest!: behind_updateEdgeState split: option.splits if_splits)
  from assms show ?thesis
    by (auto simp: updateCellState_def Let_def bind_eq_Some_conv dest!: place split: if_splits)
qed

lemma behind_refresh:
  assumes v: "\<And>d g sh g'. v d g = Some (sh, g') \<Longrightarrow> behind_states g' = behind_states g"
    and "refresh_state v env c st g = Some (st', g')"
  shows "behind_states g' = behind_states g"
proof -
  have ends: "behind_states h' = behind_states h" if "validate_end v c b s h = Some (sh, s', h')" for b s h sh s' h'
    using that by (auto simp: validate_end_def Let_def bind_eq_Some_conv dest: v)
  obtain style g1 sh1 st1 g2 sh2 st2 g3 where
    1: "(if Some c \<noteq> currentRoot (g_view g) then map_option snd (v (cell_getParent c (g_model g))
           (set_state c (Some (st\<lparr>cs_invalid := False, cs_style := Some style\<rparr>)) g))
         else Some (set_state c (Some (st\<lparr>cs_invalid := False, cs_style := Some style\<rparr>)) g)) = Some g1" and
    2: "validate_end v c True (st\<lparr>cs_invalid := False, cs_style := Some style\<rparr>) g1 = Some (sh1, st1, g2)"
      "validate_end v c False st1 g2 = Some (sh2, st2, g3)" and
    3: "updateCellState env c (current_shown sh1 g3) (current_shown sh2 g3) st2 g3 = Some (st', g')"
    using assms(2) by (auto simp: refresh_state_def Let_def bind_eq_Some_conv set_state_def cong: if_cong)
  from 1 have "behind_states g1 = behind_states g" by (auto dest: v split: if_splits)
  with ends [OF 2(1)] ends [OF 2(2)] behind_updateCellState [OF 3] show ?thesis by simp
qed

lemma behind_validateCellState_n:
  "validateCellState_n n env cell r g = Some (sh, g') \<Longrightarrow> behind_states g' = behind_states g"
proof (induction n arbitrary: cell r g sh g')
  case 0
  then show ?case by (auto simp: validateCellState_n.simps [of 0] split: option.splits)
next
  case (Suc n)
  show ?case
  proof (cases "shown_state cell g")
    case None
    with Suc.prems show ?thesis by (simp add: validateCellState_n.simps [of "Suc n"])
  next
    case (Some p)
    obtain c st where p: "p = (c, st)" by (cases p)
    with Suc.prems Some obtain st1 g1 where
      1: "(if cs_invalid st then refresh_state (\<lambda>d. validateCellState_n n env d False) env c st g
           else Some (st, g)) = Some (st1, g1)" and
      2: "(if r \<and> \<not> cs_invalid st1 then for_each (\<lambda>d g. map_option snd (validateCellState_n n env (Some d) True g))
           (children_of (g_model g1) c) g1 else Some g1) = Some g'"
      by (auto simp: validateCellState_n.simps [of "Suc n"] bind_eq_Some_conv cong: if_cong)
    have "behind_states g1 = behind_states g"
      using 1 behind_refresh [of "\<lambda>d. validateCellState_n n env d False"] Suc.IH by (auto split: if_splits)
    moreover have "behind_states g' = behind_states g1"
      using 2 by (auto split: if_splits dest!: behind_each dest: Suc.IH)
    ultimately show ?thesis by simp
  qed
qed

lemma behind_validate: "view_validate env cell g = Some g' \<Longrightarrow> behind_states g' = behind_states g"
  by (auto simp: view_validate_def Let_def bind_eq_Some_conv view_validateCell_def validateCellState_def
      dest!: behind_validateCell_n behind_validateCellState_n)

lemma behind_revalidate: "revalidate env g = Some g' \<Longrightarrow> behind_states g' = behind_states g"
  by (auto simp: revalidate_def bind_eq_Some_conv dest!: behind_invalidate behind_validate)

lemma behind_refresh_view: "view_refresh env g = Some g' \<Longrightarrow> behind_states g' = behind_states g"
  by (auto simp: view_refresh_def bind_eq_Some_conv dest!: behind_clear behind_revalidate split: if_splits)

text \<open>Scale and translation are those that are asked for.\<close>

lemma revalidated:
  assumes "revalidate env g = Some g'"
  shows "g_model g' = g_model g \<and> selectionModel g' = selectionModel g \<and> scale (g_view g') = scale (g_view g) \<and>
    translate (g_view g') = translate (g_view g) \<and> currentRoot (g_view g') = currentRoot (g_view g)"
  using behind_statesD [OF behind_revalidate [OF assms]] by simp

lemma rescaled:
  assumes "scaleAndTranslate env s dx dy g = Some g'"
  shows "scale (g_view g') = s" "translate (g_view g') = \<lparr>px = dx, py = dy\<rparr>" "g_model g' = g_model g"
  using assms
  by (cases "translate (g_view g)"; auto simp: scaleAndTranslate_def Let_def v_fire_def new_mxPoint_def js_default_def
      dest!: revalidated split: if_splits)+

lemma rescaled_to:
  assumes "setScale env s g = Some g'"
  shows "scale (g_view g') = s" "translate (g_view g') = translate (g_view g)" "g_model g' = g_model g"
  using assms by (auto simp: setScale_def Let_def v_fire_def dest!: revalidated split: if_splits)

subsection \<open>Listening to the model\<close>

text \<open>What the graph does when the model has changed leaves the model alone.\<close>

lemma model_behind: "behind_states g' = behind_states g \<Longrightarrow> g_model g' = g_model g"
  by (rule behind_statesD)

lemma model_simps [simp]:
  "g_model (v_fire ev g) = g_model g" "g_model (g_fire ge g) = g_model g" "g_model (setSelectionCell cell g) = g_model g"
  "g_model (setSelectionCells cs g) = g_model g" "g_model (clearSelection g) = g_model g"
  "g_model (removeSelectionCells cs g) = g_model g" "g_model (addSelectionCells cs g) = g_model g"
  "g_model (addSelectionCell cell g) = g_model g" "g_model (removeSelectionCell cell g) = g_model g"
  "g_model (setDefaultParent cell g) = g_model g" "g_model (select_if_shown cell g) = g_model g"
  "g_model (forget_style cell g) = g_model g"
  by (simp_all add: v_fire_def g_fire_def setSelectionCell_def setSelectionCells_def clearSelection_def
      removeSelectionCells_def addSelectionCells_def addSelectionCell_def removeSelectionCell_def on_selection_def
      setDefaultParent_def select_if_shown_def forget_style_def set_state_def split: option.split)

lemma model_selectCell: "g_model (selectCell n p c g) = g_model g"
  unfolding selectCell_def Let_def by (simp only: if_distrib [of g_model] model_simps if_cancel)

lemma model_selectCells [simp]:
  "g_model (selectNextCell g) = g_model g" "g_model (selectPreviousCell g) = g_model g"
  "g_model (selectParentCell g) = g_model g" "g_model (selectChildCell g) = g_model g"
  by (simp_all only: selectNextCell_def selectPreviousCell_def selectParentCell_def selectChildCell_def model_selectCell)

lemma model_root_change:
  assumes "execute_root_change env ch g = Some (d, g')"
  shows "g_model g' = g_model g"
proof -
  obtain v g1 where
    1: "(if cr_isUp ch then Option.bind (view_clear (cr_previous ch) (Some True) None (g\<lparr>g_view := v\<rparr>)) (view_validate env None)
         else view_refresh env (g\<lparr>g_view := v\<rparr>)) = Some g1" and
    2: "g_model g' = g_model g1"
    using assms by (auto simp: execute_root_change_def Let_def simp del: not_None_eq)
  have "behind_states g1 = behind_states (g\<lparr>g_view := v\<rparr>)"
    using 1 by (auto simp: bind_eq_Some_conv dest!: behind_clear behind_validate behind_refresh_view split: if_splits)
  from model_behind [OF this] 2 show ?thesis by simp
qed

lemma model_setCurrentRoot: "setCurrentRoot env cell g = Some g' \<Longrightarrow> g_model g' = g_model g"
  by (auto simp: setCurrentRoot_def bind_eq_Some_conv dest!: model_root_change split: if_splits)

lemma model_navigation:
  "enterGroup env cell g = Some g' \<Longrightarrow> g_model g' = g_model g"
  "exitGroup env g = Some g' \<Longrightarrow> g_model g' = g_model g"
  "home env g = Some g' \<Longrightarrow> g_model g' = g_model g"
  "graph_refresh env cell g = Some g' \<Longrightarrow> g_model g' = g_model g"
  by (auto simp: enterGroup_def exitGroup_def home_def graph_refresh_def Let_def bind_eq_Some_conv
      dest!: model_setCurrentRoot behind_clear behind_validate model_behind split: if_splits)

lemma behind_removeState_n: "removeStateForCell_n n cell g = Some g' \<Longrightarrow> behind_states g' = behind_states g"
proof (induction n arbitrary: cell g g')
  case 0
  then show ?case
    by (auto simp: removeStateForCell_n.simps [of 0] bind_eq_Some_conv dest!: behind_invalidate split: option.splits)
next
  case (Suc n)
  have "behind_states s' = behind_states s" if "for_each (\<lambda>d. removeStateForCell_n n (Some d)) xs s = Some s'" for xs s s'
    by (rule behind_each [OF that]) (rule Suc.IH)
  with Suc.prems show ?case
    by (auto simp: removeStateForCell_n.simps [of "Suc n"] bind_eq_Some_conv dest!: behind_invalidate split: option.splits)
qed

lemma model_removeState: "removeStateForCell cell g = Some g' \<Longrightarrow> g_model g' = g_model g"
  by (auto simp: removeStateForCell_def dest!: behind_removeState_n model_behind)

lemma model_invalidate: "invalidate cell r e g = Some g' \<Longrightarrow> g_model g' = g_model g"
  by (rule model_behind [OF behind_invalidate])

lemma model_reparented: "reparented env child previous g = Some g' \<Longrightarrow> g_model g' = g_model g"
  by (auto simp: reparented_def Let_def bind_eq_Some_conv
      dest!: model_invalidate model_removeState model_navigation(3) split: if_splits)

lemma model_processChange: "processChange env ch g = Some g' \<Longrightarrow> g_model g' = g_model g"
  by (cases ch) (auto dest!: model_removeState model_reparented model_invalidate split: if_splits)

lemma model_graphModelChanged:
  assumes "graphModelChanged env chs g = Some g'"
  shows "g_model g' = g_model g"
proof -
  have "g_model t = g_model s" if "for_each (processChange env) chs s = Some t" for s t
    by (rule for_each_inv [OF that, where P = "\<lambda>t. g_model t = g_model s"]) (auto dest: model_processChange)
  with assms show ?thesis
    by (auto simp: graphModelChanged_def bind_eq_Some_conv dest!: behind_validate model_behind)
qed

end
