(* ===== verification/Zoom.thy ===== *)
theory Zoom
  imports ViewFrame
begin

text \<open>
  Zooming and scrolling, view/mxGraph.js: what a change of scale does to the translation of the view and to the
  scroll position of the container.  What the browser knows of the container are the fields of a record; the scroll position
  is the one that is asked for, before the browser limits it.
\<close>

record container =
  offset_w :: jsnum
  offset_h :: jsnum
  client_w :: jsnum
  client_h :: jsnum
  scroll_w :: jsnum
  scroll_h :: jsnum
  scroll_left :: jsnum
  scroll_top :: jsnum
  scrollbars :: bool
  css_border :: mxRectangle

record zoom_settings =
  zoomFactor :: jsnum
  centerZoom :: bool
  keepSelectionVisibleOnZoom :: bool
  useScrollbarsForPanning :: bool
  graph_border :: jsnum
  minFitScale :: "jsnum option"
  maxFitScale :: "jsnum option"
  background_size :: "(jsnum \<times> jsnum) option"

definition default_zoom :: zoom_settings where
  "default_zoom = \<lparr>zoomFactor = 6 / 5, centerZoom = True, keepSelectionVisibleOnZoom = False,
     useScrollbarsForPanning = True, graph_border = 0, minFitScale = Some (1 / 10), maxFitScale = Some 8,
     background_size = None\<rparr>"

definition hasScrollbars :: "container \<Rightarrow> bool" where
  "hasScrollbars k = scrollbars k"

definition move_translate :: "jsnum \<Rightarrow> jsnum \<Rightarrow> mxGraph \<Rightarrow> mxGraph" where
  "move_translate dx dy g =
     g\<lparr>g_view := (g_view g)\<lparr>translate := \<lparr>px = px (translate (g_view g)) + dx, py = py (translate (g_view g)) + dy\<rparr>\<rparr>\<rparr>"

subsection \<open>Scrolling\<close>

text \<open>One direction of the scrollbars: the new scroll position, and how far the rectangle lies before the start.\<close>

definition scroll_axis :: "jsnum \<Rightarrow> jsnum \<Rightarrow> jsnum \<Rightarrow> jsnum \<Rightarrow> jsnum \<times> jsnum" where
  "scroll_axis scroll start limit client =
     (let d = scroll - start; dd = max (d - scroll) 0
      in (if d > 0 then scroll - (d + 2)
          else (let d = start + limit - scroll - client in if d > 0 then scroll + (d + 2) else scroll), dd))"

text \<open>One direction of the translation: the distance it moves by, over two steps, and whether it moves.\<close>

definition translate_axis :: "jsnum \<Rightarrow> jsnum \<Rightarrow> jsnum \<Rightarrow> jsnum \<Rightarrow> jsnum \<Rightarrow> (jsnum \<times> bool) option" where
  "translate_axis start limit x w s =
     Option.bind (if start + limit > x + w then map_option (\<lambda>d. (- d, True)) (js_div (start + limit - w - x) s)
                  else Some (0, False)) (\<lambda>(d1, b1).
       if start < x then map_option (\<lambda>d. (d1 + d, True)) (js_div (x - start) s) else Some (d1, b1))"

definition scrollRectToVisible ::
  "painter \<Rightarrow> zoom_settings \<Rightarrow> mxRectangle option \<Rightarrow> container \<Rightarrow> mxGraph \<Rightarrow> (bool \<times> container \<times> mxGraph) option"
where
  "scrollRectToVisible env z rect k g =
     (case rect of
        None \<Rightarrow> Some (False, k, g)
      | Some r \<Rightarrow>
          (let w = offset_w k; h = offset_h k; widthLimit = min w (width r); heightLimit = min h (height r);
               tr = translate (g_view g)
           in if hasScrollbars k then
                (let (left, ddx) = scroll_axis (scroll_left k) (px r + px tr) widthLimit (client_w k);
                     (upper, ddy) = scroll_axis (scroll_top k) (py r + py tr) heightLimit (client_h k);
                     k = k\<lparr>scroll_left := left, scroll_top := upper\<rparr>
                 in map_option (\<lambda>g. (False, k, g))
                      (if \<not> useScrollbarsForPanning z \<and> (ddx \<noteq> 0 \<or> ddy \<noteq> 0)
                       then setTranslate env ddx ddy g else Some g))
              else
                (let x = - px tr; y = - py tr; s = scale (g_view g)
                 in Option.bind (translate_axis (px r) widthLimit x w s) (\<lambda>(dx, cx).
                    Option.bind (translate_axis (py r) heightLimit y h s) (\<lambda>(dy, cy).
                      if cx \<or> cy then map_option (\<lambda>g. (True, k, g)) (view_refresh env (move_translate dx dy g))
                      else Some (False, k, g))))))"

definition scrollCellToVisible ::
  "painter \<Rightarrow> zoom_settings \<Rightarrow> cref option \<Rightarrow> bool \<Rightarrow> container \<Rightarrow> mxGraph \<Rightarrow> (container \<times> mxGraph) option"
where
  "scrollCellToVisible env z cell center k g =
     (let tr = translate (g_view g); x = - px tr; y = - py tr in
      case getState cell g of
        None \<Rightarrow> Some (k, g)
      | Some state \<Rightarrow>
          (let b = cs_bounds state;
               bounds = new_mxRectangle (Some (x + px b)) (Some (y + py b)) (Some (width b)) (Some (height b));
               bounds = (if center
                 then bounds\<lparr>px := getCenterX bounds - client_w k / 2, width := client_w k,
                        py := getCenterY bounds - client_h k / 2, height := client_h k\<rparr>
                 else bounds)
           in Option.bind (scrollRectToVisible env z (Some bounds) k g) (\<lambda>(moved, k, g).
                if moved then
                  (let tr2 = translate (g_view g); g = g\<lparr>g_view := (g_view g)\<lparr>translate := tr\<rparr>\<rparr>
                   in map_option (Pair k) (setTranslate env (px tr2) (py tr2) g))
                else Some (k, g))))"

subsection \<open>Zooming\<close>

definition zoom :: "painter \<Rightarrow> zoom_settings \<Rightarrow> jsnum \<Rightarrow> bool option \<Rightarrow> container \<Rightarrow> mxGraph \<Rightarrow> (container \<times> mxGraph) option" where
  "zoom env z factor center k g =
     (let center = (case center of None \<Rightarrow> centerZoom z | Some b \<Rightarrow> b);
          old = scale (g_view g); tr = translate (g_view g);
          s = js_round (old * factor * 100) / 100;
          state = getState (getSelectionCell g) g
      in Option.bind (js_div s old) (\<lambda>factor.
         if keepSelectionVisibleOnZoom z \<and> state \<noteq> None then
           (let b = cs_bounds (the state);
                rect = new_mxRectangle (Some (px b * factor)) (Some (py b * factor))
                         (Some (width b * factor)) (Some (height b * factor));
                g = g\<lparr>g_view := (g_view g)\<lparr>scale := s\<rparr>\<rparr>
            in Option.bind (scrollRectToVisible env z (Some rect) k g) (\<lambda>(moved, k, g).
                 if \<not> moved
                 then map_option (Pair k) (Option.bind (revalidate env g) (setScale env s))
                 else Some (k, g)))
         else if center \<and> \<not> hasScrollbars k then
           Option.bind
             (if factor > 1 then map_option uminus (js_div (factor - 1) (s * 2))
              else Option.bind (js_div 1 factor) (\<lambda>q. js_div (q - 1) (old * 2))) (\<lambda>f.
             map_option (Pair k)
               (scaleAndTranslate env s (px tr + offset_w k * f) (py tr + offset_h k * f) g))
         else
           map_option (\<lambda>g.
             (if hasScrollbars k then
                (let dx = (if center then offset_w k * (factor - 1) / 2 else 0);
                     dy = (if center then offset_h k * (factor - 1) / 2 else 0);
                     tr' = translate (g_view g); s' = scale (g_view g)
                 in (k\<lparr>scroll_left := (px tr' - px tr) * s' + js_round (scroll_left k * factor + dx),
                       scroll_top := (py tr' - py tr) * s' + js_round (scroll_top k * factor + dy)\<rparr>, g))
              else (k, g)))
             (setScale env s g)))"

definition zoomIn :: "painter \<Rightarrow> zoom_settings \<Rightarrow> container \<Rightarrow> mxGraph \<Rightarrow> (container \<times> mxGraph) option" where
  "zoomIn env z k g = zoom env z (zoomFactor z) None k g"

definition zoomOut :: "painter \<Rightarrow> zoom_settings \<Rightarrow> container \<Rightarrow> mxGraph \<Rightarrow> (container \<times> mxGraph) option" where
  "zoomOut env z k g = Option.bind (js_div 1 (zoomFactor z)) (\<lambda>f. zoom env z f None k g)"

definition zoomTo ::
  "painter \<Rightarrow> zoom_settings \<Rightarrow> jsnum \<Rightarrow> bool option \<Rightarrow> container \<Rightarrow> mxGraph \<Rightarrow> (container \<times> mxGraph) option" where
  "zoomTo env z s center k g = Option.bind (js_div s (scale (g_view g))) (\<lambda>f. zoom env z f center k g)"

definition js_floor :: "jsnum \<Rightarrow> jsnum" where
  "js_floor x = of_int \<lfloor>x\<rfloor>"

text \<open>\<open>center\<close>: with scrollbars, the bounds that are moved are the ones the view holds.\<close>

definition graph_center ::
  "painter \<Rightarrow> bool option \<Rightarrow> bool option \<Rightarrow> jsnum option \<Rightarrow> jsnum option \<Rightarrow> container \<Rightarrow> mxGraph \<Rightarrow> (container \<times> mxGraph) option"
where
  "graph_center env horizontal vertical cx cy k g =
     (let horizontal = (horizontal \<noteq> Some False); vertical = (vertical \<noteq> Some False);
          cx = (case cx of None \<Rightarrow> 1 / 2 | Some c \<Rightarrow> c); cy = (case cy of None \<Rightarrow> 1 / 2 | Some c \<Rightarrow> c);
          cw = client_w k; ch = client_h k; v = g_view g; bounds = graphBounds v; t = translate v; s = scale v;
          dx = (if horizontal then cw - width bounds else 0); dy = (if vertical then ch - height bounds else 0)
      in if \<not> hasScrollbars k then
           Option.bind (if horizontal then map_option (\<lambda>d. js_floor (px t - px bounds * s + d)) (js_div (dx * cx) s)
                        else Some (px t)) (\<lambda>x.
           Option.bind (if vertical then map_option (\<lambda>d. js_floor (py t - py bounds * s + d)) (js_div (dy * cy) s)
                        else Some (py t)) (\<lambda>y.
             map_option (Pair k) (setTranslate env x y g)))
         else
           (let bounds = bounds\<lparr>px := px bounds - px t, py := py bounds - py t\<rparr>;
                g = g\<lparr>g_view := v\<lparr>graphBounds := bounds\<rparr>\<rparr>;
                sw = scroll_w k; sh = scroll_h k;
                dx = (if sw > cw then 0 else dx); dy = (if sh > ch then 0 else dy)
            in map_option (\<lambda>g. (k\<lparr>scroll_left := (sw - cw) / 2, scroll_top := (sh - ch) / 2\<rparr>, g))
                 (setTranslate env (js_floor (dx / 2 - px bounds)) (js_floor (dy / 2 - py bounds)) g)))"

text \<open>\<open>zoomToRect\<close>, one direction: the start and the length after the rectangle has been extended to the aspect of
  the container, within the scroll area.\<close>

definition widen :: "jsnum \<Rightarrow> jsnum \<Rightarrow> jsnum \<Rightarrow> jsnum \<Rightarrow> jsnum \<times> jsnum" where
  "widen start len grown limit =
     (let delta = (grown - len) / 2; start = start - min start delta; end = min limit (start + grown)
      in (start, end - start))"

definition zoomToRect :: "painter \<Rightarrow> mxRectangle \<Rightarrow> container \<Rightarrow> mxGraph \<Rightarrow> (container \<times> mxGraph) option" where
  "zoomToRect env rect k g =
     Option.bind (js_div (client_w k) (width rect)) (\<lambda>scaleX.
     Option.bind (js_div (client_h k) (height rect)) (\<lambda>scaleY.
     Option.bind (js_div scaleX scaleY) (\<lambda>aspectFactor.
       let x = max 0 (px rect); y = max 0 (py rect);
           w = min (scroll_w k) (x + width rect) - x; h = min (scroll_h k) (y + height rect) - y
       in Option.bind
            (if aspectFactor < 1 then
               map_option (\<lambda>newHeight. let (y, h) = widen y h newHeight (scroll_h k) in (x, y, w, h))
                 (js_div h aspectFactor)
             else (let (x, w) = widen x w (w * aspectFactor) (scroll_w k) in Some (x, y, w, h))) (\<lambda>(x, y, w, h).
          Option.bind (js_div (client_w k) w) (\<lambda>sc.
            let old = scale (g_view g); newScale = old * sc; tr = translate (g_view g)
            in if \<not> hasScrollbars k then
                 Option.bind (js_div x old) (\<lambda>dx. Option.bind (js_div y old) (\<lambda>dy.
                   map_option (Pair k) (scaleAndTranslate env newScale (px tr - dx) (py tr - dy) g)))
               else
                 map_option (\<lambda>g. (k\<lparr>scroll_left := js_round (x * sc), scroll_top := js_round (y * sc)\<rparr>, g))
                   (setScale env newScale g))))))"

text \<open>\<open>fit\<close>: the scale at which the diagram fits into the container, and the view at that scale.\<close>

definition fit_scale ::
  "zoom_settings \<Rightarrow> bool \<Rightarrow> bool \<Rightarrow> jsnum \<Rightarrow> jsnum \<Rightarrow> jsnum \<Rightarrow> jsnum \<Rightarrow> jsnum option" where
  "fit_scale z ignoreWidth ignoreHeight w1 h1 w2 h2 =
     map_option (\<lambda>s. let s = (case minFitScale z of None \<Rightarrow> s | Some m \<Rightarrow> max s m)
                     in case maxFitScale z of None \<Rightarrow> s | Some m \<Rightarrow> min s m)
       (if ignoreWidth then js_div h1 h2 else if ignoreHeight then js_div w1 w2
        else Option.bind (js_div w1 w2) (\<lambda>a. map_option (min a) (js_div h1 h2)))"

definition fit ::
  "painter \<Rightarrow> zoom_settings \<Rightarrow> jsnum option \<Rightarrow> bool option \<Rightarrow> jsnum option \<Rightarrow> bool option \<Rightarrow> bool option \<Rightarrow> bool option \<Rightarrow>
   jsnum option \<Rightarrow> container \<Rightarrow> mxGraph \<Rightarrow> (jsnum \<times> container \<times> mxGraph) option"
where
  "fit env z border keepOrigin margin enabled ignoreWidth ignoreHeight maxHeight k g =
     (let border = (case border of None \<Rightarrow> graph_border z | Some b \<Rightarrow> b);
          keepOrigin = (keepOrigin = Some True); margin = (case margin of None \<Rightarrow> 0 | Some d \<Rightarrow> d);
          enabled = (enabled \<noteq> Some False); css = css_border k;
          w1 = offset_w k - px css - width css - 1;
          h1 = (case maxHeight of Some h \<Rightarrow> h | None \<Rightarrow> offset_h k - py css - height css - 1);
          bounds = graphBounds (g_view g); s = scale (g_view g); tr = translate (g_view g)
      in if width bounds > 0 \<and> height bounds > 0 then
           (let bounds = (if keepOrigin
                  then bounds\<lparr>width := width bounds + px bounds, height := height bounds + py bounds, px := 0, py := 0\<rparr>
                  else bounds)
            in Option.bind (js_div (width bounds) s) (\<lambda>w2. Option.bind (js_div (height bounds) s) (\<lambda>h2.
               Option.bind (js_div (px bounds) s) (\<lambda>bx. Option.bind (js_div (py bounds) s) (\<lambda>by.
                 let (w2, h2) = (case background_size z of None \<Rightarrow> (w2, h2)
                       | Some (bw, bh) \<Rightarrow> (max w2 (bw - bx), max h2 (bh - by)));
                     b = (if keepOrigin then border else 2 * border) + margin + 1
                 in Option.bind (fit_scale z (ignoreWidth = Some True) (ignoreHeight = Some True) (w1 - b) (h1 - b) w2 h2) (\<lambda>s2.
                    if \<not> enabled then Some (s2, k, g)
                    else if \<not> keepOrigin then
                      (if \<not> hasScrollbars k then
                         Option.bind (js_div border s2) (\<lambda>q.
                         map_option (\<lambda>g. (scale (g_view g), k, g))
                           (scaleAndTranslate env s2 (js_floor (px tr - bx + q + margin / 2))
                              (js_floor (py tr - by + q + margin / 2)) g))
                       else
                         map_option (\<lambda>g. let b2 = graphBounds (g_view g)
                             in (scale (g_view g), k\<lparr>scroll_left := px b2, scroll_top := py b2\<rparr>, g))
                           (setScale env s2 g))
                    else if s \<noteq> s2 then map_option (\<lambda>g. (scale (g_view g), k, g)) (setScale env s2 g)
                    else Some (s, k, g)))))))
         else Some (s, k, g))"

subsection \<open>The middle of the container\<close>

text \<open>The point of the diagram that is seen in the middle of the container.\<close>

definition middle :: "container \<Rightarrow> mxGraph \<Rightarrow> jsnum \<times> jsnum" where
  "middle k g =
     (let s = scale (g_view g); tr = translate (g_view g);
          left = (if hasScrollbars k then scroll_left k else 0); upper = (if hasScrollbars k then scroll_top k else 0)
      in ((left + offset_w k / 2) / s - px tr, (upper + offset_h k / 2) / s - py tr))"

lemma js_round_near: "\<bar>js_round x - x\<bar> \<le> 1 / 2"
  unfolding js_round_def by linarith

lemma js_divD: "js_div a b = Some c \<Longrightarrow> b \<noteq> 0 \<and> c = a / b"
  by (simp add: js_div_def split: if_splits)

text \<open>With scrollbars, the middle moves by what rounding the scroll position moves it.\<close>

lemma scrolled_middle:
  fixes s s' l w t :: rat
  assumes "0 < s" and "0 < s'"
  shows "\<bar>((js_round (l * (s' / s) + w * (s' / s - 1) / 2) + w / 2) / s' - t) - ((l + w / 2) / s - t)\<bar> \<le> 1 / (2 * s')"
proof -
  let ?x = "l * (s' / s) + w * (s' / s - 1) / 2"
  have "(?x + w / 2) / s' = (l + w / 2) / s" using assms by (simp add: field_simps)
  then have "((js_round ?x + w / 2) / s' - t) - ((l + w / 2) / s - t) = (js_round ?x - ?x) / s'"
    by (simp add: diff_divide_distrib add_divide_distrib)
  moreover have "\<bar>(js_round ?x - ?x) / s'\<bar> \<le> (1 / 2) / s'"
    using divide_right_mono [OF js_round_near [of ?x], of s'] assms by (simp add: abs_divide)
  ultimately show ?thesis by simp
qed

lemma zoom_scale:
  assumes "zoom env z factor center k g = Some (k', g')" and "\<not> keepSelectionVisibleOnZoom z"
  shows "scale (g_view g') = js_round (scale (g_view g) * factor * 100) / 100" "scrollbars k' = scrollbars k"
  using assms
  by (auto simp: zoom_def Let_def bind_eq_Some_conv rescaled rescaled_to split: if_splits)

text \<open>C10: A centered zoom keeps the point of the diagram in the middle of the container where it is: exactly where the
  view is translated, and up to half a pixel where the container is scrolled.\<close>

theorem zoom_keeps_middle:
  assumes "zoom env z factor center k g = Some (k', g')" and "\<not> keepSelectionVisibleOnZoom z"
    and "center = Some True \<or> center = None \<and> centerZoom z"
    and "0 < scale (g_view g)" and "0 < scale (g_view g')"
  shows "(\<not> hasScrollbars k \<longrightarrow> middle k' g' = middle k g) \<and>
    (hasScrollbars k \<longrightarrow>
      \<bar>fst (middle k' g') - fst (middle k g)\<bar> \<le> 1 / (2 * scale (g_view g')) \<and>
      \<bar>snd (middle k' g') - snd (middle k g)\<bar> \<le> 1 / (2 * scale (g_view g')))"
proof -
  let ?old = "scale (g_view g)" and ?s = "scale (g_view g')" and ?tr = "translate (g_view g)"
  let ?f = "?s / ?old"
  have s: "js_round (?old * factor * 100) / 100 = ?s" using zoom_scale(1) [OF assms(1,2)] by simp
  have div: "js_div ?s ?old = Some ?f" using assms(4) by (simp add: js_div_def)
  note run = assms(1) [unfolded zoom_def Let_def s div bind.bind_lunit]
  have center: "(case center of None \<Rightarrow> centerZoom z | Some b \<Rightarrow> b)" using assms(3) by auto
  show ?thesis
  proof (cases "hasScrollbars k")
    case True
    with run assms(2) center have k: "setScale env ?s g = Some g'" 
      "k' = k\<lparr>scroll_left := (px (translate (g_view g')) - px ?tr) * ?s + js_round (scroll_left k * ?f + offset_w k * (?f - 1) / 2),
           scroll_top := (py (translate (g_view g')) - py ?tr) * ?s + js_round (scroll_top k * ?f + offset_h k * (?f - 1) / 2)\<rparr>"
      by auto
    then show ?thesis
      using True scrolled_middle [OF assms(4,5)] by (simp add: middle_def rescaled_to(2) [OF k(1)] hasScrollbars_def Let_def)
  next
    case False
    with run assms(2) center obtain f where
      f: "(if ?f > 1 then map_option uminus (js_div (?f - 1) (?s * 2))
           else Option.bind (js_div 1 ?f) (\<lambda>q. js_div (q - 1) (?old * 2))) = Some f" and
      g': "scaleAndTranslate env ?s (px ?tr + offset_w k * f) (py ?tr + offset_h k * f) g = Some g'" and k: "k' = k"
      by (auto simp: bind_eq_Some_conv)
    have fe: "f = 1 / (2 * ?s) - 1 / (2 * ?old)"
      using f assms(4,5) by (auto simp: field_simps bind_eq_Some_conv dest!: js_divD split: if_splits)
    have "(0 + w / 2) / ?s - (t + w * f) = (0 + w / 2) / ?old - t" for w t
      unfolding fe by (simp add: algebra_simps)
    then show ?thesis
      using False unfolding middle_def k hasScrollbars_def Let_def rescaled(2) [OF g'] by simp
  qed
qed

definition bare_container :: container where
  "bare_container = \<lparr>offset_w = 600, offset_h = 400, client_w = 600, client_h = 400, scroll_w = 600, scroll_h = 400,
     scroll_left = 0, scroll_top = 0, scrollbars = False, css_border = new_mxRectangle None None None None\<rparr>"

lemma drawing_zoomed:
  "\<exists>g'. zoomIn blind default_zoom bare_container drawing_graph = Some (bare_container, g') \<and> scale (g_view g') = 6 / 5"
proof -
  have "getState (getSelectionCell drawing_graph) drawing_graph = None"
    by (simp add: getState_def split: option.split)
  moreover have s: "js_round (scale (g_view drawing_graph) * zoomFactor default_zoom * 100) / 100 = 6 / 5"
    by (simp add: js_round_def default_zoom_def floor_eq_iff)
  obtain g' where g': "scaleAndTranslate blind (6 / 5) (- 50) (- (100 / 3)) drawing_graph = Some g'"
    using drawing_scaled [of "6 / 5"] by auto
  ultimately have "zoomIn blind default_zoom bare_container drawing_graph = Some (bare_container, g')"
    unfolding zoomIn_def zoom_def Let_def s
    by (simp add: default_zoom_def bare_container_def hasScrollbars_def js_div_def)
  with rescaled(1) [OF g'] show ?thesis by blast
qed

theorem zoom_keeps_middle_witness:
  "\<exists>g'. zoomIn blind default_zoom bare_container drawing_graph = Some (bare_container, g') \<and>
     middle bare_container g' = (300, 200)"
proof -
  obtain g' where g': "zoomIn blind default_zoom bare_container drawing_graph = Some (bare_container, g')"
    "scale (g_view g') = 6 / 5" using drawing_zoomed by blast
  then have "middle bare_container g' = middle bare_container drawing_graph"
    using zoom_keeps_middle [of blind default_zoom "6 / 5" None bare_container drawing_graph bare_container g']
    by (simp add: zoomIn_def default_zoom_def hasScrollbars_def bare_container_def)
  with g'(1) show ?thesis by (simp add: middle_def bare_container_def hasScrollbars_def)
qed

subsection \<open>Zooming again and again\<close>

inductive zoomed :: "painter \<Rightarrow> zoom_settings \<Rightarrow> container \<times> mxGraph \<Rightarrow> container \<times> mxGraph \<Rightarrow> bool" for env z where
  zoomed_start: "zoomed env z p p"
| zoomed_in: "zoomed env z p (k, g) \<Longrightarrow> zoomIn env z k g = Some q \<Longrightarrow> zoomed env z p q"
| zoomed_out: "zoomed env z p (k, g) \<Longrightarrow> zoomOut env z k g = Some q \<Longrightarrow> zoomed env z p q"

definition hundredths :: "mxGraph \<Rightarrow> bool" where
  "hundredths g \<longleftrightarrow> (\<exists>n :: int. 3 \<le> n \<and> scale (g_view g) = of_int n / 100)"

lemma zoom_steps:
  assumes "hundredths g"
  shows "zoomIn env default_zoom k g = Some (k', g') \<Longrightarrow> hundredths g' \<and> scale (g_view g) < scale (g_view g')"
    and "zoomOut env default_zoom k g = Some (k', g') \<Longrightarrow> hundredths g' \<and> scale (g_view g') \<le> scale (g_view g)"
proof -
  from assms obtain n :: int where n: "3 \<le> n" "scale (g_view g) = of_int n / 100" by (auto simp: hundredths_def)
  have up: "n + 1 \<le> \<lfloor>of_int n * (6 / 5) + 1 / 2 :: rat\<rfloor>" using n(1) by (simp add: le_floor_iff)
  have down: "3 \<le> \<lfloor>of_int n * (5 / 6) + 1 / 2 :: rat\<rfloor>" "\<lfloor>of_int n * (5 / 6) + 1 / 2 :: rat\<rfloor> \<le> n"
    using n(1) by (simp_all add: le_floor_iff floor_le_iff)
  show "hundredths g' \<and> scale (g_view g) < scale (g_view g')" if "zoomIn env default_zoom k g = Some (k', g')"
  proof -
    have "scale (g_view g') = of_int \<lfloor>of_int n * (6 / 5) + 1 / 2 :: rat\<rfloor> / 100"
      using zoom_scale(1) [of env default_zoom "6 / 5" None k g k' g'] that n(2)
      by (simp add: zoomIn_def default_zoom_def js_round_def mult.commute)
    moreover have "rat_of_int n < of_int \<lfloor>of_int n * (6 / 5) + 1 / 2 :: rat\<rfloor>" using up by linarith
    ultimately show ?thesis using up n by (auto simp: hundredths_def divide_strict_right_mono)
  qed
  show "hundredths g' \<and> scale (g_view g') \<le> scale (g_view g)" if "zoomOut env default_zoom k g = Some (k', g')"
  proof -
    have "scale (g_view g') = of_int \<lfloor>of_int n * (5 / 6) + 1 / 2 :: rat\<rfloor> / 100"
      using zoom_scale(1) [of env default_zoom "5 / 6" None k g k' g'] that n(2)
      by (simp add: zoomOut_def default_zoom_def js_round_def js_div_def mult.commute)
    then show ?thesis using down n by (auto simp: hundredths_def)
  qed
qed

text \<open>C20: With the settings of the graph, zooming in always enlarges, zooming out never enlarges, and however often the
  user zooms in and out from scale 1, the scale stays a multiple of 1/100 and does not fall below 3/100.\<close>

theorem zoom_scale_bounded:
  assumes "zoomed env default_zoom (k0, g0) (k, g)" and "scale (g_view g0) = 1"
  shows "3 / 100 \<le> scale (g_view g) \<and> (\<exists>n :: int. scale (g_view g) = of_int n / 100) \<and>
    (\<forall>k' g'. zoomIn env default_zoom k g = Some (k', g') \<longrightarrow> scale (g_view g) < scale (g_view g')) \<and>
    (\<forall>k' g'. zoomOut env default_zoom k g = Some (k', g') \<longrightarrow> scale (g_view g') \<le> scale (g_view g))"
proof -
  have "hundredths (snd q)" if "zoomed env default_zoom p q" "hundredths (snd p)" for p q
    using that by (induction rule: zoomed.induct) (auto dest: zoom_steps)
  moreover have "hundredths g0" using assms(2) by (auto simp: hundredths_def intro: exI [of _ 100])
  ultimately have h: "hundredths g" using assms(1) by fastforce
  then show ?thesis using zoom_steps [OF h] by (auto simp: hundredths_def)
qed

theorem zoom_scale_bounded_witness:
  "\<exists>g. zoomed blind default_zoom (bare_container, drawing_graph) (bare_container, g) \<and> 3 / 100 \<le> scale (g_view g)"
proof -
  obtain g where "zoomIn blind default_zoom bare_container drawing_graph = Some (bare_container, g)"
    using drawing_zoomed by blast
  then have "zoomed blind default_zoom (bare_container, drawing_graph) (bare_container, g)"
    by (rule zoomed_in [OF zoomed_start])
  then show ?thesis using zoom_scale_bounded [of blind bare_container drawing_graph bare_container g] by auto
qed

subsection \<open>Fitting the diagram\<close>

lemma fit_scale_fits:
  assumes "fit_scale z False False w1 h1 w2 h2 = Some s" and "0 < w2" and "0 < h2"
  shows "w2 * s \<le> w1 \<and> h2 * s \<le> h1 \<or> minFitScale z = Some s \<or> minFitScale z \<noteq> None \<and> maxFitScale z = Some s"
proof -
  let ?a = "min (w1 / w2) (h1 / h2)"
  have a: "w2 * t \<le> w1 \<and> h2 * t \<le> h1" if "t \<le> ?a" for t
    using that assms(2,3) by (simp add: field_simps)
  have "s = (let s = (case minFitScale z of None \<Rightarrow> ?a | Some m \<Rightarrow> max ?a m)
             in case maxFitScale z of None \<Rightarrow> s | Some m \<Rightarrow> min s m)"
    using assms by (simp add: fit_scale_def js_div_def)
  then show ?thesis
    using a [of s] by (cases "minFitScale z"; cases "maxFitScale z"; cases "s \<le> ?a") (auto simp: Let_def min_def max_def split: if_splits)
qed

text \<open>C21: \<open>fit\<close> makes the diagram fit: at the new scale its width and height, with the border on both sides and the margin,
  are no larger than the inside of the container, unless one of the limits of the scale has been reached.\<close>

theorem fit_fits:
  assumes "fit env z border None margin None None None None k g = Some (s, k', g')" and "background_size z = None"
    and "0 < scale (g_view g)" and "0 < width (graphBounds (g_view g))" and "0 < height (graphBounds (g_view g))"
  defines "b \<equiv> 2 * (case border of None \<Rightarrow> graph_border z | Some b \<Rightarrow> b) + (case margin of None \<Rightarrow> 0 | Some d \<Rightarrow> d) + 1"
  shows "s = scale (g_view g') \<and>
    (width (graphBounds (g_view g)) / scale (g_view g) * s + b + 1 \<le> offset_w k - px (css_border k) - width (css_border k) \<and>
     height (graphBounds (g_view g)) / scale (g_view g) * s + b + 1 \<le> offset_h k - py (css_border k) - height (css_border k) \<or>
     minFitScale z = Some s \<or> minFitScale z \<noteq> None \<and> maxFitScale z = Some s)"
proof -
  let ?w = "width (graphBounds (g_view g)) / scale (g_view g)" and ?h = "height (graphBounds (g_view g)) / scale (g_view g)"
  let ?W = "offset_w k - px (css_border k) - width (css_border k) - 1 - b"
  let ?H = "offset_h k - py (css_border k) - height (css_border k) - 1 - b"
  from assms(1-5) obtain s2 where s2: "fit_scale z False False ?W ?H ?w ?h = Some s2" and
    r: "(if \<not> hasScrollbars k then
           Option.bind (js_div (case border of None \<Rightarrow> graph_border z | Some b \<Rightarrow> b) s2) (\<lambda>q.
           map_option (\<lambda>g. (scale (g_view g), k, g))
             (scaleAndTranslate env s2
                (js_floor (px (translate (g_view g)) - px (graphBounds (g_view g)) / scale (g_view g) + q +
                   (case margin of None \<Rightarrow> 0 | Some d \<Rightarrow> d) / 2))
                (js_floor (py (translate (g_view g)) - py (graphBounds (g_view g)) / scale (g_view g) + q +
                   (case margin of None \<Rightarrow> 0 | Some d \<Rightarrow> d) / 2)) g))
         else map_option (\<lambda>g. let b2 = graphBounds (g_view g)
                 in (scale (g_view g), k\<lparr>scroll_left := px b2, scroll_top := py b2\<rparr>, g)) (setScale env s2 g)) =
      Some (s, k', g')"
    by (auto simp: fit_def Let_def bind_eq_Some_conv b_def js_div_def diff_diff_eq cong: if_cong)
  have "s = s2 \<and> s = scale (g_view g')"
    using r by (auto simp: Let_def bind_eq_Some_conv dest: rescaled(1) rescaled_to(1) split: if_splits)
  moreover have "0 < ?w" "0 < ?h" using assms(3-5) by simp_all
  ultimately show ?thesis using fit_scale_fits [OF s2] by auto
qed

definition drawing_framed :: mxGraph where
  "drawing_framed = drawing_graph\<lparr>g_view := (g_view drawing_graph)\<lparr>graphBounds := \<lparr>px = 0, py = 0, width = 100, height = 80\<rparr>\<rparr>\<rparr>"

theorem fit_fits_witness:
  "\<exists>s k g. fit blind default_zoom None None None None None None None bare_container drawing_framed = Some (s, k, g) \<and>
     100 * s + 2 \<le> 600"
proof -
  have view: "graphBounds (g_view drawing_framed) = \<lparr>px = 0, py = 0, width = 100, height = 80\<rparr>"
    "scale (g_view drawing_framed) = 1" "translate (g_view drawing_framed) = \<lparr>px = 0, py = 0\<rparr>"
    by (simp_all add: drawing_framed_def)
  have "\<exists>g'. scaleAndTranslate blind (199 / 40) 0 0 drawing_framed = Some g'"
    using drawing_revalidated [of "(g_view drawing_framed)\<lparr>scale := 199 / 40, translate := new_mxPoint (Some 0) (Some 0)\<rparr>"]
    by (auto simp: scaleAndTranslate_def Let_def drawing_framed_def)
  then obtain g where g: "scaleAndTranslate blind (199 / 40) 0 0 drawing_framed = Some g" by blast
  then have run: "fit blind default_zoom None None None None None None None bare_container drawing_framed =
      Some (199 / 40, bare_container, g)"
    using rescaled(1) [OF g]
    by (simp add: fit_def Let_def view bare_container_def default_zoom_def js_div_def fit_scale_def hasScrollbars_def
        js_floor_def new_mxRectangle_def js_default_def)
  show ?thesis
    using run fit_fits [OF run] view
    by (intro exI conjI) (auto simp: default_zoom_def bare_container_def new_mxRectangle_def js_default_def)
qed

end
