(* ===== verification/Keys.thy ===== *)
theory Keys
  imports GraphSteps
begin

text \<open>
  Keys and the clipboard: handler/mxKeyHandler.js, which finds the function bound to a key, and
  util/mxClipboard.js, which copies, cuts and pastes cells of a graph.
\<close>

subsection \<open>The key handler\<close>

text \<open>The four arrays hold, under key codes, the functions that have been bound; these are values here.\<close>

record 'f mxKeyHandler =
  normalKeys :: "nat \<Rightarrow> 'f option"
  shiftKeys :: "nat \<Rightarrow> 'f option"
  controlKeys :: "nat \<Rightarrow> 'f option"
  controlShiftKeys :: "nat \<Rightarrow> 'f option"
  kh_enabled :: bool

text \<open>\<open>from_graph\<close>: whether the page element that the event comes from belongs to the graph (\<open>isGraphEvent\<close>).\<close>

record key_event =
  keyCode :: nat
  altKey :: bool
  ctrlKey :: bool
  shiftKey :: bool
  ke_consumed :: bool
  from_graph :: bool

definition new_mxKeyHandler :: "'f mxKeyHandler" where
  "new_mxKeyHandler =
     \<lparr>normalKeys = (\<lambda>_. None), shiftKeys = (\<lambda>_. None), controlKeys = (\<lambda>_. None), controlShiftKeys = (\<lambda>_. None),
      kh_enabled = True\<rparr>"

definition kh_isEnabled :: "'f mxKeyHandler \<Rightarrow> bool" where
  "kh_isEnabled h = kh_enabled h"

definition kh_setEnabled :: "bool \<Rightarrow> 'f mxKeyHandler \<Rightarrow> 'f mxKeyHandler" where
  "kh_setEnabled b h = h\<lparr>kh_enabled := b\<rparr>"

definition bindKey :: "nat \<Rightarrow> 'f option \<Rightarrow> 'f mxKeyHandler \<Rightarrow> 'f mxKeyHandler" where
  "bindKey code funct h = h\<lparr>normalKeys := (normalKeys h)(code := funct)\<rparr>"

definition bindShiftKey :: "nat \<Rightarrow> 'f option \<Rightarrow> 'f mxKeyHandler \<Rightarrow> 'f mxKeyHandler" where
  "bindShiftKey code funct h = h\<lparr>shiftKeys := (shiftKeys h)(code := funct)\<rparr>"

definition bindControlKey :: "nat \<Rightarrow> 'f option \<Rightarrow> 'f mxKeyHandler \<Rightarrow> 'f mxKeyHandler" where
  "bindControlKey code funct h = h\<lparr>controlKeys := (controlKeys h)(code := funct)\<rparr>"

definition bindControlShiftKey :: "nat \<Rightarrow> 'f option \<Rightarrow> 'f mxKeyHandler \<Rightarrow> 'f mxKeyHandler" where
  "bindControlShiftKey code funct h = h\<lparr>controlShiftKeys := (controlShiftKeys h)(code := funct)\<rparr>"

definition kh_isControlDown :: "key_event \<Rightarrow> bool" where
  "kh_isControlDown evt = ctrlKey evt"

definition getFunction :: "key_event option \<Rightarrow> 'f mxKeyHandler \<Rightarrow> 'f option" where
  "getFunction evt h =
     (case evt of
        None \<Rightarrow> None
      | Some evt \<Rightarrow>
          if \<not> altKey evt then
            if kh_isControlDown evt then
              if shiftKey evt then controlShiftKeys h (keyCode evt) else controlKeys h (keyCode evt)
            else
              if shiftKey evt then shiftKeys h (keyCode evt) else normalKeys h (keyCode evt)
          else None)"

text \<open>What of the graph the handler asks.\<close>

record key_graph =
  kg_enabled :: bool
  kg_editing :: bool
  kg_escapeEnabled :: bool

definition isEnabledForEvent :: "key_graph \<Rightarrow> key_event \<Rightarrow> 'f mxKeyHandler \<Rightarrow> bool" where
  "isEnabledForEvent g evt h \<longleftrightarrow> kg_enabled g \<and> \<not> ke_consumed evt \<and> from_graph evt \<and> kh_isEnabled h"

definition kh_isEventIgnored :: "key_graph \<Rightarrow> bool" where
  "kh_isEventIgnored g = kg_editing g"

text \<open>What \<open>keyDown\<close> does: nothing, let the graph fire its escape event, or call a bound function and consume the event.\<close>

datatype 'f key_answer = NoKey | EscapeKey | CallKey 'f

definition keyDown :: "key_graph \<Rightarrow> key_event \<Rightarrow> 'f mxKeyHandler \<Rightarrow> 'f key_answer \<times> key_event" where
  "keyDown g evt h =
     (if isEnabledForEvent g evt h then
        if keyCode evt = 27 then (if kg_escapeEnabled g then EscapeKey else NoKey, evt)
        else if \<not> kh_isEventIgnored g then
          (case getFunction (Some evt) h of
             None \<Rightarrow> (NoKey, evt)
           | Some f \<Rightarrow> (CallKey f, evt\<lparr>ke_consumed := True\<rparr>))
        else (NoKey, evt)
      else (NoKey, evt))"

text \<open>Bindings in the order in which they are made: control, shift, code and function.\<close>

type_synonym 'f binding = "bool \<times> bool \<times> nat \<times> 'f option"

fun bind_key :: "'f binding \<Rightarrow> 'f mxKeyHandler \<Rightarrow> 'f mxKeyHandler" where
  "bind_key (ctrl, shift, code, f) h =
     (if ctrl then (if shift then bindControlShiftKey code f h else bindControlKey code f h)
      else if shift then bindShiftKey code f h else bindKey code f h)"

definition last_bound :: "bool \<Rightarrow> bool \<Rightarrow> nat \<Rightarrow> 'f binding list \<Rightarrow> 'f option" where
  "last_bound ctrl shift code bs =
     (case List.find (\<lambda>(c, s, k, f). (c, s, k) = (ctrl, shift, code)) (rev bs) of
        None \<Rightarrow> None | Some (c, s, k, f) \<Rightarrow> f)"

definition table :: "bool \<Rightarrow> bool \<Rightarrow> 'f mxKeyHandler \<Rightarrow> nat \<Rightarrow> 'f option" where
  "table ctrl shift h =
     (if ctrl then (if shift then controlShiftKeys h else controlKeys h)
      else if shift then shiftKeys h else normalKeys h)"

lemma table_bind:
  "table ctrl shift (bind_key (c, s, k, f) h) code =
     (if (ctrl, shift, code) = (c, s, k) then f else table ctrl shift h code)"
  by (auto simp: table_def bindKey_def bindShiftKey_def bindControlKey_def bindControlShiftKey_def)

lemma table_fold: "table ctrl shift (fold bind_key bs new_mxKeyHandler) code = last_bound ctrl shift code bs"
proof (induction bs rule: rev_induct)
  case Nil
  show ?case by (simp add: table_def new_mxKeyHandler_def last_bound_def)
next
  case (snoc b bs)
  obtain c s k f where b: "b = (c, s, k, f)" by (cases b)
  show ?case unfolding b fold_append o_def fold_simps table_bind using snoc by (auto simp: last_bound_def)
qed

lemma enabled_bind_key [simp]: "kh_enabled (bind_key b h) = kh_enabled h"
  by (cases b) (simp add: bindKey_def bindShiftKey_def bindControlKey_def bindControlShiftKey_def)

lemma enabled_fold: "kh_enabled (fold bind_key bs h) = kh_enabled h"
  by (induction bs arbitrary: h) simp_all

lemma getFunction_table:
  "getFunction (Some evt) h = (if altKey evt then None else table (ctrlKey evt) (shiftKey evt) h (keyCode evt))"
  by (simp add: getFunction_def table_def kh_isControlDown_def)

text \<open>C19: Whatever functions have been bound and in whatever order, a key that reaches an idle graph calls the function that
  was bound last under exactly its code and its control and shift keys, and is consumed then; with the alt key, while a label is edited,
  or where the last binding took the function away, nothing is called; escape never calls a bound function.\<close>

theorem keyDown_calls_last_bound:
  assumes "kg_enabled g" and "\<not> ke_consumed evt" and "from_graph evt"
  shows "keyDown g evt (fold bind_key bs new_mxKeyHandler) =
    (if keyCode evt = 27 then (if kg_escapeEnabled g then EscapeKey else NoKey, evt)
     else if kg_editing g \<or> altKey evt then (NoKey, evt)
     else case last_bound (ctrlKey evt) (shiftKey evt) (keyCode evt) bs of
       None \<Rightarrow> (NoKey, evt) | Some f \<Rightarrow> (CallKey f, evt\<lparr>ke_consumed := True\<rparr>))"
proof -
  let ?h = "fold bind_key bs new_mxKeyHandler :: 'a mxKeyHandler"
  have "kh_enabled ?h" by (simp add: enabled_fold new_mxKeyHandler_def)
  then have on: "isEnabledForEvent g evt ?h" using assms by (simp add: isEnabledForEvent_def kh_isEnabled_def)
  then show ?thesis
    by (simp add: keyDown_def kh_isEventIgnored_def getFunction_table table_fold split: option.split)
qed

theorem keyDown_calls_last_bound_witness:
  "fst (keyDown \<lparr>kg_enabled = True, kg_editing = False, kg_escapeEnabled = True\<rparr>
     \<lparr>keyCode = 90, altKey = False, ctrlKey = True, shiftKey = False, ke_consumed = False, from_graph = True\<rparr>
     (fold bind_key [(True, False, 90, Some ''redo''), (False, False, 90, Some ''zoom''), (True, False, 90, Some ''undo'')]
       new_mxKeyHandler)) = CallKey ''undo''"
  by (subst keyDown_calls_last_bound) (simp_all add: last_bound_def)

subsection \<open>The clipboard\<close>

definition STEPSIZE :: int where "STEPSIZE = 10"

record mxClipboard =
  insertCount :: int
  clip_cells :: cells

definition new_mxClipboard :: mxClipboard where
  "new_mxClipboard = \<lparr>insertCount = 1, clip_cells = None\<rparr>"

definition clip_setCells :: "cells \<Rightarrow> mxClipboard \<Rightarrow> mxClipboard" where
  "clip_setCells cs c = c\<lparr>clip_cells := cs\<rparr>"

definition clip_getCells :: "mxClipboard \<Rightarrow> cells" where
  "clip_getCells c = clip_cells c"

definition clip_isEmpty :: "mxClipboard \<Rightarrow> bool" where
  "clip_isEmpty c \<longleftrightarrow> clip_getCells c = None"

definition clip_removeCells :: "cells \<Rightarrow> mxGraph \<Rightarrow> mxGraph option" where
  "clip_removeCells cs g = map_option snd (graph_removeCells cs None g)"

text \<open>\<open>copy\<close> keeps copies of the cells; it returns the cells that have been copied.\<close>

definition clip_copy ::
  "mxResources \<Rightarrow> cref list option \<Rightarrow> mxClipboard \<times> mxGraph \<Rightarrow> (cells \<times> mxClipboard \<times> mxGraph) option" where
  "clip_copy res cs = (\<lambda>(clip, g).
     let cs = (case cs of Some xs \<Rightarrow> xs | None \<Rightarrow> sel_cells (selectionModel g)) in
     Option.bind (getTopmostCells cs (g_model g)) (\<lambda>tops.
     let result = getExportableCells (Some (map Some tops)) g; clip = clip\<lparr>insertCount := 1\<rparr> in
     map_option (\<lambda>(clones, g). (result, clip_setCells clones clip, g)) (graph_cloneCells res result None None None g)))"

definition clip_cut ::
  "mxResources \<Rightarrow> cref list option \<Rightarrow> mxClipboard \<times> mxGraph \<Rightarrow> (cells \<times> mxClipboard \<times> mxGraph) option" where
  "clip_cut res cs s =
     Option.bind (clip_copy res cs s) (\<lambda>(cells, clip, g).
       map_option (\<lambda>g. (cells, clip\<lparr>insertCount := 0\<rparr>, g)) (clip_removeCells cells g))"

text \<open>\<open>paste\<close>, before and with the selection of the new cells; no copy is null, as invalid edges are copied too.\<close>

definition clip_insert ::
  "browser \<Rightarrow> mxResources \<Rightarrow> mxClipboard \<times> mxGraph \<Rightarrow> (cells \<times> mxClipboard \<times> mxGraph) option" where
  "clip_insert env res = (\<lambda>(clip, g).
     Option.bind (case getImportableCells (clip_getCells clip) g of
         None \<Rightarrow> Some None | Some cs \<Rightarrow> map_option Some (those cs)) (\<lambda>cells.
       let delta = of_int (insertCount clip * STEPSIZE); parent = getDefaultParent g in
       map_option (\<lambda>(cells, g). (cells, clip\<lparr>insertCount := insertCount clip + 1\<rparr>, g))
         (importCells env res cells (Some delta) (Some delta) parent None g)))"

definition clip_paste ::
  "browser \<Rightarrow> mxResources \<Rightarrow> mxClipboard \<times> mxGraph \<Rightarrow> (cells \<times> mxClipboard \<times> mxGraph) option" where
  "clip_paste env res = (\<lambda>(clip, g).
     if \<not> clip_isEmpty clip then
       map_option (\<lambda>(cells, clip, g). (cells, clip, setSelectionCells cells g)) (clip_insert env res (clip, g))
     else Some (None, clip, g))"

end
