(* ===== verification/EditorPage.thy ===== *)
theory EditorPage
  imports Keys Zoom HitTest
begin

text \<open>
  The page of the diagram editor, js/MXGraph.js: the graph as \<open>main\<close> sets it up, the keys it binds, and its history.
  A command acts on the graph; then the listeners hear the events that it has fired: the graph itself brings its view up to
  date when the model has changed, and the history takes the edits of the model and of the view.
\<close>

subsection \<open>The graph of the page\<close>

definition secondLabelVisible :: bool where "secondLabelVisible = True"

definition relativeChildVerticesVisible :: bool where "relativeChildVerticesVisible = True"

definition page_isCellLocked :: "cref option \<Rightarrow> mxGraphModel \<Rightarrow> bool" where
  "page_isCellLocked cell m = False"

definition page_isCellFoldable :: "cref option \<Rightarrow> mxGraphModel \<Rightarrow> bool" where
  "page_isCellFoldable cell m = False"

definition page_isCellVisible :: "cref option \<Rightarrow> mxGraphModel \<Rightarrow> bool" where
  "page_isCellVisible cell m \<longleftrightarrow>
     (\<not> isVertex cell m \<or>
      (case m_getGeometry cell m of
         None \<Rightarrow> True
       | Some r \<Rightarrow> \<not> g_relative (geo_at m r) \<or> g_relative (geo_at m r) = relativeChildVerticesVisible))"

definition page_styles :: "mxStylesheet \<Rightarrow> mxStylesheet" where
  "page_styles sh =
     (case getDefaultEdgeStyle sh of
        None \<Rightarrow> sh
      | Some style \<Rightarrow>
          putDefaultEdgeStyle sh
            (AList.update ''edge'' (SFun ''ElbowConnector'') (AList.update ''rounded'' (SBool True) style)))"

text \<open>\<open>main\<close>, in the order of its statements, on a graph of the editor.\<close>

definition page_setup :: "mxGraph \<Rightarrow> mxGraph" where
  "page_setup g =
     (let g = setDropEnabled True g;
          g = setCellsEditable True g;
          g = setMultigraph False g;
          g = setSplitEnabled True g;
          g = setCellsResizable True g;
          g = setVertexLabelsMovable True g;
          g = g\<lparr>stylesheet := page_styles (stylesheet g)\<rparr>;
          g = setAllowDanglingEdges False g;
          g = g\<lparr>own_isCellLocked := Some page_isCellLocked\<rparr>;
          g = setConstrainRelativeChildren True g;
          g = g\<lparr>own_isCellFoldable := Some page_isCellFoldable\<rparr>
      in g\<lparr>own_isCellVisible := Some page_isCellVisible\<rparr>)"

text \<open>\<open>flipEdge\<close> of the page: the elbow of the edge turns between horizontal and vertical.\<close>

definition page_flipEdge :: "cref option \<Rightarrow> mxGraph \<Rightarrow> mxGraph option" where
  "page_flipEdge edge g =
     (if edge \<noteq> None then
        Option.bind (style_of edge g) (\<lambda>style.
          let elbow = the (getValue (Some style) ''elbow'' (Some (SStr ''horizontal'')));
              v = SStr (if elbow = SStr ''horizontal'' then ''vertical'' else ''horizontal'')
          in setCellStyles ''elbow'' (Some v) (Some [edge]) g)
      else Some g)"

text \<open>\<open>getSecondLabel\<close>: the identifier of a cell that is no edge.\<close>

definition getSecondLabel :: "cref \<Rightarrow> mxGraph \<Rightarrow> string option" where
  "getSecondLabel cell g =
     (if \<not> isEdge (Some cell) (g_model g)
      then Some (''ID='' @ (case cell_getId cell (g_model g) of None \<Rightarrow> ''null'' | Some i \<Rightarrow> i)) else None)"

subsection \<open>Commands and their keys\<close>

datatype command =
  Fold bool | ExitGroup | EnterGroup | Home | Refresh | SelectPrevious | SelectParent | SelectNext | SelectChild
| Delete | ZoomIn | ZoomOut | StartEditing | SelectAll | Redo | Undo | Cut | Copy | Paste | Group | Ungroup

definition page_bindings :: "command binding list" where
  "page_bindings =
     [(False, False, 8, Some (Fold True)),
      (False, False, 13, Some (Fold False)),
      (False, False, 33, Some ExitGroup),
      (False, False, 34, Some EnterGroup),
      (False, False, 36, Some Home),
      (False, False, 35, Some Refresh),
      (False, False, 37, Some SelectPrevious),
      (False, False, 38, Some SelectParent),
      (False, False, 39, Some SelectNext),
      (False, False, 40, Some SelectChild),
      (False, False, 46, Some Delete),
      (False, False, 107, Some ZoomIn),
      (False, False, 109, Some ZoomOut),
      (False, False, 113, Some StartEditing),
      (True, False, 65, Some SelectAll),
      (True, False, 89, Some Redo),
      (True, False, 90, Some Undo),
      (True, False, 88, Some Cut),
      (True, False, 67, Some Copy),
      (True, False, 86, Some Paste),
      (True, False, 71, Some Group),
      (True, False, 85, Some Ungroup)]"

definition page_keys :: "command mxKeyHandler" where
  "page_keys = fold bind_key page_bindings new_mxKeyHandler"

subsection \<open>The history\<close>

text \<open>The history holds the edits of the model and of the view.\<close>

datatype page_change = OfModel change | OfView mxCurrentRootChange

type_synonym page_history = "page_change mxUndoManager"

definition model_changes :: "page_change list \<Rightarrow> change list" where
  "model_changes cs = concat (map (\<lambda>c. case c of OfModel d \<Rightarrow> [d] | OfView r \<Rightarrow> []) cs)"

definition edit_of :: "('c \<Rightarrow> page_change) \<Rightarrow> 'c mxUndoableEdit \<Rightarrow> page_change mxUndoableEdit" where
  "edit_of f e = \<lparr>changes = map f (changes e), significant = significant e, undone = undone e, redone = redone e\<rparr>"

text \<open>The changes of an edit, on the graph; \<open>None\<close>, once one has not completed.  An edit of the model notifies the graph.  The
  events \<open>START_EDIT\<close> and \<open>END_EDIT\<close> have no listeners on the page.\<close>

definition exec_page_change ::
  "painter \<Rightarrow> page_change \<Rightarrow> mxGraph option \<Rightarrow> page_change \<times> mxGraph option" where
  "exec_page_change env c s =
     (case (s, c) of
        (None, _) \<Rightarrow> (c, None)
      | (Some g, OfModel ch) \<Rightarrow>
          (case exec_change ch (g_model g) of
             None \<Rightarrow> (c, None) | Some (d, m) \<Rightarrow> (OfModel d, Some (g\<lparr>g_model := m\<rparr>)))
      | (Some g, OfView ch) \<Rightarrow>
          (case execute_root_change env ch g of None \<Rightarrow> (c, None) | Some (d, g) \<Rightarrow> (OfView d, Some g)))"

fun fire_executed :: "page_change edit_event \<Rightarrow> mxGraph \<Rightarrow> mxGraph" where
  "fire_executed (EXECUTED (OfModel c)) g = g\<lparr>g_model := m_fire (EvExecuted c) (g_model g)\<rparr>"
| "fire_executed ev g = g"

definition notify_page :: "painter \<Rightarrow> page_change mxUndoableEdit \<Rightarrow> mxGraph \<Rightarrow> mxGraph option" where
  "notify_page env e g =
     (let cs = model_changes (changes e) in
      if cs = [] then Some g
      else graphModelChanged env cs
             (g\<lparr>g_model := notify_edit \<lparr>changes = cs, significant = significant e, undone = undone e, redone = redone e\<rparr>
                (g_model g)\<rparr>))"

definition page_ops :: "painter \<Rightarrow> (page_change, mxGraph option) edit_ops" where
  "page_ops env =
     \<lparr>op_execute = (\<lambda>c. Some (exec_page_change env c)), op_undo = (\<lambda>c. None), op_redo = (\<lambda>c. None),
      op_fire = (\<lambda>ev. map_option (fire_executed ev)),
      op_notify = (\<lambda>e s. Option.bind s (notify_page env e))\<rparr>"

subsection \<open>The listeners\<close>

definition happened :: "page_change mxUndoableEdit \<Rightarrow> page_history \<Rightarrow> page_history" where
  "happened e h = fst (undoableEditHappened e h ())"

fun root_edit :: "view_event \<Rightarrow> page_change mxUndoableEdit list" where
  "root_edit (EvRootEdit e) = [edit_of OfView e]"
| "root_edit ev = []"

text \<open>The edits of the view since it had fired \<open>n\<close> events.\<close>

definition root_edits :: "nat \<Rightarrow> mxGraph \<Rightarrow> page_change mxUndoableEdit list" where
  "root_edits n g = concat (map root_edit (drop n (v_fired (g_view g))))"

definition record_roots :: "mxGraph \<Rightarrow> mxGraph \<Rightarrow> page_history \<Rightarrow> page_history" where
  "record_roots g g' h = fold happened (root_edits (length (v_fired (g_view g))) g') h"

fun deliver :: "painter \<Rightarrow> model_event \<Rightarrow> mxGraph \<times> page_history \<Rightarrow> (mxGraph \<times> page_history) option" where
  "deliver env (EvChange e) (g, h) = map_option (\<lambda>g'. (g', record_roots g g' h)) (graphModelChanged env (changes e) g)"
| "deliver env (EvUndo e) (g, h) = Some (g, happened (edit_of OfModel e) h)"
| "deliver env ev s = Some s"

definition settle :: "painter \<Rightarrow> mxGraph \<Rightarrow> mxGraph \<Rightarrow> page_history \<Rightarrow> (mxGraph \<times> page_history) option" where
  "settle env g g' h =
     for_each (deliver env) (drop (length (m_fired (g_model g))) (m_fired (g_model g'))) (g', record_roots g g' h)"

subsection \<open>The page\<close>

record page =
  pg_graph :: mxGraph
  pg_history :: page_history
  pg_clipboard :: mxClipboard
  pg_container :: container
  pg_zoom :: zoom_settings
  pg_editing :: "cref option"

record page_env =
  pe_painter :: painter
  pe_browser :: browser
  pe_resources :: mxResources

definition new_page :: "mxGraphModel \<Rightarrow> container \<Rightarrow> page" where
  "new_page m k =
     \<lparr>pg_graph = page_setup (new_mxGraph m None), pg_history = new_mxUndoManager None, pg_clipboard = new_mxClipboard,
      pg_container = k, pg_zoom = default_zoom, pg_editing = None\<rparr>"

text \<open>An operation of the graph with a result, after which the listeners are called.\<close>

definition on_graph :: "page_env \<Rightarrow> (mxGraph \<Rightarrow> ('a \<times> mxGraph) option) \<Rightarrow> page \<Rightarrow> ('a \<times> page) option" where
  "on_graph E f p =
     Option.bind (f (pg_graph p)) (\<lambda>(x, g').
       map_option (\<lambda>(g, h). (x, p\<lparr>pg_graph := g, pg_history := h\<rparr>))
         (settle (pe_painter E) (pg_graph p) g' (pg_history p)))"

definition just_graph :: "page_env \<Rightarrow> (mxGraph \<Rightarrow> mxGraph option) \<Rightarrow> page \<Rightarrow> page option" where
  "just_graph E f p = map_option snd (on_graph E (\<lambda>g. map_option (Pair ()) (f g)) p)"

definition select_on :: "(mxGraph \<Rightarrow> mxGraph) \<Rightarrow> page \<Rightarrow> page" where
  "select_on f p = p\<lparr>pg_graph := f (pg_graph p)\<rparr>"

text \<open>\<open>undoHandler\<close>: the cells of an edit that has been undone or redone are selected.\<close>

definition undoHandler :: "page_change mxUndoableEdit \<Rightarrow> mxGraph \<Rightarrow> mxGraph option" where
  "undoHandler e g =
     map_option (\<lambda>cs. setSelectionCells (Some cs) g) (getSelectionCellsForChanges (model_changes (changes e)) g)"

fun heard :: "page_change manager_event \<Rightarrow> mxGraph \<Rightarrow> mxGraph option" where
  "heard (MgrUndo e) g = undoHandler e g"
| "heard (MgrRedo e) g = undoHandler e g"
| "heard ev g = Some g"

text \<open>Undo and redo.  \<open>None\<close> also where the graph leaves its current root while the edit runs: the edit of the view
  then enters the history that is being walked through.\<close>

definition page_history_step ::
  "page_env \<Rightarrow> (page_history \<Rightarrow> mxGraph option \<Rightarrow> page_history \<times> mxGraph option) \<Rightarrow> page \<Rightarrow> page option" where
  "page_history_step E run p =
     (let (h, s) = run (pg_history p) (Some (pg_graph p))
      in Option.bind s (\<lambda>g.
           if root_edits (length (v_fired (g_view (pg_graph p)))) g \<noteq> [] then None
           else map_option (\<lambda>g. p\<lparr>pg_graph := g, pg_history := h\<rparr>)
                  (for_each heard (drop (length (um_fired (pg_history p))) (um_fired h)) g)))"

definition page_undo :: "page_env \<Rightarrow> page \<Rightarrow> page option" where
  "page_undo E p = page_history_step E (um_undo (page_ops (pe_painter E))) p"

definition page_redo :: "page_env \<Rightarrow> page \<Rightarrow> page option" where
  "page_redo E p = page_history_step E (um_redo (page_ops (pe_painter E))) p"

definition page_copy :: "page_env \<Rightarrow> page \<Rightarrow> page option" where
  "page_copy E p =
     map_option (\<lambda>(clip, p). p\<lparr>pg_clipboard := clip\<rparr>)
       (on_graph E (\<lambda>g. map_option snd (clip_copy (pe_resources E) None (pg_clipboard p, g))) p)"

definition page_cut :: "page_env \<Rightarrow> page \<Rightarrow> page option" where
  "page_cut E p =
     map_option (\<lambda>(clip, p). p\<lparr>pg_clipboard := clip\<rparr>)
       (on_graph E (\<lambda>g. map_option snd (clip_cut (pe_resources E) None (pg_clipboard p, g))) p)"

definition page_paste :: "page_env \<Rightarrow> page \<Rightarrow> page option" where
  "page_paste E p =
     (if \<not> clip_isEmpty (pg_clipboard p) then
        map_option (\<lambda>((cells, clip), p). select_on (setSelectionCells cells) (p\<lparr>pg_clipboard := clip\<rparr>))
          (on_graph E (\<lambda>g. map_option (\<lambda>(cells, clip, g). ((cells, clip), g))
             (clip_insert (pe_browser E) (pe_resources E) (pg_clipboard p, g))) p)
      else Some p)"

definition page_zoom :: "page_env \<Rightarrow> (container \<Rightarrow> mxGraph \<Rightarrow> (container \<times> mxGraph) option) \<Rightarrow> page \<Rightarrow> page option" where
  "page_zoom E f p =
     map_option (\<lambda>(k, p). p\<lparr>pg_container := k\<rparr>) (on_graph E (f (pg_container p)) p)"

text \<open>\<open>startEditingAtCell()\<close>; the editor takes a cell that has a state.\<close>

definition page_edit :: "page \<Rightarrow> page option" where
  "page_edit p =
     (let g = pg_graph p; cell = getSelectionCell g in
      map_option (\<lambda>editable. if cell \<noteq> None \<and> editable \<and> getState cell g \<noteq> None then p\<lparr>pg_editing := cell\<rparr> else p)
        (if cell \<noteq> None then isCellEditable cell g else Some False))"

fun run_command :: "page_env \<Rightarrow> command \<Rightarrow> page \<Rightarrow> page option" where
  "run_command E (Fold b) p = just_graph E (\<lambda>g. map_option snd (foldCells (pe_browser E) b None None False g)) p"
| "run_command E ExitGroup p = just_graph E (exitGroup (pe_painter E)) p"
| "run_command E EnterGroup p = just_graph E (enterGroup (pe_painter E) None) p"
| "run_command E Home p = just_graph E (home (pe_painter E)) p"
| "run_command E Refresh p = just_graph E (graph_refresh (pe_painter E) None) p"
| "run_command E SelectPrevious p = Some (select_on selectPreviousCell p)"
| "run_command E SelectParent p = Some (select_on selectParentCell p)"
| "run_command E SelectNext p = Some (select_on selectNextCell p)"
| "run_command E SelectChild p = Some (select_on selectChildCell p)"
| "run_command E Delete p = just_graph E (\<lambda>g. map_option snd (graph_removeCells None None g)) p"
| "run_command E ZoomIn p = page_zoom E (zoomIn (pe_painter E) (pg_zoom p)) p"
| "run_command E ZoomOut p = page_zoom E (zoomOut (pe_painter E) (pg_zoom p)) p"
| "run_command E StartEditing p = page_edit p"
| "run_command E SelectAll p = just_graph E (selectAll None False) p"
| "run_command E Redo p = page_redo E p"
| "run_command E Undo p = page_undo E p"
| "run_command E Cut p = page_cut E p"
| "run_command E Copy p = page_copy E p"
| "run_command E Paste p = page_paste E p"
| "run_command E Group p =
     map_option (\<lambda>(c, p). select_on (setSelectionCell (Some c)) p)
       (on_graph E (groupCells (pe_browser E) None (Some 20) None) p)"
| "run_command E Ungroup p =
     map_option (\<lambda>(cs, p). select_on (setSelectionCells (Some cs)) p)
       (on_graph E (ungroupCells (pe_browser E) None) p)"

text \<open>A key: the answers of the graph to the handler, and the command that is bound.\<close>

definition press :: "page_env \<Rightarrow> key_event \<Rightarrow> page \<Rightarrow> page option" where
  "press E evt p =
     (case fst (keyDown \<lparr>kg_enabled = True, kg_editing = (pg_editing p \<noteq> None), kg_escapeEnabled = True\<rparr> evt page_keys) of
        CallKey c \<Rightarrow> run_command E c p
      | _ \<Rightarrow> Some p)"

text \<open>The end of editing, with a new label or without, and a click.\<close>

definition finish_edit :: "page_env \<Rightarrow> user_value option option \<Rightarrow> page \<Rightarrow> page option" where
  "finish_edit E label p =
     (case (pg_editing p, label) of
        (Some c, Some v) \<Rightarrow> just_graph E (labelChanged (pe_browser E) c v) (p\<lparr>pg_editing := None\<rparr>)
      | _ \<Rightarrow> Some (p\<lparr>pg_editing := None\<rparr>))"

definition click_on ::
  "page_env \<Rightarrow> cref option \<Rightarrow> jsnum \<Rightarrow> jsnum \<Rightarrow> bool \<Rightarrow> bool \<Rightarrow> bool \<Rightarrow> page \<Rightarrow> page option" where
  "click_on E cell x y live toggle through p =
     map_option (\<lambda>g. p\<lparr>pg_graph := g\<rparr>) (graph_click (pe_painter E) cell x y live toggle through (pg_graph p))"

text \<open>The menu of the page, the button that resets the zoom, and the field with the factor.\<close>

definition menu_command :: "string \<Rightarrow> command option" where
  "menu_command key =
     (if key = ''delete'' then Some Delete else if key = ''undo'' then Some Undo else if key = ''redo'' then Some Redo else None)"

definition reset_zoom :: "page_env \<Rightarrow> page \<Rightarrow> page option" where
  "reset_zoom E p =
     map_option (\<lambda>p. p\<lparr>pg_zoom := (pg_zoom p)\<lparr>zoomFactor := 6 / 5\<rparr>\<rparr>) (just_graph E (zoomActual (pe_painter E)) p)"

definition set_factor :: "jsnum \<Rightarrow> page \<Rightarrow> page" where
  "set_factor f p = p\<lparr>pg_zoom := (pg_zoom p)\<lparr>zoomFactor := f\<rparr>\<rparr>"

subsection \<open>What an edit keeps\<close>

text \<open>A property of the state that changes, events and notifications keep is kept by undo and redo.\<close>

locale kept_by_ops =
  fixes ops :: "('c, 's) edit_ops" and exec :: "'c \<Rightarrow> 's \<Rightarrow> 'c \<times> 's" and P :: "'s \<Rightarrow> bool"
  assumes has_exec: "op_execute ops c = Some (exec c)"
    and exec_keeps: "P s \<Longrightarrow> P (snd (exec c s))"
    and fire_keeps: "P s \<Longrightarrow> P (op_fire ops ev s)"
    and notify_keeps: "P s \<Longrightarrow> P (op_notify ops e s)"
begin

lemma changes_keep: "P s \<Longrightarrow> P (snd (undo_changes ops cs s))" "P s \<Longrightarrow> P (snd (redo_changes ops cs s))"
  by (induction cs arbitrary: s)
    (simp_all add: split_beta undo_change_def redo_change_def has_exec exec_keeps fire_keeps Let_def)

lemma edit_keeps: "P s \<Longrightarrow> P (snd (edit_undo ops e s))" "P s \<Longrightarrow> P (snd (edit_redo ops e s))"
  by (simp_all add: edit_undo_def edit_redo_def split_beta Let_def changes_keep fire_keeps notify_keeps)

lemma undo_loop_keeps: "P s \<Longrightarrow> P (snd (um_undo_loop ops k m s))"
  by (induction k arbitrary: m s) (simp_all add: split_beta Let_def edit_keeps)

lemma redo_loop_keeps: "P s \<Longrightarrow> P (snd (um_redo_loop ops r m s))"
  by (induction r arbitrary: m s) (simp_all add: split_beta Let_def edit_keeps)

lemma history_keeps: "P s \<Longrightarrow> P (snd (um_undo ops m s))" "P s \<Longrightarrow> P (snd (um_redo ops m s))"
  by (simp_all add: um_undo_def um_redo_def undo_loop_keeps redo_loop_keeps)

end

text \<open>A sound model between the calls of the page.\<close>

definition model_ok :: "mxGraph option \<Rightarrow> bool" where
  "model_ok s \<longleftrightarrow> (\<forall>g. s = Some g \<longrightarrow> struct_inv (g_model g) \<and> at_rest (g_model g))"

lemma at_rest_tx: "tx_fields m' = tx_fields m \<Longrightarrow> at_rest m' \<longleftrightarrow> at_rest m"
  by (simp add: tx_fields_def at_rest_def)

lemma model_ok_fire:
  "model_ok (Some g) \<Longrightarrow> model_ok (Some (g\<lparr>g_model := m_fire ev (g_model g)\<rparr>))"
  using struct_inv_links [OF links_fire] by (auto simp: model_ok_def at_rest_def) (simp_all add: m_fire_def)

lemma model_ok_exec: "model_ok s \<Longrightarrow> model_ok (snd (exec_page_change env c s))"
proof -
  assume ok: "model_ok s"
  show "model_ok (snd (exec_page_change env c s))"
  proof (cases s)
    case (Some g)
    show ?thesis
    proof (cases c)
      case (OfModel ch)
      show ?thesis
      proof (cases "exec_change ch (g_model g)")
        case None
        then show ?thesis by (simp add: exec_page_change_def Some OfModel model_ok_def)
      next
        case (Some r)
        obtain d m where r: "exec_change ch (g_model g) = Some (d, m)" using Some by (cases r) simp
        have "struct_inv m" "at_rest m"
          using ok \<open>s = Some g\<close> struct_inv_exec_change [OF r] at_rest_tx [OF tx_exec_change [OF r]]
          by (simp_all add: model_ok_def)
        then show ?thesis by (simp add: exec_page_change_def \<open>s = Some g\<close> OfModel r model_ok_def)
      qed
    next
      case (OfView ch)
      with Some ok show ?thesis
        by (auto simp: exec_page_change_def model_ok_def split: option.splits dest!: model_root_change)
    qed
  qed (simp add: exec_page_change_def model_ok_def)
qed

lemma model_ok_notify: "model_ok s \<Longrightarrow> model_ok (Option.bind s (notify_page env e))"
proof (cases s)
  case (Some g)
  assume ok: "model_ok s"
  let ?g = "\<lambda>x. g\<lparr>g_model := notify_edit x (g_model g)\<rparr>"
  have "model_ok (Some (?g x))" for x
    using ok Some model_ok_fire [OF model_ok_fire, of g "EvNotify x" "EvChange x"] by (simp add: notify_edit_def)
  then show ?thesis
    using ok Some by (auto simp: notify_page_def model_ok_def Let_def dest!: model_graphModelChanged)
qed (simp add: model_ok_def)

interpretation page_edits: kept_by_ops "page_ops env" "exec_page_change env" model_ok for env
proof
  show "model_ok s \<Longrightarrow> model_ok (op_fire (page_ops env) ev s)" for s ev
  proof (cases s)
    case (Some g)
    assume "model_ok s"
    then have "model_ok (Some (fire_executed ev g))"
      using Some model_ok_fire by (induction ev g rule: fire_executed.induct) simp_all
    then show ?thesis using Some by (simp add: page_ops_def)
  qed (simp add: page_ops_def model_ok_def)
qed (simp_all add: page_ops_def model_ok_exec model_ok_notify)

subsection \<open>The length of the history\<close>

definition um_bounds :: "'c mxUndoManager \<Rightarrow> bool" where
  "um_bounds m \<longleftrightarrow> um_size m = 100 \<and> indexOfNextAdd m \<le> length (history m) \<and> length (history m) \<le> 100"

lemma um_bounds_undo: "um_bounds m \<Longrightarrow> um_bounds (fst (um_undo ops m s))"
proof -
  have "um_bounds m \<Longrightarrow> k \<le> length (history m) \<Longrightarrow> um_bounds (fst (um_undo_loop ops k m s))" for k m s
    by (induction k arbitrary: m s) (simp_all add: split_beta Let_def um_bounds_def um_fire_def)
  then show "um_bounds m \<Longrightarrow> um_bounds (fst (um_undo ops m s))" by (simp add: um_undo_def um_bounds_def)
qed

lemma um_bounds_redo: "um_bounds m \<Longrightarrow> um_bounds (fst (um_redo ops m s))"
proof -
  have "um_bounds m \<Longrightarrow> indexOfNextAdd m + r \<le> length (history m) \<Longrightarrow> um_bounds (fst (um_redo_loop ops r m s))" for r m s
    by (induction r arbitrary: m s) (simp_all add: split_beta Let_def um_bounds_def um_fire_def)
  then show "um_bounds m \<Longrightarrow> um_bounds (fst (um_redo ops m s))" by (simp add: um_redo_def um_bounds_def)
qed

lemma um_bounds_happened: "um_bounds h \<Longrightarrow> um_bounds (happened e h)"
  by (auto simp: um_bounds_def happened_def undoableEditHappened_def um_trim_def Let_def um_fire_def min_def)

lemma um_bounds_roots: "um_bounds h \<Longrightarrow> um_bounds (record_roots g g' h)"
proof -
  have "um_bounds h \<Longrightarrow> um_bounds (fold happened es h)" for es
    by (induction es arbitrary: h) (simp_all add: um_bounds_happened)
  then show "um_bounds h \<Longrightarrow> um_bounds (record_roots g g' h)" by (simp add: record_roots_def)
qed

subsection \<open>The listeners leave the model alone\<close>

definition page_ok :: "page \<Rightarrow> bool" where
  "page_ok p \<longleftrightarrow> model_ok (Some (pg_graph p)) \<and> um_bounds (pg_history p)"

lemma deliver_keeps:
  assumes "deliver env ev (g, h) = Some (g', h')"
  shows "g_model g' = g_model g \<and> (um_bounds h \<longrightarrow> um_bounds h')"
  using assms
  by (cases ev) (auto dest: model_graphModelChanged simp: um_bounds_happened um_bounds_roots)

lemma settle_keeps:
  assumes "settle env g g1 h = Some (g', h')"
  shows "g_model g' = g_model g1" "um_bounds h \<Longrightarrow> um_bounds h'"
proof -
  let ?P = "\<lambda>t. g_model (fst t) = g_model g1 \<and> (um_bounds h \<longrightarrow> um_bounds (snd t))"
  have "?P (g', h')"
    by (rule for_each_inv [OF assms [unfolded settle_def], where P = ?P])
      (auto simp: um_bounds_roots dest: deliver_keeps)
  then show "g_model g' = g_model g1" "um_bounds h \<Longrightarrow> um_bounds h'" by simp_all
qed

lemma on_graph_keeps:
  assumes "on_graph E f p = Some (x, p')" and "page_ok p"
    and "\<And>x g'. f (pg_graph p) = Some (x, g') \<Longrightarrow> model_ok (Some (pg_graph p)) \<Longrightarrow> model_ok (Some g')"
  shows "page_ok p'"
proof -
  obtain g1 g h where 1: "f (pg_graph p) = Some (x, g1)"
    "settle (pe_painter E) (pg_graph p) g1 (pg_history p) = Some (g, h)" "p' = p\<lparr>pg_graph := g, pg_history := h\<rparr>"
    using assms(1) by (auto simp: on_graph_def bind_eq_Some_conv)
  have "model_ok (Some g1)" using assms(2,3) 1(1) by (simp add: page_ok_def)
  then show ?thesis
    using settle_keeps [OF 1(2)] assms(2) by (simp add: page_ok_def 1(3) model_ok_def)
qed

lemma just_graph_keeps:
  assumes "just_graph E f p = Some p'" and "page_ok p"
    and "\<And>g'. f (pg_graph p) = Some g' \<Longrightarrow> model_ok (Some (pg_graph p)) \<Longrightarrow> model_ok (Some g')"
  shows "page_ok p'"
  using assms(1) on_graph_keeps [OF _ assms(2), of E "\<lambda>g. map_option (Pair ()) (f g)"] assms(3)
  by (auto simp: just_graph_def)

lemma select_keeps: "page_ok p \<Longrightarrow> (\<And>g. g_model (f g) = g_model g) \<Longrightarrow> page_ok (select_on f p)"
  by (simp add: page_ok_def select_on_def model_ok_def)

lemma call_keeps: "graph_call g g' \<Longrightarrow> model_ok (Some g) \<Longrightarrow> model_ok (Some g')"
  using structure_calls.kept_call [OF graph_call_run] call_from_rest [OF graph_call_run] by (auto simp: model_ok_def)

lemma calls_keep: "graph_call\<^sup>*\<^sup>* g g' \<Longrightarrow> model_ok (Some g) \<Longrightarrow> model_ok (Some g')"
  by (induction rule: rtranclp_induct) (blast intro: call_keeps)+

text \<open>No zooming changes the model.\<close>

definition same_model_out :: "mxGraph \<Rightarrow> mxGraph option \<Rightarrow> bool" where
  "same_model_out g r \<longleftrightarrow> (\<forall>g'. r = Some g' \<longrightarrow> g_model g' = g_model g)"

definition same_model_snd :: "mxGraph \<Rightarrow> ('a \<times> mxGraph) option \<Rightarrow> bool" where
  "same_model_snd g r \<longleftrightarrow> (\<forall>x g'. r = Some (x, g') \<longrightarrow> g_model g' = g_model g)"

lemma same_model_view:
  "same_model_out g (scaleAndTranslate env s dx dy g)" "same_model_out g (setScale env s g)"
  "same_model_out g (setTranslate env dx dy g)" "same_model_out g (revalidate env g)" "same_model_out g (view_refresh env g)"
  by (auto simp: same_model_out_def rescaled rescaled_to setTranslate_def Let_def v_fire_def
      dest!: revalidated behind_refresh_view model_behind split: if_splits)

lemma same_model_rules:
  "same_model_out g1 r \<Longrightarrow> g_model g1 = g_model g \<Longrightarrow> same_model_out g r"
  "same_model_out g (Some g)"
  "same_model_out g r \<Longrightarrow> same_model_snd g (map_option (Pair k) r)"
  "same_model_out g r \<Longrightarrow> same_model_snd g (map_option (\<lambda>g. (h g, g)) r)"
  "(\<And>x. same_model_snd g (f x)) \<Longrightarrow> same_model_snd g (Option.bind y f)"
  by (fastforce simp: same_model_out_def same_model_snd_def bind_eq_Some_conv)+

lemma same_model_if:
  "same_model_snd g x \<Longrightarrow> same_model_snd g y \<Longrightarrow> same_model_snd g (if b then x else y)"
  "same_model_out g x1 \<Longrightarrow> same_model_out g y1 \<Longrightarrow> same_model_out g (if b then x1 else y1)"
  by simp_all

lemma scroll_keeps_model:
  assumes "scrollRectToVisible env z r k g = Some (b, k', g')"
  shows "g_model g' = g_model g"
proof (cases r)
  case (Some rect)
  have moved: "g_model (move_translate dx dy g) = g_model g" for dx dy by (simp add: move_translate_def)
  show ?thesis
  proof (cases "hasScrollbars k")
    case True
    with Some assms show ?thesis
      using same_model_view(3) [of g env] by (auto simp: scrollRectToVisible_def Let_def split_beta same_model_out_def split: if_splits)
  next
    case False
    with Some assms show ?thesis
      using same_model_view(5) [of "move_translate _ _ g" env] moved
      by (auto simp: scrollRectToVisible_def Let_def bind_eq_Some_conv same_model_out_def split: if_splits)
  qed
qed (use assms in \<open>simp add: scrollRectToVisible_def\<close>)

lemma zoom_keeps_model: "same_model_snd g (zoom env z factor center k g)"
proof -
  have scaled: "same_model_snd g (Option.bind (scrollRectToVisible env z r k (g\<lparr>g_view := v\<rparr>)) (\<lambda>(moved, k, g).
      if \<not> moved then map_option (Pair k) (Option.bind (revalidate env g) (setScale env s)) else Some (k, g)))" for r v s
  proof -
    have "g_model g2 = g_model g"
      if 1: "scrollRectToVisible env z r k (g\<lparr>g_view := v\<rparr>) = Some (b, k1, g1)"
        and 2: "(if \<not> b then map_option (Pair k1) (Option.bind (revalidate env g1) (setScale env s)) else Some (k1, g1)) = Some (k2, g2)"
      for b k1 g1 k2 g2
      using scroll_keeps_model [OF 1] 2 same_model_view(2,4)
      by (auto simp: bind_eq_Some_conv same_model_out_def split: if_splits)
    then show ?thesis unfolding same_model_snd_def bind_eq_Some_conv split_paired_Ex prod.case by blast
  qed
  show ?thesis
    unfolding zoom_def Let_def
    by (intro same_model_rules(3,5) same_model_if scaled same_model_view)
      (auto simp: same_model_snd_def same_model_view(2) [unfolded same_model_out_def] split: if_splits)
qed

lemma clip_calls:
  assumes "fresh_links (g_model g)"
  shows "clip_copy res cs (clip, g) = Some (r, clip', g') \<Longrightarrow> graph_call\<^sup>*\<^sup>* g g'"
    and "clip_cut res cs (clip, g) = Some (r, clip', g') \<Longrightarrow> graph_call\<^sup>*\<^sup>* g g'"
    and "clip_insert env res (clip, g) = Some (r, clip', g') \<Longrightarrow> graph_call\<^sup>*\<^sup>* g g'"
proof -
  have none: "mapping_ok None g" by (simp add: mapping_ok_def)
  show copy: "graph_call\<^sup>*\<^sup>* g g'" if run: "clip_copy res cs (clip, g) = Some (r, clip', g')" for r clip' g'
  proof -
    obtain xs clones where "graph_cloneCells res xs None None None g = Some (clones, g')"
      using run by (auto simp: clip_copy_def Let_def bind_eq_Some_conv)
    from call_clone [OF this assms none] show ?thesis by (rule r_into_rtranclp)
  qed
  show "graph_call\<^sup>*\<^sup>* g g'" if run: "clip_cut res cs (clip, g) = Some (r, clip', g')"
  proof -
    obtain clip1 g1 zs where "clip_copy res cs (clip, g) = Some (r, clip1, g1)" "graph_removeCells r None g1 = Some (zs, g')"
      using run by (auto simp: clip_cut_def clip_removeCells_def bind_eq_Some_conv)
    with copy show ?thesis by (blast intro: rtranclp.rtrancl_into_rtrancl call_remove)
  qed
  show "graph_call\<^sup>*\<^sup>* g g'" if run: "clip_insert env res (clip, g) = Some (r, clip', g')"
  proof -
    obtain xs d t where "moveCells env res xs d d (Some True) t None g = Some (r, g')"
      using run by (auto simp: clip_insert_def Let_def bind_eq_Some_conv importCells_def)
    from call_move [OF this] show ?thesis using assms none by (blast intro: r_into_rtranclp)
  qed
qed

subsection \<open>Sound pages\<close>

text \<open>Commands that make new cells need a store that has no links yet for the cells that are not there.\<close>

definition makes_cells :: "command \<Rightarrow> bool" where
  "makes_cells c \<longleftrightarrow> c \<in> {Cut, Copy, Paste, Group}"

lemma history_step_keeps:
  assumes "page_history_step E run p = Some p'" and "page_ok p"
    and "\<And>m s. um_bounds m \<Longrightarrow> um_bounds (fst (run m s))" and "\<And>m s. model_ok s \<Longrightarrow> model_ok (snd (run m s))"
  shows "page_ok p'"
proof -
  obtain h s where run: "run (pg_history p) (Some (pg_graph p)) = (h, s)" by (cases "run (pg_history p) (Some (pg_graph p))")
  have ok: "um_bounds h" "model_ok s"
    using assms(3) [of "pg_history p" "Some (pg_graph p)"] assms(4) [of "Some (pg_graph p)" "pg_history p"] assms(2) run
    by (simp_all add: page_ok_def)
  obtain g g' evs where g: "s = Some g" "for_each heard evs g = Some g'" "p' = p\<lparr>pg_graph := g', pg_history := h\<rparr>"
    using assms(1) run by (auto simp: page_history_step_def bind_eq_Some_conv split: if_splits)
  have one: "g_model y = g_model x" if "heard ev x = Some y" for ev x y
    using that by (cases ev) (auto simp: undoHandler_def)
  have "g_model g' = g_model g"
    by (rule for_each_inv [OF g(2), where P = "\<lambda>t. g_model t = g_model g"]) (auto dest: one)
  with ok g show ?thesis by (simp add: page_ok_def model_ok_def)
qed

lemma view_command_keeps:
  assumes "just_graph E f p = Some p'" and "page_ok p" and "\<And>g g'. f g = Some g' \<Longrightarrow> g_model g' = g_model g"
  shows "page_ok p'"
  using just_graph_keeps [OF assms(1,2)] assms(3) by (simp add: model_ok_def)

lemma zoom_command_keeps:
  assumes "page_zoom E f p = Some p'" and "page_ok p" and "\<And>k g. same_model_snd g (f k g)"
  shows "page_ok p'"
proof -
  from assms(1) obtain k q where q: "on_graph E (f (pg_container p)) p = Some (k, q)" "p' = q\<lparr>pg_container := k\<rparr>"
    by (auto simp: page_zoom_def)
  have "page_ok q"
    by (rule on_graph_keeps [OF q(1) assms(2)]) (use assms(3) in \<open>auto simp: same_model_snd_def model_ok_def\<close>)
  then show ?thesis by (simp add: q(2) page_ok_def)
qed

text \<open>A call, after which something is selected.\<close>

lemma call_command_keeps:
  assumes "map_option (\<lambda>(x, q). select_on (f x) q) (on_graph E call p) = Some p'" and "page_ok p"
    and "\<And>x g'. call (pg_graph p) = Some (x, g') \<Longrightarrow> graph_call (pg_graph p) g'"
    and "\<And>x g. g_model (f x g) = g_model g"
  shows "page_ok p'"
proof -
  obtain x q where q: "on_graph E call p = Some (x, q)" "p' = select_on (f x) q" using assms(1) by auto
  have "page_ok q" by (rule on_graph_keeps [OF q(1) assms(2)]) (auto intro: call_keeps dest: assms(3))
  then show ?thesis unfolding q(2) by (rule select_keeps) (rule assms(4))
qed

lemma clip_command_keeps:
  assumes "on_graph E (\<lambda>g. map_option snd (f (pg_clipboard p, g))) p = Some (clip, q)" and "page_ok p"
    and "\<And>r clip' g'. f (pg_clipboard p, pg_graph p) = Some (r, clip', g') \<Longrightarrow> graph_call\<^sup>*\<^sup>* (pg_graph p) g'"
  shows "page_ok (q\<lparr>pg_clipboard := clip\<rparr>)"
proof -
  have "page_ok q"
    by (rule on_graph_keeps [OF assms(1,2)]) (auto dest: assms(3) intro: calls_keep)
  then show ?thesis by (simp add: page_ok_def)
qed

lemma paste_keeps:
  assumes "page_paste E p = Some p'" and "page_ok p" and "fresh_links (g_model (pg_graph p))"
  shows "page_ok p'"
proof (cases "clip_isEmpty (pg_clipboard p)")
  case False
  with assms(1) obtain cells clip q where
    q: "on_graph E (\<lambda>g. map_option (\<lambda>(cells, clip, g). ((cells, clip), g))
         (clip_insert (pe_browser E) (pe_resources E) (pg_clipboard p, g))) p = Some ((cells, clip), q)"
    "p' = select_on (setSelectionCells cells) (q\<lparr>pg_clipboard := clip\<rparr>)" by (auto simp: page_paste_def)
  have "page_ok q"
    by (rule on_graph_keeps [OF q(1) assms(2)]) (auto dest: clip_calls(3) [OF assms(3)] intro: calls_keep)
  then have "page_ok (q\<lparr>pg_clipboard := clip\<rparr>)" by (simp add: page_ok_def)
  then show ?thesis unfolding q(2) by (rule select_keeps) simp
qed (use assms in \<open>simp add: page_paste_def\<close>)

lemma command_keeps:
  assumes "run_command E c p = Some p'" and "page_ok p" and "makes_cells c \<Longrightarrow> fresh_links (g_model (pg_graph p))"
  shows "page_ok p'"
proof (cases "makes_cells c")
  case True
  note fresh = assms(3) [OF True]
  from True consider "c = Cut" | "c = Copy" | "c = Paste" | "c = Group" by (auto simp: makes_cells_def)
  then show ?thesis
  proof cases
    case 1
    with assms(1) show ?thesis
      using clip_command_keeps [OF _ assms(2), of E "clip_cut (pe_resources E) None"] clip_calls(2) [OF fresh]
      by (auto simp: page_cut_def)
  next
    case 2
    with assms(1) show ?thesis
      using clip_command_keeps [OF _ assms(2), of E "clip_copy (pe_resources E) None"] clip_calls(1) [OF fresh]
      by (auto simp: page_copy_def)
  next
    case 3
    with assms(1) paste_keeps [OF _ assms(2) fresh] show ?thesis by simp
  next
    case 4
    with assms(1) call_command_keeps [OF _ assms(2), of "\<lambda>c. setSelectionCell (Some c)" E "groupCells (pe_browser E) None (Some 20) None"]
    show ?thesis using call_group [OF _ fresh] by simp
  qed
next
  case False
  note view = view_command_keeps [OF _ assms(2), of E _ p']
  have zooms: "same_model_snd g (zoomIn env z k g)" "same_model_snd g (zoomOut env z k g)" for env z k g
    by (simp_all add: zoomIn_def zoomOut_def zoom_keeps_model same_model_rules)
  show ?thesis
    using assms(1) False
  proof (cases c)
    case (Fold b)
    with assms(1) show ?thesis
      by (auto intro!: just_graph_keeps [OF _ assms(2), of E _ p'] intro: call_keeps [OF call_fold])
  next
    case Delete
    with assms(1) show ?thesis
      by (auto intro!: just_graph_keeps [OF _ assms(2), of E _ p'] intro: call_keeps [OF call_remove])
  next
    case Ungroup
    with assms(1) call_command_keeps [OF _ assms(2), of "\<lambda>cs. setSelectionCells (Some cs)" E "ungroupCells (pe_browser E) None"]
    show ?thesis using call_ungroup by simp
  next
    case StartEditing
    with assms(1,2) show ?thesis by (auto simp: page_edit_def Let_def page_ok_def split: if_splits)
  next
    case Redo
    with assms(1) show ?thesis
      using history_step_keeps [OF _ assms(2), of E "um_redo (page_ops (pe_painter E))"]
      by (simp add: page_redo_def um_bounds_redo page_edits.history_keeps)
  next
    case Undo
    with assms(1) show ?thesis
      using history_step_keeps [OF _ assms(2), of E "um_undo (page_ops (pe_painter E))"]
      by (simp add: page_undo_def um_bounds_undo page_edits.history_keeps)
  qed (use select_keeps [OF assms(2)] zoom_command_keeps [OF _ assms(2)] zooms in
      \<open>auto simp: makes_cells_def selectAll_def Let_def intro!: view dest: model_navigation\<close>)
qed

subsection \<open>The page as a transition system\<close>

definition bound_to :: "key_event \<Rightarrow> page \<Rightarrow> command option" where
  "bound_to evt p =
     (case fst (keyDown \<lparr>kg_enabled = True, kg_editing = (pg_editing p \<noteq> None), kg_escapeEnabled = True\<rparr> evt page_keys) of
        CallKey c \<Rightarrow> Some c | _ \<Rightarrow> None)"

inductive page_step :: "page_env \<Rightarrow> page \<Rightarrow> page \<Rightarrow> bool" for E where
  step_key: "press E evt p = Some p' \<Longrightarrow>
    (\<And>c. bound_to evt p = Some c \<Longrightarrow> makes_cells c \<Longrightarrow> fresh_links (g_model (pg_graph p))) \<Longrightarrow> page_step E p p'"
| step_label: "finish_edit E label p = Some p' \<Longrightarrow> page_step E p p'"
| step_menu: "menu_command key = Some c \<Longrightarrow> run_command E c p = Some p' \<Longrightarrow> page_step E p p'"
| step_reset: "reset_zoom E p = Some p' \<Longrightarrow> page_step E p p'"
| step_factor: "page_step E p (set_factor f p)"
| step_click: "click_on E cell x y live toggle through p = Some p' \<Longrightarrow> page_step E p p'"

lemma click_keeps_model: "graph_click env cell x y live toggle through g = Some g' \<Longrightarrow> g_model g' = g_model g"
proof -
  have "g_model (selectCellForEvent c toggle g) = g_model g" for c by (simp add: selectCellForEvent_def Let_def)
  then show "graph_click env cell x y live toggle through g = Some g' \<Longrightarrow> g_model g' = g_model g"
    by (auto simp: graph_click_def split: if_splits)
qed

lemma page_step_keeps: "page_step E p p' \<Longrightarrow> page_ok p \<Longrightarrow> page_ok p'"
proof (induction rule: page_step.induct)
  case (step_key evt p p')
  show ?case
  proof (cases "bound_to evt p")
    case None
    with step_key show ?thesis by (auto simp: press_def bound_to_def split: key_answer.splits)
  next
    case (Some c)
    with step_key have "run_command E c p = Some p'" by (auto simp: press_def bound_to_def split: key_answer.splits)
    then show ?thesis using command_keeps step_key(2,3) Some by blast
  qed
next
  case (step_label label p p')
  let ?p = "p\<lparr>pg_editing := None\<rparr>"
  have ok: "page_ok ?p" using step_label(2) by (simp add: page_ok_def)
  have "p' = ?p \<or> (\<exists>c v. just_graph E (labelChanged (pe_browser E) c v) ?p = Some p')"
    using step_label(1) by (auto simp: finish_edit_def split: option.splits)
  then show ?case
    using ok just_graph_keeps [OF _ ok] call_keeps [OF call_label] by metis
next
  case (step_menu key c p p')
  then have "\<not> makes_cells c" by (auto simp: menu_command_def makes_cells_def split: if_splits)
  with step_menu show ?case using command_keeps by blast
next
  case (step_reset p p')
  then obtain q where q: "just_graph E (zoomActual (pe_painter E)) p = Some q"
    "p' = q\<lparr>pg_zoom := (pg_zoom q)\<lparr>zoomFactor := 6 / 5\<rparr>\<rparr>" by (auto simp: reset_zoom_def)
  have "page_ok q"
    by (rule view_command_keeps [OF q(1) step_reset(2)])
      (use same_model_view(2,3) in \<open>auto simp: zoomActual_def same_model_out_def split: if_splits\<close>)
  then show ?case by (simp add: q(2) page_ok_def)
next
  case (step_factor p f)
  then show ?case by (simp add: set_factor_def page_ok_def)
next
  case (step_click cell x y live toggle through p p')
  then show ?case by (auto simp: click_on_def page_ok_def model_ok_def dest!: click_keeps_model)
qed

lemma page_setup_model [simp]: "g_model (page_setup g) = g_model g"
  by (simp add: page_setup_def Let_def setDropEnabled_def setCellsEditable_def setMultigraph_def setSplitEnabled_def
      setCellsResizable_def setVertexLabelsMovable_def setAllowDanglingEdges_def setConstrainRelativeChildren_def)

text \<open>C2: Whatever keys are pressed on the page of the editor, whatever labels are edited and cells clicked, with the listeners
  of the graph and of the history called after each command: between two commands no update is open, children arrays and parent references
  and edge lists and terminals agree, no child and no edge is listed twice, and the history holds at most 100 edits with
  the next position to add at within them.  A command that makes cells takes references that nothing has been linked to.\<close>

theorem page_stays_sound:
  assumes "(page_step E)\<^sup>*\<^sup>* (new_page m k) p" and "struct_inv m" and "at_rest m"
  shows "at_rest (g_model (pg_graph p)) \<and>
    (\<forall>q. distinct (children_of (g_model (pg_graph p)) q)) \<and>
    (\<forall>q c. c \<in> set (children_of (g_model (pg_graph p)) q) \<longleftrightarrow> cell_getParent c (g_model (pg_graph p)) = Some q) \<and>
    (\<forall>t. distinct (edges_of (g_model (pg_graph p)) t)) \<and>
    (\<forall>t e. e \<in> set (edges_of (g_model (pg_graph p)) t) \<longrightarrow>
       (\<exists>b. cell_getTerminal e b (g_model (pg_graph p)) = Some t)) \<and>
    indexOfNextAdd (pg_history p) \<le> length (history (pg_history p)) \<and> length (history (pg_history p)) \<le> 100"
proof -
  have "page_ok (new_page m k)"
    using assms(2,3)
    by (simp add: page_ok_def model_ok_def new_page_def um_bounds_def new_mxUndoManager_def um_clear_def um_fire_def)
  with assms(1) have ok: "page_ok p"
    by (induction rule: rtranclp_induct) (auto intro: page_step_keeps)
  then have "tree_inv (g_model (pg_graph p))" "edge_inv (g_model (pg_graph p))"
    by (simp_all add: page_ok_def model_ok_def struct_inv_def)
  with ok show ?thesis
    using tree_invD [of "g_model (pg_graph p)"] edge_invD(1) [of "g_model (pg_graph p)"] edge_inv_def [of "g_model (pg_graph p)"]
    by (auto simp: page_ok_def model_ok_def um_bounds_def cell_getParent_def)
qed

subsection \<open>Keys that do nothing\<close>

text \<open>The page lets no cell be folded.\<close>

lemma not_foldable:
  assumes "own_isCellFoldable g = Some page_isCellFoldable"
  shows "getFoldableCells cs g = Some []"
proof -
  have "isCellFoldable c g = Some False" for c by (simp add: isCellFoldable_def assms page_isCellFoldable_def)
  then show ?thesis unfolding getFoldableCells_def by (induction cs) simp_all
qed


lemma bound_command:
  assumes "bound_to evt p = Some c"
  shows "press E evt p = run_command E c p" "last_bound (ctrlKey evt) (shiftKey evt) (keyCode evt) page_bindings = Some c"
proof -
  have "fst (keyDown \<lparr>kg_enabled = True, kg_editing = (pg_editing p \<noteq> None), kg_escapeEnabled = True\<rparr> evt page_keys) = CallKey c"
    using assms by (simp add: bound_to_def split: key_answer.splits)
  then show "press E evt p = run_command E c p" "last_bound (ctrlKey evt) (shiftKey evt) (keyCode evt) page_bindings = Some c"
    by (auto simp: press_def keyDown_def page_keys_def getFunction_table table_fold split: if_splits option.splits)
qed

lemma silent_events:
  assumes "\<forall>ev \<in> set evs. \<forall>e. ev \<noteq> EvChange e \<and> ev \<noteq> EvUndo e"
  shows "for_each (deliver env) evs s = Some s"
  using assms
proof (induction evs)
  case (Cons ev evs)
  have "deliver env ev s = Some s" using Cons.prems by (cases ev; cases s) auto
  with Cons show ?case by simp
qed simp

lemma record_nothing: "g_view g' = g_view g \<Longrightarrow> record_roots g g' h = h"
  by (simp add: record_roots_def root_edits_def)

lemma empty_update:
  assumes "at_rest m"
  obtains evs where "same_model (endUpdate (beginUpdate m)) m" "m_fired (endUpdate (beginUpdate m)) = m_fired m @ evs"
    "\<forall>ev \<in> set evs. \<forall>e. ev \<noteq> EvChange e \<and> ev \<noteq> EvUndo e"
proof -
  note b = beginUpdate_rest [OF assms]
  have "currentEdit (beginUpdate m) = (createUndoableEdit None)\<lparr>changes := []\<rparr>"
    by (simp add: b(3) createUndoableEdit_def new_mxUndoableEdit_def)
  note e = endUpdate_rest [OF b(1,2) this]
  show thesis
    by (rule that [of "[EvBeginUpdate, EvStartEdit, EvEndEdit, EvEndUpdate (currentEdit (beginUpdate m))]"])
      (use same_model_trans [OF e(2) b(5)] e(3) b(4) in auto)
qed

text \<open>C40: The page binds backspace and enter to folding and unfolding what is selected, but lets no cell be folded: the keys
  change no cell, no state of the view, no selection and not the history.\<close>

theorem fold_keys_do_nothing:
  assumes "own_isCellFoldable (pg_graph p) = Some page_isCellFoldable" and "at_rest (g_model (pg_graph p))"
    and "bound_to evt p = Some (Fold b)"
  shows "keyCode evt \<in> {8, 13} \<and>
    (\<exists>p'. press E evt p = Some p' \<and> same_model (g_model (pg_graph p')) (g_model (pg_graph p)) \<and>
      g_view (pg_graph p') = g_view (pg_graph p) \<and> selectionModel (pg_graph p') = selectionModel (pg_graph p) \<and>
      pg_history p' = pg_history p)"
proof -
  let ?g = "pg_graph p"
  let ?m = "endUpdate (beginUpdate (g_model ?g))"
  let ?g' = "g_fire (EvFoldCells b False (Some [])) (?g\<lparr>g_model := ?m\<rparr>)"
  obtain evs where evs: "same_model ?m (g_model ?g)" "m_fired ?m = m_fired (g_model ?g) @ evs"
    "\<forall>ev \<in> set evs. \<forall>e. ev \<noteq> EvChange e \<and> ev \<noteq> EvUndo e" by (rule empty_update [OF assms(2)])
  have "foldCells (pe_browser E) b None None False ?g = Some ([], ?g')"
    by (simp add: foldCells_def not_foldable [OF assms(1)] in_update_do_def cellsFolded_def g_fire_def)
  moreover have "settle (pe_painter E) ?g ?g' (pg_history p) = Some (?g', pg_history p)"
    by (simp add: settle_def evs(2) silent_events [OF evs(3)] record_nothing g_fire_def)
  ultimately have "run_command E (Fold b) p = Some (p\<lparr>pg_graph := ?g', pg_history := pg_history p\<rparr>)"
    by (simp add: just_graph_def on_graph_def)
  moreover have "keyCode evt \<in> {8, 13}"
    using bound_command(2) [OF assms(3)] by (auto simp: last_bound_def page_bindings_def split: if_splits)
  ultimately show ?thesis using evs(1) bound_command(1) [OF assms(3)] by (simp add: g_fire_def)
qed

lemma drawing_rest: "at_rest drawing" "struct_inv drawing"
proof -
  show "at_rest drawing" by (simp add: at_rest_def drawing_def empty_model_def)
  show "struct_inv drawing" using drawing_tree by (simp add: struct_inv_def edge_inv_def drawing_facts)
qed

definition plain_key :: "nat \<Rightarrow> key_event" where
  "plain_key code = \<lparr>keyCode = code, altKey = False, ctrlKey = False, shiftKey = False, ke_consumed = False, from_graph = True\<rparr>"

lemma drawing_page:
  "bound_to (plain_key 8) (new_page drawing bare_container) = Some (Fold True)"
  "bound_to (plain_key 39) (new_page drawing bare_container) = Some SelectNext"
  "own_isCellFoldable (pg_graph (new_page drawing bare_container)) = Some page_isCellFoldable"
  "g_model (pg_graph (new_page drawing bare_container)) = drawing"
proof -
  have keys: "kh_enabled page_keys" "table ctrl shift page_keys code = last_bound ctrl shift code page_bindings" for ctrl shift code
    by (simp_all only: page_keys_def enabled_fold table_fold) (simp add: new_mxKeyHandler_def)
  show "bound_to (plain_key 8) (new_page drawing bare_container) = Some (Fold True)"
    "bound_to (plain_key 39) (new_page drawing bare_container) = Some SelectNext"
    by (simp_all add: bound_to_def keyDown_def isEnabledForEvent_def kh_isEnabled_def keys new_page_def kh_isEventIgnored_def
        getFunction_table plain_key_def last_bound_def page_bindings_def)
  show "own_isCellFoldable (pg_graph (new_page drawing bare_container)) = Some page_isCellFoldable"
    by (simp add: new_page_def page_setup_def Let_def)
  show "g_model (pg_graph (new_page drawing bare_container)) = drawing"
    by (simp add: new_page_def graph_defaults)
qed

definition plain_env :: page_env where
  "plain_env = \<lparr>pe_painter = blind, pe_browser = \<lparr>trig = \<lambda>_. (1, 0), preferred_size = \<lambda>_ _. None\<rparr>,
     pe_resources = \<lparr>resources = [], language = ''en''\<rparr>\<rparr>"

theorem fold_keys_do_nothing_witness:
  "\<exists>p'. press plain_env (plain_key 8) (new_page drawing bare_container) = Some p' \<and> same_model (g_model (pg_graph p')) drawing"
  using fold_keys_do_nothing [OF drawing_page(3) _ drawing_page(1)] drawing_rest(1) by (simp add: drawing_page(4)) blast

theorem page_stays_sound_witness:
  "\<exists>p. press plain_env (plain_key 39) (new_page drawing bare_container) = Some p \<and> children_of (g_model (pg_graph p)) 1 = [2] \<and>
     at_rest (g_model (pg_graph p))"
proof -
  let ?p = "select_on selectNextCell (new_page drawing bare_container)"
  have "press plain_env (plain_key 39) (new_page drawing bare_container) = Some ?p"
    by (simp add: bound_command(1) [OF drawing_page(2)])
  moreover from this have "page_step plain_env (new_page drawing bare_container) ?p"
    by (rule step_key) (use drawing_page(2) in \<open>simp add: makes_cells_def\<close>)
  then have "at_rest (g_model (pg_graph ?p))"
    using page_stays_sound [OF r_into_rtranclp drawing_rest(2,1)] by blast
  moreover have "children_of (g_model (pg_graph ?p)) 1 = [2]"
    by (simp add: select_on_def drawing_page(4) drawing_children)
  ultimately show ?thesis by blast
qed

end
