(* ===== verification/Live.thy ===== *)
theory Live
  imports Undo
begin

subsection \<open>Undo to the start, redo to the end\<close>

fun undo_times :: "nat \<Rightarrow> ('c, 's) edit_ops \<Rightarrow> 'c mxUndoManager \<Rightarrow> 's \<Rightarrow> 'c mxUndoManager \<times> 's" where
  "undo_times 0 ops m s = (m, s)"
| "undo_times (Suc n) ops m s = (let (m, s) = um_undo ops m s in undo_times n ops m s)"

fun redo_times :: "nat \<Rightarrow> ('c, 's) edit_ops \<Rightarrow> 'c mxUndoManager \<Rightarrow> 's \<Rightarrow> 'c mxUndoManager \<times> 's" where
  "redo_times 0 ops m s = (m, s)"
| "redo_times (Suc n) ops m s = (let (m, s) = um_redo ops m s in redo_times n ops m s)"

lemma undo_loop_goes_back:
  "indexOfNextAdd m = k \<Longrightarrow> indexOfNextAdd (fst (um_undo_loop ops k m s)) \<le> k - 1 \<and>
     length (history (fst (um_undo_loop ops k m s))) = length (history m)"
proof (induction k arbitrary: m s)
  case (Suc k)
  let ?e = "edit_undo ops (history m ! k) s"
  let ?m = "m\<lparr>indexOfNextAdd := k, history := (history m)[k := fst ?e]\<rparr>"
  have "indexOfNextAdd (fst (um_undo_loop ops k ?m (snd ?e))) \<le> k - 1 \<and>
      length (history (fst (um_undo_loop ops k ?m (snd ?e)))) = length (history m)"
    using Suc.IH [of ?m "snd ?e"] by simp
  then show ?case by (auto simp: split_beta Let_def um_fire_def)
qed simp

lemma redo_loop_goes_on:
  "indexOfNextAdd m + r = length (history m) \<Longrightarrow>
   indexOfNextAdd m + min r 1 \<le> indexOfNextAdd (fst (um_redo_loop ops r m s)) \<and>
   indexOfNextAdd (fst (um_redo_loop ops r m s)) \<le> length (history m) \<and>
   length (history (fst (um_redo_loop ops r m s))) = length (history m)"
proof (induction r arbitrary: m s)
  case (Suc r)
  let ?k = "indexOfNextAdd m"
  let ?e = "edit_redo ops (history m ! ?k) s"
  let ?m = "m\<lparr>indexOfNextAdd := Suc ?k, history := (history m)[?k := fst ?e]\<rparr>"
  have "Suc ?k \<le> indexOfNextAdd (fst (um_redo_loop ops r ?m (snd ?e))) \<and>
      indexOfNextAdd (fst (um_redo_loop ops r ?m (snd ?e))) \<le> length (history m) \<and>
      length (history (fst (um_redo_loop ops r ?m (snd ?e)))) = length (history m)"
    using Suc.IH [of ?m "snd ?e"] Suc.prems by auto
  then show ?case using Suc.prems by (auto simp: split_beta Let_def um_fire_def)
qed simp

lemma undo_times_back:
  "indexOfNextAdd (fst (undo_times n ops m s)) \<le> indexOfNextAdd m - n \<and>
   length (history (fst (undo_times n ops m s))) = length (history m)"
proof (induction n arbitrary: m s)
  case (Suc n)
  show ?case
    using undo_loop_goes_back [of m "indexOfNextAdd m" ops s] Suc [of "fst (um_undo ops m s)" "snd (um_undo ops m s)"]
    by (auto simp: split_beta um_undo_def)
qed simp

lemma redo_times_on:
  "indexOfNextAdd m \<le> length (history m) \<Longrightarrow>
   min (indexOfNextAdd m + n) (length (history m)) \<le> indexOfNextAdd (fst (redo_times n ops m s)) \<and>
   indexOfNextAdd (fst (redo_times n ops m s)) \<le> length (history m) \<and>
   length (history (fst (redo_times n ops m s))) = length (history m)"
proof (induction n arbitrary: m s)
  case (Suc n)
  have step: "indexOfNextAdd m + min (length (history m) - indexOfNextAdd m) 1 \<le> indexOfNextAdd (fst (um_redo ops m s))"
    "indexOfNextAdd (fst (um_redo ops m s)) \<le> length (history m)"
    "length (history (fst (um_redo ops m s))) = length (history m)"
    using redo_loop_goes_on [of m "length (history m) - indexOfNextAdd m" ops s] Suc.prems by (simp_all add: um_redo_def)
  show ?case
    using Suc.IH [of "fst (um_redo ops m s)" "snd (um_redo ops m s)"] step by (auto simp: split_beta min_def split: if_splits)
qed simp

text \<open>C17: A user who keeps undoing comes to the start of the history, and one who keeps redoing to its end: as many calls
  as there are edits are enough, whatever edits are significant and whatever the edits do; no edit is lost on the way.\<close>

theorem undo_reaches_start_redo_reaches_end:
  assumes "um_inv m" and "length (history m) \<le> n"
  shows "\<not> canUndo (fst (undo_times n ops m s)) \<and> \<not> canRedo (fst (redo_times n ops m s)) \<and>
    length (history (fst (undo_times n ops m s))) = length (history m) \<and>
    length (history (fst (redo_times n ops m s))) = length (history m) \<and>
    (history m \<noteq> [] \<longrightarrow> canRedo (fst (undo_times n ops m s)) \<and> canUndo (fst (redo_times n ops m s)))"
proof -
  have "indexOfNextAdd m \<le> length (history m)" using assms(1) by (simp add: um_inv_def)
  then show ?thesis
    using undo_times_back [of n ops m s] redo_times_on [of m n ops s] assms(2)
    by (cases "history m") (auto simp: canUndo_def canRedo_def)
qed

theorem undo_reaches_start_redo_reaches_end_witness:
  "\<not> canUndo (fst (undo_times 1 idle_ops (fst (undoableEditHappened (new_mxUndoableEdit (Some False)) (new_mxUndoManager None) ())) 0))"
  using undo_reaches_start_redo_reaches_end
    [OF um_inv_happened [OF um_inv_new, of "new_mxUndoableEdit (Some False)" None "()"], of 1 idle_ops 0]
  by (simp add: new_mxUndoableEdit_def edit_happened_history new_mxUndoManager_def um_clear_def um_fire_def)

end
