(* ===== verification/Spec2Isabelle.thy ===== *)
theory Spec2Isabelle
  imports Geometry Planar Stylesheet Events ModelSteps Cloning Dictionary Selection
    Validation GraphQueries GraphSteps ViewProps Hover Palette HitTest ViewFrame Zoom Keys EditorPage Live
begin

text \<open>
  A verification library for the diagram editor of the gateway server: the editor page (js/MXGraph.js,
  js/leftpanel.js, js/mouse.js) and the part of the mxGraph library it drives that decides what a diagram is
  (mxgraph/src/js), both under gatway-server/src/main/resources/static/resources.  The Java services of the
  repository configure frameworks that are not in it and are left out.

  \<^bold>\<open>How the program is put together.\<close>  A diagram is a tree of cells (model/mxCell.js) with edges that refer to
  their terminals, kept by the model (model/mxGraphModel.js).  Every change of a diagram is a change object that
  the model executes within \<open>beginUpdate\<close> and \<open>endUpdate\<close>; the outermost \<open>endUpdate\<close> announces the changes as
  one undoable edit (util/mxUndoableEdit.js), which an undo manager (util/mxUndoManager.js) records.  The graph
  (view/mxGraph.js) turns what a user does (inserting, moving, resizing, connecting, grouping, folding, cloning)
  into such changes, guided by style sheets (view/mxStylesheet.js), rules for edges (view/mxMultiplicity.js) and
  the selection (view/mxGraphSelectionModel.js).  The view (view/mxGraphView.js) keeps for each shown cell a
  state with its place on the page, and is validated again after each change of the model, of the scale or of
  the translation.  The page sets the graph up, fills the palette and binds the keys.

  \<^bold>\<open>Theories, with the source files they model.\<close>
    \<^item> \<open>Prelude\<close>, \<open>JsString\<close>: numbers, arrays, objects and strings of JavaScript as the sources use them.
    \<^item> \<open>Geometry\<close>, \<open>Planar\<close>: util/mxPoint.js, util/mxRectangle.js, model/mxGeometry.js, and the planar geometry
      of util/mxUtils.js.
    \<^item> \<open>Style\<close>, \<open>Stylesheet\<close>: the style strings of util/mxUtils.js, view/mxStylesheet.js, view/mxStyleRegistry.js.
    \<^item> \<open>Events\<close>, \<open>Undo\<close>: util/mxEventSource.js and mxEventObject.js; mxUndoManager.js and mxUndoableEdit.js, for
      any type of change objects (a record of their methods is an argument).
    \<^item> \<open>Cell\<close>, \<open>Paths\<close>: model/mxCell.js, model/mxCellPath.js.  Cells live in a store, a reference is a number;
      geometries and element nodes are objects of the store of their own.
    \<^item> \<open>Model\<close>, \<open>ModelChange\<close>, \<open>ModelQueries\<close>: model/mxGraphModel.js: the queries, the change objects and their
      execution, the update level.  \<open>ModelInv\<close>, \<open>ModelIds\<close>, \<open>ModelUndo\<close>, \<open>ModelSteps\<close>, \<open>ModelProps\<close> hold
      what is proved of it; \<open>Diagram\<close>, \<open>Subtrees\<close>, \<open>ChangeEffect\<close>, \<open>Reversal\<close>, \<open>Transactions\<close> say what each change
      object does to the diagram, show that its execution does that, and that undo takes it back; \<open>Cloning\<close> has \<open>cloneCells\<close>, \<open>Dictionary\<close> util/mxDictionary.js and
      util/mxObjectIdentity.js, \<open>Selection\<close> the selection model.
    \<^item> \<open>Graph\<close>, \<open>Validation\<close>, \<open>GraphQueries\<close>, \<open>GraphGeometry\<close>, \<open>GraphResize\<close>, \<open>GraphSelection\<close>, \<open>GraphOps\<close>,
      \<open>GraphCells\<close>, \<open>GraphMove\<close>: view/mxGraph.js, in the order of its sections; \<open>CloneSteps\<close> and \<open>GraphSteps\<close> show
      what its editing calls do to the model.
    \<^item> \<open>View\<close>, \<open>ViewPoints\<close>, \<open>ViewUpdate\<close>: view/mxGraphView.js and view/mxCellState.js, and what the graph does with
      the view; \<open>ViewStates\<close>, \<open>ViewPlaces\<close>, \<open>ViewValid\<close>, \<open>ViewShows\<close>, \<open>ViewProps\<close> hold what is proved of it.
    \<^item> \<open>HitTest\<close>, \<open>Zoom\<close>: what of view/mxGraph.js finds cells by their place (points, rubber bands, drop targets,
      clicks), and what zooms, scrolls and fits the view; \<open>ViewFrame\<close> shows what operations of the view leave alone.
    \<^item> \<open>Keys\<close>: handler/mxKeyHandler.js and util/mxClipboard.js.  \<open>Live\<close>: repeated undo and redo.
    \<^item> \<open>EditorPage\<close>: js/MXGraph.js: the graph as the page sets it up, its keys and commands, and its history of the
      edits of the model and of the view.
    \<^item> \<open>Hover\<close>: js/mouse.js.  \<open>Palette\<close>: js/leftpanel.js, and the data form of js/MXGraph.js.

  \<^bold>\<open>How state and operations correspond.\<close>  An object is a record, its methods are functions with the state as
  last argument that return the state changed; a function keeps the name it has in the source, with a prefix
  where several classes have it (\<open>cell_\<close>, \<open>m_\<close>, \<open>graph_\<close>, \<open>view_\<close>, \<open>um_\<close>, \<open>sel_\<close>).  \<open>null\<close> and absent arguments are
  \<open>None\<close>; a TypeError, and a number that is none, is the result \<open>None\<close> of a function that may fail.  Events are
  kept as logs, in the order they are fired.  Numbers are exact rationals, where the browser rounds.  A method
  that the page overrides is a field of the graph that holds the page's function (\<open>own_isCellVisible\<close> and others).
  The page calls the listeners after each command, on the events fired while it ran (\<open>settle\<close>), where the code calls
  them at the events, which end the outermost update; an undo during which the view leaves its current root, so that
  an edit is added to the history that is being walked through, is \<open>None\<close>.  A scroll position is the one that
  is asked for, before the browser limits it.

  \<^bold>\<open>What the lemmas show.\<close>
    \<^item> Structure: children arrays and parent references agree, edge lists hold edges that end there, without
      duplicates; all operations of the model, undo and redo, and all editing calls of the graph, cloning
      included, keep this (locales \<open>kept_by_changes\<close> to \<open>kept_by_calls\<close>, interpreted with the invariants).
    \<^item> Edits: an update announces one edit with its changes; every change object implements what \<open>after\<close> says of it
      (\<open>change_executes\<close>), and the undo manager brings the diagram back and forth, cells that were added or removed
      included (locale \<open>reversible_changes\<close>); each editing call of the graph is one edit.
    \<^item> Queries: ancestors, roots, descendants, common ancestors and topmost cells are those of the parent relation;
      paths and identifiers are unique; cloning is an isomorphism.
    \<^item> Styles, edge rules, traversal, selection, dispatch of events.
    \<^item> The view: validation shows the cells that are reachable through open visible ones, and puts each vertex with
      absolute geometries on its path at its translated and scaled origin, from states that are settled, which it
      leaves settled again; after a change of scale or translation from any states that hang together.
    \<^item> Places: \<open>getCellAt\<close> finds the cell in front, a click through the selection the cell behind, a centered zoom
      keeps the middle, and \<open>fit\<close> fits.
    \<^item> The page: whatever keys are pressed, the model stays consistent and the history within its bounds (locale
      \<open>kept_by_ops\<close>, interpreted with the page's edits); the function bound last is the one that is called; the icon under the mouse, the look of dropped items, and the data that the form changes.

  \<^bold>\<open>Bounds and fuel.\<close>  Recursion along the tree of cells, which the store does not bound by itself, takes fuel.
  \<open>walk_fuel\<close> is one more than the number of cells of the store; a chain of parents is shorter where the parent
  relation is well-founded (\<open>ancestors_length\<close>), and functions that need the fuel are proved to return
  (\<open>hierarchy_queries\<close>, \<open>traverse_visits_reachable\<close>, \<open>validateGraph_reports\<close>, \<open>cloneCell_isomorphic\<close>,
  \<open>view_validate_returns\<close>).  \<open>validateCellState\<close> goes up and then down the tree and takes \<open>2 * Suc walk_fuel\<close>;
  \<open>invalidate\<close> marks the cells it is at and takes \<open>Suc walk_fuel\<close>.

  \<^bold>\<open>Not modelled, and why.\<close>  Painting (shape/, the canvases, view/mxCellRenderer.js), the handlers of the mouse with
  their previews (handler/, but for the keys), windows, toolbars and the codecs to XML are about DOM documents and
  events of the browser; the routes of edges and the perimeters that style sheets name are functions the
  view is given (record \<open>painter\<close>), as are the sizes of rendered labels (record \<open>browser\<close>).  The layouts (layout/)
  are never run by the page.  mxClient.js and mxClient.min.js are builds of the sources modelled here; vue.js,
  bootstrap.js and the jQuery plugins are vendored.
\<close>

end
